(* ===== verification/Prelude.thy ===== *)
theory Prelude
  imports Main "HOL-Library.Word"
begin

text \<open>
  Shared material of the development: Rust results and panics, machine bytes and the
  big-endian reading of byte strings, three-way comparison, and the generic lemmas on
  lists that the components use. The error model follows \<^verbatim>\<open>src/sys/src/error.rs\<close>.
\<close>

named_theorems ret_simps \<open>unfolding of results\<close>
named_theorems codec_defs \<open>definitions of encoders, decoders and sizes\<close>
named_theorems ledger_defs \<open>definitions of the ledger operations\<close>

section \<open>Errors and results\<close>

datatype ErrorKind = Normal | Revert | Fault | Abort

text \<open>
  \<open>Error kind msg code\<close> is the struct of \<^verbatim>\<open>error.rs\<close>; messages keep the static
  text of the format string and leave the interpolated values out. \<open>Panic\<close> is not a
  value of the Rust type: it stands for the places where the code panics.
\<close>

datatype error =
    Error (err_kind: ErrorKind) (err_msg: string) (err_code: "string option")
  | Panic string

type_synonym 'a ret = "error + 'a"

fun rank :: "ErrorKind \<Rightarrow> nat" where
  "rank Normal = 0"
| "rank Revert = 1"
| "rank Fault = 2"
| "rank Abort = 3"

definition merge_upgrade_kind :: "ErrorKind \<Rightarrow> ErrorKind \<Rightarrow> ErrorKind" where
  "merge_upgrade_kind self other =
     (let mx = (if rank self \<ge> rank other then self else other);
          mixed_revert = ((self = Revert) \<noteq> (other = Revert))
      in if mixed_revert \<and> rank mx < rank Fault then Fault else mx)"

definition STATE_DECODE_FAILED_CODE :: string where
  "STATE_DECODE_FAILED_CODE = ''state_decode_failed''"

abbreviation normalf :: "string \<Rightarrow> 'a ret" where
  "normalf m \<equiv> Inl (Error Normal m None)"

abbreviation revertf :: "string \<Rightarrow> 'a ret" where
  "revertf m \<equiv> Inl (Error Revert m None)"

abbreviation errf :: "string \<Rightarrow> 'a ret" where
  "errf m \<equiv> Inl (Error Fault m None)"

abbreviation abortf :: "string \<Rightarrow> string \<Rightarrow> 'a ret" where
  "abortf m c \<equiv> Inl (Error Abort m (Some c))"

abbreviation panicf :: "string \<Rightarrow> 'a ret" where
  "panicf m \<equiv> Inl (Panic m)"

abbreviation Ok :: "'a \<Rightarrow> 'e + 'a" where
  "Ok x \<equiv> Inr x"

text \<open>The question mark operator, for any error type: go on with the value, or return the error.\<close>

definition try_ret :: "'e + 'a \<Rightarrow> ('a \<Rightarrow> 'e + 'b) \<Rightarrow> 'e + 'b" where
  "try_ret m f = (case m of Inl e \<Rightarrow> Inl e | Inr x \<Rightarrow> f x)"

lemma try_ret_simps [simp]:
  "try_ret (Inl e) f = Inl e"
  "try_ret (Inr x) f = f x"
  by (simp_all add: try_ret_def)

lemma try_ret_eq_Inr [simp]:
  "try_ret m f = Inr y \<longleftrightarrow> (\<exists>x. m = Inr x \<and> f x = Inr y)"
  by (cases m) auto

lemma try_ret_eq_Inl:
  "try_ret m f = Inl e \<longleftrightarrow> m = Inl e \<or> (\<exists>x. m = Inr x \<and> f x = Inl e)"
  by (cases m) auto

lemma try_ret_assoc: "try_ret (try_ret m f) g = try_ret m (\<lambda>x. try_ret (f x) g)"
  by (cases m) auto

lemma try_ret_cong [fundef_cong]:
  "m = m' \<Longrightarrow> (\<And>x. m' = Inr x \<Longrightarrow> f x = f' x) \<Longrightarrow> try_ret m f = try_ret m' f'"
  by (cases m') auto

text \<open>A guard: fail with an error unless the condition holds.\<close>

definition ensure :: "bool \<Rightarrow> 'e \<Rightarrow> 'e + unit" where
  "ensure b e = (if b then Inr () else Inl e)"

lemma ensure_simps [simp]:
  "ensure True e = Inr ()" "ensure False e = Inl e"
  by (simp_all add: ensure_def)

lemma ensure_eq_Inr [simp]: "ensure b e = Inr u \<longleftrightarrow> b"
  by (cases b) (auto simp: ensure_def)

text \<open>Option to result, \<^verbatim>\<open>ok_or_else\<close>.\<close>

definition ok_or :: "'a option \<Rightarrow> 'e \<Rightarrow> 'e + 'a" where
  "ok_or m e = (case m of None \<Rightarrow> Inl e | Some x \<Rightarrow> Inr x)"

lemma ok_or_simps [simp]: "ok_or None e = Inl e" "ok_or (Some x) e = Inr x"
  by (simp_all add: ok_or_def)

lemma ok_or_eq_Inr [simp]: "ok_or m e = Inr x \<longleftrightarrow> m = Some x"
  by (cases m) auto

section \<open>Three-way comparison\<close>

datatype Ordering = Less | Equal | Greater

definition cmp_of :: "'a::linorder \<Rightarrow> 'a \<Rightarrow> Ordering" where
  "cmp_of x y = (if x < y then Less else if x = y then Equal else Greater)"

fun reverse_ord :: "Ordering \<Rightarrow> Ordering" where
  "reverse_ord Less = Greater"
| "reverse_ord Equal = Equal"
| "reverse_ord Greater = Less"

fun then_ord :: "Ordering \<Rightarrow> Ordering \<Rightarrow> Ordering" where
  "then_ord Equal o2 = o2"
| "then_ord o1 o2 = o1"

lemma cmp_of_iff [simp]:
  "cmp_of x y = Less \<longleftrightarrow> x < y"
  "cmp_of x y = Equal \<longleftrightarrow> x = y"
  "cmp_of x y = Greater \<longleftrightarrow> y < x"
  by (auto simp: cmp_of_def)

lemma reverse_cmp_of: "reverse_ord (cmp_of x y) = cmp_of y x"
  by (auto simp: cmp_of_def)

lemma cmp_of_mono:
  assumes "strict_mono f"
  shows "cmp_of (f x) (f y) = cmp_of x y"
  using assms by (auto simp: cmp_of_def strict_mono_less strict_mono_eq)

section \<open>Checked unsigned arithmetic\<close>

text \<open>
  Unsigned integers wider than a byte are natural numbers; every operation that can leave
  its width is written with the width it is checked at.
\<close>

abbreviation u32_max :: nat where "u32_max \<equiv> 2 ^ 32 - 1"
abbreviation u64_max :: nat where "u64_max \<equiv> 2 ^ 64 - 1"
abbreviation u128_max :: nat where "u128_max \<equiv> 2 ^ 128 - 1"

definition checked_add :: "nat \<Rightarrow> nat \<Rightarrow> nat \<Rightarrow> nat option" where
  "checked_add w a b = (if a + b < 2 ^ w then Some (a + b) else None)"

definition checked_sub :: "nat \<Rightarrow> nat \<Rightarrow> nat option" where
  "checked_sub a b = (if b \<le> a then Some (a - b) else None)"

definition checked_mul :: "nat \<Rightarrow> nat \<Rightarrow> nat \<Rightarrow> nat option" where
  "checked_mul w a b = (if a * b < 2 ^ w then Some (a * b) else None)"

definition checked_pow :: "nat \<Rightarrow> nat \<Rightarrow> nat \<Rightarrow> nat option" where
  "checked_pow w a n = (if a ^ n < 2 ^ w then Some (a ^ n) else None)"

lemma checked_eq_Some [simp]:
  "checked_add w a b = Some c \<longleftrightarrow> c = a + b \<and> a + b < 2 ^ w"
  "checked_sub a b = Some c \<longleftrightarrow> c = a - b \<and> b \<le> a"
  "checked_mul w a b = Some c \<longleftrightarrow> c = a * b \<and> a * b < 2 ^ w"
  "checked_pow w a n = Some c \<longleftrightarrow> c = a ^ n \<and> a ^ n < 2 ^ w"
  by (auto simp: checked_add_def checked_sub_def checked_mul_def checked_pow_def)

section \<open>Bytes and big-endian numbers\<close>

type_synonym u8 = "8 word"
type_synonym bytes = "u8 list"

lemma unat_u8_less [simp]: "unat (b :: u8) < 256"
  using unsigned_less [of b, where ?'a = nat] by simp

lemma unat_u8_le [simp]: "unat (b :: u8) \<le> 255"
  using unat_u8_less [of b] by linarith

lemma unat_of_nat_u8 [simp]: "unat (of_nat n :: u8) = n mod 256"
  by (simp add: unat_of_nat)

lemma u8_eq_iff: "(a :: u8) = b \<longleftrightarrow> unat a = unat b"
  by (simp add: word_unat_eq_iff)

lemma unat_u8_eq_0 [simp]: "unat (b :: u8) = 0 \<longleftrightarrow> b = 0"
  by (simp add: unat_eq_zero)

text \<open>The number a big-endian byte string denotes.\<close>

primrec be_nat :: "bytes \<Rightarrow> nat" where
  "be_nat [] = 0"
| "be_nat (b # bs) = unat b * 256 ^ length bs + be_nat bs"

text \<open>The last \<open>n\<close> bytes of a number, big end first.\<close>

primrec to_be_bytes :: "nat \<Rightarrow> nat \<Rightarrow> bytes" where
  "to_be_bytes 0 v = []"
| "to_be_bytes (Suc n) v = of_nat (v div 256 ^ n) # to_be_bytes n v"

lemma be_nat_append: "be_nat (xs @ ys) = be_nat xs * 256 ^ length ys + be_nat ys"
  by (induction xs) (auto simp: algebra_simps power_add)

lemma be_nat_snoc [simp]: "be_nat (xs @ [b]) = be_nat xs * 256 + unat b"
  by (simp add: be_nat_append)

lemma be_nat_less: "be_nat xs < 256 ^ length xs"
proof (induction xs)
  case Nil
  then show ?case by simp
next
  case (Cons b xs)
  have "unat b * 256 ^ length xs + be_nat xs < (unat b + 1) * 256 ^ length xs"
    using Cons.IH by simp
  also have "\<dots> \<le> 256 * 256 ^ length xs"
    using unat_u8_less [of b] by (intro mult_le_mono1) linarith
  finally show ?case by simp
qed

lemma be_nat_replicate_0 [simp]: "be_nat (replicate n 0) = 0"
  by (induction n) auto

lemma be_nat_eq_0_iff: "be_nat xs = 0 \<longleftrightarrow> (\<forall>b\<in>set xs. b = 0)"
  by (induction xs) auto

lemma length_to_be_bytes [simp]: "length (to_be_bytes n v) = n"
  by (induction n) auto

lemma be_nat_to_be_bytes: "be_nat (to_be_bytes n v) = v mod 256 ^ n"
proof (induction n)
  case 0
  then show ?case by simp
next
  case (Suc n)
  have "v mod 256 ^ Suc n = 256 ^ n * (v div 256 ^ n mod 256) + v mod 256 ^ n"
    using mod_mult2_eq [of v "256 ^ n" 256] by (simp add: mult.commute)
  with Suc show ?case by simp
qed

lemma be_nat_inj: "length xs = length ys \<Longrightarrow> be_nat xs = be_nat ys \<Longrightarrow> xs = ys"
proof (induction xs ys rule: list_induct2)
  case Nil
  then show ?case by simp
next
  case (Cons x xs y ys)
  let ?m = "256 ^ length xs :: nat"
  have d: "(unat x * ?m + be_nat xs) div ?m = unat x"
    using be_nat_less [of xs] by (simp add: div_mult_self1_is_m)
  have d': "(unat y * ?m + be_nat ys) div ?m = unat y"
    using be_nat_less [of ys] Cons.hyps by (simp add: div_mult_self1_is_m)
  from Cons.prems Cons.hyps have "unat x * ?m + be_nat xs = unat y * ?m + be_nat ys"
    by simp
  with d d' have "unat x = unat y" by metis
  moreover from this Cons.prems Cons.hyps have "be_nat xs = be_nat ys" by simp
  ultimately show ?case using Cons.IH by (simp add: u8_eq_iff)
qed

lemma to_be_bytes_be_nat [simp]: "to_be_bytes (length xs) (be_nat xs) = xs"
  by (rule be_nat_inj) (simp_all add: be_nat_to_be_bytes be_nat_less)

lemma to_be_bytes_mod: "to_be_bytes n (v mod 256 ^ n) = to_be_bytes n v"
  by (rule be_nat_inj) (simp_all add: be_nat_to_be_bytes)

lemma drop_to_be_bytes: "m \<le> n \<Longrightarrow> drop (n - m) (to_be_bytes n v) = to_be_bytes m v"
proof (induction n)
  case 0
  then show ?case by simp
next
  case (Suc n)
  then show ?case by (cases "m = Suc n") (auto simp: Suc_diff_le)
qed

text \<open>The shortest big-endian byte string of a number: no leading zero, empty for 0.\<close>

fun nat_bytes :: "nat \<Rightarrow> bytes" where
  "nat_bytes n = (if n = 0 then [] else nat_bytes (n div 256) @ [of_nat n])"

declare nat_bytes.simps [simp del]

lemma nat_bytes_0 [simp]: "nat_bytes 0 = []"
  by (simp add: nat_bytes.simps)

lemma nat_bytes_step: "0 < n \<Longrightarrow> nat_bytes n = nat_bytes (n div 256) @ [of_nat n]"
  by (subst nat_bytes.simps) simp

lemma be_nat_nat_bytes [simp]: "be_nat (nat_bytes n) = n"
proof (induction n rule: nat_bytes.induct)
  case (1 n)
  show ?case
  proof (cases "n = 0")
    case False
    with 1 show ?thesis by (simp add: nat_bytes_step)
  qed simp
qed

lemma nat_bytes_inj [simp]: "nat_bytes m = nat_bytes n \<longleftrightarrow> m = n"
  by (metis be_nat_nat_bytes)

lemma nat_bytes_eq_Nil [simp]: "nat_bytes n = [] \<longleftrightarrow> n = 0"
  by (metis nat_bytes_inj nat_bytes_0)

lemma hd_nat_bytes: "0 < n \<Longrightarrow> hd (nat_bytes n) \<noteq> 0"
proof (induction n rule: nat_bytes.induct)
  case (1 n)
  show ?case
  proof (cases "n div 256 = 0")
    case True
    with 1 have "n < 256" by (simp add: div_eq_0_iff)
    then have "unat (of_nat n :: u8) = n" by simp
    with 1 have "(of_nat n :: u8) \<noteq> 0" by (metis unat_0 less_nat_zero_code)
    with True 1 show ?thesis by (simp add: nat_bytes_step)
  next
    case False
    with 1 have "hd (nat_bytes (n div 256)) \<noteq> 0" by simp
    moreover have "nat_bytes (n div 256) \<noteq> []" using False by simp
    ultimately have "hd (nat_bytes (n div 256) @ [of_nat n]) \<noteq> 0" by (simp only: hd_append2 not_False_eq_True)
    with 1 show ?thesis by (subst nat_bytes_step)
  qed
qed

lemma be_nat_lower: "xs \<noteq> [] \<Longrightarrow> hd xs \<noteq> 0 \<Longrightarrow> 256 ^ (length xs - 1) \<le> be_nat xs"
proof (cases xs)
  case (Cons x ys)
  assume "hd xs \<noteq> 0"
  with Cons have "1 \<le> unat x" by (simp add: Suc_le_eq unat_gt_0)
  then have "1 * 256 ^ length ys \<le> unat x * 256 ^ length ys" by (rule mult_le_mono1)
  with Cons show ?thesis by (simp add: trans_le_add1)
qed simp

lemma length_mono_be_nat:
  assumes "xs \<noteq> []" and "hd xs \<noteq> 0" and "be_nat xs \<le> be_nat ys"
  shows "length xs \<le> length ys"
proof -
  have "(256 :: nat) ^ (length xs - 1) < 256 ^ length ys"
    using be_nat_lower [OF assms(1,2)] assms(3) be_nat_less [of ys] by linarith
  then show ?thesis by (simp add: power_strict_increasing_iff) 
qed

lemma canonical_unique:
  assumes "xs = [] \<or> hd xs \<noteq> 0" and "ys = [] \<or> hd ys \<noteq> 0" and "be_nat xs = be_nat ys"
  shows "xs = ys"
proof -
  have nz: "0 < be_nat zs" if "zs \<noteq> []" "hd zs \<noteq> 0" for zs
    using be_nat_lower [OF that] by (meson less_le_trans zero_less_power zero_less_numeral)
  have "length xs = length ys"
  proof (cases "xs = [] \<or> ys = []")
    case True
    with assms show ?thesis using nz [of xs] nz [of ys] by (metis be_nat.simps(1) less_irrefl)
  next
    case False
    with assms show ?thesis by (intro antisym length_mono_be_nat) auto
  qed
  from this assms(3) show ?thesis by (rule be_nat_inj)
qed

lemma nat_bytes_be_nat: "xs = [] \<or> hd xs \<noteq> 0 \<Longrightarrow> nat_bytes (be_nat xs) = xs"
  using hd_nat_bytes by (intro canonical_unique) auto

lemma be_nat_dropWhile_0 [simp]: "be_nat (dropWhile (\<lambda>b. b = 0) xs) = be_nat xs"
  by (induction xs) auto

lemma dropWhile_0_eq [simp]: "dropWhile (\<lambda>b. b = 0) xs = nat_bytes (be_nat xs)"
proof -
  have "dropWhile (\<lambda>b. b = 0) xs = [] \<or> hd (dropWhile (\<lambda>b. b = 0) xs) \<noteq> 0"
    using hd_dropWhile by blast
  from nat_bytes_be_nat [OF this] show ?thesis by simp
qed

lemma length_nat_bytes_le: "length (nat_bytes n) \<le> k \<longleftrightarrow> n < 256 ^ k"
proof (cases "n = 0")
  case False
  let ?l = "length (nat_bytes n)"
  have "0 < ?l" using False by simp
  have up: "n < 256 ^ ?l" using be_nat_less [of "nat_bytes n"] by simp
  have low: "256 ^ (?l - 1) \<le> n"
    using be_nat_lower [of "nat_bytes n"] False hd_nat_bytes by simp
  show ?thesis
  proof
    assume "?l \<le> k"
    then have "(256 :: nat) ^ ?l \<le> 256 ^ k" by (intro power_increasing) simp_all
    with up show "n < 256 ^ k" by linarith
  next
    assume "n < 256 ^ k"
    with low have "(256 :: nat) ^ (?l - 1) < 256 ^ k" by linarith
    then have "?l - 1 < k" by (simp add: power_strict_increasing_iff)
    with \<open>0 < ?l\<close> show "?l \<le> k" by linarith
  qed
qed simp

end
