(* ===== verification/Base256.thy ===== *)
theory Base256
  imports Prelude
begin

text \<open>
  The byte-array big-number core of \<^verbatim>\<open>src/field/src/types/amount_base256.rs\<close>. Magnitudes
  are big-endian byte strings; \<^const>\<open>be_nat\<close> reads them, and \<^const>\<open>nat_bytes\<close> is the
  canonical string of a number. Every routine is shown equal to the operation on numbers
  that the source's comments and its \<^verbatim>\<open>BigUint\<close> test oracle name.
\<close>

section \<open>The routines\<close>

definition skip_left_zero :: "bytes \<Rightarrow> bytes" where
  "skip_left_zero v = dropWhile (\<lambda>b. b = 0) v"

definition drop_left_zero_b256 :: "bytes \<Rightarrow> bytes" where
  "drop_left_zero_b256 v = skip_left_zero v"

text \<open>
  The pass over the bytes from the low end: \<open>v = b * m + carry\<close>, keep the low byte, carry
  the rest. \<^verbatim>\<open>mul10_in_place\<close> runs it in \<^verbatim>\<open>u16\<close> and \<^verbatim>\<open>mul_u64_b256\<close> in \<^verbatim>\<open>u128\<close>; the
  lemma \<open>mul_pass_bound\<close> below shows that neither width is left.
\<close>

primrec mul_pass :: "nat \<Rightarrow> bytes \<Rightarrow> nat \<Rightarrow> bytes \<times> nat" where
  "mul_pass m [] carry = ([], carry)"
| "mul_pass m (b # bs) carry =
     (let (out, c) = mul_pass m bs carry; v = unat b * m + c in (of_nat v # out, v div 256))"

fun push_carry :: "nat \<Rightarrow> bytes \<Rightarrow> bytes" where
  "push_carry carry bs = (if carry = 0 then bs else push_carry (carry div 256) (of_nat carry # bs))"

definition mul10_in_place :: "bytes \<Rightarrow> bytes" where
  "mul10_in_place bs = (let (out, carry) = mul_pass 10 bs 0 in push_carry carry out)"

definition mul_u64_b256 :: "bytes \<Rightarrow> nat \<Rightarrow> bytes" where
  "mul_u64_b256 bs m =
     (let bs = skip_left_zero bs in
      if bs = [] \<or> m = 0 then []
      else let (out, carry) = mul_pass m bs 0 in drop_left_zero_b256 (push_carry carry out))"

text \<open>The pass from the high end: \<open>v = rem * 256 + b\<close>, write \<open>v div d\<close>, keep \<open>v mod d\<close>.\<close>

primrec div_pass :: "nat \<Rightarrow> bytes \<Rightarrow> nat \<Rightarrow> bytes \<times> nat" where
  "div_pass d [] rem = ([], rem)"
| "div_pass d (b # bs) rem =
     (let v = rem * 256 + unat b; (out, r) = div_pass d bs (v mod d) in (of_nat (v div d) # out, r))"

definition div10_in_place :: "bytes \<Rightarrow> bytes" where
  "div10_in_place bs = fst (div_pass 10 bs 0)"

definition divmod_u64_b256 :: "bytes \<Rightarrow> nat \<Rightarrow> bytes \<times> nat" where
  "divmod_u64_b256 bs d =
     (let (out, rem) = div_pass d (skip_left_zero bs) 0 in (drop_left_zero_b256 out, rem))"

definition mul_pow10_b256 :: "bytes \<Rightarrow> nat \<Rightarrow> bytes" where
  "mul_pow10_b256 bs e = drop_left_zero_b256 ((mul10_in_place ^^ e) (skip_left_zero bs))"

definition div_pow10_b256 :: "bytes \<Rightarrow> nat \<Rightarrow> bytes" where
  "div_pow10_b256 bs e = drop_left_zero_b256 ((div10_in_place ^^ e) (skip_left_zero bs))"

text \<open>Lexicographic comparison of byte slices, and the comparison of magnitudes.\<close>

fun cmp_slice :: "bytes \<Rightarrow> bytes \<Rightarrow> Ordering" where
  "cmp_slice [] [] = Equal"
| "cmp_slice [] (y # ys) = Less"
| "cmp_slice (x # xs) [] = Greater"
| "cmp_slice (x # xs) (y # ys) = then_ord (cmp_of x y) (cmp_slice xs ys)"

definition cmp_b256 :: "bytes \<Rightarrow> bytes \<Rightarrow> Ordering" where
  "cmp_b256 a b =
     (let a = skip_left_zero a; b = skip_left_zero b in
      then_ord (cmp_of (length a) (length b)) (cmp_slice a b))"

text \<open>Decimal input: the accumulator is little-endian and is reversed at the end.\<close>

definition digit_of :: "char \<Rightarrow> nat" where
  "digit_of ch = unat ((of_char ch :: u8) - 48)"

definition char_of_digit :: "nat \<Rightarrow> char" where
  "char_of_digit d = char_of (48 + d)"

primrec le_mul_pass :: "bytes \<Rightarrow> nat \<Rightarrow> bytes \<times> nat" where
  "le_mul_pass [] carry = ([], carry)"
| "le_mul_pass (b # bs) carry =
     (let v = unat b * 10 + carry; (out, c) = le_mul_pass bs (v div 256) in (of_nat v # out, c))"

fun le_push_carry :: "nat \<Rightarrow> bytes \<Rightarrow> bytes" where
  "le_push_carry carry bs =
     (if carry = 0 then bs else le_push_carry (carry div 256) (bs @ [of_nat carry]))"

primrec from_decimal_loop :: "string \<Rightarrow> bytes \<Rightarrow> bytes ret" where
  "from_decimal_loop [] bs = Ok bs"
| "from_decimal_loop (ch # chs) bs =
     (let (out, carry) = le_mul_pass bs (digit_of ch); bs = le_push_carry carry out in
      if length bs > 127 then errf ''Amount is too wide.'' else from_decimal_loop chs bs)"

definition from_decimal_b256 :: "string \<Rightarrow> bytes ret" where
  "from_decimal_b256 digits =
     try_ret (from_decimal_loop digits []) (\<lambda>bs. Ok (drop_left_zero_b256 (rev bs)))"

section \<open>Passes and carries\<close>

declare push_carry.simps [simp del] le_push_carry.simps [simp del]

lemma skip_left_zero_eq [simp]: "skip_left_zero v = nat_bytes (be_nat v)"
  by (simp add: skip_left_zero_def)

lemma drop_left_zero_b256_eq [simp]: "drop_left_zero_b256 v = nat_bytes (be_nat v)"
  by (simp add: drop_left_zero_b256_def)

lemma div_mod_distrib: "v div d * (d * k) + v mod d * k = (v :: nat) * k"
  by (metis div_mult_mod_eq distrib_right mult.assoc)

lemma mul_pass_length: "length (fst (mul_pass m bs carry)) = length bs"
  by (induction bs) (auto split: prod.splits)

lemma mul_pass_be_nat:
  "mul_pass m bs carry = (out, c) \<Longrightarrow> c * 256 ^ length bs + be_nat out = be_nat bs * m + carry"
proof (induction bs arbitrary: out c)
  case Nil
  then show ?case by simp
next
  case (Cons b bs)
  obtain out' c' where p: "mul_pass m bs carry = (out', c')" by fastforce
  define v where "v = unat b * m + c'"
  have len: "length out' = length bs" using mul_pass_length [of m bs carry] p by simp
  from Cons.prems p have out: "out = of_nat v # out'" and c: "c = v div 256"
    by (auto simp: v_def)
  have "c * 256 ^ length (b # bs) + be_nat out =
      v div 256 * (256 * 256 ^ length bs) + v mod 256 * 256 ^ length bs + be_nat out'"
    by (simp add: out c len)
  also have "\<dots> = v * 256 ^ length bs + be_nat out'" by (simp only: div_mod_distrib)
  also have "\<dots> = unat b * m * 256 ^ length bs + (be_nat bs * m + carry)"
    using Cons.IH [OF p] by (simp add: v_def algebra_simps)
  finally show ?case by (simp add: algebra_simps)
qed

text \<open>No intermediate value of the pass exceeds \<open>256 * m\<close> when the first carry is below \<open>m\<close>.\<close>

lemma mul_pass_carry: "0 < m \<Longrightarrow> carry < m \<Longrightarrow> snd (mul_pass m bs carry) < m"
proof (induction bs)
  case (Cons b bs)
  obtain out c where p: "mul_pass m bs carry = (out, c)" by fastforce
  with Cons have "c < m" by simp
  have "unat b * m \<le> 255 * m" by (rule mult_le_mono1) simp
  with \<open>c < m\<close> have "unat b * m + c < 256 * m" by linarith
  then show ?case by (simp add: p less_mult_imp_div_less mult.commute)
qed simp

lemma mul_pass_bound:
  assumes "0 < m" and "carry < m"
  shows "unat (b :: u8) * m + snd (mul_pass m bs carry) < 256 * m"
proof -
  have "unat b * m \<le> 255 * m" by (rule mult_le_mono1) simp
  with mul_pass_carry [OF assms, of bs] show ?thesis by linarith
qed

lemma push_carry_be_nat: "be_nat (push_carry c bs) = c * 256 ^ length bs + be_nat bs"
proof (induction c bs rule: push_carry.induct)
  case (1 c bs)
  show ?case
  proof (cases "c = 0")
    case True
    then show ?thesis by (simp add: push_carry.simps [of 0 bs])
  next
    case False
    have "be_nat (push_carry c bs) = be_nat (push_carry (c div 256) (of_nat c # bs))"
      using False by (simp add: push_carry.simps [of c bs])
    also have "\<dots> = c div 256 * (256 * 256 ^ length bs) + c mod 256 * 256 ^ length bs + be_nat bs"
      using 1 False by simp
    finally show ?thesis by (simp only: div_mod_distrib)
  qed
qed

lemma be_nat_mul10_in_place: "be_nat (mul10_in_place bs) = be_nat bs * 10"
proof -
  obtain out c where p: "mul_pass 10 bs 0 = (out, c)" by fastforce
  then have "length out = length bs" using mul_pass_length [of 10 bs 0] by simp
  with mul_pass_be_nat [OF p] show ?thesis
    by (simp add: mul10_in_place_def p push_carry_be_nat)
qed

lemma div_pass_spec:
  assumes "0 < d" and "rem < d" and "div_pass d bs rem = (out, r)"
  shows "length out = length bs \<and> r < d \<and>
    be_nat out * d + r = rem * 256 ^ length bs + be_nat bs"
  using assms(2,3)
proof (induction bs arbitrary: rem out r)
  case Nil
  then show ?case by simp
next
  case (Cons b bs)
  define v where "v = rem * 256 + unat b"
  obtain out' r' where p: "div_pass d bs (v mod d) = (out', r')" by fastforce
  with Cons.prems have out: "out = of_nat (v div d) # out'" and r: "r = r'"
    by (auto simp: v_def)
  have IH: "length out' = length bs" "r' < d"
    "be_nat out' * d + r' = (v mod d) * 256 ^ length bs + be_nat bs"
    using Cons.IH [OF _ p] assms(1) by simp_all
  have "v < 256 * d" using Cons.prems(1) unat_u8_less [of b] unfolding v_def by linarith
  then have "v div d < 256" using assms(1) by (simp add: div_less_iff_less_mult)
  then have "be_nat out * d + r = v div d * (d * 256 ^ length bs) + (be_nat out' * d + r')"
    by (simp add: out r IH(1) algebra_simps)
  also have "\<dots> = v div d * (d * 256 ^ length bs) + v mod d * 256 ^ length bs + be_nat bs"
    by (simp only: IH(3) add.assoc)
  also have "\<dots> = v * 256 ^ length bs + be_nat bs" by (simp only: div_mod_distrib)
  also have "\<dots> = rem * 256 ^ length (b # bs) + be_nat (b # bs)"
    by (simp add: v_def algebra_simps)
  finally show ?case using IH out r by simp
qed

lemma be_nat_div_pass:
  assumes "0 < d" and "div_pass d bs 0 = (out, r)"
  shows "be_nat out = be_nat bs div d" and "r = be_nat bs mod d"
proof -
  from div_pass_spec [OF assms(1) assms(1) assms(2)]
  have "be_nat bs = be_nat out * d + r" and "r < d" by auto
  then show "be_nat out = be_nat bs div d" and "r = be_nat bs mod d" by auto
qed

lemma be_nat_div10_in_place: "be_nat (div10_in_place bs) = be_nat bs div 10"
  using be_nat_div_pass(1) [of 10 bs] by (cases "div_pass 10 bs 0") (simp add: div10_in_place_def)

section \<open>Equality with arithmetic on numbers\<close>

lemma be_nat_funpow_mul10: "be_nat ((mul10_in_place ^^ e) bs) = be_nat bs * 10 ^ e"
  by (induction e) (auto simp: be_nat_mul10_in_place)

lemma be_nat_funpow_div10: "be_nat ((div10_in_place ^^ e) bs) = be_nat bs div 10 ^ e"
  by (induction e) (auto simp: be_nat_div10_in_place div_mult2_eq [symmetric] mult.commute)

theorem mul_pow10_b256_eq: "mul_pow10_b256 bs e = nat_bytes (be_nat bs * 10 ^ e)"
  by (simp add: mul_pow10_b256_def be_nat_funpow_mul10)

theorem div_pow10_b256_eq: "div_pow10_b256 bs e = nat_bytes (be_nat bs div 10 ^ e)"
  by (simp add: div_pow10_b256_def be_nat_funpow_div10)

theorem mul_u64_b256_eq: "mul_u64_b256 bs m = nat_bytes (be_nat bs * m)"
proof (cases "be_nat bs = 0 \<or> m = 0")
  case True
  then show ?thesis by (auto simp: mul_u64_b256_def)
next
  case False
  let ?bs = "nat_bytes (be_nat bs)"
  obtain out c where p: "mul_pass m ?bs 0 = (out, c)" by fastforce
  have "be_nat (push_carry c out) = be_nat bs * m"
    using mul_pass_be_nat [OF p] mul_pass_length [of m ?bs 0] p by (simp add: push_carry_be_nat)
  with False p show ?thesis by (simp add: mul_u64_b256_def Let_def)
qed

theorem divmod_u64_b256_eq:
  "0 < d \<Longrightarrow> divmod_u64_b256 bs d = (nat_bytes (be_nat bs div d), be_nat bs mod d)"
  using be_nat_div_pass [of d "nat_bytes (be_nat bs)"]
  by (cases "div_pass d (nat_bytes (be_nat bs)) 0") (simp add: divmod_u64_b256_def)

lemma high_digit_less:
  fixes a b r s m :: nat
  assumes "a < b" and "r < m"
  shows "a * m + r < b * m + s"
proof -
  have "a * m + r < (a + 1) * m" using assms(2) by simp
  also have "\<dots> \<le> b * m" using assms(1) by (intro mult_le_mono1) simp
  finally show ?thesis by simp
qed

lemma cmp_slice_same_length:
  "length xs = length ys \<Longrightarrow> cmp_slice xs ys = cmp_of (be_nat xs) (be_nat ys)"
proof (induction xs ys rule: list_induct2)
  case Nil
  then show ?case by (simp add: cmp_of_def)
next
  case (Cons x xs y ys)
  note lt = be_nat_less [of xs] be_nat_less [of ys]
  consider "unat x < unat y" | "unat y < unat x" | "x = y"
    by (metis linorder_neqE_nat u8_eq_iff)
  then show ?case
  proof cases
    case 1
    with lt Cons.hyps have "be_nat (x # xs) < be_nat (y # ys)"
      by (simp add: high_digit_less)
    with 1 show ?thesis by (simp add: cmp_of_def word_less_nat_alt)
  next
    case 2
    with lt Cons.hyps have "be_nat (y # ys) < be_nat (x # xs)"
      by (simp add: high_digit_less)
    with 2 show ?thesis by (auto simp: cmp_of_def word_less_nat_alt)
  next
    case 3
    with Cons show ?thesis by (simp add: cmp_of_def)
  qed
qed

lemma nat_bytes_length_less: "length (nat_bytes m) < length (nat_bytes n) \<Longrightarrow> m < n"
  using length_nat_bytes_le [of m "length (nat_bytes m)"] length_nat_bytes_le [of n "length (nat_bytes m)"]
  by (meson leD le_less_trans le_refl not_le)

theorem cmp_b256_eq: "cmp_b256 a b = cmp_of (be_nat a) (be_nat b)"
proof -
  let ?a = "nat_bytes (be_nat a)" and ?b = "nat_bytes (be_nat b)"
  consider "length ?a < length ?b" | "length ?b < length ?a" | "length ?a = length ?b"
    by linarith
  then show ?thesis
  proof cases
    case 1
    with nat_bytes_length_less [OF 1] show ?thesis by (simp add: cmp_b256_def cmp_of_def)
  next
    case 2
    with nat_bytes_length_less [OF 2] show ?thesis by (simp add: cmp_b256_def cmp_of_def)
  next
    case 3
    then show ?thesis
      using cmp_slice_same_length [OF 3] by (simp add: cmp_b256_def) (simp add: cmp_of_def)
  qed
qed

section \<open>Decimal strings\<close>

definition is_ascii_digit :: "char \<Rightarrow> bool" where
  "is_ascii_digit c \<longleftrightarrow> 48 \<le> (of_char c :: nat) \<and> (of_char c :: nat) \<le> 57"

text \<open>The reference: the number a digit string denotes, and the digits of a number.\<close>

definition dec_nat :: "string \<Rightarrow> nat" where
  "dec_nat ds = foldl (\<lambda>a c. a * 10 + digit_of c) 0 ds"

fun nat_dec :: "nat \<Rightarrow> string" where
  "nat_dec n = (if n < 10 then [char_of_digit n] else nat_dec (n div 10) @ [char_of_digit (n mod 10)])"

declare nat_dec.simps [simp del]

lemma dec_nat_simps [simp]:
  "dec_nat [] = 0" "dec_nat (ds @ [c]) = dec_nat ds * 10 + digit_of c"
  by (simp_all add: dec_nat_def)

lemma digit_of_char: "is_ascii_digit c \<Longrightarrow> digit_of c = of_char c - 48"
proof -
  assume d: "is_ascii_digit c"
  have "(of_char c :: u8) - 48 = of_nat (of_char c - 48)"
    using d by (simp add: is_ascii_digit_def of_nat_diff of_nat_of_char)
  then have "digit_of c = (of_char c - 48) mod 256" by (simp only: digit_of_def unat_of_nat_u8)
  moreover have "of_char c - 48 < (256 :: nat)" using d by (auto simp: is_ascii_digit_def)
  ultimately show ?thesis by simp
qed

lemma digit_of_less: "is_ascii_digit c \<Longrightarrow> digit_of c < 10"
  using digit_of_char [of c] by (auto simp: is_ascii_digit_def)

lemma char_of_digit_ascii [simp]: "d < 10 \<Longrightarrow> is_ascii_digit (char_of_digit d)"
  by (simp add: is_ascii_digit_def char_of_digit_def)

lemma digit_of_char_of_digit [simp]: "d < 10 \<Longrightarrow> digit_of (char_of_digit d) = d"
  by (simp add: digit_of_char) (simp add: char_of_digit_def)

lemma char_of_digit_of: "is_ascii_digit c \<Longrightarrow> char_of_digit (digit_of c) = c"
  by (simp add: digit_of_char char_of_digit_def is_ascii_digit_def)

lemma dec_nat_append: "dec_nat (xs @ ys) = dec_nat xs * 10 ^ length ys + dec_nat ys"
proof (induction ys rule: rev_induct)
  case (snoc y ys)
  then show ?case by (simp flip: append_assoc)
qed simp

lemma dec_nat_nat_dec [simp]: "dec_nat (nat_dec n) = n"
proof (induction n rule: nat_dec.induct)
  case (1 n)
  then show ?case
    by (cases "n < 10") (simp_all add: nat_dec.simps [of n] dec_nat_def [of "[_]"])
qed

lemma nat_dec_digits: "\<forall>c\<in>set (nat_dec n). is_ascii_digit c"
proof (induction n rule: nat_dec.induct)
  case (1 n)
  then show ?case by (cases "n < 10") (auto simp: nat_dec.simps [of n])
qed

lemma nat_dec_nonempty [simp]: "nat_dec n \<noteq> []"
  by (subst nat_dec.simps) simp

text \<open>The little-endian accumulator keeps the value and stays without a high zero byte.\<close>

lemma le_mul_pass_spec:
  "le_mul_pass bs carry = (out, c) \<Longrightarrow>
   length out = length bs \<and>
   c * 256 ^ length bs + be_nat (rev out) = be_nat (rev bs) * 10 + carry"
proof (induction bs arbitrary: carry out)
  case Nil
  then show ?case by simp
next
  case (Cons b bs)
  define v where "v = unat b * 10 + carry"
  obtain out' where p: "le_mul_pass bs (v div 256) = (out', c)" and out: "out = of_nat v # out'"
    using Cons.prems by (auto simp: v_def split: prod.splits)
  from Cons.IH [OF p] have IH: "length out' = length bs"
    "c * 256 ^ length bs + be_nat (rev out') = be_nat (rev bs) * 10 + v div 256" by auto
  have "c * 256 ^ length (b # bs) + be_nat (rev out) =
      (c * 256 ^ length bs + be_nat (rev out')) * 256 + v mod 256"
    by (simp add: out algebra_simps)
  also have "\<dots> = be_nat (rev bs) * 10 * 256 + v"
    by (simp only: IH distrib_right) (simp add: algebra_simps)
  finally show ?case using IH by (simp add: out v_def algebra_simps)
qed

lemma le_push_carry_be_nat: "be_nat (rev (le_push_carry c bs)) = c * 256 ^ length bs + be_nat (rev bs)"
proof (induction c bs rule: le_push_carry.induct)
  case (1 c bs)
  show ?case
  proof (cases "c = 0")
    case True
    then show ?thesis by (simp add: le_push_carry.simps [of 0 bs])
  next
    case False
    have "be_nat (rev (le_push_carry c bs)) = be_nat (rev (le_push_carry (c div 256) (bs @ [of_nat c])))"
      using False by (simp add: le_push_carry.simps [of c bs])
    also have "\<dots> = c div 256 * (256 * 256 ^ length bs) + c mod 256 * 256 ^ length bs + be_nat (rev bs)"
      using 1 False by simp
    finally show ?thesis by (simp only: div_mod_distrib)
  qed
qed

lemma u8_of_nat_nz: "0 < n \<Longrightarrow> n < 256 \<Longrightarrow> (of_nat n :: u8) \<noteq> 0"
  by (metis unat_of_nat_u8 mod_less unat_0 less_nat_zero_code)

lemma le_push_carry_hd: "0 < c \<Longrightarrow> hd (rev (le_push_carry c bs)) \<noteq> 0"
proof (induction c bs rule: le_push_carry.induct)
  case (1 c bs)
  show ?case
  proof (cases "c < 256")
    case True
    with 1 have "le_push_carry c bs = bs @ [of_nat c]"
      by (simp add: le_push_carry.simps [of c bs] le_push_carry.simps [of 0])
    with 1 True show ?thesis by (simp add: u8_of_nat_nz)
  next
    case False
    with 1 show ?thesis by (simp add: le_push_carry.simps [of c bs])
  qed
qed

lemma hd_nz_of_lower:
  assumes "xs \<noteq> []" and "256 ^ (length xs - 1) \<le> be_nat xs"
  shows "hd xs \<noteq> 0"
proof (cases xs)
  case (Cons x ys)
  then show ?thesis using assms be_nat_less [of ys] by auto
qed (use assms in simp)

lemma le_step_canonical:
  assumes c: "rev bs = nat_bytes n" and p: "le_mul_pass bs d = (out, c)"
  shows "rev (le_push_carry c out) = nat_bytes (n * 10 + d)"
proof -
  let ?r = "rev (le_push_carry c out)"
  from c have n: "be_nat (rev bs) = n" by simp
  from le_mul_pass_spec [OF p] have len: "length out = length bs"
    and v: "c * 256 ^ length bs + be_nat (rev out) = n * 10 + d" by (simp_all add: n)
  then have val: "be_nat ?r = n * 10 + d" by (simp add: le_push_carry_be_nat)
  have "?r = [] \<or> hd ?r \<noteq> 0"
  proof (cases "c = 0")
    case False
    then show ?thesis by (simp add: le_push_carry_hd)
  next
    case True
    then have r: "?r = rev out" by (simp add: le_push_carry.simps)
    show ?thesis
    proof (cases "out = []")
      case False
      with len c have "0 < n" by (metis length_0_conv length_rev nat_bytes_0 neq0_conv)
      then have "256 ^ (length bs - 1) \<le> n"
        using be_nat_lower [of "nat_bytes n"] hd_nat_bytes [of n] by (metis be_nat_nat_bytes c length_rev nat_bytes_eq_Nil less_irrefl)
      with v True have "256 ^ (length (rev out) - 1) \<le> be_nat (rev out)" by (simp add: len)
      with False r show ?thesis by (metis hd_nz_of_lower rev_is_Nil_conv)
    qed (use r in simp)
  qed
  with val show ?thesis by (metis nat_bytes_be_nat)
qed

lemma from_decimal_loop_spec:
  assumes "\<forall>c\<in>set ds. is_ascii_digit c" and "rev bs = nat_bytes n" and "n < 256 ^ 127"
  shows "from_decimal_loop ds bs =
    (if n * 10 ^ length ds + dec_nat ds < 256 ^ 127
     then Ok (rev (nat_bytes (n * 10 ^ length ds + dec_nat ds)))
     else errf ''Amount is too wide.'')"
  using assms
proof (induction ds arbitrary: bs n)
  case Nil
  from Nil.prems have "bs = rev (nat_bytes n)" by (metis rev_rev_ident)
  with Nil show ?case by simp
next
  case (Cons d ds)
  let ?n' = "n * 10 + digit_of d"
  obtain out c where p: "le_mul_pass bs (digit_of d) = (out, c)" by fastforce
  have r: "rev (le_push_carry c out) = nat_bytes ?n'"
    using le_step_canonical [OF Cons.prems(2) p] .
  then have len: "length (le_push_carry c out) = length (nat_bytes ?n')" by (metis length_rev)
  have dec: "dec_nat (d # ds) = digit_of d * 10 ^ length ds + dec_nat ds"
    using dec_nat_append [of "[d]" ds] by (simp add: dec_nat_def [of "[_]"])
  have total: "n * 10 ^ length (d # ds) + dec_nat (d # ds) = ?n' * 10 ^ length ds + dec_nat ds"
    by (simp add: dec algebra_simps)
  show ?case
  proof (cases "?n' < 256 ^ 127")
    case True
    then have "\<not> length (le_push_carry c out) > 127"
      using length_nat_bytes_le [of ?n' 127] len by simp
    moreover have "from_decimal_loop ds (le_push_carry c out) =
      (if ?n' * 10 ^ length ds + dec_nat ds < 256 ^ 127
       then Ok (rev (nat_bytes (?n' * 10 ^ length ds + dec_nat ds)))
       else errf ''Amount is too wide.'')"
      using Cons.prems(1) r True by (intro Cons.IH) auto
    ultimately show ?thesis unfolding total by (simp add: p)
  next
    case False
    then have "length (le_push_carry c out) > 127"
      using length_nat_bytes_le [of ?n' 127] len by simp
    moreover have "?n' * 1 \<le> ?n' * 10 ^ length ds + dec_nat ds"
      by (intro trans_le_add1 mult_le_mono2) simp
    then have "\<not> ?n' * 10 ^ length ds + dec_nat ds < 256 ^ 127"
      using False by (metis le_less_trans mult.right_neutral)
    ultimately show ?thesis unfolding total by (simp add: p)
  qed
qed

theorem from_decimal_b256_eq:
  assumes "\<forall>c\<in>set ds. is_ascii_digit c"
  shows "from_decimal_b256 ds =
    (if dec_nat ds < 256 ^ 127 then Ok (nat_bytes (dec_nat ds)) else errf ''Amount is too wide.'')"
proof -
  have "rev [] = nat_bytes 0" "(0 :: nat) < 256 ^ 127" by simp_all
  from from_decimal_loop_spec [OF assms this]
  have *: "from_decimal_loop ds [] =
    (if dec_nat ds < 256 ^ 127 then Ok (rev (nat_bytes (dec_nat ds)))
     else errf ''Amount is too wide.'')"
    by (simp only: mult_zero_left add_0)
  show ?thesis unfolding from_decimal_b256_def * by (cases "dec_nat ds < 256 ^ 127") simp_all
qed

text \<open>Decimal output: divide by ten until nothing is left; the digits come lowest first.\<close>

function to_decimal_loop :: "bytes \<Rightarrow> string \<Rightarrow> string" where
  "to_decimal_loop buf digits =
     (let (buf', rem) = div_pass 10 buf 0; digits' = char_of_digit rem # digits in
      if \<not> list_ex (\<lambda>b. b \<noteq> 0) buf' then digits' else to_decimal_loop buf' digits')"
  by pat_completeness auto
termination
proof (relation "measure (\<lambda>(buf, digits). be_nat buf)", goal_cases)
  case (2 buf digits x buf' rem digits')
  then have "be_nat buf' = be_nat buf div 10" using be_nat_div_pass(1) [of 10 buf buf' rem] by simp
  moreover from 2 have "be_nat buf' \<noteq> 0" by (auto simp: be_nat_eq_0_iff list_ex_iff)
  ultimately show ?case by simp
qed simp

declare to_decimal_loop.simps [simp del]

definition to_decimal_b256 :: "bytes \<Rightarrow> string" where
  "to_decimal_b256 bs =
     (let bs = skip_left_zero bs in if bs = [] then ''0'' else to_decimal_loop bs [])"

lemma to_decimal_loop_eq: "to_decimal_loop buf acc = nat_dec (be_nat buf) @ acc"
proof (induction buf acc rule: to_decimal_loop.induct)
  case (1 buf acc)
  obtain q r where p: "div_pass 10 buf 0 = (q, r)" by fastforce
  then have q: "be_nat q = be_nat buf div 10" and r: "r = be_nat buf mod 10"
    using be_nat_div_pass [of 10 buf q r] by simp_all
  show ?case
  proof (cases "be_nat q = 0")
    case True
    then have "\<not> list_ex (\<lambda>b. b \<noteq> 0) q" by (auto simp: be_nat_eq_0_iff list_ex_iff)
    moreover from True q have "be_nat buf < 10" by simp
    ultimately show ?thesis using p r
      by (simp add: to_decimal_loop.simps [of buf] nat_dec.simps [of "be_nat buf"])
  next
    case False
    then have ex: "list_ex (\<lambda>b. b \<noteq> 0) q" by (auto simp: be_nat_eq_0_iff list_ex_iff)
    with "1.IH" [OF p [symmetric] refl refl] have
      "to_decimal_loop q (char_of_digit r # acc) = nat_dec (be_nat q) @ char_of_digit r # acc"
      by simp
    with ex p q r False show ?thesis
      by (simp add: to_decimal_loop.simps [of buf] nat_dec.simps [of "be_nat buf"] div_eq_0_iff)
  qed
qed

theorem to_decimal_b256_eq: "to_decimal_b256 bs = nat_dec (be_nat bs)"
proof (cases "be_nat bs = 0")
  case True
  moreover have "nat_dec 0 = ''0''" by (simp add: nat_dec.simps) code_simp
  ultimately show ?thesis by (simp add: to_decimal_b256_def)
next
  case False
  then show ?thesis by (simp add: to_decimal_b256_def to_decimal_loop_eq)
qed

end
