(* ===== verification/Codec.thy ===== *)
theory Codec
  imports Prelude
begin

text \<open>
  The wire codec of \<^verbatim>\<open>src/field/src/codec.rs\<close> and the leaf types built on it: the
  cursor \<open>reader\<close>, fixed-width unsigned integers (\<^verbatim>\<open>uint.rs\<close>), byte arrays
  (\<^verbatim>\<open>fixed.rs\<close>), booleans (\<^verbatim>\<open>bool.rs\<close>), counted byte strings (\<^verbatim>\<open>bytes_w.rs\<close>) and
  counted lists (\<^verbatim>\<open>list.rs\<close>). The locale \<open>codec\<close> states what the traits
  \<^verbatim>\<open>Encode\<close> and \<^verbatim>\<open>Decode\<close> promise together; every wire type interprets it.
\<close>

section \<open>The cursor\<close>

record reader =
  rd_buf :: bytes
  rd_pos :: nat

definition reader_new :: "bytes \<Rightarrow> reader" where
  "reader_new buf = \<lparr>rd_buf = buf, rd_pos = 0\<rparr>"

definition reader_read :: "(bytes \<Rightarrow> ('a \<times> nat) ret) \<Rightarrow> reader \<Rightarrow> ('a \<times> reader) ret" where
  "reader_read dec r =
     try_ret (dec (drop (rd_pos r) (rd_buf r))) (\<lambda>(v, used).
     Ok (v, r\<lparr>rd_pos := rd_pos r + used\<rparr>))"

definition reader_skip :: "nat \<Rightarrow> reader \<Rightarrow> reader ret" where
  "reader_skip n r =
     (if rd_pos r + n > length (rd_buf r) then normalf ''buffer too short''
      else Ok (r\<lparr>rd_pos := rd_pos r + n\<rparr>))"

definition reader_read_bytes :: "nat \<Rightarrow> reader \<Rightarrow> (bytes \<times> reader) ret" where
  "reader_read_bytes n r =
     (let start = rd_pos r in
      try_ret (reader_skip n r) (\<lambda>r'.
      Ok (take (rd_pos r' - start) (drop start (rd_buf r')), r')))"

definition reader_read_with :: "(bytes \<Rightarrow> ('a \<times> nat) ret) \<Rightarrow> reader \<Rightarrow> ('a \<times> reader) ret" where
  "reader_read_with dec r =
     try_ret (dec (drop (rd_pos r) (rd_buf r))) (\<lambda>(value, used).
     try_ret (reader_skip used r) (\<lambda>r'. Ok (value, r')))"

definition reader_used :: "reader \<Rightarrow> nat" where
  "reader_used r = rd_pos r"

definition reader_remaining :: "reader \<Rightarrow> nat" where
  "reader_remaining r = length (rd_buf r) - rd_pos r"

text \<open>A reader that has consumed \<open>pre\<close> and has \<open>suf\<close> in front of it.\<close>

definition reader_at :: "bytes \<Rightarrow> bytes \<Rightarrow> reader" where
  "reader_at pre suf = \<lparr>rd_buf = pre @ suf, rd_pos = length pre\<rparr>"

lemma reader_new_at: "reader_new buf = reader_at [] buf"
  by (simp add: reader_new_def reader_at_def)

lemma reader_used_at [simp]: "reader_used (reader_at pre suf) = length pre"
  by (simp add: reader_used_def reader_at_def)

lemma reader_remaining_at [simp]: "reader_remaining (reader_at pre suf) = length suf"
  by (simp add: reader_remaining_def reader_at_def)

lemma reader_skip_at:
  "reader_skip n (reader_at pre suf) =
     (if n \<le> length suf then Ok (reader_at (pre @ take n suf) (drop n suf))
      else normalf ''buffer too short'')"
  by (auto simp: reader_skip_def reader_at_def)

lemma reader_read_bytes_at:
  "reader_read_bytes n (reader_at pre suf) =
     (if n \<le> length suf then Ok (take n suf, reader_at (pre @ take n suf) (drop n suf))
      else normalf ''buffer too short'')"
  unfolding reader_read_bytes_def Let_def reader_skip_at
  by (auto simp: reader_at_def)

lemma reader_read_at:
  "reader_read dec (reader_at pre suf) =
     try_ret (dec suf) (\<lambda>(v, used). Ok (v, \<lparr>rd_buf = pre @ suf, rd_pos = length pre + used\<rparr>))"
  by (simp add: reader_read_def reader_at_def)

section \<open>What a codec promises\<close>

text \<open>
  \<open>valid\<close> is the set of values the type can hold. The laws: the size is the length of
  the encoding, decoding an encoding gives the value back and leaves the rest of the buffer
  alone, and a buffer that decodes begins with the encoding of the decoded (valid) value.
  The last law is what the code calls canonical: one encoding per value.
\<close>

locale codec =
  fixes valid :: "'a \<Rightarrow> bool"
    and size :: "'a \<Rightarrow> nat"
    and encode :: "'a \<Rightarrow> bytes"
    and decode :: "bytes \<Rightarrow> ('a \<times> nat) ret"
  assumes size_encode: "valid x \<Longrightarrow> size x = length (encode x)"
    and decode_encode: "valid x \<Longrightarrow> decode (encode x @ rest) = Ok (x, length (encode x))"
    and decode_sound: "decode buf = Ok (x, n) \<Longrightarrow>
          valid x \<and> n = length (encode x) \<and> (\<exists>rest. buf = encode x @ rest)"
begin

lemma decode_encode_nil: "valid x \<Longrightarrow> decode (encode x) = Ok (x, length (encode x))"
  using decode_encode [of x "[]"] by simp

lemma encode_inj: "valid x \<Longrightarrow> valid y \<Longrightarrow> encode x = encode y \<Longrightarrow> x = y"
  by (metis decode_encode_nil Inr_inject prod.inject)

lemma encode_prefix_free:
  assumes "valid x" and "valid y" and "encode x @ r = encode y @ s"
  shows "x = y \<and> r = s"
proof -
  from decode_encode [of x r] decode_encode [of y s] assms have "x = y" by simp
  with assms show ?thesis by simp
qed

lemma decode_take:
  assumes "decode buf = Ok (x, n)"
  shows "take n buf = encode x" and "n \<le> length buf" and "n = size x" and "valid x"
  using decode_sound [OF assms] by (auto simp: size_encode)

lemma read_ok:
  "valid x \<Longrightarrow>
   reader_read decode (reader_at pre (encode x @ suf)) = Ok (x, reader_at (pre @ encode x) suf)"
  by (simp add: reader_read_at decode_encode) (simp add: reader_at_def)

lemma read_inv:
  assumes "reader_read decode (reader_at pre suf) = Ok (x, r')"
  obtains suf' where "suf = encode x @ suf'" and "r' = reader_at (pre @ encode x) suf'"
    and "valid x"
proof -
  from assms obtain n where d: "decode suf = Ok (x, n)"
    and r': "r' = \<lparr>rd_buf = pre @ suf, rd_pos = length pre + n\<rparr>"
    by (auto simp: reader_read_at)
  from decode_sound [OF d] obtain rest where
    v: "valid x" and n: "n = length (encode x)" and suf: "suf = encode x @ rest" by blast
  from suf r' n v show thesis by (intro that [of rest]) (auto simp: reader_at_def)
qed

end

section \<open>Fixed-width unsigned integers\<close>

text \<open>
  The macro \<^verbatim>\<open>fixed_uint!\<close> is instantiated with a primitive of \<open>p\<close> bytes and a wire
  width of \<open>n\<close> bytes. A value is the number itself.
\<close>

definition uint_max :: "nat \<Rightarrow> nat \<Rightarrow> nat" where
  "uint_max n full = (if n = full then u128_max else 2 ^ (n * 8) - 1)"

definition uint_MAX :: "nat \<Rightarrow> nat \<Rightarrow> nat" where
  "uint_MAX p n = uint_max n p mod 2 ^ (8 * p)"

definition uint_from :: "nat \<Rightarrow> nat \<Rightarrow> nat \<Rightarrow> nat ret" where
  "uint_from p n v = (if v > uint_MAX p n then panicf ''overflow'' else Ok v)"

definition uint_from_checked :: "nat \<Rightarrow> nat \<Rightarrow> nat \<Rightarrow> nat option" where
  "uint_from_checked p n v = (if v \<le> uint_MAX p n then Some v else None)"

definition uint_from_usize :: "nat \<Rightarrow> nat \<Rightarrow> nat \<Rightarrow> nat ret" where
  "uint_from_usize p n v = (if v > uint_MAX p n then errf ''value exceeds max'' else Ok v)"

definition uint_size :: "nat \<Rightarrow> nat \<Rightarrow> nat" where
  "uint_size n v = n"

definition uint_encode :: "nat \<Rightarrow> nat \<Rightarrow> nat \<Rightarrow> bytes" where
  "uint_encode p n v = drop (p - n) (to_be_bytes p v)"

definition uint_decode :: "nat \<Rightarrow> nat \<Rightarrow> bytes \<Rightarrow> (nat \<times> nat) ret" where
  "uint_decode p n buf =
     (if length buf < n then normalf ''buffer too short''
      else let value = be_nat (replicate (p - n) 0 @ take n buf)
           in if value > uint_MAX p n then normalf ''parse value exceeds max''
              else Ok (value, n))"

definition uint_valid :: "nat \<Rightarrow> nat \<Rightarrow> nat \<Rightarrow> bool" where
  "uint_valid p n v \<longleftrightarrow> v \<le> uint_MAX p n"

lemmas uint_defs [codec_defs] =
  uint_max_def uint_MAX_def uint_encode_def uint_decode_def uint_size_def uint_valid_def

lemma uint_MAX_eq:
  assumes "n \<le> p" and "p \<le> 16"
  shows "uint_MAX p n = 2 ^ (8 * n) - 1"
proof (cases "n = p")
  case True
  have "(2 :: nat) ^ (8 * p) dvd 2 ^ 128"
    using assms by (intro le_imp_power_dvd) simp
  moreover have "Suc u128_max = 2 ^ 128" by simp
  ultimately have "Suc u128_max mod 2 ^ (8 * p) = 0" by (metis dvd_imp_mod_0)
  then have "Suc (u128_max mod 2 ^ (8 * p)) = 2 ^ (8 * p)"
    by (simp only: mod_Suc split: if_splits)
  with True show ?thesis by (simp add: uint_MAX_def uint_max_def)
next
  case False
  with assms have "(2 :: nat) ^ (n * 8) < 2 ^ (8 * p)" by simp
  moreover have "(1 :: nat) \<le> 2 ^ (n * 8)" by simp
  ultimately have "(2 ^ (n * 8) - 1) mod 2 ^ (8 * p) = (2 ^ (n * 8) - 1 :: nat)"
    by (intro mod_less) linarith
  with False show ?thesis by (simp add: uint_MAX_def uint_max_def mult.commute)
qed

lemma uint_valid_iff: "n \<le> p \<Longrightarrow> p \<le> 16 \<Longrightarrow> uint_valid p n v \<longleftrightarrow> v < 2 ^ (8 * n)"
  by (simp add: uint_valid_def uint_MAX_eq Suc_le_eq flip: less_Suc_eq_le)

lemma pow_256: "(256 :: nat) ^ n = 2 ^ (8 * n)"
  by (simp add: power_mult)

lemma uint_codec:
  assumes "n \<le> p" and "p \<le> 16"
  shows "codec (uint_valid p n) (uint_size n) (uint_encode p n) (uint_decode p n)"
proof
  fix x
  show "uint_size n x = length (uint_encode p n x)" if "uint_valid p n x"
    using assms by (simp add: uint_size_def uint_encode_def)
  fix rest
  show "uint_decode p n (uint_encode p n x @ rest) = Ok (x, length (uint_encode p n x))"
    if "uint_valid p n x"
    using assms that
    by (simp add: uint_decode_def uint_encode_def be_nat_append drop_to_be_bytes
        be_nat_to_be_bytes uint_valid_iff pow_256) (simp add: uint_MAX_eq)
next
  fix buf x k
  assume *: "uint_decode p n buf = Ok (x, k)"
  then have len: "n \<le> length buf" and x: "x = be_nat (take n buf)" "x \<le> uint_MAX p n" "k = n"
    by (auto simp: uint_decode_def be_nat_append Let_def split: if_splits)
  have "uint_encode p n x = take n buf"
    using assms len to_be_bytes_be_nat [of "take n buf"]
    by (simp add: uint_encode_def drop_to_be_bytes x)
  moreover have "buf = take n buf @ drop n buf" by simp
  ultimately show "uint_valid p n x \<and> k = length (uint_encode p n x) \<and>
      (\<exists>rest. buf = uint_encode p n x @ rest)"
    using x len by (metis length_take min.absorb2 uint_valid_def)
qed

text \<open>The instances: \<^verbatim>\<open>Uint1\<close> to \<^verbatim>\<open>Uint12\<close> as the field types use them.\<close>

abbreviation (input) Uint1 :: "(nat \<Rightarrow> nat \<Rightarrow> 'a) \<Rightarrow> 'a" where "Uint1 f \<equiv> f 1 1"
abbreviation (input) Uint2 :: "(nat \<Rightarrow> nat \<Rightarrow> 'a) \<Rightarrow> 'a" where "Uint2 f \<equiv> f 2 2"
abbreviation (input) Uint3 :: "(nat \<Rightarrow> nat \<Rightarrow> 'a) \<Rightarrow> 'a" where "Uint3 f \<equiv> f 4 3"
abbreviation (input) Uint4 :: "(nat \<Rightarrow> nat \<Rightarrow> 'a) \<Rightarrow> 'a" where "Uint4 f \<equiv> f 4 4"
abbreviation (input) Uint5 :: "(nat \<Rightarrow> nat \<Rightarrow> 'a) \<Rightarrow> 'a" where "Uint5 f \<equiv> f 8 5"
abbreviation (input) Uint8 :: "(nat \<Rightarrow> nat \<Rightarrow> 'a) \<Rightarrow> 'a" where "Uint8 f \<equiv> f 8 8"
abbreviation (input) Uint12 :: "(nat \<Rightarrow> nat \<Rightarrow> 'a) \<Rightarrow> 'a" where "Uint12 f \<equiv> f 16 12"

interpretation uint1: codec "Uint1 uint_valid" "uint_size 1" "Uint1 uint_encode" "Uint1 uint_decode"
  by (rule uint_codec) simp_all

interpretation uint2: codec "Uint2 uint_valid" "uint_size 2" "Uint2 uint_encode" "Uint2 uint_decode"
  by (rule uint_codec) simp_all

interpretation uint3: codec "Uint3 uint_valid" "uint_size 3" "Uint3 uint_encode" "Uint3 uint_decode"
  by (rule uint_codec) simp_all

interpretation uint4: codec "Uint4 uint_valid" "uint_size 4" "Uint4 uint_encode" "Uint4 uint_decode"
  by (rule uint_codec) simp_all

interpretation uint5: codec "Uint5 uint_valid" "uint_size 5" "Uint5 uint_encode" "Uint5 uint_decode"
  by (rule uint_codec) simp_all

interpretation uint8: codec "Uint8 uint_valid" "uint_size 8" "Uint8 uint_encode" "Uint8 uint_decode"
  by (rule uint_codec) simp_all

interpretation uint12: codec "Uint12 uint_valid" "uint_size 12" "Uint12 uint_encode" "Uint12 uint_decode"
  by (rule uint_codec) simp_all

section \<open>Byte arrays and booleans\<close>

definition fixed_valid :: "nat \<Rightarrow> bytes \<Rightarrow> bool" where
  "fixed_valid n x \<longleftrightarrow> length x = n"

definition fixed_size :: "nat \<Rightarrow> bytes \<Rightarrow> nat" where
  "fixed_size n x = n"

definition fixed_encode :: "bytes \<Rightarrow> bytes" where
  "fixed_encode x = x"

definition fixed_decode :: "nat \<Rightarrow> bytes \<Rightarrow> (bytes \<times> nat) ret" where
  "fixed_decode n buf =
     (if length buf < n then normalf ''buffer too short for Fixed'' else Ok (take n buf, n))"

definition fixed_is_zero :: "bytes \<Rightarrow> bool" where
  "fixed_is_zero x = list_all (\<lambda>b. b = 0) x"

lemmas fixed_defs [codec_defs] =
  fixed_valid_def fixed_size_def fixed_encode_def fixed_decode_def

lemma fixed_codec: "codec (fixed_valid n) (fixed_size n) fixed_encode (fixed_decode n)"
proof
  fix buf x k
  assume "fixed_decode n buf = Ok (x, k)"
  then have "n \<le> length buf" "x = take n buf" "k = n"
    by (auto simp: fixed_decode_def split: if_splits)
  then show "fixed_valid n x \<and> k = length (fixed_encode x) \<and> (\<exists>rest. buf = fixed_encode x @ rest)"
    by (auto simp: fixed_valid_def fixed_encode_def intro: exI [of _ "drop n buf"])
qed (auto simp: fixed_defs)

definition bool_size :: "bool \<Rightarrow> nat" where
  "bool_size v = 1"

definition bool_encode :: "bool \<Rightarrow> bytes" where
  "bool_encode v = fixed_encode [if v then 1 else 0]"

definition bool_decode :: "bytes \<Rightarrow> (bool \<times> nat) ret" where
  "bool_decode buf =
     try_ret (fixed_decode 1 buf) (\<lambda>(v, n).
     if v ! 0 > 1 then normalf ''Bool value invalid'' else Ok (v ! 0 \<noteq> 0, n))"

lemmas bool_defs [codec_defs] = bool_size_def bool_encode_def bool_decode_def

lemma u8_le_1: "\<not> (1 :: u8) < b \<Longrightarrow> b \<noteq> 0 \<Longrightarrow> b = 1"
  by unat_arith

interpretation bool: codec "\<lambda>_. True" bool_size bool_encode bool_decode
proof
  fix buf x k
  assume "bool_decode buf = Ok (x, k)"
  then obtain b r where "buf = b # r" and b: "\<not> b > 1" "x = (b \<noteq> 0)" "k = 1"
    by (cases buf) (auto simp: bool_decode_def fixed_decode_def split: if_splits)
  moreover from b have "bool_encode x = [b]"
    by (cases "b = 0") (simp_all add: bool_encode_def fixed_encode_def u8_le_1)
  ultimately show "True \<and> k = length (bool_encode x) \<and> (\<exists>rest. buf = bool_encode x @ rest)"
    by simp
qed (auto simp: bool_defs fixed_defs)

section \<open>Counted byte strings\<close>

text \<open>
  \<^verbatim>\<open>BytesW1\<close>, \<^verbatim>\<open>BytesW2\<close> and \<^verbatim>\<open>BytesW4\<close> carry a length of \<open>p\<close> bytes in front. The
  encoder casts the length to the count type, so it wraps on an oversized string; the
  constructor \<open>bytesw_from\<close> refuses those.
\<close>

definition bytesw_from :: "nat \<Rightarrow> bytes \<Rightarrow> bytes ret" where
  "bytesw_from p buf = try_ret (uint_from_usize p p (length buf)) (\<lambda>_. Ok buf)"

definition bytesw_size :: "nat \<Rightarrow> bytes \<Rightarrow> nat" where
  "bytesw_size p x = p + length x"

definition bytesw_encode :: "nat \<Rightarrow> bytes \<Rightarrow> bytes" where
  "bytesw_encode p x = uint_encode p p (length x mod 2 ^ (8 * p)) @ x"

definition bytesw_decode :: "nat \<Rightarrow> bytes \<Rightarrow> (bytes \<times> nat) ret" where
  "bytesw_decode p buf =
     try_ret (reader_read (uint_decode p p) (reader_new buf)) (\<lambda>(count, r).
     try_ret (reader_read_bytes count r) (\<lambda>(bs, r).
     Ok (bs, reader_used r)))"

definition bytesw_valid :: "nat \<Rightarrow> bytes \<Rightarrow> bool" where
  "bytesw_valid p x \<longleftrightarrow> length x \<le> uint_MAX p p"

lemmas bytesw_defs [codec_defs] =
  bytesw_size_def bytesw_encode_def bytesw_decode_def bytesw_valid_def

lemma bytesw_from_valid: "bytesw_from p buf = Ok x \<longleftrightarrow> x = buf \<and> bytesw_valid p buf"
  by (auto simp: bytesw_from_def uint_from_usize_def bytesw_valid_def)

lemma bytesw_codec:
  assumes "p \<le> 16"
  shows "codec (bytesw_valid p) (bytesw_size p) (bytesw_encode p) (bytesw_decode p)"
proof -
  have c: "codec (uint_valid p p) (uint_size p) (uint_encode p p) (uint_decode p p)"
    using assms by (intro uint_codec) simp_all
  have len: "length x mod 2 ^ (8 * p) = length x" if "bytesw_valid p x" for x
    using that assms uint_valid_iff [of p p "length x"]
    by (simp add: bytesw_valid_def uint_valid_def)
  show ?thesis
  proof
    fix x rest
    assume v: "bytesw_valid p x"
    then have u: "uint_valid p p (length x)" by (simp add: bytesw_valid_def uint_valid_def)
    show "bytesw_size p x = length (bytesw_encode p x)"
      using assms by (simp add: bytesw_defs uint_encode_def)
    show "bytesw_decode p (bytesw_encode p x @ rest) = Ok (x, length (bytesw_encode p x))"
      using codec.read_ok [OF c u, of "[]" "x @ rest"]
      by (simp add: bytesw_decode_def bytesw_encode_def len [OF v] reader_new_at
          reader_read_bytes_at)
  next
    fix buf x k
    assume *: "bytesw_decode p buf = Ok (x, k)"
    then obtain count r r' where
      rd: "reader_read (uint_decode p p) (reader_at [] buf) = Ok (count, r)" and
      rb: "reader_read_bytes count r = Ok (x, r')" and k: "k = reader_used r'"
      by (auto simp: bytesw_decode_def reader_new_at)
    from rd obtain suf where buf: "buf = uint_encode p p count @ suf"
      and r: "r = reader_at (uint_encode p p count) suf" and v: "uint_valid p p count"
      by (auto elim: codec.read_inv [OF c])
    from rb r have x: "x = take count suf" "count \<le> length suf"
      and r': "r' = reader_at (uint_encode p p count @ x) (drop count suf)"
      by (auto simp: reader_read_bytes_at split: if_splits)
    then have lx: "length x = count" by simp
    with v have vx: "bytesw_valid p x" by (simp add: bytesw_valid_def uint_valid_def)
    have enc: "bytesw_encode p x = uint_encode p p count @ x"
      using len [OF vx] lx by (simp add: bytesw_encode_def)
    show "bytesw_valid p x \<and> k = length (bytesw_encode p x) \<and>
        (\<exists>rest. buf = bytesw_encode p x @ rest)"
      using vx enc buf x k r' by (auto intro: exI [of _ "drop count suf"])
  qed
qed

interpretation bytesw1: codec "bytesw_valid 1" "bytesw_size 1" "bytesw_encode 1" "bytesw_decode 1"
  by (rule bytesw_codec) simp

interpretation bytesw4: codec "bytesw_valid 4" "bytesw_size 4" "bytesw_encode 4" "bytesw_decode 4"
  by (rule bytesw_codec) simp

section \<open>Counted lists\<close>

text \<open>
  \<^verbatim>\<open>ListW1\<close> and \<^verbatim>\<open>ListW2\<close> carry a count of \<open>p\<close> bytes. On a list longer than the
  count can say the encoder of the source panics; such lists are outside \<open>listw_valid\<close>
  and \<open>listw_from\<close> and \<open>listw_push\<close> refuse to build them.
\<close>

definition listw_from :: "nat \<Rightarrow> 'a list \<Rightarrow> 'a list ret" where
  "listw_from p v = try_ret (uint_from_usize p p (length v)) (\<lambda>_. Ok v)"

definition listw_push :: "nat \<Rightarrow> 'a list \<Rightarrow> 'a \<Rightarrow> 'a list ret" where
  "listw_push p xs v = try_ret (uint_from_usize p p (length xs + 1)) (\<lambda>_. Ok (xs @ [v]))"

definition listw_drop :: "'a list \<Rightarrow> nat \<Rightarrow> ('a \<times> 'a list) ret" where
  "listw_drop xs i =
     (if i \<ge> length xs then errf ''list index overflow''
      else Ok (xs ! i, take i xs @ drop (Suc i) xs))"

definition listw_size :: "nat \<Rightarrow> ('a \<Rightarrow> nat) \<Rightarrow> 'a list \<Rightarrow> nat" where
  "listw_size p sz xs = p + sum_list (map sz xs)"

definition listw_encode :: "nat \<Rightarrow> ('a \<Rightarrow> bytes) \<Rightarrow> 'a list \<Rightarrow> bytes" where
  "listw_encode p enc xs = uint_encode p p (length xs) @ concat (map enc xs)"

primrec read_many :: "(bytes \<Rightarrow> ('a \<times> nat) ret) \<Rightarrow> nat \<Rightarrow> reader \<Rightarrow> ('a list \<times> reader) ret" where
  "read_many dec 0 r = Ok ([], r)"
| "read_many dec (Suc k) r =
     try_ret (reader_read dec r) (\<lambda>(v, r).
     try_ret (read_many dec k r) (\<lambda>(vs, r).
     Ok (v # vs, r)))"

definition listw_decode :: "nat \<Rightarrow> (bytes \<Rightarrow> ('a \<times> nat) ret) \<Rightarrow> bytes \<Rightarrow> ('a list \<times> nat) ret" where
  "listw_decode p dec buf =
     try_ret (reader_read (uint_decode p p) (reader_new buf)) (\<lambda>(count, r).
     try_ret (read_many dec count r) (\<lambda>(vals, r).
     Ok (vals, reader_used r)))"

definition listw_valid :: "nat \<Rightarrow> ('a \<Rightarrow> bool) \<Rightarrow> 'a list \<Rightarrow> bool" where
  "listw_valid p valid xs \<longleftrightarrow> length xs \<le> uint_MAX p p \<and> (\<forall>x\<in>set xs. valid x)"

lemmas listw_defs [codec_defs] =
  listw_size_def listw_encode_def listw_decode_def listw_valid_def

lemma listw_from_valid:
  "listw_from p xs = Ok ys \<Longrightarrow> \<forall>x\<in>set xs. valid x \<Longrightarrow> ys = xs \<and> listw_valid p valid ys"
  by (auto simp: listw_from_def uint_from_usize_def listw_valid_def split: if_splits)

lemma listw_push_valid:
  "listw_push p xs v = Ok ys \<Longrightarrow> listw_valid p valid xs \<Longrightarrow> valid v \<Longrightarrow>
   ys = xs @ [v] \<and> listw_valid p valid ys"
  by (auto simp: listw_push_def uint_from_usize_def listw_valid_def split: if_splits)

lemma listw_drop_length:
  "listw_drop xs i = Ok (x, ys) \<Longrightarrow> x = xs ! i \<and> i < length xs \<and> length ys = length xs - 1"
  by (auto simp: listw_drop_def split: if_splits)

context codec
begin

lemma read_many_ok:
  "\<forall>x\<in>set xs. valid x \<Longrightarrow>
   read_many decode (length xs) (reader_at pre (concat (map encode xs) @ suf)) =
     Ok (xs, reader_at (pre @ concat (map encode xs)) suf)"
proof (induction xs arbitrary: pre)
  case Nil
  then show ?case by simp
next
  case (Cons x xs)
  then show ?case using Cons.IH [of "pre @ encode x"]
    by (simp add: read_ok)
qed

lemma read_many_inv:
  "read_many decode k (reader_at pre suf) = Ok (xs, r') \<Longrightarrow>
   length xs = k \<and> (\<forall>x\<in>set xs. valid x) \<and>
   (\<exists>suf'. suf = concat (map encode xs) @ suf' \<and>
      r' = reader_at (pre @ concat (map encode xs)) suf')"
proof (induction k arbitrary: pre suf xs)
  case 0
  then show ?case by simp
next
  case (Suc k)
  from Suc.prems obtain v r vs where rd: "reader_read decode (reader_at pre suf) = Ok (v, r)"
    and rm: "read_many decode k r = Ok (vs, r')" and xs: "xs = v # vs"
    by auto
  from rd obtain suf1 where suf: "suf = encode v @ suf1"
    and r: "r = reader_at (pre @ encode v) suf1" and v: "valid v"
    by (rule read_inv)
  from Suc.IH [OF rm [unfolded r]] suf v xs show ?case by auto
qed

lemma listw_codec:
  assumes "p \<le> 16"
  shows "codec (listw_valid p valid) (listw_size p size) (listw_encode p encode) (listw_decode p decode)"
proof -
  have c: "codec (uint_valid p p) (uint_size p) (uint_encode p p) (uint_decode p p)"
    using assms by (intro uint_codec) simp_all
  show ?thesis
  proof
    fix xs rest
    assume v: "listw_valid p valid xs"
    then have u: "uint_valid p p (length xs)" by (simp add: listw_valid_def uint_valid_def)
    have "sum_list (map size xs) = length (concat (map encode xs))"
      using v by (induction xs) (auto simp: listw_valid_def size_encode)
    then show "listw_size p size xs = length (listw_encode p encode xs)"
      using assms by (simp add: listw_size_def listw_encode_def uint_encode_def)
    from v have "\<forall>x\<in>set xs. valid x" by (simp add: listw_valid_def)
    from codec.read_ok [OF c u, of "[]" "concat (map encode xs) @ rest"] read_many_ok [OF this]
    show "listw_decode p decode (listw_encode p encode xs @ rest) =
        Ok (xs, length (listw_encode p encode xs))"
      by (simp add: listw_decode_def listw_encode_def reader_new_at)
  next
    fix buf xs k
    assume "listw_decode p decode buf = Ok (xs, k)"
    then obtain count r r' where
      rd: "reader_read (uint_decode p p) (reader_at [] buf) = Ok (count, r)" and
      rm: "read_many decode count r = Ok (xs, r')" and k: "k = reader_used r'"
      by (auto simp: listw_decode_def reader_new_at)
    from rd obtain suf where buf: "buf = uint_encode p p count @ suf"
      and r: "r = reader_at (uint_encode p p count) suf" and v: "uint_valid p p count"
      by (auto elim: codec.read_inv [OF c])
    from read_many_inv [OF rm [unfolded r]] buf v k
    show "listw_valid p valid xs \<and> k = length (listw_encode p encode xs) \<and>
        (\<exists>rest. buf = listw_encode p encode xs @ rest)"
      by (auto simp: listw_valid_def listw_encode_def uint_valid_def)
  qed
qed

end

end
