(* ===== verification/Amount.thy ===== *)
theory Amount
  imports Base256 Codec
begin

text \<open>
  HAC amounts, \<^verbatim>\<open>src/field/src/types/amount.rs\<close>: a mantissa of big-endian bytes and a
  decimal unit, \<open>value = mantissa * 10 ^ unit\<close>. The theory has the struct, its predicates,
  constructors, unit conversions, checked arithmetic, ordering and wire codec; the text forms
  are in \<^verbatim>\<open>AmountText\<close>. \<open>amt_val\<close> is the number an amount denotes, and the lemmas say
  what each operation does to it.
\<close>

section \<open>The struct and its predicates\<close>

record amount =
  amt_unit :: nat
  amt_dist :: int
  amt_byte :: bytes

abbreviation UNIT_MEI :: nat where "UNIT_MEI \<equiv> 248"
abbreviation UNIT_244 :: nat where "UNIT_244 \<equiv> 244"
abbreviation UNIT_ZHU :: nat where "UNIT_ZHU \<equiv> 240"
abbreviation UNIT_238 :: nat where "UNIT_238 \<equiv> 238"
abbreviation UNIT_SHUO :: nat where "UNIT_SHUO \<equiv> 232"
abbreviation UNIT_AI :: nat where "UNIT_AI \<equiv> 224"
abbreviation UNIT_MIAO :: nat where "UNIT_MIAO \<equiv> 216"

datatype AmtCpr = Discard | Grow

definition AMOUNT_STORE_MAX_SIZE :: nat where
  "AMOUNT_STORE_MAX_SIZE = 12"

definition amt_zero :: amount where
  "amt_zero = \<lparr>amt_unit = 0, amt_dist = 0, amt_byte = []\<rparr>"

definition tail_len :: "amount \<Rightarrow> nat" where
  "tail_len a = nat \<bar>amt_dist a\<bar>"

definition amt_is_zero :: "amount \<Rightarrow> bool" where
  "amt_is_zero a = list_all (\<lambda>b. b = 0) (amt_byte a)"

definition amt_not_zero :: "amount \<Rightarrow> bool" where
  "amt_not_zero a = (\<not> amt_is_zero a)"

definition amt_is_positive :: "amount \<Rightarrow> bool" where
  "amt_is_positive a = (amt_dist a > 0 \<and> amt_not_zero a)"

definition amt_is_negative :: "amount \<Rightarrow> bool" where
  "amt_is_negative a = (amt_dist a < 0 \<and> amt_not_zero a)"

section \<open>Constructors\<close>

definition drop_left_zero :: "bytes \<Rightarrow> bytes" where
  "drop_left_zero v = dropWhile (\<lambda>b. b = 0) v"

definition amt_small :: "nat \<Rightarrow> nat \<Rightarrow> amount" where
  "amt_small v u =
     (if v = 0 then amt_zero else \<lparr>amt_unit = u, amt_dist = 1, amt_byte = [of_nat v]\<rparr>)"

function coin_strip :: "nat \<Rightarrow> nat \<Rightarrow> nat \<times> nat" where
  "coin_strip v u =
     (if v mod 10 = 0 then (if u \<ge> 255 then (v, u) else coin_strip (v div 10) (u + 1))
      else (v, u))"
  by pat_completeness auto
termination
  by (relation "measure (\<lambda>(v, u). 255 - u)") auto

declare coin_strip.simps [simp del]

definition coin_u128 :: "nat \<Rightarrow> nat \<Rightarrow> amount" where
  "coin_u128 v u =
     (if v = 0 then amt_zero
      else let (v, u) = coin_strip v u; byte = drop_left_zero (to_be_bytes 16 v) in
           \<lparr>amt_unit = u, amt_dist = int (length byte), amt_byte = byte\<rparr>)"

definition from_unit_byte :: "nat \<Rightarrow> bytes \<Rightarrow> amount ret" where
  "from_unit_byte u byte =
     (if length byte > 127 then errf ''amount bytes len overflow 127.''
      else let byte = drop_left_zero byte in
           if byte = [] then Ok amt_zero
           else Ok \<lparr>amt_unit = u, amt_dist = int (length byte), amt_byte = byte\<rparr>)"

section \<open>Conversions to a unit\<close>

definition tail_to_u128 :: "bytes \<Rightarrow> nat \<Rightarrow> nat ret" where
  "tail_to_u128 bs limit =
     (if length bs > 16 then errf ''amount computing size overflow''
      else let value = be_nat (replicate (16 - length bs) 0 @ bs) in
           if value > limit then errf ''amount computing size overflow'' else Ok value)"

definition scale_u128 :: "nat \<Rightarrow> nat \<Rightarrow> nat \<Rightarrow> nat ret" where
  "scale_u128 value e limit =
     try_ret (ok_or (checked_pow 128 10 e) (Error Fault ''amount computing size overflow'' None)) (\<lambda>factor.
     ok_or (case checked_mul 128 value factor of
              None \<Rightarrow> None
            | Some v \<Rightarrow> if v \<le> limit then Some v else None)
       (Error Fault ''amount computing size overflow'' None))"

definition to_unit_u128 :: "amount \<Rightarrow> nat \<Rightarrow> nat ret" where
  "to_unit_u128 a base_unit =
     (if amt_is_negative a then errf ''amount overflow unit u128''
      else if amt_unit a \<ge> base_unit then
        try_ret (tail_to_u128 (amt_byte a) u128_max) (\<lambda>magnitude.
        scale_u128 magnitude (amt_unit a - base_unit) u128_max)
      else if length (amt_byte a) \<le> 16 then
        try_ret (tail_to_u128 (amt_byte a) u128_max) (\<lambda>magnitude.
        let k = base_unit - amt_unit a in
        if k > 38 then Ok 0 else Ok (magnitude div 10 ^ k))
      else
        tail_to_u128 (div_pow10_b256 (amt_byte a) (base_unit - amt_unit a)) u128_max)"

definition to_unit_u64 :: "amount \<Rightarrow> nat \<Rightarrow> nat ret" where
  "to_unit_u64 a base_unit =
     try_ret (to_unit_u128 a base_unit) (\<lambda>v.
     if v \<le> u64_max then Ok v else errf ''amount overflow u64'')"

abbreviation to_238_u64 :: "amount \<Rightarrow> nat ret" where "to_238_u64 a \<equiv> to_unit_u64 a UNIT_238"
abbreviation to_zhu_u64 :: "amount \<Rightarrow> nat ret" where "to_zhu_u64 a \<equiv> to_unit_u64 a UNIT_ZHU"

primrec exact_loop :: "nat \<Rightarrow> bytes \<Rightarrow> bool" where
  "exact_loop 0 magnitude = True"
| "exact_loop (Suc k) magnitude =
     (let (quotient, rem) = divmod_u64_b256 magnitude 10 in
      if rem \<noteq> 0 then False else if quotient = [] then True else exact_loop k quotient)"

definition is_exact_unit :: "amount \<Rightarrow> nat \<Rightarrow> bool ret" where
  "is_exact_unit a base_unit =
     (if amt_is_negative a then errf ''amount cannot be negative''
      else if amt_is_zero a \<or> amt_unit a \<ge> base_unit then Ok True
      else let k = base_unit - amt_unit a in
        if length (amt_byte a) \<le> 16 then
          try_ret (tail_to_u128 (amt_byte a) u128_max) (\<lambda>magnitude.
          if k > 38 then Ok False else Ok (magnitude mod 10 ^ k = 0))
        else Ok (exact_loop k (amt_byte a)))"

definition to_unit_u128_exact :: "amount \<Rightarrow> nat \<Rightarrow> nat ret" where
  "to_unit_u128_exact a base_unit =
     try_ret (is_exact_unit a base_unit) (\<lambda>exact.
     if \<not> exact then errf ''amount has precision below unit'' else to_unit_u128 a base_unit)"

definition to_unit_u64_exact :: "amount \<Rightarrow> nat \<Rightarrow> nat ret" where
  "to_unit_u64_exact a base_unit =
     try_ret (to_unit_u128_exact a base_unit) (\<lambda>v.
     if v \<le> u64_max then Ok v else errf ''amount overflow unit u64'')"

section \<open>Arithmetic\<close>

definition compute_unsigned :: "amount \<Rightarrow> amount \<Rightarrow> nat \<Rightarrow> bool \<Rightarrow> amount ret" where
  "compute_unsigned self rhs limit add =
     (if amt_is_negative self \<or> amt_is_negative rhs then errf ''amount operands cannot be negative''
      else if amt_is_zero self then
        (if add \<or> amt_is_zero rhs then Ok rhs else errf ''amount computing size overflow'')
      else if amt_is_zero rhs then Ok self
      else
        try_ret (tail_to_u128 (amt_byte self) limit) (\<lambda>lhs.
        try_ret (tail_to_u128 (amt_byte rhs) limit) (\<lambda>rhs_value.
        let base_unit = min (amt_unit self) (amt_unit rhs) in
        try_ret (if amt_unit self > base_unit
                 then try_ret (scale_u128 lhs (amt_unit self - base_unit) limit) (\<lambda>lhs. Ok (lhs, rhs_value))
                 else if amt_unit rhs > base_unit
                 then try_ret (scale_u128 rhs_value (amt_unit rhs - base_unit) limit) (\<lambda>rhs_value. Ok (lhs, rhs_value))
                 else Ok (lhs, rhs_value)) (\<lambda>(lhs, rhs_value).
        try_ret (ok_or (case (if add then checked_add 128 lhs rhs_value else checked_sub lhs rhs_value) of
                          None \<Rightarrow> None
                        | Some value \<Rightarrow> if value \<le> limit then Some value else None)
                   (Error Fault ''amount computing size overflow'' None)) (\<lambda>value.
        Ok (coin_u128 value base_unit))))))"

definition add_mode_u128 :: "amount \<Rightarrow> amount \<Rightarrow> amount ret" where
  "add_mode_u128 a b = compute_unsigned a b u128_max True"

definition sub_mode_u128 :: "amount \<Rightarrow> amount \<Rightarrow> amount ret" where
  "sub_mode_u128 a b = compute_unsigned a b u128_max False"

definition add_mode_u64 :: "amount \<Rightarrow> amount \<Rightarrow> amount ret" where
  "add_mode_u64 a b = compute_unsigned a b u64_max True"

definition sub_mode_u64 :: "amount \<Rightarrow> amount \<Rightarrow> amount ret" where
  "sub_mode_u64 a b = compute_unsigned a b u64_max False"

definition unit_sub :: "amount \<Rightarrow> nat \<Rightarrow> amount ret" where
  "unit_sub a sub =
     (if sub = 0 then Ok a
      else if sub > amt_unit a then errf ''unit_sub failed''
      else Ok (a\<lparr>amt_unit := amt_unit a - sub\<rparr>))"

definition dist_mul :: "amount \<Rightarrow> nat \<Rightarrow> amount ret" where
  "dist_mul a n =
     (if amt_is_zero a then Ok amt_zero
      else if amt_is_negative a then errf ''dist_mul not supported for negative amount''
      else
        try_ret (tail_to_u128 (amt_byte a) u128_max) (\<lambda>v.
        try_ret (ok_or (checked_mul 128 v n) (Error Fault ''dist_mul failed: u128 overflow'' None)) (\<lambda>value.
        Ok (coin_u128 value (amt_unit a)))))"

fun bit_length :: "nat \<Rightarrow> nat" where
  "bit_length n = (if n = 0 then 0 else Suc (bit_length (n div 2)))"

declare bit_length.simps [simp del]

definition u128_byte_len :: "nat \<Rightarrow> nat" where
  "u128_byte_len value = (bit_length value + 7) div 8"

function compress_loop :: "nat \<Rightarrow> AmtCpr \<Rightarrow> nat \<Rightarrow> nat \<Rightarrow> (nat \<times> nat) ret" where
  "compress_loop btn cpr value u =
     (if u128_byte_len value > btn then
        (if u \<ge> 255 then errf ''amount uint too large to compress''
         else compress_loop btn cpr (case cpr of Grow \<Rightarrow> value div 10 + 1 | Discard \<Rightarrow> value div 10) (u + 1))
      else Ok (value, u))"
  by pat_completeness auto
termination
  by (relation "measure (\<lambda>(btn, cpr, value, u). 255 - u)") auto

declare compress_loop.simps [simp del]

definition compress :: "amount \<Rightarrow> nat \<Rightarrow> AmtCpr \<Rightarrow> amount ret" where
  "compress a btn cpr =
     (if amt_dist a < 0 then errf ''cannot compress negative amount''
      else if tail_len a > 16 then errf ''amount bytes too long to compress''
      else
        try_ret (tail_to_u128 (amt_byte a) u128_max) (\<lambda>value.
        try_ret (compress_loop btn cpr value (amt_unit a)) (\<lambda>(value, u).
        if value = 0 then Ok amt_zero
        else let byte = drop_left_zero (to_be_bytes 16 value) in
             Ok \<lparr>amt_unit = u, amt_dist = int (length byte), amt_byte = byte\<rparr>)))"

section \<open>Ordering\<close>

definition magnitude_cmp_wide :: "amount \<Rightarrow> amount \<Rightarrow> Ordering" where
  "magnitude_cmp_wide lhs rhs =
     (let base_unit = min (amt_unit lhs) (amt_unit rhs) in
      cmp_b256 (mul_pow10_b256 (amt_byte lhs) (amt_unit lhs - base_unit))
               (mul_pow10_b256 (amt_byte rhs) (amt_unit rhs - base_unit)))"

definition magnitude_cmp :: "amount \<Rightarrow> amount \<Rightarrow> Ordering" where
  "magnitude_cmp lhs rhs =
     (if amt_is_zero lhs \<or> amt_is_zero rhs then cmp_of (amt_not_zero lhs) (amt_not_zero rhs)
      else if amt_unit lhs = amt_unit rhs then cmp_b256 (amt_byte lhs) (amt_byte rhs)
      else if length (amt_byte lhs) \<le> 16 \<and> length (amt_byte rhs) \<le> 16 then
        (case (tail_to_u128 (amt_byte lhs) u128_max, tail_to_u128 (amt_byte rhs) u128_max) of
           (Inr lhs_value, Inr rhs_value) \<Rightarrow>
             (let base_unit = min (amt_unit lhs) (amt_unit rhs) in
              case (scale_u128 lhs_value (amt_unit lhs - base_unit) u128_max,
                    scale_u128 rhs_value (amt_unit rhs - base_unit) u128_max) of
                (Inr scaled_lhs, Inr scaled_rhs) \<Rightarrow> cmp_of scaled_lhs scaled_rhs
              | _ \<Rightarrow> magnitude_cmp_wide lhs rhs)
         | _ \<Rightarrow> magnitude_cmp_wide lhs rhs)
      else magnitude_cmp_wide lhs rhs)"

definition amt_cmp :: "amount \<Rightarrow> amount \<Rightarrow> Ordering" where
  "amt_cmp self other =
     (case (amt_is_negative self, amt_is_negative other) of
        (True, False) \<Rightarrow> Less
      | (False, True) \<Rightarrow> Greater
      | (True, True) \<Rightarrow> reverse_ord (magnitude_cmp self other)
      | (False, False) \<Rightarrow> magnitude_cmp self other)"

definition amt_less :: "amount \<Rightarrow> amount \<Rightarrow> bool" where
  "amt_less a b = (amt_cmp a b = Less)"

section \<open>Wire form\<close>

definition amt_size :: "amount \<Rightarrow> nat" where
  "amt_size a = 2 + length (amt_byte a)"

definition amt_encode :: "amount \<Rightarrow> bytes" where
  "amt_encode a = of_nat (amt_unit a) # word_of_int (amt_dist a) # amt_byte a"

definition amt_decode :: "bytes \<Rightarrow> (amount \<times> nat) ret" where
  "amt_decode buf =
     try_ret (reader_read_bytes 1 (reader_new buf)) (\<lambda>(us, r).
     try_ret (reader_read_bytes 1 r) (\<lambda>(ds, r).
     let u = unat (us ! 0); dist_u = ds ! 0 in
     if dist_u = 128 then normalf ''dist cannot be -128''
     else let dist = sint dist_u; len = nat \<bar>dist\<bar> in
     try_ret (reader_read_bytes len r) (\<lambda>(byte, r).
     if len > 1 \<and> list_all (\<lambda>b. b = 0) byte then normalf ''multi-byte amount cannot be all zero''
     else if len > 1 \<and> byte ! 0 = 0 then normalf ''amount leading zero byte is not canonical''
     else if list_all (\<lambda>b. b = 0) byte \<and> (u \<noteq> 0 \<or> dist \<noteq> 0 \<or> byte \<noteq> [])
     then normalf ''amount semantic zero is not canonical''
     else Ok (\<lparr>amt_unit = u, amt_dist = dist, amt_byte = byte\<rparr>, reader_used r))))"

definition check_store_long :: "amount \<Rightarrow> unit ret" where
  "check_store_long a =
     (if amt_size a > AMOUNT_STORE_MAX_SIZE then errf ''amount size exceeds max'' else Ok ())"

section \<open>The number an amount denotes\<close>

definition amt_mag :: "amount \<Rightarrow> nat" where
  "amt_mag a = be_nat (amt_byte a) * 10 ^ amt_unit a"

definition amt_val :: "amount \<Rightarrow> int" where
  "amt_val a = (if amt_dist a < 0 then - int (amt_mag a) else int (amt_mag a))"

text \<open>
  What every constructor and the decoder establish: the distance is the signed mantissa
  length, the mantissa has at most 127 bytes and no leading zero, and zero has one form.
\<close>

definition amt_valid :: "amount \<Rightarrow> bool" where
  "amt_valid a \<longleftrightarrow> amt_unit a \<le> 255 \<and> \<bar>amt_dist a\<bar> = int (length (amt_byte a)) \<and>
     length (amt_byte a) \<le> 127 \<and>
     (if amt_byte a = [] then amt_unit a = 0 else hd (amt_byte a) \<noteq> 0)"

text \<open>An amount the ledger stores: valid and not negative.\<close>

definition amt_nonneg :: "amount \<Rightarrow> bool" where
  "amt_nonneg a \<longleftrightarrow> amt_valid a \<and> amt_dist a \<ge> 0"

lemma amt_nonneg_valid [simp]: "amt_nonneg a \<Longrightarrow> amt_valid a"
  by (simp add: amt_nonneg_def)

lemma amt_zero_nonneg [simp]: "amt_nonneg amt_zero"
  by (simp add: amt_nonneg_def amt_valid_def amt_zero_def)

lemma amt_val_zero [simp]: "amt_val amt_zero = 0" "amt_mag amt_zero = 0"
  by (simp_all add: amt_val_def amt_mag_def amt_zero_def)

lemma amt_is_zero_iff: "amt_is_zero a \<longleftrightarrow> be_nat (amt_byte a) = 0"
  by (simp add: amt_is_zero_def list_all_iff be_nat_eq_0_iff)

lemma amt_is_zero_zero [simp]: "amt_is_zero amt_zero"
  by (simp add: amt_is_zero_iff amt_zero_def)

lemma canonical_be_nat_pos: "xs \<noteq> [] \<Longrightarrow> hd xs \<noteq> 0 \<Longrightarrow> 0 < be_nat xs"
  using be_nat_lower [of xs] by (meson less_le_trans zero_less_power zero_less_numeral)

lemma amt_valid_zero_iff: "amt_valid a \<Longrightarrow> amt_is_zero a \<longleftrightarrow> a = amt_zero"
  using canonical_be_nat_pos [of "amt_byte a"]
  by (auto simp: amt_valid_def amt_is_zero_iff amt_zero_def split: if_splits)

lemma amt_mag_eq_0: "amt_mag a = 0 \<longleftrightarrow> amt_is_zero a"
  by (simp add: amt_mag_def amt_is_zero_iff)

lemma amt_is_negative_iff: "amt_is_negative a \<longleftrightarrow> amt_val a < 0"
  using amt_mag_eq_0 [of a] by (auto simp: amt_is_negative_def amt_not_zero_def amt_val_def)

lemma amt_is_positive_iff: "amt_valid a \<Longrightarrow> amt_is_positive a \<longleftrightarrow> 0 < amt_val a"
  using amt_mag_eq_0 [of a]
  by (auto simp: amt_is_positive_def amt_not_zero_def amt_val_def amt_valid_def amt_is_zero_def
      split: if_splits)

lemma amt_nonneg_val: "amt_nonneg a \<Longrightarrow> amt_val a = int (amt_mag a)"
  by (auto simp: amt_nonneg_def amt_val_def)

lemma amt_nonneg_not_negative [simp]: "amt_nonneg a \<Longrightarrow> \<not> amt_is_negative a"
  by (simp add: amt_is_negative_def amt_nonneg_def)

lemma amt_positive_nonneg: "amt_valid a \<Longrightarrow> amt_is_positive a \<Longrightarrow> amt_nonneg a"
  by (simp add: amt_nonneg_def amt_is_positive_def)

lemma amt_positive_not_zero: "amt_is_positive a \<Longrightarrow> \<not> amt_is_zero a"
  by (simp add: amt_is_positive_def amt_not_zero_def)

lemma amt_valid_not_negative: "amt_valid a \<Longrightarrow> \<not> amt_is_negative a \<Longrightarrow> amt_nonneg a"
  by (auto simp: amt_is_negative_def amt_nonneg_def amt_not_zero_def amt_valid_zero_iff amt_zero_def)

subsection \<open>Mantissas\<close>

lemma drop_left_zero_eq [simp]: "drop_left_zero v = nat_bytes (be_nat v)"
  by (simp add: drop_left_zero_def)

lemma canonical_length_16:
  assumes "amt_valid a"
  shows "length (amt_byte a) \<le> 16 \<longleftrightarrow> be_nat (amt_byte a) < 2 ^ 128"
proof -
  have "nat_bytes (be_nat (amt_byte a)) = amt_byte a"
    using assms by (intro nat_bytes_be_nat) (auto simp: amt_valid_def split: if_splits)
  moreover have "(256 :: nat) ^ 16 = 2 ^ 128" by simp
  ultimately show ?thesis using length_nat_bytes_le [of "be_nat (amt_byte a)" 16] by metis
qed

lemma tail_to_u128_eq:
  "tail_to_u128 bs limit =
     (if length bs \<le> 16 \<and> be_nat bs \<le> limit then Ok (be_nat bs)
      else errf ''amount computing size overflow'')"
  by (simp add: tail_to_u128_def be_nat_append)

lemma tail_to_u128_valid:
  assumes "amt_valid a" and "limit < 2 ^ 128"
  shows "tail_to_u128 (amt_byte a) limit =
     (if be_nat (amt_byte a) \<le> limit then Ok (be_nat (amt_byte a))
      else errf ''amount computing size overflow'')"
  using assms(2) canonical_length_16 [OF assms(1)] by (auto simp: tail_to_u128_eq)

lemma scale_u128_eq:
  assumes "limit < 2 ^ 128" and "0 < v"
  shows "scale_u128 v e limit =
     (if v * 10 ^ e \<le> limit then Ok (v * 10 ^ e) else errf ''amount computing size overflow'')"
proof (cases "v * 10 ^ e \<le> limit")
  case True
  with assms have m: "v * 10 ^ e < 2 ^ 128" by linarith
  have "1 * 10 ^ e \<le> v * 10 ^ e" using assms(2) by (intro mult_le_mono1) simp
  with m have "(10 :: nat) ^ e < 2 ^ 128" by linarith
  with m True show ?thesis by (simp add: scale_u128_def checked_pow_def checked_mul_def)
next
  case False
  then show ?thesis by (auto simp: scale_u128_def checked_pow_def checked_mul_def)
qed

lemma coin_strip_spec:
  assumes "coin_strip v u = (v', u')" and "0 < v" and "u \<le> 255"
  shows "v' * 10 ^ u' = v * 10 ^ u \<and> 0 < v' \<and> v' \<le> v \<and> u' \<le> 255 \<and> u \<le> u' \<and>
    (v' mod 10 \<noteq> 0 \<or> u' = 255)"
  using assms
proof (induction v u arbitrary: v' u' rule: coin_strip.induct)
  case (1 v u)
  show ?case
  proof (cases "v mod 10 = 0 \<and> u < 255")
    case True
    then have cs: "coin_strip (v div 10) (u + 1) = (v', u')"
      using 1(2) by (simp add: coin_strip.simps [of v u])
    have pos: "0 < v div 10" using True 1(3) by (auto simp: div_greater_zero_iff)
    from 1(1) [OF _ _ cs pos] True have IH: "v' * 10 ^ u' = v div 10 * 10 ^ (u + 1)" "0 < v'"
      "v' \<le> v div 10" "u' \<le> 255" "u + 1 \<le> u'" "v' mod 10 \<noteq> 0 \<or> u' = 255"
      by auto
    have "v div 10 * 10 ^ (u + 1) = v * 10 ^ u" using True by auto
    moreover have "v div 10 \<le> v" by simp
    ultimately show ?thesis using IH by linarith
  next
    case False
    then show ?thesis using 1(2-4) by (auto simp: coin_strip.simps [of v u] split: if_splits)
  qed
qed

lemma coin_u128_spec:
  assumes "v < 2 ^ 128" and "u \<le> 255"
  shows "amt_nonneg (coin_u128 v u)" and "amt_val (coin_u128 v u) = int (v * 10 ^ u)"
    and "amt_mag (coin_u128 v u) = v * 10 ^ u" and "length (amt_byte (coin_u128 v u)) \<le> 16"
proof -
  have "amt_nonneg (coin_u128 v u) \<and> amt_mag (coin_u128 v u) = v * 10 ^ u \<and>
      length (amt_byte (coin_u128 v u)) \<le> 16"
  proof (cases "v = 0")
    case False
    obtain v' u' where cs: "coin_strip v u = (v', u')" by fastforce
    with coin_strip_spec [OF cs] False assms have s: "v' * 10 ^ u' = v * 10 ^ u" "0 < v'" "v' \<le> v" "u' \<le> 255"
      by auto
    then have "be_nat (to_be_bytes 16 v') = v'"
      using assms by (simp add: be_nat_to_be_bytes)
    moreover have "length (nat_bytes v') \<le> 16"
      using s assms by (simp add: length_nat_bytes_le)
    ultimately show ?thesis
      using False s cs hd_nat_bytes [of v']
      by (simp add: coin_u128_def amt_nonneg_def amt_valid_def amt_mag_def Let_def)
  qed (simp add: coin_u128_def amt_zero_def amt_mag_def amt_nonneg_def amt_valid_def)
  then show "amt_nonneg (coin_u128 v u)" "amt_mag (coin_u128 v u) = v * 10 ^ u"
    "amt_val (coin_u128 v u) = int (v * 10 ^ u)" "length (amt_byte (coin_u128 v u)) \<le> 16"
    by (simp_all add: amt_nonneg_val)
qed

lemma from_unit_byte_spec:
  assumes "from_unit_byte u bs = Ok a" and "u \<le> 255"
  shows "amt_nonneg a \<and> amt_mag a = be_nat bs * 10 ^ u"
proof (cases "be_nat bs = 0")
  case True
  with assms show ?thesis by (auto simp: from_unit_byte_def split: if_splits)
next
  case False
  have "length (nat_bytes (be_nat bs)) \<le> length bs"
    by (simp add: length_nat_bytes_le be_nat_less)
  with assms False show ?thesis using hd_nat_bytes [of "be_nat bs"]
    by (auto simp: from_unit_byte_def amt_nonneg_def amt_valid_def amt_mag_def Let_def
        split: if_splits)
qed

subsection \<open>Arithmetic is exact or an error\<close>

text \<open>The mantissa of an amount written at a lower unit.\<close>

definition mant_at :: "amount \<Rightarrow> nat \<Rightarrow> nat" where
  "mant_at a m = be_nat (amt_byte a) * 10 ^ (amt_unit a - m)"

lemma mant_at_mag: "m \<le> amt_unit a \<Longrightarrow> mant_at a m * 10 ^ m = amt_mag a"
  by (simp add: mant_at_def amt_mag_def flip: power_add)

lemma mant_at_ge: "be_nat (amt_byte a) \<le> mant_at a m"
  by (simp add: mant_at_def)

lemma mant_at_unit [simp]: "mant_at a (amt_unit a) = be_nat (amt_byte a)"
  by (simp add: mant_at_def)

lemma align_eq:
  assumes "amt_valid a" "amt_valid b" "\<not> amt_is_zero a" "\<not> amt_is_zero b" "limit < 2 ^ 128"
    and m: "m = min (amt_unit a) (amt_unit b)"
  shows "try_ret (tail_to_u128 (amt_byte a) limit) (\<lambda>lhs.
      try_ret (tail_to_u128 (amt_byte b) limit) (\<lambda>rhs_value.
      try_ret (if amt_unit a > m
               then try_ret (scale_u128 lhs (amt_unit a - m) limit) (\<lambda>lhs. Ok (lhs, rhs_value))
               else if amt_unit b > m
               then try_ret (scale_u128 rhs_value (amt_unit b - m) limit) (\<lambda>rhs_value. Ok (lhs, rhs_value))
               else Ok (lhs, rhs_value)) f)) =
    (if mant_at a m \<le> limit \<and> mant_at b m \<le> limit then f (mant_at a m, mant_at b m)
     else errf ''amount computing size overflow'')"
proof -
  have pos: "0 < be_nat (amt_byte a)" "0 < be_nat (amt_byte b)"
    using assms(3,4) by (simp_all add: amt_is_zero_iff)
  note t = tail_to_u128_valid [OF assms(1,5)] tail_to_u128_valid [OF assms(2,5)]
  note s = scale_u128_eq [OF assms(5) pos(1), of "amt_unit a - m"]
    scale_u128_eq [OF assms(5) pos(2), of "amt_unit b - m"]
  note ge = mant_at_ge [of a m] mant_at_ge [of b m]
  have ge': "mant_at a m \<le> limit \<Longrightarrow> be_nat (amt_byte a) \<le> limit"
    "mant_at b m \<le> limit \<Longrightarrow> be_nat (amt_byte b) \<le> limit" using ge by linarith+
  show ?thesis
  proof (cases "amt_unit a > m")
    case True
    then have "amt_unit b = m" using m by linarith
    with True show ?thesis using ge' t s by (auto simp: mant_at_def)
  next
    case False
    then have "amt_unit a = m" using m by linarith
    then show ?thesis using ge' t s by (auto simp: mant_at_def)
  qed
qed

lemma add_filter:
  "limit < 2 ^ 128 \<Longrightarrow>
   (if A \<le> limit \<and> B \<le> limit then
      try_ret (ok_or (case checked_add 128 A B of
          None \<Rightarrow> None | Some value \<Rightarrow> if value \<le> limit then Some value else None) e) f
    else Inl e) = (if A + B \<le> limit then f (A + B) else Inl e)"
  by (auto simp: checked_add_def)

lemma sub_filter:
  "(if A \<le> limit \<and> B \<le> limit then
      try_ret (ok_or (case checked_sub A B of
          None \<Rightarrow> None | Some value \<Rightarrow> if value \<le> limit then Some value else None) e) f
    else Inl e) = (if B \<le> A \<and> A \<le> limit then f (A - B) else Inl e)"
  by (auto simp: checked_sub_def)

theorem compute_unsigned_add_eq:
  assumes "amt_nonneg a" "amt_nonneg b" "limit < 2 ^ 128"
  shows "compute_unsigned a b limit True =
    (if amt_is_zero a then Ok b else if amt_is_zero b then Ok a
     else let m = min (amt_unit a) (amt_unit b) in
       if mant_at a m + mant_at b m \<le> limit then Ok (coin_u128 (mant_at a m + mant_at b m) m)
       else errf ''amount computing size overflow'')"
proof (cases "amt_is_zero a \<or> amt_is_zero b")
  case True
  with assms show ?thesis by (auto simp: compute_unsigned_def)
next
  case False
  let ?m = "min (amt_unit a) (amt_unit b)"
  have align: "compute_unsigned a b limit True =
      (if mant_at a ?m \<le> limit \<and> mant_at b ?m \<le> limit then
         try_ret (ok_or (case checked_add 128 (mant_at a ?m) (mant_at b ?m) of
             None \<Rightarrow> None | Some value \<Rightarrow> if value \<le> limit then Some value else None)
           (Error Fault ''amount computing size overflow'' None)) (\<lambda>value. Ok (coin_u128 value ?m))
       else errf ''amount computing size overflow'')"
    using False assms unfolding compute_unsigned_def Let_def
    by (subst align_eq) auto
  show ?thesis
    unfolding align add_filter [OF assms(3)] Let_def using False by simp
qed

theorem compute_unsigned_sub_eq:
  assumes "amt_nonneg a" "amt_nonneg b" "limit < 2 ^ 128"
  shows "compute_unsigned a b limit False =
    (if amt_is_zero b then Ok (if amt_is_zero a then b else a)
     else if amt_is_zero a then errf ''amount computing size overflow''
     else let m = min (amt_unit a) (amt_unit b) in
       if mant_at b m \<le> mant_at a m \<and> mant_at a m \<le> limit
       then Ok (coin_u128 (mant_at a m - mant_at b m) m)
       else errf ''amount computing size overflow'')"
proof (cases "amt_is_zero a \<or> amt_is_zero b")
  case True
  with assms show ?thesis by (auto simp: compute_unsigned_def)
next
  case False
  let ?m = "min (amt_unit a) (amt_unit b)"
  have align: "compute_unsigned a b limit False =
      (if mant_at a ?m \<le> limit \<and> mant_at b ?m \<le> limit then
         try_ret (ok_or (case checked_sub (mant_at a ?m) (mant_at b ?m) of
             None \<Rightarrow> None | Some value \<Rightarrow> if value \<le> limit then Some value else None)
           (Error Fault ''amount computing size overflow'' None)) (\<lambda>value. Ok (coin_u128 value ?m))
       else errf ''amount computing size overflow'')"
    using False assms unfolding compute_unsigned_def Let_def
    by (subst align_eq) auto
  show ?thesis
    unfolding align sub_filter Let_def using False by simp
qed

lemma amt_unit_le: "amt_valid a \<Longrightarrow> amt_unit a \<le> 255"
  by (simp add: amt_valid_def)

lemma compute_unsigned_add_val:
  assumes "amt_nonneg a" "amt_nonneg b" "limit < 2 ^ 128" "compute_unsigned a b limit True = Ok c"
  shows "amt_nonneg c \<and> amt_mag c = amt_mag a + amt_mag b"
proof (cases "amt_is_zero a \<or> amt_is_zero b")
  case True
  with assms show ?thesis
    by (auto simp: compute_unsigned_add_eq amt_valid_zero_iff split: if_splits)
next
  case False
  let ?m = "min (amt_unit a) (amt_unit b)"
  from False assms have c: "c = coin_u128 (mant_at a ?m + mant_at b ?m) ?m"
    and le: "mant_at a ?m + mant_at b ?m \<le> limit"
    by (auto simp: compute_unsigned_add_eq Let_def split: if_splits)
  have "?m \<le> 255" using amt_unit_le [of a] assms(1) by auto
  with le assms(3) c coin_u128_spec [of "mant_at a ?m + mant_at b ?m" ?m] show ?thesis
    by (simp add: mant_at_mag distrib_right)
qed

lemma compute_unsigned_sub_val:
  assumes "amt_nonneg a" "amt_nonneg b" "limit < 2 ^ 128" "compute_unsigned a b limit False = Ok c"
  shows "amt_nonneg c \<and> amt_mag b \<le> amt_mag a \<and> amt_mag c = amt_mag a - amt_mag b"
proof (cases "amt_is_zero a \<or> amt_is_zero b")
  case True
  with assms show ?thesis
    by (auto simp: compute_unsigned_sub_eq amt_valid_zero_iff split: if_splits)
next
  case False
  let ?m = "min (amt_unit a) (amt_unit b)"
  from False assms have c: "c = coin_u128 (mant_at a ?m - mant_at b ?m) ?m"
    and le: "mant_at b ?m \<le> mant_at a ?m" "mant_at a ?m \<le> limit"
    by (auto simp: compute_unsigned_sub_eq Let_def split: if_splits)
  have "mant_at b ?m * 10 ^ ?m \<le> mant_at a ?m * 10 ^ ?m" using le(1) by (rule mult_le_mono1)
  then have "amt_mag b \<le> amt_mag a" by (simp add: mant_at_mag)
  moreover have "?m \<le> 255" using amt_unit_le [of a] assms(1) by auto
  ultimately show ?thesis
    using le assms(3) c coin_u128_spec [of "mant_at a ?m - mant_at b ?m" ?m]
    by (simp add: mant_at_mag diff_mult_distrib)
qed

lemmas amt_mode_defs = add_mode_u128_def sub_mode_u128_def add_mode_u64_def sub_mode_u64_def

lemma limits_u128 [simp]: "u128_max < 2 ^ 128" "u64_max < 2 ^ 128" by simp_all

lemma add_mode_u128_val:
  "add_mode_u128 a b = Ok c \<Longrightarrow> amt_nonneg a \<Longrightarrow> amt_nonneg b \<Longrightarrow>
   amt_nonneg c \<and> amt_mag c = amt_mag a + amt_mag b"
  unfolding add_mode_u128_def by (rule compute_unsigned_add_val [OF _ _ limits_u128(1)])

lemma sub_mode_u128_val:
  "sub_mode_u128 a b = Ok c \<Longrightarrow> amt_nonneg a \<Longrightarrow> amt_nonneg b \<Longrightarrow>
   amt_nonneg c \<and> amt_mag b \<le> amt_mag a \<and> amt_mag c = amt_mag a - amt_mag b"
  unfolding sub_mode_u128_def by (rule compute_unsigned_sub_val [OF _ _ limits_u128(1)])

lemma add_mode_u64_val:
  "add_mode_u64 a b = Ok c \<Longrightarrow> amt_nonneg a \<Longrightarrow> amt_nonneg b \<Longrightarrow>
   amt_nonneg c \<and> amt_mag c = amt_mag a + amt_mag b"
  unfolding add_mode_u64_def by (rule compute_unsigned_add_val [OF _ _ limits_u128(2)])

lemma sub_mode_u64_val:
  "sub_mode_u64 a b = Ok c \<Longrightarrow> amt_nonneg a \<Longrightarrow> amt_nonneg b \<Longrightarrow>
   amt_nonneg c \<and> amt_mag b \<le> amt_mag a \<and> amt_mag c = amt_mag a - amt_mag b"
  unfolding sub_mode_u64_def by (rule compute_unsigned_sub_val [OF _ _ limits_u128(2)])

subsection \<open>The order is the order of the numbers\<close>

lemma cmp_of_scale:
  fixes a b k :: nat
  assumes "0 < k"
  shows "cmp_of (a * k) (b * k) = cmp_of a b"
  using assms by (auto simp: cmp_of_def)

lemma cmp_align:
  assumes "m \<le> amt_unit a" and "m \<le> amt_unit b"
  shows "cmp_of (mant_at a m) (mant_at b m) = cmp_of (amt_mag a) (amt_mag b)"
  using cmp_of_scale [of "10 ^ m" "mant_at a m" "mant_at b m"] assms
  by (simp add: mant_at_mag)

lemma magnitude_cmp_wide_eq: "magnitude_cmp_wide a b = cmp_of (amt_mag a) (amt_mag b)"
  using cmp_align [of "min (amt_unit a) (amt_unit b)" a b]
  by (simp add: magnitude_cmp_wide_def cmp_b256_eq mul_pow10_b256_eq mant_at_def)

lemma magnitude_cmp_eq:
  assumes "amt_valid a" "amt_valid b"
  shows "magnitude_cmp a b = cmp_of (amt_mag a) (amt_mag b)"
proof -
  let ?m = "min (amt_unit a) (amt_unit b)"
  consider (zero) "amt_is_zero a \<or> amt_is_zero b"
    | (same) "\<not> amt_is_zero a" "\<not> amt_is_zero b" "amt_unit a = amt_unit b"
    | (narrow) "\<not> amt_is_zero a" "\<not> amt_is_zero b" "amt_unit a \<noteq> amt_unit b"
        "length (amt_byte a) \<le> 16" "length (amt_byte b) \<le> 16"
    | (wide) "\<not> amt_is_zero a" "\<not> amt_is_zero b" "amt_unit a \<noteq> amt_unit b"
        "\<not> (length (amt_byte a) \<le> 16 \<and> length (amt_byte b) \<le> 16)"
    by blast
  then show ?thesis
  proof cases
    case zero
    then show ?thesis
      using amt_mag_eq_0 [of a] amt_mag_eq_0 [of b]
      by (auto simp: magnitude_cmp_def amt_not_zero_def cmp_of_def)
  next
    case same
    then show ?thesis
      using cmp_align [of "amt_unit a" a b] by (simp add: magnitude_cmp_def cmp_b256_eq mant_at_def)
  next
    case narrow
    then have pos: "0 < be_nat (amt_byte a)" "0 < be_nat (amt_byte b)"
      by (simp_all add: amt_is_zero_iff)
    have t: "tail_to_u128 (amt_byte a) u128_max = Ok (be_nat (amt_byte a))"
      "tail_to_u128 (amt_byte b) u128_max = Ok (be_nat (amt_byte b))"
      using narrow assms canonical_length_16 by (auto simp: tail_to_u128_eq)
    note s = scale_u128_eq [OF limits_u128(1) pos(1), of "amt_unit a - ?m"]
      scale_u128_eq [OF limits_u128(1) pos(2), of "amt_unit b - ?m"]
    have "cmp_of (mant_at a ?m) (mant_at b ?m) = cmp_of (amt_mag a) (amt_mag b)"
      by (rule cmp_align) simp_all
    with narrow t s show ?thesis
      unfolding magnitude_cmp_def mant_at_def Let_def
      by (simp only: magnitude_cmp_wide_eq) (auto split: if_splits)
  next
    case wide
    then show ?thesis by (auto simp: magnitude_cmp_def magnitude_cmp_wide_eq)
  qed
qed

theorem amt_cmp_eq:
  assumes "amt_valid a" "amt_valid b"
  shows "amt_cmp a b = cmp_of (amt_val a) (amt_val b)"
proof -
  have neg: "amt_val x = (if amt_is_negative x then - int (amt_mag x) else int (amt_mag x))"
    "amt_is_negative x \<Longrightarrow> 0 < amt_mag x" for x
    using amt_mag_eq_0 [of x] by (auto simp: amt_is_negative_def amt_not_zero_def amt_val_def)
  show ?thesis
    using neg [of a] neg [of b]
    by (cases "amt_is_negative a"; cases "amt_is_negative b")
      (auto simp: amt_cmp_def magnitude_cmp_eq [OF assms] reverse_cmp_of cmp_of_def)
qed

lemma amt_less_val: "amt_valid a \<Longrightarrow> amt_valid b \<Longrightarrow> amt_less a b \<longleftrightarrow> amt_val a < amt_val b"
  by (simp add: amt_less_def amt_cmp_eq)

subsection \<open>Unit conversions truncate, exact conversions do not\<close>

lemma mag_div_high:
  assumes "base \<le> amt_unit a"
  shows "amt_mag a div 10 ^ base = be_nat (amt_byte a) * 10 ^ (amt_unit a - base)"
proof -
  have "amt_mag a = be_nat (amt_byte a) * 10 ^ (amt_unit a - base) * 10 ^ base"
    using assms by (simp add: amt_mag_def flip: power_add)
  then show ?thesis by simp
qed

lemma mag_div_low:
  assumes "amt_unit a \<le> base"
  shows "amt_mag a div 10 ^ base = be_nat (amt_byte a) div 10 ^ (base - amt_unit a)"
proof -
  have "(10 :: nat) ^ base = 10 ^ amt_unit a * 10 ^ (base - amt_unit a)"
    using assms by (simp flip: power_add)
  then show ?thesis by (simp add: amt_mag_def div_mult2_eq mult.commute)
qed

lemma small_div_pow10: "n < 2 ^ 128 \<Longrightarrow> 38 < k \<Longrightarrow> n < (10 :: nat) ^ k"
proof -
  assume n: "n < 2 ^ 128" and k: "38 < k"
  have "(2 :: nat) ^ 128 \<le> 10 ^ 39" by simp
  also have "\<dots> \<le> 10 ^ k" using k by (intro power_increasing) simp_all
  finally show ?thesis using n by linarith
qed

theorem to_unit_u128_eq:
  assumes "amt_nonneg a"
  shows "to_unit_u128 a base =
    (if amt_mag a div 10 ^ base < 2 ^ 128 then Ok (amt_mag a div 10 ^ base)
     else errf ''amount computing size overflow'')"
proof -
  have nn: "\<not> amt_is_negative a" and v: "amt_valid a" using assms by auto
  note len = canonical_length_16 [OF v]
  consider (zero) "amt_is_zero a" | (high) "\<not> amt_is_zero a" "base \<le> amt_unit a"
    | (low) "\<not> amt_is_zero a" "\<not> base \<le> amt_unit a" "length (amt_byte a) \<le> 16"
    | (wide) "\<not> amt_is_zero a" "\<not> base \<le> amt_unit a" "\<not> length (amt_byte a) \<le> 16"
    by blast
  then show ?thesis
  proof cases
    case zero
    with v have "a = amt_zero" by (simp add: amt_valid_zero_iff)
    then show ?thesis
      by (auto simp: to_unit_u128_def amt_is_negative_iff tail_to_u128_eq scale_u128_def
          checked_pow_def checked_mul_def amt_zero_def amt_val_def amt_mag_def)
  next
    case high
    then have pos: "0 < be_nat (amt_byte a)" by (simp add: amt_is_zero_iff)
    have ge: "be_nat (amt_byte a) \<le> be_nat (amt_byte a) * 10 ^ (amt_unit a - base)" by simp
    have lim: "n \<le> u128_max \<longleftrightarrow> n < 2 ^ 128" for n :: nat by auto
    show ?thesis
    proof (cases "be_nat (amt_byte a) < 2 ^ 128")
      case True
      with len have "tail_to_u128 (amt_byte a) u128_max = Ok (be_nat (amt_byte a))"
        by (auto simp: tail_to_u128_eq)
      with high nn show ?thesis
        unfolding to_unit_u128_def mag_div_high [OF high(2)]
        by (simp only: scale_u128_eq [OF limits_u128(1) pos] try_ret_simps lim if_True if_False)
    next
      case False
      with len have "tail_to_u128 (amt_byte a) u128_max = errf ''amount computing size overflow''"
        by (simp add: tail_to_u128_eq)
      moreover have "\<not> be_nat (amt_byte a) * 10 ^ (amt_unit a - base) < 2 ^ 128"
        using False ge by linarith
      ultimately show ?thesis using high nn
        by (simp add: to_unit_u128_def mag_div_high)
    qed
  next
    case low
    with len have lt: "be_nat (amt_byte a) < 2 ^ 128" by simp
    then have q: "be_nat (amt_byte a) div 10 ^ k < 2 ^ 128" for k
      by (meson div_le_dividend le_less_trans)
    have t: "tail_to_u128 (amt_byte a) u128_max = Ok (be_nat (amt_byte a))"
      using lt low by (auto simp: tail_to_u128_eq)
    have "be_nat (amt_byte a) div 10 ^ k = 0" if "38 < k" for k
      using small_div_pow10 [OF lt that] by simp
    with low nn t q show ?thesis
      unfolding to_unit_u128_def by (auto simp: mag_div_low Let_def)
  next
    case wide
    let ?q = "be_nat (amt_byte a) div 10 ^ (base - amt_unit a)"
    have "length (nat_bytes ?q) \<le> 16 \<longleftrightarrow> ?q < 2 ^ 128"
      using length_nat_bytes_le [of ?q 16] by simp
    with wide nn show ?thesis
      unfolding to_unit_u128_def
      by (auto simp: mag_div_low tail_to_u128_eq div_pow10_b256_eq)
  qed
qed

lemma to_unit_u64_eq:
  assumes "amt_nonneg a"
  shows "to_unit_u64 a base = Ok v \<longleftrightarrow> v = amt_mag a div 10 ^ base \<and> v \<le> u64_max"
  by (auto simp: to_unit_u64_def to_unit_u128_eq [OF assms] split: if_splits)

lemma exact_loop_eq:
  "0 < be_nat m \<Longrightarrow> exact_loop k m \<longleftrightarrow> 10 ^ k dvd be_nat m"
proof (induction k arbitrary: m)
  case 0
  then show ?case by simp
next
  case (Suc k)
  let ?n = "be_nat m"
  show ?case
  proof (cases "10 dvd ?n")
    case True
    then obtain q where q: "?n = 10 * q" by (rule dvdE)
    with Suc.prems have "0 < q" by simp
    then have "exact_loop k (nat_bytes q) \<longleftrightarrow> 10 ^ k dvd q" using Suc.IH [of "nat_bytes q"] by simp
    with q \<open>0 < q\<close> show ?thesis by (simp add: divmod_u64_b256_eq)
  next
    case False
    then have "\<not> 10 ^ Suc k dvd ?n" by (metis dvd_mult_left power_Suc)
    with False show ?thesis by (simp add: divmod_u64_b256_eq dvd_eq_mod_eq_0)
  qed
qed

lemma pow_dvd_mag:
  assumes "amt_unit a \<le> base"
  shows "10 ^ base dvd amt_mag a \<longleftrightarrow> 10 ^ (base - amt_unit a) dvd be_nat (amt_byte a)"
proof -
  have "(10 :: nat) ^ base = 10 ^ (base - amt_unit a) * 10 ^ amt_unit a"
    using assms by (simp flip: power_add)
  then show ?thesis by (simp add: amt_mag_def)
qed

theorem is_exact_unit_eq:
  assumes "amt_nonneg a"
  shows "is_exact_unit a base = Ok (10 ^ base dvd amt_mag a)"
proof -
  have nn: "\<not> amt_is_negative a" and v: "amt_valid a" using assms by auto
  let ?k = "base - amt_unit a"
  show ?thesis
  proof (cases "amt_is_zero a \<or> base \<le> amt_unit a")
    case True
    then have "10 ^ base dvd amt_mag a"
      using amt_mag_eq_0 [of a] by (auto simp: amt_mag_def le_imp_power_dvd)
    with True nn show ?thesis by (auto simp: is_exact_unit_def)
  next
    case False
    then have pos: "0 < be_nat (amt_byte a)" and le: "amt_unit a \<le> base" by (auto simp: amt_is_zero_iff)
    show ?thesis
    proof (cases "length (amt_byte a) \<le> 16")
      case True
      with canonical_length_16 [OF v] have lt: "be_nat (amt_byte a) < 2 ^ 128" by simp
      then have t: "tail_to_u128 (amt_byte a) u128_max = Ok (be_nat (amt_byte a))"
        using True by (auto simp: tail_to_u128_eq)
      have nd: "\<not> 10 ^ ?k dvd be_nat (amt_byte a)" if "38 < ?k"
        using small_div_pow10 [OF lt that] pos by (auto dest: dvd_imp_le)
      have "is_exact_unit a base = (if 38 < ?k then Ok False else Ok (be_nat (amt_byte a) mod 10 ^ ?k = 0))"
        using False True nn unfolding is_exact_unit_def Let_def t by (simp only: if_False if_True try_ret_simps)
      then show ?thesis
        unfolding pow_dvd_mag [OF le] dvd_eq_mod_eq_0 [symmetric] using nd by (cases "38 < ?k") simp_all
    next
      case wide: False
      then have "is_exact_unit a base = Ok (exact_loop ?k (amt_byte a))"
        using False nn unfolding is_exact_unit_def Let_def by (simp only: if_False)
      then show ?thesis unfolding pow_dvd_mag [OF le] exact_loop_eq [OF pos] .
    qed
  qed
qed

subsection \<open>Multiplication, unit shifts and compression\<close>

lemma dist_mul_val:
  assumes "amt_nonneg a" "dist_mul a n = Ok c"
  shows "amt_nonneg c \<and> amt_mag c = amt_mag a * n"
proof (cases "amt_is_zero a")
  case True
  with assms show ?thesis by (auto simp: dist_mul_def amt_mag_eq_0 [symmetric])
next
  case False
  let ?v = "be_nat (amt_byte a) * n"
  from False assms have c: "c = coin_u128 ?v (amt_unit a)" and lt: "?v < 2 ^ 128"
    by (auto simp: dist_mul_def tail_to_u128_eq split: if_splits)
  from coin_u128_spec [OF lt amt_unit_le] assms(1) c show ?thesis
    by (simp add: amt_mag_def algebra_simps)
qed

lemma unit_sub_val:
  assumes "amt_nonneg a" "unit_sub a k = Ok c"
  shows "amt_nonneg c \<and> amt_mag c * 10 ^ k = amt_mag a"
proof (cases "k = 0")
  case True
  with assms show ?thesis by (simp add: unit_sub_def)
next
  case False
  with assms have c: "c = a\<lparr>amt_unit := amt_unit a - k\<rparr>" and k: "k \<le> amt_unit a"
    by (auto simp: unit_sub_def split: if_splits)
  with False assms(1) have "amt_byte a \<noteq> []" by (auto simp: amt_nonneg_def amt_valid_def)
  with assms(1) c have "amt_nonneg c" by (auto simp: amt_nonneg_def amt_valid_def)
  moreover have "amt_mag c * 10 ^ k = amt_mag a"
    using c k by (simp add: amt_mag_def flip: power_add)
  ultimately show ?thesis ..
qed

lemma bit_length_le: "bit_length n \<le> k \<longleftrightarrow> n < 2 ^ k"
proof (induction n arbitrary: k rule: bit_length.induct)
  case (1 n)
  show ?case
  proof (cases "n = 0")
    case False
    then have b: "bit_length n = Suc (bit_length (n div 2))" by (simp add: bit_length.simps [of n])
    show ?thesis
    proof (cases k)
      case (Suc j)
      with 1 [OF False, of j] b show ?thesis by auto
    qed (use False b in simp)
  qed (simp add: bit_length.simps)
qed

lemma u128_byte_len_eq: "u128_byte_len v = length (nat_bytes v)"
proof -
  have "u128_byte_len v \<le> k \<longleftrightarrow> length (nat_bytes v) \<le> k" for k
  proof -
    have "u128_byte_len v \<le> k \<longleftrightarrow> bit_length v \<le> 8 * k" by (simp add: u128_byte_len_def) linarith
    also have "\<dots> \<longleftrightarrow> v < 256 ^ k" by (simp add: bit_length_le pow_256)
    finally show ?thesis by (simp add: length_nat_bytes_le)
  qed
  then show ?thesis by (meson antisym order_refl)
qed

lemma grow_step_arith:
  fixes V p q w P :: nat
  assumes "9 * V + 10 * (10 * p) \<le> 9 * ((q + 1) * (10 * p)) + 10 * P" and "q * (10 * p) \<le> w"
  shows "9 * V + 10 * p \<le> 9 * w + 10 * P"
proof -
  define r where "r = q * (10 * p)"
  have "(q + 1) * (10 * p) = r + 10 * p" by (simp add: r_def)
  with assms(1) have "9 * V + 10 * (10 * p) \<le> 9 * (r + 10 * p) + 10 * P" by simp
  moreover have "r \<le> w" using assms(2) by (simp add: r_def)
  ultimately show ?thesis by presburger
qed

lemma compress_loop_spec:
  assumes "compress_loop btn cpr v u = Ok (v', u')" and "u \<le> 255"
  shows "u \<le> u' \<and> u' \<le> 255 \<and> v' \<le> v \<and> length (nat_bytes v') \<le> btn \<and>
    (cpr = Discard \<longrightarrow> v' * 10 ^ u' \<le> v * 10 ^ u \<and> v * 10 ^ u < (v' + 1) * 10 ^ u') \<and>
    (cpr = Grow \<longrightarrow> v * 10 ^ u \<le> v' * 10 ^ u' \<and>
       9 * (v' * 10 ^ u') + 10 * 10 ^ u \<le> 9 * (v * 10 ^ u) + 10 * 10 ^ u')"
  using assms
proof (induction btn cpr v u rule: compress_loop.induct)
  case (1 btn cpr v u)
  show ?case
  proof (cases "u128_byte_len v > btn")
    case False
    with 1(2,3) have "v' = v" "u' = u" by (simp_all add: compress_loop.simps [of btn cpr v u])
    with False 1(3) show ?thesis by (simp add: u128_byte_len_eq)
  next
    case True
    let ?w = "case cpr of Grow \<Rightarrow> v div 10 + 1 | Discard \<Rightarrow> v div 10"
    from True have v: "0 < v" by (cases "v = 0") (auto simp: u128_byte_len_eq)
    from True 1(2) have u: "\<not> u \<ge> 255" and l: "compress_loop btn cpr ?w (u + 1) = Ok (v', u')"
      by (auto simp: compress_loop.simps [of btn cpr v u] split: if_splits)
    from 1(1) [OF True u l] u have IH: "u + 1 \<le> u'" "u' \<le> 255" "v' \<le> ?w" "length (nat_bytes v') \<le> btn"
      "cpr = Discard \<Longrightarrow> v' * 10 ^ u' \<le> ?w * 10 ^ (u + 1) \<and> ?w * 10 ^ (u + 1) < (v' + 1) * 10 ^ u'"
      "cpr = Grow \<Longrightarrow> ?w * 10 ^ (u + 1) \<le> v' * 10 ^ u' \<and>
         9 * (v' * 10 ^ u') + 10 * 10 ^ (u + 1) \<le> 9 * (?w * 10 ^ (u + 1)) + 10 * 10 ^ u'"
      by auto
    define p where "p = (10 :: nat) ^ u"
    define P where "P = (10 :: nat) ^ u'"
    have dec: "v = 10 * (v div 10) + v mod 10" "v mod 10 < 10" by simp_all
    have e: "v div 10 * (10 * p) \<le> v * p" "v * p < v div 10 * (10 * p) + 10 * p"
    proof -
      have "10 * (v div 10) * p \<le> v * p" by (intro mult_le_mono1) simp
      then show "v div 10 * (10 * p) \<le> v * p" by (simp add: algebra_simps)
      have "v * p < (10 * (v div 10) + 10) * p"
        using dec by (intro mult_less_mono1) (auto simp: p_def)
      then show "v * p < v div 10 * (10 * p) + 10 * p" by (simp add: algebra_simps)
    qed
    show ?thesis
    proof (cases cpr)
      case Discard
      with IH(5) have i: "v' * P \<le> v div 10 * (10 * p)" "v div 10 * (10 * p) < (v' + 1) * P"
        by (simp_all add: p_def P_def)
      have dvd: "10 * p dvd P"
        using le_imp_power_dvd [OF IH(1), of "10 :: nat"] by (simp add: p_def P_def)
      then obtain t where t: "P = 10 * p * t" by (rule dvdE)
      have "v div 10 * (10 * p) < (v' + 1) * t * (10 * p)" using i(2) t by (simp only: ac_simps)
      then have "v div 10 < (v' + 1) * t" by (rule mult_less_cancel2 [THEN iffD1, THEN conjunct2])
      then have "(v div 10 + 1) * (10 * p) \<le> (v' + 1) * t * (10 * p)" by (intro mult_le_mono1) simp
      then have "v * p < (v' + 1) * P" using e(2) t by (simp add: algebra_simps)
      moreover have "v' \<le> v" using IH(3) Discard div_le_dividend [of v 10] by auto
      moreover have "v' * P \<le> v * p" using i(1) e(1) by linarith
      ultimately show ?thesis using Discard IH by (simp add: p_def P_def)
    next
      case Grow
      with IH(6) have i: "(v div 10 + 1) * (10 * p) \<le> v' * P"
        "9 * (v' * P) + 10 * (10 * p) \<le> 9 * ((v div 10 + 1) * (10 * p)) + 10 * P"
        by (simp_all add: p_def P_def)
      have "v * p \<le> v' * P" using i(1) e(2) by (simp add: algebra_simps)
      moreover have "9 * (v' * P) + 10 * p \<le> 9 * (v * p) + 10 * P"
        using i(2) e(1) by (rule grow_step_arith)
      moreover have "v' \<le> v" using IH(3) Grow v by auto
      ultimately show ?thesis using Grow IH by (simp add: p_def P_def)
    qed
  qed
qed

theorem compress_spec:
  assumes "amt_nonneg a" and "compress a btn cpr = Ok c"
  shows "amt_nonneg c \<and> length (amt_byte c) \<le> btn \<and>
    (case cpr of Discard \<Rightarrow> amt_mag c \<le> amt_mag a | Grow \<Rightarrow> amt_mag a \<le> amt_mag c)"
proof -
  from assms obtain v u where lt: "be_nat (amt_byte a) < 2 ^ 128"
    and l: "compress_loop btn cpr (be_nat (amt_byte a)) (amt_unit a) = Ok (v, u)"
    and c: "c = (if v = 0 then amt_zero
      else \<lparr>amt_unit = u, amt_dist = int (length (nat_bytes (be_nat (to_be_bytes 16 v)))),
            amt_byte = nat_bytes (be_nat (to_be_bytes 16 v))\<rparr>)"
    by (auto simp: compress_def tail_to_u128_eq Let_def split: if_splits)
  from compress_loop_spec [OF l] assms(1) have s: "u \<le> 255" "v \<le> be_nat (amt_byte a)"
    "length (nat_bytes v) \<le> btn"
    "cpr = Discard \<Longrightarrow> v * 10 ^ u \<le> amt_mag a" "cpr = Grow \<Longrightarrow> amt_mag a \<le> v * 10 ^ u"
    by (auto simp: amt_mag_def amt_unit_le)
  then have v128: "v < 2 ^ 128" using lt by linarith
  then have be: "be_nat (to_be_bytes 16 v) = v" by (simp add: be_nat_to_be_bytes)
  have l16: "length (nat_bytes v) \<le> 16" using v128 by (simp add: length_nat_bytes_le)
  have mag: "amt_mag c = v * 10 ^ u"
    unfolding c be by (simp add: amt_mag_def amt_zero_def)
  have "amt_nonneg c"
    unfolding c be using s(1) l16 hd_nat_bytes [of v] by (auto simp: amt_nonneg_def amt_valid_def amt_zero_def)
  moreover have "length (amt_byte c) \<le> btn" unfolding c be using s(3) by (simp add: amt_zero_def)
  ultimately show ?thesis using s(4,5) mag by (cases cpr) auto
qed

section \<open>The amount codec\<close>

lemma sint_word_of_int_u8: "-128 \<le> d \<Longrightarrow> d < 128 \<Longrightarrow> sint (word_of_int d :: u8) = d"
  by (simp add: sint_sbintrunc' signed_take_bit_int_eq_self)

lemma word_of_int_ne_128: "-128 < d \<Longrightarrow> d < 128 \<Longrightarrow> (word_of_int d :: u8) \<noteq> 128"
proof
  assume d: "-128 < d" "d < 128" and eq: "(word_of_int d :: u8) = 128"
  have "sint (word_of_int d :: u8) = d" using d by (simp add: sint_word_of_int_u8)
  moreover have "sint (128 :: u8) = -128" by simp
  ultimately show False using d eq by simp
qed

lemma sint_u8_range: "-128 \<le> sint (b :: u8)" "sint (b :: u8) < 128"
  using sint_ge [of b] sint_lt [of b] by simp_all

lemma sint_u8_eq_min: "sint (b :: u8) = -128 \<longleftrightarrow> b = 128"
proof
  assume "sint b = -128"
  moreover have "sint (128 :: u8) = -128" by simp
  ultimately have "sint b = sint (128 :: u8)" by simp
  then show "b = 128" by (simp only: signed_word_eqI)
qed simp

definition amt_dec_checks :: "nat \<Rightarrow> int \<Rightarrow> bytes \<Rightarrow> bool" where
  "amt_dec_checks u dist byte \<longleftrightarrow>
     \<not> (length byte > 1 \<and> list_all (\<lambda>b. b = 0) byte) \<and> \<not> (length byte > 1 \<and> byte ! 0 = 0) \<and>
     \<not> (list_all (\<lambda>b. b = 0) byte \<and> (u \<noteq> 0 \<or> dist \<noteq> 0 \<or> byte \<noteq> []))"

lemma amt_dec_checks_valid:
  assumes "u \<le> 255" and "\<bar>d\<bar> = int (length bs)" and "length bs \<le> 127"
  shows "amt_dec_checks u d bs \<longleftrightarrow> amt_valid \<lparr>amt_unit = u, amt_dist = d, amt_byte = bs\<rparr>"
proof (cases bs)
  case Nil
  with assms show ?thesis by (auto simp: amt_dec_checks_def amt_valid_def)
next
  case (Cons b cs)
  with assms show ?thesis by (cases cs) (auto simp: amt_dec_checks_def amt_valid_def)
qed

lemma amt_decode_cons_Ok:
  "amt_decode (b0 # b1 # t) = Ok (a, n) \<longleftrightarrow>
     b1 \<noteq> 128 \<and> nat \<bar>sint b1\<bar> \<le> length t \<and>
     amt_dec_checks (unat b0) (sint b1) (take (nat \<bar>sint b1\<bar>) t) \<and>
     a = \<lparr>amt_unit = unat b0, amt_dist = sint b1, amt_byte = take (nat \<bar>sint b1\<bar>) t\<rparr> \<and>
     n = 2 + nat \<bar>sint b1\<bar>"
proof -
  define d where "d = sint b1"
  define l where "l = nat \<bar>d\<bar>"
  have r: "reader_read_bytes 1 (reader_at [] (b0 # b1 # t)) = Ok ([b0], reader_at [b0] (b1 # t))"
    "reader_read_bytes 1 (reader_at [b0] (b1 # t)) = Ok ([b1], reader_at [b0, b1] t)"
    by (simp_all add: reader_read_bytes_at)
  have e: "amt_decode (b0 # b1 # t) =
     (if b1 = 128 then normalf ''dist cannot be -128''
      else if \<not> l \<le> length t then normalf ''buffer too short''
      else let byte = take l t in
       if l > 1 \<and> list_all (\<lambda>b. b = 0) byte then normalf ''multi-byte amount cannot be all zero''
       else if l > 1 \<and> byte ! 0 = 0 then normalf ''amount leading zero byte is not canonical''
       else if list_all (\<lambda>b. b = 0) byte \<and> (unat b0 \<noteq> 0 \<or> d \<noteq> 0 \<or> byte \<noteq> [])
       then normalf ''amount semantic zero is not canonical''
       else Ok (\<lparr>amt_unit = unat b0, amt_dist = d, amt_byte = byte\<rparr>, 2 + l))"
    unfolding amt_decode_def reader_new_at r try_ret_simps prod.case Let_def nth_Cons_0
      d_def [symmetric] l_def [symmetric] reader_read_bytes_at [of l]
    by (cases "l \<le> length t") (simp_all cong: if_cong)
  show ?thesis
    unfolding e amt_dec_checks_def Let_def d_def [symmetric] l_def [symmetric]
    by (cases "l \<le> length t") (auto split: if_splits)
qed

lemma amt_decode_short: "length buf < 2 \<Longrightarrow> amt_decode buf = normalf ''buffer too short''"
  by (cases buf; cases "tl buf") (simp_all add: amt_decode_def reader_new_at reader_read_bytes_at)

lemma amt_decode_iff:
  "amt_decode buf = Ok (a, n) \<longleftrightarrow>
     (\<exists>rest. buf = amt_encode a @ rest \<and> amt_valid a \<and> n = length (amt_encode a))"
proof
  assume dec: "amt_decode buf = Ok (a, n)"
  then have "\<not> length buf < 2" by (auto simp: amt_decode_short)
  then obtain b0 b1 t where buf: "buf = b0 # b1 # t"
    by (cases buf; cases "tl buf") auto
  define l where "l = nat \<bar>sint b1\<bar>"
  from dec have d: "b1 \<noteq> 128" and l: "l \<le> length t" and chk: "amt_dec_checks (unat b0) (sint b1) (take l t)"
    and a: "a = \<lparr>amt_unit = unat b0, amt_dist = sint b1, amt_byte = take l t\<rparr>" and n: "n = 2 + l"
    unfolding buf amt_decode_cons_Ok l_def by blast+
  have "sint b1 \<noteq> -128" using d sint_u8_eq_min [of b1] by blast
  with sint_u8_range [of b1] have "-128 < sint b1" "sint b1 < 128" by linarith+
  then have "\<bar>sint b1\<bar> = int (length (take l t))" "length (take l t) \<le> 127"
    using l by (simp_all add: l_def)
  with chk a have "amt_valid a" by (simp add: amt_dec_checks_valid)
  moreover have "amt_encode a = b0 # b1 # take l t" by (simp add: a amt_encode_def)
  moreover have "t = take l t @ drop l t" by simp
  ultimately show "\<exists>rest. buf = amt_encode a @ rest \<and> amt_valid a \<and> n = length (amt_encode a)"
    using buf l n by (intro exI [of _ "drop l t"]) simp
next
  assume "\<exists>rest. buf = amt_encode a @ rest \<and> amt_valid a \<and> n = length (amt_encode a)"
  then obtain rest where buf: "buf = amt_encode a @ rest" and v: "amt_valid a"
    and n: "n = length (amt_encode a)" by blast
  have d: "-128 < amt_dist a" "amt_dist a < 128" using v by (auto simp: amt_valid_def)
  have s: "sint (word_of_int (amt_dist a) :: u8) = amt_dist a" using d by (intro sint_word_of_int_u8) simp_all
  have ne: "(word_of_int (amt_dist a) :: u8) \<noteq> 128" using d by (rule word_of_int_ne_128)
  have u: "unat (of_nat (amt_unit a) :: u8) = amt_unit a" using v by (simp add: amt_valid_def)
  have l: "nat \<bar>amt_dist a\<bar> = length (amt_byte a)" using v by (simp add: amt_valid_def)
  have chk: "amt_dec_checks (amt_unit a) (amt_dist a) (amt_byte a)"
    using v by (subst amt_dec_checks_valid) (auto simp: amt_valid_def)
  show "amt_decode buf = Ok (a, n)"
    unfolding buf n amt_encode_def append_Cons amt_decode_cons_Ok s u l using ne chk by simp
qed

interpretation amount: codec amt_valid amt_size amt_encode amt_decode
proof
  show "amt_size x = length (amt_encode x)" for x by (simp add: amt_size_def amt_encode_def)
  show "amt_decode (amt_encode x @ rest) = Ok (x, length (amt_encode x))" if "amt_valid x" for x rest
    unfolding amt_decode_iff using that by blast
  show "amt_valid x \<and> n = length (amt_encode x) \<and> (\<exists>rest. buf = amt_encode x @ rest)"
    if "amt_decode buf = Ok (x, n)" for buf x n
    using that unfolding amt_decode_iff by blast
qed

section \<open>Amounts that keep their wire form\<close>

record wire_amount =
  wa_amount :: amount
  wa_wire :: bytes

definition wa_from_amount :: "amount \<Rightarrow> wire_amount" where
  "wa_from_amount a = \<lparr>wa_amount = a, wa_wire = amt_encode a\<rparr>"

definition is_canonical_wire :: "wire_amount \<Rightarrow> bool" where
  "is_canonical_wire w = (wa_wire w = amt_encode (wa_amount w))"

definition try_decode_non_canonical_semantic_zero :: "bytes \<Rightarrow> (amount \<times> nat) ret" where
  "try_decode_non_canonical_semantic_zero buf =
     (if length buf < 2 then normalf ''buffer too short for WireAmount''
      else let u = unat (buf ! 0); dist_raw = buf ! 1 in
        if dist_raw = 128 then normalf ''dist cannot be -128''
        else let dist = sint dist_raw; len = nat \<bar>dist\<bar> in
          if length buf < 2 + len then normalf ''buffer too short for WireAmount''
          else let byte = take len (drop 2 buf) in
            if len > 1 \<and> list_all (\<lambda>b. b = 0) byte then normalf ''multi-byte amount cannot be all zero''
            else if len > 1 \<and> byte ! 0 = 0 then normalf ''amount leading zero byte is not canonical''
            else if list_ex (\<lambda>b. b \<noteq> 0) byte then normalf ''wire amount fallback only accepts semantic zero''
            else if u = 0 \<and> dist = 0 \<and> byte = [] then normalf ''canonical zero must use Amount decode''
            else Ok (amt_zero, 2 + len))"

definition wa_encode :: "wire_amount \<Rightarrow> bytes" where
  "wa_encode w = wa_wire w"

definition wa_decode :: "bytes \<Rightarrow> (wire_amount \<times> nat) ret" where
  "wa_decode buf =
     (case amt_decode buf of
        Inr (a, used) \<Rightarrow> Ok (\<lparr>wa_amount = a, wa_wire = take used buf\<rparr>, used)
      | Inl _ \<Rightarrow>
          try_ret (try_decode_non_canonical_semantic_zero buf) (\<lambda>(a, used).
          Ok (\<lparr>wa_amount = a, wa_wire = take used buf\<rparr>, used)))"

lemma wa_decode_preserves_wire:
  assumes "wa_decode buf = Ok (w, n)"
  shows "wa_encode w = take n buf \<and> amt_valid (wa_amount w) \<and>
    (is_canonical_wire w \<or> wa_amount w = amt_zero)"
proof (cases "amt_decode buf")
  case (Inr p)
  obtain a k where p: "p = (a, k)" by fastforce
  from Inr p assms have w: "w = \<lparr>wa_amount = a, wa_wire = take n buf\<rparr>" "n = k"
    by (auto simp: wa_decode_def)
  from Inr p amount.decode_take [of buf a k] show ?thesis
    by (simp add: w wa_encode_def is_canonical_wire_def)
next
  case (Inl e)
  with assms have "try_decode_non_canonical_semantic_zero buf = Ok (wa_amount w, n)"
    and "wa_wire w = take n buf" by (auto simp: wa_decode_def)
  then show ?thesis
    using amt_zero_nonneg
    by (auto simp: try_decode_non_canonical_semantic_zero_def Let_def wa_encode_def amt_nonneg_def
        split: if_splits)
qed

end
