(* ===== verification/AmountText.thy ===== *)
theory AmountText
  imports Amount
begin

text \<open>
  The text forms of amounts, \<^verbatim>\<open>src/field/src/types/amount.rs\<close>: the parser of the
  \<^verbatim>\<open>value:unit\<close> and decimal forms with comma grouping, and the two printers. Strings are
  lists of bytes; white space is ASCII white space, so the model covers ASCII input.
\<close>

section \<open>String helpers of the standard library\<close>

definition is_ascii_whitespace :: "char \<Rightarrow> bool" where
  "is_ascii_whitespace c \<longleftrightarrow> (of_char c :: nat) \<in> {9..13} \<or> (of_char c :: nat) = 32"

definition trim :: "string \<Rightarrow> string" where
  "trim s = rev (dropWhile is_ascii_whitespace (rev (dropWhile is_ascii_whitespace s)))"

definition trim_start_matches :: "char \<Rightarrow> string \<Rightarrow> string" where
  "trim_start_matches c s = dropWhile (\<lambda>x. x = c) s"

definition trim_end_matches :: "char \<Rightarrow> string \<Rightarrow> string" where
  "trim_end_matches c s = rev (dropWhile (\<lambda>x. x = c) (rev s))"

definition split_once :: "char \<Rightarrow> string \<Rightarrow> (string \<times> string) option" where
  "split_once c s =
     (if c \<in> set s then Some (takeWhile (\<lambda>x. x \<noteq> c) s, tl (dropWhile (\<lambda>x. x \<noteq> c) s)) else None)"

fun split_on :: "char \<Rightarrow> string \<Rightarrow> string list" where
  "split_on c [] = [[]]"
| "split_on c (x # xs) =
     (if x = c then [] # split_on c xs
      else case split_on c xs of [] \<Rightarrow> [[x]] | g # gs \<Rightarrow> (x # g) # gs)"

text \<open>\<^verbatim>\<open>str::parse\<close> at an unsigned type: an optional plus sign, digits, no overflow.\<close>

definition parse_uint :: "nat \<Rightarrow> string \<Rightarrow> nat option" where
  "parse_uint mx s =
     (let ds = (case s of [] \<Rightarrow> [] | c # t \<Rightarrow> if c = CHR ''+'' then t else s) in
      if ds = [] \<or> \<not> list_all is_ascii_digit ds then None
      else if dec_nat ds \<le> mx then Some (dec_nat ds) else None)"

section \<open>Parsing\<close>

definition split_sign :: "string \<Rightarrow> bool \<times> string" where
  "split_sign value =
     (case value of c # digits \<Rightarrow> if c = CHR ''-'' then (True, digits) else (False, value)
      | [] \<Rightarrow> (False, value))"

definition normalize_grouping :: "string \<Rightarrow> string ret" where
  "normalize_grouping value =
     (if CHR '','' \<notin> set value then Ok value
      else
        let number = takeWhile (\<lambda>c. c \<noteq> CHR ''.'' \<and> c \<noteq> CHR '':'') value;
            suffix = dropWhile (\<lambda>c. c \<noteq> CHR ''.'' \<and> c \<noteq> CHR '':'') value in
        if CHR '','' \<in> set suffix then errf ''amount comma grouping invalid''
        else
          let unsigned = snd (split_sign number);
              groups = split_on CHR '','' unsigned;
              valid_first = (case groups of [] \<Rightarrow> False
                 | g # _ \<Rightarrow> g \<noteq> [] \<and> length g \<le> 3 \<and> list_all is_ascii_digit g);
              valid_rest = list_all (\<lambda>g. length g = 3 \<and> list_all is_ascii_digit g) (tl groups) in
          if length groups < 2 \<or> \<not> valid_first \<or> \<not> valid_rest
          then errf ''amount comma grouping invalid''
          else Ok (filter (\<lambda>c. c \<noteq> CHR '','') value))"

function strip_zeros :: "string \<Rightarrow> nat \<Rightarrow> string \<times> nat" where
  "strip_zeros digits u =
     (if u < 255 \<and> digits \<noteq> [] \<and> last digits = CHR ''0'' then strip_zeros (butlast digits) (u + 1)
      else (digits, u))"
  by pat_completeness auto
termination
  by (relation "measure (\<lambda>(digits, u). 255 - u)") auto

declare strip_zeros.simps [simp del]

definition signed_amount :: "bool \<Rightarrow> nat \<Rightarrow> bytes \<Rightarrow> amount" where
  "signed_amount negative u byte =
     \<lparr>amt_unit = u, amt_dist = (if negative then int (length byte) * -1 else int (length byte)),
      amt_byte = byte\<rparr>"

definition from_decimal_digits :: "bool \<Rightarrow> string \<Rightarrow> nat \<Rightarrow> amount ret" where
  "from_decimal_digits negative digits u =
     (let digits = trim_start_matches CHR ''0'' digits in
      if digits = [] then Ok amt_zero
      else let (digits, u) = strip_zeros digits u in
        (case parse_uint u128_max digits of
           Some magnitude \<Rightarrow>
             Ok (signed_amount negative u (drop_left_zero (to_be_bytes 16 magnitude)))
         | None \<Rightarrow>
             try_ret (from_decimal_b256 digits) (\<lambda>byte.
             if length byte > 127 then errf ''Amount is too wide.''
             else Ok (signed_amount negative u byte))))"

definition from_fin :: "string \<Rightarrow> amount ret" where
  "from_fin v =
     (case split_once CHR '':'' v of
        None \<Rightarrow> errf ''amount format invalid''
      | Some (number, ustr) \<Rightarrow>
          if CHR '':'' \<in> set ustr then errf ''amount format invalid''
          else
            try_ret (ok_or (parse_uint 255 ustr) (Error Fault ''amount unit invalid'' None)) (\<lambda>u.
            let (negative, digits) = split_sign number in
            if digits = [] \<or> \<not> list_all is_ascii_digit digits then errf ''amount value invalid''
            else from_decimal_digits negative digits u))"

definition from_mei :: "string \<Rightarrow> amount ret" where
  "from_mei v =
     (let (negative, digits) = split_sign v; parts = split_on CHR ''.'' digits in
      if length parts > 2 then errf ''amount value invalid''
      else
        let int_part = parts ! 0; frac_part = (if length parts = 2 then parts ! 1 else []) in
        if (int_part = [] \<and> frac_part = []) \<or> \<not> list_all is_ascii_digit int_part
           \<or> \<not> list_all is_ascii_digit frac_part then errf ''amount value invalid''
        else
          let frac_trimmed = trim_end_matches CHR ''0'' frac_part in
          if length frac_trimmed > UNIT_MEI then errf ''amount value invalid''
          else from_decimal_digits negative (int_part @ frac_trimmed) (UNIT_MEI - length frac_trimmed))"

definition amt_from :: "string \<Rightarrow> amount ret" where
  "amt_from v =
     try_ret (normalize_grouping (trim v)) (\<lambda>v.
     if CHR '':'' \<in> set v then from_fin v else from_mei v)"

section \<open>Printing\<close>

function u128_dec_loop :: "nat \<Rightarrow> string \<Rightarrow> string" where
  "u128_dec_loop v acc =
     (if v > 0 then u128_dec_loop (v div 10) (char_of_digit (v mod 10) # acc) else acc)"
  by pat_completeness auto
termination
  by (relation "measure (\<lambda>(v, acc). v)") auto

declare u128_dec_loop.simps [simp del]

definition u128_to_decimal :: "nat \<Rightarrow> string" where
  "u128_to_decimal value = (if value = 0 then ''0'' else u128_dec_loop value [])"

definition mantissa_string :: "bytes \<Rightarrow> string" where
  "mantissa_string bs =
     (if length bs \<le> 16 then u128_to_decimal (be_nat (replicate (16 - length bs) 0 @ bs))
      else to_decimal_b256 bs)"

function unit_dec_loop :: "nat \<Rightarrow> string \<Rightarrow> string" where
  "unit_dec_loop u acc =
     (let acc' = char_of_digit (u mod 10) # acc; u' = u div 10 in
      if u' = 0 then acc' else unit_dec_loop u' acc')"
  by pat_completeness auto
termination
  by (relation "measure (\<lambda>(u, acc). u)") auto

declare unit_dec_loop.simps [simp del]

definition to_fin_string :: "amount \<Rightarrow> string" where
  "to_fin_string a =
     (if amt_is_zero a then ''0:0''
      else (if amt_is_negative a then ''-'' else []) @ mantissa_string (amt_byte a) @ '':''
        @ unit_dec_loop (amt_unit a) [])"

definition to_unit_decimal_string :: "amount \<Rightarrow> nat \<Rightarrow> string" where
  "to_unit_decimal_string a base_unit =
     (if amt_is_zero a then ''0''
      else
        let digits = mantissa_string (amt_byte a);
            digits =
              (if amt_unit a \<ge> base_unit then digits @ replicate (amt_unit a - base_unit) CHR ''0''
               else
                 let decimal_places = base_unit - amt_unit a;
                     digits = (if length digits \<le> decimal_places
                       then ''0.'' @ replicate (decimal_places - length digits) CHR ''0'' @ digits
                       else take (length digits - decimal_places) digits @ ''.''
                            @ drop (length digits - decimal_places) digits);
                     digits = trim_end_matches CHR ''0'' digits in
                 if digits \<noteq> [] \<and> last digits = CHR ''.'' then butlast digits else digits)
        in (if amt_is_negative a then ''-'' else []) @ digits)"

definition to_unit_string :: "amount \<Rightarrow> string \<Rightarrow> string" where
  "to_unit_string a unit_str =
     (let u = (case parse_uint 255 unit_str of
          Some u \<Rightarrow> Some u
        | None \<Rightarrow>
            if unit_str = ''mei'' then Some UNIT_MEI
            else if unit_str = ''zhu'' then Some UNIT_ZHU
            else if unit_str = ''shuo'' then Some UNIT_SHUO
            else if unit_str = ''ai'' then Some UNIT_AI
            else if unit_str = ''miao'' then Some UNIT_MIAO
            else None)
      in case u of
           Some u \<Rightarrow> if u > 0 then to_unit_decimal_string a u else to_fin_string a
         | None \<Rightarrow> to_fin_string a)"

section \<open>Digit strings as numbers\<close>

lemma unit_dec_loop_eq: "unit_dec_loop u acc = nat_dec u @ acc"
proof (induction u acc rule: unit_dec_loop.induct)
  case (1 u acc)
  show ?case
  proof (cases "u div 10 = 0")
    case True
    then show ?thesis
      by (simp add: unit_dec_loop.simps [of u] nat_dec.simps [of u] div_eq_0_iff)
  next
    case False
    then show ?thesis
      using 1 by (simp add: unit_dec_loop.simps [of u] nat_dec.simps [of u] div_eq_0_iff)
  qed
qed

lemma u128_dec_loop_eq: "0 < v \<Longrightarrow> u128_dec_loop v acc = nat_dec v @ acc"
proof (induction v acc rule: u128_dec_loop.induct)
  case (1 v acc)
  show ?case
  proof (cases "v div 10 = 0")
    case True
    with 1(2) show ?thesis
      by (simp add: u128_dec_loop.simps [of v] u128_dec_loop.simps [of 0] nat_dec.simps [of v] div_eq_0_iff)
  next
    case False
    with 1 show ?thesis
      by (simp add: u128_dec_loop.simps [of v] nat_dec.simps [of v] div_eq_0_iff)
  qed
qed

lemma nat_dec_0: "nat_dec 0 = ''0''"
  by (simp add: nat_dec.simps) code_simp

lemma mantissa_string_eq: "mantissa_string bs = nat_dec (be_nat bs)"
  by (cases "be_nat bs = 0")
    (simp_all add: mantissa_string_def u128_to_decimal_def be_nat_append u128_dec_loop_eq
      to_decimal_b256_eq nat_dec_0)

lemma digit_of_0_iff: "is_ascii_digit c \<Longrightarrow> digit_of c = 0 \<longleftrightarrow> c = CHR ''0''"
proof -
  assume d: "is_ascii_digit c"
  have "char_of_digit 0 = CHR ''0''" by code_simp
  with d show ?thesis using char_of_digit_of [OF d] digit_of_char_of_digit [of 0] by auto
qed

lemma digit_of_CHR_0 [simp]: "digit_of CHR ''0'' = 0"
  by code_simp

lemma is_ascii_digit_0 [simp]: "is_ascii_digit CHR ''0''"
  by code_simp

lemma dec_nat_Cons: "dec_nat (d # ds) = digit_of d * 10 ^ length ds + dec_nat ds"
  using dec_nat_append [of "[d]" ds] dec_nat_simps(2) [of "[]" d] by simp

lemma dec_nat_trim_start [simp]: "dec_nat (trim_start_matches CHR ''0'' ds) = dec_nat ds"
  by (induction ds) (auto simp: trim_start_matches_def dec_nat_Cons)

lemma dec_nat_pos: "list_all is_ascii_digit ds \<Longrightarrow> ds \<noteq> [] \<Longrightarrow> hd ds \<noteq> CHR ''0'' \<Longrightarrow> 0 < dec_nat ds"
  using digit_of_0_iff [of "hd ds"] by (cases ds) (auto simp: dec_nat_Cons)

lemma trim_start_hd: "trim_start_matches c s \<noteq> [] \<Longrightarrow> hd (trim_start_matches c s) \<noteq> c"
  using hd_dropWhile [of "\<lambda>x. x = c" s] by (simp add: trim_start_matches_def)

lemma trim_start_digits:
  "list_all is_ascii_digit ds \<Longrightarrow> list_all is_ascii_digit (trim_start_matches c ds)"
  by (auto simp: list_all_iff trim_start_matches_def dest: set_dropWhileD)

lemma dec_nat_mod_10:
  assumes "list_all is_ascii_digit ds" and "ds \<noteq> []"
  shows "dec_nat ds mod 10 = 0 \<longleftrightarrow> last ds = CHR ''0''"
    and "dec_nat ds div 10 = dec_nat (butlast ds)"
proof -
  have l: "is_ascii_digit (last ds)" using assms by (simp add: list_all_iff)
  have "dec_nat ds = dec_nat (butlast ds) * 10 + digit_of (last ds)"
    using dec_nat_simps(2) [of "butlast ds" "last ds"] assms(2) by simp
  moreover have "digit_of (last ds) < 10" by (rule digit_of_less [OF l])
  ultimately show "dec_nat ds mod 10 = 0 \<longleftrightarrow> last ds = CHR ''0''"
    "dec_nat ds div 10 = dec_nat (butlast ds)"
    using digit_of_0_iff [OF l] by auto
qed

text \<open>Stripping zeros off the digits is the loop of \<^const>\<open>coin_u128\<close> on the number.\<close>

lemma strip_zeros_eq:
  assumes "list_all is_ascii_digit ds" and "ds \<noteq> []" and "hd ds \<noteq> CHR ''0''" and "u \<le> 255"
  shows "\<exists>ds' u'. strip_zeros ds u = (ds', u') \<and> list_all is_ascii_digit ds' \<and> ds' \<noteq> [] \<and>
    coin_strip (dec_nat ds) u = (dec_nat ds', u')"
  using assms
proof (induction ds u rule: strip_zeros.induct)
  case (1 ds u)
  note m = dec_nat_mod_10 [OF 1(2,3)]
  show ?case
  proof (cases "u < 255 \<and> last ds = CHR ''0''")
    case True
    have "list_all is_ascii_digit (butlast ds)" using 1(2) by (auto simp: list_all_iff dest: in_set_butlastD)
    moreover have ne: "butlast ds \<noteq> []" using 1(3,4) True by (cases ds) (auto split: if_splits)
    moreover have "hd (butlast ds) \<noteq> CHR ''0''" using 1(4) ne by (cases ds) (auto split: if_splits)
    moreover have "strip_zeros ds u = strip_zeros (butlast ds) (u + 1)"
      using True 1(3) by (simp add: strip_zeros.simps [of ds u])
    moreover have "coin_strip (dec_nat ds) u = coin_strip (dec_nat (butlast ds)) (u + 1)"
      using True m by (simp add: coin_strip.simps [of "dec_nat ds" u])
    ultimately show ?thesis using 1(1) True 1(3) by auto
  next
    case False
    then have "strip_zeros ds u = (ds, u)" by (auto simp: strip_zeros.simps [of ds u])
    moreover have "coin_strip (dec_nat ds) u = (dec_nat ds, u)"
      using False m by (auto simp: coin_strip.simps [of "dec_nat ds" u])
    ultimately show ?thesis using 1(2,3) by auto
  qed
qed

lemma parse_uint_digits:
  "list_all is_ascii_digit ds \<Longrightarrow> ds \<noteq> [] \<Longrightarrow>
   parse_uint mx ds = (if dec_nat ds \<le> mx then Some (dec_nat ds) else None)"
proof -
  assume d: "list_all is_ascii_digit ds" "ds \<noteq> []"
  have "\<not> is_ascii_digit CHR ''+''" by code_simp
  with d have "(case ds of [] \<Rightarrow> [] | c # t \<Rightarrow> if c = CHR ''+'' then t else ds) = ds"
    by (cases ds) auto
  with d show ?thesis by (simp add: parse_uint_def)
qed

text \<open>
  The amount a digit string at a unit denotes: zeros moved from the digits to the unit, as
  far as the unit goes.
\<close>

definition amount_of :: "bool \<Rightarrow> nat \<Rightarrow> nat \<Rightarrow> amount" where
  "amount_of negative n u =
     (if n = 0 then amt_zero
      else let (m, v) = coin_strip n u in signed_amount negative v (nat_bytes m))"

theorem from_decimal_digits_eq:
  assumes "list_all is_ascii_digit ds" and "u \<le> 255"
  shows "from_decimal_digits negative ds u =
    (if dec_nat ds = 0 \<or> fst (coin_strip (dec_nat ds) u) < 256 ^ 127
     then Ok (amount_of negative (dec_nat ds) u) else errf ''Amount is too wide.'')"
proof -
  let ?ds = "trim_start_matches CHR ''0'' ds"
  show ?thesis
  proof (cases "?ds = []")
    case True
    then have "dec_nat ds = 0" by (metis dec_nat_simps(1) dec_nat_trim_start)
    with True show ?thesis by (simp add: from_decimal_digits_def amount_of_def)
  next
    case False
    have dg: "list_all is_ascii_digit ?ds" using assms(1) by (rule trim_start_digits)
    from strip_zeros_eq [OF dg False trim_start_hd [OF False] assms(2)] obtain ds' u' where
      st: "strip_zeros ?ds u = (ds', u')" and d': "list_all is_ascii_digit ds'" "ds' \<noteq> []"
      and cs: "coin_strip (dec_nat ds) u = (dec_nat ds', u')" by auto
    let ?m = "dec_nat ds'"
    have pos: "dec_nat ds \<noteq> 0" using dec_nat_pos [OF dg False trim_start_hd [OF False]] by simp
    have am: "amount_of negative (dec_nat ds) u = signed_amount negative u' (nat_bytes ?m)"
      using pos by (simp add: amount_of_def cs)
    have dec: "from_decimal_digits negative ds u =
       (case parse_uint u128_max ds' of
          Some magnitude \<Rightarrow> Ok (signed_amount negative u' (drop_left_zero (to_be_bytes 16 magnitude)))
        | None \<Rightarrow> try_ret (from_decimal_b256 ds') (\<lambda>byte.
            if length byte > 127 then errf ''Amount is too wide.'' else Ok (signed_amount negative u' byte)))"
      using False unfolding from_decimal_digits_def Let_def st by simp
    show ?thesis
    proof (cases "?m \<le> u128_max")
      case True
      then have "be_nat (to_be_bytes 16 ?m) = ?m" by (simp add: be_nat_to_be_bytes)
      moreover have "?m < 256 ^ 127"
      proof -
        have "u128_max < (256 :: nat) ^ 127" by simp
        with True show ?thesis by (rule le_less_trans)
      qed
      ultimately show ?thesis
        unfolding dec am cs parse_uint_digits [OF d'] using True by simp
    next
      case False
      have d'': "\<forall>c\<in>set ds'. is_ascii_digit c" using d' by (simp add: list_all_iff)
      have "\<not> length (nat_bytes ?m) > 127" if "?m < 256 ^ 127"
        using that length_nat_bytes_le [of ?m 127] by linarith
      then show ?thesis
        unfolding dec am cs parse_uint_digits [OF d'] from_decimal_b256_eq [OF d'']
        using False pos by (cases "?m < 256 ^ 127") simp_all
    qed
  qed
qed

section \<open>Printing and parsing back\<close>

lemma trim_id:
  assumes "\<forall>c\<in>set s. \<not> is_ascii_whitespace c"
  shows "trim s = s"
proof -
  have "dropWhile is_ascii_whitespace xs = xs" if "\<forall>c\<in>set xs. \<not> is_ascii_whitespace c" for xs
    using that by (cases xs) auto
  from this [of s] this [of "rev s"] show ?thesis using assms by (simp add: trim_def)
qed

lemma digit_not_special:
  assumes "is_ascii_digit c"
  shows "\<not> is_ascii_whitespace c" and "c \<noteq> CHR '',''" and "c \<noteq> CHR '':''" and "c \<noteq> CHR ''-''"
    and "c \<noteq> CHR ''.''"
  using assms by (auto simp: is_ascii_whitespace_def is_ascii_digit_def)

lemma fin_chars_not_whitespace [simp]:
  "\<not> is_ascii_whitespace CHR ''-''" "\<not> is_ascii_whitespace CHR '':''" "\<not> is_ascii_whitespace CHR ''.''"
  by code_simp+

lemma split_once_append:
  assumes "c \<notin> set xs"
  shows "split_once c (xs @ c # ys) = Some (xs, ys)"
proof -
  have "takeWhile (\<lambda>x. x \<noteq> c) (xs @ c # ys) = xs" "dropWhile (\<lambda>x. x \<noteq> c) (xs @ c # ys) = c # ys"
    using assms by (induction xs) auto
  then show ?thesis by (simp add: split_once_def)
qed

lemma split_sign_of:
  assumes "list_all is_ascii_digit ds"
  shows "split_sign ((if n then ''-'' else []) @ ds) = (n, ds)"
  using assms by (cases ds) (auto simp: split_sign_def dest: digit_not_special)

lemma nat_dec_all_digits [simp]: "list_all is_ascii_digit (nat_dec n)"
  using nat_dec_digits [of n] by (simp add: list_all_iff)

lemma amt_from_fin:
  assumes d: "list_all is_ascii_digit ds" "ds \<noteq> []" and e: "list_all is_ascii_digit es" "es \<noteq> []"
    and u: "dec_nat es \<le> 255"
  shows "amt_from ((if n then ''-'' else []) @ ds @ '':'' @ es) = from_decimal_digits n ds (dec_nat es)"
proof -
  define sd where "sd = (if n then ''-'' else []) @ ds"
  have dsp: "\<forall>c\<in>set ds. \<not> is_ascii_whitespace c \<and> c \<noteq> CHR '','' \<and> c \<noteq> CHR '':''"
    using d(1) digit_not_special(1-3) unfolding list_all_iff by blast
  have esp: "\<forall>c\<in>set es. \<not> is_ascii_whitespace c \<and> c \<noteq> CHR '','' \<and> c \<noteq> CHR '':''"
    using e(1) digit_not_special(1-3) unfolding list_all_iff by blast
  have ssp: "\<forall>c\<in>set sd. \<not> is_ascii_whitespace c \<and> c \<noteq> CHR '','' \<and> c \<noteq> CHR '':''"
    using dsp by (cases n) (simp_all add: sd_def)
  have tr: "trim (sd @ CHR '':'' # es) = sd @ CHR '':'' # es"
    by (rule trim_id) (unfold set_append set_simps ball_Un ball_simps(7), use ssp esp in simp)
  have cm: "normalize_grouping (sd @ CHR '':'' # es) = Ok (sd @ CHR '':'' # es)"
  proof -
    have "CHR '','' \<notin> set sd" "CHR '','' \<notin> set es" using ssp esp by blast+
    then show ?thesis by (simp add: normalize_grouping_def)
  qed
  have so: "split_once CHR '':'' (sd @ CHR '':'' # es) = Some (sd, es)"
    by (rule split_once_append) (use ssp in blast)
  have ce: "CHR '':'' \<notin> set es" using esp by blast
  have pu: "parse_uint 255 es = Some (dec_nat es)" using parse_uint_digits [OF e] u by simp
  have sg: "split_sign sd = (n, ds)" unfolding sd_def by (rule split_sign_of [OF d(1)])
  have "from_fin (sd @ CHR '':'' # es) = from_decimal_digits n ds (dec_nat es)"
    unfolding from_fin_def so using ce pu sg d by (simp add: ok_or_def)
  then have "amt_from (sd @ CHR '':'' # es) = from_decimal_digits n ds (dec_nat es)"
    unfolding amt_from_def tr cm by simp
  then show ?thesis by (simp add: sd_def)
qed

lemma amount_of_spec:
  assumes "u \<le> 255" and "0 < m" and "fst (coin_strip m u) < 256 ^ 127"
  shows "amt_valid (amount_of n m u)"
    and "amt_val (amount_of n m u) = (if n then - int (m * 10 ^ u) else int (m * 10 ^ u))"
proof -
  obtain m' u' where cs: "coin_strip m u = (m', u')" by force
  note sp = coin_strip_spec [OF cs assms(2,1)]
  have m': "m' < 256 ^ 127" using assms(3) cs by simp
  have ne: "nat_bytes m' \<noteq> []" using sp by (simp add: nat_bytes_eq_Nil)
  have eq: "amount_of n m u = signed_amount n u' (nat_bytes m')"
    using assms(2) by (simp add: amount_of_def cs)
  show "amt_valid (amount_of n m u)"
    unfolding eq signed_amount_def amt_valid_def
    using sp ne hd_nat_bytes [of m'] m' length_nat_bytes_le [of m' 127] by simp
  have "n \<Longrightarrow> - int (length (nat_bytes m')) < 0" using ne by simp
  then show "amt_val (amount_of n m u) = (if n then - int (m * 10 ^ u) else int (m * 10 ^ u))"
    unfolding eq signed_amount_def amt_val_def amt_mag_def using sp
    by (simp only: amount.simps be_nat_nat_bytes) (simp add: ne)
qed

lemma amt_mantissa_bound:
  assumes "amt_valid a" shows "be_nat (amt_byte a) < 256 ^ 127"
proof -
  have "be_nat (amt_byte a) < 256 ^ length (amt_byte a)" by (rule be_nat_less)
  also have "\<dots> \<le> 256 ^ 127"
    using assms by (intro power_increasing) (auto simp: amt_valid_def)
  finally show ?thesis .
qed

lemma fin_string_parse:
  assumes v: "amt_valid a" and nz: "\<not> amt_is_zero a"
  shows "amt_from (to_fin_string a) =
    Ok (amount_of (amt_is_negative a) (be_nat (amt_byte a)) (amt_unit a))"
proof -
  let ?m = "be_nat (amt_byte a)"
  have u: "amt_unit a \<le> 255" using v by (simp add: amt_valid_def)
  have m: "0 < ?m" using nz by (simp add: amt_is_zero_iff)
  obtain m' u' where cs: "coin_strip ?m (amt_unit a) = (m', u')" by force
  have "m' < 256 ^ 127"
    using coin_strip_spec [OF cs m u] amt_mantissa_bound [OF v] by linarith
  moreover have "to_fin_string a =
      (if amt_is_negative a then ''-'' else []) @ nat_dec ?m @ '':'' @ nat_dec (amt_unit a)"
    using nz by (simp add: to_fin_string_def mantissa_string_eq unit_dec_loop_eq)
  ultimately show ?thesis
    using amt_from_fin [of "nat_dec ?m" "nat_dec (amt_unit a)" "amt_is_negative a"] u
      from_decimal_digits_eq [of "nat_dec ?m" "amt_unit a" "amt_is_negative a"] cs
    by simp
qed

lemma fin_string_zero: "amt_from ''0:0'' = Ok amt_zero"
  by code_simp

lemma coin_strip_id: "m mod 10 \<noteq> 0 \<Longrightarrow> coin_strip m u = (m, u)"
  by (simp add: coin_strip.simps)

lemma fin_string_round_trip:
  assumes v: "amt_valid a"
  shows "\<exists>b. amt_from (to_fin_string a) = Ok b \<and> amt_valid b \<and> amt_val b = amt_val a \<and>
    (be_nat (amt_byte a) mod 10 \<noteq> 0 \<longrightarrow> b = a)"
proof (cases "amt_is_zero a")
  case True
  then have "be_nat (amt_byte a) = 0" by (simp add: amt_is_zero_iff)
  moreover have "amt_val a = 0" "amt_val amt_zero = 0"
    using calculation by (simp_all add: amt_val_def amt_mag_def amt_zero_def)
  moreover have "amt_valid amt_zero" by (simp add: amt_valid_def amt_zero_def)
  ultimately show ?thesis using True fin_string_zero by (simp add: to_fin_string_def)
next
  case False
  let ?m = "be_nat (amt_byte a)" and ?n = "amt_is_negative a"
  let ?b = "amount_of ?n ?m (amt_unit a)"
  have m: "0 < ?m" using False by (simp add: amt_is_zero_iff)
  have u: "amt_unit a \<le> 255" using v by (simp add: amt_valid_def)
  obtain m' u' where cs: "coin_strip ?m (amt_unit a) = (m', u')" by force
  have lt: "fst (coin_strip ?m (amt_unit a)) < 256 ^ 127"
    using coin_strip_spec [OF cs m u] amt_mantissa_bound [OF v] cs by simp
  note sp = amount_of_spec [OF u m lt]
  have ne: "amt_byte a \<noteq> []" "hd (amt_byte a) \<noteq> 0" and ds: "\<bar>amt_dist a\<bar> = int (length (amt_byte a))"
    using v m by (auto simp: amt_valid_def split: if_splits)
  have neg: "?n \<longleftrightarrow> amt_dist a < 0" using False by (simp add: amt_is_negative_def amt_not_zero_def)
  have "amt_val ?b = amt_val a" using sp(2) by (simp add: neg amt_val_def amt_mag_def)
  moreover have "?b = a" if "?m mod 10 \<noteq> 0"
  proof -
    have "nat_bytes ?m = amt_byte a" using ne by (simp add: nat_bytes_be_nat)
    moreover have "?b = signed_amount ?n (amt_unit a) (nat_bytes ?m)"
      using m that by (simp add: amount_of_def coin_strip_id)
    ultimately have "?b = signed_amount ?n (amt_unit a) (amt_byte a)" by simp
    moreover have "amt_dist a = (if ?n then int (length (amt_byte a)) * -1 else int (length (amt_byte a)))"
      using ds neg by (auto split: if_splits)
    ultimately show ?thesis by (simp add: signed_amount_def)
  qed
  ultimately show ?thesis using fin_string_parse [OF v False] sp(1) by auto
qed

end
