(* ===== verification/Fold64.thy ===== *)
theory Fold64
  imports Amount
begin

text \<open>
  The variable-length integer of \<^verbatim>\<open>src/field/src/types/fold64.rs\<close> and the two newtypes over
  it, \<^verbatim>\<open>SatoshiAuto\<close> (\<^verbatim>\<open>satoshi.rs\<close>) and \<^verbatim>\<open>DiamondNumberAuto\<close> (\<^verbatim>\<open>diamond.rs\<close>). The three top
  bits of the first byte count the bytes that follow; a value has exactly one encoding.
\<close>

unbundle bit_operations_syntax

section \<open>Definitions\<close>

definition FOLD64_STAGE1_BOUND :: nat where
  "FOLD64_STAGE1_BOUND = 32"

definition FOLD64_MAX :: nat where
  "FOLD64_MAX = FOLD64_STAGE1_BOUND * 256 ^ 7 - 1"

definition fold64_from :: "nat \<Rightarrow> nat ret" where
  "fold64_from v = (if v > FOLD64_MAX then errf ''Fold64 value exceeds max'' else Ok v)"

abbreviation (input) fold64_checked :: "nat \<Rightarrow> nat ret" where
  "fold64_checked v \<equiv> fold64_from v"

definition fold64_size :: "nat \<Rightarrow> nat" where
  "fold64_size v =
     (if v < FOLD64_STAGE1_BOUND then 1
      else let extra = bit_length v - 5 in 1 + (extra + 7) div 8)"

definition fold64_encode :: "nat \<Rightarrow> bytes" where
  "fold64_encode v =
     (let total_bytes = fold64_size v;
          head = push_bit 5 (of_nat (total_bytes - 1) :: u8);
          data = to_be_bytes 8 v;
          out = drop (8 - total_bytes) data
      in out[0 := (out ! 0 AND 31) OR head])"

definition fold64_decode :: "bytes \<Rightarrow> (nat \<times> nat) ret" where
  "fold64_decode buf =
     (case buf of
        [] \<Rightarrow> normalf ''buffer too short for Fold64''
      | bt # tail \<Rightarrow>
          let n = unat (drop_bit 5 bt) in
          if length buf < 1 + n then normalf ''Fold64 parse length''
          else
            let value = foldl (\<lambda>value b. push_bit 8 value OR unat b) (unat (bt AND 31)) (take n tail) in
            try_ret (fold64_from value) (\<lambda>fold.
            if fold64_size fold \<noteq> 1 + n then normalf ''Fold64 non-canonical size''
            else Ok (fold, 1 + n)))"

definition fold64_valid :: "nat \<Rightarrow> bool" where
  "fold64_valid v \<longleftrightarrow> v \<le> FOLD64_MAX"

subsection \<open>Satoshi amounts\<close>

definition SATOSHI_MAX :: nat where
  "SATOSHI_MAX = 21000000 * 100000000"

definition satoshi_from_fold64 :: "nat \<Rightarrow> nat ret" where
  "satoshi_from_fold64 value =
     (if value > SATOSHI_MAX then errf ''satoshi value exceeds max'' else Ok value)"

definition from_satoshi :: "nat \<Rightarrow> nat ret" where
  "from_satoshi satoshi = try_ret (fold64_from satoshi) satoshi_from_fold64"

definition check_satoshi :: "nat \<Rightarrow> unit ret" where
  "check_satoshi satoshi =
     (if satoshi > SATOSHI_MAX then errf ''satoshi value exceeds max'' else Ok ())"

definition satoshi_decode :: "bytes \<Rightarrow> (nat \<times> nat) ret" where
  "satoshi_decode buf =
     try_ret (fold64_decode buf) (\<lambda>(value, used).
     try_ret (satoshi_from_fold64 value) (\<lambda>v. Ok (v, used)))"

definition satoshi_valid :: "nat \<Rightarrow> bool" where
  "satoshi_valid v \<longleftrightarrow> v \<le> SATOSHI_MAX"

subsection \<open>Diamond counts\<close>

definition DIAMOND_NUMBER_MAX :: nat where
  "DIAMOND_NUMBER_MAX = uint_MAX 4 3"

definition to_diamond :: "nat \<Rightarrow> nat ret" where
  "to_diamond v =
     (if v > DIAMOND_NUMBER_MAX then errf ''diamond number exceeds max'' else uint_from 4 3 v)"

definition diamond_auto_decode :: "bytes \<Rightarrow> (nat \<times> nat) ret" where
  "diamond_auto_decode buf =
     try_ret (fold64_decode buf) (\<lambda>(value, used).
     try_ret (to_diamond value) (\<lambda>_. Ok (value, used)))"

definition diamond_auto_valid :: "nat \<Rightarrow> bool" where
  "diamond_auto_valid v \<longleftrightarrow> v \<le> DIAMOND_NUMBER_MAX"

section \<open>The size of a value\<close>

lemma fold64_bounds: "FOLD64_MAX < 32 * 256 ^ 7" "v \<le> FOLD64_MAX \<longleftrightarrow> v < 32 * 256 ^ 7"
  by (auto simp: FOLD64_MAX_def FOLD64_STAGE1_BOUND_def)

lemma fold64_size_le: "fold64_size v \<le> Suc k \<longleftrightarrow> v < 32 * 256 ^ k"
proof (cases "v < 32")
  case True
  have "32 * 1 \<le> 32 * (256 :: nat) ^ k" by (intro mult_le_mono) simp_all
  with True have "v < 32 * 256 ^ k" by linarith
  with True show ?thesis by (simp add: fold64_size_def FOLD64_STAGE1_BOUND_def)
next
  case False
  have "(32 :: nat) * 256 ^ k = 2 ^ (5 + 8 * k)" by (simp add: power_add power_mult)
  moreover have "(bit_length v - 5 + 7) div 8 \<le> k \<longleftrightarrow> bit_length v \<le> 5 + 8 * k" by linarith
  ultimately show ?thesis using False
    by (simp add: fold64_size_def FOLD64_STAGE1_BOUND_def bit_length_le)
qed

lemma fold64_size_pos: "1 \<le> fold64_size v"
  by (simp add: fold64_size_def)

lemma fold64_size_max: "fold64_valid v \<Longrightarrow> fold64_size v \<le> 8"
  using fold64_size_le [of v 7] by (simp add: fold64_valid_def fold64_bounds)

section \<open>Bits of the first byte\<close>

lemma head_byte:
  assumes "h < 32" and "k < 8"
  shows "unat ((of_nat h AND 31) OR push_bit 5 (of_nat k) :: u8) = h + 32 * k"
proof -
  have "\<forall>h<32. \<forall>k<8. unat ((of_nat h AND 31) OR push_bit 5 (of_nat k) :: u8) = h + 32 * k"
    by code_simp
  then show ?thesis using assms by blast
qed

lemma u8_split: "unat (drop_bit 5 (b :: u8)) = unat b div 32" "unat (b AND 31) = unat b mod 32"
proof -
  show "unat (drop_bit 5 b) = unat b div 32"
    by (simp add: drop_bit_eq_div unat_div)
  have "b AND 31 = take_bit 5 b" by (simp add: take_bit_eq_mask mask_eq_exp_minus_1)
  then show "unat (b AND 31) = unat b mod 32" by (simp add: take_bit_eq_mod unat_mod)
qed

lemma push_or: "n < 256 \<Longrightarrow> push_bit 8 v OR n = v * 256 + (n :: nat)"
proof -
  assume "n < 256"
  then have n: "take_bit 8 n = n" by (simp add: take_bit_nat_eq_self_iff)
  have "\<not> bit (push_bit 8 v) i \<or> \<not> bit n i" for i
    by (subst n [symmetric]) (auto simp: bit_push_bit_iff bit_take_bit_iff)
  then have "push_bit 8 v + n = push_bit 8 v OR n" by (intro disjunctive_add) simp
  then show ?thesis by (simp add: push_bit_eq_mult)
qed

lemma fold_bytes: "foldl (\<lambda>value b. push_bit 8 value OR unat b) v bs = v * 256 ^ length bs + be_nat bs"
  by (induction bs arbitrary: v) (simp_all add: push_or algebra_simps)

section \<open>Encoding and decoding\<close>

lemma fold64_encode_eq:
  assumes "fold64_valid v" and "fold64_size v = Suc k"
  shows "fold64_encode v =
    ((of_nat (v div 256 ^ k) AND 31) OR push_bit 5 (of_nat k)) # to_be_bytes k v"
proof -
  have "Suc k \<le> 8" using fold64_size_max [OF assms(1)] assms(2) by simp
  from drop_to_be_bytes [OF this, of v] show ?thesis
    by (simp only: fold64_encode_def assms(2) Let_def to_be_bytes.simps diff_Suc_1
        list_update.simps nth_Cons_0 nat.case)
qed

lemma fold64_decode_Cons:
  assumes "unat bt = h + 32 * k" and "h < 32"
  shows "fold64_decode (bt # tail) =
    (if length tail < k then normalf ''Fold64 parse length''
     else try_ret (fold64_from (h * 256 ^ k + be_nat (take k tail))) (\<lambda>fold.
       if fold64_size fold \<noteq> Suc k then normalf ''Fold64 non-canonical size'' else Ok (fold, 1 + k)))"
proof -
  have "unat (drop_bit 5 bt) = k" "unat (bt AND 31) = h" using assms by (simp_all add: u8_split)
  then show ?thesis by (simp add: fold64_decode_def fold_bytes Let_def)
qed

lemma fold64_high:
  assumes "fold64_size v = Suc k"
  shows "v div 256 ^ k < 32"
proof -
  have "v < 32 * 256 ^ k" using assms fold64_size_le [of v k] by simp
  then show ?thesis by (simp add: less_mult_imp_div_less)
qed

interpretation fold64: codec fold64_valid fold64_size fold64_encode fold64_decode
proof
  fix x rest
  assume v: "fold64_valid x"
  obtain k where k: "fold64_size x = Suc k" using fold64_size_pos [of x] by (cases "fold64_size x") auto
  have k8: "k < 8" using fold64_size_max [OF v] k by simp
  note enc = fold64_encode_eq [OF v k] and hi = fold64_high [OF k]
  show "fold64_size x = length (fold64_encode x)" by (simp add: enc k)
  have "x div 256 ^ k * 256 ^ k + be_nat (to_be_bytes k x) = x"
    by (simp only: be_nat_to_be_bytes div_mult_mod_eq)
  then show "fold64_decode (fold64_encode x @ rest) = Ok (x, length (fold64_encode x))"
    using v unfolding enc append_Cons fold64_decode_Cons [OF head_byte [OF hi k8] hi]
    by (simp add: fold64_from_def fold64_valid_def k)
next
  fix buf x n
  assume dec: "fold64_decode buf = Ok (x, n)"
  then obtain bt tail where buf: "buf = bt # tail" by (cases buf) (auto simp: fold64_decode_def)
  let ?k = "unat bt div 32"
  have bt: "unat bt = unat bt mod 32 + 32 * ?k" by simp
  from dec have len: "?k \<le> length tail" and x: "x = unat bt mod 32 * 256 ^ ?k + be_nat (take ?k tail)"
    and v: "fold64_valid x" and sz: "fold64_size x = Suc ?k" and n: "n = Suc ?k"
    unfolding buf fold64_decode_Cons [OF bt mod_less_divisor [OF zero_less_numeral]]
    by (auto simp: fold64_from_def fold64_valid_def split: if_splits)
  have less: "be_nat (take ?k tail) < 256 ^ ?k" using be_nat_less [of "take ?k tail"] len by simp
  have d: "x div 256 ^ ?k = unat bt mod 32" using less by (simp add: x)
  have k8: "?k < 8" using unat_u8_less [of bt] by linarith
  have "unat ((of_nat (x div 256 ^ ?k) AND 31) OR push_bit 5 (of_nat ?k) :: u8) = unat bt"
    unfolding d by (subst head_byte) (use k8 in simp_all)
  then have "(of_nat (x div 256 ^ ?k) AND 31) OR push_bit 5 (of_nat ?k) = bt" by (simp only: u8_eq_iff)
  moreover have "to_be_bytes ?k x = take ?k tail"
    using to_be_bytes_mod [of ?k x] less len to_be_bytes_be_nat [of "take ?k tail"]
    by (simp add: x)
  ultimately have enc: "fold64_encode x = bt # take ?k tail" by (simp only: fold64_encode_eq [OF v sz])
  show "fold64_valid x \<and> n = length (fold64_encode x) \<and> (\<exists>rest. buf = fold64_encode x @ rest)"
    using v len by (auto simp: enc n buf intro: exI [of _ "drop ?k tail"])
qed

lemma SATOSHI_MAX_le: "SATOSHI_MAX \<le> FOLD64_MAX"
  by (simp add: SATOSHI_MAX_def FOLD64_MAX_def FOLD64_STAGE1_BOUND_def)

lemma DIAMOND_NUMBER_MAX_eq: "DIAMOND_NUMBER_MAX = 16777215"
  by (simp add: DIAMOND_NUMBER_MAX_def uint_MAX_eq)

lemma satoshi_valid_fold64: "satoshi_valid v \<Longrightarrow> fold64_valid v"
  using SATOSHI_MAX_le by (simp add: satoshi_valid_def fold64_valid_def)

lemma diamond_valid_fold64: "diamond_auto_valid v \<Longrightarrow> fold64_valid v"
  by (simp add: diamond_auto_valid_def fold64_valid_def DIAMOND_NUMBER_MAX_eq FOLD64_MAX_def
      FOLD64_STAGE1_BOUND_def)

lemma to_diamond_eq: "to_diamond v =
  (if diamond_auto_valid v then Ok v else errf ''diamond number exceeds max'')"
  by (auto simp: to_diamond_def diamond_auto_valid_def uint_from_def DIAMOND_NUMBER_MAX_def)

lemma from_satoshi_eq: "v \<le> FOLD64_MAX \<Longrightarrow> from_satoshi v =
  (if satoshi_valid v then Ok v else errf ''satoshi value exceeds max'')"
  by (auto simp: from_satoshi_def fold64_from_def satoshi_from_fold64_def satoshi_valid_def)

lemma from_satoshi_Ok [simp]: "from_satoshi v = Ok w \<longleftrightarrow> satoshi_valid v \<and> w = v"
  using SATOSHI_MAX_le
  by (auto simp: from_satoshi_def fold64_from_def satoshi_from_fold64_def satoshi_valid_def)

interpretation satoshi: codec satoshi_valid fold64_size fold64_encode satoshi_decode
proof
  fix x rest
  assume v: "satoshi_valid x"
  show "fold64_size x = length (fold64_encode x)"
    using fold64.size_encode satoshi_valid_fold64 [OF v] by simp
  show "satoshi_decode (fold64_encode x @ rest) = Ok (x, length (fold64_encode x))"
    using v satoshi_valid_fold64 [OF v]
    by (simp add: satoshi_decode_def fold64.decode_encode satoshi_from_fold64_def satoshi_valid_def)
next
  fix buf x n
  assume "satoshi_decode buf = Ok (x, n)"
  then have "fold64_decode buf = Ok (x, n)" "satoshi_valid x"
    by (auto simp: satoshi_decode_def satoshi_from_fold64_def satoshi_valid_def split: if_splits)
  then show "satoshi_valid x \<and> n = length (fold64_encode x) \<and> (\<exists>rest. buf = fold64_encode x @ rest)"
    using fold64.decode_sound by blast
qed

interpretation diamond_auto: codec diamond_auto_valid fold64_size fold64_encode diamond_auto_decode
proof
  fix x rest
  assume v: "diamond_auto_valid x"
  show "fold64_size x = length (fold64_encode x)"
    using fold64.size_encode diamond_valid_fold64 [OF v] by simp
  show "diamond_auto_decode (fold64_encode x @ rest) = Ok (x, length (fold64_encode x))"
    using v diamond_valid_fold64 [OF v]
    by (simp add: diamond_auto_decode_def fold64.decode_encode to_diamond_eq)
next
  fix buf x n
  assume "diamond_auto_decode buf = Ok (x, n)"
  then have "fold64_decode buf = Ok (x, n)" "diamond_auto_valid x"
    by (auto simp: diamond_auto_decode_def to_diamond_eq split: if_splits)
  then show "diamond_auto_valid x \<and> n = length (fold64_encode x) \<and> (\<exists>rest. buf = fold64_encode x @ rest)"
    using fold64.decode_sound by blast
qed

end
