(* ===== verification/Address.thy ===== *)
theory Address
  imports Codec
begin

text \<open>
  Addresses (\<^verbatim>\<open>src/field/src/types/address.rs\<close>) and references to them
  (\<^verbatim>\<open>addr_or_ptr.rs\<close>). An address is its 21 bytes; the first one is the version. The
  base58check conversions come from a third-party crate and are parameters of
  \<open>from_readable\<close> and \<open>to_readable\<close>.
\<close>

section \<open>Definitions\<close>

type_synonym address = bytes

definition ADDRESS_SIZE :: nat where
  "ADDRESS_SIZE = 21"

abbreviation (input) VERSION_PRIVAKEY :: u8 where "VERSION_PRIVAKEY \<equiv> 0"
abbreviation (input) VERSION_CONTRACT :: u8 where "VERSION_CONTRACT \<equiv> 1"
abbreviation (input) VERSION_SCRIPTMH :: u8 where "VERSION_SCRIPTMH \<equiv> 5"

definition UNKNOWN_PRIVKEY_PREFIX_SIZE :: nat where
  "UNKNOWN_PRIVKEY_PREFIX_SIZE = ADDRESS_SIZE - 4"

definition addr_default :: address where
  "addr_default = replicate ADDRESS_SIZE 0"

definition version :: "address \<Rightarrow> u8" where
  "version a = a ! 0"

definition is_supported :: "address \<Rightarrow> bool" where
  "is_supported a \<longleftrightarrow> version a \<in> {VERSION_PRIVAKEY, VERSION_CONTRACT, VERSION_SCRIPTMH}"

definition is_privkey :: "address \<Rightarrow> bool" where
  "is_privkey a \<longleftrightarrow> version a = VERSION_PRIVAKEY"

definition is_privkey_unknown :: "address \<Rightarrow> bool" where
  "is_privkey_unknown a \<longleftrightarrow>
     (if \<not> is_privkey a then False
      else
        let tail = drop UNKNOWN_PRIVKEY_PREFIX_SIZE a in
        list_all (\<lambda>x. x = 0) (take UNKNOWN_PRIVKEY_PREFIX_SIZE a) \<and> be_nat tail < u32_max)"

definition is_contract :: "address \<Rightarrow> bool" where
  "is_contract a \<longleftrightarrow> version a = VERSION_CONTRACT"

definition is_scriptmh :: "address \<Rightarrow> bool" where
  "is_scriptmh a \<longleftrightarrow> version a = VERSION_SCRIPTMH"

definition must_privkey :: "address \<Rightarrow> unit ret" where
  "must_privkey a = (if is_privkey a then Ok () else errf ''address must be PRIVAKEY type'')"

definition must_scriptmh :: "address \<Rightarrow> unit ret" where
  "must_scriptmh a = (if is_scriptmh a then Ok () else errf ''address must be SCRIPTMH type'')"

definition addr_from_readable :: "(string \<Rightarrow> (u8 \<times> bytes) option) \<Rightarrow> string \<Rightarrow> address ret" where
  "addr_from_readable from_base58check addr =
     try_ret (ok_or (from_base58check addr) (Error Fault ''base58check failed'' None)) (\<lambda>(ver, body).
     if length body \<noteq> ADDRESS_SIZE - 1 then errf ''address body length invalid''
     else
       let address = ver # body in
       if \<not> is_supported address then errf ''address version not supported''
       else Ok address)"

definition addr_to_readable :: "(u8 \<Rightarrow> bytes \<Rightarrow> string) \<Rightarrow> address \<Rightarrow> string" where
  "addr_to_readable to_base58check a = to_base58check (version a) (drop 1 a)"

definition addr_size :: "address \<Rightarrow> nat" where
  "addr_size a = fixed_size ADDRESS_SIZE a"

definition addr_encode :: "address \<Rightarrow> bytes" where
  "addr_encode a = fixed_encode a"

definition addr_decode :: "bytes \<Rightarrow> (address \<times> nat) ret" where
  "addr_decode buf =
     (if length buf < ADDRESS_SIZE then normalf ''buffer too short for Address''
      else
        try_ret (fixed_decode ADDRESS_SIZE buf) (\<lambda>(address, used).
        if \<not> is_supported address then normalf ''address version invalid''
        else Ok (address, used)))"

definition addr_valid :: "address \<Rightarrow> bool" where
  "addr_valid a \<longleftrightarrow> length a = ADDRESS_SIZE \<and> is_supported a"

subsection \<open>An address or a pointer into the address list\<close>

datatype AddrOrPtr = Addr address | Ptr u8

definition ADDR_REF_MARKER_BASE :: u8 where
  "ADDR_REF_MARKER_BASE = 20"

definition MAX_INDEX :: u8 where
  "MAX_INDEX = 255 - ADDR_REF_MARKER_BASE"

definition from_ptr :: "u8 \<Rightarrow> AddrOrPtr ret" where
  "from_ptr index = (if index \<le> MAX_INDEX then Ok (Ptr index) else panicf ''AddrOrPtr index overflow'')"

definition real_addr :: "AddrOrPtr \<Rightarrow> address list \<Rightarrow> address ret" where
  "real_addr p addrs =
     (case p of
        Addr addr \<Rightarrow> Ok addr
      | Ptr index \<Rightarrow>
          if unat index < length addrs then Ok (addrs ! unat index)
          else errf ''addr ptr index out of range'')"

definition aop_size :: "AddrOrPtr \<Rightarrow> nat" where
  "aop_size p = (case p of Addr addr \<Rightarrow> addr_size addr | Ptr _ \<Rightarrow> 1)"

definition aop_encode :: "AddrOrPtr \<Rightarrow> bytes" where
  "aop_encode p =
     (case p of Addr addr \<Rightarrow> addr_encode addr | Ptr index \<Rightarrow> [index + ADDR_REF_MARKER_BASE])"

definition aop_decode :: "bytes \<Rightarrow> (AddrOrPtr \<times> nat) ret" where
  "aop_decode buf =
     (case buf of
        [] \<Rightarrow> normalf ''buffer too short for AddrOrPtr''
      | first # _ \<Rightarrow>
          if first < ADDR_REF_MARKER_BASE then
            try_ret (addr_decode buf) (\<lambda>(addr, used). Ok (Addr addr, used))
          else Ok (Ptr (first - ADDR_REF_MARKER_BASE), 1))"

definition aop_valid :: "AddrOrPtr \<Rightarrow> bool" where
  "aop_valid p = (case p of Addr addr \<Rightarrow> addr_valid addr | Ptr index \<Rightarrow> index \<le> MAX_INDEX)"

lemmas addr_defs [codec_defs] = addr_size_def addr_encode_def addr_decode_def addr_valid_def

section \<open>Codecs\<close>

lemma addr_fixed: "codec (fixed_valid ADDRESS_SIZE) (fixed_size ADDRESS_SIZE) fixed_encode (fixed_decode ADDRESS_SIZE)"
  by (rule fixed_codec)

interpretation addr: codec addr_valid addr_size addr_encode addr_decode
proof
  fix x rest
  assume v: "addr_valid x"
  then have f: "fixed_valid ADDRESS_SIZE x" by (simp add: addr_valid_def fixed_valid_def)
  show "addr_size x = length (addr_encode x)"
    using codec.size_encode [OF addr_fixed f] by (simp add: addr_size_def addr_encode_def)
  show "addr_decode (addr_encode x @ rest) = Ok (x, length (addr_encode x))"
    using codec.decode_encode [OF addr_fixed f] v
    by (simp add: addr_decode_def addr_encode_def addr_valid_def) (simp add: fixed_encode_def)
next
  fix buf x n
  assume "addr_decode buf = Ok (x, n)"
  then have d: "fixed_decode ADDRESS_SIZE buf = Ok (x, n)" and s: "is_supported x"
    by (auto simp: addr_decode_def split: if_splits)
  from codec.decode_sound [OF addr_fixed d] s
  show "addr_valid x \<and> n = length (addr_encode x) \<and> (\<exists>rest. buf = addr_encode x @ rest)"
    by (simp add: addr_valid_def addr_encode_def fixed_valid_def)
qed

lemma version_lt_marker: "is_supported a \<Longrightarrow> version a < ADDR_REF_MARKER_BASE"
  by (auto simp: is_supported_def ADDR_REF_MARKER_BASE_def)

lemma ptr_marker:
  "index \<le> MAX_INDEX \<Longrightarrow> \<not> index + ADDR_REF_MARKER_BASE < ADDR_REF_MARKER_BASE"
  by (simp add: MAX_INDEX_def ADDR_REF_MARKER_BASE_def word_less_nat_alt word_le_nat_alt unat_word_ariths)

lemma ptr_unmarker:
  "\<not> first < ADDR_REF_MARKER_BASE \<Longrightarrow> first - ADDR_REF_MARKER_BASE \<le> MAX_INDEX"
  using unat_sub [of ADDR_REF_MARKER_BASE first]
  by (simp add: MAX_INDEX_def ADDR_REF_MARKER_BASE_def word_less_nat_alt word_le_nat_alt)
    (use unat_u8_less [of first] in linarith)

interpretation aop: codec aop_valid aop_size aop_encode aop_decode
proof
  fix x rest
  assume v: "aop_valid x"
  show "aop_size x = length (aop_encode x)"
    using v by (cases x) (auto simp: aop_size_def aop_encode_def aop_valid_def addr.size_encode)
  show "aop_decode (aop_encode x @ rest) = Ok (x, length (aop_encode x))"
  proof (cases x)
    case (Addr a)
    with v have a: "addr_valid a" by (simp add: aop_valid_def)
    then obtain b t where ab: "addr_encode a @ rest = b # t" "b = version a"
      by (cases a) (auto simp: addr_encode_def fixed_encode_def addr_valid_def ADDRESS_SIZE_def version_def)
    then show ?thesis
      using addr.decode_encode [OF a, of rest] a version_lt_marker [of a] Addr
      by (simp add: aop_decode_def aop_encode_def addr_valid_def)
  next
    case (Ptr i)
    with v ptr_marker [of i] show ?thesis
      by (simp add: aop_decode_def aop_encode_def aop_valid_def)
  qed
next
  fix buf x n
  assume d: "aop_decode buf = Ok (x, n)"
  then obtain b t where buf: "buf = b # t" by (cases buf) (auto simp: aop_decode_def)
  show "aop_valid x \<and> n = length (aop_encode x) \<and> (\<exists>rest. buf = aop_encode x @ rest)"
  proof (cases "b < ADDR_REF_MARKER_BASE")
    case True
    with d buf obtain a where "addr_decode buf = Ok (a, n)" and x: "x = Addr a"
      by (auto simp: aop_decode_def)
    from addr.decode_sound [OF this(1)] x show ?thesis by (simp add: aop_valid_def aop_encode_def)
  next
    case False
    with d buf have "x = Ptr (b - ADDR_REF_MARKER_BASE)" "n = 1" by (auto simp: aop_decode_def)
    with buf ptr_unmarker [OF False] show ?thesis by (auto simp: aop_valid_def aop_encode_def)
  qed
qed

section \<open>Facts the ledger uses\<close>

lemma addr_default_valid [simp]: "addr_valid addr_default"
  by (simp add: addr_valid_def addr_default_def is_supported_def version_def ADDRESS_SIZE_def)

lemma addr_default_unknown: "is_privkey_unknown addr_default"
  by (simp add: is_privkey_unknown_def is_privkey_def version_def addr_default_def ADDRESS_SIZE_def
      UNKNOWN_PRIVKEY_PREFIX_SIZE_def list_all_iff)

lemma finite_addr: "finite {a. addr_valid a}"
  by (rule finite_subset [OF _ finite_lists_length_eq [of "UNIV :: u8 set" ADDRESS_SIZE]])
    (auto simp: addr_valid_def)

lemma addr_encode_id: "addr_encode a = a"
  by (simp add: addr_encode_def fixed_encode_def)

lemma addr_readable_round_trip:
  assumes "addr_valid a" and "\<And>v b. length b = ADDRESS_SIZE - 1 \<Longrightarrow> dec (enc v b) = Some (v, b)"
  shows "addr_from_readable dec (addr_to_readable enc a) = Ok a"
proof -
  from assms(1) obtain v b where a: "a = v # b" "length b = ADDRESS_SIZE - 1"
    by (cases a) (auto simp: addr_valid_def ADDRESS_SIZE_def)
  with assms show ?thesis
    by (simp add: addr_from_readable_def addr_to_readable_def addr_valid_def version_def)
qed

end
