(* ===== verification/Balance.thy ===== *)
theory Balance
  imports Fold64 Address
begin

text \<open>
  Asset amounts (\<^verbatim>\<open>src/field/src/types/asset.rs\<close>) and account balances
  (\<^verbatim>\<open>balance.rs\<close>): the records, the checked arithmetic of one asset, the asset list of a
  balance with its limit of twenty distinct serials, and the wire forms.
\<close>

section \<open>Asset amounts\<close>

record asset_amt =
  aa_serial :: nat
  aa_amount :: nat

definition aa_size :: "asset_amt \<Rightarrow> nat" where
  "aa_size a = fold64_size (aa_serial a) + fold64_size (aa_amount a)"

definition aa_encode :: "asset_amt \<Rightarrow> bytes" where
  "aa_encode a = fold64_encode (aa_serial a) @ fold64_encode (aa_amount a)"

definition aa_checked :: "asset_amt \<Rightarrow> asset_amt ret" where
  "aa_checked a =
     (if aa_serial a = 0 then errf ''AssetAmt.serial cannot be zero''
      else
        try_ret (fold64_checked (aa_serial a)) (\<lambda>serial.
        try_ret (fold64_checked (aa_amount a)) (\<lambda>amount.
        Ok \<lparr>aa_serial = serial, aa_amount = amount\<rparr>)))"

definition aa_decode :: "bytes \<Rightarrow> (asset_amt \<times> nat) ret" where
  "aa_decode buf =
     try_ret (reader_read fold64_decode (reader_new buf)) (\<lambda>(serial, reader).
     try_ret (reader_read fold64_decode reader) (\<lambda>(amount, reader).
     try_ret (aa_checked \<lparr>aa_serial = serial, aa_amount = amount\<rparr>) (\<lambda>asset.
     Ok (asset, reader_used reader))))"

definition aa_from_serial :: "nat \<Rightarrow> asset_amt ret" where
  "aa_from_serial serial = aa_checked \<lparr>aa_serial = serial, aa_amount = 0\<rparr>"

definition aa_checked_add :: "asset_amt \<Rightarrow> asset_amt \<Rightarrow> asset_amt ret" where
  "aa_checked_add a b =
     (if aa_serial a \<noteq> aa_serial b then errf ''cannot add asset''
      else
        try_ret (ok_or (checked_add 64 (aa_amount a) (aa_amount b))
                   (Error Fault ''asset amount add overflow'' None)) (\<lambda>amount.
        try_ret (fold64_from amount) (\<lambda>amount.
        aa_checked \<lparr>aa_serial = aa_serial a, aa_amount = amount\<rparr>)))"

definition aa_checked_sub :: "asset_amt \<Rightarrow> asset_amt \<Rightarrow> asset_amt ret" where
  "aa_checked_sub a b =
     (if aa_serial a \<noteq> aa_serial b then errf ''cannot sub asset''
      else
        try_ret (ok_or (checked_sub (aa_amount a) (aa_amount b))
                   (Error Revert ''asset amount is insufficient'' None)) (\<lambda>amount.
        try_ret (fold64_from amount) (\<lambda>amount.
        aa_checked \<lparr>aa_serial = aa_serial a, aa_amount = amount\<rparr>)))"

definition aa_partial_cmp :: "asset_amt \<Rightarrow> asset_amt \<Rightarrow> Ordering option" where
  "aa_partial_cmp a b =
     (if aa_serial a \<noteq> aa_serial b then None else Some (cmp_of (aa_amount a) (aa_amount b)))"

text \<open>The operators \<^verbatim>\<open><\<close> and \<^verbatim>\<open>>=\<close> that Rust derives from a partial order.\<close>

definition aa_less :: "asset_amt \<Rightarrow> asset_amt \<Rightarrow> bool" where
  "aa_less a b \<longleftrightarrow> aa_partial_cmp a b = Some Less"

definition aa_ge :: "asset_amt \<Rightarrow> asset_amt \<Rightarrow> bool" where
  "aa_ge a b \<longleftrightarrow> aa_partial_cmp a b \<in> {Some Greater, Some Equal}"

definition aa_valid :: "asset_amt \<Rightarrow> bool" where
  "aa_valid a \<longleftrightarrow> 0 < aa_serial a \<and> aa_serial a \<le> FOLD64_MAX \<and> aa_amount a \<le> FOLD64_MAX"

section \<open>Balances\<close>

definition BALANCE_ASSET_MAX :: nat where
  "BALANCE_ASSET_MAX = 20"

record balance =
  bal_hacash :: amount
  bal_satoshi :: nat
  bal_diamond :: nat
  bal_assets :: "asset_amt list"

definition bal_default :: balance where
  "bal_default = \<lparr>bal_hacash = amt_zero, bal_satoshi = 0, bal_diamond = 0, bal_assets = []\<rparr>"

definition bal_size :: "balance \<Rightarrow> nat" where
  "bal_size b =
     amt_size (bal_hacash b) + fold64_size (bal_satoshi b) + fold64_size (bal_diamond b)
     + listw_size 1 aa_size (bal_assets b)"

definition bal_encode :: "balance \<Rightarrow> bytes" where
  "bal_encode b =
     amt_encode (bal_hacash b) @ fold64_encode (bal_satoshi b) @ fold64_encode (bal_diamond b)
     @ listw_encode 1 aa_encode (bal_assets b)"

primrec check_assets_loop :: "nat list \<Rightarrow> asset_amt list \<Rightarrow> unit ret" where
  "check_assets_loop seen [] = Ok ()"
| "check_assets_loop seen (asset # rest) =
     try_ret (aa_checked asset) (\<lambda>_.
     if aa_serial asset \<in> set seen then errf ''balance asset serial duplicated''
     else check_assets_loop (seen @ [aa_serial asset]) rest)"

definition check_assets :: "asset_amt list \<Rightarrow> unit ret" where
  "check_assets assets =
     (if length assets > BALANCE_ASSET_MAX then errf ''balance asset item quantity cannot exceed''
      else check_assets_loop [] assets)"

definition bal_decode :: "bytes \<Rightarrow> (balance \<times> nat) ret" where
  "bal_decode buf =
     try_ret (reader_read amt_decode (reader_new buf)) (\<lambda>(hacash, r).
     try_ret (reader_read satoshi_decode r) (\<lambda>(satoshi, r).
     try_ret (reader_read diamond_auto_decode r) (\<lambda>(diamond, r).
     try_ret (reader_read (listw_decode 1 aa_decode) r) (\<lambda>(assets, r).
     try_ret (check_assets assets) (\<lambda>_.
     Ok (\<lparr>bal_hacash = hacash, bal_satoshi = satoshi, bal_diamond = diamond, bal_assets = assets\<rparr>,
         reader_used r))))))"

definition bal_asset :: "balance \<Rightarrow> nat \<Rightarrow> asset_amt option" where
  "bal_asset b serial = find (\<lambda>a. aa_serial a = serial) (bal_assets b)"

definition asset_must :: "balance \<Rightarrow> nat \<Rightarrow> asset_amt ret" where
  "asset_must b serial = (case bal_asset b serial of Some v \<Rightarrow> Ok v | None \<Rightarrow> aa_from_serial serial)"

primrec asset_replace :: "asset_amt \<Rightarrow> asset_amt list \<Rightarrow> asset_amt list option" where
  "asset_replace amt [] = None"
| "asset_replace amt (a # as) =
     (if aa_serial a = aa_serial amt then Some (if aa_amount amt = 0 then as else amt # as)
      else map_option (\<lambda>as'. a # as') (asset_replace amt as))"

definition asset_set :: "balance \<Rightarrow> asset_amt \<Rightarrow> balance ret" where
  "asset_set b amt =
     try_ret (if aa_amount amt = 0 then Ok amt else aa_checked amt) (\<lambda>amt.
     case asset_replace amt (bal_assets b) of
       Some assets \<Rightarrow> Ok (b\<lparr>bal_assets := assets\<rparr>)
     | None \<Rightarrow>
         if aa_amount amt \<noteq> 0 then
           if length (bal_assets b) \<ge> BALANCE_ASSET_MAX
           then errf ''balance asset item quantity cannot exceed''
           else try_ret (listw_push 1 (bal_assets b) amt) (\<lambda>assets. Ok (b\<lparr>bal_assets := assets\<rparr>))
         else Ok b)"

definition bal_valid :: "balance \<Rightarrow> bool" where
  "bal_valid b \<longleftrightarrow>
     amt_valid (bal_hacash b) \<and> satoshi_valid (bal_satoshi b) \<and> diamond_auto_valid (bal_diamond b) \<and>
     length (bal_assets b) \<le> BALANCE_ASSET_MAX \<and> (\<forall>a\<in>set (bal_assets b). aa_valid a) \<and>
     distinct (map aa_serial (bal_assets b))"

section \<open>Asset amounts: checks and arithmetic\<close>

lemma aa_checked_eq: "aa_checked a = Ok b \<longleftrightarrow> aa_valid a \<and> b = a"
  by (auto simp: aa_checked_def aa_valid_def fold64_from_def split: if_splits)

lemma aa_checked_valid: "aa_valid a \<Longrightarrow> aa_checked a = Ok a"
  by (simp add: aa_checked_eq)

lemma fold64_max_u64: "FOLD64_MAX + FOLD64_MAX < 2 ^ 64"
  by (simp add: FOLD64_MAX_def FOLD64_STAGE1_BOUND_def)

lemma aa_checked_add_eq:
  assumes "aa_valid a" "aa_valid b" "aa_serial a = aa_serial b"
  shows "aa_checked_add a b =
    (if aa_amount a + aa_amount b \<le> FOLD64_MAX then Ok (a\<lparr>aa_amount := aa_amount a + aa_amount b\<rparr>)
     else errf ''Fold64 value exceeds max'')"
proof -
  have "aa_amount a + aa_amount b < 2 ^ 64" using assms fold64_max_u64 by (simp add: aa_valid_def)
  with assms show ?thesis
    by (auto simp: aa_checked_add_def checked_add_def fold64_from_def aa_checked_def aa_valid_def)
qed

lemma aa_checked_sub_eq:
  assumes "aa_valid a" "aa_valid b" "aa_serial a = aa_serial b"
  shows "aa_checked_sub a b =
    (if aa_amount b \<le> aa_amount a then Ok (a\<lparr>aa_amount := aa_amount a - aa_amount b\<rparr>)
     else revertf ''asset amount is insufficient'')"
  using assms
  by (auto simp: aa_checked_sub_def checked_sub_def fold64_from_def aa_checked_def aa_valid_def)

lemma aa_add_sub: "aa_checked_add a b = Ok c \<Longrightarrow> aa_checked_sub c b = Ok a"
  by (auto simp: aa_checked_add_def aa_checked_sub_def checked_sub_def aa_checked_def fold64_from_def
      split: if_splits)

interpretation asset_amt: codec aa_valid aa_size aa_encode aa_decode
proof
  fix x rest
  assume v: "aa_valid x"
  then have f: "fold64_valid (aa_serial x)" "fold64_valid (aa_amount x)"
    by (simp_all add: aa_valid_def fold64_valid_def)
  then show "aa_size x = length (aa_encode x)"
    by (simp add: aa_size_def aa_encode_def fold64.size_encode)
  show "aa_decode (aa_encode x @ rest) = Ok (x, length (aa_encode x))"
    using v f by (cases x) (simp add: aa_decode_def aa_encode_def reader_new_at fold64.read_ok aa_checked_valid)
next
  fix buf x n
  assume "aa_decode buf = Ok (x, n)"
  then show "aa_valid x \<and> n = length (aa_encode x) \<and> (\<exists>rest. buf = aa_encode x @ rest)"
    by (auto simp: aa_decode_def reader_new_at aa_encode_def aa_checked_eq elim!: fold64.read_inv)
qed

interpretation asset_list: codec "listw_valid 1 aa_valid" "listw_size 1 aa_size"
  "listw_encode 1 aa_encode" "listw_decode 1 aa_decode"
  by (rule asset_amt.listw_codec) simp

section \<open>Balances: the asset list\<close>

lemma check_assets_loop_eq:
  "check_assets_loop seen as = Ok () \<longleftrightarrow>
   (\<forall>a\<in>set as. aa_valid a) \<and> distinct (map aa_serial as) \<and> set seen \<inter> aa_serial ` set as = {}"
  by (induction as arbitrary: seen) (auto simp: aa_checked_eq)

lemma check_assets_eq:
  "check_assets as = Ok () \<longleftrightarrow>
   length as \<le> BALANCE_ASSET_MAX \<and> (\<forall>a\<in>set as. aa_valid a) \<and> distinct (map aa_serial as)"
  by (simp add: check_assets_def check_assets_loop_eq)

text \<open>How much of an asset a balance holds.\<close>

definition asset_held :: "balance \<Rightarrow> nat \<Rightarrow> nat" where
  "asset_held b serial = (case bal_asset b serial of Some a \<Rightarrow> aa_amount a | None \<Rightarrow> 0)"

lemma find_snoc:
  "find P (xs @ [x]) = (case find P xs of Some y \<Rightarrow> Some y | None \<Rightarrow> if P x then Some x else None)"
  by (induction xs) auto

lemma find_serial_None: "find (\<lambda>a. aa_serial a = s) as = None \<longleftrightarrow> s \<notin> aa_serial ` set as"
  by (auto simp: find_None_iff image_iff)

lemma find_asset_replace:
  assumes "asset_replace amt as = Some as'" and "distinct (map aa_serial as)"
  shows "find (\<lambda>a. aa_serial a = s) as' =
    (if s = aa_serial amt then (if aa_amount amt = 0 then None else Some amt)
     else find (\<lambda>a. aa_serial a = s) as)"
  using assms
proof (induction as arbitrary: as')
  case (Cons a as)
  have "find (\<lambda>x. aa_serial x = aa_serial a) as = None"
    using Cons.prems(2) by (simp add: find_serial_None)
  with Cons show ?case by (auto split: if_splits)
qed simp

lemma asset_replace_set:
  "asset_replace amt as = Some as' \<Longrightarrow> set as' \<subseteq> insert amt (set as) \<and> length as' \<le> length as"
  by (induction as arbitrary: as') (auto split: if_splits)

lemma asset_replace_serials:
  "asset_replace amt as = Some as' \<Longrightarrow> aa_serial ` set as' \<subseteq> aa_serial ` set as"
  by (induction as arbitrary: as') (auto split: if_splits, force+)

lemma asset_replace_distinct:
  "asset_replace amt as = Some as' \<Longrightarrow> distinct (map aa_serial as) \<Longrightarrow> distinct (map aa_serial as')"
proof (induction as arbitrary: as')
  case (Cons a as)
  then show ?case
    using asset_replace_serials [of amt as] by (force split: if_splits)
qed simp

lemma asset_replace_None: "asset_replace amt as = None \<longleftrightarrow> aa_serial amt \<notin> aa_serial ` set as"
  by (induction as) auto

lemma asset_replace_zero:
  "asset_replace amt as = Some as' \<Longrightarrow> aa_amount amt = 0 \<Longrightarrow> set as' \<subseteq> set as"
  by (induction as arbitrary: as') (auto split: if_splits)

lemma asset_set_spec:
  assumes set: "asset_set b amt = Ok b'" and v: "bal_valid b"
  shows "bal_valid b'"
    and "asset_held b' s = (if s = aa_serial amt then aa_amount amt else asset_held b s)"
    and "bal_hacash b' = bal_hacash b" and "bal_satoshi b' = bal_satoshi b"
    and "bal_diamond b' = bal_diamond b"
proof -
  from v have d: "distinct (map aa_serial (bal_assets b))" by (simp add: bal_valid_def)
  have chk: "aa_amount amt = 0 \<or> aa_valid amt"
    using set by (auto simp: asset_set_def aa_checked_eq split: if_splits)
  have "bal_valid b' \<and> asset_held b' s = (if s = aa_serial amt then aa_amount amt else asset_held b s) \<and>
    bal_hacash b' = bal_hacash b \<and> bal_satoshi b' = bal_satoshi b \<and> bal_diamond b' = bal_diamond b"
  proof (cases "asset_replace amt (bal_assets b)")
    case (Some as)
    then have b': "b' = b\<lparr>bal_assets := as\<rparr>"
      using set by (auto simp: asset_set_def aa_checked_eq split: if_splits)
    have "\<forall>a\<in>set as. aa_valid a"
      using asset_replace_set [OF Some] asset_replace_zero [OF Some] chk v
      by (auto simp: bal_valid_def)
    with find_asset_replace [OF Some d, of s] asset_replace_distinct [OF Some d]
      asset_replace_set [OF Some] v show ?thesis
      by (auto simp: b' bal_valid_def asset_held_def bal_asset_def)
  next
    case None
    then have n: "find (\<lambda>a. aa_serial a = aa_serial amt) (bal_assets b) = None"
      by (simp add: asset_replace_None find_serial_None)
    show ?thesis
    proof (cases "aa_amount amt = 0")
      case True
      with None set have "b' = b" by (simp add: asset_set_def)
      with n v True show ?thesis by (simp add: asset_held_def bal_asset_def)
    next
      case False
      with None set chk have b': "b' = b\<lparr>bal_assets := bal_assets b @ [amt]\<rparr>"
        and l: "length (bal_assets b) < BALANCE_ASSET_MAX"
        by (auto simp: asset_set_def aa_checked_eq listw_push_def split: if_splits)
      with n None chk False v l show ?thesis
        by (auto simp: b' bal_valid_def asset_held_def bal_asset_def asset_replace_None
            find_snoc split: option.splits)
    qed
  qed
  then show "bal_valid b'"
    "asset_held b' s = (if s = aa_serial amt then aa_amount amt else asset_held b s)"
    "bal_hacash b' = bal_hacash b" "bal_satoshi b' = bal_satoshi b" "bal_diamond b' = bal_diamond b"
    by simp_all
qed

section \<open>Balances: the wire form\<close>

lemma bal_valid_assets:
  "bal_valid b \<Longrightarrow> listw_valid 1 aa_valid (bal_assets b) \<and> check_assets (bal_assets b) = Ok ()"
  by (simp add: bal_valid_def listw_valid_def check_assets_eq BALANCE_ASSET_MAX_def uint_MAX_eq)

interpretation balance: codec bal_valid bal_size bal_encode bal_decode
proof
  fix x rest
  assume v: "bal_valid x"
  then have f: "amt_valid (bal_hacash x)" "satoshi_valid (bal_satoshi x)"
    "diamond_auto_valid (bal_diamond x)" by (simp_all add: bal_valid_def)
  note a = bal_valid_assets [OF v]
  show "bal_size x = length (bal_encode x)"
    using f a by (simp add: bal_size_def bal_encode_def amount.size_encode satoshi.size_encode
        diamond_auto.size_encode asset_list.size_encode del: One_nat_def)
  show "bal_decode (bal_encode x @ rest) = Ok (x, length (bal_encode x))"
    using f a by (cases x) (simp add: bal_decode_def bal_encode_def reader_new_at amount.read_ok
        satoshi.read_ok diamond_auto.read_ok asset_list.read_ok del: One_nat_def)
next
  fix buf x n
  assume "bal_decode buf = Ok (x, n)"
  then show "bal_valid x \<and> n = length (bal_encode x) \<and> (\<exists>rest. buf = bal_encode x @ rest)"
    by (auto simp: bal_decode_def reader_new_at bal_encode_def check_assets_eq bal_valid_def
          listw_valid_def simp del: One_nat_def
        elim!: amount.read_inv satoshi.read_inv diamond_auto.read_inv asset_list.read_inv)
qed

lemma bal_default_valid [simp]: "bal_valid bal_default"
  by (simp add: bal_valid_def bal_default_def satoshi_valid_def diamond_auto_valid_def)

lemma asset_must_eq:
  assumes "bal_valid b"
  shows "asset_must b s = Ok a \<longleftrightarrow>
    0 < s \<and> s \<le> FOLD64_MAX \<and> a = \<lparr>aa_serial = s, aa_amount = asset_held b s\<rparr>"
proof (cases "bal_asset b s")
  case None
  then show ?thesis
    by (auto simp: asset_must_def aa_from_serial_def aa_checked_eq aa_valid_def asset_held_def)
next
  case (Some v)
  then have "v \<in> set (bal_assets b)" "aa_serial v = s"
    by (auto simp: bal_asset_def find_Some_iff)
  with assms Some show ?thesis
    by (cases v) (auto simp: asset_must_def asset_held_def bal_valid_def aa_valid_def)
qed

end
