(* ===== verification/Diamond.thy ===== *)
theory Diamond
  imports Balance "HOL-Library.Multiset"
begin

text \<open>
  Diamonds on the wire and in the state: names and name lists (\<^verbatim>\<open>src/field/src/types/diamond.rs\<close>),
  the stored records and the owned form, the concatenation of the names an address owns
  (\<^verbatim>\<open>diamond_sto.rs\<close>), and the registered asset (\<^verbatim>\<open>asset.rs\<close>). A name is its six bytes. The
  list operations take the count width \<open>p\<close> and the maximum \<open>mx\<close> of the macro
  \<^verbatim>\<open>define_diamond_name_list!\<close>.
\<close>

section \<open>Diamond names\<close>

type_synonym diamond_name = bytes

definition NAME_SIZE :: nat where
  "NAME_SIZE = 6"

text \<open>The sixteen letters \<^verbatim>\<open>WTYUIAHXVMEKBSZN\<close>.\<close>

definition DIAMOND_NAME_VALID_CHARS :: bytes where
  "DIAMOND_NAME_VALID_CHARS = [87, 84, 89, 85, 73, 65, 72, 88, 86, 77, 69, 75, 66, 83, 90, 78]"

definition name_is_valid :: "bytes \<Rightarrow> bool" where
  "name_is_valid stuff \<longleftrightarrow>
     length stuff = NAME_SIZE \<and> list_all (\<lambda>x. x \<in> set DIAMOND_NAME_VALID_CHARS) stuff"

definition check_bytes :: "bytes \<Rightarrow> unit ret" where
  "check_bytes stuff = (if name_is_valid stuff then Ok () else errf ''diamond name is not valid'')"

definition name_from_readable :: "bytes \<Rightarrow> diamond_name ret" where
  "name_from_readable raw = try_ret (check_bytes raw) (\<lambda>_. Ok raw)"

definition name_size :: "diamond_name \<Rightarrow> nat" where
  "name_size n = fixed_size NAME_SIZE n"

definition name_encode :: "diamond_name \<Rightarrow> bytes" where
  "name_encode n = fixed_encode n"

definition name_decode :: "bytes \<Rightarrow> (diamond_name \<times> nat) ret" where
  "name_decode buf =
     try_ret (fixed_decode NAME_SIZE buf) (\<lambda>(name, used).
     if \<not> name_is_valid name then normalf ''diamond name is not valid'' else Ok (name, used))"

section \<open>Name lists\<close>

primrec check_names :: "diamond_name set \<Rightarrow> diamond_name list \<Rightarrow> unit ret" where
  "check_names seen [] = Ok ()"
| "check_names seen (name # rest) =
     (if \<not> name_is_valid name then errf ''diamond name is not valid''
      else if name \<in> seen then errf ''diamond name is duplicated''
      else check_names (insert name seen) rest)"

definition dnl_check :: "nat \<Rightarrow> diamond_name list \<Rightarrow> nat ret" where
  "dnl_check mx xs =
     (let reallen = length xs in
      if reallen = 0 then errf ''diamonds quantity cannot be zero''
      else if reallen > mx then errf ''diamonds quantity cannot exceed''
      else try_ret (check_names {} xs) (\<lambda>_. Ok reallen))"

definition dnl_contains :: "diamond_name list \<Rightarrow> bytes \<Rightarrow> bool" where
  "dnl_contains xs x \<longleftrightarrow> list_ex (\<lambda>name. x = name) xs"

definition dnl_size :: "nat \<Rightarrow> diamond_name list \<Rightarrow> nat" where
  "dnl_size p xs = listw_size p name_size xs"

definition dnl_encode :: "nat \<Rightarrow> diamond_name list \<Rightarrow> bytes" where
  "dnl_encode p xs = listw_encode p name_encode xs"

definition dnl_decode :: "nat \<Rightarrow> nat \<Rightarrow> bytes \<Rightarrow> (diamond_name list \<times> nat) ret" where
  "dnl_decode p mx buf =
     try_ret (listw_decode p name_decode buf) (\<lambda>(value, used).
     try_ret (dnl_check mx value) (\<lambda>_. Ok (value, used)))"

definition dnl_from :: "nat \<Rightarrow> nat \<Rightarrow> diamond_name list \<Rightarrow> diamond_name list ret" where
  "dnl_from p mx v =
     try_ret (listw_from p v) (\<lambda>value.
     try_ret (dnl_check mx value) (\<lambda>_. Ok value))"

definition dnl_push :: "nat \<Rightarrow> nat \<Rightarrow> diamond_name list \<Rightarrow> diamond_name \<Rightarrow> diamond_name list ret" where
  "dnl_push p mx xs v =
     try_ret (check_bytes v) (\<lambda>_.
     if dnl_contains xs v then errf ''diamond name is duplicated''
     else if length xs + 1 > mx then errf ''diamond list max overflow''
     else listw_push p xs v)"

definition dnl_drop :: "diamond_name list \<Rightarrow> nat \<Rightarrow> diamond_name list ret" where
  "dnl_drop xs i = try_ret (listw_drop xs i) (\<lambda>(_, xs). Ok xs)"

definition dnl_replace :: "diamond_name list \<Rightarrow> nat \<Rightarrow> diamond_name \<Rightarrow> diamond_name list ret" where
  "dnl_replace xs i v =
     (if i \<ge> length xs then errf ''list index overflow''
      else
        try_ret (check_bytes v) (\<lambda>_.
        if list_ex (\<lambda>(j, name). j \<noteq> i \<and> name = v) (enumerate 0 xs)
        then errf ''diamond name is duplicated''
        else Ok (xs[i := v])))"

primrec append_names :: "diamond_name set \<Rightarrow> diamond_name list \<Rightarrow> unit ret" where
  "append_names seen [] = Ok ()"
| "append_names seen (d # rest) =
     try_ret (check_bytes d) (\<lambda>_.
     if d \<in> seen then errf ''diamond name is duplicated''
     else append_names (insert d seen) rest)"

definition dnl_append :: "nat \<Rightarrow> diamond_name list \<Rightarrow> diamond_name list \<Rightarrow> diamond_name list ret" where
  "dnl_append mx xs dias =
     (if length xs + length dias > mx then errf ''diamond list max overflow''
      else try_ret (append_names (set xs) dias) (\<lambda>_. Ok (xs @ dias)))"

definition dnl_pop :: "diamond_name list \<Rightarrow> diamond_name option \<times> diamond_name list" where
  "dnl_pop xs = (if length xs = 0 then (None, xs) else (Some (last xs), butlast xs))"

definition dnl_fetch_list :: "diamond_name list \<Rightarrow> nat \<Rightarrow> (diamond_name list \<times> diamond_name list) ret" where
  "dnl_fetch_list xs n =
     (let m = length xs in
      if n > m then errf ''list data length is smaller than fetch''
      else Ok (drop (m - n) xs, take (m - n) xs))"

definition dnl_fetch_head_list :: "diamond_name list \<Rightarrow> nat \<Rightarrow> (diamond_name list \<times> diamond_name list) ret" where
  "dnl_fetch_head_list xs n =
     (let m = length xs in
      if n > m then errf ''list data length is smaller than fetch''
      else if n = 0 then Ok ([], xs)
      else if n = m then Ok (xs, [])
      else Ok (take n xs, drop n xs))"

text \<open>The comma separated and the concatenated text of a list; the names are ASCII.\<close>

fun dnl_splitstr :: "diamond_name list \<Rightarrow> bytes" where
  "dnl_splitstr [] = []"
| "dnl_splitstr [x] = x"
| "dnl_splitstr (x # y # ys) = x @ 44 # dnl_splitstr (y # ys)"

definition dnl_form :: "diamond_name list \<Rightarrow> bytes" where
  "dnl_form xs = concat (map name_encode xs)"

fun chunks_exact :: "nat \<Rightarrow> bytes \<Rightarrow> bytes list" where
  "chunks_exact n bs =
     (if n = 0 \<or> length bs < n then [] else take n bs # chunks_exact n (drop n bs))"

declare chunks_exact.simps [simp del]

primrec push_names :: "nat \<Rightarrow> nat \<Rightarrow> diamond_name list \<Rightarrow> bytes list \<Rightarrow> diamond_name list ret" where
  "push_names p mx obj [] = Ok obj"
| "push_names p mx obj (raw # rest) =
     try_ret (name_from_readable raw) (\<lambda>name.
     try_ret (dnl_push p mx obj name) (\<lambda>obj. push_names p mx obj rest))"

definition dnl_from_readable :: "nat \<Rightarrow> nat \<Rightarrow> bytes \<Rightarrow> diamond_name list ret" where
  "dnl_from_readable p mx stuff =
     (let s = filter (\<lambda>b. b \<notin> {32, 10, 124, 44}) stuff in
      if s = [] then errf ''diamond list is empty''
      else if length s mod NAME_SIZE \<noteq> 0 then errf ''diamond list format invalid''
      else
        let num = length s div NAME_SIZE in
        if num > mx then errf ''diamond list max overflow''
        else
          try_ret (push_names p mx [] (chunks_exact NAME_SIZE s)) (\<lambda>obj.
          try_ret (dnl_check mx obj) (\<lambda>_. Ok obj)))"

abbreviation DIAMOND_LIST_MAX :: nat where
  "DIAMOND_LIST_MAX \<equiv> 200"

definition dnl_valid :: "nat \<Rightarrow> diamond_name list \<Rightarrow> bool" where
  "dnl_valid mx xs \<longleftrightarrow> xs \<noteq> [] \<and> length xs \<le> mx \<and> (\<forall>n\<in>set xs. name_is_valid n) \<and> distinct xs"

section \<open>The owned form\<close>

definition contains_diamond :: "bytes \<Rightarrow> diamond_name \<Rightarrow> bool" where
  "contains_diamond names dian \<longleftrightarrow>
     length names mod NAME_SIZE = 0 \<and> list_ex (\<lambda>name. name = dian) (chunks_exact NAME_SIZE names)"

definition owned_push_one :: "bytes \<Rightarrow> diamond_name \<Rightarrow> bytes ret" where
  "owned_push_one names dian =
     (if contains_diamond names dian then Ok names else bytesw_from 4 (names @ dian))"

primrec owned_push :: "bytes \<Rightarrow> diamond_name list \<Rightarrow> bytes ret" where
  "owned_push names [] = Ok names"
| "owned_push names (name # rest) =
     try_ret (owned_push_one names name) (\<lambda>names. owned_push names rest)"

text \<open>
  The loop of \<^verbatim>\<open>drop\<close>: the last name is copied over the removed one. The result is the
  buffer, the number of names left, the number removed and the names still wanted.
\<close>

function drop_loop :: "bytes \<Rightarrow> nat \<Rightarrow> nat \<Rightarrow> nat \<Rightarrow> diamond_name set \<Rightarrow>
    bytes \<times> nat \<times> nat \<times> diamond_name set" where
  "drop_loop form len index removed pending =
     (if index < len then
        let offset = index * NAME_SIZE; name = take NAME_SIZE (drop offset form) in
        if name \<in> pending then
          let pending = pending - {name};
              removed = removed + 1;
              len = len - 1;
              form =
                (if index < len then
                   take offset form @ take NAME_SIZE (drop (len * NAME_SIZE) form)
                     @ drop (offset + NAME_SIZE) form
                 else form)
          in if pending = {} then (form, len, removed, pending)
             else drop_loop form len index removed pending
        else drop_loop form len (index + 1) removed pending
      else (form, len, removed, pending))"
  by pat_completeness auto
termination
  by (relation "measure (\<lambda>(form, len, index, removed, pending). len - index)") auto

declare drop_loop.simps [simp del]

text \<open>On the error paths the source puts the buffer back before it returns; the error of the
  model carries no buffer, and every caller drops the form on an error.\<close>

definition owned_drop :: "bytes \<Rightarrow> diamond_name list \<Rightarrow> (nat \<times> bytes) ret" where
  "owned_drop form dian =
     (if length form mod NAME_SIZE \<noteq> 0 then
        try_ret (bytesw_from 4 form) (\<lambda>_. errf ''DiamondOwnedForm names length invalid'')
      else
        (case drop_loop form (length form div NAME_SIZE) 0 0 (set dian) of
           (form, len, removed, pending) \<Rightarrow>
             if pending \<noteq> {} then
               try_ret (bytesw_from 4 form) (\<lambda>_. errf ''diamond names not found in owned form'')
             else
               try_ret (bytesw_from 4 (take (len * NAME_SIZE) form)) (\<lambda>names. Ok (removed, names))))"

definition owned_drop_one :: "bytes \<Rightarrow> diamond_name \<Rightarrow> (nat \<times> bytes) ret" where
  "owned_drop_one form dian = try_ret (dnl_from 1 DIAMOND_LIST_MAX [dian]) (\<lambda>list. owned_drop form list)"

section \<open>Names and lists: the wire form\<close>

lemma name_encode_id: "name_encode n = n"
  by (simp add: name_encode_def fixed_encode_def)

lemma name_valid_length: "name_is_valid n \<Longrightarrow> length n = NAME_SIZE"
  by (simp add: name_is_valid_def)

interpretation dname: codec name_is_valid name_size name_encode name_decode
proof
  fix x rest
  assume "name_is_valid x"
  then show "name_size x = length (name_encode x)"
    and "name_decode (name_encode x @ rest) = Ok (x, length (name_encode x))"
    by (simp_all add: name_size_def name_encode_def name_decode_def fixed_defs name_is_valid_def)
next
  fix buf x n
  assume "name_decode buf = Ok (x, n)"
  then have "fixed_decode NAME_SIZE buf = Ok (x, n)" "name_is_valid x"
    by (auto simp: name_decode_def split: if_splits)
  then show "name_is_valid x \<and> n = length (name_encode x) \<and> (\<exists>rest. buf = name_encode x @ rest)"
    using codec.decode_sound [OF fixed_codec] by (metis name_encode_def)
qed

lemma check_names_eq:
  "check_names seen xs = Ok () \<longleftrightarrow> (\<forall>n\<in>set xs. name_is_valid n) \<and> distinct xs \<and> seen \<inter> set xs = {}"
  by (induction xs arbitrary: seen) auto

lemma dnl_check_eq: "dnl_check mx xs = Ok n \<longleftrightarrow> dnl_valid mx xs \<and> n = length xs"
  by (auto simp: dnl_check_def dnl_valid_def check_names_eq Let_def)

lemma dnl_codec:
  assumes "p \<le> 16" and "mx \<le> uint_MAX p p"
  shows "codec (dnl_valid mx) (dnl_size p) (dnl_encode p) (dnl_decode p mx)"
proof -
  note lc = dname.listw_codec [OF assms(1)]
  have lv: "dnl_valid mx xs \<Longrightarrow> listw_valid p name_is_valid xs" for xs
    using assms(2) by (auto simp: dnl_valid_def listw_valid_def)
  show ?thesis
  proof
    fix xs rest
    assume v: "dnl_valid mx xs"
    show "dnl_size p xs = length (dnl_encode p xs)"
      using codec.size_encode [OF lc lv [OF v]] by (simp add: dnl_size_def dnl_encode_def)
    show "dnl_decode p mx (dnl_encode p xs @ rest) = Ok (xs, length (dnl_encode p xs))"
      using codec.decode_encode [OF lc lv [OF v]] v dnl_check_eq [of mx xs]
      by (simp add: dnl_decode_def dnl_encode_def)
  next
    fix buf xs n
    assume "dnl_decode p mx buf = Ok (xs, n)"
    then have "listw_decode p name_decode buf = Ok (xs, n)" "dnl_valid mx xs"
      by (auto simp: dnl_decode_def dnl_check_eq)
    then show "dnl_valid mx xs \<and> n = length (dnl_encode p xs) \<and> (\<exists>rest. buf = dnl_encode p xs @ rest)"
      using codec.decode_sound [OF lc] by (simp add: dnl_encode_def)
  qed
qed

interpretation dnl200: codec "dnl_valid DIAMOND_LIST_MAX" "dnl_size 1" "dnl_encode 1"
  "dnl_decode 1 DIAMOND_LIST_MAX"
  by (rule dnl_codec) (simp_all add: uint_MAX_eq)

interpretation dnl60000: codec "dnl_valid 60000" "dnl_size 2" "dnl_encode 2" "dnl_decode 2 60000"
  by (rule dnl_codec) (simp_all add: uint_MAX_eq)

section \<open>Operations keep lists well formed\<close>

definition dnl_wf :: "nat \<Rightarrow> diamond_name list \<Rightarrow> bool" where
  "dnl_wf mx xs \<longleftrightarrow> length xs \<le> mx \<and> (\<forall>n\<in>set xs. name_is_valid n) \<and> distinct xs"

lemma dnl_valid_wf: "dnl_valid mx xs \<longleftrightarrow> xs \<noteq> [] \<and> dnl_wf mx xs"
  by (simp add: dnl_valid_def dnl_wf_def)

lemma check_bytes_eq [simp]: "check_bytes s = Ok () \<longleftrightarrow> name_is_valid s"
  by (simp add: check_bytes_def)

lemma dnl_push_wf: "dnl_push p mx xs v = Ok ys \<Longrightarrow> dnl_wf mx xs \<Longrightarrow> ys = xs @ [v] \<and> dnl_wf mx ys"
  by (auto simp: dnl_push_def dnl_wf_def dnl_contains_def list_ex_iff listw_push_def split: if_splits)

lemma dnl_push_ok:
  "dnl_wf mx xs \<Longrightarrow> name_is_valid v \<Longrightarrow> v \<notin> set xs \<Longrightarrow> length xs < mx \<Longrightarrow> mx \<le> uint_MAX p p \<Longrightarrow>
   dnl_push p mx xs v = Ok (xs @ [v])"
  by (auto simp: dnl_push_def dnl_contains_def list_ex_iff listw_push_def uint_from_usize_def check_bytes_def)

lemma dnl_drop_wf: "dnl_drop xs i = Ok ys \<Longrightarrow> dnl_wf mx xs \<Longrightarrow> dnl_wf mx ys"
proof -
  assume "dnl_drop xs i = Ok ys" and wf: "dnl_wf mx xs"
  then have i: "i < length xs" and ys: "ys = take i xs @ drop (Suc i) xs"
    by (auto simp: dnl_drop_def listw_drop_def split: if_splits)
  have "set (take i xs) \<inter> set (drop (Suc i) xs) = {}"
    using wf set_take_disj_set_drop_if_distinct [of xs i "Suc i"] by (simp add: dnl_wf_def)
  with wf i show ?thesis by (auto simp: ys dnl_wf_def dest: in_set_takeD in_set_dropD)
qed

lemma dnl_replace_wf: "dnl_replace xs i v = Ok ys \<Longrightarrow> dnl_wf mx xs \<Longrightarrow> dnl_wf mx ys"
proof -
  assume *: "dnl_replace xs i v = Ok ys" and wf: "dnl_wf mx xs"
  then have i: "i < length xs" and v: "name_is_valid v" and ys: "ys = xs[i := v]"
    and other: "\<not> list_ex (\<lambda>(j, name). j \<noteq> i \<and> name = v) (enumerate 0 xs)"
    by (auto simp: dnl_replace_def split: if_splits)
  from other have "\<forall>j<length xs. j \<noteq> i \<longrightarrow> xs ! j \<noteq> v"
    by (auto simp: list_ex_iff in_set_enumerate_eq)
  with wf i have "distinct (xs[i := v])"
    by (auto simp: dnl_wf_def distinct_conv_nth nth_list_update)
  moreover have "set (xs[i := v]) \<subseteq> insert v (set xs)" by (rule set_update_subset_insert)
  ultimately show ?thesis using wf v by (auto simp: ys dnl_wf_def)
qed

lemma append_names_eq:
  "append_names seen ds = Ok () \<longleftrightarrow> (\<forall>n\<in>set ds. name_is_valid n) \<and> distinct ds \<and> seen \<inter> set ds = {}"
  by (induction ds arbitrary: seen) (auto simp: check_bytes_def)

lemma dnl_append_wf: "dnl_append mx xs ds = Ok ys \<Longrightarrow> dnl_wf mx xs \<Longrightarrow> ys = xs @ ds \<and> dnl_wf mx ys"
  by (auto simp: dnl_append_def append_names_eq dnl_wf_def split: if_splits)

lemma dnl_fetch_split:
  "dnl_fetch_list xs n = Ok (out, rest) \<Longrightarrow> xs = rest @ out \<and> length out = n"
  "dnl_fetch_head_list xs n = Ok (out, rest) \<Longrightarrow> xs = out @ rest \<and> length out = n"
  by (auto simp: dnl_fetch_list_def dnl_fetch_head_list_def Let_def split: if_splits)

section \<open>Chunks\<close>

lemma chunks_exact_short: "n = 0 \<or> length bs < n \<Longrightarrow> chunks_exact n bs = []"
  by (subst chunks_exact.simps) simp

lemma chunks_exact_step:
  "0 < n \<Longrightarrow> n \<le> length bs \<Longrightarrow> chunks_exact n bs = take n bs # chunks_exact n (drop n bs)"
  by (subst chunks_exact.simps) simp

lemma chunks_exact_concat:
  "0 < n \<Longrightarrow> \<forall>x\<in>set ns. length x = n \<Longrightarrow> chunks_exact n (concat ns) = ns"
  by (induction ns) (simp_all add: chunks_exact_short chunks_exact_step)

lemma chunks_exact_props:
  "0 < n \<Longrightarrow> (\<forall>x\<in>set (chunks_exact n bs). length x = n) \<and>
     length (chunks_exact n bs) = length bs div n \<and>
     (length bs mod n = 0 \<longrightarrow> concat (chunks_exact n bs) = bs)"
proof (induction "length bs" arbitrary: bs rule: less_induct)
  case less
  show ?case
  proof (cases "length bs < n")
    case True
    then have c: "chunks_exact n bs = []" "length bs div n = 0" "length bs mod n = length bs"
      by (simp_all add: chunks_exact_short)
    show ?thesis unfolding c by simp
  next
    case False
    have l: "length (drop n bs) < length bs" using less(2) False by simp
    note IH = less(1) [OF l less(2)]
    have s: "chunks_exact n bs = take n bs # chunks_exact n (drop n bs)"
      using chunks_exact_step less(2) False by simp
    have d: "length bs div n = Suc (length (drop n bs) div n)" "length bs mod n = length (drop n bs) mod n"
      using False less(2) by (simp_all add: le_div_geq le_mod_geq)
    have t: "length (take n bs) = n" "take n bs @ drop n bs = bs" using False by simp_all
    show ?thesis unfolding s d list.set ball_simps(7) list.size(4) concat.simps
      using IH by (elim conjE) (intro conjI impI; simp only: t add_Suc_right Nat.add_0_right)
  qed
qed

lemma NAME_SIZE_pos [simp]: "0 < NAME_SIZE"
  by (simp add: NAME_SIZE_def)

section \<open>Text form of a list\<close>

lemma push_names_eq:
  assumes "mx \<le> uint_MAX p p" "dnl_wf mx (obj @ ns)"
  shows "push_names p mx obj ns = Ok (obj @ ns)"
  using assms(2)
proof (induction ns arbitrary: obj)
  case (Cons n ns)
  then have "dnl_push p mx obj n = Ok (obj @ [n])"
    by (intro dnl_push_ok [OF _ _ _ _ assms(1)]) (auto simp: dnl_wf_def)
  with Cons show ?case by (simp add: name_from_readable_def check_bytes_def dnl_wf_def)
qed simp

lemma name_chars: "name_is_valid n \<Longrightarrow> b \<in> set n \<Longrightarrow> b \<notin> {32, 10, 124, 44}"
proof -
  assume "name_is_valid n" "b \<in> set n"
  then have "b \<in> set DIAMOND_NAME_VALID_CHARS" by (simp add: name_is_valid_def list_all_iff)
  then show ?thesis by (auto simp: DIAMOND_NAME_VALID_CHARS_def)
qed

lemma filter_splitstr:
  assumes "\<forall>n\<in>set xs. name_is_valid n"
  shows "filter (\<lambda>b. b \<notin> {32, 10, 124, 44}) (dnl_splitstr xs) = concat xs"
proof -
  have f: "name_is_valid n \<Longrightarrow> filter (\<lambda>b. b \<notin> {32, 10, 124, 44}) n = n" for n
    using name_chars by (intro filter_True) blast
  show ?thesis using assms
    by (induction xs rule: dnl_splitstr.induct) (simp_all add: f del: insert_iff, simp)
qed

lemma dnl_readable_round_trip:
  assumes "dnl_valid mx xs" and "mx \<le> uint_MAX p p"
  shows "dnl_from_readable p mx (dnl_splitstr xs) = Ok xs"
proof -
  have wf: "dnl_wf mx xs" and ne: "xs \<noteq> []" using assms(1) by (simp_all add: dnl_valid_wf)
  then have v: "\<forall>n\<in>set xs. name_is_valid n" by (simp add: dnl_wf_def)
  then have l: "\<forall>n\<in>set xs. length n = NAME_SIZE" by (simp add: name_valid_length)
  have len: "length (concat xs) = length xs * NAME_SIZE"
    using l by (induction xs) (auto simp: algebra_simps)
  have "concat xs \<noteq> []" using ne len by (metis NAME_SIZE_pos length_0_conv mult_is_0 not_gr_zero)
  moreover have "push_names p mx [] (chunks_exact NAME_SIZE (concat xs)) = Ok xs"
    using push_names_eq [of mx p "[]" xs] assms(2) wf l by (simp add: chunks_exact_concat)
  moreover have "dnl_check mx xs = Ok (length xs)" using assms(1) by (simp add: dnl_check_eq)
  ultimately show ?thesis
    using wf unfolding dnl_from_readable_def filter_splitstr [OF v] Let_def
    by (simp add: len dnl_wf_def)
qed

section \<open>The owned form as a list of names\<close>

definition owned_names :: "bytes \<Rightarrow> diamond_name list" where
  "owned_names form = chunks_exact NAME_SIZE form"

definition owned_valid :: "bytes \<Rightarrow> bool" where
  "owned_valid form \<longleftrightarrow> bytesw_valid 4 form \<and> length form mod NAME_SIZE = 0"

lemma owned_names_lengths: "n \<in> set (owned_names form) \<Longrightarrow> length n = NAME_SIZE"
  using chunks_exact_props [of NAME_SIZE form] by (simp add: owned_names_def)

lemma owned_names_concat: "length form mod NAME_SIZE = 0 \<Longrightarrow> concat (owned_names form) = form"
  using chunks_exact_props [of NAME_SIZE form] by (simp add: owned_names_def)

lemma owned_names_of_concat: "\<forall>n\<in>set ns. length n = NAME_SIZE \<Longrightarrow> owned_names (concat ns) = ns"
  by (simp add: owned_names_def chunks_exact_concat)

lemma contains_diamond_eq:
  "length form mod NAME_SIZE = 0 \<Longrightarrow> contains_diamond form d \<longleftrightarrow> d \<in> set (owned_names form)"
  by (auto simp: contains_diamond_def owned_names_def list_ex_iff)

lemma bytesw_from_Ok: "bytesw_from p b = Ok c \<longleftrightarrow> c = b \<and> bytesw_valid p b"
  by (auto simp: bytesw_from_def bytesw_valid_def uint_from_usize_def split: if_splits)

lemma owned_push_one_spec:
  assumes "owned_push_one form d = Ok form'" and "owned_valid form" and "length d = NAME_SIZE"
  shows "owned_valid form' \<and>
    owned_names form' = (if d \<in> set (owned_names form) then owned_names form else owned_names form @ [d])"
proof (cases "d \<in> set (owned_names form)")
  case True
  with assms show ?thesis by (simp add: owned_push_one_def contains_diamond_eq owned_valid_def)
next
  case False
  with assms have f': "form' = form @ d" "bytesw_valid 4 form'"
    by (auto simp: owned_push_one_def contains_diamond_eq owned_valid_def bytesw_from_Ok)
  have "form @ d = concat (owned_names form @ [d])"
    using assms(2) by (simp add: owned_names_concat owned_valid_def)
  then have "owned_names form' = owned_names form @ [d]"
    unfolding f' using owned_names_of_concat [of "owned_names form @ [d]"] assms(3)
    by (auto simp: owned_names_lengths)
  moreover have "length (form @ d) mod NAME_SIZE = 0"
    using assms by (simp add: owned_valid_def)
  ultimately show ?thesis using False f' by (simp add: owned_valid_def)
qed

lemma owned_push_spec:
  assumes "owned_push form ds = Ok form'" and "owned_valid form" and "\<forall>d\<in>set ds. length d = NAME_SIZE"
  shows "owned_valid form' \<and> set (owned_names form') = set (owned_names form) \<union> set ds \<and>
    (distinct (owned_names form) \<longrightarrow> distinct (owned_names form'))"
  using assms
proof (induction ds arbitrary: form)
  case (Cons d ds)
  then obtain f where f: "owned_push_one form d = Ok f" and r: "owned_push f ds = Ok form'" by auto
  from owned_push_one_spec [OF f] Cons.prems have
    "owned_valid f \<and> owned_names f =
      (if d \<in> set (owned_names form) then owned_names form else owned_names form @ [d])" by simp
  with Cons.IH [OF r] Cons.prems show ?case by (auto split: if_splits)
qed simp

end
