(* ===== verification/DiamondOwned.thy ===== *)
theory DiamondOwned
  imports Diamond
begin

text \<open>
  The swap-remove loop of \<^verbatim>\<open>DiamondOwnedForm::drop\<close> (\<^verbatim>\<open>src/field/src/types/diamond_sto.rs\<close>),
  proved against the multiset of names it works on.
\<close>

section \<open>Names at an offset of the form\<close>

lemma concat_take_fixed:
  "\<forall>x\<in>set ns. length x = k \<Longrightarrow> take (i * k) (concat ns) = concat (take i ns)"
  "\<forall>x\<in>set ns. length x = k \<Longrightarrow> drop (i * k) (concat ns) = concat (drop i ns)"
  by (induction ns arbitrary: i; case_tac i; simp)+

lemma slice_name:
  assumes "\<forall>x\<in>set ns. length x = NAME_SIZE" and "i < length ns"
  shows "take NAME_SIZE (drop (i * NAME_SIZE) (concat ns)) = ns ! i"
  using assms by (simp add: concat_take_fixed Cons_nth_drop_Suc [symmetric])

lemma splice_name:
  assumes "\<forall>x\<in>set ns. length x = NAME_SIZE" and "i < length ns"
  shows "take (i * NAME_SIZE) (concat ns) @ x @ drop (i * NAME_SIZE + NAME_SIZE) (concat ns)
    = concat (ns[i := x])"
proof -
  have "i * NAME_SIZE + NAME_SIZE = Suc i * NAME_SIZE" by simp
  then show ?thesis
    by (simp only: concat_take_fixed [OF assms(1)] upd_conv_take_nth_drop [OF assms(2)] concat_append
        concat.simps)
qed

section \<open>One removal\<close>

lemma swap_remove_mset:
  assumes "index < len" and "len \<le> length ns"
  defines "ns' \<equiv> (if index < len - 1 then ns[index := ns ! (len - 1)] else ns)"
  shows "mset (take len ns) = add_mset (ns ! index) (mset (take (len - 1) ns'))"
    and "take index ns' = take index ns"
proof -
  obtain k where len: "len = Suc k" using assms(1) by (cases len) auto
  have t: "take (Suc k) ns = take k ns @ [ns ! k]" using assms(2) by (simp add: len take_Suc_conv_app_nth)
  show "take index ns' = take index ns" by (simp add: ns'_def)
  show "mset (take len ns) = add_mset (ns ! index) (mset (take (len - 1) ns'))"
  proof (cases "index < k")
    case True
    then have "take k (ns[index := ns ! k]) = (take k ns)[index := ns ! k]"
      by (simp add: take_update_swap)
    moreover have "mset ((take k ns)[index := ns ! k]) = add_mset (ns ! k) (mset (take k ns) - {#ns ! index#})"
      using True assms(2) len by (subst mset_update) auto
    moreover have "ns ! index \<in># mset (take k ns)"
      using True assms(2) len by (auto simp: in_set_conv_nth intro!: exI [of _ index])
    ultimately show ?thesis using True
      by (simp add: t len ns'_def add_mset_commute [of "ns ! index" "ns ! k"])
  next
    case False
    with assms(1) len have "index = k" by simp
    then show ?thesis by (simp add: t len ns'_def)
  qed
qed

section \<open>The loop\<close>

definition drop_post :: "diamond_name list \<Rightarrow> nat \<Rightarrow> nat \<Rightarrow> diamond_name set \<Rightarrow>
    bytes \<times> nat \<times> nat \<times> diamond_name set \<Rightarrow> bool" where
  "drop_post ns len removed pending = (\<lambda>(form', len', removed', pending').
     \<exists>ns'. form' = concat ns' \<and> length ns' = length ns \<and> (\<forall>x\<in>set ns'. length x = NAME_SIZE) \<and>
       len' \<le> len \<and> pending' \<subseteq> pending \<and>
       mset (take len ns) = mset (take len' ns') + mset_set (pending - pending') \<and>
       removed' = removed + card (pending - pending') \<and>
       set (take len' ns') \<inter> pending' = {})"

lemma drop_post_step:
  assumes "drop_post ns' (len - 1) (removed + 1) (pending - {name}) r" and "name \<in> pending"
    and "finite pending" and "length ns' = length ns"
    and "mset (take len ns) = add_mset name (mset (take (len - 1) ns'))"
  shows "drop_post ns len removed pending r"
proof -
  obtain form' len' removed' pending' where r: "r = (form', len', removed', pending')"
    by (cases r) auto
  from assms(1) obtain ns'' where *: "form' = concat ns''" "length ns'' = length ns'"
    "\<forall>x\<in>set ns''. length x = NAME_SIZE" "len' \<le> len - 1" "pending' \<subseteq> pending - {name}"
    "mset (take (len - 1) ns') = mset (take len' ns'') + mset_set (pending - {name} - pending')"
    "removed' = removed + 1 + card (pending - {name} - pending')" "set (take len' ns'') \<inter> pending' = {}"
    by (auto simp: drop_post_def r)
  have "pending - pending' = insert name (pending - {name} - pending')" using *(5) assms(2) by blast
  moreover have "name \<notin> pending - {name} - pending'" "finite (pending - {name} - pending')"
    using assms(3) by auto
  ultimately have "mset_set (pending - pending') = add_mset name (mset_set (pending - {name} - pending'))"
    and "card (pending - pending') = Suc (card (pending - {name} - pending'))" by simp_all
  then show ?thesis unfolding r drop_post_def using * assms(4,5) by (auto intro!: exI [of _ ns''])
qed

lemma drop_loop_spec:
  assumes "form = concat ns" and "\<forall>x\<in>set ns. length x = NAME_SIZE" and "len \<le> length ns"
    and "index \<le> len" and "finite pending" and "set (take index ns) \<inter> pending = {}"
  shows "drop_post ns len removed pending (drop_loop form len index removed pending)"
  using assms
proof (induction form len index removed pending arbitrary: ns rule: drop_loop.induct)
  case (1 form len index removed pending)
  show ?case
  proof (cases "index < len")
    case False
    with 1 have "set (take len ns) \<inter> pending = {}" by simp
    moreover have "drop_loop form len index removed pending = (form, len, removed, pending)"
      using False by (simp add: drop_loop.simps [of form len])
    ultimately show ?thesis using 1(3-) by (auto simp: drop_post_def)
  next
    case True
    let ?name = "take NAME_SIZE (drop (index * NAME_SIZE) form)"
    have name: "?name = ns ! index" using slice_name [OF 1(4), of index] True 1(3,5) by simp
    show ?thesis
    proof (cases "?name \<in> pending")
      case False
      then have "set (take (index + 1) ns) \<inter> pending = {}"
        using 1(8) True 1(5) name by (simp add: take_Suc_conv_app_nth)
      with 1(2) [OF True refl refl False 1(3-5) _ 1(7)] True False show ?thesis
        by (simp add: drop_loop.simps [of form len] Let_def)
    next
      case mem: True
      define len' where "len' = len - 1"
      define pending' where "pending' = pending - {?name}"
      define ns' where "ns' = (if index < len - 1 then ns[index := ns ! (len - 1)] else ns)"
      define form' where "form' = (if index < len' then
          take (index * NAME_SIZE) form @ take NAME_SIZE (drop (len' * NAME_SIZE) form)
            @ drop (index * NAME_SIZE + NAME_SIZE) form else form)"
      note sm = swap_remove_mset [OF True 1(5), folded ns'_def]
      have f': "form' = concat ns'"
        using splice_name [OF 1(4), of index "ns ! len'"] slice_name [OF 1(4), of len'] True 1(3,5)
        by (auto simp: form'_def ns'_def len'_def)
      have l': "length ns' = length ns" and w': "\<forall>x\<in>set ns'. length x = NAME_SIZE"
        using 1(4,5) True by (auto simp: ns'_def dest!: set_update_subset_insert [THEN subsetD])
      have "drop_post ns' len' (removed + 1) pending' (if pending' = {} then (form', len', removed + 1, pending')
          else drop_loop form' len' index (removed + 1) pending')"
      proof (cases "pending' = {}")
        case True
        then show ?thesis using f' w' by (auto simp: drop_post_def)
      next
        case False
        have "len' \<le> length ns'" "index \<le> len'" "finite pending'" "set (take index ns') \<inter> pending' = {}"
          using 1(5,7,8) True l' sm(2) by (auto simp: len'_def pending'_def)
        with 1(1) [OF True refl refl mem pending'_def refl len'_def form'_def False f' w'] False
        show ?thesis by simp
      qed
      then have "drop_post ns len removed pending (if pending' = {} then (form', len', removed + 1, pending')
          else drop_loop form' len' index (removed + 1) pending')"
        using drop_post_step [of ns' len removed pending ?name] mem 1(7) l' sm(1) name
        by (simp add: len'_def pending'_def)
      moreover have "drop_loop form len index removed pending = (if pending' = {} then (form', len', removed + 1, pending')
          else drop_loop form' len' index (removed + 1) pending')"
        using True mem by (simp add: drop_loop.simps [of form len] Let_def form'_def len'_def pending'_def)
      ultimately show ?thesis by simp
    qed
  qed
qed

section \<open>Dropping a list of names\<close>

lemma bytesw_from_shorter: "bytesw_valid p b \<Longrightarrow> length c \<le> length b \<Longrightarrow> bytesw_from p c = Ok c"
  by (simp add: bytesw_from_Ok bytesw_valid_def)

lemma length_concat_fixed: "\<forall>x\<in>set ns. length x = k \<Longrightarrow> length (concat ns) = length ns * k"
  by (induction ns) auto

lemma owned_drop_cases:
  assumes "owned_valid form"
  obtains (found) form' where "set ds \<subseteq> set (owned_names form)"
    "owned_drop form ds = Ok (card (set ds), form')" "owned_valid form'"
    "mset (owned_names form) = mset (owned_names form') + mset_set (set ds)"
  | (missing) "\<not> set ds \<subseteq> set (owned_names form)"
    "owned_drop form ds = errf ''diamond names not found in owned form''"
proof -
  let ?ns = "owned_names form" and ?len = "length form div NAME_SIZE"
  have m: "length form mod NAME_SIZE = 0" and bv: "bytesw_valid 4 form" using assms by (simp_all add: owned_valid_def)
  have len: "length ?ns = ?len" using chunks_exact_props [of NAME_SIZE form] by (simp add: owned_names_def)
  have w: "\<forall>x\<in>set ?ns. length x = NAME_SIZE" by (simp add: owned_names_lengths)
  obtain form' len' removed pending where dl: "drop_loop form ?len 0 0 (set ds) = (form', len', removed, pending)"
    by (metis prod_cases4)
  have "drop_post ?ns ?len 0 (set ds) (drop_loop form ?len 0 0 (set ds))"
    by (rule drop_loop_spec) (use m w len in \<open>simp_all add: owned_names_concat\<close>)
  then obtain ns' where ns': "form' = concat ns'" "length ns' = ?len" "\<forall>x\<in>set ns'. length x = NAME_SIZE"
    "len' \<le> ?len" "pending \<subseteq> set ds" "removed = card (set ds - pending)" "set (take len' ns') \<inter> pending = {}"
    and ms: "mset ?ns = mset (take len' ns') + mset_set (set ds - pending)"
    unfolding dl by (auto simp: drop_post_def len)
  have lf: "length form' = length form"
    using length_concat_fixed [OF ns'(3)] ns'(1,2) m div_mult_mod_eq [of "length form" NAME_SIZE]
    by (simp only: add_0_right)
  have sn: "set ?ns = set (take len' ns') \<union> (set ds - pending)"
    using arg_cong [OF ms, of set_mset] by simp
  show thesis
  proof (cases "pending = {}")
    case True
    let ?f = "take (len' * NAME_SIZE) form'"
    have f: "?f = concat (take len' ns')" using ns'(1,3) by (simp add: concat_take_fixed)
    have w': "\<forall>x\<in>set (take len' ns'). length x = NAME_SIZE" using ns'(3) by (auto dest: in_set_takeD)
    have lt: "length ?f \<le> length form" by (simp add: lf)
    have on: "owned_names ?f = take len' ns'" unfolding f by (rule owned_names_of_concat [OF w'])
    have "owned_drop form ds = Ok (card (set ds), ?f)"
      using m dl True ns'(6) bytesw_from_shorter [OF bv lt] by (simp add: owned_drop_def)
    moreover have "owned_valid ?f"
      using bv lt length_concat_fixed [OF w'] by (simp add: owned_valid_def bytesw_valid_def f)
    moreover have "set ds \<subseteq> set ?ns" using sn True by simp
    ultimately show thesis using found [of ?f] ms True on by simp
  next
    case False
    then have "\<not> set ds \<subseteq> set ?ns" using sn ns'(5,7) by blast
    moreover have "owned_drop form ds = errf ''diamond names not found in owned form''"
      using m dl False bytesw_from_shorter [OF bv, of form'] lf by (simp add: owned_drop_def)
    ultimately show thesis by (rule missing)
  qed
qed

lemma owned_drop_distinct:
  assumes "owned_valid form" and "distinct (owned_names form)" and "owned_drop form ds = Ok (k, form')"
  shows "owned_valid form' \<and> distinct (owned_names form') \<and> set ds \<subseteq> set (owned_names form) \<and>
    set (owned_names form') = set (owned_names form) - set ds \<and> k = card (set ds)"
  using assms(1)
proof (cases rule: owned_drop_cases [of form ds])
  case (found f)
  then have f: "f = form'" "k = card (set ds)" using assms(3) by simp_all
  have one: "count (mset (owned_names form')) a + count (mset_set (set ds)) a \<le> 1" for a
  proof -
    have "count (mset (owned_names form)) a \<le> 1"
      using assms(2) by (simp add: distinct_count_atmost_1)
    then show ?thesis using found(4) f by simp
  qed
  have d: "distinct (owned_names form')"
    unfolding distinct_count_atmost_1
  proof
    fix a
    show "count (mset (owned_names form')) a = (if a \<in> set (owned_names form') then 1 else 0)"
    proof (cases "a \<in> set (owned_names form')")
      case True
      then have "0 < count (mset (owned_names form')) a" by simp
      with one [of a] have "count (mset (owned_names form')) a = 1" by linarith
      with True show ?thesis by simp
    qed (simp add: count_mset_0_iff)
  qed
  have "set (owned_names form') \<inter> set ds = {}"
  proof (rule ccontr)
    assume "set (owned_names form') \<inter> set ds \<noteq> {}"
    then obtain x where x: "x \<in> set (owned_names form')" "x \<in> set ds" by blast
    then have "0 < count (mset (owned_names form')) x" "count (mset_set (set ds)) x = 1" by simp_all
    with one [of x] show False by linarith
  qed
  moreover have "set (owned_names form) = set (owned_names form') \<union> set ds"
    using arg_cong [OF found(4), of set_mset] f by simp
  ultimately show ?thesis using found d f by auto
next
  case missing
  with assms(3) show ?thesis by simp
qed

end
