(* ===== verification/Stored.thy ===== *)
theory Stored
  imports DiamondOwned
begin

text \<open>
  The records the node keeps in its state, with the codec that the derive macro of
  \<^verbatim>\<open>src/field-derive/src/lib.rs\<close> generates for a struct (fields in order, each with its own
  codec): \<^verbatim>\<open>DiamondInscript\<close>, \<^verbatim>\<open>DiamondSto\<close>, \<^verbatim>\<open>DiamondSmelt\<close> (\<^verbatim>\<open>field/src/types/diamond_sto.rs\<close>),
  \<^verbatim>\<open>AssetSmelt\<close> (\<^verbatim>\<open>asset.rs\<close>) and \<^verbatim>\<open>BaseTotal\<close> (\<^verbatim>\<open>base/src/ledger/total.rs\<close>).
\<close>

section \<open>Definitions\<close>

subsection \<open>Inscriptions\<close>

record diamond_inscript =
  dins_engraved_type :: nat
  dins_content :: bytes

definition dins_size :: "diamond_inscript \<Rightarrow> nat" where
  "dins_size x =
     uint_size 1 (dins_engraved_type x)
     + bytesw_size 1 (dins_content x)"

definition dins_encode :: "diamond_inscript \<Rightarrow> bytes" where
  "dins_encode x =
     uint_encode 1 1 (dins_engraved_type x)
     @ bytesw_encode 1 (dins_content x)"

definition dins_decode :: "bytes \<Rightarrow> (diamond_inscript \<times> nat) ret" where
  "dins_decode buf =
     try_ret (reader_read (uint_decode 1 1) (reader_new buf)) (\<lambda>(engraved_type, r).
     try_ret (reader_read (bytesw_decode 1) r) (\<lambda>(content, r).
     Ok (\<lparr>dins_engraved_type = engraved_type, dins_content = content\<rparr>, reader_used r)))"

definition dins_valid :: "diamond_inscript \<Rightarrow> bool" where
  "dins_valid x \<longleftrightarrow>
     uint_valid 1 1 (dins_engraved_type x) \<and>
     bytesw_valid 1 (dins_content x)"

subsection \<open>A diamond in the state\<close>

record diamond_sto =
  dsto_status :: nat
  dsto_address :: address
  dsto_prev_engraved_height :: nat
  dsto_inscripts :: "diamond_inscript list"

definition dsto_size :: "diamond_sto \<Rightarrow> nat" where
  "dsto_size x =
     uint_size 1 (dsto_status x)
     + addr_size (dsto_address x)
     + uint_size 5 (dsto_prev_engraved_height x)
     + listw_size 1 dins_size (dsto_inscripts x)"

definition dsto_encode :: "diamond_sto \<Rightarrow> bytes" where
  "dsto_encode x =
     uint_encode 1 1 (dsto_status x)
     @ addr_encode (dsto_address x)
     @ uint_encode 8 5 (dsto_prev_engraved_height x)
     @ listw_encode 1 dins_encode (dsto_inscripts x)"

definition dsto_decode :: "bytes \<Rightarrow> (diamond_sto \<times> nat) ret" where
  "dsto_decode buf =
     try_ret (reader_read (uint_decode 1 1) (reader_new buf)) (\<lambda>(status, r).
     try_ret (reader_read addr_decode r) (\<lambda>(address, r).
     try_ret (reader_read (uint_decode 8 5) r) (\<lambda>(prev_engraved_height, r).
     try_ret (reader_read (listw_decode 1 dins_decode) r) (\<lambda>(inscripts, r).
     Ok (\<lparr>dsto_status = status, dsto_address = address,
           dsto_prev_engraved_height = prev_engraved_height, dsto_inscripts = inscripts\<rparr>, reader_used r)))))"

definition dsto_valid :: "diamond_sto \<Rightarrow> bool" where
  "dsto_valid x \<longleftrightarrow>
     uint_valid 1 1 (dsto_status x) \<and>
     addr_valid (dsto_address x) \<and>
     uint_valid 8 5 (dsto_prev_engraved_height x) \<and>
     listw_valid 1 dins_valid (dsto_inscripts x)"

subsection \<open>A minted diamond\<close>

record diamond_smelt =
  smelt_diamond :: diamond_name
  smelt_number :: nat
  smelt_born_height :: nat
  smelt_born_hash :: bytes
  smelt_prev_hash :: bytes
  smelt_miner_address :: address
  smelt_bid_fee :: amount
  smelt_nonce :: bytes
  smelt_average_bid_burn :: nat
  smelt_life_gene :: bytes

definition smelt_size :: "diamond_smelt \<Rightarrow> nat" where
  "smelt_size x =
     name_size (smelt_diamond x)
     + uint_size 3 (smelt_number x)
     + uint_size 5 (smelt_born_height x)
     + fixed_size 32 (smelt_born_hash x)
     + fixed_size 32 (smelt_prev_hash x)
     + addr_size (smelt_miner_address x)
     + amt_size (smelt_bid_fee x)
     + fixed_size 8 (smelt_nonce x)
     + uint_size 2 (smelt_average_bid_burn x)
     + fixed_size 32 (smelt_life_gene x)"

definition smelt_encode :: "diamond_smelt \<Rightarrow> bytes" where
  "smelt_encode x =
     name_encode (smelt_diamond x)
     @ uint_encode 4 3 (smelt_number x)
     @ uint_encode 8 5 (smelt_born_height x)
     @ fixed_encode (smelt_born_hash x)
     @ fixed_encode (smelt_prev_hash x)
     @ addr_encode (smelt_miner_address x)
     @ amt_encode (smelt_bid_fee x)
     @ fixed_encode (smelt_nonce x)
     @ uint_encode 2 2 (smelt_average_bid_burn x)
     @ fixed_encode (smelt_life_gene x)"

definition smelt_decode :: "bytes \<Rightarrow> (diamond_smelt \<times> nat) ret" where
  "smelt_decode buf =
     try_ret (reader_read name_decode (reader_new buf)) (\<lambda>(diamond, r).
     try_ret (reader_read (uint_decode 4 3) r) (\<lambda>(number, r).
     try_ret (reader_read (uint_decode 8 5) r) (\<lambda>(born_height, r).
     try_ret (reader_read (fixed_decode 32) r) (\<lambda>(born_hash, r).
     try_ret (reader_read (fixed_decode 32) r) (\<lambda>(prev_hash, r).
     try_ret (reader_read addr_decode r) (\<lambda>(miner_address, r).
     try_ret (reader_read amt_decode r) (\<lambda>(bid_fee, r).
     try_ret (reader_read (fixed_decode 8) r) (\<lambda>(nonce, r).
     try_ret (reader_read (uint_decode 2 2) r) (\<lambda>(average_bid_burn, r).
     try_ret (reader_read (fixed_decode 32) r) (\<lambda>(life_gene, r).
     Ok (\<lparr>smelt_diamond = diamond, smelt_number = number,
           smelt_born_height = born_height, smelt_born_hash = born_hash,
           smelt_prev_hash = prev_hash, smelt_miner_address = miner_address,
           smelt_bid_fee = bid_fee, smelt_nonce = nonce,
           smelt_average_bid_burn = average_bid_burn, smelt_life_gene = life_gene\<rparr>, reader_used r)))))))))))"

definition smelt_valid :: "diamond_smelt \<Rightarrow> bool" where
  "smelt_valid x \<longleftrightarrow>
     name_is_valid (smelt_diamond x) \<and>
     uint_valid 4 3 (smelt_number x) \<and>
     uint_valid 8 5 (smelt_born_height x) \<and>
     fixed_valid 32 (smelt_born_hash x) \<and>
     fixed_valid 32 (smelt_prev_hash x) \<and>
     addr_valid (smelt_miner_address x) \<and>
     amt_valid (smelt_bid_fee x) \<and>
     fixed_valid 8 (smelt_nonce x) \<and>
     uint_valid 2 2 (smelt_average_bid_burn x) \<and>
     fixed_valid 32 (smelt_life_gene x)"

subsection \<open>A registered asset\<close>

record asset_smelt =
  asm_serial :: nat
  asm_supply :: nat
  asm_decimal :: nat
  asm_issuer :: address
  asm_ticket :: bytes
  asm_name :: bytes

definition asm_size :: "asset_smelt \<Rightarrow> nat" where
  "asm_size x =
     fold64_size (asm_serial x)
     + fold64_size (asm_supply x)
     + uint_size 1 (asm_decimal x)
     + addr_size (asm_issuer x)
     + bytesw_size 1 (asm_ticket x)
     + bytesw_size 1 (asm_name x)"

definition asm_encode :: "asset_smelt \<Rightarrow> bytes" where
  "asm_encode x =
     fold64_encode (asm_serial x)
     @ fold64_encode (asm_supply x)
     @ uint_encode 1 1 (asm_decimal x)
     @ addr_encode (asm_issuer x)
     @ bytesw_encode 1 (asm_ticket x)
     @ bytesw_encode 1 (asm_name x)"

definition asm_decode :: "bytes \<Rightarrow> (asset_smelt \<times> nat) ret" where
  "asm_decode buf =
     try_ret (reader_read fold64_decode (reader_new buf)) (\<lambda>(serial, r).
     try_ret (reader_read fold64_decode r) (\<lambda>(supply, r).
     try_ret (reader_read (uint_decode 1 1) r) (\<lambda>(decimal, r).
     try_ret (reader_read addr_decode r) (\<lambda>(issuer, r).
     try_ret (reader_read (bytesw_decode 1) r) (\<lambda>(ticket, r).
     try_ret (reader_read (bytesw_decode 1) r) (\<lambda>(name, r).
     Ok (\<lparr>asm_serial = serial, asm_supply = supply, asm_decimal = decimal,
           asm_issuer = issuer, asm_ticket = ticket, asm_name = name\<rparr>, reader_used r)))))))"

definition asm_valid :: "asset_smelt \<Rightarrow> bool" where
  "asm_valid x \<longleftrightarrow>
     fold64_valid (asm_serial x) \<and>
     fold64_valid (asm_supply x) \<and>
     uint_valid 1 1 (asm_decimal x) \<and>
     addr_valid (asm_issuer x) \<and>
     bytesw_valid 1 (asm_ticket x) \<and>
     bytesw_valid 1 (asm_name x)"

subsection \<open>Base statistics\<close>

record base_total =
  bt_tx_fee_burn90_238 :: nat
  bt_ast_vm_gas_burn_238 :: nat
  bt_contract_protocol_cost_burn_238 :: nat
  bt_contract_deploy_count :: nat
  bt_contract_update_count :: nat
  bt_contract_charge_bytes_total :: nat
  bt_tx_fee_pay_total_238 :: nat
  bt_tx_fee_got_total_238 :: nat
  bt_blackhole_hac_burn_238 :: nat
  bt_blackhole_sat_burn :: nat
  bt_blackhole_asset_burn_count :: nat
  bt_blackhole_hacd_burn_count :: nat

definition bt_size :: "base_total \<Rightarrow> nat" where
  "bt_size x =
     uint_size 12 (bt_tx_fee_burn90_238 x)
     + uint_size 12 (bt_ast_vm_gas_burn_238 x)
     + uint_size 12 (bt_contract_protocol_cost_burn_238 x)
     + uint_size 8 (bt_contract_deploy_count x)
     + uint_size 8 (bt_contract_update_count x)
     + uint_size 12 (bt_contract_charge_bytes_total x)
     + uint_size 12 (bt_tx_fee_pay_total_238 x)
     + uint_size 12 (bt_tx_fee_got_total_238 x)
     + uint_size 12 (bt_blackhole_hac_burn_238 x)
     + uint_size 8 (bt_blackhole_sat_burn x)
     + uint_size 8 (bt_blackhole_asset_burn_count x)
     + uint_size 8 (bt_blackhole_hacd_burn_count x)"

definition bt_encode :: "base_total \<Rightarrow> bytes" where
  "bt_encode x =
     uint_encode 16 12 (bt_tx_fee_burn90_238 x)
     @ uint_encode 16 12 (bt_ast_vm_gas_burn_238 x)
     @ uint_encode 16 12 (bt_contract_protocol_cost_burn_238 x)
     @ uint_encode 8 8 (bt_contract_deploy_count x)
     @ uint_encode 8 8 (bt_contract_update_count x)
     @ uint_encode 16 12 (bt_contract_charge_bytes_total x)
     @ uint_encode 16 12 (bt_tx_fee_pay_total_238 x)
     @ uint_encode 16 12 (bt_tx_fee_got_total_238 x)
     @ uint_encode 16 12 (bt_blackhole_hac_burn_238 x)
     @ uint_encode 8 8 (bt_blackhole_sat_burn x)
     @ uint_encode 8 8 (bt_blackhole_asset_burn_count x)
     @ uint_encode 8 8 (bt_blackhole_hacd_burn_count x)"

definition bt_decode :: "bytes \<Rightarrow> (base_total \<times> nat) ret" where
  "bt_decode buf =
     try_ret (reader_read (uint_decode 16 12) (reader_new buf)) (\<lambda>(tx_fee_burn90_238, r).
     try_ret (reader_read (uint_decode 16 12) r) (\<lambda>(ast_vm_gas_burn_238, r).
     try_ret (reader_read (uint_decode 16 12) r) (\<lambda>(contract_protocol_cost_burn_238, r).
     try_ret (reader_read (uint_decode 8 8) r) (\<lambda>(contract_deploy_count, r).
     try_ret (reader_read (uint_decode 8 8) r) (\<lambda>(contract_update_count, r).
     try_ret (reader_read (uint_decode 16 12) r) (\<lambda>(contract_charge_bytes_total, r).
     try_ret (reader_read (uint_decode 16 12) r) (\<lambda>(tx_fee_pay_total_238, r).
     try_ret (reader_read (uint_decode 16 12) r) (\<lambda>(tx_fee_got_total_238, r).
     try_ret (reader_read (uint_decode 16 12) r) (\<lambda>(blackhole_hac_burn_238, r).
     try_ret (reader_read (uint_decode 8 8) r) (\<lambda>(blackhole_sat_burn, r).
     try_ret (reader_read (uint_decode 8 8) r) (\<lambda>(blackhole_asset_burn_count, r).
     try_ret (reader_read (uint_decode 8 8) r) (\<lambda>(blackhole_hacd_burn_count, r).
     Ok (\<lparr>bt_tx_fee_burn90_238 = tx_fee_burn90_238,
           bt_ast_vm_gas_burn_238 = ast_vm_gas_burn_238,
           bt_contract_protocol_cost_burn_238 = contract_protocol_cost_burn_238,
           bt_contract_deploy_count = contract_deploy_count,
           bt_contract_update_count = contract_update_count,
           bt_contract_charge_bytes_total = contract_charge_bytes_total,
           bt_tx_fee_pay_total_238 = tx_fee_pay_total_238,
           bt_tx_fee_got_total_238 = tx_fee_got_total_238,
           bt_blackhole_hac_burn_238 = blackhole_hac_burn_238,
           bt_blackhole_sat_burn = blackhole_sat_burn,
           bt_blackhole_asset_burn_count = blackhole_asset_burn_count,
           bt_blackhole_hacd_burn_count = blackhole_hacd_burn_count\<rparr>, reader_used r)))))))))))))"

definition bt_valid :: "base_total \<Rightarrow> bool" where
  "bt_valid x \<longleftrightarrow>
     uint_valid 16 12 (bt_tx_fee_burn90_238 x) \<and>
     uint_valid 16 12 (bt_ast_vm_gas_burn_238 x) \<and>
     uint_valid 16 12 (bt_contract_protocol_cost_burn_238 x) \<and>
     uint_valid 8 8 (bt_contract_deploy_count x) \<and>
     uint_valid 8 8 (bt_contract_update_count x) \<and>
     uint_valid 16 12 (bt_contract_charge_bytes_total x) \<and>
     uint_valid 16 12 (bt_tx_fee_pay_total_238 x) \<and>
     uint_valid 16 12 (bt_tx_fee_got_total_238 x) \<and>
     uint_valid 16 12 (bt_blackhole_hac_burn_238 x) \<and>
     uint_valid 8 8 (bt_blackhole_sat_burn x) \<and>
     uint_valid 8 8 (bt_blackhole_asset_burn_count x) \<and>
     uint_valid 8 8 (bt_blackhole_hacd_burn_count x)"

section \<open>Codecs\<close>

interpretation fixed32: codec "fixed_valid 32" "fixed_size 32" fixed_encode "fixed_decode 32"
  by (rule fixed_codec)

interpretation fixed8: codec "fixed_valid 8" "fixed_size 8" fixed_encode "fixed_decode 8"
  by (rule fixed_codec)

interpretation dinscript: codec dins_valid dins_size dins_encode dins_decode
proof
  fix x rest
  assume v: "dins_valid x"
  then show "dins_size x = length (dins_encode x)"
    by (simp add: dins_size_def dins_encode_def dins_valid_def
      uint1.size_encode bytesw1.size_encode del: One_nat_def)
  show "dins_decode (dins_encode x @ rest) = Ok (x, length (dins_encode x))"
    using v by (cases x) (simp add: dins_decode_def dins_encode_def dins_valid_def reader_new_at
      uint1.read_ok bytesw1.read_ok del: One_nat_def)
next
  fix buf x n
  assume "dins_decode buf = Ok (x, n)"
  then show "dins_valid x \<and> n = length (dins_encode x) \<and> (\<exists>rest. buf = dins_encode x @ rest)"
    by (auto simp: dins_decode_def dins_encode_def dins_valid_def reader_new_at simp del: One_nat_def
      elim!: uint1.read_inv bytesw1.read_inv)
qed

interpretation inscripts: codec "listw_valid 1 dins_valid" "listw_size 1 dins_size"
  "listw_encode 1 dins_encode" "listw_decode 1 dins_decode"
  by (rule dinscript.listw_codec) simp

interpretation dsto: codec dsto_valid dsto_size dsto_encode dsto_decode
proof
  fix x rest
  assume v: "dsto_valid x"
  then show "dsto_size x = length (dsto_encode x)"
    by (simp add: dsto_size_def dsto_encode_def dsto_valid_def
      uint1.size_encode addr.size_encode uint5.size_encode inscripts.size_encode del: One_nat_def)
  show "dsto_decode (dsto_encode x @ rest) = Ok (x, length (dsto_encode x))"
    using v by (cases x) (simp add: dsto_decode_def dsto_encode_def dsto_valid_def reader_new_at
      uint1.read_ok addr.read_ok uint5.read_ok inscripts.read_ok del: One_nat_def)
next
  fix buf x n
  assume "dsto_decode buf = Ok (x, n)"
  then show "dsto_valid x \<and> n = length (dsto_encode x) \<and> (\<exists>rest. buf = dsto_encode x @ rest)"
    by (auto simp: dsto_decode_def dsto_encode_def dsto_valid_def reader_new_at simp del: One_nat_def
      elim!: uint1.read_inv addr.read_inv uint5.read_inv inscripts.read_inv)
qed

interpretation dsmelt: codec smelt_valid smelt_size smelt_encode smelt_decode
proof
  fix x rest
  assume v: "smelt_valid x"
  then show "smelt_size x = length (smelt_encode x)"
    by (simp add: smelt_size_def smelt_encode_def smelt_valid_def
      dname.size_encode uint3.size_encode uint5.size_encode fixed32.size_encode
      addr.size_encode amount.size_encode fixed8.size_encode uint2.size_encode del: One_nat_def)
  show "smelt_decode (smelt_encode x @ rest) = Ok (x, length (smelt_encode x))"
    using v by (cases x) (simp add: smelt_decode_def smelt_encode_def smelt_valid_def reader_new_at
      dname.read_ok uint3.read_ok uint5.read_ok fixed32.read_ok addr.read_ok
      amount.read_ok fixed8.read_ok uint2.read_ok del: One_nat_def)
next
  fix buf x n
  assume "smelt_decode buf = Ok (x, n)"
  then show "smelt_valid x \<and> n = length (smelt_encode x) \<and> (\<exists>rest. buf = smelt_encode x @ rest)"
    by (auto simp: smelt_decode_def smelt_encode_def smelt_valid_def reader_new_at simp del: One_nat_def
      elim!: dname.read_inv uint3.read_inv uint5.read_inv fixed32.read_inv addr.read_inv
      amount.read_inv fixed8.read_inv uint2.read_inv)
qed

interpretation asmelt: codec asm_valid asm_size asm_encode asm_decode
proof
  fix x rest
  assume v: "asm_valid x"
  then show "asm_size x = length (asm_encode x)"
    by (simp add: asm_size_def asm_encode_def asm_valid_def
      fold64.size_encode uint1.size_encode addr.size_encode bytesw1.size_encode del: One_nat_def)
  show "asm_decode (asm_encode x @ rest) = Ok (x, length (asm_encode x))"
    using v by (cases x) (simp add: asm_decode_def asm_encode_def asm_valid_def reader_new_at
      fold64.read_ok uint1.read_ok addr.read_ok bytesw1.read_ok del: One_nat_def)
next
  fix buf x n
  assume "asm_decode buf = Ok (x, n)"
  then show "asm_valid x \<and> n = length (asm_encode x) \<and> (\<exists>rest. buf = asm_encode x @ rest)"
    by (auto simp: asm_decode_def asm_encode_def asm_valid_def reader_new_at simp del: One_nat_def
      elim!: fold64.read_inv uint1.read_inv addr.read_inv bytesw1.read_inv)
qed

interpretation btotal: codec bt_valid bt_size bt_encode bt_decode
proof
  fix x rest
  assume v: "bt_valid x"
  then show "bt_size x = length (bt_encode x)"
    by (simp add: bt_size_def bt_encode_def bt_valid_def
      uint12.size_encode uint8.size_encode del: One_nat_def)
  show "bt_decode (bt_encode x @ rest) = Ok (x, length (bt_encode x))"
    using v by (cases x) (simp add: bt_decode_def bt_encode_def bt_valid_def reader_new_at
      uint12.read_ok uint8.read_ok del: One_nat_def)
next
  fix buf x n
  assume "bt_decode buf = Ok (x, n)"
  then show "bt_valid x \<and> n = length (bt_encode x) \<and> (\<exists>rest. buf = bt_encode x @ rest)"
    by (auto simp: bt_decode_def bt_encode_def bt_valid_def reader_new_at simp del: One_nat_def
      elim!: uint12.read_inv uint8.read_inv)
qed

end
