(* ===== verification/CoreState.thy ===== *)
theory CoreState
  imports Stored
begin

text \<open>
  The typed view of the node's state: state keys (\<^verbatim>\<open>src/base/src/state/key.rs\<close>), typed reads
  (\<^verbatim>\<open>state/typed.rs\<close>) and the accessors of \<^verbatim>\<open>CoreState\<close> (\<^verbatim>\<open>base/src/ledger/state.rs\<close>).
  A state layer is what reading it returns: a function from key bytes to an optional value or
  a backend failure; \<^verbatim>\<open>set\<close> and \<^verbatim>\<open>del\<close> change the answer at one key. \<open>StateChunk\<close> shows that
  the layered store of the node implements it.
\<close>

section \<open>State layers and keys\<close>

type_synonym layer = "bytes \<Rightarrow> bytes option ret"

definition layer_get :: "layer \<Rightarrow> bytes \<Rightarrow> bytes option ret" where
  "layer_get s key = s key"

definition layer_set :: "layer \<Rightarrow> bytes \<Rightarrow> bytes \<Rightarrow> layer" where
  "layer_set s key v = s(key := Ok (Some v))"

definition layer_del :: "layer \<Rightarrow> bytes \<Rightarrow> layer" where
  "layer_del s key = s(key := Ok None)"

abbreviation TEXT_KEY_PREFIX :: u8 where "TEXT_KEY_PREFIX \<equiv> 0x5f"

definition numeric_state_prefix :: "u8 \<Rightarrow> u8 ret" where
  "numeric_state_prefix prefix =
     (if prefix = 0 then panicf ''0x00 is reserved in the state key space''
      else if prefix = TEXT_KEY_PREFIX then panicf ''0x5f is reserved for textual state keys''
      else Ok prefix)"

definition numeric_state_key :: "u8 \<Rightarrow> ('k \<Rightarrow> bytes) \<Rightarrow> 'k \<Rightarrow> bytes" where
  "numeric_state_key prefix enc key = prefix # enc key"

definition numeric_state_empty_key :: "u8 \<Rightarrow> bytes" where
  "numeric_state_empty_key prefix = [prefix]"

definition read_typed :: "(bytes \<Rightarrow> ('v \<times> nat) ret) \<Rightarrow> layer \<Rightarrow> bytes \<Rightarrow> 'v option ret" where
  "read_typed decode state key =
     try_ret (layer_get state key) (\<lambda>v.
     case v of
       Some bs \<Rightarrow>
         (case decode bs of
            Inr (value, _) \<Rightarrow> Ok (Some value)
          | Inl (Panic msg) \<Rightarrow> panicf msg
          | Inl (Error _ _ _) \<Rightarrow>
              Inl (Error Abort ''state decode failed'' (Some STATE_DECODE_FAILED_CODE)))
     | None \<Rightarrow> Ok None)"

definition bt_default :: base_total where
  "bt_default = \<lparr>bt_tx_fee_burn90_238 = 0, bt_ast_vm_gas_burn_238 = 0,
     bt_contract_protocol_cost_burn_238 = 0, bt_contract_deploy_count = 0,
     bt_contract_update_count = 0, bt_contract_charge_bytes_total = 0,
     bt_tx_fee_pay_total_238 = 0, bt_tx_fee_got_total_238 = 0, bt_blackhole_hac_burn_238 = 0,
     bt_blackhole_sat_burn = 0, bt_blackhole_asset_burn_count = 0, bt_blackhole_hacd_burn_count = 0\<rparr>"

section \<open>Accessors\<close>

abbreviation (input) KEY_BASE_TOTAL :: u8 where "KEY_BASE_TOTAL \<equiv> 0x01"
abbreviation (input) KEY_LATEST_DIAMOND :: u8 where "KEY_LATEST_DIAMOND \<equiv> 0x02"
abbreviation (input) KEY_TX_EXIST :: u8 where "KEY_TX_EXIST \<equiv> 0x0a"
abbreviation (input) KEY_BALANCE :: u8 where "KEY_BALANCE \<equiv> 0x0b"
abbreviation (input) KEY_DIAMOND :: u8 where "KEY_DIAMOND \<equiv> 0x0d"
abbreviation (input) KEY_DIAMOND_NAME :: u8 where "KEY_DIAMOND_NAME \<equiv> 0x0e"
abbreviation (input) KEY_DIAMOND_SMELT :: u8 where "KEY_DIAMOND_SMELT \<equiv> 0x0f"
abbreviation (input) KEY_DIAMOND_OWNED :: u8 where "KEY_DIAMOND_OWNED \<equiv> 0x10"
abbreviation (input) KEY_ASSET :: u8 where "KEY_ASSET \<equiv> 0x11"

definition get_base_total_opt :: "layer \<Rightarrow> base_total option ret" where
  "get_base_total_opt s = read_typed bt_decode s (numeric_state_empty_key KEY_BASE_TOTAL)"

definition base_total_set :: "layer \<Rightarrow> base_total \<Rightarrow> layer" where
  "base_total_set s v = layer_set s (numeric_state_empty_key KEY_BASE_TOTAL) (bt_encode v)"

definition base_total_del :: "layer \<Rightarrow> layer" where
  "base_total_del s = layer_del s (numeric_state_empty_key KEY_BASE_TOTAL)"

definition get_base_total :: "layer \<Rightarrow> base_total ret" where
  "get_base_total s = try_ret (get_base_total_opt s) (\<lambda>t. Ok (case t of Some t \<Rightarrow> t | None \<Rightarrow> bt_default))"

definition get_latest_diamond :: "layer \<Rightarrow> diamond_smelt option ret" where
  "get_latest_diamond s = read_typed smelt_decode s (numeric_state_empty_key KEY_LATEST_DIAMOND)"

definition latest_diamond_set :: "layer \<Rightarrow> diamond_smelt \<Rightarrow> layer" where
  "latest_diamond_set s v = layer_set s (numeric_state_empty_key KEY_LATEST_DIAMOND) (smelt_encode v)"

definition latest_diamond_del :: "layer \<Rightarrow> layer" where
  "latest_diamond_del s = layer_del s (numeric_state_empty_key KEY_LATEST_DIAMOND)"

definition get_tx_exist :: "layer \<Rightarrow> bytes \<Rightarrow> nat option ret" where
  "get_tx_exist s hash = read_typed (uint_decode 8 5) s (numeric_state_key KEY_TX_EXIST fixed_encode hash)"

definition tx_exist_set :: "layer \<Rightarrow> bytes \<Rightarrow> nat \<Rightarrow> layer" where
  "tx_exist_set s hash v = layer_set s (numeric_state_key KEY_TX_EXIST fixed_encode hash) (uint_encode 8 5 v)"

definition tx_exist_del :: "layer \<Rightarrow> bytes \<Rightarrow> layer" where
  "tx_exist_del s hash = layer_del s (numeric_state_key KEY_TX_EXIST fixed_encode hash)"

definition get_balance :: "layer \<Rightarrow> address \<Rightarrow> balance option ret" where
  "get_balance s addr = read_typed bal_decode s (numeric_state_key KEY_BALANCE addr_encode addr)"

definition balance_set :: "layer \<Rightarrow> address \<Rightarrow> balance \<Rightarrow> layer" where
  "balance_set s addr v = layer_set s (numeric_state_key KEY_BALANCE addr_encode addr) (bal_encode v)"

definition balance_del :: "layer \<Rightarrow> address \<Rightarrow> layer" where
  "balance_del s addr = layer_del s (numeric_state_key KEY_BALANCE addr_encode addr)"

definition get_diamond :: "layer \<Rightarrow> diamond_name \<Rightarrow> diamond_sto option ret" where
  "get_diamond s name = read_typed dsto_decode s (numeric_state_key KEY_DIAMOND name_encode name)"

definition diamond_set :: "layer \<Rightarrow> diamond_name \<Rightarrow> diamond_sto \<Rightarrow> layer" where
  "diamond_set s name v = layer_set s (numeric_state_key KEY_DIAMOND name_encode name) (dsto_encode v)"

definition diamond_del :: "layer \<Rightarrow> diamond_name \<Rightarrow> layer" where
  "diamond_del s name = layer_del s (numeric_state_key KEY_DIAMOND name_encode name)"

definition get_diamond_name :: "layer \<Rightarrow> nat \<Rightarrow> diamond_name option ret" where
  "get_diamond_name s number = read_typed name_decode s (numeric_state_key KEY_DIAMOND_NAME (uint_encode 4 3) number)"

definition diamond_name_set :: "layer \<Rightarrow> nat \<Rightarrow> diamond_name \<Rightarrow> layer" where
  "diamond_name_set s number v = layer_set s (numeric_state_key KEY_DIAMOND_NAME (uint_encode 4 3) number) (name_encode v)"

definition get_diamond_smelt :: "layer \<Rightarrow> diamond_name \<Rightarrow> diamond_smelt option ret" where
  "get_diamond_smelt s name = read_typed smelt_decode s (numeric_state_key KEY_DIAMOND_SMELT name_encode name)"

definition diamond_smelt_set :: "layer \<Rightarrow> diamond_name \<Rightarrow> diamond_smelt \<Rightarrow> layer" where
  "diamond_smelt_set s name v = layer_set s (numeric_state_key KEY_DIAMOND_SMELT name_encode name) (smelt_encode v)"

definition get_diamond_owned :: "layer \<Rightarrow> address \<Rightarrow> bytes option ret" where
  "get_diamond_owned s addr = read_typed (bytesw_decode 4) s (numeric_state_key KEY_DIAMOND_OWNED addr_encode addr)"

definition diamond_owned_set :: "layer \<Rightarrow> address \<Rightarrow> bytes \<Rightarrow> layer" where
  "diamond_owned_set s addr v = layer_set s (numeric_state_key KEY_DIAMOND_OWNED addr_encode addr) (bytesw_encode 4 v)"

definition diamond_owned_del :: "layer \<Rightarrow> address \<Rightarrow> layer" where
  "diamond_owned_del s addr = layer_del s (numeric_state_key KEY_DIAMOND_OWNED addr_encode addr)"

definition diamond_owned_exist :: "layer \<Rightarrow> address \<Rightarrow> bool ret" where
  "diamond_owned_exist s addr =
     try_ret (layer_get s (numeric_state_key KEY_DIAMOND_OWNED addr_encode addr)) (\<lambda>v. Ok (v \<noteq> None))"

definition get_asset :: "layer \<Rightarrow> nat \<Rightarrow> asset_smelt option ret" where
  "get_asset s serial = read_typed asm_decode s (numeric_state_key KEY_ASSET fold64_encode serial)"

definition asset_smelt_set :: "layer \<Rightarrow> nat \<Rightarrow> asset_smelt \<Rightarrow> layer" where
  "asset_smelt_set s serial v = layer_set s (numeric_state_key KEY_ASSET fold64_encode serial) (asm_encode v)"

definition asset_smelt_del :: "layer \<Rightarrow> nat \<Rightarrow> layer" where
  "asset_smelt_del s serial = layer_del s (numeric_state_key KEY_ASSET fold64_encode serial)"

lemmas core_get_defs =
  get_base_total_opt_def get_latest_diamond_def get_tx_exist_def get_balance_def
  get_diamond_def get_diamond_name_def get_diamond_smelt_def get_diamond_owned_def
  get_asset_def

lemmas core_set_defs =
  base_total_set_def base_total_del_def latest_diamond_set_def latest_diamond_del_def
  tx_exist_set_def tx_exist_del_def balance_set_def balance_del_def
  diamond_set_def diamond_del_def diamond_name_set_def diamond_smelt_set_def
  diamond_owned_set_def diamond_owned_del_def asset_smelt_set_def asset_smelt_del_def

lemmas core_defs = core_get_defs core_set_defs

lemmas key_defs = numeric_state_key_def numeric_state_empty_key_def

section \<open>What a typed cell of the state promises\<close>

text \<open>
  A keyed store of values: reading back what was written, nothing else changed. The ledger
  is proved over these laws.
\<close>

locale keyed_store =
  fixes kvalid :: "'k \<Rightarrow> bool" and valid :: "'v \<Rightarrow> bool"
    and get :: "layer \<Rightarrow> 'k \<Rightarrow> 'v option ret"
    and put :: "layer \<Rightarrow> 'k \<Rightarrow> 'v \<Rightarrow> layer"
    and del :: "layer \<Rightarrow> 'k \<Rightarrow> layer"
  assumes get_put_same: "valid v \<Longrightarrow> get (put s k v) k = Ok (Some v)"
    and get_put_other: "kvalid k \<Longrightarrow> kvalid k' \<Longrightarrow> k' \<noteq> k \<Longrightarrow> get (put s k v) k' = get s k'"
    and get_del_same: "get (del s k) k = Ok None"
    and get_del_other: "kvalid k \<Longrightarrow> kvalid k' \<Longrightarrow> k' \<noteq> k \<Longrightarrow> get (del s k) k' = get s k'"
    and get_valid: "get s k = Ok (Some v) \<Longrightarrow> valid v"
begin

lemma get_put: "kvalid k \<Longrightarrow> kvalid k' \<Longrightarrow> valid v \<Longrightarrow>
    get (put s k v) k' = (if k' = k then Ok (Some v) else get s k')"
  by (simp add: get_put_same get_put_other)

lemma get_del: "kvalid k \<Longrightarrow> kvalid k' \<Longrightarrow> get (del s k) k' = (if k' = k then Ok None else get s k')"
  by (simp add: get_del_same get_del_other)

lemma get_put_put: "kvalid k \<Longrightarrow> kvalid k' \<Longrightarrow> valid v \<Longrightarrow> valid w \<Longrightarrow>
    get (put (put s k v) k w) k' = get (put s k w) k'"
  by (simp add: get_put)

lemma get_put_commute: "kvalid j \<Longrightarrow> kvalid k \<Longrightarrow> kvalid k' \<Longrightarrow> valid v \<Longrightarrow> valid w \<Longrightarrow> j \<noteq> k \<Longrightarrow>
    get (put (put s j v) k w) k' = get (put (put s k w) j v) k'"
  by (simp add: get_put)

end

text \<open>
  A cell keeps its values under one prefix byte, encoded by a codec, with keys encoded
  injectively.
\<close>

locale state_cell = codec valid size encode decode
  for valid :: "'v \<Rightarrow> bool" and size and encode and decode +
  fixes kvalid :: "'k \<Rightarrow> bool" and kenc :: "'k \<Rightarrow> bytes" and prefix :: u8
    and get :: "layer \<Rightarrow> 'k \<Rightarrow> 'v option ret"
    and put :: "layer \<Rightarrow> 'k \<Rightarrow> 'v \<Rightarrow> layer"
    and del :: "layer \<Rightarrow> 'k \<Rightarrow> layer"
  assumes get_eq: "get s k = read_typed decode s (prefix # kenc k)"
    and put_eq: "put s k v = layer_set s (prefix # kenc k) (encode v)"
    and del_eq: "del s k = layer_del s (prefix # kenc k)"
    and kenc_inj: "kvalid k \<Longrightarrow> kvalid k' \<Longrightarrow> kenc k = kenc k' \<Longrightarrow> k = k'"
begin

lemma frame_set: "q \<noteq> prefix \<Longrightarrow> get (layer_set s (q # r) b) k = get s k"
  by (simp add: get_eq read_typed_def layer_get_def layer_set_def)

lemma frame_del: "q \<noteq> prefix \<Longrightarrow> get (layer_del s (q # r)) k = get s k"
  by (simp add: get_eq read_typed_def layer_get_def layer_del_def)

end

sublocale state_cell \<subseteq> store: keyed_store kvalid valid get put del
proof
  fix s k v
  show "get (put s k v) k = Ok (Some v)" if "valid v"
    using that by (simp add: get_eq put_eq read_typed_def layer_get_def layer_set_def decode_encode_nil)
  show "get (del s k) k = Ok None"
    by (simp add: get_eq del_eq read_typed_def layer_get_def layer_del_def)
  show "valid v" if "get s k = Ok (Some v)"
  proof -
    from that obtain o' where o': "layer_get s (prefix # kenc k) = Ok o'"
      by (auto simp: get_eq read_typed_def)
    with that obtain bs where bs: "layer_get s (prefix # kenc k) = Ok (Some bs)"
      by (cases o') (simp_all add: get_eq read_typed_def)
    show ?thesis
    proof (cases "decode bs")
      case (Inl e)
      with that bs show ?thesis by (cases e) (simp_all add: get_eq read_typed_def)
    next
      case (Inr r)
      with that bs show ?thesis using decode_sound [of bs v "snd r"]
        by (cases r) (simp add: get_eq read_typed_def)
    qed
  qed
  fix k'
  assume "kvalid k" "kvalid k'" "k' \<noteq> k"
  then have "kenc k \<noteq> kenc k'" using kenc_inj by blast
  then show "get (put s k v) k' = get s k'" "get (del s k) k' = get s k'"
    by (simp_all add: get_eq put_eq del_eq read_typed_def layer_get_def layer_set_def layer_del_def)
qed

section \<open>The cells of the core state\<close>

lemma core_prefixes_ok:
  "\<forall>p\<in>{KEY_BASE_TOTAL, KEY_LATEST_DIAMOND, KEY_TX_EXIST, KEY_BALANCE, KEY_DIAMOND,
     KEY_DIAMOND_NAME, KEY_DIAMOND_SMELT, KEY_DIAMOND_OWNED, KEY_ASSET}. numeric_state_prefix p = Ok p"
  by (simp add: numeric_state_prefix_def)

interpretation base_total_cell: state_cell "bt_valid" "bt_size" "bt_encode" "bt_decode"
  "\<lambda>_ :: unit. True" "\<lambda>_ :: unit. []" KEY_BASE_TOTAL "\<lambda>s _. get_base_total_opt s" "\<lambda>s _. base_total_set s" "\<lambda>s _. base_total_del s"
  by unfold_locales (simp_all add: core_defs key_defs)

interpretation latest_diamond_cell: state_cell "smelt_valid" "smelt_size" "smelt_encode" "smelt_decode"
  "\<lambda>_ :: unit. True" "\<lambda>_ :: unit. []" KEY_LATEST_DIAMOND "\<lambda>s _. get_latest_diamond s" "\<lambda>s _. latest_diamond_set s" "\<lambda>s _. latest_diamond_del s"
  by unfold_locales (simp_all add: core_defs key_defs)

interpretation tx_exist_cell: state_cell "uint_valid 8 5" "uint_size 5" "uint_encode 8 5" "uint_decode 8 5"
  "fixed_valid 32" "fixed_encode" KEY_TX_EXIST get_tx_exist tx_exist_set tx_exist_del
  by unfold_locales (auto simp: core_defs key_defs dest: fixed32.encode_inj)

interpretation balance_cell: state_cell "bal_valid" "bal_size" "bal_encode" "bal_decode"
  "addr_valid" "addr_encode" KEY_BALANCE get_balance balance_set balance_del
  by unfold_locales (auto simp: core_defs key_defs dest: addr.encode_inj)

interpretation diamond_cell: state_cell "dsto_valid" "dsto_size" "dsto_encode" "dsto_decode"
  "name_is_valid" "name_encode" KEY_DIAMOND get_diamond diamond_set diamond_del
  by unfold_locales (auto simp: core_defs key_defs dest: dname.encode_inj)

interpretation diamond_name_cell: state_cell "name_is_valid" "name_size" "name_encode" "name_decode"
  "uint_valid 4 3" "uint_encode 4 3" KEY_DIAMOND_NAME get_diamond_name diamond_name_set "\<lambda>s k. layer_del s (numeric_state_key KEY_DIAMOND_NAME (uint_encode 4 3) k)"
  by unfold_locales (auto simp: core_defs key_defs dest: uint3.encode_inj)

interpretation diamond_smelt_cell: state_cell "smelt_valid" "smelt_size" "smelt_encode" "smelt_decode"
  "name_is_valid" "name_encode" KEY_DIAMOND_SMELT get_diamond_smelt diamond_smelt_set "\<lambda>s k. layer_del s (numeric_state_key KEY_DIAMOND_SMELT name_encode k)"
  by unfold_locales (auto simp: core_defs key_defs dest: dname.encode_inj)

interpretation diamond_owned_cell: state_cell "bytesw_valid 4" "bytesw_size 4" "bytesw_encode 4" "bytesw_decode 4"
  "addr_valid" "addr_encode" KEY_DIAMOND_OWNED get_diamond_owned diamond_owned_set diamond_owned_del
  by unfold_locales (auto simp: core_defs key_defs dest: addr.encode_inj)

interpretation asset_cell: state_cell "asm_valid" "asm_size" "asm_encode" "asm_decode"
  "fold64_valid" "fold64_encode" KEY_ASSET get_asset asset_smelt_set asset_smelt_del
  by unfold_locales (auto simp: core_defs key_defs dest: fold64.encode_inj)

section \<open>Cells do not overlap\<close>

lemma get_base_total_opt_frame [simp]:
  "get_base_total_opt (latest_diamond_set s v1) = get_base_total_opt s"
  "get_base_total_opt (latest_diamond_del s) = get_base_total_opt s"
  "get_base_total_opt (tx_exist_set s j2 v2) = get_base_total_opt s"
  "get_base_total_opt (tx_exist_del s j2) = get_base_total_opt s"
  "get_base_total_opt (balance_set s j3 v3) = get_base_total_opt s"
  "get_base_total_opt (balance_del s j3) = get_base_total_opt s"
  "get_base_total_opt (diamond_set s j4 v4) = get_base_total_opt s"
  "get_base_total_opt (diamond_del s j4) = get_base_total_opt s"
  "get_base_total_opt (diamond_name_set s j5 v5) = get_base_total_opt s"
  "get_base_total_opt (diamond_smelt_set s j6 v6) = get_base_total_opt s"
  "get_base_total_opt (diamond_owned_set s j7 v7) = get_base_total_opt s"
  "get_base_total_opt (diamond_owned_del s j7) = get_base_total_opt s"
  "get_base_total_opt (asset_smelt_set s j8 v8) = get_base_total_opt s"
  "get_base_total_opt (asset_smelt_del s j8) = get_base_total_opt s"
  by (simp_all add: core_set_defs key_defs base_total_cell.frame_set base_total_cell.frame_del)

lemma get_latest_diamond_frame [simp]:
  "get_latest_diamond (base_total_set s v0) = get_latest_diamond s"
  "get_latest_diamond (base_total_del s) = get_latest_diamond s"
  "get_latest_diamond (tx_exist_set s j2 v2) = get_latest_diamond s"
  "get_latest_diamond (tx_exist_del s j2) = get_latest_diamond s"
  "get_latest_diamond (balance_set s j3 v3) = get_latest_diamond s"
  "get_latest_diamond (balance_del s j3) = get_latest_diamond s"
  "get_latest_diamond (diamond_set s j4 v4) = get_latest_diamond s"
  "get_latest_diamond (diamond_del s j4) = get_latest_diamond s"
  "get_latest_diamond (diamond_name_set s j5 v5) = get_latest_diamond s"
  "get_latest_diamond (diamond_smelt_set s j6 v6) = get_latest_diamond s"
  "get_latest_diamond (diamond_owned_set s j7 v7) = get_latest_diamond s"
  "get_latest_diamond (diamond_owned_del s j7) = get_latest_diamond s"
  "get_latest_diamond (asset_smelt_set s j8 v8) = get_latest_diamond s"
  "get_latest_diamond (asset_smelt_del s j8) = get_latest_diamond s"
  by (simp_all add: core_set_defs key_defs latest_diamond_cell.frame_set latest_diamond_cell.frame_del)

lemma get_tx_exist_frame [simp]:
  "get_tx_exist (base_total_set s v0) k = get_tx_exist s k"
  "get_tx_exist (base_total_del s) k = get_tx_exist s k"
  "get_tx_exist (latest_diamond_set s v1) k = get_tx_exist s k"
  "get_tx_exist (latest_diamond_del s) k = get_tx_exist s k"
  "get_tx_exist (balance_set s j3 v3) k = get_tx_exist s k"
  "get_tx_exist (balance_del s j3) k = get_tx_exist s k"
  "get_tx_exist (diamond_set s j4 v4) k = get_tx_exist s k"
  "get_tx_exist (diamond_del s j4) k = get_tx_exist s k"
  "get_tx_exist (diamond_name_set s j5 v5) k = get_tx_exist s k"
  "get_tx_exist (diamond_smelt_set s j6 v6) k = get_tx_exist s k"
  "get_tx_exist (diamond_owned_set s j7 v7) k = get_tx_exist s k"
  "get_tx_exist (diamond_owned_del s j7) k = get_tx_exist s k"
  "get_tx_exist (asset_smelt_set s j8 v8) k = get_tx_exist s k"
  "get_tx_exist (asset_smelt_del s j8) k = get_tx_exist s k"
  by (simp_all add: core_set_defs key_defs tx_exist_cell.frame_set tx_exist_cell.frame_del)

lemma get_balance_frame [simp]:
  "get_balance (base_total_set s v0) k = get_balance s k"
  "get_balance (base_total_del s) k = get_balance s k"
  "get_balance (latest_diamond_set s v1) k = get_balance s k"
  "get_balance (latest_diamond_del s) k = get_balance s k"
  "get_balance (tx_exist_set s j2 v2) k = get_balance s k"
  "get_balance (tx_exist_del s j2) k = get_balance s k"
  "get_balance (diamond_set s j4 v4) k = get_balance s k"
  "get_balance (diamond_del s j4) k = get_balance s k"
  "get_balance (diamond_name_set s j5 v5) k = get_balance s k"
  "get_balance (diamond_smelt_set s j6 v6) k = get_balance s k"
  "get_balance (diamond_owned_set s j7 v7) k = get_balance s k"
  "get_balance (diamond_owned_del s j7) k = get_balance s k"
  "get_balance (asset_smelt_set s j8 v8) k = get_balance s k"
  "get_balance (asset_smelt_del s j8) k = get_balance s k"
  by (simp_all add: core_set_defs key_defs balance_cell.frame_set balance_cell.frame_del)

lemma get_diamond_frame [simp]:
  "get_diamond (base_total_set s v0) k = get_diamond s k"
  "get_diamond (base_total_del s) k = get_diamond s k"
  "get_diamond (latest_diamond_set s v1) k = get_diamond s k"
  "get_diamond (latest_diamond_del s) k = get_diamond s k"
  "get_diamond (tx_exist_set s j2 v2) k = get_diamond s k"
  "get_diamond (tx_exist_del s j2) k = get_diamond s k"
  "get_diamond (balance_set s j3 v3) k = get_diamond s k"
  "get_diamond (balance_del s j3) k = get_diamond s k"
  "get_diamond (diamond_name_set s j5 v5) k = get_diamond s k"
  "get_diamond (diamond_smelt_set s j6 v6) k = get_diamond s k"
  "get_diamond (diamond_owned_set s j7 v7) k = get_diamond s k"
  "get_diamond (diamond_owned_del s j7) k = get_diamond s k"
  "get_diamond (asset_smelt_set s j8 v8) k = get_diamond s k"
  "get_diamond (asset_smelt_del s j8) k = get_diamond s k"
  by (simp_all add: core_set_defs key_defs diamond_cell.frame_set diamond_cell.frame_del)

lemma get_diamond_name_frame [simp]:
  "get_diamond_name (base_total_set s v0) k = get_diamond_name s k"
  "get_diamond_name (base_total_del s) k = get_diamond_name s k"
  "get_diamond_name (latest_diamond_set s v1) k = get_diamond_name s k"
  "get_diamond_name (latest_diamond_del s) k = get_diamond_name s k"
  "get_diamond_name (tx_exist_set s j2 v2) k = get_diamond_name s k"
  "get_diamond_name (tx_exist_del s j2) k = get_diamond_name s k"
  "get_diamond_name (balance_set s j3 v3) k = get_diamond_name s k"
  "get_diamond_name (balance_del s j3) k = get_diamond_name s k"
  "get_diamond_name (diamond_set s j4 v4) k = get_diamond_name s k"
  "get_diamond_name (diamond_del s j4) k = get_diamond_name s k"
  "get_diamond_name (diamond_smelt_set s j6 v6) k = get_diamond_name s k"
  "get_diamond_name (diamond_owned_set s j7 v7) k = get_diamond_name s k"
  "get_diamond_name (diamond_owned_del s j7) k = get_diamond_name s k"
  "get_diamond_name (asset_smelt_set s j8 v8) k = get_diamond_name s k"
  "get_diamond_name (asset_smelt_del s j8) k = get_diamond_name s k"
  by (simp_all add: core_set_defs key_defs diamond_name_cell.frame_set diamond_name_cell.frame_del)

lemma get_diamond_smelt_frame [simp]:
  "get_diamond_smelt (base_total_set s v0) k = get_diamond_smelt s k"
  "get_diamond_smelt (base_total_del s) k = get_diamond_smelt s k"
  "get_diamond_smelt (latest_diamond_set s v1) k = get_diamond_smelt s k"
  "get_diamond_smelt (latest_diamond_del s) k = get_diamond_smelt s k"
  "get_diamond_smelt (tx_exist_set s j2 v2) k = get_diamond_smelt s k"
  "get_diamond_smelt (tx_exist_del s j2) k = get_diamond_smelt s k"
  "get_diamond_smelt (balance_set s j3 v3) k = get_diamond_smelt s k"
  "get_diamond_smelt (balance_del s j3) k = get_diamond_smelt s k"
  "get_diamond_smelt (diamond_set s j4 v4) k = get_diamond_smelt s k"
  "get_diamond_smelt (diamond_del s j4) k = get_diamond_smelt s k"
  "get_diamond_smelt (diamond_name_set s j5 v5) k = get_diamond_smelt s k"
  "get_diamond_smelt (diamond_owned_set s j7 v7) k = get_diamond_smelt s k"
  "get_diamond_smelt (diamond_owned_del s j7) k = get_diamond_smelt s k"
  "get_diamond_smelt (asset_smelt_set s j8 v8) k = get_diamond_smelt s k"
  "get_diamond_smelt (asset_smelt_del s j8) k = get_diamond_smelt s k"
  by (simp_all add: core_set_defs key_defs diamond_smelt_cell.frame_set diamond_smelt_cell.frame_del)

lemma get_diamond_owned_frame [simp]:
  "get_diamond_owned (base_total_set s v0) k = get_diamond_owned s k"
  "get_diamond_owned (base_total_del s) k = get_diamond_owned s k"
  "get_diamond_owned (latest_diamond_set s v1) k = get_diamond_owned s k"
  "get_diamond_owned (latest_diamond_del s) k = get_diamond_owned s k"
  "get_diamond_owned (tx_exist_set s j2 v2) k = get_diamond_owned s k"
  "get_diamond_owned (tx_exist_del s j2) k = get_diamond_owned s k"
  "get_diamond_owned (balance_set s j3 v3) k = get_diamond_owned s k"
  "get_diamond_owned (balance_del s j3) k = get_diamond_owned s k"
  "get_diamond_owned (diamond_set s j4 v4) k = get_diamond_owned s k"
  "get_diamond_owned (diamond_del s j4) k = get_diamond_owned s k"
  "get_diamond_owned (diamond_name_set s j5 v5) k = get_diamond_owned s k"
  "get_diamond_owned (diamond_smelt_set s j6 v6) k = get_diamond_owned s k"
  "get_diamond_owned (asset_smelt_set s j8 v8) k = get_diamond_owned s k"
  "get_diamond_owned (asset_smelt_del s j8) k = get_diamond_owned s k"
  by (simp_all add: core_set_defs key_defs diamond_owned_cell.frame_set diamond_owned_cell.frame_del)

lemma get_asset_frame [simp]:
  "get_asset (base_total_set s v0) k = get_asset s k"
  "get_asset (base_total_del s) k = get_asset s k"
  "get_asset (latest_diamond_set s v1) k = get_asset s k"
  "get_asset (latest_diamond_del s) k = get_asset s k"
  "get_asset (tx_exist_set s j2 v2) k = get_asset s k"
  "get_asset (tx_exist_del s j2) k = get_asset s k"
  "get_asset (balance_set s j3 v3) k = get_asset s k"
  "get_asset (balance_del s j3) k = get_asset s k"
  "get_asset (diamond_set s j4 v4) k = get_asset s k"
  "get_asset (diamond_del s j4) k = get_asset s k"
  "get_asset (diamond_name_set s j5 v5) k = get_asset s k"
  "get_asset (diamond_smelt_set s j6 v6) k = get_asset s k"
  "get_asset (diamond_owned_set s j7 v7) k = get_asset s k"
  "get_asset (diamond_owned_del s j7) k = get_asset s k"
  by (simp_all add: core_set_defs key_defs asset_cell.frame_set asset_cell.frame_del)

end
