(* ===== verification/Ledger.thy ===== *)
theory Ledger
  imports CoreState
begin

text \<open>
  The operations of the ledger, \<^verbatim>\<open>src/base/src/ledger/operate.rs\<close>: crediting, debiting,
  checking and transferring HAC, satoshi, assets and diamonds, the statistics of what the
  black-hole address swallows, and the owned forms. An operation takes the state layer and
  returns its result with the new layer, or an error; the caller of a failed operation drops
  the layer. The block height of the context is an argument where the code reads it.
\<close>

section \<open>Checks and statistics\<close>

definition check_amount_is_positive :: "amount \<Rightarrow> unit ret" where
  "check_amount_is_positive amt = (if \<not> amt_is_positive amt then errf ''amount value is not positive'' else Ok ())"

definition BLACKHOLE_ADDR :: address where
  "BLACKHOLE_ADDR = replicate 21 0"

definition check_transfer_recipient_allowed :: "address \<Rightarrow> unit ret" where
  "check_transfer_recipient_allowed to =
     (if is_privkey_unknown to \<and> to \<noteq> BLACKHOLE_ADDR
      then errf ''cannot transfer to system address (privkey unknown)'' else Ok ())"

definition check_supported_address :: "address \<Rightarrow> unit ret" where
  "check_supported_address addr =
     (if is_supported addr then Ok () else errf ''address version not supported'')"

definition u64_to_uint8 :: "nat \<Rightarrow> nat ret" where
  "u64_to_uint8 v = ok_or (uint_from_checked 8 8 v) (Error Fault ''overflow'' None)"

definition u128_to_uint12 :: "nat \<Rightarrow> nat ret" where
  "u128_to_uint12 v = ok_or (uint_from_checked 16 12 v) (Error Fault ''overflow'' None)"

definition with_base_total :: "layer \<Rightarrow> (base_total \<Rightarrow> ('r \<times> base_total) ret) \<Rightarrow> ('r \<times> layer) ret" where
  "with_base_total s f =
     try_ret (get_base_total s) (\<lambda>total.
     try_ret (f total) (\<lambda>(res, total).
     Ok (res, base_total_set s total)))"

definition total_add_u8 :: "nat \<Rightarrow> nat \<Rightarrow> nat ret" where
  "total_add_u8 cur add =
     try_ret (ok_or (checked_add 64 cur add) (Error Fault ''overflow'' None)) (\<lambda>next. u64_to_uint8 next)"

definition total_add_u12 :: "nat \<Rightarrow> nat \<Rightarrow> nat ret" where
  "total_add_u12 cur add =
     try_ret (ok_or (checked_add 128 cur add) (Error Fault ''overflow'' None)) (\<lambda>next. u128_to_uint12 next)"

definition total_add_diamond_number :: "nat \<Rightarrow> nat \<Rightarrow> nat ret" where
  "total_add_diamond_number cur add =
     try_ret (ok_or (checked_add 64 cur add) (Error Fault ''overflow'' None)) (\<lambda>next. uint_from_usize 4 3 next)"

definition total_sub_u8 :: "nat \<Rightarrow> nat \<Rightarrow> nat ret" where
  "total_sub_u8 cur sub =
     try_ret (ok_or (checked_sub cur sub) (Error Fault ''underflow'' None)) (\<lambda>next. u64_to_uint8 next)"

definition total_sub_u12 :: "nat \<Rightarrow> nat \<Rightarrow> nat ret" where
  "total_sub_u12 cur sub =
     try_ret (ok_or (checked_sub cur sub) (Error Fault ''underflow'' None)) (\<lambda>next. u128_to_uint12 next)"

definition total_add_amount_238 :: "nat \<Rightarrow> amount \<Rightarrow> nat ret" where
  "total_add_amount_238 cur amt = try_ret (to_238_u64 amt) (\<lambda>v. total_add_u12 cur v)"

definition total_record_blackhole_hac :: "layer \<Rightarrow> amount \<Rightarrow> (unit \<times> layer) ret" where
  "total_record_blackhole_hac s amt =
     (if \<not> amt_is_positive amt then Ok ((), s)
      else
        with_base_total s (\<lambda>total.
        try_ret (total_add_amount_238 (bt_blackhole_hac_burn_238 total) amt) (\<lambda>v.
        Ok ((), total\<lparr>bt_blackhole_hac_burn_238 := v\<rparr>))))"

definition total_record_blackhole_sat :: "layer \<Rightarrow> nat \<Rightarrow> (unit \<times> layer) ret" where
  "total_record_blackhole_sat s sat =
     (if sat = 0 then Ok ((), s)
      else
        with_base_total s (\<lambda>total.
        try_ret (total_add_u8 (bt_blackhole_sat_burn total) sat) (\<lambda>v.
        Ok ((), total\<lparr>bt_blackhole_sat_burn := v\<rparr>))))"

definition total_record_blackhole_asset :: "layer \<Rightarrow> (unit \<times> layer) ret" where
  "total_record_blackhole_asset s =
     with_base_total s (\<lambda>total.
     try_ret (total_add_u8 (bt_blackhole_asset_burn_count total) 1) (\<lambda>v.
     Ok ((), total\<lparr>bt_blackhole_asset_burn_count := v\<rparr>)))"

definition total_record_blackhole_hacd :: "layer \<Rightarrow> (unit \<times> layer) ret" where
  "total_record_blackhole_hacd s =
     with_base_total s (\<lambda>total.
     try_ret (total_add_u8 (bt_blackhole_hacd_burn_count total) 1) (\<lambda>v.
     Ok ((), total\<lparr>bt_blackhole_hacd_burn_count := v\<rparr>)))"

definition blackhole_engulf :: "layer \<Rightarrow> address \<Rightarrow> (bool \<times> layer) ret" where
  "blackhole_engulf s addr =
     (if addr \<noteq> BLACKHOLE_ADDR then Ok (False, s)
      else
        let s = balance_set s addr bal_default in
        try_ret (diamond_owned_exist s addr) (\<lambda>exist.
        Ok (True, if exist then diamond_owned_del s addr else s)))"

text \<open>The balance an operation starts from: the stored one, or the default.\<close>

definition balance_or_default :: "layer \<Rightarrow> address \<Rightarrow> balance ret" where
  "balance_or_default s addr =
     try_ret (get_balance s addr) (\<lambda>b. Ok (case b of Some b \<Rightarrow> b | None \<Rightarrow> bal_default))"

section \<open>HAC\<close>

definition amt_ge :: "amount \<Rightarrow> amount \<Rightarrow> bool" where
  "amt_ge a b \<longleftrightarrow> amt_cmp a b \<in> {Greater, Equal}"

definition do_hac_add :: "layer \<Rightarrow> address \<Rightarrow> amount \<Rightarrow> (amount \<times> layer) ret" where
  "do_hac_add s addr amt =
     try_ret (check_supported_address addr) (\<lambda>_.
     try_ret (balance_or_default s addr) (\<lambda>balance.
     try_ret (add_mode_u128 (bal_hacash balance) amt) (\<lambda>new_hac.
     try_ret (check_store_long new_hac) (\<lambda>_.
     Ok (new_hac, balance_set s addr (balance\<lparr>bal_hacash := new_hac\<rparr>))))))"

definition do_hac_sub :: "layer \<Rightarrow> address \<Rightarrow> amount \<Rightarrow> (amount \<times> layer) ret" where
  "do_hac_sub s addr amt =
     try_ret (check_supported_address addr) (\<lambda>_.
     try_ret (balance_or_default s addr) (\<lambda>balance.
     if amt_less (bal_hacash balance) amt then revertf ''address balance is insufficient''
     else
       try_ret (sub_mode_u128 (bal_hacash balance) amt) (\<lambda>new_hac.
       try_ret (check_store_long new_hac) (\<lambda>_.
       Ok (new_hac, balance_set s addr (balance\<lparr>bal_hacash := new_hac\<rparr>))))))"

definition hac_check :: "layer \<Rightarrow> address \<Rightarrow> amount \<Rightarrow> amount ret" where
  "hac_check s addr amt =
     try_ret (check_amount_is_positive amt) (\<lambda>_.
     try_ret (check_supported_address addr) (\<lambda>_.
     try_ret (get_balance s addr) (\<lambda>b.
     case b of
       Some balance \<Rightarrow>
         if amt_ge (bal_hacash balance) amt then Ok (bal_hacash balance)
         else revertf ''address balance is insufficient''
     | None \<Rightarrow> revertf ''address balance is insufficient'')))"

definition hac_add_state :: "layer \<Rightarrow> address \<Rightarrow> amount \<Rightarrow> (unit \<times> layer) ret" where
  "hac_add_state s addr amt =
     try_ret (check_amount_is_positive amt) (\<lambda>_.
     try_ret (do_hac_add s addr amt) (\<lambda>(_, s).
     try_ret (blackhole_engulf s addr) (\<lambda>(engulfed, s).
     if engulfed then total_record_blackhole_hac s amt else Ok ((), s))))"

definition hac_add :: "layer \<Rightarrow> address \<Rightarrow> amount \<Rightarrow> (unit \<times> layer) ret" where
  "hac_add s addr amt = hac_add_state s addr amt"

definition hac_sub :: "layer \<Rightarrow> address \<Rightarrow> amount \<Rightarrow> (unit \<times> layer) ret" where
  "hac_sub s addr amt =
     try_ret (check_amount_is_positive amt) (\<lambda>_.
     try_ret (do_hac_sub s addr amt) (\<lambda>(_, s). Ok ((), s)))"

definition hac_transfer :: "nat \<Rightarrow> layer \<Rightarrow> address \<Rightarrow> address \<Rightarrow> amount \<Rightarrow> (unit \<times> layer) ret" where
  "hac_transfer height s from to amt =
     try_ret (check_transfer_recipient_allowed to) (\<lambda>_.
     if from = to then
       if \<not> is_privkey from then errf ''non-privkey address cannot transfer HAC to self''
       else if height \<ge> 200000 then try_ret (hac_check s from amt) (\<lambda>_. Ok ((), s))
       else Ok ((), s)
     else
       try_ret (check_amount_is_positive amt) (\<lambda>_.
       try_ret (do_hac_sub s from amt) (\<lambda>(_, s).
       try_ret (hac_add s to amt) (\<lambda>(_, s). Ok ((), s)))))"

section \<open>Satoshi\<close>

definition check_satoshi_nonzero :: "nat \<Rightarrow> unit ret" where
  "check_satoshi_nonzero sat =
     (if sat = 0 then errf ''satoshi amount cannot be empty'' else check_satoshi sat)"

definition sat_add :: "layer \<Rightarrow> address \<Rightarrow> nat \<Rightarrow> (nat \<times> layer) ret" where
  "sat_add s addr sat =
     try_ret (check_satoshi_nonzero sat) (\<lambda>_.
     try_ret (check_supported_address addr) (\<lambda>_.
     try_ret (balance_or_default s addr) (\<lambda>balance.
     try_ret (uint_from 8 8 (bal_satoshi balance)) (\<lambda>old.
     try_ret (ok_or (checked_add 64 old sat) (Error Fault ''satoshi add overflow'' None)) (\<lambda>sum.
     try_ret (uint_from 8 8 sum) (\<lambda>next.
     try_ret (from_satoshi next) (\<lambda>satoshi.
     let s = balance_set s addr (balance\<lparr>bal_satoshi := satoshi\<rparr>) in
     try_ret (blackhole_engulf s addr) (\<lambda>(engulfed, s).
     try_ret (if engulfed then total_record_blackhole_sat s sat else Ok ((), s)) (\<lambda>(_, s).
     Ok (next, s))))))))))"

definition sat_sub :: "layer \<Rightarrow> address \<Rightarrow> nat \<Rightarrow> (nat \<times> layer) ret" where
  "sat_sub s addr sat =
     try_ret (check_satoshi_nonzero sat) (\<lambda>_.
     try_ret (check_supported_address addr) (\<lambda>_.
     try_ret (balance_or_default s addr) (\<lambda>balance.
     try_ret (uint_from 8 8 (bal_satoshi balance)) (\<lambda>old.
     if old < sat then revertf ''address satoshi is insufficient''
     else
       try_ret (uint_from 8 8 (old - sat)) (\<lambda>next.
       try_ret (from_satoshi next) (\<lambda>satoshi.
       Ok (next, balance_set s addr (balance\<lparr>bal_satoshi := satoshi\<rparr>))))))))"

definition sat_check :: "layer \<Rightarrow> address \<Rightarrow> nat \<Rightarrow> nat ret" where
  "sat_check s addr sat =
     try_ret (check_satoshi_nonzero sat) (\<lambda>_.
     try_ret (check_supported_address addr) (\<lambda>_.
     try_ret (get_balance s addr) (\<lambda>b.
     case b of
       Some balance \<Rightarrow>
         try_ret (uint_from 8 8 (bal_satoshi balance)) (\<lambda>old.
         if old \<ge> sat then Ok old else revertf ''address satoshi is insufficient'')
     | None \<Rightarrow> revertf ''address satoshi is insufficient'')))"

definition sat_transfer :: "layer \<Rightarrow> address \<Rightarrow> address \<Rightarrow> nat \<Rightarrow> (unit \<times> layer) ret" where
  "sat_transfer s from to sat =
     try_ret (check_transfer_recipient_allowed to) (\<lambda>_.
     if from = to then errf ''cannot transfer to self''
     else
       try_ret (sat_sub s from sat) (\<lambda>(_, s).
       try_ret (sat_add s to sat) (\<lambda>(_, s). Ok ((), s))))"

section \<open>Assets\<close>

definition check_asset_nonzero :: "asset_amt \<Rightarrow> unit ret" where
  "check_asset_nonzero asset =
     (if aa_amount asset = 0 then errf ''asset amount cannot be empty'' else Ok ())"

definition asset_add :: "layer \<Rightarrow> address \<Rightarrow> asset_amt \<Rightarrow> (asset_amt \<times> layer) ret" where
  "asset_add s addr asset =
     try_ret (check_asset_nonzero asset) (\<lambda>_.
     try_ret (check_supported_address addr) (\<lambda>_.
     try_ret (balance_or_default s addr) (\<lambda>balance.
     try_ret (asset_must balance (aa_serial asset)) (\<lambda>old.
     try_ret (aa_checked_add old asset) (\<lambda>next.
     try_ret (asset_set balance next) (\<lambda>balance.
     let s = balance_set s addr balance in
     try_ret (blackhole_engulf s addr) (\<lambda>(engulfed, s).
     try_ret (if engulfed then total_record_blackhole_asset s else Ok ((), s)) (\<lambda>(_, s).
     Ok (next, s)))))))))"

definition asset_sub :: "layer \<Rightarrow> address \<Rightarrow> asset_amt \<Rightarrow> (asset_amt \<times> layer) ret" where
  "asset_sub s addr asset =
     try_ret (check_asset_nonzero asset) (\<lambda>_.
     try_ret (check_supported_address addr) (\<lambda>_.
     try_ret (balance_or_default s addr) (\<lambda>balance.
     try_ret (asset_must balance (aa_serial asset)) (\<lambda>old.
     if aa_less old asset then revertf ''address asset is insufficient''
     else
       try_ret (aa_checked_sub old asset) (\<lambda>next.
       try_ret (asset_set balance next) (\<lambda>balance.
       Ok (next, balance_set s addr balance)))))))"

definition asset_check :: "layer \<Rightarrow> address \<Rightarrow> asset_amt \<Rightarrow> asset_amt ret" where
  "asset_check s addr asset =
     try_ret (check_asset_nonzero asset) (\<lambda>_.
     try_ret (check_supported_address addr) (\<lambda>_.
     try_ret (get_balance s addr) (\<lambda>b.
     case b of
       Some balance \<Rightarrow>
         (case bal_asset balance (aa_serial asset) of
            Some old \<Rightarrow> if aa_ge old asset then Ok old else revertf ''address asset is insufficient''
          | None \<Rightarrow> revertf ''address asset is insufficient'')
     | None \<Rightarrow> revertf ''address asset is insufficient'')))"

definition asset_transfer :: "layer \<Rightarrow> address \<Rightarrow> address \<Rightarrow> asset_amt \<Rightarrow> (unit \<times> layer) ret" where
  "asset_transfer s from to asset =
     try_ret (check_transfer_recipient_allowed to) (\<lambda>_.
     if from = to then errf ''cannot transfer to self''
     else
       try_ret (asset_sub s from asset) (\<lambda>(_, s).
       try_ret (asset_add s to asset) (\<lambda>(_, s). Ok ((), s))))"

section \<open>Diamonds\<close>

abbreviation DIAMOND_STATUS_NORMAL :: nat where "DIAMOND_STATUS_NORMAL \<equiv> 1"

definition hacd_add :: "layer \<Rightarrow> address \<Rightarrow> nat \<Rightarrow> (nat \<times> layer) ret" where
  "hacd_add s addr hacd =
     try_ret (check_supported_address addr) (\<lambda>_.
     try_ret (balance_or_default s addr) (\<lambda>balance.
     try_ret (to_diamond (bal_diamond balance)) (\<lambda>old.
     try_ret (ok_or (checked_add 32 old hacd) (Error Fault ''diamond add overflow'' None)) (\<lambda>sum.
     try_ret (uint_from 4 3 sum) (\<lambda>next.
     let s = balance_set s addr (balance\<lparr>bal_diamond := next\<rparr>) in
     try_ret (blackhole_engulf s addr) (\<lambda>(engulfed, s).
     try_ret (if engulfed then total_record_blackhole_hacd s else Ok ((), s)) (\<lambda>(_, s).
     Ok (next, s))))))))"

definition hacd_sub :: "layer \<Rightarrow> address \<Rightarrow> nat \<Rightarrow> (nat \<times> layer) ret" where
  "hacd_sub s addr hacd =
     try_ret (check_supported_address addr) (\<lambda>_.
     try_ret (balance_or_default s addr) (\<lambda>balance.
     try_ret (to_diamond (bal_diamond balance)) (\<lambda>old.
     if old < hacd then revertf ''address diamond is insufficient''
     else
       try_ret (uint_from 4 3 (old - hacd)) (\<lambda>next.
       Ok (next, balance_set s addr (balance\<lparr>bal_diamond := next\<rparr>))))))"

definition hacd_adjust_count :: "layer \<Rightarrow> address \<Rightarrow> address \<Rightarrow> nat \<Rightarrow> (unit \<times> layer) ret" where
  "hacd_adjust_count s from to hacd =
     (if from = to then errf ''cannot transfer to self''
      else
        try_ret (hacd_sub s from hacd) (\<lambda>(_, s).
        try_ret (hacd_add s to hacd) (\<lambda>(_, s). Ok ((), s))))"

definition check_diamond_status :: "layer \<Rightarrow> address \<Rightarrow> diamond_name \<Rightarrow> diamond_sto ret" where
  "check_diamond_status s addr_from hacd_name =
     try_ret (check_supported_address addr_from) (\<lambda>_.
     try_ret (get_diamond s hacd_name) (\<lambda>d.
     case d of
       None \<Rightarrow> errf ''diamond status not found''
     | Some diaitem \<Rightarrow>
         if dsto_status diaitem \<noteq> DIAMOND_STATUS_NORMAL
         then revertf ''diamond has been mortgaged and cannot be transferred''
         else if addr_from \<noteq> dsto_address diaitem
         then revertf ''diamond does not belong to address''
         else Ok diaitem))"

definition hacd_move_one_diamond :: "layer \<Rightarrow> address \<Rightarrow> address \<Rightarrow> diamond_name \<Rightarrow> layer ret" where
  "hacd_move_one_diamond s addr_from addr_to hacd_name =
     try_ret (check_supported_address addr_from) (\<lambda>_.
     try_ret (check_supported_address addr_to) (\<lambda>_.
     if addr_from = addr_to then errf ''cannot transfer to self''
     else
       try_ret (check_diamond_status s addr_from hacd_name) (\<lambda>diaitem.
       Ok (diamond_set s hacd_name (diaitem\<lparr>dsto_address := addr_to\<rparr>)))))"

primrec hacd_move_diamonds :: "layer \<Rightarrow> address \<Rightarrow> address \<Rightarrow> diamond_name list \<Rightarrow> layer ret" where
  "hacd_move_diamonds s from to [] = Ok s"
| "hacd_move_diamonds s from to (name # rest) =
     try_ret (hacd_move_one_diamond s from to name) (\<lambda>s. hacd_move_diamonds s from to rest)"

definition owned_or_default :: "layer \<Rightarrow> address \<Rightarrow> bytes ret" where
  "owned_or_default s addr =
     try_ret (get_diamond_owned s addr) (\<lambda>o'. Ok (case o' of Some f \<Rightarrow> f | None \<Rightarrow> []))"

definition diamond_owned_push_one :: "layer \<Rightarrow> address \<Rightarrow> diamond_name \<Rightarrow> layer ret" where
  "diamond_owned_push_one s address name =
     try_ret (check_supported_address address) (\<lambda>_.
     try_ret (owned_or_default s address) (\<lambda>owned.
     try_ret (owned_push_one owned name) (\<lambda>owned.
     Ok (diamond_owned_set s address owned))))"

definition diamond_owned_append :: "layer \<Rightarrow> address \<Rightarrow> diamond_name list \<Rightarrow> layer ret" where
  "diamond_owned_append s address list =
     try_ret (check_supported_address address) (\<lambda>_.
     try_ret (owned_or_default s address) (\<lambda>owned.
     try_ret (owned_push owned list) (\<lambda>owned.
     Ok (diamond_owned_set s address owned))))"

definition diamond_owned_move :: "layer \<Rightarrow> address \<Rightarrow> address \<Rightarrow> diamond_name list \<Rightarrow> layer ret" where
  "diamond_owned_move s from to list =
     try_ret (check_supported_address from) (\<lambda>_.
     try_ret (check_supported_address to) (\<lambda>_.
     if from = to then errf ''cannot transfer to self''
     else
       try_ret (get_diamond_owned s from) (\<lambda>o'.
       case o' of
         None \<Rightarrow> errf ''diamond owner record not found''
       | Some from_owned \<Rightarrow>
           try_ret (owned_drop from_owned list) (\<lambda>(_, from_owned).
           let s = (if length from_owned > 0 then diamond_owned_set s from from_owned
                    else diamond_owned_del s from) in
           try_ret (owned_or_default s to) (\<lambda>to_owned.
           try_ret (owned_push to_owned list) (\<lambda>to_owned.
           Ok (diamond_owned_set s to to_owned)))))))"

definition hacd_transfer :: "layer \<Rightarrow> address \<Rightarrow> address \<Rightarrow> diamond_name list \<Rightarrow> bool \<Rightarrow> (unit \<times> layer) ret" where
  "hacd_transfer s from to diamonds diamond_form =
     try_ret (dnl_check DIAMOND_LIST_MAX diamonds) (\<lambda>dianum.
     try_ret (hacd_move_diamonds s from to diamonds) (\<lambda>s.
     try_ret (if diamond_form then diamond_owned_move s from to diamonds else Ok s) (\<lambda>s.
     try_ret (uint_from 4 3 dianum) (\<lambda>n.
     hacd_adjust_count s from to n))))"

end
