(* ===== verification/LedgerProps.thy ===== *)
theory LedgerProps
  imports Ledger
begin

text \<open>
  What the balance operations of the ledger do to the balances: the view of a state as a
  function from addresses to balances, the invariant every operation keeps, and a contract of
  debit and credit that HAC, satoshi, assets and diamond counts satisfy. Conservation of a
  transfer is proved once, from the contract.
\<close>

section \<open>The balances of a state\<close>

definition bal_at :: "layer \<Rightarrow> address \<Rightarrow> balance" where
  "bal_at s a = (case get_balance s a of Inr (Some b) \<Rightarrow> b | _ \<Rightarrow> bal_default)"

definition wf_balances :: "layer \<Rightarrow> bool" where
  "wf_balances s \<longleftrightarrow>
     (\<forall>a. addr_valid a \<longrightarrow> (\<exists>b. get_balance s a = Ok b) \<and> amt_nonneg (bal_hacash (bal_at s a)))"

lemma bal_at_valid [simp]: "bal_valid (bal_at s a)"
  using balance_cell.store.get_valid [of s a]
  by (auto simp: bal_at_def split: sum.splits option.splits)

lemma balance_or_default_eq:
  "wf_balances s \<Longrightarrow> addr_valid a \<Longrightarrow> balance_or_default s a = Ok (bal_at s a)"
proof -
  assume "wf_balances s" "addr_valid a"
  then obtain b where "get_balance s a = Ok b" by (auto simp: wf_balances_def)
  then show ?thesis by (cases b) (simp_all add: balance_or_default_def bal_at_def)
qed

lemma wf_nonneg: "wf_balances s \<Longrightarrow> addr_valid a \<Longrightarrow> amt_nonneg (bal_hacash (bal_at s a))"
  by (simp add: wf_balances_def)

lemma bal_at_set:
  "addr_valid a \<Longrightarrow> addr_valid b \<Longrightarrow> bal_valid v \<Longrightarrow>
   bal_at (balance_set s a v) b = (if b = a then v else bal_at s b)"
  by (simp add: bal_at_def balance_cell.store.get_put)

lemma wf_balance_set:
  assumes "wf_balances s" "addr_valid a" "bal_valid v" "amt_nonneg (bal_hacash v)"
  shows "wf_balances (balance_set s a v)"
  using assms by (simp add: wf_balances_def bal_at_set balance_cell.store.get_put)

lemma bal_at_frame [simp]:
  "bal_at (base_total_set s t) a = bal_at s a"
  "bal_at (diamond_set s n d) a = bal_at s a"
  "bal_at (diamond_owned_set s o1 f) a = bal_at s a"
  "bal_at (diamond_owned_del s o1) a = bal_at s a"
  by (simp_all add: bal_at_def)

lemma wf_balances_frame [simp]:
  "wf_balances (base_total_set s t) = wf_balances s"
  "wf_balances (diamond_set s n d) = wf_balances s"
  "wf_balances (diamond_owned_set s o1 f) = wf_balances s"
  "wf_balances (diamond_owned_del s o1) = wf_balances s"
  by (simp_all add: wf_balances_def)

lemma bal_default_nonneg [simp]: "amt_nonneg (bal_hacash bal_default)"
  by (simp add: bal_default_def amt_nonneg_def amt_zero_def amt_valid_def)

lemma check_supported_Ok [simp]: "check_supported_address a = Ok u \<longleftrightarrow> is_supported a"
  by (simp add: check_supported_address_def)

lemma check_positive_Ok [simp]: "check_amount_is_positive amt = Ok u \<longleftrightarrow> amt_is_positive amt"
  by (simp add: check_amount_is_positive_def)

lemma recipient_Ok [simp]:
  "check_transfer_recipient_allowed a = Ok u \<longleftrightarrow> (is_privkey_unknown a \<longrightarrow> a = BLACKHOLE_ADDR)"
  by (auto simp: check_transfer_recipient_allowed_def)

lemma blackhole_valid [simp]: "addr_valid BLACKHOLE_ADDR"
  using addr_default_valid by (simp add: BLACKHOLE_ADDR_def addr_default_def ADDRESS_SIZE_def)

section \<open>Black hole and statistics\<close>

lemma engulf_no: "addr \<noteq> BLACKHOLE_ADDR \<Longrightarrow> blackhole_engulf s addr = Ok (False, s)"
  by (simp add: blackhole_engulf_def)

lemma engulf_spec:
  assumes "blackhole_engulf s addr = Ok (e, s')"
  shows "e \<longleftrightarrow> addr = BLACKHOLE_ADDR"
    and "wf_balances s \<Longrightarrow> wf_balances s'"
    and "addr_valid b \<Longrightarrow> bal_at s' b =
      (if addr = BLACKHOLE_ADDR \<and> b = BLACKHOLE_ADDR then bal_default else bal_at s b)"
    and "get_diamond s' = get_diamond s"
    and "get_base_total s' = get_base_total s"
  using assms
  by (auto simp: blackhole_engulf_def bal_at_set wf_balance_set get_base_total_def Let_def
      split: if_splits)

lemma with_base_total_spec:
  assumes "with_base_total s f = Ok (r, s')"
  obtains t t' where "get_base_total s = Ok t" and "f t = Ok (r, t')" and "s' = base_total_set s t'"
  using assms by (auto simp: with_base_total_def)

text \<open>The operations that only touch the statistics.\<close>

definition totals_only :: "layer \<Rightarrow> layer \<Rightarrow> bool" where
  "totals_only s s' \<longleftrightarrow> s' = s \<or> (\<exists>t. s' = base_total_set s t)"

lemma totals_only_simps:
  assumes "totals_only s s'"
  shows "bal_at s' = bal_at s" and "wf_balances s' = wf_balances s" and "get_diamond s' = get_diamond s"
    and "get_diamond_owned s' = get_diamond_owned s" and "get_balance s' = get_balance s"
  using assms by (auto simp: totals_only_def)

lemma record_totals_only:
  "total_record_blackhole_hac s amt = Ok ((), s') \<Longrightarrow> totals_only s s'"
  "total_record_blackhole_sat s sat = Ok ((), s') \<Longrightarrow> totals_only s s'"
  "total_record_blackhole_asset s = Ok ((), s') \<Longrightarrow> totals_only s s'"
  "total_record_blackhole_hacd s = Ok ((), s') \<Longrightarrow> totals_only s s'"
  by (auto simp: total_record_blackhole_hac_def total_record_blackhole_sat_def
      total_record_blackhole_asset_def total_record_blackhole_hacd_def totals_only_def
      elim!: with_base_total_spec split: if_splits)

lemma tail_totals:
  "(if e then r else Ok ((), s1)) = Ok ((), s') \<Longrightarrow> (r = Ok ((), s') \<Longrightarrow> totals_only s1 s') \<Longrightarrow> totals_only s1 s'"
  by (auto simp: totals_only_def split: if_splits)

text \<open>The tail of every crediting operation.\<close>

lemma credit_tail:
  assumes "blackhole_engulf s addr = Ok (e, s1)"
    and "totals_only s1 s'" and "wf_balances s" and "addr_valid b"
  shows "wf_balances s'" and "bal_at s' b =
      (if addr = BLACKHOLE_ADDR \<and> b = BLACKHOLE_ADDR then bal_default else bal_at s b)"
    and "get_diamond s' = get_diamond s"
proof -
  note t = totals_only_simps [OF assms(2)] and e = engulf_spec [OF assms(1)]
  show "wf_balances s'" using t e assms(3) by simp
  show "bal_at s' b =
      (if addr = BLACKHOLE_ADDR \<and> b = BLACKHOLE_ADDR then bal_default else bal_at s b)"
    using t e(3) [OF assms(4)] by simp
  show "get_diamond s' = get_diamond s" using t e by simp
qed

section \<open>The contract of debit and credit\<close>

text \<open>
  \<open>held\<close> is how much of a currency an address holds. A debit takes the amount from one address,
  which must hold it; a credit adds it to one address, except that what goes to the black
  hole is gone together with what the address held.
\<close>

locale fungible =
  fixes held :: "layer \<Rightarrow> address \<Rightarrow> nat"
    and qvalid :: "'q \<Rightarrow> bool" and qty :: "'q \<Rightarrow> nat"
    and debit :: "layer \<Rightarrow> address \<Rightarrow> 'q \<Rightarrow> ('r \<times> layer) ret"
    and credit :: "layer \<Rightarrow> address \<Rightarrow> 'q \<Rightarrow> ('r2 \<times> layer) ret"
  assumes debit_spec: "debit s a q = Ok (r, s') \<Longrightarrow> wf_balances s \<Longrightarrow> length a = ADDRESS_SIZE \<Longrightarrow> qvalid q \<Longrightarrow>
      wf_balances s' \<and> addr_valid a \<and> qty q \<le> held s a \<and>
      (\<forall>b. addr_valid b \<longrightarrow> held s' b = (if b = a then held s a - qty q else held s b))"
    and credit_spec: "credit s a q = Ok (r2, s') \<Longrightarrow> wf_balances s \<Longrightarrow> length a = ADDRESS_SIZE \<Longrightarrow> qvalid q \<Longrightarrow>
      wf_balances s' \<and> addr_valid a \<and>
      (\<forall>b. addr_valid b \<longrightarrow> held s' b =
         (if b = a then if a = BLACKHOLE_ADDR then 0 else held s a + qty q else held s b))"
begin

lemma sum_held_upd:
  assumes "addr_valid a" and "\<forall>b. addr_valid b \<longrightarrow> held s' b = (if b = a then v else held s b)"
  shows "(\<Sum>b | addr_valid b. held s' b) + held s a = (\<Sum>b | addr_valid b. held s b) + v"
proof -
  have split: "(\<Sum>b | addr_valid b. held t b) = held t a + (\<Sum>b | addr_valid b \<and> b \<noteq> a. held t b)" for t
  proof -
    have "{b. addr_valid b} = insert a {b. addr_valid b \<and> b \<noteq> a}" using assms(1) by auto
    moreover have "finite {b. addr_valid b \<and> b \<noteq> a}" by (rule finite_subset [OF _ finite_addr]) auto
    ultimately show ?thesis by simp
  qed
  have "(\<Sum>b | addr_valid b \<and> b \<noteq> a. held s' b) = (\<Sum>b | addr_valid b \<and> b \<noteq> a. held s b)"
    by (rule sum.cong) (use assms in auto)
  then show ?thesis unfolding split using assms by simp
qed

lemma transfer_spec:
  assumes d: "debit s a q = Ok (r1, s1)" and c: "credit s1 b q = Ok (r2, s2)" and wf: "wf_balances s"
    and q: "qvalid q" and l: "length a = ADDRESS_SIZE" "length b = ADDRESS_SIZE" and ne: "a \<noteq> b"
  shows "wf_balances s2" and "qty q \<le> held s a" and "addr_valid a" and "addr_valid b"
    and "addr_valid x \<Longrightarrow> held s2 x =
      (if x = a then held s a - qty q
       else if x = b then if b = BLACKHOLE_ADDR then 0 else held s b + qty q
       else held s x)"
  using debit_spec [OF d wf l(1) q] credit_spec [OF c _ l(2) q] ne by auto

lemma transfer_conserves:
  assumes "debit s a q = Ok (r1, s1)" "credit s1 b q = Ok (r2, s2)" "wf_balances s" "qvalid q"
    "length a = ADDRESS_SIZE" "length b = ADDRESS_SIZE" "a \<noteq> b"
  shows "(\<Sum>x | addr_valid x. held s2 x) + (if b = BLACKHOLE_ADDR then held s b + qty q else 0)
    = (\<Sum>x | addr_valid x. held s x)"
proof -
  have D: "wf_balances s1" "addr_valid a" "qty q \<le> held s a"
    "\<forall>x. addr_valid x \<longrightarrow> held s1 x = (if x = a then held s a - qty q else held s x)"
    using debit_spec [OF assms(1,3,5,4)] by auto
  have C: "addr_valid b" "\<forall>x. addr_valid x \<longrightarrow> held s2 x =
      (if x = b then if b = BLACKHOLE_ADDR then 0 else held s1 b + qty q else held s1 x)"
    using credit_spec [OF assms(2) D(1) assms(6,4)] by auto
  have "held s1 b = held s b" using D(4) C(1) assms(7) by simp
  with sum_held_upd [OF D(2,4)] sum_held_upd [OF C] D(3) show ?thesis by (simp split: if_splits)
qed

lemma debit_total:
  assumes "debit s a q = Ok (r, s')" "wf_balances s" "qvalid q" "length a = ADDRESS_SIZE"
  shows "(\<Sum>x | addr_valid x. held s' x) + qty q = (\<Sum>x | addr_valid x. held s x)"
proof -
  have D: "addr_valid a" "qty q \<le> held s a"
    "\<forall>x. addr_valid x \<longrightarrow> held s' x = (if x = a then held s a - qty q else held s x)"
    using debit_spec [OF assms(1,2,4,3)] by auto
  from sum_held_upd [OF D(1,3)] D(2) show ?thesis by simp
qed

lemma credit_total:
  assumes "credit s a q = Ok (r, s')" "wf_balances s" "qvalid q" "length a = ADDRESS_SIZE" "a \<noteq> BLACKHOLE_ADDR"
  shows "(\<Sum>x | addr_valid x. held s' x) = (\<Sum>x | addr_valid x. held s x) + qty q"
proof -
  have D: "addr_valid a" "\<forall>x. addr_valid x \<longrightarrow> held s' x = (if x = a then held s a + qty q else held s x)"
    using credit_spec [OF assms(1,2,4,3)] assms(5) by auto
  from sum_held_upd [OF D] show ?thesis by simp
qed

end

section \<open>HAC\<close>

definition hac_held :: "layer \<Rightarrow> address \<Rightarrow> nat" where
  "hac_held s a = amt_mag (bal_hacash (bal_at s a))"

lemma bal_valid_upd:
  "bal_valid b \<Longrightarrow> amt_valid n \<Longrightarrow> bal_valid (b\<lparr>bal_hacash := n\<rparr>)"
  "bal_valid b \<Longrightarrow> satoshi_valid v \<Longrightarrow> bal_valid (b\<lparr>bal_satoshi := v\<rparr>)"
  "bal_valid b \<Longrightarrow> diamond_auto_valid v \<Longrightarrow> bal_valid (b\<lparr>bal_diamond := v\<rparr>)"
  by (simp_all add: bal_valid_def)

lemma positive_nonneg: "amt_is_positive amt \<Longrightarrow> amt_valid amt \<Longrightarrow> amt_nonneg amt"
  by (simp add: amt_is_positive_def amt_nonneg_def)

lemma addr_validI: "is_supported a \<Longrightarrow> length a = ADDRESS_SIZE \<Longrightarrow> addr_valid a"
  by (simp add: addr_valid_def)

lemma do_hac_sub_spec:
  assumes "do_hac_sub s a amt = Ok (n, s')" and "wf_balances s" and "length a = ADDRESS_SIZE" and "amt_nonneg amt"
  shows "addr_valid a" and "s' = balance_set s a ((bal_at s a)\<lparr>bal_hacash := n\<rparr>)" and "amt_nonneg n"
    and "amt_mag amt \<le> hac_held s a" and "amt_mag n = hac_held s a - amt_mag amt"
proof -
  have "is_supported a" using assms(1) by (auto simp: do_hac_sub_def)
  then show v: "addr_valid a" using assms(3) by (rule addr_validI)
  note b = balance_or_default_eq [OF assms(2) v] and nn = wf_nonneg [OF assms(2) v]
  from assms(1) b show "s' = balance_set s a ((bal_at s a)\<lparr>bal_hacash := n\<rparr>)"
    by (auto simp: do_hac_sub_def split: if_splits)
  from assms(1) b have m: "sub_mode_u128 (bal_hacash (bal_at s a)) amt = Ok n"
    by (auto simp: do_hac_sub_def split: if_splits)
  from sub_mode_u128_val [OF m nn assms(4)]
  show "amt_nonneg n" "amt_mag amt \<le> hac_held s a" "amt_mag n = hac_held s a - amt_mag amt"
    by (simp_all add: hac_held_def)
qed

lemma do_hac_add_spec:
  assumes "do_hac_add s a amt = Ok (n, s')" and "wf_balances s" and "length a = ADDRESS_SIZE" and "amt_nonneg amt"
  shows "addr_valid a" and "s' = balance_set s a ((bal_at s a)\<lparr>bal_hacash := n\<rparr>)" and "amt_nonneg n"
    and "amt_mag n = hac_held s a + amt_mag amt"
proof -
  have "is_supported a" using assms(1) by (auto simp: do_hac_add_def)
  then show v: "addr_valid a" using assms(3) by (rule addr_validI)
  note b = balance_or_default_eq [OF assms(2) v] and nn = wf_nonneg [OF assms(2) v]
  from assms(1) b show "s' = balance_set s a ((bal_at s a)\<lparr>bal_hacash := n\<rparr>)"
    by (auto simp: do_hac_add_def)
  from assms(1) b have m: "add_mode_u128 (bal_hacash (bal_at s a)) amt = Ok n"
    by (auto simp: do_hac_add_def)
  from add_mode_u128_val [OF m nn assms(4)]
  show "amt_nonneg n" "amt_mag n = hac_held s a + amt_mag amt" by (simp_all add: hac_held_def)
qed

lemma set_hacash:
  assumes "wf_balances s" "addr_valid a" "amt_nonneg n"
  shows "wf_balances (balance_set s a ((bal_at s a)\<lparr>bal_hacash := n\<rparr>))"
    and "addr_valid b \<Longrightarrow> bal_at (balance_set s a ((bal_at s a)\<lparr>bal_hacash := n\<rparr>)) b =
      (if b = a then (bal_at s a)\<lparr>bal_hacash := n\<rparr> else bal_at s b)"
  using assms by (simp_all add: wf_balance_set bal_at_set bal_valid_upd)

lemma hac_sub_effect:
  assumes "hac_sub s a amt = Ok (u, s')" and "wf_balances s" and "length a = ADDRESS_SIZE" and "amt_valid amt"
  shows "wf_balances s'" and "addr_valid a" and "amt_mag amt \<le> hac_held s a"
    and "\<exists>n. amt_mag n = hac_held s a - amt_mag amt \<and> (\<forall>b. addr_valid b \<longrightarrow>
      bal_at s' b = (if b = a then (bal_at s a)\<lparr>bal_hacash := n\<rparr> else bal_at s b))"
    and "get_diamond s' = get_diamond s" and "get_diamond_owned s' = get_diamond_owned s"
    and "get_base_total s' = get_base_total s"
proof -
  from assms(1) obtain n where p: "amt_is_positive amt" and d: "do_hac_sub s a amt = Ok (n, s')"
    by (auto simp: hac_sub_def)
  note sp = do_hac_sub_spec [OF d assms(2,3) positive_nonneg [OF p assms(4)]]
  note st = set_hacash [OF assms(2) sp(1,3)]
  show "wf_balances s'" "addr_valid a" "amt_mag amt \<le> hac_held s a" using sp st by simp_all
  show "\<exists>n. amt_mag n = hac_held s a - amt_mag amt \<and> (\<forall>b. addr_valid b \<longrightarrow>
      bal_at s' b = (if b = a then (bal_at s a)\<lparr>bal_hacash := n\<rparr> else bal_at s b))"
    using sp st(2) by blast
  show "get_diamond s' = get_diamond s" "get_diamond_owned s' = get_diamond_owned s"
    "get_base_total s' = get_base_total s" by (auto simp: sp get_base_total_def)
qed

lemma hac_add_effect:
  assumes "hac_add s a amt = Ok (u, s')" and "wf_balances s" and "length a = ADDRESS_SIZE" and "amt_valid amt"
  shows "wf_balances s'" and "addr_valid a"
    and "\<exists>n. amt_mag n = hac_held s a + amt_mag amt \<and> (\<forall>b. addr_valid b \<longrightarrow>
      bal_at s' b = (if b = a then if a = BLACKHOLE_ADDR then bal_default else (bal_at s a)\<lparr>bal_hacash := n\<rparr>
        else bal_at s b))"
    and "get_diamond s' = get_diamond s"
proof -
  from assms(1) obtain n s1 e s2 where p: "amt_is_positive amt" and d: "do_hac_add s a amt = Ok (n, s1)"
    and e: "blackhole_engulf s1 a = Ok (e, s2)"
    and t: "(if e then total_record_blackhole_hac s2 amt else Ok ((), s2)) = Ok ((), s')"
    by (auto simp: hac_add_def hac_add_state_def)
  note sp = do_hac_add_spec [OF d assms(2,3) positive_nonneg [OF p assms(4)]]
  note st = set_hacash [OF assms(2) sp(1,3), folded sp(2)]
  have tt: "totals_only s2 s'" by (rule tail_totals [OF t]) (rule record_totals_only)
  note ct = credit_tail [OF e tt st(1)]
  show "addr_valid a" by (rule sp(1))
  from ct(1) [OF blackhole_valid] show "wf_balances s'" by simp
  have "bal_at s' b = (if b = a then if a = BLACKHOLE_ADDR then bal_default else (bal_at s a)\<lparr>bal_hacash := n\<rparr>
        else bal_at s b)" if "addr_valid b" for b
    using ct(2) [OF that] st(2) [OF that] by auto
  then show "\<exists>n. amt_mag n = hac_held s a + amt_mag amt \<and> (\<forall>b. addr_valid b \<longrightarrow>
      bal_at s' b = (if b = a then if a = BLACKHOLE_ADDR then bal_default else (bal_at s a)\<lparr>bal_hacash := n\<rparr>
        else bal_at s b))" using sp(4) by blast
  show "get_diamond s' = get_diamond s" using ct(3) [OF blackhole_valid] sp(2) by auto
qed

lemma amt_mag_zero [simp]: "amt_mag (bal_hacash bal_default) = 0"
  by (simp add: bal_default_def amt_mag_def amt_zero_def)

interpretation hac: fungible hac_held amt_valid amt_mag hac_sub hac_add
proof
  fix s a q r s'
  assume "hac_sub s a q = Ok (r, s')" "wf_balances s" "length a = ADDRESS_SIZE" "amt_valid q"
  note e = hac_sub_effect [OF this]
  then show "wf_balances s' \<and> addr_valid a \<and> amt_mag q \<le> hac_held s a \<and>
      (\<forall>b. addr_valid b \<longrightarrow> hac_held s' b = (if b = a then hac_held s a - amt_mag q else hac_held s b))"
    by (auto simp: hac_held_def [of s'] hac_held_def [of s])
next
  fix s a q r s'
  assume "hac_add s a q = Ok (r, s')" "wf_balances s" "length a = ADDRESS_SIZE" "amt_valid q"
  note e = hac_add_effect [OF this]
  then show "wf_balances s' \<and> addr_valid a \<and>
      (\<forall>b. addr_valid b \<longrightarrow> hac_held s' b =
         (if b = a then if a = BLACKHOLE_ADDR then 0 else hac_held s a + amt_mag q else hac_held s b))"
    by (auto simp: hac_held_def [of s'] hac_held_def [of s])
qed

lemma hac_transfer_split:
  assumes "hac_transfer height s from to amt = Ok ((), s')" and "from \<noteq> to"
  obtains s1 where "hac_sub s from amt = Ok ((), s1)" and "hac_add s1 to amt = Ok ((), s')"
    and "amt_is_positive amt" and "is_privkey_unknown to \<longrightarrow> to = BLACKHOLE_ADDR"
  using assms by (auto simp: hac_transfer_def hac_sub_def)

lemma total_add_238:
  assumes "total_add_amount_238 cur amt = Ok v" and "amt_nonneg amt"
  shows "v = cur + amt_mag amt div 10 ^ 238 \<and> uint_valid 16 12 v"
  using assms to_unit_u64_eq [OF assms(2), of 238]
  by (auto simp: total_add_amount_238_def total_add_u12_def u128_to_uint12_def uint_from_checked_def
      uint_valid_def checked_add_def split: if_splits)

lemma bt_default_valid: "bt_valid bt_default"
  by (simp add: bt_valid_def bt_default_def uint_valid_def)

lemma get_base_total_valid: "get_base_total s = Ok t \<Longrightarrow> bt_valid t"
proof -
  assume t: "get_base_total s = Ok t"
  then obtain o' where o': "get_base_total_opt s = Ok o'" by (auto simp: get_base_total_def)
  with t show ?thesis using bt_default_valid base_total_cell.store.get_valid [of s]
    by (cases o') (simp_all add: get_base_total_def)
qed

lemma get_base_total_set: "bt_valid t \<Longrightarrow> get_base_total (base_total_set s t) = Ok t"
  using base_total_cell.store.get_put_same [of t s] by (simp add: get_base_total_def)

lemma record_hac_burn:
  assumes "total_record_blackhole_hac s amt = Ok (u, s')" and "amt_is_positive amt" and "amt_nonneg amt"
    and "get_base_total s = Ok t"
  shows "get_base_total s' =
    Ok (t\<lparr>bt_blackhole_hac_burn_238 := bt_blackhole_hac_burn_238 t + amt_mag amt div 10 ^ 238\<rparr>)"
proof -
  from assms obtain v where v: "total_add_amount_238 (bt_blackhole_hac_burn_238 t) amt = Ok v"
    and s': "s' = base_total_set s (t\<lparr>bt_blackhole_hac_burn_238 := v\<rparr>)"
    by (auto simp: total_record_blackhole_hac_def elim!: with_base_total_spec)
  note tv = total_add_238 [OF v assms(3)]
  have "bt_valid (t\<lparr>bt_blackhole_hac_burn_238 := v\<rparr>)"
    using get_base_total_valid [OF assms(4)] conjunct2 [OF tv] by (simp add: bt_valid_def)
  then show ?thesis using tv by (simp add: s' get_base_total_set)
qed

lemma hac_burn_spec:
  assumes "hac_transfer height s from BLACKHOLE_ADDR amt = Ok ((), s')" and "from \<noteq> BLACKHOLE_ADDR"
    and wf: "wf_balances s" and l: "length from = ADDRESS_SIZE" and v: "amt_valid amt" and t: "get_base_total s = Ok t"
  shows "get_base_total s' =
    Ok (t\<lparr>bt_blackhole_hac_burn_238 := bt_blackhole_hac_burn_238 t + amt_mag amt div 10 ^ 238\<rparr>)"
proof -
  from assms(1,2) obtain s1 where sub: "hac_sub s from amt = Ok ((), s1)"
    and add: "hac_add s1 BLACKHOLE_ADDR amt = Ok ((), s')" and p: "amt_is_positive amt"
    by (rule hac_transfer_split)
  note e1 = hac_sub_effect [OF sub wf l v]
  from add obtain n s2 e s3 where d: "do_hac_add s1 BLACKHOLE_ADDR amt = Ok (n, s2)"
    and e: "blackhole_engulf s2 BLACKHOLE_ADDR = Ok (e, s3)"
    and r: "(if e then total_record_blackhole_hac s3 amt else Ok ((), s3)) = Ok ((), s')"
    by (auto simp: hac_add_def hac_add_state_def)
  have lb: "length BLACKHOLE_ADDR = ADDRESS_SIZE" by (simp add: BLACKHOLE_ADDR_def ADDRESS_SIZE_def)
  note a = do_hac_add_spec [OF d e1(1) lb positive_nonneg [OF p v]]
  have "get_base_total s3 = Ok t"
    using engulf_spec(5) [OF e] a(2) e1(7) t by (simp add: get_base_total_def)
  moreover have "total_record_blackhole_hac s3 amt = Ok ((), s')" using r engulf_spec(1) [OF e] by simp
  ultimately show ?thesis using record_hac_burn p positive_nonneg [OF p v] by blast
qed

lemma hac_transfer_short:
  assumes "wf_balances s" and "addr_valid from" and "is_privkey_unknown to \<longrightarrow> to = BLACKHOLE_ADDR"
    and "amt_is_positive amt" and "amt_valid amt" and "hac_held s from < amt_mag amt"
  shows "hac_transfer height s from to amt =
    (if from \<noteq> to \<or> is_privkey from \<and> 200000 \<le> height then revertf ''address balance is insufficient''
     else if is_privkey from then Ok ((), s)
     else errf ''non-privkey address cannot transfer HAC to self'')"
proof -
  have less: "amt_less (bal_hacash (bal_at s from)) amt"
    using assms(6) wf_nonneg [OF assms(1,2)] positive_nonneg [OF assms(4,5)]
    by (simp add: amt_less_val amt_nonneg_val hac_held_def)
  then have sub: "do_hac_sub s from amt = revertf ''address balance is insufficient''"
    using assms(2) by (simp add: do_hac_sub_def check_supported_address_def addr_valid_def
        balance_or_default_eq [OF assms(1,2)])
  obtain b where "get_balance s from = Ok b" using assms(1,2) by (auto simp: wf_balances_def)
  then have chk: "hac_check s from amt = revertf ''address balance is insufficient''"
    using assms(2,4) less
    by (cases b) (simp_all add: hac_check_def check_amount_is_positive_def check_supported_address_def addr_valid_def
        bal_at_def amt_ge_def amt_less_def)
  show ?thesis
    using assms(3,4) sub chk
    by (auto simp: hac_transfer_def check_transfer_recipient_allowed_def check_amount_is_positive_def)
qed

section \<open>Satoshi\<close>

definition sat_held :: "layer \<Rightarrow> address \<Rightarrow> nat" where
  "sat_held s a = bal_satoshi (bal_at s a)"

lemma uint_from_Ok: "uint_from p n v = Ok w \<longleftrightarrow> v \<le> uint_MAX p n \<and> w = v"
  by (auto simp: uint_from_def)

text \<open>A balance operation writes one valid balance, then possibly the black hole swallows it.\<close>

lemma set_balance:
  assumes "wf_balances s" "addr_valid a" "bal_valid v" "bal_hacash v = bal_hacash (bal_at s a)"
  shows "wf_balances (balance_set s a v)"
    and "addr_valid b \<Longrightarrow> bal_at (balance_set s a v) b = (if b = a then v else bal_at s b)"
  using assms by (simp_all add: wf_balance_set bal_at_set wf_nonneg)

lemma set_balance_engulf:
  assumes "wf_balances s" "addr_valid a" "bal_valid v" "bal_hacash v = bal_hacash (bal_at s a)"
    and "blackhole_engulf (balance_set s a v) a = Ok (e, s1)" and "totals_only s1 s'"
  shows "wf_balances s'" and "addr_valid b \<Longrightarrow> bal_at s' b =
      (if b = a then if a = BLACKHOLE_ADDR then bal_default else v else bal_at s b)"
    and "get_diamond s' = get_diamond s"
proof -
  note st = set_balance [OF assms(1-4)]
  note ct = credit_tail [OF assms(5,6) st(1)]
  show "wf_balances s'" by (rule ct(1) [OF blackhole_valid])
  show "addr_valid b \<Longrightarrow> bal_at s' b =
      (if b = a then if a = BLACKHOLE_ADDR then bal_default else v else bal_at s b)"
    using ct(2) [of b] st(2) [of b] by auto
  show "get_diamond s' = get_diamond s" using ct(3) [OF blackhole_valid] by auto
qed

lemma sat_sub_effect:
  assumes "sat_sub s a sat = Ok (r, s')" and "wf_balances s" and "length a = ADDRESS_SIZE"
  shows "wf_balances s'" and "addr_valid a" and "sat \<le> sat_held s a"
    and "addr_valid b \<Longrightarrow>
      bal_at s' b = (if b = a then (bal_at s a)\<lparr>bal_satoshi := sat_held s a - sat\<rparr> else bal_at s b)"
proof -
  have "is_supported a" using assms(1) by (auto simp: sat_sub_def)
  then show v: "addr_valid a" using assms(3) by (rule addr_validI)
  note b = balance_or_default_eq [OF assms(2) v]
  from assms(1) b have le: "sat \<le> sat_held s a" and sv: "satoshi_valid (sat_held s a - sat)"
    and s': "s' = balance_set s a ((bal_at s a)\<lparr>bal_satoshi := sat_held s a - sat\<rparr>)"
    by (auto simp: sat_sub_def uint_from_Ok sat_held_def split: if_splits)
  note st = set_balance [OF assms(2) v bal_valid_upd(2) [OF bal_at_valid [of s a] sv]]
  show "sat \<le> sat_held s a" by (rule le)
  show "wf_balances s'" "addr_valid b \<Longrightarrow>
      bal_at s' b = (if b = a then (bal_at s a)\<lparr>bal_satoshi := sat_held s a - sat\<rparr> else bal_at s b)"
    using st by (simp_all add: s')
qed

lemma sat_add_effect:
  assumes "sat_add s a sat = Ok (r, s')" and "wf_balances s" and "length a = ADDRESS_SIZE"
  shows "wf_balances s'" and "addr_valid a"
    and "addr_valid b \<Longrightarrow> bal_at s' b =
      (if b = a then if a = BLACKHOLE_ADDR then bal_default
         else (bal_at s a)\<lparr>bal_satoshi := sat_held s a + sat\<rparr> else bal_at s b)"
proof -
  have "is_supported a" using assms(1) by (auto simp: sat_add_def)
  then show v: "addr_valid a" using assms(3) by (rule addr_validI)
  note b = balance_or_default_eq [OF assms(2) v]
  from assms(1) b obtain e s1 where sv: "satoshi_valid (sat_held s a + sat)"
    and e: "blackhole_engulf (balance_set s a ((bal_at s a)\<lparr>bal_satoshi := sat_held s a + sat\<rparr>)) a = Ok (e, s1)"
    and t: "(if e then total_record_blackhole_sat s1 sat else Ok ((), s1)) = Ok ((), s')"
    by (auto simp: sat_add_def uint_from_Ok sat_held_def Let_def)
  have tt: "totals_only s1 s'" by (rule tail_totals [OF t]) (rule record_totals_only)
  note st = set_balance_engulf [OF assms(2) v bal_valid_upd(2) [OF bal_at_valid [of s a] sv] _ e tt]
  then show "wf_balances s'" "addr_valid b \<Longrightarrow> bal_at s' b =
      (if b = a then if a = BLACKHOLE_ADDR then bal_default
         else (bal_at s a)\<lparr>bal_satoshi := sat_held s a + sat\<rparr> else bal_at s b)"
    by simp_all
qed

lemma bal_default_simps [simp]: "bal_satoshi bal_default = 0" "bal_diamond bal_default = 0"
  "bal_assets bal_default = []"
  by (simp_all add: bal_default_def)

interpretation sat: fungible sat_held "\<lambda>_. True" "\<lambda>n. n" sat_sub sat_add
proof
  fix s a q r s'
  assume "sat_sub s a q = Ok (r, s')" "wf_balances s" "length a = ADDRESS_SIZE"
  note e = sat_sub_effect [OF this]
  then show "wf_balances s' \<and> addr_valid a \<and> q \<le> sat_held s a \<and>
      (\<forall>b. addr_valid b \<longrightarrow> sat_held s' b = (if b = a then sat_held s a - q else sat_held s b))"
    by (simp add: sat_held_def)
next
  fix s a q r s'
  assume "sat_add s a q = Ok (r, s')" "wf_balances s" "length a = ADDRESS_SIZE"
  note e = sat_add_effect [OF this]
  then show "wf_balances s' \<and> addr_valid a \<and> (\<forall>b. addr_valid b \<longrightarrow> sat_held s' b =
         (if b = a then if a = BLACKHOLE_ADDR then 0 else sat_held s a + q else sat_held s b))"
    by (simp add: sat_held_def)
qed

section \<open>Assets\<close>

definition asset_held_at :: "nat \<Rightarrow> layer \<Rightarrow> address \<Rightarrow> nat" where
  "asset_held_at k s a = asset_held (bal_at s a) k"

definition asset_qty :: "nat \<Rightarrow> asset_amt \<Rightarrow> nat" where
  "asset_qty k asset = (if aa_serial asset = k then aa_amount asset else 0)"

lemma asset_held_default [simp]: "asset_held bal_default k = 0"
  by (simp add: asset_held_def bal_asset_def)

lemma asset_held_max: "bal_valid b \<Longrightarrow> asset_held b k \<le> FOLD64_MAX"
  by (auto simp: asset_held_def bal_asset_def bal_valid_def aa_valid_def find_Some_iff split: option.splits)

lemma asset_sub_effect:
  assumes "asset_sub s a x = Ok (r, s')" and "wf_balances s" and "length a = ADDRESS_SIZE" and "aa_valid x"
  shows "wf_balances s'" and "addr_valid a" and "aa_amount x \<le> asset_held (bal_at s a) (aa_serial x)"
    and "addr_valid b \<Longrightarrow> asset_held (bal_at s' b) k =
      (if b = a \<and> k = aa_serial x then asset_held (bal_at s a) k - aa_amount x else asset_held (bal_at s b) k)"
proof -
  have "is_supported a" using assms(1) by (auto simp: asset_sub_def)
  then show v: "addr_valid a" using assms(3) by (rule addr_validI)
  let ?h = "asset_held (bal_at s a) (aa_serial x)"
  let ?old = "\<lparr>aa_serial = aa_serial x, aa_amount = ?h\<rparr>"
  have o: "aa_valid ?old" using assms(4) asset_held_max [OF bal_at_valid [of s a]] by (simp add: aa_valid_def)
  have old: "asset_must (bal_at s a) (aa_serial x) = Ok ?old"
    using assms(4) by (simp add: asset_must_eq aa_valid_def)
  note b = balance_or_default_eq [OF assms(2) v]
  from assms(1) b old obtain b' where
    sub: "aa_checked_sub ?old x = Ok r" and st: "asset_set (bal_at s a) r = Ok b'"
    and s': "s' = balance_set s a b'"
    by (auto simp: asset_sub_def split: if_splits)
  from sub aa_checked_sub_eq [OF o assms(4)] have le: "aa_amount x \<le> ?h"
    and r: "r = \<lparr>aa_serial = aa_serial x, aa_amount = ?h - aa_amount x\<rparr>"
    by (auto split: if_splits)
  note as = asset_set_spec [OF st bal_at_valid]
  note sb = set_balance [OF assms(2) v as(1,3), folded s']
  show "wf_balances s'" by (rule sb(1))
  show "aa_amount x \<le> ?h" by (rule le)
  show "addr_valid b \<Longrightarrow> asset_held (bal_at s' b) k =
      (if b = a \<and> k = aa_serial x then asset_held (bal_at s a) k - aa_amount x else asset_held (bal_at s b) k)"
    using sb(2) [of b] as(2) [of k] by (auto simp: r)
qed

lemma asset_add_effect:
  assumes "asset_add s a x = Ok (r, s')" and "wf_balances s" and "length a = ADDRESS_SIZE" and "aa_valid x"
  shows "wf_balances s'" and "addr_valid a"
    and "addr_valid b \<Longrightarrow> asset_held (bal_at s' b) k =
      (if b = a then if a = BLACKHOLE_ADDR then 0 else asset_held (bal_at s a) k + asset_qty k x
       else asset_held (bal_at s b) k)"
proof -
  have "is_supported a" using assms(1) by (auto simp: asset_add_def)
  then show v: "addr_valid a" using assms(3) by (rule addr_validI)
  let ?h = "asset_held (bal_at s a) (aa_serial x)"
  let ?old = "\<lparr>aa_serial = aa_serial x, aa_amount = ?h\<rparr>"
  have o: "aa_valid ?old" using assms(4) asset_held_max [OF bal_at_valid [of s a]] by (simp add: aa_valid_def)
  have old: "asset_must (bal_at s a) (aa_serial x) = Ok ?old"
    using assms(4) by (simp add: asset_must_eq aa_valid_def)
  note b = balance_or_default_eq [OF assms(2) v]
  from assms(1) b old obtain b' e s1 where
    add: "aa_checked_add ?old x = Ok r" and st: "asset_set (bal_at s a) r = Ok b'"
    and e: "blackhole_engulf (balance_set s a b') a = Ok (e, s1)"
    and t: "(if e then total_record_blackhole_asset s1 else Ok ((), s1)) = Ok ((), s')"
    by (auto simp: asset_add_def Let_def)
  from add aa_checked_add_eq [OF o assms(4)]
  have r: "r = \<lparr>aa_serial = aa_serial x, aa_amount = ?h + aa_amount x\<rparr>" by (auto split: if_splits)
  have tt: "totals_only s1 s'" by (rule tail_totals [OF t]) (rule record_totals_only)
  note as = asset_set_spec [OF st bal_at_valid]
  note sb = set_balance_engulf [OF assms(2) v as(1,3) e tt]
  show "wf_balances s'" by (rule sb(1))
  show "addr_valid b \<Longrightarrow> asset_held (bal_at s' b) k =
      (if b = a then if a = BLACKHOLE_ADDR then 0 else asset_held (bal_at s a) k + asset_qty k x
       else asset_held (bal_at s b) k)"
    using sb(2) [of b] as(2) [of k] by (auto simp: r asset_qty_def)
qed

interpretation asset: fungible "asset_held_at k" aa_valid "asset_qty k" asset_sub asset_add for k
proof
  fix s a q r s'
  assume "asset_sub s a q = Ok (r, s')" "wf_balances s" "length a = ADDRESS_SIZE" "aa_valid q"
  note e = asset_sub_effect [OF this]
  then show "wf_balances s' \<and> addr_valid a \<and> asset_qty k q \<le> asset_held_at k s a \<and>
      (\<forall>b. addr_valid b \<longrightarrow> asset_held_at k s' b =
        (if b = a then asset_held_at k s a - asset_qty k q else asset_held_at k s b))"
    by (auto simp: asset_held_at_def asset_qty_def)
next
  fix s a q r s'
  assume "asset_add s a q = Ok (r, s')" "wf_balances s" "length a = ADDRESS_SIZE" "aa_valid q"
  note e = asset_add_effect [OF this]
  then show "wf_balances s' \<and> addr_valid a \<and> (\<forall>b. addr_valid b \<longrightarrow> asset_held_at k s' b =
         (if b = a then if a = BLACKHOLE_ADDR then 0 else asset_held_at k s a + asset_qty k q
          else asset_held_at k s b))"
    by (auto simp: asset_held_at_def)
qed

section \<open>Diamond counts\<close>

definition hacd_held :: "layer \<Rightarrow> address \<Rightarrow> nat" where
  "hacd_held s a = bal_diamond (bal_at s a)"

lemma diamond_auto_valid_eq: "diamond_auto_valid v \<longleftrightarrow> v \<le> uint_MAX 4 3"
  by (simp add: diamond_auto_valid_def DIAMOND_NUMBER_MAX_def)

lemma hacd_sub_effect:
  assumes "hacd_sub s a n = Ok (r, s')" and "wf_balances s" and "length a = ADDRESS_SIZE"
  shows "wf_balances s'" and "addr_valid a" and "n \<le> hacd_held s a"
    and "addr_valid b \<Longrightarrow>
      bal_at s' b = (if b = a then (bal_at s a)\<lparr>bal_diamond := hacd_held s a - n\<rparr> else bal_at s b)"
    and "get_diamond s' = get_diamond s" and "get_diamond_owned s' = get_diamond_owned s"
proof -
  have "is_supported a" using assms(1) by (auto simp: hacd_sub_def)
  then show v: "addr_valid a" using assms(3) by (rule addr_validI)
  note b = balance_or_default_eq [OF assms(2) v]
  from assms(1) b have le: "n \<le> hacd_held s a" and sv: "diamond_auto_valid (hacd_held s a - n)"
    and s': "s' = balance_set s a ((bal_at s a)\<lparr>bal_diamond := hacd_held s a - n\<rparr>)"
    by (auto simp: hacd_sub_def uint_from_Ok hacd_held_def to_diamond_eq diamond_auto_valid_eq split: if_splits)
  note st = set_balance [OF assms(2) v bal_valid_upd(3) [OF bal_at_valid [of s a] sv]]
  show "n \<le> hacd_held s a" by (rule le)
  show "wf_balances s'" "addr_valid b \<Longrightarrow>
      bal_at s' b = (if b = a then (bal_at s a)\<lparr>bal_diamond := hacd_held s a - n\<rparr> else bal_at s b)"
    using st by (simp_all add: s')
  show "get_diamond s' = get_diamond s" "get_diamond_owned s' = get_diamond_owned s" by (auto simp: s')
qed

lemma hacd_add_effect:
  assumes "hacd_add s a n = Ok (r, s')" and "wf_balances s" and "length a = ADDRESS_SIZE"
  shows "wf_balances s'" and "addr_valid a"
    and "addr_valid b \<Longrightarrow> bal_at s' b =
      (if b = a then if a = BLACKHOLE_ADDR then bal_default
         else (bal_at s a)\<lparr>bal_diamond := hacd_held s a + n\<rparr> else bal_at s b)"
    and "get_diamond s' = get_diamond s"
    and "a \<noteq> BLACKHOLE_ADDR \<Longrightarrow> get_diamond_owned s' = get_diamond_owned s"
proof -
  have "is_supported a" using assms(1) by (auto simp: hacd_add_def)
  then show v: "addr_valid a" using assms(3) by (rule addr_validI)
  note b = balance_or_default_eq [OF assms(2) v]
  from assms(1) b obtain e s1 where sv: "diamond_auto_valid (hacd_held s a + n)"
    and e: "blackhole_engulf (balance_set s a ((bal_at s a)\<lparr>bal_diamond := hacd_held s a + n\<rparr>)) a = Ok (e, s1)"
    and t: "(if e then total_record_blackhole_hacd s1 else Ok ((), s1)) = Ok ((), s')"
    by (auto simp: hacd_add_def uint_from_Ok hacd_held_def to_diamond_eq diamond_auto_valid_eq Let_def split: if_splits)
  have tt: "totals_only s1 s'" by (rule tail_totals [OF t]) (rule record_totals_only)
  note st = set_balance_engulf [OF assms(2) v bal_valid_upd(3) [OF bal_at_valid [of s a] sv] _ e tt]
  then show "wf_balances s'" "addr_valid b \<Longrightarrow> bal_at s' b =
      (if b = a then if a = BLACKHOLE_ADDR then bal_default
         else (bal_at s a)\<lparr>bal_diamond := hacd_held s a + n\<rparr> else bal_at s b)"
    and "get_diamond s' = get_diamond s" by simp_all
  show "get_diamond_owned s' = get_diamond_owned s" if "a \<noteq> BLACKHOLE_ADDR"
    using e totals_only_simps(4) [OF tt] that by (auto simp: engulf_no)
qed

interpretation hacd: fungible hacd_held "\<lambda>_. True" "\<lambda>n. n" hacd_sub hacd_add
proof
  fix s a q r s'
  assume "hacd_sub s a q = Ok (r, s')" "wf_balances s" "length a = ADDRESS_SIZE"
  note e = hacd_sub_effect [OF this]
  then show "wf_balances s' \<and> addr_valid a \<and> q \<le> hacd_held s a \<and>
      (\<forall>b. addr_valid b \<longrightarrow> hacd_held s' b = (if b = a then hacd_held s a - q else hacd_held s b))"
    by (simp add: hacd_held_def)
next
  fix s a q r s'
  assume "hacd_add s a q = Ok (r, s')" "wf_balances s" "length a = ADDRESS_SIZE"
  note e = hacd_add_effect [OF this]
  then show "wf_balances s' \<and> addr_valid a \<and> (\<forall>b. addr_valid b \<longrightarrow> hacd_held s' b =
         (if b = a then if a = BLACKHOLE_ADDR then 0 else hacd_held s a + q else hacd_held s b))"
    by (simp add: hacd_held_def)
qed

end
