(* ===== verification/LedgerDiamond.thy ===== *)
theory LedgerDiamond
  imports LedgerProps
begin

text \<open>
  Named diamonds in the ledger: the owner recorded for each name, the number in the balance
  of an address and the owned form of the address agree, and a transfer keeps them in
  agreement. The black-hole address is left out of the agreement: what it swallows is counted
  as burned and its records are cleared.
\<close>

section \<open>Who owns a name\<close>

definition diamonds_of :: "layer \<Rightarrow> address \<Rightarrow> diamond_name set" where
  "diamonds_of s a =
     {n. name_is_valid n \<and> (\<exists>d. get_diamond s n = Ok (Some d) \<and> dsto_address d = a)}"

definition wf_diamonds :: "layer \<Rightarrow> bool" where
  "wf_diamonds s \<longleftrightarrow> wf_balances s \<and>
     (\<forall>a. addr_valid a \<and> a \<noteq> BLACKHOLE_ADDR \<longrightarrow> hacd_held s a = card (diamonds_of s a))"

definition owned_at :: "layer \<Rightarrow> address \<Rightarrow> bytes" where
  "owned_at s a = (case get_diamond_owned s a of Inr (Some f) \<Rightarrow> f | _ \<Rightarrow> [])"

definition wf_owned :: "layer \<Rightarrow> bool" where
  "wf_owned s \<longleftrightarrow>
     (\<forall>a. addr_valid a \<and> a \<noteq> BLACKHOLE_ADDR \<longrightarrow>
        owned_valid (owned_at s a) \<and> distinct (owned_names (owned_at s a)) \<and>
        set (owned_names (owned_at s a)) = diamonds_of s a)"

lemma finite_diamonds_of [simp]: "finite (diamonds_of s a)"
  by (rule finite_subset [OF _ finite_lists_length_eq [of "UNIV :: u8 set" NAME_SIZE]])
    (auto simp: diamonds_of_def name_valid_length)

lemma diamonds_of_cong: "get_diamond s' = get_diamond s \<Longrightarrow> diamonds_of s' = diamonds_of s"
  by (auto simp: diamonds_of_def fun_eq_iff)

section \<open>Moving the owner records\<close>

lemma move_one_spec:
  assumes "hacd_move_one_diamond s from to n = Ok s'" and "name_is_valid n" and "length to = ADDRESS_SIZE"
  shows "from \<noteq> to" and "n \<in> diamonds_of s from" and "addr_valid to"
    and "diamonds_of s' a =
      (if a = from then diamonds_of s from - {n} else if a = to then insert n (diamonds_of s to)
       else diamonds_of s a)"
    and "bal_at s' = bal_at s" and "wf_balances s' = wf_balances s"
    and "get_diamond_owned s' = get_diamond_owned s"
proof -
  from assms(1) obtain d where sup: "is_supported from" "is_supported to" and ne: "from \<noteq> to"
    and d: "get_diamond s n = Ok (Some d)" "dsto_address d = from"
    and s': "s' = diamond_set s n (d\<lparr>dsto_address := to\<rparr>)"
    by (auto simp: hacd_move_one_diamond_def check_diamond_status_def split: option.splits if_splits)
  show "from \<noteq> to" by (rule ne)
  show "n \<in> diamonds_of s from" using d assms(2) by (simp add: diamonds_of_def)
  show vt: "addr_valid to" using sup(2) assms(3) by (rule addr_validI)
  have dv: "dsto_valid (d\<lparr>dsto_address := to\<rparr>)"
    using diamond_cell.store.get_valid [OF d(1)] vt by (simp add: dsto_valid_def)
  have g: "name_is_valid m \<Longrightarrow> get_diamond s' m =
      (if m = n then Ok (Some (d\<lparr>dsto_address := to\<rparr>)) else get_diamond s m)" for m
    unfolding s' by (rule diamond_cell.store.get_put [OF assms(2) _ dv])
  show "diamonds_of s' a =
      (if a = from then diamonds_of s from - {n} else if a = to then insert n (diamonds_of s to)
       else diamonds_of s a)"
    using g d ne assms(2) by (auto simp: diamonds_of_def split: if_splits)
  show "bal_at s' = bal_at s" "wf_balances s' = wf_balances s" "get_diamond_owned s' = get_diamond_owned s"
    by (auto simp: s')
qed

lemma move_diamonds_spec:
  assumes "hacd_move_diamonds s from to ds = Ok s'" and "\<forall>n\<in>set ds. name_is_valid n" and "distinct ds"
    and "ds \<noteq> []" and "length to = ADDRESS_SIZE"
  shows "from \<noteq> to \<and> set ds \<subseteq> diamonds_of s from \<and> addr_valid to \<and>
    (\<forall>a. diamonds_of s' a = (if a = from then diamonds_of s from - set ds
        else if a = to then diamonds_of s to \<union> set ds else diamonds_of s a)) \<and>
    bal_at s' = bal_at s \<and> wf_balances s' = wf_balances s \<and> get_diamond_owned s' = get_diamond_owned s"
  using assms
proof (induction ds arbitrary: s)
  case (Cons n ds)
  from Cons.prems(1) obtain s1 where m: "hacd_move_one_diamond s from to n = Ok s1"
    and r: "hacd_move_diamonds s1 from to ds = Ok s'" by auto
  have nv: "name_is_valid n" using Cons.prems(2) by simp
  note o = move_one_spec [OF m nv Cons.prems(5)]
  show ?case
  proof (cases "ds = []")
    case True
    with r have "s' = s1" by simp
    with o True show ?thesis by simp
  next
    case False
    have "\<forall>n\<in>set ds. name_is_valid n" "distinct ds" using Cons.prems(2,3) by simp_all
    note IH = Cons.IH [OF r this False Cons.prems(5)]
    have "n \<notin> set ds" using Cons.prems(3) by simp
    with IH o show ?thesis by auto
  qed
qed simp

section \<open>Moving the owned forms\<close>

lemma owned_or_default_Ok: "owned_or_default s a = Ok f \<Longrightarrow> f = owned_at s a"
proof -
  assume f: "owned_or_default s a = Ok f"
  then obtain o' where "get_diamond_owned s a = Ok o'" by (auto simp: owned_or_default_def)
  with f show ?thesis by (cases o') (simp_all add: owned_or_default_def owned_at_def)
qed

lemma owned_at_set:
  "addr_valid a \<Longrightarrow> addr_valid b \<Longrightarrow> bytesw_valid 4 f \<Longrightarrow>
   owned_at (diamond_owned_set s a f) b = (if b = a then f else owned_at s b)"
  "addr_valid a \<Longrightarrow> addr_valid b \<Longrightarrow>
   owned_at (diamond_owned_del s a) b = (if b = a then [] else owned_at s b)"
  by (simp_all add: owned_at_def diamond_owned_cell.store.get_put diamond_owned_cell.store.get_del)

lemma owned_at_valid: "bytesw_valid 4 (owned_at s a)"
  using diamond_owned_cell.store.get_valid [of s a]
  by (auto simp: owned_at_def bytesw_valid_def split: sum.splits option.splits)

lemma owned_push_bytes: "owned_push f ds = Ok f' \<Longrightarrow> bytesw_valid 4 f \<Longrightarrow> bytesw_valid 4 f'"
  by (induction ds arbitrary: f) (auto simp: owned_push_one_def bytesw_from_Ok split: if_splits)

lemma owned_drop_bytes: "owned_drop f ds = Ok (k, f') \<Longrightarrow> bytesw_valid 4 f'"
  by (auto simp: owned_drop_def bytesw_from_Ok split: if_splits prod.splits)

lemma owned_move_spec:
  assumes "diamond_owned_move s from to ds = Ok s'" and l: "length from = ADDRESS_SIZE" "length to = ADDRESS_SIZE"
  obtains k f t where "owned_drop (owned_at s from) ds = Ok (k, f)" and "owned_push (owned_at s to) ds = Ok t"
    and "\<forall>a. addr_valid a \<longrightarrow> owned_at s' a = (if a = to then t else if a = from then f else owned_at s a)"
    and "bal_at s' = bal_at s" and "wf_balances s' = wf_balances s" and "get_diamond s' = get_diamond s"
proof -
  from assms(1) obtain g k f where sup: "is_supported from" "is_supported to" and ne: "from \<noteq> to"
    and g: "get_diamond_owned s from = Ok (Some g)" and dr: "owned_drop g ds = Ok (k, f)"
    by (auto simp: diamond_owned_move_def split: option.splits if_splits)
  define s1 where "s1 = (if length f > 0 then diamond_owned_set s from f else diamond_owned_del s from)"
  from assms(1) sup ne g dr obtain to' t where od: "owned_or_default s1 to = Ok to'"
    and pu: "owned_push to' ds = Ok t" and s': "s' = diamond_owned_set s1 to t"
    by (auto simp: diamond_owned_move_def s1_def Let_def)
  have v: "addr_valid from" "addr_valid to" using sup l by (auto intro: addr_validI)
  have fv: "bytesw_valid 4 f" by (rule owned_drop_bytes [OF dr])
  have at1: "addr_valid a \<Longrightarrow> owned_at s1 a = (if a = from then f else owned_at s a)" for a
    using v fv by (simp add: s1_def owned_at_set)
  have to': "to' = owned_at s to" using owned_or_default_Ok [OF od] at1 [OF v(2)] ne by simp
  have tv: "bytesw_valid 4 t" using owned_push_bytes [OF pu] to' owned_at_valid by simp
  have "owned_at s from = g" using g by (simp add: owned_at_def)
  moreover have "\<forall>a. addr_valid a \<longrightarrow> owned_at s' a = (if a = to then t else if a = from then f else owned_at s a)"
    using at1 v tv by (simp add: s' owned_at_set)
  moreover have "bal_at s' = bal_at s" "wf_balances s' = wf_balances s" "get_diamond s' = get_diamond s"
    by (auto simp: s' s1_def)
  ultimately show thesis using that dr pu to' by simp
qed

section \<open>Adjusting the counts\<close>

lemma owned_at_balance_set: "owned_at (balance_set s a v) b = owned_at s b"
  by (simp add: owned_at_def)

lemma engulf_owned:
  "blackhole_engulf s a = Ok (e, s') \<Longrightarrow> addr_valid b \<Longrightarrow> b \<noteq> BLACKHOLE_ADDR \<Longrightarrow> owned_at s' b = owned_at s b"
  by (auto simp: blackhole_engulf_def Let_def owned_at_set owned_at_balance_set split: if_splits)

lemma hacd_add_owned:
  assumes "hacd_add s a n = Ok (r, s')" "addr_valid b" "b \<noteq> BLACKHOLE_ADDR"
  shows "owned_at s' b = owned_at s b"
proof -
  from assms(1) obtain bal m e s1 where
    e: "blackhole_engulf (balance_set s a (bal\<lparr>bal_diamond := m\<rparr>)) a = Ok (e, s1)"
    and t: "(if e then total_record_blackhole_hacd s1 else Ok ((), s1)) = Ok ((), s')"
    by (auto simp: hacd_add_def Let_def)
  have tt: "totals_only s1 s'" by (rule tail_totals [OF t]) (rule record_totals_only)
  show ?thesis
    using engulf_owned [OF e assms(2,3)] totals_only_simps(4) [OF tt] by (simp add: owned_at_def)
qed

lemma adjust_count_spec:
  assumes "hacd_adjust_count s from to n = Ok ((), s')" and "wf_balances s"
    and l: "length from = ADDRESS_SIZE" "length to = ADDRESS_SIZE"
  shows "wf_balances s'" and "n \<le> hacd_held s from" and "addr_valid from" and "addr_valid to" and "from \<noteq> to"
    and "addr_valid x \<Longrightarrow> hacd_held s' x =
      (if x = from then hacd_held s from - n
       else if x = to then if to = BLACKHOLE_ADDR then 0 else hacd_held s to + n else hacd_held s x)"
    and "get_diamond s' = get_diamond s"
    and "addr_valid x \<Longrightarrow> x \<noteq> BLACKHOLE_ADDR \<Longrightarrow> owned_at s' x = owned_at s x"
proof -
  from assms(1) obtain r1 s1 r2 where ne: "from \<noteq> to" and d: "hacd_sub s from n = Ok (r1, s1)"
    and c: "hacd_add s1 to n = Ok (r2, s')"
    by (auto simp: hacd_adjust_count_def split: if_splits)
  note t = hacd.transfer_spec [OF d c assms(2) TrueI l ne]
  show "wf_balances s'" "n \<le> hacd_held s from" "addr_valid from" "addr_valid to" "from \<noteq> to"
    "addr_valid x \<Longrightarrow> hacd_held s' x =
      (if x = from then hacd_held s from - n
       else if x = to then if to = BLACKHOLE_ADDR then 0 else hacd_held s to + n else hacd_held s x)"
    using t ne by simp_all
  note d' = hacd_sub_effect [OF d assms(2) l(1)]
  show "get_diamond s' = get_diamond s" using hacd_add_effect(4) [OF c d'(1) l(2)] d'(5) by simp
  show "addr_valid x \<Longrightarrow> x \<noteq> BLACKHOLE_ADDR \<Longrightarrow> owned_at s' x = owned_at s x"
    using hacd_add_owned [OF c, of x] d'(6) by (simp add: owned_at_def)
qed

section \<open>The transfer\<close>

lemma hacd_transfer_spec:
  assumes "hacd_transfer s from to ds form = Ok ((), s')" and wf: "wf_balances s"
    and l: "length from = ADDRESS_SIZE" "length to = ADDRESS_SIZE"
  shows "dnl_valid DIAMOND_LIST_MAX ds" and "wf_balances s'" and "from \<noteq> to" and "addr_valid from" and "addr_valid to"
    and "set ds \<subseteq> diamonds_of s from" and "length ds \<le> hacd_held s from"
    and "diamonds_of s' a = (if a = from then diamonds_of s from - set ds
        else if a = to then diamonds_of s to \<union> set ds else diamonds_of s a)"
    and "addr_valid a \<Longrightarrow> hacd_held s' a =
      (if a = from then hacd_held s from - length ds
       else if a = to then if to = BLACKHOLE_ADDR then 0 else hacd_held s to + length ds else hacd_held s a)"
    and "form \<Longrightarrow> addr_valid a \<Longrightarrow> a \<noteq> BLACKHOLE_ADDR \<Longrightarrow> \<exists>k f t.
      owned_drop (owned_at s from) ds = Ok (k, f) \<and> owned_push (owned_at s to) ds = Ok t \<and>
      owned_at s' a = (if a = to then t else if a = from then f else owned_at s a)"
    and "\<not> form \<Longrightarrow> addr_valid a \<Longrightarrow> a \<noteq> BLACKHOLE_ADDR \<Longrightarrow> owned_at s' a = owned_at s a"
proof -
  from assms(1) obtain s1 s2 where chk: "dnl_valid DIAMOND_LIST_MAX ds"
    and mv: "hacd_move_diamonds s from to ds = Ok s1"
    and ow: "(if form then diamond_owned_move s1 from to ds else Ok s1) = Ok s2"
    and ad: "hacd_adjust_count s2 from to (length ds) = Ok ((), s')"
    by (auto simp: hacd_transfer_def dnl_check_eq uint_from_Ok)
  from chk have "\<forall>n\<in>set ds. name_is_valid n" "distinct ds" "ds \<noteq> []" by (auto simp: dnl_valid_def)
  note m = move_diamonds_spec [OF mv this l(2)]
  have s2: "bal_at s2 = bal_at s1" "wf_balances s2 = wf_balances s1" "get_diamond s2 = get_diamond s1"
    using ow l by (auto elim: owned_move_spec split: if_splits)
  have h: "hacd_held s2 = hacd_held s" using m s2 by (simp add: hacd_held_def fun_eq_iff)
  have wf2: "wf_balances s2" using s2 m wf by simp
  note a = adjust_count_spec [OF ad wf2 l]
  show "dnl_valid DIAMOND_LIST_MAX ds" "wf_balances s'" "from \<noteq> to" "addr_valid from" "addr_valid to"
    "set ds \<subseteq> diamonds_of s from" "length ds \<le> hacd_held s from"
    using chk a m h by simp_all
  show "diamonds_of s' a = (if a = from then diamonds_of s from - set ds
        else if a = to then diamonds_of s to \<union> set ds else diamonds_of s a)"
    using m diamonds_of_cong [OF a(7)] diamonds_of_cong [OF s2(3)] by simp
  show "addr_valid a \<Longrightarrow> hacd_held s' a =
      (if a = from then hacd_held s from - length ds
       else if a = to then if to = BLACKHOLE_ADDR then 0 else hacd_held s to + length ds else hacd_held s a)"
    using a(6) [of a] h by simp
  have o1: "owned_at s1 = owned_at s" using m by (simp add: owned_at_def fun_eq_iff)
  show "\<exists>k f t. owned_drop (owned_at s from) ds = Ok (k, f) \<and> owned_push (owned_at s to) ds = Ok t \<and>
      owned_at s' a = (if a = to then t else if a = from then f else owned_at s a)"
    if form and av: "addr_valid a" "a \<noteq> BLACKHOLE_ADDR"
  proof -
    have "diamond_owned_move s1 from to ds = Ok s2" using ow that(1) by simp
    then obtain k f t where "owned_drop (owned_at s1 from) ds = Ok (k, f)" "owned_push (owned_at s1 to) ds = Ok t"
      "\<forall>a. addr_valid a \<longrightarrow> owned_at s2 a = (if a = to then t else if a = from then f else owned_at s1 a)"
      by (rule owned_move_spec [OF _ l])
    then show ?thesis using a(8) [OF av] av o1 by auto
  qed
  show "owned_at s' a = owned_at s a" if "\<not> form" "addr_valid a" "a \<noteq> BLACKHOLE_ADDR"
    using ow that a(8) [OF that(2,3)] o1 by simp
qed

lemma hacd_transfer_wf:
  assumes t: "hacd_transfer s from to ds form = Ok ((), s')" and "wf_diamonds s"
    and l: "length from = ADDRESS_SIZE" "length to = ADDRESS_SIZE"
  shows "wf_diamonds s'"
proof -
  have wf: "wf_balances s" using assms(2) by (simp add: wf_diamonds_def)
  note sp = hacd_transfer_spec [OF t wf l]
  have dd: "card (set ds) = length ds" using sp(1) by (simp add: dnl_valid_def distinct_card)
  have "hacd_held s' a = card (diamonds_of s' a)" if "addr_valid a" "a \<noteq> BLACKHOLE_ADDR" for a
  proof -
    have h: "hacd_held s a = card (diamonds_of s a)" using assms(2) that by (simp add: wf_diamonds_def)
    consider "a = from" | "a = to" "a \<noteq> from" | "a \<noteq> from" "a \<noteq> to" by blast
    then show ?thesis
    proof cases
      case 1
      then show ?thesis using sp(6) sp(8) [of a] sp(9) [OF that(1)] h dd
        by (simp add: card_Diff_subset)
    next
      case 2
      have "diamonds_of s to \<inter> set ds = {}" using sp(3,6) by (auto simp: diamonds_of_def)
      then show ?thesis using 2 sp(8) [of a] sp(9) [OF that(1)] h dd that(2)
        by (simp add: card_Un_disjoint)
    next
      case 3
      then show ?thesis using sp(8) [of a] sp(9) [OF that(1)] h by simp
    qed
  qed
  then show ?thesis using sp(2) by (simp add: wf_diamonds_def)
qed

lemma hacd_transfer_owned:
  assumes t: "hacd_transfer s from to ds True = Ok ((), s')" and wf: "wf_balances s" "wf_owned s"
    and l: "length from = ADDRESS_SIZE" "length to = ADDRESS_SIZE" and fb: "from \<noteq> BLACKHOLE_ADDR"
  shows "wf_owned s'"
proof -
  note sp = hacd_transfer_spec [OF t wf(1) l]
  have len: "\<forall>d\<in>set ds. length d = NAME_SIZE" using sp(1) by (auto simp: dnl_valid_def name_valid_length)
  have w: "owned_valid (owned_at s a)" "distinct (owned_names (owned_at s a))"
    "set (owned_names (owned_at s a)) = diamonds_of s a" if "addr_valid a" "a \<noteq> BLACKHOLE_ADDR" for a
    using wf(2) that by (simp_all add: wf_owned_def)
  show ?thesis
    unfolding wf_owned_def
  proof (intro allI impI)
    fix a
    assume "addr_valid a \<and> a \<noteq> BLACKHOLE_ADDR"
    then have av: "addr_valid a" "a \<noteq> BLACKHOLE_ADDR" by simp_all
    obtain k f g where dr: "owned_drop (owned_at s from) ds = Ok (k, f)"
      and pu: "owned_push (owned_at s to) ds = Ok g"
      and at: "owned_at s' a = (if a = to then g else if a = from then f else owned_at s a)"
      using sp(10) [OF TrueI av] by blast
    note D = owned_drop_distinct [OF w(1,2) [OF sp(4) fb] dr]
    consider "a = from" | "a = to" "a \<noteq> from" | "a \<noteq> from" "a \<noteq> to" by blast
    then show "owned_valid (owned_at s' a) \<and> distinct (owned_names (owned_at s' a)) \<and>
        set (owned_names (owned_at s' a)) = diamonds_of s' a"
    proof cases
      case 1
      then show ?thesis using D at sp(3) sp(8) [of a] w(3) [OF sp(4) fb] by simp
    next
      case 2
      then show ?thesis using owned_push_spec [OF pu w(1) len] at sp(8) [of a] w av sp(5) by simp
    next
      case 3
      then show ?thesis using at sp(8) [of a] w [OF av] by simp
    qed
  qed
qed

end
