(* ===== verification/Scenario.thy ===== *)
theory Scenario
  imports LedgerDiamond
begin

text \<open>
  A small concrete ledger, evaluated step by step: one address holds five HAC, a hundred
  satoshi, fifty units of an asset and one diamond, and sends some of each to another
  address. The theorems of the development are applied to these runs.
\<close>

section \<open>The state\<close>

definition alice :: address where
  "alice = 0 # replicate 20 1"

definition bob :: address where
  "bob = 0 # replicate 20 2"

text \<open>A one-byte mantissa at the unit \<^verbatim>\<open>mei\<close>.\<close>

definition mei :: "u8 \<Rightarrow> amount" where
  "mei n = \<lparr>amt_unit = 248, amt_dist = 1, amt_byte = [n]\<rparr>"

definition gem :: diamond_name where
  "gem = [87, 84, 89, 85, 73, 65]"

definition gem_sto :: "address \<Rightarrow> diamond_sto" where
  "gem_sto a = \<lparr>dsto_status = 1, dsto_address = a, dsto_prev_engraved_height = 0, dsto_inscripts = []\<rparr>"

definition coin7 :: "nat \<Rightarrow> asset_amt" where
  "coin7 n = \<lparr>aa_serial = 7, aa_amount = n\<rparr>"

definition alice_bal :: balance where
  "alice_bal = \<lparr>bal_hacash = mei 5, bal_satoshi = 100, bal_diamond = 1, bal_assets = [coin7 50]\<rparr>"

definition empty_layer :: layer where
  "empty_layer = (\<lambda>_. Ok None)"

definition demo :: layer where
  "demo = diamond_owned_set (diamond_set (balance_set empty_layer alice alice_bal) gem (gem_sto alice)) alice gem"

section \<open>Its parts are well formed\<close>

lemma demo_addrs [simp]: "addr_valid alice" "addr_valid bob" "is_supported alice" "is_supported bob"
  "length alice = ADDRESS_SIZE" "length bob = ADDRESS_SIZE" "alice \<noteq> bob" "bob \<noteq> alice"
  "alice \<noteq> BLACKHOLE_ADDR" "bob \<noteq> BLACKHOLE_ADDR" "BLACKHOLE_ADDR \<noteq> alice"
  by (simp_all add: alice_def bob_def addr_valid_def is_supported_def version_def ADDRESS_SIZE_def
      BLACKHOLE_ADDR_def numeral_eq_Suc)

lemma demo_known [simp]: "\<not> is_privkey_unknown bob" "\<not> is_privkey_unknown alice" "is_privkey alice"
  by (simp_all add: bob_def alice_def is_privkey_unknown_def is_privkey_def version_def
      UNKNOWN_PRIVKEY_PREFIX_SIZE_def ADDRESS_SIZE_def list_all_iff)

lemma mei_simps [simp]:
  "n \<noteq> 0 \<Longrightarrow> amt_valid (mei n)" "n \<noteq> 0 \<Longrightarrow> amt_nonneg (mei n)" "amt_mag (mei n) = unat n * 10 ^ 248"
  "n \<noteq> 0 \<Longrightarrow> amt_is_positive (mei n)" "amt_is_zero (mei n) \<longleftrightarrow> n = 0"
  by (auto simp: mei_def amt_valid_def amt_nonneg_def amt_mag_def amt_is_positive_def amt_not_zero_def
      amt_is_zero_def)

lemma gem_valid [simp]: "name_is_valid gem"
  by (simp add: gem_def name_is_valid_def NAME_SIZE_def DIAMOND_NAME_VALID_CHARS_def)

lemma gem_list [simp]: "dnl_valid DIAMOND_LIST_MAX [gem]"
  by (simp add: dnl_valid_def)

lemma gem_sto_valid [simp]: "addr_valid a \<Longrightarrow> dsto_valid (gem_sto a)"
  by (simp add: gem_sto_def dsto_valid_def uint_valid_iff listw_valid_def)

lemma coin7_valid [simp]: "n \<le> 1000 \<Longrightarrow> aa_valid (coin7 n)"
  by (simp add: coin7_def aa_valid_def FOLD64_MAX_def FOLD64_STAGE1_BOUND_def)

lemma alice_bal_valid [simp]: "bal_valid alice_bal"
  using coin7_valid [of 50]
  by (simp add: alice_bal_def bal_valid_def satoshi_valid_def SATOSHI_MAX_def diamond_auto_valid_def
      DIAMOND_NUMBER_MAX_eq BALANCE_ASSET_MAX_def)

lemma gem_form [simp]: "bytesw_valid 4 gem" "owned_names gem = [gem]" "owned_valid gem"
proof -
  have l: "length gem = NAME_SIZE" by (rule name_valid_length) simp
  then show b: "bytesw_valid 4 gem" by (simp add: bytesw_valid_def uint_MAX_eq NAME_SIZE_def)
  show "owned_names gem = [gem]" using owned_names_of_concat [of "[gem]"] l by simp
  show "owned_valid gem" using b l by (simp add: owned_valid_def)
qed

section \<open>Reading the state\<close>

lemma empty_reads [simp]:
  "get_balance empty_layer a = Ok None" "get_diamond empty_layer n = Ok None"
  "get_diamond_owned empty_layer a = Ok None" "get_base_total_opt empty_layer = Ok None"
  by (simp_all add: core_get_defs read_typed_def layer_get_def empty_layer_def)

lemma demo_reads:
  "addr_valid a \<Longrightarrow> get_balance demo a = (if a = alice then Ok (Some alice_bal) else Ok None)"
  "name_is_valid n \<Longrightarrow> get_diamond demo n = (if n = gem then Ok (Some (gem_sto alice)) else Ok None)"
  "addr_valid a \<Longrightarrow> get_diamond_owned demo a = (if a = alice then Ok (Some gem) else Ok None)"
  by (simp_all add: demo_def balance_cell.store.get_put diamond_cell.store.get_put
      diamond_owned_cell.store.get_put)

lemma demo_bal: "addr_valid a \<Longrightarrow> bal_at demo a = (if a = alice then alice_bal else bal_default)"
  by (simp add: bal_at_def demo_reads)

lemma demo_wf: "wf_balances demo"
  by (auto simp: wf_balances_def demo_reads demo_bal alice_bal_def)

lemma demo_diamonds_of: "diamonds_of demo a = (if a = alice then {gem} else {})"
  using demo_reads(2) by (auto simp: diamonds_of_def gem_sto_def split: if_splits)

lemma demo_wf_diamonds: "wf_diamonds demo"
  by (simp add: wf_diamonds_def demo_wf demo_diamonds_of hacd_held_def demo_bal alice_bal_def)

lemma demo_owned: "addr_valid a \<Longrightarrow> owned_at demo a = (if a = alice then gem else [])"
  by (simp add: owned_at_def demo_reads)

lemma demo_wf_owned: "wf_owned demo"
proof -
  have "owned_names [] = []" using owned_names_of_concat [of "[]"] by simp
  moreover have "owned_valid []" by (simp add: owned_valid_def bytesw_valid_def)
  ultimately show ?thesis by (simp add: wf_owned_def demo_owned demo_diamonds_of)
qed

section \<open>Transfers\<close>

lemma mei_sub: "sub_mode_u128 (mei 5) (mei 2) = Ok (mei 3)"
proof -
  have "coin_u128 3 248 = mei 3"
    by (simp add: coin_u128_def coin_strip.simps be_nat_to_be_bytes nat_bytes.simps mei_def drop_left_zero_def)
  then show ?thesis
    unfolding sub_mode_u128_def
    by (subst compute_unsigned_sub_eq [OF _ _ limits_u128(1)])
      (simp_all add: Let_def mant_at_def, simp_all add: mei_def)
qed

lemma mei_add_zero: "add_mode_u128 amt_zero (mei 2) = Ok (mei 2)"
  unfolding add_mode_u128_def
  by (subst compute_unsigned_add_eq [OF _ _ limits_u128(1)])
    (simp_all add: amt_nonneg_def amt_valid_def amt_zero_def amt_is_zero_def mei_def)

lemma mei_store: "n \<noteq> 0 \<Longrightarrow> check_store_long (mei n) = Ok ()"
  by (simp add: check_store_long_def amt_size_def AMOUNT_STORE_MAX_SIZE_def mei_def tail_len_def)

lemma mei_less: "\<not> amt_less (mei 5) (mei 2)"
  by (simp add: amt_less_val amt_nonneg_val)

definition alice_paid :: layer where
  "alice_paid = balance_set demo alice (alice_bal\<lparr>bal_hacash := mei 3\<rparr>)"

definition demo_hac :: layer where
  "demo_hac = balance_set alice_paid bob (bal_default\<lparr>bal_hacash := mei 2\<rparr>)"

lemma alice_hacash [simp]: "bal_hacash alice_bal = mei 5" "bal_hacash bal_default = amt_zero"
  by (simp_all add: alice_bal_def bal_default_def)

lemma demo_hac_transfer: "hac_transfer 1 demo alice bob (mei 2) = Ok ((), demo_hac)"
proof -
  have b: "balance_or_default demo alice = Ok alice_bal"
    using balance_or_default_eq [OF demo_wf demo_addrs(1)] by (simp add: demo_bal)
  have sub: "do_hac_sub demo alice (mei 2) = Ok (mei 3, alice_paid)"
    by (simp add: do_hac_sub_def check_supported_address_def b mei_less mei_sub mei_store alice_paid_def)
  have "bal_valid (alice_bal\<lparr>bal_hacash := mei 3\<rparr>)" by (simp add: bal_valid_upd)
  then have "balance_or_default alice_paid bob = Ok bal_default"
    by (simp add: balance_or_default_def alice_paid_def balance_cell.store.get_put demo_reads)
  then have "do_hac_add alice_paid bob (mei 2) = Ok (mei 2, demo_hac)"
    by (simp add: do_hac_add_def check_supported_address_def mei_add_zero mei_store demo_hac_def)
  then have "hac_add alice_paid bob (mei 2) = Ok ((), demo_hac)"
    by (simp add: hac_add_def hac_add_state_def check_amount_is_positive_def engulf_no)
  with sub show ?thesis
    by (simp add: hac_transfer_def check_transfer_recipient_allowed_def check_amount_is_positive_def)
qed

definition demo_sat :: layer where
  "demo_sat = balance_set (balance_set demo alice (alice_bal\<lparr>bal_satoshi := 60\<rparr>)) bob (bal_default\<lparr>bal_satoshi := 40\<rparr>)"

lemma satoshi_small: "n \<le> 1000 \<Longrightarrow> satoshi_valid n" "n \<le> 1000 \<Longrightarrow> uint_from 8 8 n = Ok n"
  by (simp_all add: satoshi_valid_def SATOSHI_MAX_def uint_from_def uint_MAX_eq)

lemma demo_sat_transfer: "sat_transfer demo alice bob 40 = Ok ((), demo_sat)"
proof -
  have b: "balance_or_default demo alice = Ok alice_bal"
    using balance_or_default_eq [OF demo_wf demo_addrs(1)] by (simp add: demo_bal)
  let ?s = "balance_set demo alice (alice_bal\<lparr>bal_satoshi := 60\<rparr>)"
  have al: "bal_satoshi alice_bal = 100" by (simp add: alice_bal_def)
  have fs: "from_satoshi 60 = Ok 60" "from_satoshi 40 = Ok 40" by (simp_all add: satoshi_small)
  have chk: "check_satoshi_nonzero 40 = Ok ()"
    by (simp add: check_satoshi_nonzero_def check_satoshi_def SATOSHI_MAX_def)
  have sub: "sat_sub demo alice 40 = Ok (60, ?s)"
    by (simp add: sat_sub_def chk check_supported_address_def b al satoshi_small fs)
  have "bal_valid (alice_bal\<lparr>bal_satoshi := 60\<rparr>)" by (simp add: bal_valid_upd satoshi_small)
  then have "balance_or_default ?s bob = Ok bal_default"
    by (simp add: balance_or_default_def balance_cell.store.get_put demo_reads)
  then have "sat_add ?s bob 40 = Ok (40, demo_sat)"
    by (simp add: sat_add_def chk check_supported_address_def satoshi_small fs checked_add_def engulf_no
        demo_sat_def Let_def)
  with sub show ?thesis by (simp add: sat_transfer_def check_transfer_recipient_allowed_def)
qed

definition demo_asset :: layer where
  "demo_asset = balance_set (balance_set demo alice (alice_bal\<lparr>bal_assets := [coin7 30]\<rparr>)) bob
     (bal_default\<lparr>bal_assets := [coin7 20]\<rparr>)"

lemma demo_asset_transfer: "asset_transfer demo alice bob (coin7 20) = Ok ((), demo_asset)"
proof -
  have b: "balance_or_default demo alice = Ok alice_bal"
    using balance_or_default_eq [OF demo_wf demo_addrs(1)] by (simp add: demo_bal)
  let ?b = "alice_bal\<lparr>bal_assets := [coin7 30]\<rparr>" and ?s = "balance_set demo alice (alice_bal\<lparr>bal_assets := [coin7 30]\<rparr>)"
  have al: "bal_assets alice_bal = [coin7 50]" by (simp add: alice_bal_def)
  have F: "1000 \<le> FOLD64_MAX" by (simp add: FOLD64_MAX_def FOLD64_STAGE1_BOUND_def)
  have must: "asset_must alice_bal (aa_serial (coin7 20)) = Ok (coin7 50)"
    by (simp add: asset_must_def bal_asset_def al coin7_def)
  have "aa_checked_sub (coin7 50) (coin7 20) = Ok (coin7 30)"
    using aa_checked_sub_eq [of "coin7 50" "coin7 20"] by (simp, simp add: coin7_def)
  moreover have "asset_set alice_bal (coin7 30) = Ok ?b"
    using aa_checked_valid [of "coin7 30"] by (simp add: asset_set_def al) (simp add: coin7_def)
  moreover have "\<not> aa_less (coin7 50) (coin7 20)" "check_asset_nonzero (coin7 20) = Ok ()"
    by (simp_all add: aa_less_def aa_partial_cmp_def coin7_def check_asset_nonzero_def)
  ultimately have sub: "asset_sub demo alice (coin7 20) = Ok (coin7 30, ?s)"
    by (simp add: asset_sub_def check_supported_address_def b must)
  have "bal_valid ?b" using alice_bal_valid coin7_valid [of 30] by (simp add: bal_valid_def BALANCE_ASSET_MAX_def)
  then have bd: "balance_or_default ?s bob = Ok bal_default"
    by (simp add: balance_or_default_def balance_cell.store.get_put demo_reads)
  have "asset_must bal_default (aa_serial (coin7 20)) = Ok (coin7 0)"
    using F by (simp add: asset_must_def bal_asset_def aa_from_serial_def aa_checked_def fold64_from_def coin7_def)
  moreover have "aa_checked_add (coin7 0) (coin7 20) = Ok (coin7 20)"
    using aa_checked_add_eq [of "coin7 0" "coin7 20"] F by (simp, simp add: coin7_def)
  moreover have "asset_set bal_default (coin7 20) = Ok (bal_default\<lparr>bal_assets := [coin7 20]\<rparr>)"
    using aa_checked_valid [of "coin7 20"]
    by (simp add: asset_set_def BALANCE_ASSET_MAX_def listw_push_def uint_from_usize_def uint_MAX_eq)
      (simp add: coin7_def)
  moreover have "check_asset_nonzero (coin7 20) = Ok ()" by (simp add: coin7_def check_asset_nonzero_def)
  ultimately have "asset_add ?s bob (coin7 20) = Ok (coin7 20, demo_asset)"
    by (simp add: asset_add_def check_supported_address_def bd engulf_no demo_asset_def Let_def)
  with sub show ?thesis by (simp add: asset_transfer_def check_transfer_recipient_allowed_def)
qed

definition demo_moved :: layer where
  "demo_moved = diamond_owned_set (diamond_owned_del (diamond_set demo gem (gem_sto bob)) alice) bob gem"

definition demo_hacd :: layer where
  "demo_hacd = balance_set (balance_set demo_moved alice (alice_bal\<lparr>bal_diamond := 0\<rparr>)) bob
     (bal_default\<lparr>bal_diamond := 1\<rparr>)"

lemma gem_drop: "owned_drop gem [gem] = Ok (1, [])"
proof -
  have "length gem = NAME_SIZE" by (rule name_valid_length) simp
  then have "drop_loop gem (length gem div NAME_SIZE) 0 0 {gem} = (gem, 0, 1, {})"
    by (simp add: drop_loop.simps)
  with \<open>length gem = NAME_SIZE\<close> show ?thesis
    by (simp add: owned_drop_def bytesw_from_def uint_from_usize_def)
qed

lemma demo_hacd_transfer: "hacd_transfer demo alice bob [gem] True = Ok ((), demo_hacd)"
proof -
  let ?s1 = "diamond_set demo gem (gem_sto bob)"
  have one: "hacd_move_diamonds demo alice bob [gem] = Ok ?s1"
    by (simp add: hacd_move_one_diamond_def check_supported_address_def check_diamond_status_def demo_reads gem_sto_def)
  have "get_diamond_owned ?s1 alice = Ok (Some gem)" by (simp add: demo_reads)
  moreover have "owned_or_default (diamond_owned_del ?s1 alice) bob = Ok []"
    by (simp add: owned_or_default_def diamond_owned_cell.store.get_del demo_reads)
  moreover have "owned_push [] [gem] = Ok gem"
    by (simp add: owned_push_one_def contains_diamond_def chunks_exact_short bytesw_from_Ok)
  ultimately have mv: "diamond_owned_move ?s1 alice bob [gem] = Ok demo_moved"
    by (simp add: diamond_owned_move_def check_supported_address_def gem_drop demo_moved_def)
  have wf: "wf_balances demo_moved" using demo_wf by (simp add: demo_moved_def)
  have at: "bal_at demo_moved a = bal_at demo a" for a by (simp add: demo_moved_def)
  have b: "balance_or_default demo_moved alice = Ok alice_bal"
    using balance_or_default_eq [OF wf demo_addrs(1)] by (simp add: at demo_bal)
  have d0: "diamond_auto_valid 0" "diamond_auto_valid 1" "uint_from 4 3 0 = Ok 0" "uint_from 4 3 1 = Ok 1"
    by (simp_all add: diamond_auto_valid_def DIAMOND_NUMBER_MAX_eq uint_from_def uint_MAX_eq)
  let ?s3 = "balance_set demo_moved alice (alice_bal\<lparr>bal_diamond := 0\<rparr>)"
  have "bal_diamond alice_bal = 1" by (simp add: alice_bal_def)
  then have sub: "hacd_sub demo_moved alice 1 = Ok (0, ?s3)"
    using d0 by (simp add: hacd_sub_def check_supported_address_def b to_diamond_eq)
  have "bal_valid (alice_bal\<lparr>bal_diamond := 0\<rparr>)" by (simp add: bal_valid_upd d0)
  then have "bal_at ?s3 bob = bal_default" "wf_balances ?s3"
    using wf by (simp_all add: bal_at_set at demo_bal wf_balance_set)
  then have "balance_or_default ?s3 bob = Ok bal_default"
    using balance_or_default_eq [of ?s3 bob] by simp
  then have "hacd_add ?s3 bob 1 = Ok (1, demo_hacd)"
    using d0 by (simp add: hacd_add_def check_supported_address_def to_diamond_eq checked_add_def engulf_no
        demo_hacd_def Let_def)
  with sub have "hacd_adjust_count demo_moved alice bob 1 = Ok ((), demo_hacd)"
    by (simp add: hacd_adjust_count_def)
  moreover have "dnl_check DIAMOND_LIST_MAX [gem] = Ok 1" by (simp add: dnl_check_eq)
  ultimately show ?thesis using one mv d0 by (simp add: hacd_transfer_def)
qed

lemma demo_total: "get_base_total demo = Ok bt_default"
  by (simp add: get_base_total_def demo_def)

lemma demo_burn: "\<exists>s'. hac_transfer 1 demo alice BLACKHOLE_ADDR (mei 2) = Ok ((), s')"
proof -
  have b: "balance_or_default demo alice = Ok alice_bal"
    using balance_or_default_eq [OF demo_wf demo_addrs(1)] by (simp add: demo_bal)
  have sub: "do_hac_sub demo alice (mei 2) = Ok (mei 3, alice_paid)"
    by (simp add: do_hac_sub_def check_supported_address_def b mei_less mei_sub mei_store alice_paid_def)
  have bv: "bal_valid (alice_bal\<lparr>bal_hacash := mei 3\<rparr>)" by (simp add: bal_valid_upd)
  have sup: "is_supported BLACKHOLE_ADDR" using blackhole_valid by (simp add: addr_valid_def)
  have rd: "balance_or_default alice_paid BLACKHOLE_ADDR = Ok bal_default"
    using bv by (simp add: balance_or_default_def alice_paid_def balance_cell.store.get_put demo_reads)
  let ?s2 = "balance_set alice_paid BLACKHOLE_ADDR (bal_default\<lparr>bal_hacash := mei 2\<rparr>)"
  let ?s3 = "balance_set ?s2 BLACKHOLE_ADDR bal_default"
  have add: "do_hac_add alice_paid BLACKHOLE_ADDR (mei 2) = Ok (mei 2, ?s2)"
    by (simp add: do_hac_add_def check_supported_address_def sup rd mei_add_zero mei_store)
  have "layer_get demo (numeric_state_key KEY_DIAMOND_OWNED addr_encode BLACKHOLE_ADDR) = Ok None"
    using demo_addrs(9) by (auto simp: demo_def core_set_defs key_defs layer_get_def layer_set_def
        empty_layer_def addr_encode_id)
  then have "diamond_owned_exist ?s3 BLACKHOLE_ADDR = Ok False"
    by (simp add: diamond_owned_exist_def alice_paid_def balance_set_def layer_get_def layer_set_def key_defs)
  then have eng: "blackhole_engulf ?s2 BLACKHOLE_ADDR = Ok (True, ?s3)"
    by (simp add: blackhole_engulf_def Let_def)
  have "get_base_total ?s3 = Ok bt_default"
    using demo_total by (simp add: get_base_total_def alice_paid_def)
  moreover have "to_238_u64 (mei 2) = Ok (2 * 10 ^ 10)" by (simp add: to_unit_u64_eq)
  ultimately have "\<exists>s'. total_record_blackhole_hac ?s3 (mei 2) = Ok ((), s')"
    by (simp add: total_record_blackhole_hac_def with_base_total_def total_add_amount_238_def
        total_add_u12_def u128_to_uint12_def checked_add_def uint_from_checked_def uint_MAX_eq bt_default_def)
  then show ?thesis
    using sub add eng demo_addrs(9)
    by (simp add: hac_transfer_def check_transfer_recipient_allowed_def check_amount_is_positive_def
        hac_add_def hac_add_state_def)
qed

lemma compress_mei: "compress (mei 5) 1 Grow = Ok (mei 5)"
proof -
  have "u128_byte_len 5 = 1" by (simp add: u128_byte_len_def bit_length.simps)
  then have "compress_loop 1 Grow 5 248 = Ok (5, 248)" by (simp add: compress_loop.simps)
  then show ?thesis
    by (simp add: compress_def mei_def tail_to_u128_def tail_len_def Let_def drop_left_zero_def
        be_nat_to_be_bytes nat_bytes.simps be_nat_append)
qed

end
