(* ===== verification/ContractStorage.thy ===== *)
theory ContractStorage
  imports CoreState
begin

text \<open>
  The contract storage discount budget: the fee parameters and price curve of
  \<^verbatim>\<open>src/base/src/registry/mod.rs\<close> and the block lifecycle of
  \<^verbatim>\<open>src/base/src/ledger/contract_storage.rs\<close>. A block starts with the remaining budget of its parent
  state, transactions consume discount bytes up to a quota, and settlement refills the budget at the
  active rate up to the capacity. The 128-bit numbers of the code are natural numbers with the
  overflow checks written out.
\<close>

section \<open>Fee parameters\<close>

abbreviation (input) CONTRACT_STORAGE_RULE_V1 :: nat where "CONTRACT_STORAGE_RULE_V1 \<equiv> 1"

record storage_fee_params =
  csf_rule_version :: nat
  csf_activation_height :: nat
  csf_target_capacity_blocks :: nat
  csf_curve_steps :: nat
  csf_period_floor :: nat
  csf_max_block_discount_bytes :: nat
  csf_supplement_schedule :: "(nat \<times> nat) list"

definition csf_disabled :: storage_fee_params where
  "csf_disabled = \<lparr>csf_rule_version = CONTRACT_STORAGE_RULE_V1, csf_activation_height = 0,
     csf_target_capacity_blocks = 0, csf_curve_steps = 0, csf_period_floor = 0,
     csf_max_block_discount_bytes = 0, csf_supplement_schedule = []\<rparr>"

definition csf_is_disabled :: "storage_fee_params \<Rightarrow> bool" where
  "csf_is_disabled f = (csf_supplement_schedule f = [])"

definition csf_is_active_at :: "storage_fee_params \<Rightarrow> nat \<Rightarrow> bool" where
  "csf_is_active_at f height = (\<not> csf_is_disabled f)"

definition csf_active_entry :: "storage_fee_params \<Rightarrow> nat \<Rightarrow> (nat \<times> nat) option" where
  "csf_active_entry f height =
     (if csf_is_disabled f then None
      else case filter (\<lambda>(h, _). h \<le> height) (csf_supplement_schedule f) of
        [] \<Rightarrow> Some (hd (csf_supplement_schedule f))
      | es \<Rightarrow> Some (last es))"

definition csf_active_rate :: "storage_fee_params \<Rightarrow> nat \<Rightarrow> nat option" where
  "csf_active_rate f height = map_option snd (csf_active_entry f height)"

definition csf_capacity_at :: "storage_fee_params \<Rightarrow> nat \<Rightarrow> nat ret" where
  "csf_capacity_at f height =
     (case csf_active_entry f height of
        None \<Rightarrow> errf ''contract storage fee schedule has no active entry''
      | Some (_, rate) \<Rightarrow>
          ok_or (checked_mul 128 rate (csf_target_capacity_blocks f))
            (Error Abort ''contract storage capacity overflow'' (Some ''core_failed'')))"

definition csf_block_quota :: "storage_fee_params \<Rightarrow> nat \<Rightarrow> nat" where
  "csf_block_quota f remaining = min remaining (csf_max_block_discount_bytes f)"

text \<open>The numerator is 0 only for a curve of 0 steps, which no valid profile has; the minimum with the steps
  is then 0 for every value of the wrapped difference \<^verbatim>\<open>numer - 1\<close> of a release build.\<close>

definition csf_discount_periods :: "storage_fee_params \<Rightarrow> nat \<Rightarrow> nat \<Rightarrow> nat \<Rightarrow> nat ret" where
  "csf_discount_periods f remaining_bytes capacity_bytes max_periods =
     (if capacity_bytes = 0 then abortf ''contract storage capacity is zero'' ''core_failed''
      else
        let remaining = min remaining_bytes capacity_bytes;
            used = capacity_bytes - remaining;
            steps = csf_curve_steps f
        in try_ret
             (if used = 0 then Ok 1
              else try_ret (ok_or (checked_mul 128 used steps)
                     (Error Abort ''contract storage price curve overflow'' (Some ''core_failed''))) (\<lambda>numer.
                   Ok (min ((numer - 1) div capacity_bytes + 1) steps))) (\<lambda>step.
           try_ret (ok_or (checked_mul 128 (csf_period_floor f) step)
             (Error Abort ''contract storage price curve overflow in periods'' (Some ''core_failed''))) (\<lambda>periods.
           if periods > max_periods
           then abortf ''contract storage curve exceeds full price'' ''core_failed''
           else Ok periods)))"

fun csf_validate_schedule :: "storage_fee_params \<Rightarrow> (nat \<times> nat) option \<Rightarrow> (nat \<times> nat) list \<Rightarrow> unit ret" where
  "csf_validate_schedule f prev [] = Ok ()"
| "csf_validate_schedule f prev ((height, rate) # rest) =
     (if rate = 0 then errf ''contract storage schedule rate must be positive''
      else if height mod csf_target_capacity_blocks f \<noteq> 0
      then errf ''contract storage schedule height must be a multiple of T''
      else try_ret
        (case prev of
           None \<Rightarrow>
             if height \<noteq> csf_activation_height f
             then errf ''contract storage schedule must start at activation height'' else Ok ()
         | Some (ph, pr) \<Rightarrow>
             if height \<le> ph \<or> rate \<le> pr then errf ''contract storage schedule entry violates monotonicity''
             else if (rate - pr) mod 1000 \<noteq> 0
             then errf ''contract storage rate delta must be a multiple of 1000 bytes/block''
             else Ok ()) (\<lambda>_.
      if csf_max_block_discount_bytes f \<le> rate
      then errf ''contract storage K_max must exceed every schedule rate''
      else try_ret (ok_or (checked_mul 128 rate (csf_target_capacity_blocks f))
             (Error Fault ''contract storage capacity overflows'' None)) (\<lambda>capacity.
        if capacity > uint_MAX 16 12 then errf ''contract storage capacity exceeds Uint12 maximum''
        else csf_validate_schedule f (Some (height, rate)) rest)))"

definition csf_validate :: "storage_fee_params \<Rightarrow> nat \<Rightarrow> unit ret" where
  "csf_validate f max_periods =
     (if csf_is_disabled f then Ok ()
      else if csf_rule_version f \<noteq> CONTRACT_STORAGE_RULE_V1
      then errf ''unsupported contract storage rule version''
      else if csf_curve_steps f \<noteq> 1000 \<or> csf_period_floor f \<noteq> 10
      then errf ''contract storage rule v1 requires curve_steps=1000 and period_floor=10''
      else if checked_mul 64 (csf_period_floor f) (csf_curve_steps f) \<noteq> Some max_periods
      then errf ''contract storage period_floor times curve_steps must equal P_max''
      else if csf_target_capacity_blocks f = 0
      then errf ''contract storage target_capacity_blocks must be positive''
      else if csf_activation_height f mod csf_target_capacity_blocks f \<noteq> 0
      then errf ''contract storage activation height must be a multiple of T''
      else if csf_max_block_discount_bytes f = 0
      then errf ''contract storage max_block_discount_bytes must be positive''
      else csf_validate_schedule f None (csf_supplement_schedule f))"

record vm_execution_params =
  vp_contract_store_perm_periods :: nat
  vp_contract_storage_fee :: storage_fee_params
  vp_initial_fee_purity_floor :: nat
  vp_fee_purity_reductions :: "(nat \<times> nat) list"
  vp_gas_budget_lookup :: "nat list"
  vp_tx_gas_budget_cap_byte :: u8
  vp_compute_limit_byte :: u8
  vp_resource_limit_byte :: u8
  vp_storage_limit_byte :: u8

definition fee_purity_floor_at :: "nat \<Rightarrow> (nat \<times> nat) list \<Rightarrow> nat \<Rightarrow> nat" where
  "fee_purity_floor_at initial reductions height =
     fold (\<lambda>(activation, next) floor. if activation \<le> height \<and> next < floor then next else floor)
       reductions initial"

definition effective_fee_purity :: "vm_execution_params \<Rightarrow> nat \<Rightarrow> nat \<Rightarrow> nat" where
  "effective_fee_purity vp height raw =
     max raw (fee_purity_floor_at (vp_initial_fee_purity_floor vp) (vp_fee_purity_reductions vp) height)"

definition vp_validate :: "vm_execution_params \<Rightarrow> unit ret" where
  "vp_validate vp = csf_validate (vp_contract_storage_fee vp) (vp_contract_store_perm_periods vp)"

section \<open>The persisted record and the block snapshot\<close>

definition ascii_bytes :: "string \<Rightarrow> bytes" where
  "ascii_bytes s = map (of_nat \<circ> of_char) s"

abbreviation (input) KEY_CONTRACT_STORAGE_BUDGET :: u8 where "KEY_CONTRACT_STORAGE_BUDGET \<equiv> 0x12"

definition BLOCK_BUDGET_START_KEY :: bytes where
  "BLOCK_BUDGET_START_KEY = ascii_bytes ''_contract_storage_budget_start''"

definition BLOCK_BUDGET_USED_KEY :: bytes where
  "BLOCK_BUDGET_USED_KEY = ascii_bytes ''_contract_storage_budget_used''"

abbreviation (input) CONTRACT_STORAGE_BUDGET_VERSION_V1 :: nat where "CONTRACT_STORAGE_BUDGET_VERSION_V1 \<equiv> 1"

record storage_budget =
  csb_state_version :: nat
  csb_remaining_bytes :: nat
  csb_applied_capacity_bytes :: nat

definition csb_encode :: "storage_budget \<Rightarrow> bytes" where
  "csb_encode b =
     uint_encode 1 1 (csb_state_version b) @ uint_encode 16 12 (csb_remaining_bytes b) @
     uint_encode 16 12 (csb_applied_capacity_bytes b)"

definition csb_decode :: "bytes \<Rightarrow> (storage_budget \<times> nat) ret" where
  "csb_decode buf =
     try_ret (reader_read (uint_decode 1 1) (reader_new buf)) (\<lambda>(v, r).
     try_ret (reader_read (uint_decode 16 12) r) (\<lambda>(rem, r).
     try_ret (reader_read (uint_decode 16 12) r) (\<lambda>(app, r).
     if reader_remaining r \<noteq> 0 then errf ''contract storage budget decode: trailing bytes''
     else Ok (\<lparr>csb_state_version = v, csb_remaining_bytes = rem, csb_applied_capacity_bytes = app\<rparr>,
              reader_used r))))"

abbreviation budget_fatal :: "string \<Rightarrow> 'a ret" where
  "budget_fatal msg \<equiv> Inl (Error Abort msg (Some STATE_DECODE_FAILED_CODE))"

definition read_contract_storage_budget :: "layer \<Rightarrow> storage_budget option ret" where
  "read_contract_storage_budget s = read_typed csb_decode s [KEY_CONTRACT_STORAGE_BUDGET]"

definition set_contract_storage_budget :: "layer \<Rightarrow> storage_budget \<Rightarrow> layer" where
  "set_contract_storage_budget s b = layer_set s [KEY_CONTRACT_STORAGE_BUDGET] (csb_encode b)"

record storage_snapshot =
  ss_remaining_start :: nat
  ss_used_discount :: nat
  ss_capacity :: nat
  ss_rate :: nat
  ss_quota :: nat

definition remaining_quota :: "storage_snapshot \<Rightarrow> nat" where
  "remaining_quota snap = ss_quota snap - ss_used_discount snap"

definition read_u128_transient :: "layer \<Rightarrow> bytes \<Rightarrow> nat option ret" where
  "read_u128_transient s key = read_typed (uint_decode 16 12) s key"

definition write_u128_transient :: "layer \<Rightarrow> bytes \<Rightarrow> nat \<Rightarrow> layer ret" where
  "write_u128_transient s key value =
     try_ret (ok_or (uint_from_checked 16 12 value)
       (Error Abort ''transient value overflows Uint12'' (Some STATE_DECODE_FAILED_CODE))) (\<lambda>encoded.
     Ok (layer_set s key (uint_encode 16 12 encoded)))"

section \<open>The block lifecycle\<close>

definition budget_start :: "nat \<Rightarrow> storage_budget option \<Rightarrow> nat ret" where
  "budget_start capacity record =
     (case record of
        None \<Rightarrow> Ok capacity
      | Some r \<Rightarrow>
          if csb_state_version r \<noteq> CONTRACT_STORAGE_BUDGET_VERSION_V1
          then budget_fatal ''unsupported budget state version''
          else
            let applied = csb_applied_capacity_bytes r; remaining = csb_remaining_bytes r
            in if capacity < applied then budget_fatal ''active capacity shrank below applied capacity''
               else if applied < remaining then budget_fatal ''remaining budget exceeds recorded capacity''
               else ok_or (checked_add 128 remaining (capacity - applied))
                      (Error Abort ''capacity migration overflow'' (Some STATE_DECODE_FAILED_CODE)))"

definition init_block_contract_storage_budget ::
  "layer \<Rightarrow> vm_execution_params \<Rightarrow> nat \<Rightarrow> (storage_snapshot option \<times> layer) ret" where
  "init_block_contract_storage_budget s vp height =
     (let storage = vp_contract_storage_fee vp
      in if \<not> csf_is_active_at storage height then Ok (None, s)
         else case csf_active_entry storage height of
           None \<Rightarrow> budget_fatal ''no active schedule entry''
         | Some (_, rate) \<Rightarrow>
             try_ret (csf_capacity_at storage height) (\<lambda>capacity.
             try_ret (read_contract_storage_budget s) (\<lambda>record.
             try_ret (budget_start capacity record) (\<lambda>start.
             try_ret (write_u128_transient s BLOCK_BUDGET_START_KEY start) (\<lambda>s.
             try_ret (write_u128_transient s BLOCK_BUDGET_USED_KEY 0) (\<lambda>s.
             Ok (Some \<lparr>ss_remaining_start = start, ss_used_discount = 0, ss_capacity = capacity,
                   ss_rate = rate, ss_quota = csf_block_quota storage start\<rparr>, s)))))))"

definition read_block_contract_storage_snapshot ::
  "layer \<Rightarrow> vm_execution_params \<Rightarrow> nat \<Rightarrow> storage_snapshot option ret" where
  "read_block_contract_storage_snapshot s vp height =
     (let storage = vp_contract_storage_fee vp
      in if \<not> csf_is_active_at storage height then Ok None
         else case csf_active_entry storage height of
           None \<Rightarrow> budget_fatal ''no active schedule entry''
         | Some (_, rate) \<Rightarrow>
             try_ret (csf_capacity_at storage height) (\<lambda>capacity.
             try_ret (read_u128_transient s BLOCK_BUDGET_START_KEY) (\<lambda>st.
             try_ret (ok_or st (Error Abort ''block budget snapshot missing while active''
               (Some STATE_DECODE_FAILED_CODE))) (\<lambda>start.
             if capacity < start then budget_fatal ''block budget start exceeds capacity''
             else
               try_ret (read_u128_transient s BLOCK_BUDGET_USED_KEY) (\<lambda>us.
               try_ret (ok_or us (Error Abort ''block budget used key missing while active''
                 (Some STATE_DECODE_FAILED_CODE))) (\<lambda>used.
               if csf_block_quota storage start < used
               then budget_fatal ''block discount usage exceeds quota''
               else Ok (Some \<lparr>ss_remaining_start = start, ss_used_discount = used,
                      ss_capacity = capacity, ss_rate = rate,
                      ss_quota = csf_block_quota storage start\<rparr>)))))))"

definition peek_block_contract_storage_snapshot ::
  "layer \<Rightarrow> vm_execution_params \<Rightarrow> nat \<Rightarrow> storage_snapshot option ret" where
  "peek_block_contract_storage_snapshot s vp height =
     (if \<not> csf_is_active_at (vp_contract_storage_fee vp) height then Ok None
      else try_ret (read_u128_transient s BLOCK_BUDGET_START_KEY) (\<lambda>st.
        if st = None then Ok None else read_block_contract_storage_snapshot s vp height))"

definition peek_block_budget_remaining :: "layer \<Rightarrow> vm_execution_params \<Rightarrow> nat \<Rightarrow> nat option ret" where
  "peek_block_budget_remaining s vp height =
     try_ret (peek_block_contract_storage_snapshot s vp height) (\<lambda>snap.
     Ok (map_option ss_remaining_start snap))"

definition consume_block_contract_storage_discount ::
  "layer \<Rightarrow> storage_snapshot \<Rightarrow> nat \<Rightarrow> (storage_snapshot \<times> layer) ret" where
  "consume_block_contract_storage_discount s snap charge =
     (if remaining_quota snap < charge then errf ''contract storage discount quota exhausted''
      else
        try_ret (ok_or (checked_add 128 (ss_used_discount snap) charge)
          (Error Abort ''block discount usage overflow'' (Some STATE_DECODE_FAILED_CODE))) (\<lambda>used.
        try_ret (write_u128_transient s BLOCK_BUDGET_USED_KEY used) (\<lambda>s.
        Ok (snap\<lparr>ss_used_discount := used\<rparr>, s))))"

record storage_settlement =
  st_b_start :: nat
  st_discount_used :: nat
  st_b_next :: nat
  st_capacity :: nat
  st_rate :: nat

definition settle_block_contract_storage_budget ::
  "layer \<Rightarrow> vm_execution_params \<Rightarrow> nat \<Rightarrow> (storage_settlement option \<times> layer) ret" where
  "settle_block_contract_storage_budget s vp height =
     try_ret (read_block_contract_storage_snapshot s vp height) (\<lambda>so.
     case so of
       None \<Rightarrow> Ok (None, s)
     | Some snap \<Rightarrow>
         try_ret (ok_or (checked_sub (ss_remaining_start snap) (ss_used_discount snap))
           (Error Abort ''budget underflow'' (Some STATE_DECODE_FAILED_CODE))) (\<lambda>remaining.
         try_ret (ok_or (checked_add 128 remaining (ss_rate snap))
           (Error Abort ''budget refill overflow'' (Some STATE_DECODE_FAILED_CODE))) (\<lambda>refilled.
         let b_next = min refilled (ss_capacity snap);
             settlement = \<lparr>st_b_start = ss_remaining_start snap, st_discount_used = ss_used_discount snap,
               st_b_next = b_next, st_capacity = ss_capacity snap, st_rate = ss_rate snap\<rparr>
         in try_ret (ok_or (uint_from_checked 16 12 b_next)
              (Error Abort ''B_next overflows Uint12'' (Some STATE_DECODE_FAILED_CODE))) (\<lambda>rem.
            try_ret (ok_or (uint_from_checked 16 12 (ss_capacity snap))
              (Error Abort ''capacity overflows Uint12'' (Some STATE_DECODE_FAILED_CODE))) (\<lambda>cap.
            let s = set_contract_storage_budget s
                      \<lparr>csb_state_version = CONTRACT_STORAGE_BUDGET_VERSION_V1, csb_remaining_bytes = rem,
                       csb_applied_capacity_bytes = cap\<rparr>;
                s = layer_del s BLOCK_BUDGET_START_KEY;
                s = layer_del s BLOCK_BUDGET_USED_KEY
            in Ok (Some settlement, s))))))"

definition verify_block_contract_storage_state :: "layer \<Rightarrow> vm_execution_params \<Rightarrow> nat \<Rightarrow> unit ret" where
  "verify_block_contract_storage_state s vp height =
     (let storage = vp_contract_storage_fee vp
      in try_ret (read_u128_transient s BLOCK_BUDGET_START_KEY) (\<lambda>st.
         if st \<noteq> None then budget_fatal ''transient budget start key leaked into settled state''
         else try_ret (read_u128_transient s BLOCK_BUDGET_USED_KEY) (\<lambda>us.
         if us \<noteq> None then budget_fatal ''transient budget used key leaked into settled state''
         else if csf_is_disabled storage
         then try_ret (read_contract_storage_budget s) (\<lambda>r.
           if r \<noteq> None then budget_fatal ''budget record exists while discount is disabled'' else Ok ())
         else try_ret (csf_capacity_at storage height) (\<lambda>capacity.
           try_ret (read_contract_storage_budget s) (\<lambda>r.
           try_ret (ok_or r (Error Abort ''budget record missing after settlement''
             (Some STATE_DECODE_FAILED_CODE))) (\<lambda>record.
           if csb_state_version record \<noteq> CONTRACT_STORAGE_BUDGET_VERSION_V1
           then budget_fatal ''unsupported budget state version''
           else if csb_applied_capacity_bytes record \<noteq> capacity
           then budget_fatal ''settled record capacity does not match active capacity''
           else if capacity < csb_remaining_bytes record
           then budget_fatal ''remaining budget exceeds capacity''
           else Ok ()))))))"

section \<open>Facts for wallets\<close>

record storage_fee_facts =
  sf_enabled :: bool
  sf_rule_version :: nat
  sf_activation_height :: nat
  sf_height :: nat
  sf_target_capacity_blocks :: nat
  sf_capacity :: nat
  sf_rate :: nat
  sf_remaining :: nat
  sf_period_floor :: nat
  sf_max_periods :: nat
  sf_periods :: nat
  sf_max_block_discount_bytes :: nat
  sf_next_block_quota :: nat
  sf_next_remaining_lo :: nat
  sf_next_remaining_hi :: nat
  sf_next_periods_lo :: nat
  sf_next_periods_hi :: nat

definition facts_remaining :: "nat \<Rightarrow> storage_budget option \<Rightarrow> nat ret" where
  "facts_remaining capacity record =
     (case record of
        None \<Rightarrow> Ok capacity
      | Some r \<Rightarrow>
          let applied = csb_applied_capacity_bytes r; remaining = csb_remaining_bytes r
          in if capacity < applied then budget_fatal ''active capacity shrank below applied capacity''
             else if applied < remaining then budget_fatal ''remaining budget exceeds recorded capacity''
             else ok_or (checked_add 128 remaining (capacity - applied))
                    (Error Abort ''capacity migration overflow'' (Some STATE_DECODE_FAILED_CODE)))"

definition contract_storage_fee_facts ::
  "layer \<Rightarrow> vm_execution_params \<Rightarrow> nat \<Rightarrow> storage_fee_facts ret" where
  "contract_storage_fee_facts s vp height =
     (let storage = vp_contract_storage_fee vp; p_max = vp_contract_store_perm_periods vp
      in if \<not> csf_is_active_at storage height
         then Ok \<lparr>sf_enabled = False, sf_rule_version = csf_rule_version storage,
                sf_activation_height = csf_activation_height storage, sf_height = height,
                sf_target_capacity_blocks = csf_target_capacity_blocks storage,
                sf_capacity = 0, sf_rate = 0, sf_remaining = 0, sf_period_floor = csf_period_floor storage,
                sf_max_periods = p_max, sf_periods = p_max,
                sf_max_block_discount_bytes = csf_max_block_discount_bytes storage,
                sf_next_block_quota = 0, sf_next_remaining_lo = 0, sf_next_remaining_hi = 0,
                sf_next_periods_lo = p_max, sf_next_periods_hi = p_max\<rparr>
         else try_ret (csf_capacity_at storage height) (\<lambda>capacity.
           let rate = (case csf_active_rate storage height of Some r \<Rightarrow> r | None \<Rightarrow> 0)
           in try_ret (read_contract_storage_budget s) (\<lambda>record.
              try_ret (facts_remaining capacity record) (\<lambda>rem.
              let remaining = min rem capacity
              in try_ret (csf_discount_periods storage remaining capacity p_max) (\<lambda>periods.
                 let quota = csf_block_quota storage remaining;
                     refill_lo = remaining - quota;
                     next_lo = min (case checked_add 128 refill_lo rate of Some x \<Rightarrow> x | None \<Rightarrow> 2 ^ 128 - 1) capacity;
                     next_hi = min (case checked_add 128 remaining rate of Some x \<Rightarrow> x | None \<Rightarrow> capacity) capacity
                 in try_ret (csf_discount_periods storage next_lo capacity p_max) (\<lambda>next_periods_lo.
                    try_ret (csf_discount_periods storage next_hi capacity p_max) (\<lambda>next_periods_hi.
                    Ok \<lparr>sf_enabled = True, sf_rule_version = csf_rule_version storage,
                        sf_activation_height = csf_activation_height storage, sf_height = height,
                        sf_target_capacity_blocks = csf_target_capacity_blocks storage,
                        sf_capacity = capacity, sf_rate = rate, sf_remaining = remaining,
                        sf_period_floor = csf_period_floor storage, sf_max_periods = p_max,
                        sf_periods = periods,
                        sf_max_block_discount_bytes = csf_max_block_discount_bytes storage,
                        sf_next_block_quota = quota, sf_next_remaining_lo = next_lo,
                        sf_next_remaining_hi = next_hi,
                        sf_next_periods_lo = min next_periods_hi next_periods_lo,
                        sf_next_periods_hi = max next_periods_lo next_periods_hi\<rparr>)))))))"

section \<open>Quotes\<close>

definition SETTLEMENT_SCALE :: nat where "SETTLEMENT_SCALE = 10 ^ (UNIT_238 - UNIT_SHUO)"

definition ceil_pricing_to_settlement :: "nat \<Rightarrow> nat" where
  "ceil_pricing_to_settlement v_pricing = (v_pricing + (SETTLEMENT_SCALE - 1)) div SETTLEMENT_SCALE"

definition settlement_amount :: "nat \<Rightarrow> amount" where
  "settlement_amount v_pricing = coin_u128 (ceil_pricing_to_settlement v_pricing) UNIT_238"

record storage_fee_quote =
  sq_floor_purity :: nat
  sq_full_u232 :: nat
  sq_discount_u232 :: "nat option"

definition quote_scale :: "nat \<Rightarrow> nat \<Rightarrow> nat \<Rightarrow> nat ret" where
  "quote_scale floor bytes periods =
     try_ret (ok_or (Option.bind (checked_mul 128 floor bytes) (\<lambda>v. checked_mul 128 v periods))
       (Error Abort ''storage fee quote overflow'' (Some STATE_DECODE_FAILED_CODE))) (\<lambda>v.
     ok_or (checked_mul 128 (ceil_pricing_to_settlement v) SETTLEMENT_SCALE)
       (Error Abort ''storage fee quote overflow'' (Some STATE_DECODE_FAILED_CODE)))"

definition contract_storage_fee_quote ::
  "layer \<Rightarrow> vm_execution_params \<Rightarrow> nat \<Rightarrow> nat \<Rightarrow> storage_fee_quote ret" where
  "contract_storage_fee_quote s vp height charge_bytes =
     try_ret (contract_storage_fee_facts s vp height) (\<lambda>facts.
     let floor = effective_fee_purity vp height 0
     in try_ret (quote_scale floor charge_bytes (sf_max_periods facts)) (\<lambda>full_u232.
        try_ret (if sf_enabled facts \<and> charge_bytes \<le> sf_next_block_quota facts
                 then try_ret (quote_scale floor charge_bytes (sf_periods facts)) (\<lambda>d. Ok (Some d))
                 else Ok None) (\<lambda>discount_u232.
        Ok \<lparr>sq_floor_purity = floor, sq_full_u232 = full_u232, sq_discount_u232 = discount_u232\<rparr>)))"

section \<open>The price curve\<close>

lemma ceil_div_le_iff:
  fixes a c :: nat
  assumes "0 < a" "0 < c"
  shows "(a - 1) div c + 1 \<le> n \<longleftrightarrow> a \<le> n * c"
proof -
  have "(a - 1) div c + 1 \<le> n \<longleftrightarrow> (a - 1) div c < n" by linarith
  also have "\<dots> \<longleftrightarrow> a - 1 < n * c" using assms(2) by (simp add: div_less_iff_less_mult)
  also have "\<dots> \<longleftrightarrow> a \<le> n * c" using assms(1) by linarith
  finally show ?thesis .
qed

lemma ceil_div_mono:
  fixes a b c d :: nat
  assumes "0 < a" "0 < b" "0 < c" "0 < d" "a * d \<le> b * c"
  shows "(a - 1) div c + 1 \<le> (b - 1) div d + 1"
proof -
  let ?n = "(b - 1) div d + 1"
  have "b \<le> ?n * d" using ceil_div_le_iff [OF assms(2,4), of ?n] by simp
  then have "a * d \<le> ?n * d * c" using assms(5) by (meson le_trans mult_le_mono1)
  then have "a * d \<le> (?n * c) * d" by (simp only: ac_simps)
  then have "a \<le> ?n * c" using assms(4) by simp
  then show ?thesis using ceil_div_le_iff [OF assms(1,3)] by blast
qed

text \<open>The step of the curve: a ceiling of the used share, between one and the number of steps.\<close>

definition curve_step :: "nat \<Rightarrow> nat \<Rightarrow> nat \<Rightarrow> nat" where
  "curve_step steps used capacity =
     (if used = 0 then 1 else min ((used * steps - 1) div capacity + 1) steps)"

lemma curve_step_mono:
  assumes "0 < capacity" "0 < capacity'" "0 < steps" "used * capacity' \<le> used' * capacity"
  shows "curve_step steps used capacity \<le> curve_step steps used' capacity'"
proof (cases "used = 0")
  case True
  then show ?thesis using assms by (auto simp: curve_step_def)
next
  case False
  then have u': "used' \<noteq> 0" using assms by (metis mult_eq_0_iff le_zero_eq less_irrefl)
  have "used * capacity' * steps \<le> used' * capacity * steps" using assms(4) by (rule mult_le_mono1)
  then have "used * steps * capacity' \<le> used' * steps * capacity" by (simp only: ac_simps)
  then have "(used * steps - 1) div capacity + 1 \<le> (used' * steps - 1) div capacity' + 1"
    using ceil_div_mono [of "used * steps" "used' * steps" capacity capacity'] assms False u' by simp
  then show ?thesis using False u' by (simp add: curve_step_def)
qed

lemma curve_step_bounds: "0 < steps \<Longrightarrow> 1 \<le> curve_step steps used capacity \<and> curve_step steps used capacity \<le> steps"
  by (auto simp: curve_step_def)

lemma csf_validateD:
  assumes "csf_validate f p = Ok ()" "\<not> csf_is_disabled f"
  shows "csf_curve_steps f = 1000" "csf_period_floor f = 10" "p = 10000" "0 < csf_target_capacity_blocks f"
    "0 < csf_max_block_discount_bytes f" "csf_validate_schedule f None (csf_supplement_schedule f) = Ok ()"
  using assms by (auto simp: csf_validate_def split: if_splits)

lemma validate_schedule_entry:
  "csf_validate_schedule f prev es = Ok () \<Longrightarrow> (h, r) \<in> set es \<Longrightarrow>
     0 < r \<and> r * csf_target_capacity_blocks f \<le> uint_MAX 16 12 \<and> r < csf_max_block_discount_bytes f"
  by (induction f prev es rule: csf_validate_schedule.induct) (auto split: if_splits)

lemma uint12_MAX: "uint_MAX 16 12 = 2 ^ 96 - 1"
  by (simp add: uint_MAX_eq)

lemma uint12_fits:
  assumes "v \<le> uint_MAX 16 12"
  shows "v < 2 ^ 128" "v * 1000 < 2 ^ 128" "w \<le> uint_MAX 16 12 \<Longrightarrow> v + w < 2 ^ 128"
  using assms by (simp_all add: uint12_MAX)

lemma active_entry_in: "csf_active_entry f h = Some e \<Longrightarrow> e \<in> set (csf_supplement_schedule f)"
proof -
  assume a: "csf_active_entry f h = Some e"
  show ?thesis
  proof (cases "filter (\<lambda>(h', _). h' \<le> h) (csf_supplement_schedule f)")
    case Nil
    with a show ?thesis by (auto simp: csf_active_entry_def csf_is_disabled_def split: if_splits)
  next
    case (Cons x xs)
    have "last (x # xs) \<in> set (filter (\<lambda>(h', _). h' \<le> h) (csf_supplement_schedule f))"
      unfolding Cons by (rule last_in_set) simp
    then have "last (x # xs) \<in> set (csf_supplement_schedule f)" by simp
    moreover have "e = last (x # xs)" using a Cons by (simp add: csf_active_entry_def split: if_splits)
    ultimately show ?thesis by (simp only:)
  qed
qed

text \<open>What a validated and enabled profile gives at every height.\<close>

lemma active_profile:
  assumes "csf_validate f p = Ok ()" "\<not> csf_is_disabled f"
  obtains h0 rate where "csf_active_entry f height = Some (h0, rate)" "0 < rate"
    "csf_capacity_at f height = Ok (rate * csf_target_capacity_blocks f)"
    "0 < rate * csf_target_capacity_blocks f"
    "rate * csf_target_capacity_blocks f \<le> uint_MAX 16 12" "rate < csf_max_block_discount_bytes f"
    "rate \<le> rate * csf_target_capacity_blocks f"
proof -
  have "csf_active_entry f height \<noteq> None"
    using assms(2) by (simp add: csf_active_entry_def split: list.split)
  then obtain e where e: "csf_active_entry f height = Some e" by blast
  obtain h0 rate where hr: "e = (h0, rate)" by (cases e)
  have v: "0 < rate \<and> rate * csf_target_capacity_blocks f \<le> uint_MAX 16 12 \<and> rate < csf_max_block_discount_bytes f"
    using validate_schedule_entry [OF csf_validateD(6) [OF assms]] active_entry_in [OF e] hr by blast
  have "rate * csf_target_capacity_blocks f < 2 ^ 128"
    using v uint12_fits(1) by blast
  then have "csf_capacity_at f height = Ok (rate * csf_target_capacity_blocks f)"
    using e hr by (simp add: csf_capacity_at_def checked_mul_def)
  then show ?thesis using that e hr v csf_validateD(4) [OF assms] by simp
qed

lemma discount_periods_eq:
  assumes "csf_validate f p = Ok ()" "\<not> csf_is_disabled f" "0 < capacity" "capacity \<le> uint_MAX 16 12"
  shows "csf_discount_periods f remaining capacity p =
    Ok (10 * curve_step 1000 (capacity - min remaining capacity) capacity)"
proof -
  note v = csf_validateD [OF assms(1,2)]
  let ?used = "capacity - min remaining capacity"
  have "?used * 1000 < 2 ^ 128"
    by (rule uint12_fits(2)) (use assms(4) in linarith)
  then have u: "checked_mul 128 ?used 1000 = Some (?used * 1000)" by (simp add: checked_mul_def)
  have b: "curve_step 1000 ?used capacity \<le> 1000" using curve_step_bounds by simp
  then have m: "checked_mul 128 10 (curve_step 1000 ?used capacity) = Some (10 * curve_step 1000 ?used capacity)"
    by (simp add: checked_mul_def)
  have inner: "(if ?used = 0 then Ok 1 else try_ret (ok_or (checked_mul 128 ?used 1000) e)
      (\<lambda>numer. Ok (min ((numer - 1) div capacity + 1) 1000))) = Ok (curve_step 1000 ?used capacity)" for e
    by (simp only: u ok_or_simps try_ret_simps curve_step_def if_distrib [of Inr])
  have "capacity \<noteq> 0" "\<not> 10000 < 10 * curve_step 1000 ?used capacity" using assms(3) b by auto
  then show ?thesis
    unfolding csf_discount_periods_def Let_def v(1-3) inner by (simp only: m ok_or_simps try_ret_simps if_False)
qed

section \<open>Reading and writing the budget\<close>

lemma budget_keys [simp]:
  "BLOCK_BUDGET_START_KEY \<noteq> BLOCK_BUDGET_USED_KEY" "BLOCK_BUDGET_USED_KEY \<noteq> BLOCK_BUDGET_START_KEY"
  "BLOCK_BUDGET_START_KEY \<noteq> [KEY_CONTRACT_STORAGE_BUDGET]" "BLOCK_BUDGET_USED_KEY \<noteq> [KEY_CONTRACT_STORAGE_BUDGET]"
  "[KEY_CONTRACT_STORAGE_BUDGET] \<noteq> BLOCK_BUDGET_START_KEY" "[KEY_CONTRACT_STORAGE_BUDGET] \<noteq> BLOCK_BUDGET_USED_KEY"
  by (simp_all add: BLOCK_BUDGET_START_KEY_def BLOCK_BUDGET_USED_KEY_def ascii_bytes_def)

lemma read_transient_eq:
  assumes "s key = Ok (Some (uint_encode 16 12 v))" "v \<le> uint_MAX 16 12"
  shows "read_u128_transient s key = Ok (Some v)"
  using assms uint12.decode_encode_nil [of v]
  by (simp add: read_u128_transient_def read_typed_def layer_get_def uint_valid_def)

lemma write_transient_eq:
  "v \<le> uint_MAX 16 12 \<Longrightarrow> write_u128_transient s key v = Ok (layer_set s key (uint_encode 16 12 v))"
  by (simp add: write_u128_transient_def uint_from_checked_def)

lemma csb_decode_encode:
  assumes "csb_state_version b = 1" "csb_remaining_bytes b \<le> uint_MAX 16 12" "csb_applied_capacity_bytes b \<le> uint_MAX 16 12"
  shows "csb_decode (csb_encode b) = Ok (b, length (csb_encode b))"
proof -
  have v: "uint_valid 1 1 (csb_state_version b)" "uint_valid 16 12 (csb_remaining_bytes b)"
    "uint_valid 16 12 (csb_applied_capacity_bytes b)"
    using assms by (simp_all add: uint_valid_def uint_MAX_eq del: One_nat_def)
  have "reader_remaining (reader_at pre []) = 0" for pre by (simp add: reader_remaining_def reader_at_def)
  moreover have "reader_used (reader_at pre suf) = length pre" for pre suf by (simp add: reader_used_def reader_at_def)
  moreover have "reader_read (uint_decode 16 12) (reader_at pre (uint_encode 16 12 (csb_applied_capacity_bytes b))) =
      Ok (csb_applied_capacity_bytes b, reader_at (pre @ uint_encode 16 12 (csb_applied_capacity_bytes b)) [])" for pre
    using uint12.read_ok [OF v(3), of pre "[]"] by simp
  ultimately show ?thesis
    using v unfolding csb_decode_def csb_encode_def reader_new_at
    by (simp add: uint1.read_ok uint12.read_ok del: One_nat_def)
qed

lemma read_budget_eq:
  assumes "s [KEY_CONTRACT_STORAGE_BUDGET] = Ok (Some (csb_encode b))"
    "csb_state_version b = 1" "csb_remaining_bytes b \<le> uint_MAX 16 12" "csb_applied_capacity_bytes b \<le> uint_MAX 16 12"
  shows "read_contract_storage_budget s = Ok (Some b)"
  using assms(1) csb_decode_encode [OF assms(2-4)]
  by (simp add: read_contract_storage_budget_def read_typed_def layer_get_def)

section \<open>One block\<close>

text \<open>The discounts of a block: each transaction reads the snapshot and consumes its bytes.\<close>

fun run_discounts :: "vm_execution_params \<Rightarrow> nat \<Rightarrow> nat list \<Rightarrow> layer \<Rightarrow> layer ret" where
  "run_discounts vp height [] s = Ok s"
| "run_discounts vp height (charge # charges) s =
     try_ret (read_block_contract_storage_snapshot s vp height) (\<lambda>so.
     case so of
       None \<Rightarrow> errf ''discount while the mechanism is disabled''
     | Some snap \<Rightarrow>
         try_ret (consume_block_contract_storage_discount s snap charge) (\<lambda>(_, s).
         run_discounts vp height charges s))"

definition snapshot_in :: "layer \<Rightarrow> nat \<Rightarrow> nat \<Rightarrow> bool" where
  "snapshot_in s start used \<longleftrightarrow>
     s BLOCK_BUDGET_START_KEY = Ok (Some (uint_encode 16 12 start)) \<and>
     s BLOCK_BUDGET_USED_KEY = Ok (Some (uint_encode 16 12 used))"

definition budget_fits :: "nat \<Rightarrow> storage_budget option \<Rightarrow> bool" where
  "budget_fits capacity record \<longleftrightarrow>
     (\<forall>r. record = Some r \<longrightarrow> csb_state_version r = 1 \<and> csb_remaining_bytes r \<le> csb_applied_capacity_bytes r \<and>
        csb_applied_capacity_bytes r \<le> capacity)"

definition start_of :: "nat \<Rightarrow> storage_budget option \<Rightarrow> nat" where
  "start_of capacity record =
     (case record of None \<Rightarrow> capacity
      | Some r \<Rightarrow> csb_remaining_bytes r + (capacity - csb_applied_capacity_bytes r))"

lemma start_of_le: "budget_fits capacity record \<Longrightarrow> start_of capacity record \<le> capacity"
  by (auto simp: budget_fits_def start_of_def split: option.split)

lemma budget_start_eq:
  assumes "budget_fits capacity record" "capacity \<le> uint_MAX 16 12"
  shows "budget_start capacity record = Ok (start_of capacity record)"
proof (cases "record")
  case (Some r)
  then have b: "csb_state_version r = 1" "csb_remaining_bytes r \<le> csb_applied_capacity_bytes r"
    "csb_applied_capacity_bytes r \<le> capacity"
    using assms(1) by (auto simp: budget_fits_def)
  then have "csb_remaining_bytes r + (capacity - csb_applied_capacity_bytes r) \<le> capacity" by linarith
  then have "csb_remaining_bytes r + (capacity - csb_applied_capacity_bytes r) < 2 ^ 128"
    using uint12_fits(1) [OF assms(2)] by (rule le_less_trans)
  with b Some show ?thesis by (simp add: budget_start_def Let_def start_of_def checked_add_def)
qed (simp add: budget_start_def start_of_def)

lemma snapshot_read:
  assumes v: "csf_validate (vp_contract_storage_fee vp) p = Ok ()" "\<not> csf_is_disabled (vp_contract_storage_fee vp)"
    and e: "csf_active_entry (vp_contract_storage_fee vp) height = Some (h0, rate)"
      "csf_capacity_at (vp_contract_storage_fee vp) height = Ok capacity"
    and s: "snapshot_in s start used" and b: "start \<le> capacity" "capacity \<le> uint_MAX 16 12"
      "used \<le> csf_block_quota (vp_contract_storage_fee vp) start"
  shows "read_block_contract_storage_snapshot s vp height =
    Ok (Some \<lparr>ss_remaining_start = start, ss_used_discount = used, ss_capacity = capacity, ss_rate = rate,
       ss_quota = csf_block_quota (vp_contract_storage_fee vp) start\<rparr>)"
proof -
  have "used \<le> uint_MAX 16 12" using b by (simp add: csf_block_quota_def)
  then have "read_u128_transient s BLOCK_BUDGET_START_KEY = Ok (Some start)"
    "read_u128_transient s BLOCK_BUDGET_USED_KEY = Ok (Some used)"
    using s b by (auto simp: snapshot_in_def intro!: read_transient_eq)
  with v(2) e b show ?thesis
    by (simp add: read_block_contract_storage_snapshot_def csf_is_active_at_def)
qed

lemma snapshot_set_used:
  "snapshot_in s start used \<Longrightarrow> snapshot_in (layer_set s BLOCK_BUDGET_USED_KEY (uint_encode 16 12 used')) start used'"
  by (simp add: snapshot_in_def layer_set_def)

lemma run_discounts_spec:
  assumes v: "csf_validate (vp_contract_storage_fee vp) p = Ok ()" "\<not> csf_is_disabled (vp_contract_storage_fee vp)"
    and e: "csf_active_entry (vp_contract_storage_fee vp) height = Some (h0, rate)"
      "csf_capacity_at (vp_contract_storage_fee vp) height = Ok capacity"
    and b: "start \<le> capacity" "capacity \<le> uint_MAX 16 12"
  shows "snapshot_in s start used \<Longrightarrow> used \<le> csf_block_quota (vp_contract_storage_fee vp) start \<Longrightarrow>
    (if used + sum_list charges \<le> csf_block_quota (vp_contract_storage_fee vp) start
     then run_discounts vp height charges s =
       Ok (layer_set s BLOCK_BUDGET_USED_KEY (uint_encode 16 12 (used + sum_list charges)))
     else run_discounts vp height charges s = errf ''contract storage discount quota exhausted'')"
proof (induction charges arbitrary: s used)
  case Nil
  then have "layer_set s BLOCK_BUDGET_USED_KEY (uint_encode 16 12 used) = s"
    by (auto simp: layer_set_def snapshot_in_def fun_upd_idem)
  with Nil show ?case by simp
next
  case (Cons c cs)
  let ?q = "csf_block_quota (vp_contract_storage_fee vp) start"
  note sn = snapshot_read [OF v e Cons.prems(1) b Cons.prems(2)]
  show ?case
  proof (cases "used + c \<le> ?q")
    case False
    then have "?q - used < c" using Cons.prems(2) by linarith
    then show ?thesis using sn False
      by (simp add: consume_block_contract_storage_discount_def remaining_quota_def)
  next
    case True
    have "used + c \<le> uint_MAX 16 12" using True b by (simp add: csf_block_quota_def)
    then have "consume_block_contract_storage_discount s \<lparr>ss_remaining_start = start, ss_used_discount = used,
        ss_capacity = capacity, ss_rate = rate, ss_quota = ?q\<rparr> c =
      Ok (\<lparr>ss_remaining_start = start, ss_used_discount = used + c, ss_capacity = capacity, ss_rate = rate, ss_quota = ?q\<rparr>,
        layer_set s BLOCK_BUDGET_USED_KEY (uint_encode 16 12 (used + c)))"
      using True uint12_fits(1) [of "used + c"]
      by (simp add: consume_block_contract_storage_discount_def remaining_quota_def write_transient_eq checked_add_def)
    with sn have step: "run_discounts vp height (c # cs) s =
        run_discounts vp height cs (layer_set s BLOCK_BUDGET_USED_KEY (uint_encode 16 12 (used + c)))"
      by simp
    have "layer_set (layer_set s BLOCK_BUDGET_USED_KEY x) BLOCK_BUDGET_USED_KEY y = layer_set s BLOCK_BUDGET_USED_KEY y" for x y
      by (simp add: layer_set_def)
    then show ?thesis
      using Cons.IH [OF snapshot_set_used [OF Cons.prems(1)] True] unfolding step by (simp add: add.assoc)
  qed
qed

lemma settle_spec:
  assumes v: "csf_validate (vp_contract_storage_fee vp) p = Ok ()" "\<not> csf_is_disabled (vp_contract_storage_fee vp)"
    and e: "csf_active_entry (vp_contract_storage_fee vp) height = Some (h0, rate)"
      "csf_capacity_at (vp_contract_storage_fee vp) height = Ok capacity" "rate \<le> capacity"
    and b: "start \<le> capacity" "capacity \<le> uint_MAX 16 12"
    and s: "snapshot_in s start used" "used \<le> csf_block_quota (vp_contract_storage_fee vp) start"
  shows "\<exists>s'. settle_block_contract_storage_budget s vp height =
      Ok (Some \<lparr>st_b_start = start, st_discount_used = used, st_b_next = min capacity (start - used + rate),
        st_capacity = capacity, st_rate = rate\<rparr>, s') \<and>
    read_contract_storage_budget s' = Ok (Some \<lparr>csb_state_version = 1,
        csb_remaining_bytes = min capacity (start - used + rate), csb_applied_capacity_bytes = capacity\<rparr>) \<and>
    verify_block_contract_storage_state s' vp height = Ok () \<and>
    (\<forall>key. key \<noteq> BLOCK_BUDGET_START_KEY \<longrightarrow> key \<noteq> BLOCK_BUDGET_USED_KEY \<longrightarrow>
       key \<noteq> [KEY_CONTRACT_STORAGE_BUDGET] \<longrightarrow> s' key = s key)"
proof -
  let ?b = "min capacity (start - used + rate)"
  let ?rec = "\<lparr>csb_state_version = 1, csb_remaining_bytes = ?b, csb_applied_capacity_bytes = capacity\<rparr>"
  define s' where "s' = layer_del (layer_del (set_contract_storage_budget s ?rec) BLOCK_BUDGET_START_KEY) BLOCK_BUDGET_USED_KEY"
  have us: "used \<le> start" using s(2) by (simp add: csf_block_quota_def)
  have "start - used + rate < 2 ^ 128"
    by (rule uint12_fits(3)) (use b e(3) in linarith)+
  then have "checked_add 128 (start - used) rate = Some (start - used + rate)" by (simp add: checked_add_def)
  moreover have "checked_sub start used = Some (start - used)" using us by (simp add: checked_sub_def)
  moreover have "uint_from_checked 16 12 ?b = Some ?b" "uint_from_checked 16 12 capacity = Some capacity"
    using b(2) by (simp_all add: uint_from_checked_def)
  ultimately have st: "settle_block_contract_storage_budget s vp height =
      Ok (Some \<lparr>st_b_start = start, st_discount_used = used, st_b_next = ?b,
        st_capacity = capacity, st_rate = rate\<rparr>, s')"
    unfolding settle_block_contract_storage_budget_def snapshot_read [OF v e(1,2) s(1) b s(2)]
    by (simp add: Let_def s'_def min.commute)
  have rd: "read_contract_storage_budget s' = Ok (Some ?rec)"
    by (rule read_budget_eq) (use b(2) in \<open>simp_all add: s'_def layer_del_def layer_set_def set_contract_storage_budget_def\<close>)
  have "read_u128_transient s' BLOCK_BUDGET_START_KEY = Ok None" "read_u128_transient s' BLOCK_BUDGET_USED_KEY = Ok None"
    by (simp_all add: read_u128_transient_def read_typed_def layer_get_def s'_def layer_del_def)
  then have "verify_block_contract_storage_state s' vp height = Ok ()"
    using rd v(2) e(2) by (simp add: verify_block_contract_storage_state_def)
  moreover have "\<forall>key. key \<noteq> BLOCK_BUDGET_START_KEY \<longrightarrow> key \<noteq> BLOCK_BUDGET_USED_KEY \<longrightarrow>
       key \<noteq> [KEY_CONTRACT_STORAGE_BUDGET] \<longrightarrow> s' key = s key"
    by (simp add: s'_def layer_del_def layer_set_def set_contract_storage_budget_def)
  ultimately show ?thesis using st rd by blast
qed

text \<open>
  The whole lifecycle: initialisation, any discounts, settlement and the final check. Discounts
  beyond the quota are refused; otherwise the block settles to \<open>min C (B - D + R)\<close>.
\<close>

lemma block_budget_cycle:
  assumes v: "vp_validate vp = Ok ()" "\<not> csf_is_disabled (vp_contract_storage_fee vp)"
    and e: "csf_active_entry (vp_contract_storage_fee vp) height = Some (h0, rate)"
      "csf_capacity_at (vp_contract_storage_fee vp) height = Ok capacity"
    and r: "read_contract_storage_budget s = Ok record" "budget_fits capacity record"
  shows "\<exists>snap s1. init_block_contract_storage_budget s vp height = Ok (Some snap, s1) \<and>
    ss_remaining_start snap = start_of capacity record \<and>
    (if sum_list charges \<le> min (start_of capacity record) (csf_max_block_discount_bytes (vp_contract_storage_fee vp))
     then \<exists>s2 s3 settlement. run_discounts vp height charges s1 = Ok s2 \<and>
       settle_block_contract_storage_budget s2 vp height = Ok (Some settlement, s3) \<and>
       st_b_next settlement = min capacity (start_of capacity record - sum_list charges + rate) \<and>
       read_contract_storage_budget s3 = Ok (Some \<lparr>csb_state_version = 1,
          csb_remaining_bytes = st_b_next settlement, csb_applied_capacity_bytes = capacity\<rparr>) \<and>
       verify_block_contract_storage_state s3 vp height = Ok () \<and>
       (\<forall>key. key \<noteq> BLOCK_BUDGET_START_KEY \<longrightarrow> key \<noteq> BLOCK_BUDGET_USED_KEY \<longrightarrow>
          key \<noteq> [KEY_CONTRACT_STORAGE_BUDGET] \<longrightarrow> s3 key = s key)
     else run_discounts vp height charges s1 = errf ''contract storage discount quota exhausted'')"
proof -
  let ?f = "vp_contract_storage_fee vp" and ?B = "start_of capacity record"
  have v': "csf_validate ?f (vp_contract_store_perm_periods vp) = Ok ()" using v(1) by (simp add: vp_validate_def)
  obtain h1 rate1 where p: "csf_active_entry ?f height = Some (h1, rate1)"
    "csf_capacity_at ?f height = Ok (rate1 * csf_target_capacity_blocks ?f)"
    "rate1 * csf_target_capacity_blocks ?f \<le> uint_MAX 16 12" "rate1 \<le> rate1 * csf_target_capacity_blocks ?f"
    by (rule active_profile [OF v' v(2), of height])
  have cap: "capacity \<le> uint_MAX 16 12" "rate \<le> capacity" using p e by auto
  have B: "?B \<le> capacity" by (rule start_of_le [OF r(2)])
  then have Bm: "?B \<le> uint_MAX 16 12" using cap(1) by simp
  define s1 where "s1 = layer_set (layer_set s BLOCK_BUDGET_START_KEY (uint_encode 16 12 ?B))
      BLOCK_BUDGET_USED_KEY (uint_encode 16 12 0)"
  have init: "init_block_contract_storage_budget s vp height =
      Ok (Some \<lparr>ss_remaining_start = ?B, ss_used_discount = 0, ss_capacity = capacity, ss_rate = rate,
        ss_quota = csf_block_quota ?f ?B\<rparr>, s1)"
    using v(2) e r(1) budget_start_eq [OF r(2) cap(1)] Bm
    by (simp add: init_block_contract_storage_budget_def csf_is_active_at_def write_transient_eq s1_def)
  have sn: "snapshot_in s1 ?B 0" by (simp add: snapshot_in_def s1_def layer_set_def)
  note run = run_discounts_spec [OF v' v(2) e B cap(1) sn, of charges]
  show ?thesis
  proof (cases "sum_list charges \<le> csf_block_quota ?f ?B")
    case False
    have err: "run_discounts vp height charges s1 = errf ''contract storage discount quota exhausted''"
      using run False by simp
    have nc: "(sum_list charges \<le> min ?B (csf_max_block_discount_bytes ?f)) = False"
      using False by (simp only: csf_block_quota_def)
    show ?thesis by (simp only: init nc if_False) (simp add: err)
  next
    case True
    define s2 where "s2 = layer_set s1 BLOCK_BUDGET_USED_KEY (uint_encode 16 12 (sum_list charges))"
    have r2: "run_discounts vp height charges s1 = Ok s2" using run True by (simp add: s2_def)
    have sn2: "snapshot_in s2 ?B (sum_list charges)" using snapshot_set_used [OF sn] by (simp add: s2_def)
    have "s2 key = s key" if "key \<noteq> BLOCK_BUDGET_START_KEY" "key \<noteq> BLOCK_BUDGET_USED_KEY" for key
      using that by (simp add: s2_def s1_def layer_set_def)
    moreover obtain s3 where s3: "settle_block_contract_storage_budget s2 vp height =
        Ok (Some \<lparr>st_b_start = ?B, st_discount_used = sum_list charges,
          st_b_next = min capacity (?B - sum_list charges + rate), st_capacity = capacity, st_rate = rate\<rparr>, s3)"
      "read_contract_storage_budget s3 = Ok (Some \<lparr>csb_state_version = 1,
        csb_remaining_bytes = min capacity (?B - sum_list charges + rate), csb_applied_capacity_bytes = capacity\<rparr>)"
      "verify_block_contract_storage_state s3 vp height = Ok ()"
      "\<forall>key. key \<noteq> BLOCK_BUDGET_START_KEY \<longrightarrow> key \<noteq> BLOCK_BUDGET_USED_KEY \<longrightarrow>
         key \<noteq> [KEY_CONTRACT_STORAGE_BUDGET] \<longrightarrow> s3 key = s2 key"
      using settle_spec [OF v' v(2) e cap(2) B cap(1) sn2 True] by blast
    ultimately have ex: "\<exists>s2 s3 settlement. run_discounts vp height charges s1 = Ok s2 \<and>
       settle_block_contract_storage_budget s2 vp height = Ok (Some settlement, s3) \<and>
       st_b_next settlement = min capacity (?B - sum_list charges + rate) \<and>
       read_contract_storage_budget s3 = Ok (Some \<lparr>csb_state_version = 1,
          csb_remaining_bytes = st_b_next settlement, csb_applied_capacity_bytes = capacity\<rparr>) \<and>
       verify_block_contract_storage_state s3 vp height = Ok () \<and>
       (\<forall>key. key \<noteq> BLOCK_BUDGET_START_KEY \<longrightarrow> key \<noteq> BLOCK_BUDGET_USED_KEY \<longrightarrow>
          key \<noteq> [KEY_CONTRACT_STORAGE_BUDGET] \<longrightarrow> s3 key = s key)"
      by (intro exI [of _ s2] exI [of _ s3] exI [of _ "\<lparr>st_b_start = ?B, st_discount_used = sum_list charges,
          st_b_next = min capacity (?B - sum_list charges + rate), st_capacity = capacity, st_rate = rate\<rparr>"])
        (simp add: r2)
    have le: "(sum_list charges \<le> min ?B (csf_max_block_discount_bytes ?f)) = True"
      using True by (simp only: csf_block_quota_def)
    show ?thesis
      by (rule exI, rule exI, rule conjI, rule init, rule conjI, simp, simp only: le if_True, rule ex)
  qed
qed

end
