(* ===== verification/StorageBudget.thy ===== *)
theory StorageBudget
  imports ContractStorage
begin

text \<open>
  What the contract storage budget promises over several blocks: the budget refines a recurrence on
  numbers, also where the schedule raises the capacity; the price curve stays within its limits and
  moves in the right direction; the facts a wallet reads bound the state after the next block.
\<close>

section \<open>The schedule is ordered\<close>

definition entry_less :: "nat \<times> nat \<Rightarrow> nat \<times> nat \<Rightarrow> bool" where
  "entry_less e e' \<longleftrightarrow> fst e < fst e' \<and> snd e < snd e'"

lemma entry_less_trans: "entry_less a b \<Longrightarrow> entry_less b c \<Longrightarrow> entry_less a c"
  by (simp add: entry_less_def)

lemma validate_schedule_ConsD:
  assumes "csf_validate_schedule f prev ((height, rate) # rest) = Ok ()"
  shows "csf_validate_schedule f (Some (height, rate)) rest = Ok ()" "prev = Some p \<Longrightarrow> entry_less p (height, rate)"
  using assms by (auto simp: entry_less_def split: if_splits option.splits prod.splits)

lemma validate_schedule_sorted:
  "csf_validate_schedule f prev es = Ok () \<Longrightarrow>
     sorted_wrt entry_less es \<and> (\<forall>p e. prev = Some p \<longrightarrow> e \<in> set es \<longrightarrow> entry_less p e)"
proof (induction es arbitrary: prev)
  case (Cons e es)
  obtain height rate where e: "e = (height, rate)" by (cases e)
  note d = validate_schedule_ConsD [OF Cons.prems [unfolded e]]
  from Cons.IH [OF d(1)] have "sorted_wrt entry_less es" "\<forall>x \<in> set es. entry_less e x" by (auto simp: e)
  then show ?case using d(2) entry_less_trans by (auto simp: e)
qed simp

lemma sorted_last_max:
  "sorted_wrt entry_less es \<Longrightarrow> e \<in> set es \<Longrightarrow> snd e \<le> snd (last es)"
  by (induction es) (auto simp: entry_less_def less_imp_le)

lemma active_entry_mono:
  assumes v: "csf_validate f p = Ok ()" "\<not> csf_is_disabled f" and h: "h \<le> h'"
    and e: "csf_active_entry f h = Some e" "csf_active_entry f h' = Some e'"
  shows "snd e \<le> snd e'"
proof -
  let ?s = "csf_supplement_schedule f"
  let ?F = "\<lambda>h. filter (\<lambda>(a, _). a \<le> h) ?s"
  have s: "sorted_wrt entry_less ?s" using validate_schedule_sorted [OF csf_validateD(6) [OF v]] by blast
  have "?s \<noteq> []" using v(2) by (simp add: csf_is_disabled_def)
  have e_in: "e' \<in> set ?s" by (rule active_entry_in [OF e(2)])
  show ?thesis
  proof (cases "?F h = []")
    case True
    then have "e = hd ?s" using e(1) v(2) by (simp add: csf_active_entry_def)
    with s e_in show ?thesis by (cases ?s) (auto simp: entry_less_def less_imp_le)
  next
    case False
    then have el: "e = last (?F h)" using e(1) v(2) by (auto simp: csf_active_entry_def split: list.splits)
    have "e \<in> set (?F h)" unfolding el by (rule last_in_set [OF False])
    then have in': "e \<in> set (?F h')" using h by auto
    then have "?F h' \<noteq> []" by (metis empty_iff empty_set)
    then have "e' = last (?F h')" using e(2) v(2) by (auto simp: csf_active_entry_def split: list.splits)
    then show ?thesis using sorted_last_max [OF sorted_wrt_filter [OF s] in'] by simp
  qed
qed

section \<open>The recurrence\<close>

text \<open>The numbers of one block: capacity and rate at the height, the state as (remaining, capacity).\<close>

definition rate_at :: "vm_execution_params \<Rightarrow> nat \<Rightarrow> nat" where
  "rate_at vp height = (case csf_active_rate (vp_contract_storage_fee vp) height of Some r \<Rightarrow> r | None \<Rightarrow> 0)"

definition cap_at :: "vm_execution_params \<Rightarrow> nat \<Rightarrow> nat" where
  "cap_at vp height = rate_at vp height * csf_target_capacity_blocks (vp_contract_storage_fee vp)"

definition spec_start :: "nat \<Rightarrow> (nat \<times> nat) option \<Rightarrow> nat" where
  "spec_start C r = (case r of None \<Rightarrow> C | Some (b, c) \<Rightarrow> b + (C - c))"

definition spec_block :: "vm_execution_params \<Rightarrow> nat \<Rightarrow> (nat \<times> nat) option \<Rightarrow> nat \<Rightarrow> (nat \<times> nat) option" where
  "spec_block vp height r used =
     (let C = cap_at vp height; B = spec_start C r
      in if used \<le> min B (csf_max_block_discount_bytes (vp_contract_storage_fee vp))
         then Some (min C (B - used + rate_at vp height), C) else None)"

lemma spec_blockD:
  assumes "spec_block vp height r used = Some (b, c)"
  shows "used \<le> min (spec_start (cap_at vp height) r) (csf_max_block_discount_bytes (vp_contract_storage_fee vp))"
    "c = cap_at vp height"
    "b = min (cap_at vp height) (spec_start (cap_at vp height) r - used + rate_at vp height)"
  using assms unfolding spec_block_def Let_def by (metis option.distinct(1), metis option.distinct(1) option.inject prod.inject,
    metis option.distinct(1) option.inject prod.inject)

fun spec_blocks :: "vm_execution_params \<Rightarrow> nat \<Rightarrow> (nat \<times> nat) option \<Rightarrow> nat list list \<Rightarrow> (nat \<times> nat) option option" where
  "spec_blocks vp height r [] = Some r"
| "spec_blocks vp height r (charges # blocks) =
     (case spec_block vp height r (sum_list charges) of
        None \<Rightarrow> None
      | Some r' \<Rightarrow> spec_blocks vp (Suc height) (Some r') blocks)"

text \<open>The lifecycle calls of consecutive blocks, in the order \<^verbatim>\<open>execute_block\<close> makes them.\<close>

fun run_blocks :: "vm_execution_params \<Rightarrow> nat \<Rightarrow> nat list list \<Rightarrow> layer \<Rightarrow> layer ret" where
  "run_blocks vp height [] s = Ok s"
| "run_blocks vp height (charges # blocks) s =
     try_ret (init_block_contract_storage_budget s vp height) (\<lambda>(_, s).
     try_ret (run_discounts vp height charges s) (\<lambda>s.
     try_ret (settle_block_contract_storage_budget s vp height) (\<lambda>(_, s).
     try_ret (verify_block_contract_storage_state s vp height) (\<lambda>_.
     run_blocks vp (Suc height) blocks s))))"

definition budget_abs :: "storage_budget option \<Rightarrow> (nat \<times> nat) option" where
  "budget_abs = map_option (\<lambda>r. (csb_remaining_bytes r, csb_applied_capacity_bytes r))"

definition budget_key :: "bytes \<Rightarrow> bool" where
  "budget_key key \<longleftrightarrow> key \<in> {BLOCK_BUDGET_START_KEY, BLOCK_BUDGET_USED_KEY, [KEY_CONTRACT_STORAGE_BUDGET]}"

lemma spec_start_abs [simp]: "spec_start C (budget_abs r) = start_of C r"
  by (simp add: spec_start_def budget_abs_def start_of_def split: option.split)

lemma profile_at:
  assumes "vp_validate vp = Ok ()" "\<not> csf_is_disabled (vp_contract_storage_fee vp)"
  shows "\<exists>h0. csf_active_entry (vp_contract_storage_fee vp) height = Some (h0, rate_at vp height)"
    "csf_capacity_at (vp_contract_storage_fee vp) height = Ok (cap_at vp height)"
    "0 < cap_at vp height" "cap_at vp height \<le> uint_MAX 16 12" "rate_at vp height \<le> cap_at vp height"
proof -
  have v: "csf_validate (vp_contract_storage_fee vp) (vp_contract_store_perm_periods vp) = Ok ()"
    using assms(1) by (simp add: vp_validate_def)
  obtain h0 rate where p: "csf_active_entry (vp_contract_storage_fee vp) height = Some (h0, rate)"
    "csf_capacity_at (vp_contract_storage_fee vp) height = Ok (rate * csf_target_capacity_blocks (vp_contract_storage_fee vp))"
    "0 < rate * csf_target_capacity_blocks (vp_contract_storage_fee vp)"
    "rate * csf_target_capacity_blocks (vp_contract_storage_fee vp) \<le> uint_MAX 16 12"
    "rate \<le> rate * csf_target_capacity_blocks (vp_contract_storage_fee vp)"
    by (rule active_profile [OF v assms(2), of height])
  then have "rate_at vp height = rate" by (simp add: rate_at_def csf_active_rate_def)
  with p show "\<exists>h0. csf_active_entry (vp_contract_storage_fee vp) height = Some (h0, rate_at vp height)"
    "csf_capacity_at (vp_contract_storage_fee vp) height = Ok (cap_at vp height)"
    "0 < cap_at vp height" "cap_at vp height \<le> uint_MAX 16 12" "rate_at vp height \<le> cap_at vp height"
    by (auto simp: cap_at_def)
qed

lemma cap_at_mono:
  assumes "vp_validate vp = Ok ()" "\<not> csf_is_disabled (vp_contract_storage_fee vp)" "h \<le> h'"
  shows "cap_at vp h \<le> cap_at vp h'"
proof -
  have v: "csf_validate (vp_contract_storage_fee vp) (vp_contract_store_perm_periods vp) = Ok ()"
    using assms(1) by (simp add: vp_validate_def)
  obtain a a' where "csf_active_entry (vp_contract_storage_fee vp) h = Some (a, rate_at vp h)"
    "csf_active_entry (vp_contract_storage_fee vp) h' = Some (a', rate_at vp h')"
    using profile_at(1) [OF assms(1,2)] by meson
  from active_entry_mono [OF v assms(2,3) this] show ?thesis by (simp add: cap_at_def)
qed

definition settled_as :: "layer \<Rightarrow> vm_execution_params \<Rightarrow> nat \<Rightarrow> (nat \<times> nat) option \<Rightarrow> bool" where
  "settled_as s vp height r \<longleftrightarrow>
     (\<exists>rec. read_contract_storage_budget s = Ok rec \<and> budget_abs rec = r \<and> budget_fits (cap_at vp height) rec)"

lemma run_block_spec:
  assumes v: "vp_validate vp = Ok ()" "\<not> csf_is_disabled (vp_contract_storage_fee vp)"
    and s: "settled_as s vp height r"
  shows "case spec_block vp height r (sum_list charges) of
      None \<Rightarrow> run_blocks vp height (charges # blocks) s = errf ''contract storage discount quota exhausted''
    | Some r' \<Rightarrow> \<exists>s'. run_blocks vp height (charges # blocks) s = run_blocks vp (Suc height) blocks s' \<and>
        settled_as s' vp height (Some r') \<and> (\<forall>key. \<not> budget_key key \<longrightarrow> s' key = s key)"
proof -
  obtain rec where rec: "read_contract_storage_budget s = Ok rec" "budget_abs rec = r" "budget_fits (cap_at vp height) rec"
    using s by (auto simp: settled_as_def)
  obtain h0 where e: "csf_active_entry (vp_contract_storage_fee vp) height = Some (h0, rate_at vp height)"
    using profile_at(1) [OF v] by blast
  let ?C = "cap_at vp height" and ?D = "sum_list charges"
  let ?B = "start_of ?C rec"
  obtain snap s1 where init: "init_block_contract_storage_budget s vp height = Ok (Some snap, s1)"
    and rest: "if ?D \<le> min ?B (csf_max_block_discount_bytes (vp_contract_storage_fee vp))
     then \<exists>s2 s3 settlement. run_discounts vp height charges s1 = Ok s2 \<and>
       settle_block_contract_storage_budget s2 vp height = Ok (Some settlement, s3) \<and>
       st_b_next settlement = min ?C (?B - ?D + rate_at vp height) \<and>
       read_contract_storage_budget s3 = Ok (Some \<lparr>csb_state_version = 1,
          csb_remaining_bytes = st_b_next settlement, csb_applied_capacity_bytes = ?C\<rparr>) \<and>
       verify_block_contract_storage_state s3 vp height = Ok () \<and>
       (\<forall>key. key \<noteq> BLOCK_BUDGET_START_KEY \<longrightarrow> key \<noteq> BLOCK_BUDGET_USED_KEY \<longrightarrow>
          key \<noteq> [KEY_CONTRACT_STORAGE_BUDGET] \<longrightarrow> s3 key = s key)
     else run_discounts vp height charges s1 = errf ''contract storage discount quota exhausted''"
    using block_budget_cycle [OF v e profile_at(2) [OF v] rec(1,3)] by blast
  have B: "spec_start ?C r = ?B" using rec(2) spec_start_abs by metis
  show ?thesis
  proof (cases "?D \<le> min ?B (csf_max_block_discount_bytes (vp_contract_storage_fee vp))")
    case False
    then have "run_discounts vp height charges s1 = errf ''contract storage discount quota exhausted''"
      using rest by argo
    moreover have "spec_block vp height r ?D = None" using False by (simp only: spec_block_def Let_def B if_False)
    ultimately show ?thesis using init by simp
  next
    case True
    then obtain s2 s3 st where t: "run_discounts vp height charges s1 = Ok s2"
      "settle_block_contract_storage_budget s2 vp height = Ok (Some st, s3)"
      "st_b_next st = min ?C (?B - ?D + rate_at vp height)"
      "read_contract_storage_budget s3 = Ok (Some \<lparr>csb_state_version = 1,
          csb_remaining_bytes = st_b_next st, csb_applied_capacity_bytes = ?C\<rparr>)"
      "verify_block_contract_storage_state s3 vp height = Ok ()"
      "\<forall>key. key \<noteq> BLOCK_BUDGET_START_KEY \<longrightarrow> key \<noteq> BLOCK_BUDGET_USED_KEY \<longrightarrow>
          key \<noteq> [KEY_CONTRACT_STORAGE_BUDGET] \<longrightarrow> s3 key = s key"
      using rest by auto
    have "settled_as s3 vp height (Some (min ?C (?B - ?D + rate_at vp height), ?C))"
      using t(3,4) by (simp add: settled_as_def budget_abs_def budget_fits_def)
    moreover have "\<forall>key. \<not> budget_key key \<longrightarrow> s3 key = s key" using t(6) by (simp add: budget_key_def)
    moreover have "run_blocks vp height (charges # blocks) s = run_blocks vp (Suc height) blocks s3"
      using init t by simp
    moreover have "spec_block vp height r ?D = Some (min ?C (?B - ?D + rate_at vp height), ?C)"
      using True by (simp only: spec_block_def Let_def B if_True)
    ultimately show ?thesis by auto
  qed
qed

lemma settled_later:
  assumes "vp_validate vp = Ok ()" "\<not> csf_is_disabled (vp_contract_storage_fee vp)" "h \<le> h'"
    and "settled_as s vp h r"
  shows "settled_as s vp h' r"
proof -
  have "budget_fits (cap_at vp h') rec" if "budget_fits (cap_at vp h) rec" for rec
    using that cap_at_mono [OF assms(1-3)] by (auto simp: budget_fits_def)
  with assms(4) show ?thesis unfolding settled_as_def by blast
qed

lemma run_blocks_spec:
  assumes v: "vp_validate vp = Ok ()" "\<not> csf_is_disabled (vp_contract_storage_fee vp)"
  shows "settled_as s vp height r \<Longrightarrow>
    (case spec_blocks vp height r blocks of
       None \<Rightarrow> run_blocks vp height blocks s = errf ''contract storage discount quota exhausted''
     | Some r' \<Rightarrow> \<exists>s'. run_blocks vp height blocks s = Ok s' \<and>
         settled_as s' vp (height + length blocks) r' \<and> (\<forall>key. \<not> budget_key key \<longrightarrow> s' key = s key))"
proof (induction blocks arbitrary: s height r)
  case (Cons charges blocks)
  note one = run_block_spec [OF v Cons.prems, of charges blocks]
  show ?case
  proof (cases "spec_block vp height r (sum_list charges)")
    case (Some r')
    with one obtain s' where s': "run_blocks vp height (charges # blocks) s = run_blocks vp (Suc height) blocks s'"
      "settled_as s' vp height (Some r')" "\<forall>key. \<not> budget_key key \<longrightarrow> s' key = s key"
      by (simp only: option.case) blast
    have "settled_as s' vp (Suc height) (Some r')" by (rule settled_later [OF v _ s'(2)]) simp
    note IH = Cons.IH [OF this]
    show ?thesis
    proof (cases "spec_blocks vp (Suc height) (Some r') blocks")
      case None
      then show ?thesis using IH Some by (simp add: s'(1) del: run_blocks.simps)
    next
      case (Some r'')
      with IH obtain s'' where s'': "run_blocks vp (Suc height) blocks s' = Ok s''"
        "settled_as s'' vp (Suc height + length blocks) r''" "\<forall>key. \<not> budget_key key \<longrightarrow> s'' key = s' key"
        by (simp only: option.case) blast
      have "\<forall>key. \<not> budget_key key \<longrightarrow> s'' key = s key" using s'(3) s''(3) by simp
      then show ?thesis using Some \<open>spec_block vp height r (sum_list charges) = Some r'\<close> s''(1,2)
        by (simp add: s'(1) del: run_blocks.simps)
    qed
  qed (use one in simp)
qed simp

section \<open>Prices\<close>

definition price_of :: "vm_execution_params \<Rightarrow> nat \<Rightarrow> nat \<Rightarrow> nat ret" where
  "price_of vp remaining capacity =
     csf_discount_periods (vp_contract_storage_fee vp) remaining capacity (vp_contract_store_perm_periods vp)"

lemma price_of_eq:
  assumes "vp_validate vp = Ok ()" "\<not> csf_is_disabled (vp_contract_storage_fee vp)" "0 < capacity" "capacity \<le> uint_MAX 16 12"
  shows "price_of vp remaining capacity = Ok (10 * curve_step 1000 (capacity - min remaining capacity) capacity)"
  using discount_periods_eq [of "vp_contract_storage_fee vp"] assms by (simp add: price_of_def vp_validate_def)

lemma price_antimono:
  assumes "0 < C" "0 < C'" "(C - min B C) * C' \<le> (C' - min B' C') * C"
  shows "curve_step 1000 (C - min B C) C \<le> curve_step 1000 (C' - min B' C') C'"
  using assms by (intro curve_step_mono) simp_all

lemma price_in_bounds:
  assumes "vp_validate vp = Ok ()" "\<not> csf_is_disabled (vp_contract_storage_fee vp)" "0 < C" "C \<le> uint_MAX 16 12"
  shows "\<exists>q. price_of vp B C = Ok q \<and> 10 \<le> q \<and> q \<le> 10000"
  using price_of_eq [OF assms, of B] curve_step_bounds [of 1000 "C - min B C" C] by auto

lemma price_expansion:
  assumes v: "vp_validate vp = Ok ()" "\<not> csf_is_disabled (vp_contract_storage_fee vp)"
    and C: "0 < C" "C \<le> C'" "C' \<le> uint_MAX 16 12" and B: "B \<le> C"
    and q: "price_of vp B C = Ok q" and q': "price_of vp (B + (C' - C)) C' = Ok q'"
  shows "q' \<le> q"
proof -
  have "(C' - min (B + (C' - C)) C') * C \<le> (C - min B C) * C'"
    using C B by (simp add: min_def)
  then have "curve_step 1000 (C' - min (B + (C' - C)) C') C' \<le> curve_step 1000 (C - min B C) C"
    using C by (intro price_antimono) linarith+
  then show ?thesis using q q' price_of_eq [OF v, of C] price_of_eq [OF v, of C'] C by simp
qed

lemma price_remaining:
  assumes v: "vp_validate vp = Ok ()" "\<not> csf_is_disabled (vp_contract_storage_fee vp)"
    and C: "0 < C" "C \<le> uint_MAX 16 12" and B: "B \<le> B'"
    and q: "price_of vp B C = Ok q" and q': "price_of vp B' C = Ok q'"
  shows "q' \<le> q"
proof -
  have "curve_step 1000 (C - min B' C) C \<le> curve_step 1000 (C - min B C) C"
    using C B by (intro price_antimono mult_le_mono1) (linarith, linarith, auto simp: min_def)
  then show ?thesis using q q' price_of_eq [OF v C] by simp
qed

section \<open>Facts for wallets\<close>

lemma facts_remaining_eq:
  assumes "budget_fits C rec" "C \<le> uint_MAX 16 12"
  shows "facts_remaining C rec = Ok (start_of C rec)"
  using budget_start_eq [OF assms] assms(1)
  by (auto simp: facts_remaining_def budget_start_def budget_fits_def Let_def split: option.splits if_splits)

lemma facts_spec:
  assumes v: "vp_validate vp = Ok ()" "\<not> csf_is_disabled (vp_contract_storage_fee vp)"
    and s: "settled_as s vp height r"
  shows "\<exists>facts. contract_storage_fee_facts s vp height = Ok facts \<and> sf_enabled facts \<and>
    sf_capacity facts = cap_at vp height \<and> sf_remaining facts = spec_start (cap_at vp height) r \<and>
    sf_next_block_quota facts =
      min (sf_remaining facts) (csf_max_block_discount_bytes (vp_contract_storage_fee vp)) \<and>
    sf_next_remaining_lo facts =
      min (cap_at vp height) (sf_remaining facts - sf_next_block_quota facts + rate_at vp height) \<and>
    sf_next_remaining_hi facts = min (cap_at vp height) (sf_remaining facts + rate_at vp height) \<and>
    price_of vp (sf_remaining facts) (sf_capacity facts) = Ok (sf_periods facts) \<and>
    price_of vp (sf_next_remaining_hi facts) (sf_capacity facts) = Ok (sf_next_periods_lo facts) \<and>
    price_of vp (sf_next_remaining_lo facts) (sf_capacity facts) = Ok (sf_next_periods_hi facts)"
proof -
  let ?f = "vp_contract_storage_fee vp" and ?C = "cap_at vp height" and ?R = "rate_at vp height"
  let ?P = "\<lambda>B. 10 * curve_step 1000 (?C - min B ?C) ?C"
  note p = profile_at [OF v, of height]
  obtain rec where rec: "read_contract_storage_budget s = Ok rec" "budget_abs rec = r" "budget_fits ?C rec"
    using s by (auto simp: settled_as_def)
  let ?B = "start_of ?C rec"
  have B: "?B \<le> ?C" by (rule start_of_le [OF rec(3)])
  have fits: "x + ?R < 2 ^ 128" if "x \<le> ?C" for x
    by (rule uint12_fits(3)) (use that p(4,5) in linarith)+
  have price: "csf_discount_periods ?f x ?C (vp_contract_store_perm_periods vp) = Ok (?P x)" for x
    using price_of_eq [OF v p(3,4), of x] by (simp only: price_of_def)
  let ?K = "min ?B (csf_max_block_discount_bytes ?f)"
  have rate: "(case csf_active_rate ?f height of None \<Rightarrow> 0 | Some r \<Rightarrow> r) = ?R" by (simp add: rate_at_def split: option.split)
  have lo: "checked_add 128 (?B - ?K) ?R = Some (?B - ?K + ?R)" and hi: "checked_add 128 ?B ?R = Some (?B + ?R)"
    using fits [of ?B] fits [of "?B - ?K"] B by (simp_all add: checked_add_def)
  let ?lo = "min (?B - ?K + ?R) ?C" and ?hi = "min (?B + ?R) ?C"
  have le: "?P ?hi \<le> ?P ?lo"
    using price_remaining [OF v p(3,4) _ price_of_eq [OF v p(3,4)] price_of_eq [OF v p(3,4)], of ?lo ?hi] by simp
  have mn: "min ?B ?C = ?B" using B by simp
  have F: "contract_storage_fee_facts s vp height = Ok \<lparr>sf_enabled = True, sf_rule_version = csf_rule_version ?f,
      sf_activation_height = csf_activation_height ?f, sf_height = height,
      sf_target_capacity_blocks = csf_target_capacity_blocks ?f,
      sf_capacity = ?C, sf_rate = ?R, sf_remaining = ?B,
      sf_period_floor = csf_period_floor ?f, sf_max_periods = vp_contract_store_perm_periods vp,
      sf_periods = ?P ?B, sf_max_block_discount_bytes = csf_max_block_discount_bytes ?f,
      sf_next_block_quota = ?K, sf_next_remaining_lo = ?lo, sf_next_remaining_hi = ?hi,
      sf_next_periods_lo = min (?P ?hi) (?P ?lo), sf_next_periods_hi = max (?P ?lo) (?P ?hi)\<rparr>"
    unfolding contract_storage_fee_facts_def Let_def rec(1) p(2) csf_is_active_at_def
    using v(2) by (simp only: try_ret_simps facts_remaining_eq [OF rec(3) p(4)] rate csf_block_quota_def mn price lo hi
      option.case if_False not_False_eq_True simp_thms)
  have mm: "min (?P ?hi) (?P ?lo) = ?P ?hi" "max (?P ?lo) (?P ?hi) = ?P ?lo" using le by linarith+
  have B': "spec_start ?C r = ?B" using rec(2) spec_start_abs by metis
  show ?thesis
    by (rule exI, rule conjI, rule F)
      (simp only: storage_fee_facts.select_convs B' mm price_of_eq [OF v p(3,4)] min.commute [of ?C] simp_thms)
qed

text \<open>The facts of a head against the facts after the next block: what the published range bounds.\<close>

lemma facts_after_block:
  assumes v: "vp_validate vp = Ok ()" "\<not> csf_is_disabled (vp_contract_storage_fee vp)"
    and s: "settled_as s vp height r" and run: "run_blocks vp height [charges] s = Ok s'"
  shows "\<exists>facts facts'. contract_storage_fee_facts s vp height = Ok facts \<and>
    contract_storage_fee_facts s' vp (Suc height) = Ok facts' \<and>
    sum_list charges \<le> sf_next_block_quota facts \<and> sf_next_remaining_lo facts \<le> sf_remaining facts' \<and>
    sf_remaining facts' \<le> sf_next_remaining_hi facts + (sf_capacity facts' - sf_capacity facts) \<and>
    sf_periods facts' \<le> sf_next_periods_hi facts \<and>
    (sf_capacity facts' = sf_capacity facts \<longrightarrow> sf_next_periods_lo facts \<le> sf_periods facts')"
proof -
  let ?C = "cap_at vp height" and ?K = "csf_max_block_discount_bytes (vp_contract_storage_fee vp)"
  let ?C' = "cap_at vp (Suc height)" and ?B = "spec_start (cap_at vp height) r" and ?R = "rate_at vp height"
  note p = profile_at [OF v, of height] and p' = profile_at [OF v, of "Suc height"]
  have cc: "?C \<le> ?C'" by (rule cap_at_mono [OF v]) simp
  have nq: "spec_block vp height r (sum_list charges) \<noteq> None"
    using run run_block_spec [OF v s, of charges "[]"] by (auto simp del: run_blocks.simps split: option.splits)
  then obtain b c where bc: "spec_block vp height r (sum_list charges) = Some (b, c)" by auto
  have s': "settled_as s' vp height (Some (b, c))"
    using run run_block_spec [OF v s, of charges "[]"] unfolding bc by (simp only: option.case run_blocks.simps(1)) blast
  note u = spec_blockD [OF bc]
  obtain facts where f: "contract_storage_fee_facts s vp height = Ok facts" "sf_capacity facts = ?C" "sf_remaining facts = ?B"
    "sf_next_block_quota facts = min (sf_remaining facts) ?K"
    "sf_next_remaining_lo facts = min ?C (sf_remaining facts - sf_next_block_quota facts + ?R)"
    "sf_next_remaining_hi facts = min ?C (sf_remaining facts + ?R)"
    "price_of vp (sf_next_remaining_hi facts) ?C = Ok (sf_next_periods_lo facts)"
    "price_of vp (sf_next_remaining_lo facts) ?C = Ok (sf_next_periods_hi facts)"
    using facts_spec [OF v s] by auto
  have "settled_as s' vp (Suc height) (Some (b, c))" by (rule settled_later [OF v _ s']) simp
  from facts_spec [OF v this] obtain facts' where f': "contract_storage_fee_facts s' vp (Suc height) = Ok facts'"
    "sf_capacity facts' = ?C'" "sf_remaining facts' = b + (?C' - c)" "price_of vp (b + (?C' - c)) ?C' = Ok (sf_periods facts')"
    by (auto simp: spec_start_def)
  have b: "sf_next_remaining_lo facts \<le> b" "b \<le> sf_next_remaining_hi facts" "sum_list charges \<le> sf_next_block_quota facts" "b \<le> ?C"
    unfolding f(3-6) u(3) using u(1) by linarith+
  obtain q where q: "price_of vp b ?C = Ok q" using price_in_bounds [OF v p(3,4)] by blast
  have q': "sf_next_periods_lo facts \<le> q" "q \<le> sf_next_periods_hi facts"
    using price_remaining [OF v p(3,4) b(2) q f(7)] price_remaining [OF v p(3,4) b(1) f(8) q] .
  have "sf_periods facts' \<le> q" by (rule price_expansion [OF v p(3) cc p'(4) b(4) q f'(4) [unfolded u(2)]])
  then have "sf_periods facts' \<le> sf_next_periods_hi facts" using q'(2) by simp
  moreover have "sf_next_periods_lo facts \<le> sf_periods facts'" if "sf_capacity facts' = sf_capacity facts"
  proof -
    have "?C' = ?C" using that f(2) f'(2) by simp
    then have "price_of vp b ?C = Ok (sf_periods facts')" using f'(4) u(2) by simp
    then show ?thesis using q q'(1) by simp
  qed
  moreover have "sf_next_remaining_lo facts \<le> sf_remaining facts'"
    "sf_remaining facts' \<le> sf_next_remaining_hi facts + (sf_capacity facts' - sf_capacity facts)"
    unfolding f'(2,3) f(2) u(2) using b(1,2) by linarith+
  ultimately show ?thesis using f(1) f'(1) b(3) by blast
qed

end
