(* ===== verification/StateChunk.thy ===== *)
theory StateChunk
  imports CoreState
begin

text \<open>
  State chunks, \<^verbatim>\<open>src/base/src/state/chunk.rs\<close>: the overlay tree in which blocks, transactions and
  AST branches write. A chunk is shared through reference-counted pointers in the code; here a
  \<open>chunk_store\<close> maps chunk numbers to chunks, a \<^verbatim>\<open>StateChunkRef\<close> is such a number, and a weak parent
  link that no longer upgrades is a number the store does not hold. A disk handle is a number whose
  current contents the store keeps. Reads walk up the parents until some overlay answers.
\<close>

named_theorems chunk_defs \<open>definitions of the chunk operations\<close>

section \<open>In-memory overlays\<close>

type_synonym memkv = "bytes \<rightharpoonup> bytes option"

definition memkv_put :: "memkv \<Rightarrow> bytes \<Rightarrow> bytes \<Rightarrow> memkv" where
  "memkv_put m key v = m(key \<mapsto> Some v)"

definition memkv_del :: "memkv \<Rightarrow> bytes \<Rightarrow> memkv" where
  "memkv_del m key = m(key \<mapsto> None)"

definition memkv_get :: "memkv \<Rightarrow> bytes \<Rightarrow> bytes option option" where
  "memkv_get m key = m key"

text \<open>\<^verbatim>\<open>HashMap::extend\<close>: later entries win.\<close>

definition memkv_extend :: "memkv \<Rightarrow> memkv \<Rightarrow> memkv" where
  "memkv_extend m m' = m ++ m'"

definition apply_delta :: "memkv \<Rightarrow> layer \<Rightarrow> layer" where
  "apply_delta m s = (\<lambda>key. case m key of Some v \<Rightarrow> Ok v | None \<Rightarrow> s key)"

section \<open>Chunks\<close>

text \<open>The methods of the block object that the state and the fork tree call.\<close>

record block_ref =
  blk_height :: nat
  blk_hash :: bytes
  blk_prev_hash :: bytes
  blk_timestamp :: nat

type_synonym fork_choice_key = bytes

definition fck_from_height :: "nat \<Rightarrow> fork_choice_key" where
  "fck_from_height height = to_be_bytes 8 height"

definition fck_less :: "fork_choice_key \<Rightarrow> fork_choice_key \<Rightarrow> bool" where
  "fck_less a b = ord_class.lexordp a b"

record block_identity =
  bid_hash :: bytes
  bid_block :: block_ref
  bid_fork_choice :: fork_choice_key

datatype origin =
    OBlock (org_height: nat) (org_identity: "block_identity option")
  | OTx bytes
  | OAst nat

definition is_block :: "origin \<Rightarrow> bool" where
  "is_block org = (case org of OBlock _ _ \<Rightarrow> True | _ \<Rightarrow> False)"

definition is_exec :: "origin \<Rightarrow> bool" where
  "is_exec org = (case org of OTx _ \<Rightarrow> True | OAst _ \<Rightarrow> True | OBlock _ _ \<Rightarrow> False)"

definition origin_block_height :: "origin \<Rightarrow> nat option" where
  "origin_block_height org = (case org of OBlock h _ \<Rightarrow> Some h | _ \<Rightarrow> None)"

definition origin_block_identity :: "origin \<Rightarrow> block_identity option" where
  "origin_block_identity org = (case org of OBlock _ i \<Rightarrow> i | _ \<Rightarrow> None)"

record log_entry =
  log_topic :: string
  log_data :: bytes

record chunk_delta =
  dl_state :: memkv
  dl_logs :: "log_entry list"
  dl_tx_hashes :: "bytes list"

definition delta_default :: chunk_delta where
  "delta_default = \<lparr>dl_state = Map.empty, dl_logs = [], dl_tx_hashes = []\<rparr>"

datatype chunk_body = Writable chunk_delta | Frozen chunk_delta | Consumed

fun writable :: "chunk_body \<Rightarrow> chunk_delta option" where
  "writable (Writable delta) = Some delta"
| "writable (Frozen _) = None"
| "writable Consumed = None"

text \<open>\<^verbatim>\<open>take_writable\<close> and \<^verbatim>\<open>freeze\<close> return what they give and the body they leave.\<close>

definition take_writable :: "chunk_body \<Rightarrow> chunk_delta option \<times> chunk_body" where
  "take_writable body =
     (case body of Writable delta \<Rightarrow> (Some delta, Consumed) | other \<Rightarrow> (None, other))"

definition freeze :: "chunk_body \<Rightarrow> bool \<times> chunk_body" where
  "freeze body =
     (case take_writable body of
        (None, body') \<Rightarrow> (False, body')
      | (Some delta, _) \<Rightarrow> (True, Frozen delta))"

datatype source = Parent nat | Disk nat

record chunk =
  ch_origin :: origin
  ch_source :: source
  ch_body :: chunk_body
  ch_children :: "nat list"

record chunk_store =
  cs_next :: nat
  cs_chunk :: "nat \<rightharpoonup> chunk"
  cs_disk :: "nat \<Rightarrow> layer"

text \<open>
  A reference keeps its chunk alive, so the \<open>None\<close> branch of \<open>with_chunk\<close> stands for no
  execution of the code.
\<close>

definition with_chunk :: "chunk_store \<Rightarrow> nat \<Rightarrow> (chunk \<Rightarrow> 'a ret) \<Rightarrow> 'a ret" where
  "with_chunk st i f =
     (case cs_chunk st i of None \<Rightarrow> panicf ''dangling chunk reference'' | Some c \<Rightarrow> f c)"

definition put_chunk :: "chunk_store \<Rightarrow> nat \<Rightarrow> chunk \<Rightarrow> chunk_store" where
  "put_chunk st i c = st\<lparr>cs_chunk := (cs_chunk st)(i \<mapsto> c)\<rparr>"

definition drop_chunk :: "chunk_store \<Rightarrow> nat \<Rightarrow> chunk_store" where
  "drop_chunk st i = st\<lparr>cs_chunk := (cs_chunk st)(i := None)\<rparr>"

section \<open>Construction\<close>

definition with_body :: "chunk_store \<Rightarrow> origin \<Rightarrow> source \<Rightarrow> chunk_body \<Rightarrow> nat \<times> chunk_store" where
  "with_body st org src body =
     (let i = cs_next st;
          c = \<lparr>ch_origin = org, ch_source = src, ch_body = body, ch_children = []\<rparr>
      in (i, st\<lparr>cs_next := i + 1, cs_chunk := (cs_chunk st)(i \<mapsto> c)\<rparr>))"

definition new_chunk :: "chunk_store \<Rightarrow> origin \<Rightarrow> source \<Rightarrow> nat \<times> chunk_store" where
  "new_chunk st org src = with_body st org src (Writable delta_default)"

definition new_root :: "chunk_store \<Rightarrow> nat \<Rightarrow> block_ref \<Rightarrow> nat \<times> chunk_store" where
  "new_root st disk block =
     (let height = blk_height block
      in with_body st
           (OBlock height (Some \<lparr>bid_hash = blk_hash block, bid_block = block,
              bid_fork_choice = fck_from_height height\<rparr>))
           (Disk disk) (Frozen delta_default))"

definition block_draft_on :: "chunk_store \<Rightarrow> nat \<Rightarrow> nat \<Rightarrow> nat \<times> chunk_store" where
  "block_draft_on st p height = new_chunk st (OBlock height None) (Parent p)"

definition block_draft_on_disk :: "chunk_store \<Rightarrow> nat \<Rightarrow> nat \<Rightarrow> nat \<times> chunk_store" where
  "block_draft_on_disk st disk height = new_chunk st (OBlock height None) (Disk disk)"

definition block_exec_on ::
  "chunk_store \<Rightarrow> nat \<Rightarrow> block_ref \<Rightarrow> fork_choice_key \<Rightarrow> (nat \<times> chunk_store) ret" where
  "block_exec_on st p block fork_choice =
     with_chunk st p (\<lambda>pc.
     if \<not> is_block (ch_origin pc) then errf ''block execution parent is not a block chunk''
     else
       let height = blk_height block
       in Ok (new_chunk st
            (OBlock height (Some \<lparr>bid_hash = blk_hash block, bid_block = block,
               bid_fork_choice = fork_choice\<rparr>))
            (Parent p)))"

definition tx_on :: "chunk_store \<Rightarrow> nat \<Rightarrow> bytes \<Rightarrow> nat \<times> chunk_store" where
  "tx_on st p tx_hash = new_chunk st (OTx tx_hash) (Parent p)"

definition is_writable :: "chunk \<Rightarrow> bool" where
  "is_writable c = (writable (ch_body c) \<noteq> None)"

definition spawn_tx_child :: "chunk_store \<Rightarrow> nat \<Rightarrow> bytes \<Rightarrow> (nat \<times> chunk_store) ret" where
  "spawn_tx_child st i tx_hash =
     with_chunk st i (\<lambda>c.
     if \<not> is_block (ch_origin c) \<or> \<not> is_writable c
     then errf ''transaction child requires a writable block chunk''
     else Ok (new_chunk st (OTx tx_hash) (Parent i)))"

definition spawn_ast_child :: "chunk_store \<Rightarrow> nat \<Rightarrow> (nat \<times> chunk_store) ret" where
  "spawn_ast_child st i =
     with_chunk st i (\<lambda>c.
     try_ret
       (case ch_origin c of
          OTx _ \<Rightarrow> Ok 1
        | OAst depth \<Rightarrow>
            ok_or (checked_add 32 depth 1) (Error Fault ''AST execution depth overflow'' None)
        | OBlock _ _ \<Rightarrow> errf ''AST child requires a transaction context'') (\<lambda>depth.
     if \<not> is_writable c then errf ''AST parent chunk is already finalized''
     else Ok (new_chunk st (OAst depth) (Parent i))))"

section \<open>Links\<close>

definition parent :: "chunk_store \<Rightarrow> chunk \<Rightarrow> nat option" where
  "parent st c =
     (case ch_source c of
        Parent p \<Rightarrow> (case cs_chunk st p of None \<Rightarrow> None | Some _ \<Rightarrow> Some p)
      | Disk _ \<Rightarrow> None)"

definition block_height :: "chunk \<Rightarrow> nat ret" where
  "block_height c =
     ok_or (origin_block_height (ch_origin c)) (Error Fault ''state chunk is not a block'' None)"

definition block_identity_of :: "chunk \<Rightarrow> block_identity ret" where
  "block_identity_of c =
     ok_or (origin_block_identity (ch_origin c))
       (Error Fault ''block chunk has no attachable identity'' None)"

definition validate_tx_identity :: "chunk \<Rightarrow> bytes \<Rightarrow> unit ret" where
  "validate_tx_identity c expected =
     (case ch_origin c of
        OTx tx_hash \<Rightarrow>
          if tx_hash = expected then Ok ()
          else errf ''transaction state chunk hash does not match transaction''
      | _ \<Rightarrow> errf ''transaction context requires a Tx state chunk'')"

definition frozen_state :: "chunk \<Rightarrow> memkv option" where
  "frozen_state c = (case ch_body c of Frozen d \<Rightarrow> Some (dl_state d) | _ \<Rightarrow> None)"

definition block_tx_hashes :: "chunk \<Rightarrow> bytes list" where
  "block_tx_hashes c =
     (case ch_body c of
        Writable d \<Rightarrow> dl_tx_hashes d | Frozen d \<Rightarrow> dl_tx_hashes d | Consumed \<Rightarrow> [])"

definition block_logs :: "chunk \<Rightarrow> log_entry list" where
  "block_logs c =
     (case ch_body c of Writable d \<Rightarrow> dl_logs d | Frozen d \<Rightarrow> dl_logs d | Consumed \<Rightarrow> [])"

definition chunk_disk :: "chunk \<Rightarrow> nat option" where
  "chunk_disk c = (case ch_source c of Disk d \<Rightarrow> Some d | Parent _ \<Rightarrow> None)"

section \<open>Finalising\<close>

definition commit_pair_ok :: "origin \<Rightarrow> origin \<Rightarrow> bool" where
  "commit_pair_ok child par =
     (case (child, par) of
        (OTx _, OBlock _ _) \<Rightarrow> True
      | (OAst _, OTx _) \<Rightarrow> True
      | (OAst _, OAst _) \<Rightarrow> True
      | _ \<Rightarrow> False)"

definition merge_delta :: "origin \<Rightarrow> chunk_delta \<Rightarrow> chunk_delta \<Rightarrow> chunk_delta" where
  "merge_delta org target child =
     (let txs = (case org of OTx tx_hash \<Rightarrow> dl_tx_hashes child @ [tx_hash] | _ \<Rightarrow> dl_tx_hashes child)
      in \<lparr>dl_state = memkv_extend (dl_state target) (dl_state child),
          dl_logs = dl_logs target @ dl_logs child,
          dl_tx_hashes = dl_tx_hashes target @ txs\<rparr>)"

definition commit_to_parent :: "chunk_store \<Rightarrow> nat \<Rightarrow> (nat \<times> chunk_store) ret" where
  "commit_to_parent st i =
     with_chunk st i (\<lambda>c.
     if \<not> is_exec (ch_origin c) then errf ''only Tx/Ast chunks may commit to a parent''
     else case parent st c of
       None \<Rightarrow> errf ''detached execution chunk has no commit parent''
     | Some p \<Rightarrow>
         with_chunk st p (\<lambda>pc.
         if \<not> commit_pair_ok (ch_origin c) (ch_origin pc)
         then errf ''invalid execution chunk parent relationship''
         else case writable (ch_body pc) of
           None \<Rightarrow> errf ''execution chunk parent is already finalized''
         | Some target \<Rightarrow>
             (case take_writable (ch_body c) of
                (None, _) \<Rightarrow> errf ''execution chunk already finalized''
              | (Some child, body') \<Rightarrow>
                  Ok (p, put_chunk
                           (put_chunk st i (c\<lparr>ch_body := body'\<rparr>))
                           p (pc\<lparr>ch_body := Writable (merge_delta (ch_origin c) target child)\<rparr>)))))"

definition discard :: "chunk_store \<Rightarrow> nat \<Rightarrow> chunk_store ret" where
  "discard st i =
     with_chunk st i (\<lambda>c.
     if \<not> is_exec (ch_origin c) then errf ''only Tx/Ast chunks may be discarded explicitly''
     else case take_writable (ch_body c) of
       (None, _) \<Rightarrow> errf ''execution chunk already finalized''
     | (Some _, body') \<Rightarrow> Ok (put_chunk st i (c\<lparr>ch_body := body'\<rparr>)))"

definition attach_block_child :: "chunk_store \<Rightarrow> nat \<Rightarrow> nat \<Rightarrow> chunk_store ret" where
  "attach_block_child st i child =
     with_chunk st i (\<lambda>c.
     with_chunk st child (\<lambda>cc.
     if \<not> is_block (ch_origin c) then errf ''fork-tree parent is not a block chunk''
     else case parent st cc of
       None \<Rightarrow> errf ''block chunk has no fork-tree parent''
     | Some p \<Rightarrow>
         if p \<noteq> i then errf ''block chunk parent does not match attach target''
         else
           try_ret (block_identity_of cc) (\<lambda>_.
           case freeze (ch_body cc) of
             (False, _) \<Rightarrow> errf ''block chunk is already attached or finalized''
           | (True, body') \<Rightarrow>
               let st' = put_chunk st child (cc\<lparr>ch_body := body'\<rparr>)
               in with_chunk st' i (\<lambda>c'.
                  Ok (put_chunk st' i (c'\<lparr>ch_children := ch_children c' @ [child]\<rparr>))))))"

definition remove_block_child :: "chunk_store \<Rightarrow> nat \<Rightarrow> nat \<Rightarrow> (bool \<times> chunk_store) ret" where
  "remove_block_child st i child =
     with_chunk st i (\<lambda>c.
     let children = filter (\<lambda>x. x \<noteq> child) (ch_children c)
     in Ok (length (ch_children c) \<noteq> length children, put_chunk st i (c\<lparr>ch_children := children\<rparr>)))"

definition take_draft_delta :: "chunk_store \<Rightarrow> nat \<Rightarrow> (chunk_delta \<times> chunk_store) ret" where
  "take_draft_delta st i =
     with_chunk st i (\<lambda>c.
     case ch_origin c of
       OBlock _ None \<Rightarrow>
         (case take_writable (ch_body c) of
            (None, _) \<Rightarrow> errf ''block draft already finalized''
          | (Some d, body') \<Rightarrow> Ok (d, put_chunk st i (c\<lparr>ch_body := body'\<rparr>)))
     | _ \<Rightarrow> errf ''only a writable block draft can release its delta'')"

definition promote_to_root :: "chunk_store \<Rightarrow> nat \<Rightarrow> nat \<Rightarrow> chunk_store ret" where
  "promote_to_root st i disk =
     with_chunk st i (\<lambda>c.
     if \<not> is_block (ch_origin c) \<or> frozen_state c = None
     then errf ''only a frozen block chunk can become the durable root''
     else case ch_source c of
       Parent _ \<Rightarrow> Ok (put_chunk st i (c\<lparr>ch_source := Disk disk\<rparr>))
     | Disk _ \<Rightarrow> errf ''state chunk is already disk-backed'')"

section \<open>Reads and writes\<close>

definition STATE_READ_FAILED_CODE :: string where
  "STATE_READ_FAILED_CODE = ''storage_read_failed''"

definition body_lookup :: "chunk_body \<Rightarrow> bytes \<Rightarrow> bytes option option" where
  "body_lookup body key =
     (case body of
        Writable delta \<Rightarrow> memkv_get (dl_state delta) key
      | Frozen delta \<Rightarrow> memkv_get (dl_state delta) key
      | Consumed \<Rightarrow> None)"

definition disk_try_read :: "layer \<Rightarrow> bytes \<Rightarrow> bytes option ret" where
  "disk_try_read disk key =
     (case layer_get disk key of
        Inr v \<Rightarrow> Ok v
      | Inl (Panic msg) \<Rightarrow> panicf msg
      | Inl (Error _ _ _) \<Rightarrow> abortf ''state backend read failed'' STATE_READ_FAILED_CODE)"

text \<open>
  The recursion of \<^verbatim>\<open>get_state\<close> follows parent links and is not structural: \<open>None\<close> is a walk that
  does not return. \<open>get_state_returns\<close> shows that it always does.
\<close>

partial_function (option) get_state :: "chunk_store \<Rightarrow> nat \<Rightarrow> bytes \<Rightarrow> bytes option ret option" where
  "get_state st i key =
     (case cs_chunk st i of
        None \<Rightarrow> Some (panicf ''state chunk parent expired while its view was in use'')
      | Some c \<Rightarrow>
          (case body_lookup (ch_body c) key of
             Some value \<Rightarrow> Some (Ok value)
           | None \<Rightarrow>
               (case ch_source c of
                  Disk d \<Rightarrow> Some (disk_try_read (cs_disk st d) key)
                | Parent p \<Rightarrow> get_state st p key)))"

definition mutate_delta ::
  "chunk_store \<Rightarrow> nat \<Rightarrow> (chunk_delta \<Rightarrow> chunk_delta) \<Rightarrow> chunk_store ret" where
  "mutate_delta st i f =
     with_chunk st i (\<lambda>c.
     case writable (ch_body c) of
       None \<Rightarrow> panicf ''attempted to mutate finalized state chunk''
     | Some d \<Rightarrow> Ok (put_chunk st i (c\<lparr>ch_body := Writable (f d)\<rparr>)))"

definition chunk_set :: "chunk_store \<Rightarrow> nat \<Rightarrow> bytes \<Rightarrow> bytes \<Rightarrow> chunk_store ret" where
  "chunk_set st i key v =
     mutate_delta st i (\<lambda>d. d\<lparr>dl_state := memkv_put (dl_state d) key v\<rparr>)"

definition chunk_del :: "chunk_store \<Rightarrow> nat \<Rightarrow> bytes \<Rightarrow> chunk_store ret" where
  "chunk_del st i key =
     mutate_delta st i (\<lambda>d. d\<lparr>dl_state := memkv_del (dl_state d) key\<rparr>)"

definition emit_log :: "chunk_store \<Rightarrow> nat \<Rightarrow> log_entry \<Rightarrow> chunk_store ret" where
  "emit_log st i entry =
     mutate_delta st i (\<lambda>d. d\<lparr>dl_logs := dl_logs d @ [entry]\<rparr>)"

end
