(* ===== verification/ChunkProps.thy ===== *)
theory ChunkProps
  imports StateChunk
begin

text \<open>
  What the chunk operations guarantee. Parent links point to older chunks, so every read returns;
  what a chunk answers, its \<open>chunk_view\<close>, is a state layer on which \<^verbatim>\<open>set\<close> and \<^verbatim>\<open>del\<close> act as the layer
  functions of \<open>CoreState\<close> do; committing a transaction gives its view to the block and discarding
  it leaves the block as it was; a finalised chunk never changes again. The step relation
  \<open>chunk_step\<close> has one rule per operation that changes the store.
\<close>

section \<open>Views\<close>

definition chunk_wf :: "chunk_store \<Rightarrow> bool" where
  "chunk_wf st \<longleftrightarrow>
     (\<forall>i c. cs_chunk st i = Some c \<longrightarrow>
        i < cs_next st \<and> (\<forall>p. ch_source c = Parent p \<longrightarrow> p < i))"

definition chunk_view :: "chunk_store \<Rightarrow> nat \<Rightarrow> layer" where
  "chunk_view st i key =
     (case get_state st i key of Some r \<Rightarrow> r | None \<Rightarrow> panicf ''get_state does not return'')"

definition source_view :: "chunk_store \<Rightarrow> source \<Rightarrow> layer" where
  "source_view st src =
     (case src of Parent p \<Rightarrow> chunk_view st p | Disk d \<Rightarrow> disk_try_read (cs_disk st d))"

lemma chunk_wfD:
  assumes "chunk_wf st" "cs_chunk st i = Some c"
  shows "i < cs_next st" "ch_source c = Parent p \<Longrightarrow> p < i"
  using assms by (auto simp: chunk_wf_def)

lemma get_state_returns:
  assumes "chunk_wf st"
  shows "\<exists>r. get_state st i key = Some r"
proof (induction i rule: less_induct)
  case (less i)
  show ?case
  proof (cases "cs_chunk st i")
    case None
    then show ?thesis by (subst get_state.simps) simp
  next
    case (Some c)
    then have "ch_source c = Parent p \<Longrightarrow> \<exists>r. get_state st p key = Some r" for p
      using less chunk_wfD(2) [OF assms Some] by blast
    then show ?thesis
      using Some by (subst get_state.simps) (auto split: option.split source.split)
  qed
qed

lemma chunk_view_None:
  "cs_chunk st i = None \<Longrightarrow>
     chunk_view st i = (\<lambda>_. panicf ''state chunk parent expired while its view was in use'')"
  unfolding chunk_view_def fun_eq_iff by (subst get_state.simps) simp

lemma chunk_view_Some:
  assumes "cs_chunk st i = Some c"
  shows "chunk_view st i = apply_delta (body_lookup (ch_body c)) (source_view st (ch_source c))"
  unfolding chunk_view_def source_view_def apply_delta_def fun_eq_iff
  by (subst get_state.simps) (use assms in \<open>auto split: option.split source.split simp: chunk_view_def\<close>)

text \<open>A view depends on the links and the overlays of the chunk and of older chunks only.\<close>

definition read_part :: "chunk \<Rightarrow> source \<times> memkv" where
  "read_part c = (ch_source c, body_lookup (ch_body c))"

lemma chunk_view_cong:
  assumes "chunk_wf st"
    and "\<And>j. j \<le> i \<Longrightarrow> map_option read_part (cs_chunk st' j) = map_option read_part (cs_chunk st j)"
    and "cs_disk st' = cs_disk st"
  shows "chunk_view st' i = chunk_view st i"
  using assms(2)
proof (induction i rule: less_induct)
  case (less i)
  show ?case
  proof (cases "cs_chunk st i")
    case None
    with less.prems [of i] have "cs_chunk st' i = None" by simp
    with None show ?thesis by (simp add: chunk_view_None)
  next
    case (Some c)
    with less.prems [of i] obtain c' where c': "cs_chunk st' i = Some c'"
      and eq: "ch_source c' = ch_source c" "body_lookup (ch_body c') = body_lookup (ch_body c)"
      by (auto simp: read_part_def)
    have "source_view st' (ch_source c) = source_view st (ch_source c)"
    proof (cases "ch_source c")
      case (Parent p)
      with chunk_wfD(2) [OF assms(1) Some] have "p < i" by simp
      with less.IH less.prems have "chunk_view st' p = chunk_view st p" by simp
      with Parent show ?thesis by (simp add: source_view_def)
    qed (simp add: source_view_def assms(3))
    then show ?thesis by (simp add: chunk_view_Some [OF Some] chunk_view_Some [OF c'] eq)
  qed
qed

lemma put_chunk_sel [simp]:
  "cs_next (put_chunk st i c) = cs_next st"
  "cs_chunk (put_chunk st i c) = (cs_chunk st)(i \<mapsto> c)"
  "cs_disk (put_chunk st i c) = cs_disk st"
  by (simp_all add: put_chunk_def)

lemma with_chunk_eq_Inr [simp]:
  "with_chunk st i f = Inr r \<longleftrightarrow> (\<exists>c. cs_chunk st i = Some c \<and> f c = Inr r)"
  by (auto simp: with_chunk_def split: option.split)

lemma with_chunk_Some [simp]: "cs_chunk st i = Some c \<Longrightarrow> with_chunk st i f = f c"
  by (simp add: with_chunk_def)

lemma writable_eq_Some [simp]: "writable b = Some d \<longleftrightarrow> b = Writable d"
  by (cases b) auto

lemma take_writable_Some [simp]: "take_writable b = (Some d, b') \<longleftrightarrow> b = Writable d \<and> b' = Consumed"
  by (cases b) (auto simp: take_writable_def)

lemma freeze_True [simp]: "freeze b = (True, b') \<longleftrightarrow> (\<exists>d. b = Writable d \<and> b' = Frozen d)"
  by (cases b) (auto simp: freeze_def take_writable_def)

lemma body_writable [simp]:
  "take_writable (Writable d) = (Some d, Consumed)" "freeze (Writable d) = (True, Frozen d)"
  by (simp_all add: take_writable_def freeze_def)

lemma body_lookup_simps [simp]:
  "body_lookup (Writable d) = dl_state d"
  "body_lookup (Frozen d) = dl_state d"
  "body_lookup Consumed = Map.empty"
  by (simp_all add: body_lookup_def memkv_get_def fun_eq_iff)

lemma apply_delta_simps [simp]:
  "apply_delta Map.empty s = s"
  "apply_delta (memkv_put m k v) s = layer_set (apply_delta m s) k v"
  "apply_delta (memkv_del m k) s = layer_del (apply_delta m s) k"
  "apply_delta (memkv_extend m m') s = apply_delta m' (apply_delta m s)"
  by (auto simp: apply_delta_def memkv_put_def memkv_del_def memkv_extend_def layer_set_def
      layer_del_def fun_eq_iff map_add_def split: option.split)

text \<open>Changing a chunk does not change the views of older chunks.\<close>

lemma view_put_older:
  assumes "chunk_wf st" "j < i"
  shows "chunk_view (put_chunk st i c) j = chunk_view st j"
  by (rule chunk_view_cong) (use assms in auto)

lemma chunk_wf_put:
  assumes "chunk_wf st" "cs_chunk st i = Some c"
    and "ch_source c' = ch_source c \<or> (\<exists>d. ch_source c' = Disk d)"
  shows "chunk_wf (put_chunk st i c')"
  using assms by (auto simp: chunk_wf_def split: if_splits)

lemma source_view_put_older:
  assumes "chunk_wf st" "\<And>p. src = Parent p \<Longrightarrow> p < i"
  shows "source_view (put_chunk st i c) src = source_view st src"
  using assms by (auto simp: source_view_def view_put_older split: source.split)

lemma view_put_self:
  assumes "chunk_wf st" "cs_chunk st i = Some c" "ch_source c' = ch_source c"
  shows "chunk_view (put_chunk st i c') i =
    apply_delta (body_lookup (ch_body c')) (source_view st (ch_source c))"
proof -
  have "cs_chunk (put_chunk st i c') i = Some c'" by simp
  from chunk_view_Some [OF this]
  show ?thesis
    using assms(3) source_view_put_older [OF assms(1), of "ch_source c" i c'] chunk_wfD(2) [OF assms(1,2)]
    by simp
qed

section \<open>The state layer contract\<close>

text \<open>
  The contract of the \<^verbatim>\<open>StateLayer\<close> trait: \<open>set\<close> and \<open>del\<close> keep the invariant and change the answer
  at one key. A client that only writes is a list of \<open>kv_write\<close>s; \<open>run_writes\<close> applies them through
  the operations and \<open>apply_writes\<close> to the answers.
\<close>

datatype kv_write = WSet bytes bytes | WDel bytes

fun apply_write :: "kv_write \<Rightarrow> layer \<Rightarrow> layer" where
  "apply_write (WSet key v) s = layer_set s key v"
| "apply_write (WDel key) s = layer_del s key"

definition apply_writes :: "kv_write list \<Rightarrow> layer \<Rightarrow> layer" where
  "apply_writes ws s = fold apply_write ws s"

fun run_writes ::
  "('s \<Rightarrow> bytes \<Rightarrow> bytes \<Rightarrow> 's ret) \<Rightarrow> ('s \<Rightarrow> bytes \<Rightarrow> 's ret) \<Rightarrow> kv_write list \<Rightarrow> 's \<Rightarrow> 's ret" where
  "run_writes put rem [] s = Ok s"
| "run_writes put rem (WSet key v # ws) s = try_ret (put s key v) (run_writes put rem ws)"
| "run_writes put rem (WDel key # ws) s = try_ret (rem s key) (run_writes put rem ws)"

locale state_layer =
  fixes inv_s :: "'s \<Rightarrow> bool"
    and view :: "'s \<Rightarrow> layer"
    and set_op :: "'s \<Rightarrow> bytes \<Rightarrow> bytes \<Rightarrow> 's ret"
    and del_op :: "'s \<Rightarrow> bytes \<Rightarrow> 's ret"
  assumes set_spec: "inv_s s \<Longrightarrow> \<exists>s'. set_op s key v = Ok s' \<and> inv_s s' \<and> view s' = layer_set (view s) key v"
    and del_spec: "inv_s s \<Longrightarrow> \<exists>s'. del_op s key = Ok s' \<and> inv_s s' \<and> view s' = layer_del (view s) key"
begin

lemma run_spec:
  "inv_s s \<Longrightarrow>
     \<exists>s'. run_writes set_op del_op ws s = Ok s' \<and> inv_s s' \<and> view s' = apply_writes ws (view s)"
proof (induction ws arbitrary: s)
  case Nil
  then show ?case by (simp add: apply_writes_def)
next
  case (Cons w ws)
  show ?case
  proof (cases w)
    case (WSet key v)
    obtain s' where "set_op s key v = Ok s'" "inv_s s'" "view s' = layer_set (view s) key v"
      using set_spec [OF Cons.prems] by blast
    then show ?thesis using Cons.IH [of s'] WSet by (simp add: apply_writes_def)
  next
    case (WDel key)
    obtain s' where "del_op s key = Ok s'" "inv_s s'" "view s' = layer_del (view s) key"
      using del_spec [OF Cons.prems] by blast
    then show ?thesis using Cons.IH [of s'] WDel by (simp add: apply_writes_def)
  qed
qed

lemma run_read_back:
  assumes "inv_s s" "run_writes set_op del_op (ws @ [WSet key v]) s = Ok s'"
  shows "view s' key = Ok (Some v)"
  using run_spec [OF assms(1), of "ws @ [WSet key v]"] assms(2)
  by (auto simp: apply_writes_def layer_set_def)

end

text \<open>
  A writable chunk of a well-formed store meets the contract. The invariant also says what a write
  to chunk \<open>i\<close> leaves alone: every other chunk, so the views of its ancestors.
\<close>

definition writing :: "nat \<Rightarrow> chunk_store \<Rightarrow> chunk_store \<Rightarrow> bool" where
  "writing i st0 st \<longleftrightarrow>
     chunk_wf st \<and>
     (\<exists>c0 d0 d. cs_chunk st0 i = Some c0 \<and> ch_body c0 = Writable d0 \<and>
        st = put_chunk st0 i (c0\<lparr>ch_body := Writable d\<rparr>) \<and>
        dl_tx_hashes d = dl_tx_hashes d0)"

lemma put_chunk_put [simp]: "put_chunk (put_chunk st i c) i c' = put_chunk st i c'"
  by (simp add: put_chunk_def)

lemma writing_mutate:
  assumes "writing i st0 st" "\<And>d. dl_tx_hashes (f d) = dl_tx_hashes d"
    "\<And>d s. apply_delta (dl_state (f d)) s = g (apply_delta (dl_state d) s)"
  shows "\<exists>st'. mutate_delta st i f = Ok st' \<and> writing i st0 st' \<and>
    chunk_view st' i = g (chunk_view st i)"
proof -
  from assms(1) obtain c0 d0 d where *: "chunk_wf st" "cs_chunk st0 i = Some c0"
    "ch_body c0 = Writable d0" "dl_tx_hashes d = dl_tx_hashes d0"
    and st: "st = put_chunk st0 i (c0\<lparr>ch_body := Writable d\<rparr>)"
    unfolding writing_def by blast
  have c: "cs_chunk st i = Some (c0\<lparr>ch_body := Writable d\<rparr>)" by (simp add: st)
  let ?c' = "c0\<lparr>ch_body := Writable (f d)\<rparr>"
  have m: "mutate_delta st i f = Ok (put_chunk st i ?c')"
    by (simp add: mutate_delta_def c)
  have "chunk_wf (put_chunk st i ?c')" using *(1) c by (rule chunk_wf_put) simp
  moreover have "put_chunk st i ?c' = put_chunk st0 i ?c'" by (simp add: st)
  ultimately have "writing i st0 (put_chunk st i ?c')"
    unfolding writing_def using * assms(2) by (metis)
  moreover have "chunk_view (put_chunk st i ?c') i = g (chunk_view st i)"
    using view_put_self [OF *(1) c, of ?c'] chunk_view_Some [OF c] assms(3) by simp
  ultimately show ?thesis using m by blast
qed

interpretation chunk_layer: state_layer "writing i st0" "\<lambda>st. chunk_view st i"
  "\<lambda>st. chunk_set st i" "\<lambda>st. chunk_del st i" for i st0
  by unfold_locales (auto simp: chunk_set_def chunk_del_def intro!: writing_mutate)

interpretation plain_layer: state_layer "\<lambda>_. True" "\<lambda>s. s"
  "\<lambda>s key v. Ok (layer_set s key v)" "\<lambda>s key. Ok (layer_del s key)"
  by unfold_locales auto

lemma writing_refl:
  assumes "chunk_wf st" "cs_chunk st i = Some c" "ch_body c = Writable d"
  shows "writing i st st"
proof -
  have "put_chunk st i (c\<lparr>ch_body := Writable d\<rparr>) = st"
    using assms by (simp add: put_chunk_def fun_upd_idem)
  then show ?thesis using assms unfolding writing_def by metis
qed

lemma writing_older:
  assumes "chunk_wf st0" "writing i st0 st" "j < i"
  shows "chunk_view st j = chunk_view st0 j"
  using assms view_put_older unfolding writing_def by blast

section \<open>Spawning, committing and discarding\<close>

lemma chunk_wf_new:
  assumes "chunk_wf st" "\<And>p. src = Parent p \<Longrightarrow> p < cs_next st" "with_body st org src body = (i, st')"
  shows "chunk_wf st'"
  using assms by (auto simp: chunk_wf_def with_body_def Let_def less_Suc_eq split: if_splits)

lemma with_body_view:
  assumes "chunk_wf st" "\<And>p. src = Parent p \<Longrightarrow> p < cs_next st" "with_body st org src body = (i, st')"
  shows "i = cs_next st"
    and "cs_chunk st' = (cs_chunk st)(i \<mapsto> \<lparr>ch_origin = org, ch_source = src, ch_body = body, ch_children = []\<rparr>)"
    and "j < i \<Longrightarrow> chunk_view st' j = chunk_view st j"
    and "chunk_view st' i = apply_delta (body_lookup body) (source_view st src)"
proof -
  show i: "i = cs_next st" and
    c: "cs_chunk st' = (cs_chunk st)(i \<mapsto> \<lparr>ch_origin = org, ch_source = src, ch_body = body, ch_children = []\<rparr>)"
    using assms(3) by (auto simp: with_body_def Let_def)
  have d: "cs_disk st' = cs_disk st" using assms(3) by (auto simp: with_body_def Let_def)
  show older: "chunk_view st' j = chunk_view st j" if "j < i" for j
    by (rule chunk_view_cong [OF assms(1)]) (use that c d in auto)
  have "source_view st' src = source_view st src"
    using older assms(2) d i by (auto simp: source_view_def split: source.split)
  then show "chunk_view st' i = apply_delta (body_lookup body) (source_view st src)"
    using chunk_view_Some [of st' i] c by simp
qed

lemma live_below_next: "chunk_wf st \<Longrightarrow> cs_chunk st p = Some c \<Longrightarrow> p < cs_next st"
  by (rule chunk_wfD)

lemma spawn_tx_spec:
  assumes wf: "chunk_wf st" and sp: "spawn_tx_child st b tx_hash = Ok (t, st')"
  shows "chunk_wf st'" "b < t" "chunk_view st' t = chunk_view st b" "chunk_view st' b = chunk_view st b"
    and "\<exists>bc bd. cs_chunk st b = Some bc \<and> is_block (ch_origin bc) \<and> ch_body bc = Writable bd"
    and "cs_chunk st' = (cs_chunk st)(t \<mapsto> \<lparr>ch_origin = OTx tx_hash, ch_source = Parent b,
           ch_body = Writable delta_default, ch_children = []\<rparr>)"
proof -
  from sp obtain bc bd where b: "cs_chunk st b = Some bc" "is_block (ch_origin bc)" "ch_body bc = Writable bd"
    and n: "with_body st (OTx tx_hash) (Parent b) (Writable delta_default) = (t, st')"
    by (auto simp: spawn_tx_child_def new_chunk_def is_writable_def split: if_splits)
  have lt: "b < cs_next st" using wf b(1) by (rule live_below_next)
  then have p: "Parent b = Parent p \<Longrightarrow> p < cs_next st" for p by simp
  note w = with_body_view [OF wf p n]
  show "chunk_wf st'" using wf p n by (rule chunk_wf_new)
  show bt: "b < t" using w(1) lt by simp
  show "chunk_view st' t = chunk_view st b"
    using w(4) by (simp add: source_view_def delta_default_def)
  show "chunk_view st' b = chunk_view st b" using w(3) bt by simp
  show "\<exists>bc bd. cs_chunk st b = Some bc \<and> is_block (ch_origin bc) \<and> ch_body bc = Writable bd"
    using b by blast
  show "cs_chunk st' = (cs_chunk st)(t \<mapsto> \<lparr>ch_origin = OTx tx_hash, ch_source = Parent b,
           ch_body = Writable delta_default, ch_children = []\<rparr>)" by (rule w(2))
qed

lemma commit_spec:
  assumes wf: "chunk_wf st" and cm: "commit_to_parent st i = Ok (p, st')"
  shows "chunk_wf st'" "chunk_view st' p = chunk_view st i" "p < i"
    and "\<And>j. j < p \<Longrightarrow> chunk_view st' j = chunk_view st j"
    and "\<exists>c pc target child. cs_chunk st i = Some c \<and> ch_source c = Parent p \<and> ch_body c = Writable child \<and>
           cs_chunk st p = Some pc \<and> ch_body pc = Writable target \<and>
           cs_chunk st' p = Some (pc\<lparr>ch_body := Writable (merge_delta (ch_origin c) target child)\<rparr>) \<and>
           cs_chunk st' i = Some (c\<lparr>ch_body := Consumed\<rparr>)"
proof -
  from cm obtain c pc target child where c: "cs_chunk st i = Some c"
    and pa: "parent st c = Some p" and pc: "cs_chunk st p = Some pc"
    and t: "ch_body pc = Writable target" and ch: "ch_body c = Writable child"
    and st': "st' = put_chunk (put_chunk st i (c\<lparr>ch_body := Consumed\<rparr>)) p
          (pc\<lparr>ch_body := Writable (merge_delta (ch_origin c) target child)\<rparr>)"
    by (auto simp: commit_to_parent_def split: if_splits option.splits prod.splits)
  from pa have src: "ch_source c = Parent p"
    by (auto simp: parent_def split: source.splits option.splits)
  with wf c show lt: "p < i" using chunk_wfD(2) by blast
  let ?st1 = "put_chunk st i (c\<lparr>ch_body := Consumed\<rparr>)"
  have wf1: "chunk_wf ?st1" using wf c by (rule chunk_wf_put) simp
  have pc1: "cs_chunk ?st1 p = Some pc" using pc lt by simp
  show "chunk_wf st'" unfolding st' using wf1 pc1 by (rule chunk_wf_put) simp
  have below: "source_view ?st1 (ch_source pc) = source_view st (ch_source pc)"
    by (rule source_view_put_older [OF wf]) (use chunk_wfD(2) [OF wf pc] lt in auto)
  have "chunk_view st' p = apply_delta (dl_state child) (apply_delta (dl_state target) (source_view st (ch_source pc)))"
    unfolding st' using view_put_self [OF wf1 pc1] below
    by (simp add: merge_delta_def Let_def)
  also have "\<dots> = chunk_view st i"
    using chunk_view_Some [OF c] chunk_view_Some [OF pc] t ch src by (simp add: source_view_def)
  finally show "chunk_view st' p = chunk_view st i" .
  show "chunk_view st' j = chunk_view st j" if "j < p" for j
    unfolding st' using that lt view_put_older [OF wf1] view_put_older [OF wf] by simp
  show "\<exists>c pc target child. cs_chunk st i = Some c \<and> ch_source c = Parent p \<and> ch_body c = Writable child \<and>
           cs_chunk st p = Some pc \<and> ch_body pc = Writable target \<and>
           cs_chunk st' p = Some (pc\<lparr>ch_body := Writable (merge_delta (ch_origin c) target child)\<rparr>) \<and>
           cs_chunk st' i = Some (c\<lparr>ch_body := Consumed\<rparr>)"
    using c src ch pc t lt by (simp add: st')
qed

lemma discard_spec:
  assumes wf: "chunk_wf st" and ds: "discard st i = Ok st'"
  shows "chunk_wf st'" "\<And>j. j < i \<Longrightarrow> chunk_view st' j = chunk_view st j"
    and "\<And>c p. cs_chunk st i = Some c \<Longrightarrow> ch_source c = Parent p \<Longrightarrow> chunk_view st' i = chunk_view st p"
proof -
  from ds obtain c where c: "cs_chunk st i = Some c" and st': "st' = put_chunk st i (c\<lparr>ch_body := Consumed\<rparr>)"
    by (auto simp: discard_def split: if_splits option.splits prod.splits)
  show "chunk_wf st'" unfolding st' using wf c by (rule chunk_wf_put) simp
  show "chunk_view st' j = chunk_view st j" if "j < i" for j
    unfolding st' using wf that by (rule view_put_older)
  show "chunk_view st' i = chunk_view st p" if "cs_chunk st i = Some c'" "ch_source c' = Parent p" for c' p
    unfolding st' using view_put_self [OF wf c] that c by (simp add: source_view_def)
qed

section \<open>Every execution\<close>

text \<open>
  One rule per operation that changes the store, with \<open>drop_chunk\<close> for a chunk whose last
  reference goes away and \<open>step_disk\<close> for a write to the disk.
\<close>

inductive chunk_step :: "chunk_store \<Rightarrow> chunk_store \<Rightarrow> bool" where
  step_root: "new_root st d blk = (i, st') \<Longrightarrow> chunk_step st st'"
| step_draft: "cs_chunk st p \<noteq> None \<Longrightarrow> block_draft_on st p h = (i, st') \<Longrightarrow> chunk_step st st'"
| step_draft_disk: "block_draft_on_disk st d h = (i, st') \<Longrightarrow> chunk_step st st'"
| step_exec: "block_exec_on st p blk key = Ok (i, st') \<Longrightarrow> chunk_step st st'"
| step_tx: "cs_chunk st p \<noteq> None \<Longrightarrow> tx_on st p h = (i, st') \<Longrightarrow> chunk_step st st'"
| step_spawn_tx: "spawn_tx_child st p h = Ok (i, st') \<Longrightarrow> chunk_step st st'"
| step_spawn_ast: "spawn_ast_child st p = Ok (i, st') \<Longrightarrow> chunk_step st st'"
| step_commit: "commit_to_parent st i = Ok (p, st') \<Longrightarrow> chunk_step st st'"
| step_discard: "discard st i = Ok st' \<Longrightarrow> chunk_step st st'"
| step_attach: "attach_block_child st i child = Ok st' \<Longrightarrow> chunk_step st st'"
| step_remove: "remove_block_child st i child = Ok (b, st') \<Longrightarrow> chunk_step st st'"
| step_take: "take_draft_delta st i = Ok (delta, st') \<Longrightarrow> chunk_step st st'"
| step_promote: "promote_to_root st i d = Ok st' \<Longrightarrow> chunk_step st st'"
| step_set: "chunk_set st i key v = Ok st' \<Longrightarrow> chunk_step st st'"
| step_del: "chunk_del st i key = Ok st' \<Longrightarrow> chunk_step st st'"
| step_log: "emit_log st i entry = Ok st' \<Longrightarrow> chunk_step st st'"
| step_drop: "chunk_step st (drop_chunk st i)"
| step_disk: "chunk_step st (st\<lparr>cs_disk := f\<rparr>)"

definition cs_empty :: "(nat \<Rightarrow> layer) \<Rightarrow> chunk_store" where
  "cs_empty disks = \<lparr>cs_next = 0, cs_chunk = Map.empty, cs_disk = disks\<rparr>"

definition chunk_reach :: "chunk_store \<Rightarrow> bool" where
  "chunk_reach st \<longleftrightarrow> (\<exists>disks. chunk_step\<^sup>*\<^sup>* (cs_empty disks) st)"

text \<open>
  Each operation is one or two basic changes: a new chunk, a change of one chunk that keeps its
  origin, a chunk that goes away, a disk write.
\<close>

definition body_next :: "chunk_body \<Rightarrow> chunk_body \<Rightarrow> bool" where
  "body_next b b' \<longleftrightarrow> b' = b \<or> (\<exists>d. b = Writable d)"

definition ast_typed :: "chunk_store \<Rightarrow> origin \<Rightarrow> source \<Rightarrow> bool" where
  "ast_typed st org src \<longleftrightarrow>
     (\<forall>n. org = OAst n \<longrightarrow> 0 < n \<and> n < 2 ^ 32 \<and>
        (\<exists>p. src = Parent p \<and>
           (\<forall>pc. cs_chunk st p = Some pc \<longrightarrow>
              (if n = 1 then \<exists>h. ch_origin pc = OTx h else ch_origin pc = OAst (n - 1)))))"

definition attached :: "chunk_store \<Rightarrow> nat \<Rightarrow> nat \<Rightarrow> bool" where
  "attached st i child \<longleftrightarrow>
     i < child \<and> child < cs_next st \<and>
     (\<forall>cc. cs_chunk st child = Some cc \<longrightarrow>
        (\<exists>d h ident. ch_body cc = Frozen d \<and> ch_origin cc = OBlock h (Some ident) \<and>
           (ch_source cc = Parent i \<or> (\<exists>disk. ch_source cc = Disk disk))))"

definition store_typed :: "chunk_store \<Rightarrow> bool" where
  "store_typed st \<longleftrightarrow>
     chunk_wf st \<and>
     (\<forall>i c. cs_chunk st i = Some c \<longrightarrow>
        ast_typed st (ch_origin c) (ch_source c) \<and> (\<forall>child\<in>set (ch_children c). attached st i child))"

inductive basic_step :: "chunk_store \<Rightarrow> chunk_store \<Rightarrow> bool" where
  basic_new: "(\<And>p. src = Parent p \<Longrightarrow> cs_chunk st p \<noteq> None) \<Longrightarrow> ast_typed st org src \<Longrightarrow>
     with_body st org src body = (i, st') \<Longrightarrow> basic_step st st'"
| basic_upd: "cs_chunk st i = Some c \<Longrightarrow> ch_origin c' = ch_origin c \<Longrightarrow>
     body_next (ch_body c) (ch_body c') \<Longrightarrow>
     ch_source c' = ch_source c \<or> is_block (ch_origin c) \<and> (\<exists>d. ch_source c' = Disk d) \<Longrightarrow>
     (\<And>child. child \<in> set (ch_children c') \<Longrightarrow>
        child \<in> set (ch_children c) \<or>
        (\<exists>cc d h ident. cs_chunk st child = Some cc \<and> ch_body cc = Frozen d \<and>
           ch_origin cc = OBlock h (Some ident) \<and> ch_source cc = Parent i)) \<Longrightarrow>
     basic_step st (put_chunk st i c')"
| basic_drop: "basic_step st (drop_chunk st i)"
| basic_disk: "basic_step st (st\<lparr>cs_disk := f\<rparr>)"

lemma basic_body:
  assumes "cs_chunk st i = Some c" "body_next (ch_body c) b"
  shows "basic_step st (put_chunk st i (c\<lparr>ch_body := b\<rparr>))"
  using assms by (intro basic_upd) auto

lemma basic_mutate: "mutate_delta st i f = Ok st' \<Longrightarrow> basic_step st st'"
  by (auto simp: mutate_delta_def body_next_def split: option.splits intro!: basic_body)

lemma basic_commit:
  assumes "chunk_wf st" "commit_to_parent st i = Ok (p, st')"
  shows "\<exists>s. basic_step st s \<and> basic_step s st'"
proof -
  from assms(2) obtain c pc target child where c: "cs_chunk st i = Some c"
    and pc: "cs_chunk st p = Some pc"
    and t: "ch_body pc = Writable target" and ch: "ch_body c = Writable child"
    and st': "st' = put_chunk (put_chunk st i (c\<lparr>ch_body := Consumed\<rparr>)) p
          (pc\<lparr>ch_body := Writable (merge_delta (ch_origin c) target child)\<rparr>)"
    by (auto simp: commit_to_parent_def split: if_splits option.splits prod.splits)
  let ?s = "put_chunk st i (c\<lparr>ch_body := Consumed\<rparr>)"
  have ne: "p \<noteq> i" using commit_spec(3) [OF assms] by simp
  have "basic_step st ?s" using c by (rule basic_body) (simp add: body_next_def ch)
  moreover have "basic_step ?s st'"
    unfolding st' by (rule basic_body) (use ne pc t in \<open>auto simp: body_next_def\<close>)
  ultimately show ?thesis by blast
qed

lemma attach_cases:
  assumes "chunk_wf st" "attach_block_child st i child = Ok st'"
  obtains c cc d h ident where
    "cs_chunk st i = Some c" "is_block (ch_origin c)" "cs_chunk st child = Some cc"
    "ch_origin cc = OBlock h (Some ident)" "ch_source cc = Parent i" "ch_body cc = Writable d" "i < child"
    "st' = put_chunk (put_chunk st child (cc\<lparr>ch_body := Frozen d\<rparr>)) i
       (c\<lparr>ch_children := ch_children c @ [child]\<rparr>)"
proof -
  from assms(2) obtain c cc ident where c: "cs_chunk st i = Some c" "is_block (ch_origin c)"
    and cc: "cs_chunk st child = Some cc" "parent st cc = Some i"
    and id: "block_identity_of cc = Inr ident"
    and fr: "(case freeze (ch_body cc) of
             (False, _) \<Rightarrow> errf ''block chunk is already attached or finalized''
           | (True, body') \<Rightarrow>
               let st' = put_chunk st child (cc\<lparr>ch_body := body'\<rparr>)
               in with_chunk st' i (\<lambda>c'.
                  Ok (put_chunk st' i (c'\<lparr>ch_children := ch_children c' @ [child]\<rparr>)))) = Ok st'"
    by (auto simp: attach_block_child_def split: if_splits option.splits)
  from cc(2) have src: "ch_source cc = Parent i"
    by (auto simp: parent_def split: source.splits option.splits)
  have lt: "i < child" using chunk_wfD(2) [OF assms(1) cc(1) src] .
  from id obtain h where org: "ch_origin cc = OBlock h (Some ident)"
    by (auto simp: block_identity_of_def origin_block_identity_def split: origin.splits)
  from fr obtain body' where "freeze (ch_body cc) = (True, body')"
    by (auto split: prod.splits bool.splits)
  then obtain d where d: "ch_body cc = Writable d" "body' = Frozen d" "freeze (ch_body cc) = (True, Frozen d)"
    by auto
  from fr d lt c(1) have "st' = put_chunk (put_chunk st child (cc\<lparr>ch_body := Frozen d\<rparr>)) i
       (c\<lparr>ch_children := ch_children c @ [child]\<rparr>)"
    by (auto simp: Let_def)
  with that c cc(1) org src d(1) lt show ?thesis by blast
qed

lemma basic_attach:
  assumes "chunk_wf st" "attach_block_child st i child = Ok st'"
  shows "\<exists>s. basic_step st s \<and> basic_step s st'"
  using assms
proof (rule attach_cases)
  fix c cc d h ident
  assume a: "cs_chunk st i = Some c" "cs_chunk st child = Some cc"
    "ch_origin cc = OBlock h (Some ident)" "ch_source cc = Parent i" "ch_body cc = Writable d" "i < child"
    "st' = put_chunk (put_chunk st child (cc\<lparr>ch_body := Frozen d\<rparr>)) i
       (c\<lparr>ch_children := ch_children c @ [child]\<rparr>)"
  let ?s = "put_chunk st child (cc\<lparr>ch_body := Frozen d\<rparr>)"
  have "basic_step st ?s" using a(2) by (rule basic_body) (simp add: body_next_def a(5))
  moreover have "basic_step ?s st'"
    unfolding a(7) by (rule basic_upd [of _ _ c]) (use a in \<open>auto simp: body_next_def\<close>)
  ultimately show ?thesis by blast
qed

lemma basic_new_chunk:
  assumes "cs_chunk st p = Some pc" "ast_typed st org (Parent p)" "new_chunk st org (Parent p) = (i, st')"
  shows "basic_step st st'"
  by (rule basic_new [OF _ assms(2)]) (use assms in \<open>auto simp: new_chunk_def\<close>)

lemma ast_typed_other [simp]: "ast_typed st (OBlock h ident) src" "ast_typed st (OTx tx) src"
  by (simp_all add: ast_typed_def)

lemma basic_new_disk:
  assumes "with_body st (OBlock h ident) (Disk d) body = (i, st')"
  shows "basic_step st st'"
  by (rule basic_new [OF _ _ assms]) simp_all

lemma basic_spawn_ast:
  assumes "store_typed st" "spawn_ast_child st p = Ok (i, st')"
  shows "basic_step st st'"
proof -
  from assms(2) obtain c depth where c: "cs_chunk st p = Some c"
    and org: "(case ch_origin c of OTx _ \<Rightarrow> Ok 1
        | OAst depth \<Rightarrow> ok_or (checked_add 32 depth 1) (Error Fault ''AST execution depth overflow'' None)
        | OBlock _ _ \<Rightarrow> errf ''AST child requires a transaction context'') = Ok depth"
    and n: "new_chunk st (OAst depth) (Parent p) = (i, st')"
    by (auto simp: spawn_ast_child_def split: if_splits)
  have "ast_typed st (ch_origin c) (ch_source c)" using assms(1) c by (simp add: store_typed_def)
  then have "ast_typed st (OAst depth) (Parent p)"
    using org c by (auto simp: ast_typed_def split: origin.splits)
  with c show ?thesis using n by (rule basic_new_chunk)
qed

lemma take_draft_Ok:
  assumes "take_draft_delta st i = Ok (d, st')"
  obtains c h where "cs_chunk st i = Some c" "ch_origin c = OBlock h None" "ch_body c = Writable d"
    "st' = put_chunk st i (c\<lparr>ch_body := Consumed\<rparr>)"
proof (cases "cs_chunk st i")
  case (Some c)
  show ?thesis
  proof (cases "ch_origin c")
    case (OBlock h ident)
    show ?thesis
    proof (cases ident)
      case None
      show ?thesis
      proof (cases "ch_body c")
        case (Writable delta)
        with assms Some OBlock None show ?thesis
          by (intro that [OF Some]) (auto simp: take_draft_delta_def)
      qed (use assms Some OBlock None in \<open>simp_all add: take_draft_delta_def take_writable_def\<close>)
    qed (use assms Some OBlock in \<open>simp add: take_draft_delta_def\<close>)
  qed (use assms Some in \<open>simp_all add: take_draft_delta_def\<close>)
qed (use assms in \<open>simp add: take_draft_delta_def with_chunk_def\<close>)

lemma basic_take:
  assumes "take_draft_delta st i = Ok (d, st')"
  shows "basic_step st st'"
  using assms by (rule take_draft_Ok) (simp add: basic_body body_next_def)

lemma chunk_step_basic:
  assumes "store_typed st" "chunk_step st st'"
  shows "basic_step\<^sup>*\<^sup>* st st'"
proof -
  have wf: "chunk_wf st" using assms(1) by (simp add: store_typed_def)
  have two: "basic_step\<^sup>*\<^sup>* st st'" if "\<exists>s. basic_step st s \<and> basic_step s st'"
    using that by (meson converse_rtranclp_into_rtranclp r_into_rtranclp)
  have one: "basic_step\<^sup>*\<^sup>* st st'" if "basic_step st st'" using that by blast
  from assms(2) show ?thesis
  proof cases
    case step_root then show ?thesis
      by (intro one) (auto simp: new_root_def Let_def intro: basic_new_disk)
  next
    case step_draft then show ?thesis
      by (intro one) (auto simp: block_draft_on_def intro!: basic_new_chunk)
  next
    case step_draft_disk then show ?thesis
      by (intro one) (auto simp: block_draft_on_disk_def new_chunk_def intro: basic_new_disk)
  next
    case step_exec then show ?thesis
      by (intro one) (auto simp: block_exec_on_def Let_def split: if_splits intro!: basic_new_chunk)
  next
    case step_tx then show ?thesis
      by (intro one) (auto simp: tx_on_def intro!: basic_new_chunk)
  next
    case step_spawn_tx then show ?thesis
      by (intro one) (auto simp: spawn_tx_child_def split: if_splits intro!: basic_new_chunk)
  next
    case step_spawn_ast then show ?thesis
      by (intro one) (rule basic_spawn_ast [OF assms(1)])
  next
    case step_commit then show ?thesis by (intro two) (rule basic_commit [OF wf])
  next
    case step_discard then show ?thesis
      by (intro one) (auto simp: discard_def body_next_def split: if_splits prod.splits option.splits
          intro!: basic_body)
  next
    case step_attach then show ?thesis by (intro two) (rule basic_attach [OF wf])
  next
    case step_remove then show ?thesis
      by (intro one) (auto simp: remove_block_child_def Let_def body_next_def intro!: basic_upd)
  next
    case step_take then show ?thesis
      by (intro one) (rule basic_take)
  next
    case step_promote then show ?thesis
      by (intro one) (auto simp: promote_to_root_def body_next_def split: if_splits source.splits
          intro!: basic_upd)
  next
    case step_set then show ?thesis by (intro one) (auto simp: chunk_set_def intro: basic_mutate)
  next
    case step_del then show ?thesis by (intro one) (auto simp: chunk_del_def intro: basic_mutate)
  next
    case step_log then show ?thesis by (intro one) (auto simp: emit_log_def intro: basic_mutate)
  next
    case step_drop then show ?thesis by (intro one) (simp add: basic_drop)
  next
    case step_disk then show ?thesis by (intro one) (simp add: basic_disk)
  qed
qed

text \<open>What a basic step does to chunk numbers: origins and finalised bodies stay, numbers are not reused.\<close>

definition keeps :: "chunk_store \<Rightarrow> chunk_store \<Rightarrow> bool" where
  "keeps st st' \<longleftrightarrow>
     cs_next st \<le> cs_next st' \<and>
     (\<forall>i<cs_next st. \<forall>c'. cs_chunk st' i = Some c' \<longrightarrow>
        (\<exists>c. cs_chunk st i = Some c \<and> ch_origin c' = ch_origin c \<and> body_next (ch_body c) (ch_body c')))"

lemma body_next_trans: "body_next a b \<Longrightarrow> body_next b c \<Longrightarrow> body_next a c"
  by (auto simp: body_next_def)

lemma keeps_refl: "keeps st st"
  by (simp add: keeps_def body_next_def)

lemma keepsD:
  assumes "keeps st st'" "i < cs_next st" "cs_chunk st' i = Some c'"
  obtains c where "cs_chunk st i = Some c" "ch_origin c' = ch_origin c" "body_next (ch_body c) (ch_body c')"
  using assms unfolding keeps_def by blast

lemma keeps_trans:
  assumes ab: "keeps a b" and bc: "keeps b c"
  shows "keeps a c"
  unfolding keeps_def
proof (intro conjI allI impI)
  show le: "cs_next a \<le> cs_next c" using ab bc by (simp add: keeps_def)
  fix i c' assume i: "i < cs_next a" and c': "cs_chunk c i = Some c'"
  have ib: "i < cs_next b" using i ab by (simp add: keeps_def)
  obtain cb where b: "cs_chunk b i = Some cb" "ch_origin c' = ch_origin cb" "body_next (ch_body cb) (ch_body c')"
    by (rule keepsD [OF bc ib c'])
  obtain ca where a: "cs_chunk a i = Some ca" "ch_origin cb = ch_origin ca" "body_next (ch_body ca) (ch_body cb)"
    by (rule keepsD [OF ab i b(1)])
  show "\<exists>ca. cs_chunk a i = Some ca \<and> ch_origin c' = ch_origin ca \<and> body_next (ch_body ca) (ch_body c')"
    using a b body_next_trans by auto
qed

lemma basic_keeps:
  assumes "basic_step st st'" "chunk_wf st"
  shows "keeps st st'"
  using assms(1)
proof cases
  case (basic_new src org body i)
  then show ?thesis by (auto simp: keeps_def body_next_def with_body_def Let_def)
next
  case (basic_upd i c c')
  then show ?thesis by (auto simp: keeps_def body_next_def)
next
  case (basic_drop i)
  then show ?thesis by (auto simp: keeps_def body_next_def drop_chunk_def)
next
  case (basic_disk f)
  then show ?thesis by (auto simp: keeps_def body_next_def)
qed

text \<open>The typing of chunk origins and of attached children is kept.\<close>

lemma ast_typed_keeps:
  assumes "keeps st st'" "ast_typed st org src" "\<And>p. src = Parent p \<Longrightarrow> p < cs_next st"
  shows "ast_typed st' org src"
  unfolding ast_typed_def
proof (intro allI impI)
  fix n assume "org = OAst n"
  with assms(2) obtain p where n: "0 < n" "n < 2 ^ 32" and src: "src = Parent p"
    and p: "\<And>pc. cs_chunk st p = Some pc \<Longrightarrow>
      (if n = 1 then \<exists>h. ch_origin pc = OTx h else ch_origin pc = OAst (n - 1))"
    unfolding ast_typed_def by blast
  have "if n = 1 then \<exists>h. ch_origin pc' = OTx h else ch_origin pc' = OAst (n - 1)"
    if pc': "cs_chunk st' p = Some pc'" for pc'
  proof -
    obtain pc where "cs_chunk st p = Some pc" "ch_origin pc' = ch_origin pc"
      by (rule keepsD [OF assms(1) assms(3) [OF src] pc'])
    with p [of pc] show ?thesis by simp
  qed
  with n src show "0 < n \<and> n < 2 ^ 32 \<and> (\<exists>p. src = Parent p \<and>
      (\<forall>pc. cs_chunk st' p = Some pc \<longrightarrow>
        (if n = 1 then \<exists>h. ch_origin pc = OTx h else ch_origin pc = OAst (n - 1))))"
    by blast
qed

lemma basic_source:
  assumes "basic_step st st'" "i < cs_next st" "cs_chunk st' i = Some c'"
  obtains c where "cs_chunk st i = Some c"
    "ch_source c' = ch_source c \<or> is_block (ch_origin c) \<and> (\<exists>d. ch_source c' = Disk d)"
  using assms(1)
proof cases
  case (basic_new src org body j)
  then show ?thesis using assms that by (auto simp: with_body_def Let_def)
next
  case (basic_upd j c c')
  then show ?thesis using assms that by (auto split: if_splits)
next
  case (basic_drop j)
  then show ?thesis using assms that by (auto simp: drop_chunk_def split: if_splits)
next
  case (basic_disk f)
  then show ?thesis using assms that by auto
qed

lemma attached_basic:
  assumes "basic_step st st'" "keeps st st'" "attached st i child"
  shows "attached st' i child"
proof -
  have lt: "i < child" "child < cs_next st" "child < cs_next st'"
    using assms(2,3) by (auto simp: attached_def keeps_def)
  have "\<exists>d h ident. ch_body cc' = Frozen d \<and> ch_origin cc' = OBlock h (Some ident) \<and>
      (ch_source cc' = Parent i \<or> (\<exists>disk. ch_source cc' = Disk disk))"
    if cc': "cs_chunk st' child = Some cc'" for cc'
  proof -
    obtain cc where cc: "cs_chunk st child = Some cc" "ch_origin cc' = ch_origin cc"
      "body_next (ch_body cc) (ch_body cc')"
      by (rule keepsD [OF assms(2) lt(2) cc'])
    moreover obtain d h ident where "ch_body cc = Frozen d" "ch_origin cc = OBlock h (Some ident)"
        "ch_source cc = Parent i \<or> (\<exists>disk. ch_source cc = Disk disk)"
      using assms(3) cc(1) unfolding attached_def by blast
    moreover have "ch_source cc' = ch_source cc \<or> (\<exists>d. ch_source cc' = Disk d)"
      using basic_source [OF assms(1) lt(2) cc'] cc(1) by (metis option.inject)
    ultimately show ?thesis by (auto simp: body_next_def)
  qed
  with lt show ?thesis by (simp add: attached_def)
qed

lemma basic_wf:
  assumes "basic_step st st'" "chunk_wf st"
  shows "chunk_wf st'"
  using assms(1)
proof cases
  case (basic_new src org body i)
  have "p < cs_next st" if "src = Parent p" for p
    using basic_new(1) [OF that] live_below_next [OF assms(2)] by blast
  then show ?thesis using chunk_wf_new [OF assms(2) _ basic_new(3)] by blast
next
  case (basic_upd i c c')
  then show ?thesis using chunk_wf_put [OF assms(2) basic_upd(2)] by blast
next
  case (basic_drop i)
  then show ?thesis using assms(2) by (auto simp: chunk_wf_def drop_chunk_def split: if_splits)
next
  case (basic_disk f)
  then show ?thesis using assms(2) by (simp add: chunk_wf_def)
qed

lemma basic_children:
  assumes "basic_step st st'" "store_typed st" "i < cs_next st" "cs_chunk st' i = Some c'"
    "child \<in> set (ch_children c')"
  shows "attached st i child"
proof -
  have wf: "chunk_wf st" and at: "\<And>i c child. cs_chunk st i = Some c \<Longrightarrow> child \<in> set (ch_children c) \<Longrightarrow> attached st i child"
    using assms(2) by (auto simp: store_typed_def)
  show ?thesis
    using assms(1)
  proof cases
    case (basic_new src org body j)
    then show ?thesis using assms at by (auto simp: with_body_def Let_def)
  next
    case (basic_upd j c c2)
    show ?thesis
    proof (cases "i = j \<and> child \<notin> set (ch_children c)")
      case True
      then have "child \<in> set (ch_children c2)" using assms(4,5) basic_upd(1) by simp
      then obtain cc d h ident where cc: "cs_chunk st child = Some cc" "ch_body cc = Frozen d"
        "ch_origin cc = OBlock h (Some ident)" "ch_source cc = Parent i"
        using basic_upd(6) [of child] True by blast
      then show ?thesis
        using chunk_wfD [OF wf cc(1)] by (simp add: attached_def)
    next
      case False
      then show ?thesis using assms at basic_upd by (auto split: if_splits)
    qed
  next
    case (basic_drop j)
    then show ?thesis using assms at by (auto simp: drop_chunk_def split: if_splits)
  next
    case (basic_disk f)
    then show ?thesis using assms at by auto
  qed
qed

lemma basic_fresh:
  assumes "basic_step st st'" "chunk_wf st" "\<not> i < cs_next st" "cs_chunk st' i = Some c'"
  shows "ch_children c' = []" "ast_typed st (ch_origin c') (ch_source c')"
    "ch_source c' = Parent p \<Longrightarrow> p < cs_next st"
proof -
  have no: "cs_chunk st i = None" using assms(2,3) by (cases "cs_chunk st i") (auto dest: live_below_next)
  have "ch_children c' = [] \<and> ast_typed st (ch_origin c') (ch_source c') \<and>
    (\<forall>p. ch_source c' = Parent p \<longrightarrow> p < cs_next st)"
    using assms(1)
  proof cases
    case (basic_new src org body j)
    have "p < cs_next st" if "src = Parent p" for p
      using basic_new(1) [OF that] live_below_next [OF assms(2)] by blast
    then show ?thesis
      using basic_new(2,3) assms(4) no by (auto simp: with_body_def Let_def split: if_splits)
  next
    case (basic_upd j c c2)
    then show ?thesis using assms(4) no by (auto split: if_splits)
  next
    case (basic_drop j)
    then show ?thesis using assms(4) no by (auto simp: drop_chunk_def split: if_splits)
  next
    case (basic_disk f)
    then show ?thesis using assms(4) no by auto
  qed
  then show "ch_children c' = []" "ast_typed st (ch_origin c') (ch_source c')"
    "ch_source c' = Parent p \<Longrightarrow> p < cs_next st" by auto
qed

lemma basic_typed:
  assumes step: "basic_step st st'" and ty: "store_typed st"
  shows "store_typed st'"
proof -
  have wf: "chunk_wf st" using ty by (simp add: store_typed_def)
  have k: "keeps st st'" using step wf by (rule basic_keeps)
  have "ast_typed st' (ch_origin c') (ch_source c') \<and> (\<forall>child\<in>set (ch_children c'). attached st' i child)"
    if c': "cs_chunk st' i = Some c'" for i c'
  proof (cases "i < cs_next st")
    case True
    obtain c where c: "cs_chunk st i = Some c"
      "ch_source c' = ch_source c \<or> is_block (ch_origin c) \<and> (\<exists>d. ch_source c' = Disk d)"
      by (rule basic_source [OF step True c'])
    have org: "ch_origin c' = ch_origin c"
      using keepsD [OF k True c'] c(1) by (metis option.inject)
    have "ast_typed st (ch_origin c) (ch_source c)" using ty c(1) by (simp add: store_typed_def)
    then have "ast_typed st (ch_origin c) (ch_source c')"
      using c(2) by (cases "ch_origin c") (simp_all add: is_block_def)
    moreover have "p < cs_next st" if "ch_source c' = Parent p" for p
      using that c chunk_wfD [OF wf c(1)] by fastforce
    ultimately have "ast_typed st' (ch_origin c') (ch_source c')"
      unfolding org using ast_typed_keeps [OF k] by blast
    then show ?thesis
      using basic_children [OF step ty True c'] attached_basic [OF step k] by blast
  next
    case False
    note f = basic_fresh [OF step wf False c']
    show ?thesis using ast_typed_keeps [OF k f(2) f(3)] f(1) by simp
  qed
  with basic_wf [OF step wf] show ?thesis by (simp add: store_typed_def)
qed

lemma basics_typed_keeps:
  "basic_step\<^sup>*\<^sup>* st st' \<Longrightarrow> store_typed st \<Longrightarrow> store_typed st' \<and> keeps st st'"
proof (induction rule: rtranclp_induct)
  case (step y z)
  then show ?case
    using basic_typed basic_keeps keeps_trans unfolding store_typed_def by blast
qed (simp add: keeps_refl)

lemma steps_typed_keeps:
  "chunk_step\<^sup>*\<^sup>* st st' \<Longrightarrow> store_typed st \<Longrightarrow> store_typed st' \<and> keeps st st'"
proof (induction rule: rtranclp_induct)
  case (step y z)
  then show ?case using chunk_step_basic basics_typed_keeps keeps_trans by blast
qed (simp add: keeps_refl)

lemma store_typed_empty: "store_typed (cs_empty disks)"
  by (simp add: store_typed_def chunk_wf_def cs_empty_def)

lemma chunk_reach_typed: "chunk_reach st \<Longrightarrow> store_typed st"
  unfolding chunk_reach_def using steps_typed_keeps store_typed_empty by blast

lemma chunk_reach_wf: "chunk_reach st \<Longrightarrow> chunk_wf st"
  using chunk_reach_typed by (simp add: store_typed_def)

lemma chunk_reach_step: "chunk_reach st \<Longrightarrow> chunk_step st st' \<Longrightarrow> chunk_reach st'"
  unfolding chunk_reach_def by (meson rtranclp.rtrancl_into_rtrancl)

lemma chunk_reach_empty: "chunk_reach (cs_empty disks)"
  by (auto simp: chunk_reach_def)

lemma finalised_stays:
  assumes "chunk_reach st" "chunk_step\<^sup>*\<^sup>* st st'" "cs_chunk st i = Some c" "\<not> is_writable c"
    "cs_chunk st' i = Some c'"
  shows "ch_body c' = ch_body c" "ch_origin c' = ch_origin c"
proof -
  have ty: "store_typed st" using assms(1) by (rule chunk_reach_typed)
  have k: "keeps st st'" using steps_typed_keeps [OF assms(2) ty] by blast
  have i: "i < cs_next st" using chunk_reach_wf [OF assms(1)] assms(3) by (rule live_below_next)
  obtain c0 where "cs_chunk st i = Some c0" "ch_origin c' = ch_origin c0" "body_next (ch_body c0) (ch_body c')"
    by (rule keepsD [OF k i assms(5)])
  then show "ch_body c' = ch_body c" "ch_origin c' = ch_origin c"
    using assms(3,4) by (auto simp: body_next_def is_writable_def)
qed

section \<open>A transaction is atomic\<close>

text \<open>
  A block chunk runs a transaction in a child chunk: \<open>spawn_tx_child\<close>, any writes on the child, then
  \<open>commit_to_parent\<close> or \<open>discard\<close>.
\<close>

definition tx_writes :: "kv_write list \<Rightarrow> nat \<Rightarrow> chunk_store \<Rightarrow> chunk_store ret" where
  "tx_writes ws t = run_writes (\<lambda>st. chunk_set st t) (\<lambda>st. chunk_del st t) ws"

lemma tx_writes_spec:
  assumes wf: "chunk_wf st" and sp: "spawn_tx_child st b tx_hash = Ok (t, st1)"
  obtains st2 d where "tx_writes ws t st1 = Ok st2" "chunk_wf st2" "b < t"
    "chunk_view st2 t = apply_writes ws (chunk_view st b)"
    "chunk_view st2 b = chunk_view st b" "cs_chunk st2 b = cs_chunk st b"
    "cs_chunk st2 t = Some \<lparr>ch_origin = OTx tx_hash, ch_source = Parent b, ch_body = Writable d, ch_children = []\<rparr>"
    "dl_tx_hashes d = []"
proof -
  note s = spawn_tx_spec [OF wf sp]
  have t: "cs_chunk st1 t = Some \<lparr>ch_origin = OTx tx_hash, ch_source = Parent b,
      ch_body = Writable delta_default, ch_children = []\<rparr>" using s(6) by simp
  have "writing t st1 st1" by (rule writing_refl [OF s(1) t]) simp
  then obtain st2 where st2: "tx_writes ws t st1 = Ok st2" "writing t st1 st2"
    "chunk_view st2 t = apply_writes ws (chunk_view st1 t)"
    using chunk_layer.run_spec [of t st1 st1 ws] unfolding tx_writes_def by blast
  then obtain d where d: "st2 = put_chunk st1 t \<lparr>ch_origin = OTx tx_hash, ch_source = Parent b,
      ch_body = Writable d, ch_children = []\<rparr>" "dl_tx_hashes d = []" "chunk_wf st2"
    unfolding writing_def using t by (auto simp: delta_default_def)
  show ?thesis
    by (rule that [OF st2(1) d(3) s(2)])
      (use st2(3) s d writing_older [OF s(1) st2(2) s(2)] in auto)
qed

lemma parent_of_child:
  assumes "cs_chunk st b = Some bc" "ch_source c = Parent b"
  shows "parent st c = Some b"
  using assms by (simp add: parent_def)

lemma tx_commit_atomic:
  assumes wf: "chunk_wf st" and sp: "spawn_tx_child st b tx_hash = Ok (t, st1)"
  shows "\<exists>st2 st3. tx_writes ws t st1 = Ok st2 \<and> chunk_view st2 b = chunk_view st b \<and>
    commit_to_parent st2 t = Ok (b, st3) \<and> chunk_view st3 b = apply_writes ws (chunk_view st b)"
proof -
  obtain st2 d where st2: "tx_writes ws t st1 = Ok st2" "chunk_wf st2" "b < t"
    "chunk_view st2 t = apply_writes ws (chunk_view st b)"
    "chunk_view st2 b = chunk_view st b" "cs_chunk st2 b = cs_chunk st b"
    "cs_chunk st2 t = Some \<lparr>ch_origin = OTx tx_hash, ch_source = Parent b, ch_body = Writable d, ch_children = []\<rparr>"
    by (rule tx_writes_spec [OF wf sp, of ws])
  obtain bc bd where bc: "cs_chunk st b = Some bc" "is_block (ch_origin bc)" "ch_body bc = Writable bd"
    using spawn_tx_spec(5) [OF wf sp] by blast
  have "commit_pair_ok (OTx tx_hash) (ch_origin bc)"
    using bc(2) by (cases "ch_origin bc") (auto simp: commit_pair_ok_def is_block_def)
  then obtain st3 where st3: "commit_to_parent st2 t = Ok (b, st3)"
    using st2(6,7) bc by (simp add: commit_to_parent_def is_exec_def parent_def)
  have "chunk_view st3 b = apply_writes ws (chunk_view st b)"
    using commit_spec(2) [OF st2(2) st3] st2(4) by simp
  with st2(1,5) st3 show ?thesis by blast
qed

lemma tx_discard_atomic:
  assumes wf: "chunk_wf st" and sp: "spawn_tx_child st b tx_hash = Ok (t, st1)"
  shows "\<exists>st2 st3. tx_writes ws t st1 = Ok st2 \<and> discard st2 t = Ok st3 \<and>
    chunk_view st3 b = chunk_view st b \<and> cs_chunk st3 b = cs_chunk st b"
proof -
  obtain st2 d where st2: "tx_writes ws t st1 = Ok st2" "chunk_wf st2" "b < t"
    "chunk_view st2 t = apply_writes ws (chunk_view st b)"
    "chunk_view st2 b = chunk_view st b" "cs_chunk st2 b = cs_chunk st b"
    "cs_chunk st2 t = Some \<lparr>ch_origin = OTx tx_hash, ch_source = Parent b, ch_body = Writable d, ch_children = []\<rparr>"
    by (rule tx_writes_spec [OF wf sp, of ws])
  then obtain st3 where st3: "discard st2 t = Ok st3" "cs_chunk st3 b = cs_chunk st2 b"
    by (simp add: discard_def is_exec_def)
  have "chunk_view st3 b = chunk_view st b"
    using discard_spec(2) [OF st2(2) st3(1) st2(3)] st2(5) by simp
  with st2(1,6) st3 show ?thesis by auto
qed

end
