(* ===== verification/ForkTree.thy ===== *)
theory ForkTree
  imports ChunkProps
begin

text \<open>
  The fork tree, \<^verbatim>\<open>src/chain/src/tree.rs\<close>, and the root advance of \<^verbatim>\<open>chain/src/persist.rs\<close>. The tree is
  three chunk references over a chunk store: the durable root, the scheduled root and the head.
  Every method runs under the tree lock, so a method is one state transformer. Loops that follow
  links of the store are partial functions, with \<open>None\<close> for a loop that does not return;
  \<open>ForkTreeProps\<close> shows that on the stores the node builds they return. Heights are natural numbers:
  the 64-bit counter is not near its end on any chain.
\<close>

named_theorems tree_defs \<open>definitions of the fork tree operations\<close>

section \<open>Results of loops\<close>

definition bind_ro :: "'a ret option \<Rightarrow> ('a \<Rightarrow> 'b ret option) \<Rightarrow> 'b ret option" where
  "bind_ro m f =
     (case m of None \<Rightarrow> None | Some (Inl e) \<Rightarrow> Some (Inl e) | Some (Inr x) \<Rightarrow> f x)"

lemma bind_ro_simps [simp]:
  "bind_ro None f = None" "bind_ro (Some (Inl e)) f = Some (Inl e)" "bind_ro (Some (Inr x)) f = f x"
  by (simp_all add: bind_ro_def)

lemma bind_ro_Ok [simp]:
  "bind_ro m f = Some (Inr y) \<longleftrightarrow> (\<exists>x. m = Some (Inr x) \<and> f x = Some (Inr y))"
  by (auto simp: bind_ro_def split: option.split sum.split)

text \<open>\<^verbatim>\<open>expect\<close>: an error becomes a panic.\<close>

definition expect :: "'a ret \<Rightarrow> string \<Rightarrow> 'a ret" where
  "expect m msg = (case m of Inl _ \<Rightarrow> panicf msg | Inr x \<Rightarrow> Ok x)"

lemma expect_Ok [simp]: "expect m msg = Inr x \<longleftrightarrow> m = Inr x"
  by (auto simp: expect_def split: sum.split)

section \<open>Data\<close>

record tree_inner =
  ft_root :: nat
  ft_scheduled_root :: nat
  ft_head :: nat
  ft_epoch :: nat

record tx_diff =
  td_confirmed :: "bytes list"
  td_reverted :: "bytes list"

record roll_job =
  rj_expected_root_hash :: bytes
  rj_expected_root_height :: nat
  rj_new_root :: nat
  rj_chain :: "nat list"

record inserted =
  ins_is_head :: bool
  ins_reorg :: bool
  ins_roll :: "roll_job option"
  ins_confirmed_txs :: "bytes list"
  ins_reverted_txs :: "bytes list"

definition height_of :: "chunk_store \<Rightarrow> nat \<Rightarrow> nat ret" where
  "height_of st i =
     with_chunk st i (\<lambda>c. expect (block_height c) ''fork tree contains a non-block chunk'')"

definition identity_of :: "chunk_store \<Rightarrow> nat \<Rightarrow> block_identity ret" where
  "identity_of st i =
     with_chunk st i (\<lambda>c. expect (block_identity_of c) ''fork tree contains an unidentified block'')"

definition hash_of :: "chunk_store \<Rightarrow> nat \<Rightarrow> bytes ret" where
  "hash_of st i = try_ret (identity_of st i) (\<lambda>ident. Ok (bid_hash ident))"

definition fork_key_of :: "chunk_store \<Rightarrow> nat \<Rightarrow> fork_choice_key ret" where
  "fork_key_of st i = try_ret (identity_of st i) (\<lambda>ident. Ok (bid_fork_choice ident))"

definition parent_of :: "chunk_store \<Rightarrow> nat \<Rightarrow> nat option ret" where
  "parent_of st i = with_chunk st i (\<lambda>c. Ok (parent st c))"

definition children_of :: "chunk_store \<Rightarrow> nat \<Rightarrow> nat list ret" where
  "children_of st i = with_chunk st i (\<lambda>c. Ok (ch_children c))"

definition root_chunk :: "chunk_store \<Rightarrow> nat \<Rightarrow> block_ref \<Rightarrow> nat \<times> chunk_store" where
  "root_chunk st disk block = new_root st disk block"

definition tree_new :: "chunk_store \<Rightarrow> nat \<Rightarrow> block_ref \<Rightarrow> tree_inner \<times> chunk_store" where
  "tree_new st disk root_block =
     (let (root, st') = root_chunk st disk root_block
      in (\<lparr>ft_root = root, ft_scheduled_root = root, ft_head = root, ft_epoch = 0\<rparr>, st'))"

definition wrapping_add64 :: "nat \<Rightarrow> nat \<Rightarrow> nat" where
  "wrapping_add64 a b = (a + b) mod 2 ^ 64"

definition saturating_add64 :: "nat \<Rightarrow> nat \<Rightarrow> nat" where
  "saturating_add64 a b = min (a + b) (2 ^ 64 - 1)"

definition reset_root ::
  "tree_inner \<Rightarrow> chunk_store \<Rightarrow> nat \<Rightarrow> block_ref \<Rightarrow> tree_inner \<times> chunk_store" where
  "reset_root t st disk root_block =
     (let (root, st') = root_chunk st disk root_block
      in (\<lparr>ft_root = root, ft_scheduled_root = root, ft_head = root,
           ft_epoch = wrapping_add64 (ft_epoch t) 1\<rparr>, st'))"

definition root_height :: "tree_inner \<Rightarrow> chunk_store \<Rightarrow> nat ret" where
  "root_height t st = height_of st (ft_root t)"

definition head_height :: "tree_inner \<Rightarrow> chunk_store \<Rightarrow> nat ret" where
  "head_height t st = height_of st (ft_head t)"

definition head_tip :: "tree_inner \<Rightarrow> chunk_store \<Rightarrow> (bytes \<times> nat) ret" where
  "head_tip t st =
     try_ret (hash_of st (ft_head t)) (\<lambda>hash.
     try_ret (height_of st (ft_head t)) (\<lambda>height. Ok (hash, height)))"

definition head_fork_choice :: "tree_inner \<Rightarrow> chunk_store \<Rightarrow> fork_choice_key ret" where
  "head_fork_choice t st = fork_key_of st (ft_head t)"

definition head_snapshot ::
  "tree_inner \<Rightarrow> chunk_store \<Rightarrow> (bytes \<times> nat \<times> nat \<times> nat \<times> nat) ret" where
  "head_snapshot t st =
     try_ret (hash_of st (ft_head t)) (\<lambda>hash.
     try_ret (height_of st (ft_head t)) (\<lambda>height.
     Ok (hash, height, ft_epoch t, ft_head t, ft_root t)))"

section \<open>Lookup\<close>

text \<open>The stack is a list with its top first; \<^verbatim>\<open>extend\<close> leaves the last child on top.\<close>

partial_function (option) find_loop ::
  "chunk_store \<Rightarrow> bytes \<Rightarrow> nat list \<Rightarrow> nat option ret option" where
  "find_loop st hash stack =
     (case stack of
        [] \<Rightarrow> Some (Ok None)
      | node # rest \<Rightarrow>
          (case hash_of st node of
             Inl e \<Rightarrow> Some (Inl e)
           | Inr h \<Rightarrow>
               if h = hash then Some (Ok (Some node))
               else (case children_of st node of
                  Inl e \<Rightarrow> Some (Inl e)
                | Inr cs \<Rightarrow> find_loop st hash (rev cs @ rest))))"

definition tree_find :: "tree_inner \<Rightarrow> chunk_store \<Rightarrow> bytes \<Rightarrow> nat option ret option" where
  "tree_find t st hash =
     bind_ro (Some (hash_of st (ft_head t))) (\<lambda>h.
     if h = hash then Some (Ok (Some (ft_head t)))
     else find_loop st hash [ft_root t])"

definition contains :: "tree_inner \<Rightarrow> chunk_store \<Rightarrow> bytes \<Rightarrow> bool ret option" where
  "contains t st hash = bind_ro (tree_find t st hash) (\<lambda>r. Some (Ok (r \<noteq> None)))"

definition block_context ::
  "tree_inner \<Rightarrow> chunk_store \<Rightarrow> bytes \<Rightarrow> (block_ref \<times> fork_choice_key) option ret option" where
  "block_context t st hash =
     bind_ro (tree_find t st hash) (\<lambda>r.
     case r of
       None \<Rightarrow> Some (Ok None)
     | Some p \<Rightarrow>
         Some (try_ret (identity_of st p) (\<lambda>ident.
           Ok (Some (bid_block ident, bid_fork_choice ident)))))"

definition snapshot_at ::
  "tree_inner \<Rightarrow> chunk_store \<Rightarrow> bytes \<Rightarrow> (nat \<times> nat \<times> nat) option ret option" where
  "snapshot_at t st hash =
     bind_ro (tree_find t st hash) (\<lambda>r.
     case r of
       None \<Rightarrow> Some (Ok None)
     | Some tip \<Rightarrow> Some (try_ret (height_of st tip) (\<lambda>height. Ok (Some (tip, ft_root t, height)))))"

partial_function (option) branch_loop ::
  "chunk_store \<Rightarrow> nat \<Rightarrow> nat \<Rightarrow> block_ref list \<Rightarrow> block_ref list option ret option" where
  "branch_loop st root cursor blocks =
     (case identity_of st cursor of
        Inl e \<Rightarrow> Some (Inl e)
      | Inr ident \<Rightarrow>
          let blocks' = blocks @ [bid_block ident]
          in if cursor = root then Some (Ok (Some (rev blocks')))
             else (case parent_of st cursor of
                Inl e \<Rightarrow> Some (Inl e)
              | Inr None \<Rightarrow> Some (Ok None)
              | Inr (Some p) \<Rightarrow> branch_loop st root p blocks'))"

definition branch_blocks :: "tree_inner \<Rightarrow> chunk_store \<Rightarrow> bytes \<Rightarrow> block_ref list option ret option" where
  "branch_blocks t st hash =
     bind_ro (tree_find t st hash) (\<lambda>r.
     case r of None \<Rightarrow> Some (Ok None) | Some cursor \<Rightarrow> branch_loop st (ft_root t) cursor [])"

fun back_loop :: "chunk_store \<Rightarrow> nat \<Rightarrow> nat \<Rightarrow> (nat \<times> bytes) list \<Rightarrow> (nat \<times> bytes) list ret" where
  "back_loop st 0 cursor out = Ok out"
| "back_loop st (Suc depth) cursor out =
     try_ret (height_of st cursor) (\<lambda>height.
     try_ret (hash_of st cursor) (\<lambda>hash.
     try_ret (parent_of st cursor) (\<lambda>p.
     case p of
       Some par \<Rightarrow> back_loop st depth par (out @ [(height, hash)])
     | None \<Rightarrow> Ok (out @ [(height, hash)]))))"

definition back_hashes :: "tree_inner \<Rightarrow> chunk_store \<Rightarrow> nat \<Rightarrow> (nat \<times> bytes) list ret" where
  "back_hashes t st depth = back_loop st depth (ft_head t) []"

definition begin_block_execution_pinned ::
  "tree_inner \<Rightarrow> chunk_store \<Rightarrow> bytes \<Rightarrow> block_ref \<Rightarrow> fork_choice_key \<Rightarrow>
     ((nat \<times> nat \<times> nat) option \<times> chunk_store) ret option" where
  "begin_block_execution_pinned t st parent_hash block fork_choice =
     bind_ro (tree_find t st parent_hash) (\<lambda>r.
     case r of
       None \<Rightarrow> Some (Ok (None, st))
     | Some par \<Rightarrow>
         Some (try_ret (height_of st par) (\<lambda>ph.
           if blk_height block \<noteq> ph + 1 then errf ''block height does not follow parent height''
           else if blk_prev_hash block \<noteq> parent_hash
           then errf ''block does not reference execution parent''
           else try_ret (block_exec_on st par block fork_choice) (\<lambda>(chunk, st').
             Ok (Some (chunk, par, ft_root t), st')))))"

section \<open>Transaction membership of two tips\<close>

text \<open>
  The loop \<^verbatim>\<open>while height_of(&cursor) > target { branch.push(cursor.clone()); cursor = parent }\<close>,
  which the code writes three times with its own failure for a missing parent.
\<close>

partial_function (option) collect_above ::
  "chunk_store \<Rightarrow> error \<Rightarrow> nat \<Rightarrow> nat \<Rightarrow> nat list \<Rightarrow> (nat \<times> nat list) ret option" where
  "collect_above st fail target cursor branch =
     (case height_of st cursor of
        Inl e \<Rightarrow> Some (Inl e)
      | Inr h \<Rightarrow>
          if \<not> target < h then Some (Ok (cursor, branch))
          else (case parent_of st cursor of
             Inl e \<Rightarrow> Some (Inl e)
           | Inr None \<Rightarrow> Some (Inl fail)
           | Inr (Some p) \<Rightarrow> collect_above st fail target p (branch @ [cursor])))"

partial_function (option) diff_join ::
  "chunk_store \<Rightarrow> nat \<Rightarrow> nat \<Rightarrow> nat list \<Rightarrow> nat list \<Rightarrow> (nat list \<times> nat list) ret option" where
  "diff_join st old new old_branch new_branch =
     (if old = new then Some (Ok (old_branch, new_branch))
      else (case parent_of st old of
         Inl e \<Rightarrow> Some (Inl e)
       | Inr None \<Rightarrow> Some (panicf ''old canonical branch must reach the common ancestor'')
       | Inr (Some po) \<Rightarrow>
           (case parent_of st new of
              Inl e \<Rightarrow> Some (Inl e)
            | Inr None \<Rightarrow> Some (panicf ''new canonical branch must reach the common ancestor'')
            | Inr (Some pn) \<Rightarrow>
                diff_join st po pn (old_branch @ [old]) (new_branch @ [new]))))"

fun branch_txs :: "chunk_store \<Rightarrow> nat list \<Rightarrow> bytes list ret" where
  "branch_txs st [] = Ok []"
| "branch_txs st (i # is) =
     with_chunk st i (\<lambda>c. try_ret (branch_txs st is) (\<lambda>txs. Ok (block_tx_hashes c @ txs)))"

definition canonical_tx_diff :: "chunk_store \<Rightarrow> nat \<Rightarrow> nat \<Rightarrow> tx_diff ret option" where
  "canonical_tx_diff st old_head new_head =
     bind_ro (Some (height_of st new_head)) (\<lambda>nh.
     bind_ro (collect_above st (Panic ''old canonical branch must reach the fork point'') nh old_head [])
       (\<lambda>(old, old_branch).
     bind_ro (Some (height_of st old)) (\<lambda>oh.
     bind_ro (collect_above st (Panic ''new canonical branch must reach the fork point'') oh new_head [])
       (\<lambda>(new, new_branch).
     bind_ro (diff_join st old new old_branch new_branch) (\<lambda>(old_branch, new_branch).
     Some (
       try_ret (branch_txs st (rev old_branch)) (\<lambda>old_txs.
       try_ret (branch_txs st (rev new_branch)) (\<lambda>new_txs.
       Ok \<lparr>td_confirmed = filter (\<lambda>h. h \<notin> set old_txs) new_txs,
           td_reverted = filter (\<lambda>h. h \<notin> set new_txs) old_txs\<rparr>))))))))"

section \<open>Root advances\<close>

definition wrapping_sub64 :: "nat \<Rightarrow> nat \<Rightarrow> nat" where
  "wrapping_sub64 a b = (if b \<le> a then a - b else a + 2 ^ 64 - b)"

fun validate_chain :: "chunk_store \<Rightarrow> nat \<Rightarrow> nat list \<Rightarrow> nat ret" where
  "validate_chain st prev [] = Ok prev"
| "validate_chain st prev (chunk # rest) =
     try_ret (height_of st chunk) (\<lambda>h.
     try_ret (height_of st prev) (\<lambda>ph.
     if h \<noteq> ph + 1 then errf ''root roll chain height jumps''
     else try_ret (parent_of st chunk) (\<lambda>par.
       case par of
         None \<Rightarrow> errf ''root roll chain chunk has no durable parent''
       | Some p \<Rightarrow>
           if p \<noteq> prev then errf ''root roll chain breaks between heights''
           else validate_chain st chunk rest)))"

partial_function (option) validate_head_path ::
  "chunk_store \<Rightarrow> nat \<Rightarrow> nat \<Rightarrow> unit ret option" where
  "validate_head_path st nroot cursor =
     (if cursor = nroot then Some (Ok ())
      else (case height_of st cursor of
         Inl e \<Rightarrow> Some (Inl e)
       | Inr h \<Rightarrow>
           (case height_of st nroot of
              Inl e \<Rightarrow> Some (Inl e)
            | Inr nh \<Rightarrow>
                if h \<le> nh then Some (errf ''root roll new root is not on the canonical head path'')
                else (case parent_of st cursor of
                   Inl e \<Rightarrow> Some (Inl e)
                 | Inr None \<Rightarrow>
                     Some (errf ''canonical head branch broken while validating root roll'')
                 | Inr (Some p) \<Rightarrow> validate_head_path st nroot p))))"

definition validate_roll :: "tree_inner \<Rightarrow> chunk_store \<Rightarrow> roll_job \<Rightarrow> unit ret option" where
  "validate_roll t st job =
     bind_ro (Some (hash_of st (ft_root t))) (\<lambda>current_hash.
     bind_ro (Some (height_of st (ft_root t))) (\<lambda>current_height.
     if current_hash \<noteq> rj_expected_root_hash job \<or> current_height \<noteq> rj_expected_root_height job
     then Some (errf ''root roll out of order'')
     else if rj_chain job = [] then Some (errf ''root roll has an empty state chain'')
     else bind_ro (Some (height_of st (rj_new_root job))) (\<lambda>nh.
       if length (rj_chain job) \<noteq> wrapping_sub64 nh current_height
       then Some (errf ''root roll chain length does not span heights'')
       else bind_ro (Some (validate_chain st (ft_root t) (rj_chain job))) (\<lambda>prev.
         if prev \<noteq> rj_new_root job
         then Some (errf ''root roll chain does not end at the new root'')
         else validate_head_path st (rj_new_root job) (ft_head t)))))"

partial_function (option) roll_descend :: "chunk_store \<Rightarrow> nat \<Rightarrow> nat \<Rightarrow> nat ret option" where
  "roll_descend st target cursor =
     (case height_of st cursor of
        Inl e \<Rightarrow> Some (Inl e)
      | Inr h \<Rightarrow>
          if \<not> target < h then Some (Ok cursor)
          else (case parent_of st cursor of
             Inl e \<Rightarrow> Some (Inl e)
           | Inr None \<Rightarrow> Some (errf ''fork tree branch broken while planning root roll'')
           | Inr (Some p) \<Rightarrow> roll_descend st target p))"

definition plan_roll_from ::
  "tree_inner \<Rightarrow> chunk_store \<Rightarrow> nat \<Rightarrow> nat \<Rightarrow> roll_job ret option" where
  "plan_roll_from t st head new_root_height =
     bind_ro (Some (height_of st (ft_scheduled_root t))) (\<lambda>old_root_height.
     if new_root_height \<le> old_root_height then Some (errf ''scheduled root must advance'')
     else
       bind_ro (roll_descend st new_root_height head) (\<lambda>nroot.
       bind_ro (collect_above st
         (Error Fault ''fork tree branch broken while planning root roll'' None) old_root_height nroot []) (\<lambda>(cursor, chain).
       if cursor \<noteq> ft_scheduled_root t
       then Some (errf ''new head does not descend from the scheduled root'')
       else Some (try_ret (hash_of st (ft_scheduled_root t)) (\<lambda>hash.
         Ok \<lparr>rj_expected_root_hash = hash, rj_expected_root_height = old_root_height,
             rj_new_root = nroot, rj_chain = rev chain\<rparr>)))))"

definition commit_roll ::
  "tree_inner \<Rightarrow> chunk_store \<Rightarrow> roll_job \<Rightarrow> (tree_inner \<times> chunk_store) ret option" where
  "commit_roll t st job =
     bind_ro (validate_roll t st job) (\<lambda>_.
     bind_ro (Some (with_chunk st (ft_root t) (\<lambda>c.
        ok_or (chunk_disk c) (Error Fault ''durable root is not disk-backed'' None)))) (\<lambda>disk.
     bind_ro (Some (promote_to_root st (rj_new_root job) disk)) (\<lambda>st'.
     let t' = t\<lparr>ft_root := rj_new_root job\<rparr>
     in bind_ro (Some (hash_of st' (ft_head t'))) (\<lambda>hh.
        bind_ro (tree_find t' st' hh) (\<lambda>r.
        if r = None
        then Some (errf ''root roll pruned the canonical head; engine state is inconsistent'')
        else Some (Ok (t', st')))))))"

section \<open>Attaching blocks\<close>

definition attach_inner ::
  "tree_inner \<Rightarrow> chunk_store \<Rightarrow> bytes \<Rightarrow> nat \<Rightarrow> nat \<Rightarrow> bool \<Rightarrow>
     (inserted \<times> tree_inner \<times> chunk_store) ret option" where
  "attach_inner t st parent_hash chunk unstable_window linear =
     bind_ro (Some (with_chunk st chunk block_height)) (\<lambda>height.
     bind_ro (Some (with_chunk st chunk block_identity_of)) (\<lambda>ident.
     bind_ro (tree_find t st parent_hash) (\<lambda>r.
     case r of
       None \<Rightarrow> Some (errf ''parent block not in tree'')
     | Some par \<Rightarrow>
     bind_ro (Some (height_of st par)) (\<lambda>ph.
     if height \<noteq> ph + 1 then Some (errf ''block height does not follow parent height'')
     else bind_ro (tree_find t st (bid_hash ident)) (\<lambda>dup.
     if dup \<noteq> None then Some (errf ''block already in tree'')
     else if linear \<and> par \<noteq> ft_head t
     then Some (errf ''fast-sync block parent is not the canonical head'')
     else bind_ro (Some (parent_of st chunk)) (\<lambda>cp.
     if cp = None then Some (errf ''block has no execution parent'')
     else if cp \<noteq> Some par then Some (errf ''block execution parent does not match'')
     else bind_ro (Some (fork_key_of st (ft_head t))) (\<lambda>head_key.
     let is_head = fck_less head_key (bid_fork_choice ident);
         reorg = (is_head \<and> par \<noteq> ft_head t)
     in if linear \<and> (\<not> is_head \<or> reorg)
        then Some (errf ''fast-sync block is not a linear head extension'')
        else bind_ro (Some (height_of st (ft_scheduled_root t))) (\<lambda>scheduled_height.
        let over_window =
              (if linear then saturating_add64 scheduled_height unstable_window \<le> height
               else saturating_add64 scheduled_height unstable_window < height);
            step = (if linear then unstable_window else 1)
        in bind_ro
             (if is_head \<and> over_window
              then bind_ro (plan_roll_from t st chunk (scheduled_height + step)) (\<lambda>job. Some (Ok (Some job)))
              else Some (Ok None)) (\<lambda>roll.
           bind_ro (Some (attach_block_child st par chunk)) (\<lambda>st'.
           bind_ro
             (if is_head then canonical_tx_diff st' (ft_head t) chunk
              else Some (Ok \<lparr>td_confirmed = [], td_reverted = []\<rparr>)) (\<lambda>diff.
           let t' = (if is_head
                     then t\<lparr>ft_head := chunk, ft_epoch := wrapping_add64 (ft_epoch t) 1,
                            ft_scheduled_root := (case roll of
                              Some job \<Rightarrow> rj_new_root job | None \<Rightarrow> ft_scheduled_root t)\<rparr>
                     else t)
           in Some (Ok (\<lparr>ins_is_head = is_head, ins_reorg = reorg, ins_roll = roll,
                 ins_confirmed_txs = td_confirmed diff, ins_reverted_txs = td_reverted diff\<rparr>,
               t', st')))))))))))))"

definition attach ::
  "tree_inner \<Rightarrow> chunk_store \<Rightarrow> bytes \<Rightarrow> nat \<Rightarrow> nat \<Rightarrow> (inserted \<times> tree_inner \<times> chunk_store) ret option" where
  "attach t st parent_hash chunk unstable_window =
     attach_inner t st parent_hash chunk unstable_window False"

definition attach_linear ::
  "tree_inner \<Rightarrow> chunk_store \<Rightarrow> bytes \<Rightarrow> nat \<Rightarrow> nat \<Rightarrow> (inserted \<times> tree_inner \<times> chunk_store) ret option" where
  "attach_linear t st parent_hash chunk unstable_window =
     attach_inner t st parent_hash chunk unstable_window True"

definition attach_side :: "tree_inner \<Rightarrow> chunk_store \<Rightarrow> bytes \<Rightarrow> nat \<Rightarrow> chunk_store ret option" where
  "attach_side t st parent_hash chunk =
     bind_ro (Some (with_chunk st chunk block_height)) (\<lambda>height.
     bind_ro (Some (hash_of st chunk)) (\<lambda>hash.
     bind_ro (tree_find t st parent_hash) (\<lambda>r.
     case r of
       None \<Rightarrow> Some (errf ''side parent block not in tree'')
     | Some par \<Rightarrow>
     bind_ro (Some (height_of st par)) (\<lambda>ph.
     if height \<noteq> ph + 1 then Some (errf ''side block height does not follow parent height'')
     else bind_ro (tree_find t st hash) (\<lambda>dup.
     if dup \<noteq> None then Some (errf ''side block already in tree'')
     else bind_ro (Some (parent_of st chunk)) (\<lambda>cp.
     if cp = None then Some (errf ''side block has no execution parent'')
     else if cp \<noteq> Some par then Some (errf ''side block execution parent does not match'')
     else Some (attach_block_child st par chunk)))))))"

section \<open>Bounding side branches\<close>

partial_function (option) chain_loop :: "chunk_store \<Rightarrow> nat \<Rightarrow> nat list \<Rightarrow> nat list ret option" where
  "chain_loop st cursor chain =
     (case parent_of st cursor of
        Inl e \<Rightarrow> Some (Inl e)
      | Inr (Some p) \<Rightarrow> chain_loop st p (chain @ [cursor])
      | Inr None \<Rightarrow> Some (Ok (rev (chain @ [cursor]))))"

fun hashes_of :: "chunk_store \<Rightarrow> nat list \<Rightarrow> bytes list ret" where
  "hashes_of st [] = Ok []"
| "hashes_of st (i # is) =
     try_ret (hash_of st i) (\<lambda>h. try_ret (hashes_of st is) (\<lambda>hs. Ok (h # hs)))"

fun side_children :: "chunk_store \<Rightarrow> bytes option \<Rightarrow> nat list \<Rightarrow> nat list ret" where
  "side_children st next [] = Ok []"
| "side_children st next (child # rest) =
     try_ret (hash_of st child) (\<lambda>h.
     try_ret (side_children st next rest) (\<lambda>sides.
     Ok (if next \<noteq> Some h then child # sides else sides)))"

fun side_roots :: "chunk_store \<Rightarrow> nat list \<Rightarrow> nat list ret" where
  "side_roots st [] = Ok []"
| "side_roots st (chunk # rest) =
     try_ret (case rest of [] \<Rightarrow> Ok None | n # _ \<Rightarrow> try_ret (hash_of st n) (\<lambda>h. Ok (Some h))) (\<lambda>next.
     try_ret (children_of st chunk) (\<lambda>cs.
     try_ret (side_children st next cs) (\<lambda>sides.
     try_ret (side_roots st rest) (\<lambda>more. Ok (sides @ more)))))"

text \<open>The stable sort of \<^verbatim>\<open>sort_by\<close> on the key (fork choice, hash).\<close>

definition side_key_le :: "chunk_store \<Rightarrow> nat \<Rightarrow> nat \<Rightarrow> bool ret" where
  "side_key_le st a b =
     try_ret (identity_of st a) (\<lambda>ia.
     try_ret (identity_of st b) (\<lambda>ib.
     Ok (fck_less (bid_fork_choice ia) (bid_fork_choice ib) \<or>
         bid_fork_choice ia = bid_fork_choice ib \<and>
         \<not> ord_class.lexordp (bid_hash ib) (bid_hash ia))))"

fun side_insert :: "chunk_store \<Rightarrow> nat \<Rightarrow> nat list \<Rightarrow> nat list ret" where
  "side_insert st a [] = Ok [a]"
| "side_insert st a (b # bs) =
     try_ret (side_key_le st a b) (\<lambda>le.
     if le then Ok (a # b # bs)
     else try_ret (side_insert st a bs) (\<lambda>bs'. Ok (b # bs')))"

fun side_sort :: "chunk_store \<Rightarrow> nat list \<Rightarrow> nat list ret" where
  "side_sort st [] = Ok []"
| "side_sort st (a # as) = try_ret (side_sort st as) (side_insert st a)"

partial_function (option) count_side ::
  "chunk_store \<Rightarrow> bytes list \<Rightarrow> nat list \<Rightarrow> nat \<Rightarrow> nat ret option" where
  "count_side st canonical stack n =
     (case stack of
        [] \<Rightarrow> Some (Ok n)
      | node # rest \<Rightarrow>
          (case hash_of st node of
             Inl e \<Rightarrow> Some (Inl e)
           | Inr h \<Rightarrow>
               (case children_of st node of
                  Inl e \<Rightarrow> Some (Inl e)
                | Inr cs \<Rightarrow>
                    count_side st canonical (rev cs @ rest)
                      (if h \<in> set canonical then n else n + 1))))"

fun evict_loop ::
  "chunk_store \<Rightarrow> nat \<Rightarrow> bytes list \<Rightarrow> nat \<Rightarrow> nat list \<Rightarrow> chunk_store ret option" where
  "evict_loop st root canonical capacity sides =
     bind_ro (count_side st canonical [root] 0) (\<lambda>n.
     if \<not> capacity < n then Some (Ok st)
     else case sides of
       [] \<Rightarrow> Some (Ok st)
     | weakest # rest \<Rightarrow>
         bind_ro (Some (parent_of st weakest)) (\<lambda>par.
         case par of
           None \<Rightarrow> Some (Ok st)
         | Some p \<Rightarrow>
             bind_ro (Some (remove_block_child st p weakest)) (\<lambda>(removed, st').
             if \<not> removed then Some (Ok st')
             else evict_loop st' root canonical capacity rest)))"

definition enforce_side_capacity :: "tree_inner \<Rightarrow> chunk_store \<Rightarrow> nat \<Rightarrow> chunk_store ret option" where
  "enforce_side_capacity t st capacity =
     bind_ro (chain_loop st (ft_head t) []) (\<lambda>chain.
     bind_ro (Some (hashes_of st chain)) (\<lambda>canonical.
     bind_ro (Some (side_roots st chain)) (\<lambda>sides.
     bind_ro (Some (side_sort st sides)) (\<lambda>sorted.
     evict_loop st (ft_root t) canonical capacity sorted))))"

section \<open>Persisting a root advance\<close>

definition PERSIST_KEY_ROOT_HASH :: bytes where
  "PERSIST_KEY_ROOT_HASH = map (of_nat \<circ> of_char) ''_chain.root_hash''"

definition PERSIST_KEY_ROOT_HEIGHT :: bytes where
  "PERSIST_KEY_ROOT_HEIGHT = map (of_nat \<circ> of_char) ''_chain.root_height''"

text \<open>
  \<^verbatim>\<open>RootBatch\<close> streams the frozen overlays oldest first and then the two root markers. One overlay
  holds each key once, so the order inside it does not matter.
\<close>

fun batch_chain :: "chunk_store \<Rightarrow> nat list \<Rightarrow> memkv \<Rightarrow> memkv ret" where
  "batch_chain st [] acc = Ok acc"
| "batch_chain st (i # is) acc =
     with_chunk st i (\<lambda>c.
     batch_chain st is (case frozen_state c of Some w \<Rightarrow> memkv_extend acc w | None \<Rightarrow> acc))"

definition root_batch :: "chunk_store \<Rightarrow> roll_job \<Rightarrow> memkv ret" where
  "root_batch st job =
     try_ret (batch_chain st (rj_chain job) Map.empty) (\<lambda>m.
     try_ret (hash_of st (rj_new_root job)) (\<lambda>hash.
     try_ret (height_of st (rj_new_root job)) (\<lambda>height.
     Ok (memkv_put (memkv_put m PERSIST_KEY_ROOT_HASH hash)
           PERSIST_KEY_ROOT_HEIGHT (to_be_bytes 8 height)))))"

definition disk_try_write :: "layer \<Rightarrow> memkv \<Rightarrow> layer" where
  "disk_try_write disk batch = apply_delta batch disk"

definition persist_fatal :: "error \<Rightarrow> error" where
  "persist_fatal e =
     (case e of
        Error _ _ _ \<Rightarrow> Error Abort ''canonical persistence failed'' (Some ''persist_failed'')
      | Panic m \<Rightarrow> Panic m)"

definition map_err_ro :: "(error \<Rightarrow> error) \<Rightarrow> 'a ret option \<Rightarrow> 'a ret option" where
  "map_err_ro f m =
     (case m of None \<Rightarrow> None | Some (Inl e) \<Rightarrow> Some (Inl (f e)) | Some (Inr x) \<Rightarrow> Some (Inr x))"

lemma map_err_ro_Ok [simp]: "map_err_ro f m = Some (Inr x) \<longleftrightarrow> m = Some (Inr x)"
  by (auto simp: map_err_ro_def split: option.split sum.split)

text \<open>
  The part of \<^verbatim>\<open>roll_root\<close> that moves the root, up to \<^verbatim>\<open>root_move.commit()\<close>: \<open>disk\<close> is the state
  database of the node's store and \<open>written\<close> the outcome of its batch write, which either stores
  the whole batch or fails and stores nothing.
\<close>

definition roll_root ::
  "tree_inner \<Rightarrow> chunk_store \<Rightarrow> nat \<Rightarrow> unit ret \<Rightarrow> roll_job \<Rightarrow> (tree_inner \<times> chunk_store) ret option" where
  "roll_root t st disk written job =
     bind_ro (map_err_ro persist_fatal (validate_roll t st job)) (\<lambda>_.
     bind_ro (Some (root_batch st job)) (\<lambda>batch.
     bind_ro (map_err_ro persist_fatal (Some written)) (\<lambda>_.
     let st' = st\<lparr>cs_disk := (cs_disk st)(disk := disk_try_write (cs_disk st disk) batch)\<rparr>
     in map_err_ro persist_fatal (commit_roll t st' job))))"

end
