(* ===== verification/ForkTreeProps.thy ===== *)
theory ForkTreeProps
  imports ForkTree "HOL-Library.Multiset"
begin

text \<open>
  Correctness of the fork tree. The nodes of the tree are the chunks reached from the durable root
  through children lists. On a well-shaped tree every loop of \<open>ForkTree\<close> returns; lookups are
  exact; attaching a block keeps the shape and puts the head on a heaviest block; a planned root
  advance validates; and persisting it leaves every view above the new root as it was.
\<close>

section \<open>Nodes of the tree\<close>

definition child_rel :: "chunk_store \<Rightarrow> nat \<Rightarrow> nat \<Rightarrow> bool" where
  "child_rel st a b \<longleftrightarrow> (\<exists>c. cs_chunk st a = Some c \<and> b \<in> set (ch_children c))"

abbreviation in_tree :: "chunk_store \<Rightarrow> nat \<Rightarrow> nat \<Rightarrow> bool" where
  "in_tree st r n \<equiv> (child_rel st)\<^sup>*\<^sup>* r n"

definition origin_at :: "chunk_store \<Rightarrow> nat \<Rightarrow> origin" where
  "origin_at st n = ch_origin (the (cs_chunk st n))"

definition ident_at :: "chunk_store \<Rightarrow> nat \<Rightarrow> block_identity" where
  "ident_at st n = the (origin_block_identity (origin_at st n))"

definition hgt :: "chunk_store \<Rightarrow> nat \<Rightarrow> nat" where
  "hgt st n = the (origin_block_height (origin_at st n))"

definition hsh :: "chunk_store \<Rightarrow> nat \<Rightarrow> bytes" where
  "hsh st n = bid_hash (ident_at st n)"

definition fkey :: "chunk_store \<Rightarrow> nat \<Rightarrow> fork_choice_key" where
  "fkey st n = bid_fork_choice (ident_at st n)"

definition block_chunk :: "chunk_store \<Rightarrow> nat \<Rightarrow> bool" where
  "block_chunk st n \<longleftrightarrow> (\<exists>c h ident. cs_chunk st n = Some c \<and> ch_origin c = OBlock h (Some ident))"

lemma block_chunk_ops:
  assumes "block_chunk st n"
  shows "height_of st n = Ok (hgt st n)" "identity_of st n = Ok (ident_at st n)"
    "hash_of st n = Ok (hsh st n)" "fork_key_of st n = Ok (fkey st n)"
    "children_of st n = Ok (ch_children (the (cs_chunk st n)))"
    "parent_of st n = Ok (parent st (the (cs_chunk st n)))"
proof -
  from assms obtain c h ident where c: "cs_chunk st n = Some c" "ch_origin c = OBlock h (Some ident)"
    unfolding block_chunk_def by blast
  then show "height_of st n = Ok (hgt st n)" "identity_of st n = Ok (ident_at st n)"
    "hash_of st n = Ok (hsh st n)" "fork_key_of st n = Ok (fkey st n)"
    "children_of st n = Ok (ch_children (the (cs_chunk st n)))"
    "parent_of st n = Ok (parent st (the (cs_chunk st n)))"
    by (simp_all add: height_of_def identity_of_def hash_of_def fork_key_of_def children_of_def
        parent_of_def block_height_def block_identity_of_def origin_block_height_def
        origin_block_identity_def hgt_def hsh_def fkey_def ident_at_def origin_at_def expect_def)
qed

text \<open>
  The shape of a fork tree: every node is an identified block, the tree edge to a node is its
  parent link, heights grow by one along edges, and the root is frozen and read from disk.
\<close>

definition tree_shape :: "chunk_store \<Rightarrow> nat \<Rightarrow> bool" where
  "tree_shape st r \<longleftrightarrow>
     store_typed st \<and>
     (\<forall>n. in_tree st r n \<longrightarrow> block_chunk st n) \<and>
     (\<forall>a b. in_tree st r a \<longrightarrow> child_rel st a b \<longrightarrow>
        ch_source (the (cs_chunk st b)) = Parent a \<and> hgt st b = hgt st a + 1) \<and>
     (\<exists>c d w. cs_chunk st r = Some c \<and> ch_source c = Disk d \<and> frozen_state c = Some w)"

lemma tree_shapeD:
  assumes "tree_shape st r"
  shows "store_typed st" "chunk_wf st"
    and "in_tree st r n \<Longrightarrow> block_chunk st n"
    and "in_tree st r a \<Longrightarrow> child_rel st a b \<Longrightarrow> ch_source (the (cs_chunk st b)) = Parent a"
    and "in_tree st r a \<Longrightarrow> child_rel st a b \<Longrightarrow> hgt st b = hgt st a + 1"
  using assms by (auto simp: tree_shape_def store_typed_def)

lemma child_rel_less:
  assumes "store_typed st" "child_rel st a b"
  shows "a < b" "b < cs_next st"
  using assms by (auto simp: store_typed_def child_rel_def attached_def)

lemma in_tree_le: "in_tree st r n \<Longrightarrow> store_typed st \<Longrightarrow> r \<le> n"
  by (induction rule: rtranclp_induct) (auto dest: child_rel_less(1))

lemma in_tree_antisym: "in_tree st a b \<Longrightarrow> in_tree st b a \<Longrightarrow> store_typed st \<Longrightarrow> a = b"
  by (meson in_tree_le le_antisym)

lemma frozen_state_Some: "frozen_state c = Some w \<longleftrightarrow> (\<exists>d. ch_body c = Frozen d \<and> w = dl_state d)"
  by (cases "ch_body c") (auto simp: frozen_state_def)

lemma in_tree_frozen:
  assumes "tree_shape st r" "in_tree st r n"
  shows "\<exists>c d. cs_chunk st n = Some c \<and> ch_body c = Frozen d"
  using assms(2)
proof (cases rule: rtranclp.cases)
  case rtrancl_refl
  then show ?thesis
    using assms(1) by (auto simp: tree_shape_def frozen_state_Some)
next
  case (rtrancl_into_rtrancl b)
  obtain c where c: "cs_chunk st n = Some c"
    using tree_shapeD(3) [OF assms] by (auto simp: block_chunk_def)
  have "attached st b n"
    using rtrancl_into_rtrancl(2) tree_shapeD(1) [OF assms(1)] by (auto simp: store_typed_def child_rel_def)
  with c show ?thesis by (auto simp: attached_def)
qed

lemma tree_parent:
  assumes sh: "tree_shape st r" and n: "in_tree st r n" "child_rel st p n" and p: "in_tree st r p"
  shows "parent_of st n = Ok (Some p)"
proof -
  note ops = block_chunk_ops [OF tree_shapeD(3) [OF sh n(1)]]
  have "ch_source (the (cs_chunk st n)) = Parent p" using tree_shapeD(4) [OF sh p n(2)] .
  moreover obtain pc where "cs_chunk st p = Some pc" using n(2) by (auto simp: child_rel_def)
  ultimately show ?thesis using ops(6) by (simp add: parent_def)
qed

lemma tree_parent_unique:
  assumes "tree_shape st r" "in_tree st r a" "in_tree st r b" "child_rel st a n" "child_rel st b n"
  shows "a = b"
  using tree_shapeD(4) [OF assms(1,2,4)] tree_shapeD(4) [OF assms(1,3,5)] by simp

lemma ancestor_parent:
  assumes sh: "tree_shape st r" and a: "in_tree st r a" "in_tree st a n" "a \<noteq> n"
  obtains p where "in_tree st a p" "in_tree st r p" "child_rel st p n" "parent_of st n = Ok (Some p)" "p < n"
    "hgt st n = hgt st p + 1"
proof -
  from a(2,3) obtain p where p: "in_tree st a p" "child_rel st p n"
    by (cases rule: rtranclp.cases) auto
  have rp: "in_tree st r p" using a(1) p(1) by simp
  then have rn: "in_tree st r n" using p(2) by (meson rtranclp.rtrancl_into_rtrancl)
  show ?thesis
    using that p rp tree_parent [OF sh rn p(2) rp] child_rel_less(1) [OF tree_shapeD(1) [OF sh] p(2)]
      tree_shapeD(5) [OF sh rp p(2)] by blast
qed

lemma ancestor_height:
  assumes sh: "tree_shape st r" and a: "in_tree st r a" and n: "in_tree st a n"
  shows "hgt st a \<le> hgt st n" "a \<noteq> n \<Longrightarrow> hgt st a < hgt st n"
proof -
  have "hgt st a \<le> hgt st n \<and> (a \<noteq> n \<longrightarrow> hgt st a < hgt st n)"
    using n
  proof (induction rule: rtranclp_induct)
    case (step y z)
    have "in_tree st r y" using a step.hyps(1) by simp
    then have "hgt st z = hgt st y + 1" using tree_shapeD(5) [OF sh _ step.hyps(2)] by blast
    with step.IH show ?case by linarith
  qed simp
  then show "hgt st a \<le> hgt st n" "a \<noteq> n \<Longrightarrow> hgt st a < hgt st n" by auto
qed

text \<open>Two ancestors of one node lie on one path; at one height they are the same.\<close>

lemma ancestors_chain:
  assumes sh: "tree_shape st r" and a: "in_tree st r a" "in_tree st a n" and b: "in_tree st r b" "in_tree st b n"
  shows "in_tree st a b \<or> in_tree st b a"
  using a(2) b(2)
proof (induction n rule: less_induct)
  case (less n)
  show ?case
  proof (cases "a = n \<or> b = n")
    case False
    obtain p where p: "in_tree st a p" "in_tree st r p" "child_rel st p n" "p < n"
      by (rule ancestor_parent [OF sh a(1) less.prems(1)]) (use False in auto)
    obtain q where q: "in_tree st b q" "in_tree st r q" "child_rel st q n"
      by (rule ancestor_parent [OF sh b(1) less.prems(2)]) (use False in auto)
    have "p = q" using tree_parent_unique [OF sh p(2) q(2) p(3) q(3)] .
    then show ?thesis using less.IH [OF p(4)] p(1) q(1) by simp
  qed (use less.prems in auto)
qed

lemma ancestors_same_height:
  assumes sh: "tree_shape st r" and a: "in_tree st r a" "in_tree st a n"
    and b: "in_tree st r b" "in_tree st b n" and h: "hgt st a = hgt st b"
  shows "a = b"
  using ancestors_chain [OF sh a b] ancestor_height(2) [OF sh a(1), of b] ancestor_height(2) [OF sh b(1), of a] h
  by fastforce

section \<open>Depth-first search\<close>

definition dfs_rel :: "chunk_store \<Rightarrow> (nat list \<times> nat list) set" where
  "dfs_rel st = inv_image (mult less_than) (\<lambda>stack. mset (map (\<lambda>n. cs_next st - n) stack))"

lemma wf_dfs_rel: "wf (dfs_rel st)"
  unfolding dfs_rel_def by (intro wf_inv_image wf_mult wf_less_than)

lemma dfs_step:
  assumes "store_typed st" "cs_chunk st n = Some c"
  shows "(rev (ch_children c) @ rest, n # rest) \<in> dfs_rel st"
proof -
  let ?f = "\<lambda>n. cs_next st - n"
  have "\<forall>k\<in>#mset (map ?f (rev (ch_children c))). \<exists>j\<in>#{#?f n#}. (k, j) \<in> less_than"
    using child_rel_less [OF assms(1)] assms(2) by (fastforce simp: child_rel_def)
  then have "(mset (map ?f rest) + mset (map ?f (rev (ch_children c))), mset (map ?f rest) + {#?f n#}) \<in> mult less_than"
    by (intro one_step_implies_mult) auto
  then show ?thesis by (simp add: dfs_rel_def union_commute)
qed

lemma in_tree_unfold:
  "in_tree st n m \<longleftrightarrow> m = n \<or> (\<exists>c b. cs_chunk st n = Some c \<and> b \<in> set (ch_children c) \<and> in_tree st b m)"
proof
  assume "in_tree st n m"
  then show "m = n \<or> (\<exists>c b. cs_chunk st n = Some c \<and> b \<in> set (ch_children c) \<and> in_tree st b m)"
    by (cases rule: converse_rtranclpE) (auto simp: child_rel_def)
next
  assume "m = n \<or> (\<exists>c b. cs_chunk st n = Some c \<and> b \<in> set (ch_children c) \<and> in_tree st b m)"
  then show "in_tree st n m" by (auto simp: child_rel_def intro: converse_rtranclp_into_rtranclp)
qed

definition good_stack :: "chunk_store \<Rightarrow> nat list \<Rightarrow> bool" where
  "good_stack st stack \<longleftrightarrow> (\<forall>n\<in>set stack. \<forall>m. in_tree st n m \<longrightarrow> block_chunk st m)"

lemma good_stack_step:
  assumes "good_stack st (n # rest)" "cs_chunk st n = Some c"
  shows "good_stack st (rev (ch_children c) @ rest)" "block_chunk st n"
proof -
  have "in_tree st n m" if "b \<in> set (ch_children c)" "in_tree st b m" for b m
    using that assms(2) in_tree_unfold by blast
  then show "good_stack st (rev (ch_children c) @ rest)" "block_chunk st n"
    using assms(1) by (auto simp: good_stack_def)
qed

lemma good_stack_chunk:
  assumes "good_stack st (n # rest)"
  obtains c where "cs_chunk st n = Some c" "block_chunk st n"
  using assms by (auto simp: good_stack_def block_chunk_def)

lemma find_loop_spec:
  assumes ty: "store_typed st"
  shows "good_stack st stack \<Longrightarrow>
    (\<exists>m n. find_loop st hash stack = Some (Ok (Some m)) \<and> n \<in> set stack \<and> in_tree st n m \<and> hsh st m = hash) \<or>
    (find_loop st hash stack = Some (Ok None) \<and> (\<forall>n\<in>set stack. \<forall>m. in_tree st n m \<longrightarrow> hsh st m \<noteq> hash))"
proof (induction stack rule: wf_induct_rule [OF wf_dfs_rel [of st]])
  case (1 stack)
  show ?case
  proof (cases stack)
    case Nil
    then show ?thesis by (subst (1 2) find_loop.simps) simp
  next
    case (Cons n rest)
    obtain c where c: "cs_chunk st n = Some c" and b: "block_chunk st n"
      using 1(2) unfolding Cons by (rule good_stack_chunk)
    note ops = block_chunk_ops [OF b]
    show ?thesis
    proof (cases "hsh st n = hash")
      case True
      then have "find_loop st hash stack = Some (Ok (Some n))"
        using ops Cons by (subst find_loop.simps) simp
      then show ?thesis using True Cons by auto
    next
      case False
      let ?next = "rev (ch_children c) @ rest"
      have eq: "find_loop st hash stack = find_loop st hash ?next"
        using False ops Cons c by (subst find_loop.simps) simp
      have IH: "(\<exists>m n. find_loop st hash ?next = Some (Ok (Some m)) \<and> n \<in> set ?next \<and> in_tree st n m \<and> hsh st m = hash) \<or>
         (find_loop st hash ?next = Some (Ok None) \<and> (\<forall>n\<in>set ?next. \<forall>m. in_tree st n m \<longrightarrow> hsh st m \<noteq> hash))"
        by (rule 1(1)) (use dfs_step [OF ty c] good_stack_step [OF _ c] 1(2) Cons in auto)
      have sub: "in_tree st n m" if "k \<in> set (ch_children c)" "in_tree st k m" for k m
        using that c in_tree_unfold by blast
      from IH show ?thesis
      proof
        assume "\<exists>m n. find_loop st hash ?next = Some (Ok (Some m)) \<and> n \<in> set ?next \<and> in_tree st n m \<and> hsh st m = hash"
        then obtain m k where m: "find_loop st hash ?next = Some (Ok (Some m))" "k \<in> set ?next" "in_tree st k m" "hsh st m = hash"
          by blast
        have "\<exists>j\<in>set stack. in_tree st j m" using m(2,3) sub Cons by auto
        then show ?thesis unfolding eq using m by blast
      next
        assume a: "find_loop st hash ?next = Some (Ok None) \<and> (\<forall>n\<in>set ?next. \<forall>m. in_tree st n m \<longrightarrow> hsh st m \<noteq> hash)"
        have "hsh st m \<noteq> hash" if "k \<in> set stack" "in_tree st k m" for k m
        proof (cases "k = n")
          case True
          then show ?thesis
            using that(2) a False c by (subst (asm) in_tree_unfold) auto
        next
          case False
          then show ?thesis using that a Cons by auto
        qed
        then show ?thesis unfolding eq using a by blast
      qed
    qed
  qed
qed

section \<open>The invariant of the tree\<close>

text \<open>
  The head is a node of the tree, no node has a greater fork-choice key, the scheduled root lies
  between the root and the head, and no two nodes share a hash.
\<close>

definition tree_inv :: "tree_inner \<Rightarrow> chunk_store \<Rightarrow> bool" where
  "tree_inv t st \<longleftrightarrow>
     tree_shape st (ft_root t) \<and>
     in_tree st (ft_root t) (ft_scheduled_root t) \<and> in_tree st (ft_scheduled_root t) (ft_head t) \<and>
     (\<forall>n. in_tree st (ft_root t) n \<longrightarrow> \<not> fck_less (fkey st (ft_head t)) (fkey st n)) \<and>
     (\<forall>n m. in_tree st (ft_root t) n \<longrightarrow> in_tree st (ft_root t) m \<longrightarrow> hsh st n = hsh st m \<longrightarrow> n = m)"

lemma tree_invD:
  assumes "tree_inv t st"
  shows "tree_shape st (ft_root t)" "store_typed st" "chunk_wf st"
    "in_tree st (ft_root t) (ft_head t)" "in_tree st (ft_root t) (ft_scheduled_root t)"
    "in_tree st (ft_scheduled_root t) (ft_head t)"
    "in_tree st (ft_root t) n \<Longrightarrow> \<not> fck_less (fkey st (ft_head t)) (fkey st n)"
    "in_tree st (ft_root t) n \<Longrightarrow> in_tree st (ft_root t) m \<Longrightarrow> hsh st n = hsh st m \<Longrightarrow> n = m"
  using assms unfolding tree_inv_def by (auto simp: tree_shape_def store_typed_def)

lemma tree_inv_block: "tree_inv t st \<Longrightarrow> in_tree st (ft_root t) n \<Longrightarrow> block_chunk st n"
  by (rule tree_shapeD(3) [OF tree_invD(1)])

text \<open>Lookup by hash is exact.\<close>

lemma tree_find_spec:
  assumes inv: "tree_inv t st"
  shows "\<exists>r. tree_find t st hash = Some (Ok r) \<and>
    (\<forall>n. r = Some n \<longleftrightarrow> in_tree st (ft_root t) n \<and> hsh st n = hash)"
proof -
  note head = block_chunk_ops [OF tree_inv_block [OF inv tree_invD(4) [OF inv]]]
  show ?thesis
  proof (cases "hsh st (ft_head t) = hash")
    case True
    then have f: "tree_find t st hash = Some (Ok (Some (ft_head t)))"
      using head by (simp add: tree_find_def)
    then show ?thesis using True tree_invD(4,8) [OF inv] by auto
  next
    case False
    then have f: "tree_find t st hash = find_loop st hash [ft_root t]"
      using head by (simp add: tree_find_def)
    have "good_stack st [ft_root t]" using tree_inv_block [OF inv] by (simp add: good_stack_def)
    from find_loop_spec [OF tree_invD(2) [OF inv] this, of hash]
    show ?thesis
    proof
      assume "\<exists>m n. find_loop st hash [ft_root t] = Some (Ok (Some m)) \<and> n \<in> set [ft_root t] \<and> in_tree st n m \<and> hsh st m = hash"
      then obtain m where m: "find_loop st hash [ft_root t] = Some (Ok (Some m))"
        "in_tree st (ft_root t) m" "hsh st m = hash" by auto
      show ?thesis
        using f m tree_invD(8) [OF inv] by auto
    next
      assume "find_loop st hash [ft_root t] = Some (Ok None) \<and>
        (\<forall>n\<in>set [ft_root t]. \<forall>m. in_tree st n m \<longrightarrow> hsh st m \<noteq> hash)"
      then show ?thesis using f by auto
    qed
  qed
qed

lemma tree_find_node:
  assumes "tree_inv t st" "in_tree st (ft_root t) n"
  shows "tree_find t st (hsh st n) = Some (Ok (Some n))"
proof -
  obtain r where r: "tree_find t st (hsh st n) = Some (Ok r)"
    "\<And>m. r = Some m \<longleftrightarrow> in_tree st (ft_root t) m \<and> hsh st m = hsh st n"
    using tree_find_spec [OF assms(1), of "hsh st n"] by blast
  from r(2) [of n] assms(2) have "r = Some n" by simp
  with r(1) show ?thesis by simp
qed

lemma tree_find_None:
  assumes "tree_inv t st" "\<And>n. in_tree st (ft_root t) n \<Longrightarrow> hsh st n \<noteq> hash"
  shows "tree_find t st hash = Some (Ok None)"
proof -
  obtain r where r: "tree_find t st hash = Some (Ok r)"
    "\<And>m. r = Some m \<longleftrightarrow> in_tree st (ft_root t) m \<and> hsh st m = hash"
    using tree_find_spec [OF assms(1), of hash] by blast
  then have "r = None" using assms(2) by (cases r) auto
  with r(1) show ?thesis by simp
qed

section \<open>Walks along a branch\<close>

fun linked :: "chunk_store \<Rightarrow> nat \<Rightarrow> nat list \<Rightarrow> nat \<Rightarrow> bool" where
  "linked st a [] n \<longleftrightarrow> a = n"
| "linked st a (x # xs) n \<longleftrightarrow> child_rel st a x \<and> linked st x xs n"

lemma linked_append: "linked st a (xs @ ys) n \<longleftrightarrow> (\<exists>m. linked st a xs m \<and> linked st m ys n)"
  by (induction xs arbitrary: a) auto

lemma linked_snoc: "linked st a (xs @ [y]) n \<longleftrightarrow> y = n \<and> (\<exists>m. linked st a xs m \<and> child_rel st m n)"
  by (auto simp: linked_append)

lemma linked_in_tree: "linked st a xs n \<Longrightarrow> in_tree st a n"
  by (induction xs arbitrary: a) (auto intro: converse_rtranclp_into_rtranclp)

lemma linked_nodes: "linked st a xs n \<Longrightarrow> x \<in> set xs \<Longrightarrow> in_tree st a x \<and> in_tree st x n"
proof (induction xs arbitrary: a)
  case (Cons y ys)
  show ?case
  proof (cases "x = y")
    case True
    then show ?thesis using Cons.prems linked_in_tree [of st y ys n] by auto
  next
    case False
    then have "in_tree st y x \<and> in_tree st x n" using Cons by auto
    then show ?thesis using Cons.prems(1) by (auto intro: converse_rtranclp_into_rtranclp)
  qed
qed simp

lemma linked_height:
  assumes sh: "tree_shape st r" "in_tree st r a" "linked st a xs n"
  shows "hgt st n = hgt st a + length xs"
  using assms(2,3)
proof (induction xs arbitrary: a)
  case (Cons x xs)
  then have "hgt st x = hgt st a + 1" "in_tree st r x"
    using tree_shapeD(5) [OF sh(1)] by (auto intro: rtranclp.rtrancl_into_rtrancl)
  with Cons show ?case by simp
qed simp

lemma roll_descend_spec:
  assumes sh: "tree_shape st r" and t: "hgt st r \<le> target"
  shows "in_tree st r n \<Longrightarrow>
    \<exists>m. roll_descend st target n = Some (Ok m) \<and> in_tree st r m \<and> in_tree st m n \<and> hgt st m = min target (hgt st n)"
proof (induction n rule: less_induct)
  case (less n)
  note ops = block_chunk_ops [OF tree_shapeD(3) [OF sh less.prems]]
  show ?case
  proof (cases "target < hgt st n")
    case False
    then have "roll_descend st target n = Some (Ok n)"
      using ops by (subst roll_descend.simps) simp
    then show ?thesis using False less.prems by auto
  next
    case True
    then have "r \<noteq> n" using t by auto
    then obtain p where p: "in_tree st r p" "child_rel st p n" "parent_of st n = Ok (Some p)" "p < n" "hgt st n = hgt st p + 1"
      using ancestor_parent [OF sh _ less.prems] by blast
    then have "roll_descend st target n = roll_descend st target p"
      using ops(1) True by (subst roll_descend.simps) simp
    with less.IH [OF p(4,1)] p True show ?thesis
      by (metis Suc_eq_plus1 less_Suc_eq_le min.absorb1 min_less_iff_disj nless_le rtranclp.rtrancl_into_rtrancl)
  qed
qed

lemma collect_above_spec:
  assumes sh: "tree_shape st r" and t: "hgt st r \<le> target"
  shows "in_tree st r n \<Longrightarrow>
    \<exists>m xs. collect_above st fail target n acc = Some (Ok (m, acc @ rev xs)) \<and> in_tree st r m \<and>
      linked st m xs n \<and> hgt st m = min target (hgt st n)"
proof (induction n arbitrary: acc rule: less_induct)
  case (less n)
  note ops = block_chunk_ops [OF tree_shapeD(3) [OF sh less.prems]]
  show ?case
  proof (cases "target < hgt st n")
    case False
    then have "collect_above st fail target n acc = Some (Ok (n, acc @ rev []))"
      using ops by (subst collect_above.simps) simp
    then show ?thesis using False less.prems by (metis linked.simps(1) min.absorb2 not_less)
  next
    case True
    then have "r \<noteq> n" using t by auto
    then obtain p where p: "in_tree st r p" "child_rel st p n" "parent_of st n = Ok (Some p)" "p < n" "hgt st n = hgt st p + 1"
      using ancestor_parent [OF sh _ less.prems] by blast
    have eq: "collect_above st fail target n acc = collect_above st fail target p (acc @ [n])"
      using ops(1) True p(3) by (subst collect_above.simps) simp
    obtain m xs where m: "collect_above st fail target p (acc @ [n]) = Some (Ok (m, (acc @ [n]) @ rev xs))"
      "in_tree st r m" "linked st m xs p" "hgt st m = min target (hgt st p)"
      using less.IH [OF p(4,1)] by blast
    have "linked st m (xs @ [n]) n" using m(3) p(2) by (auto simp: linked_snoc)
    moreover have "hgt st m = min target (hgt st n)" using m(4) p(5) True by simp
    ultimately show ?thesis using eq m(1,2) by (intro exI [of _ m] exI [of _ "xs @ [n]"]) simp
  qed
qed

lemma linked_between:
  assumes sh: "tree_shape st r" and a: "in_tree st r a" "linked st a xs n" and x: "x \<in> set xs"
  shows "hgt st a < hgt st x" "hgt st x \<le> hgt st n" "in_tree st r x"
proof -
  have ax: "in_tree st a x" "in_tree st x n" using linked_nodes [OF a(2) x] by auto
  then show rx: "in_tree st r x" using a(1) by simp
  show "hgt st x \<le> hgt st n" using ancestor_height(1) [OF sh rx ax(2)] .
  obtain y where y: "in_tree st a y" "child_rel st y x"
  proof -
    from x obtain us vs where "xs = us @ x # vs" by (meson split_list)
    with a(2) obtain y where "linked st a us y" "child_rel st y x" by (auto simp: linked_append)
    then show ?thesis using that linked_in_tree by blast
  qed
  have ry: "in_tree st r y" using a(1) y(1) by simp
  show "hgt st a < hgt st x"
    using ancestor_height(1) [OF sh a(1) y(1)] tree_shapeD(5) [OF sh ry y(2)] by simp
qed

lemma linked_disjoint:
  assumes sh: "tree_shape st r" and a: "in_tree st r a" "linked st a xs n"
    and b: "in_tree st r b" "linked st b ys m" and h: "hgt st m \<le> hgt st a"
  shows "set xs \<inter> set ys = {}"
  using linked_between(1) [OF sh a] linked_between(2) [OF sh b] h by fastforce

lemma same_height_root:
  assumes sh: "tree_shape st r" and n: "in_tree st r n" and h: "hgt st n = hgt st r"
  shows "n = r"
  using ancestor_height(2) [OF sh rtranclp.rtrancl_refl n] h by auto

lemma diff_join_spec:
  assumes sh: "tree_shape st r"
  shows "in_tree st r n \<Longrightarrow> in_tree st r m \<Longrightarrow> hgt st n = hgt st m \<Longrightarrow>
    \<exists>a xs ys. diff_join st n m ob nb = Some (Ok (ob @ rev xs, nb @ rev ys)) \<and> in_tree st r a \<and>
      linked st a xs n \<and> linked st a ys m \<and> set xs \<inter> set ys = {}"
proof (induction n arbitrary: m ob nb rule: less_induct)
  case (less n)
  show ?case
  proof (cases "n = m")
    case True
    then have "diff_join st n m ob nb = Some (Ok (ob @ rev [], nb @ rev []))"
      by (subst diff_join.simps) simp
    then show ?thesis using less.prems True
      by (intro exI [of _ n] exI [of _ "[]"]) simp
  next
    case False
    have nr: "r \<noteq> n" "r \<noteq> m"
      using False less.prems same_height_root [OF sh less.prems(1)] same_height_root [OF sh less.prems(2)] by auto
    obtain p where p: "in_tree st r p" "child_rel st p n" "parent_of st n = Ok (Some p)" "p < n" "hgt st n = hgt st p + 1"
      using ancestor_parent [OF sh _ less.prems(1) nr(1)] by blast
    obtain q where q: "in_tree st r q" "child_rel st q m" "parent_of st m = Ok (Some q)" "hgt st m = hgt st q + 1"
      using ancestor_parent [OF sh _ less.prems(2) nr(2)] by blast
    have eq: "diff_join st n m ob nb = diff_join st p q (ob @ [n]) (nb @ [m])"
      using False p(3) q(3) by (subst diff_join.simps) simp
    obtain a xs ys where IH: "diff_join st p q (ob @ [n]) (nb @ [m]) = Some (Ok ((ob @ [n]) @ rev xs, (nb @ [m]) @ rev ys))"
      "in_tree st r a" "linked st a xs p" "linked st a ys q" "set xs \<inter> set ys = {}"
      using less.IH [OF p(4,1) q(1)] less.prems(3) p(5) q(4) by (metis add_right_cancel)
    have "n \<notin> set ys" using linked_between(2) [OF sh IH(2,4), of n] less.prems(3) q(4) by auto
    moreover have "m \<notin> set xs" using linked_between(2) [OF sh IH(2,3), of m] less.prems(3) p(5) by auto
    ultimately have "set (xs @ [n]) \<inter> set (ys @ [m]) = {}" using IH(5) False by auto
    moreover have "linked st a (xs @ [n]) n" "linked st a (ys @ [m]) m"
      using IH(3,4) p(2) q(2) by (auto simp: linked_snoc)
    ultimately show ?thesis
      using eq IH(1,2) by (intro exI [of _ a] exI [of _ "xs @ [n]"] exI [of _ "ys @ [m]"]) simp
  qed
qed

definition txs_at :: "chunk_store \<Rightarrow> nat list \<Rightarrow> bytes list" where
  "txs_at st ns = concat (map (\<lambda>n. block_tx_hashes (the (cs_chunk st n))) ns)"

lemma branch_txs_spec:
  "(\<And>n. n \<in> set ns \<Longrightarrow> block_chunk st n) \<Longrightarrow> branch_txs st ns = Ok (txs_at st ns)"
proof (induction ns)
  case (Cons n ns)
  from Cons.prems [of n] obtain c where "cs_chunk st n = Some c" by (auto simp: block_chunk_def)
  with Cons show ?case by (simp add: txs_at_def)
qed (simp add: txs_at_def)

text \<open>
  The transactions a change of head confirms and reverts: those of the new branch above the fork
  point that the old branch does not have, and the other way round.
\<close>

lemma canonical_tx_diff_spec:
  assumes sh: "tree_shape st r" and o: "in_tree st r old" and n: "in_tree st r new"
  shows "\<exists>a xs ys. in_tree st r a \<and> linked st a xs old \<and> linked st a ys new \<and> set xs \<inter> set ys = {} \<and>
    canonical_tx_diff st old new = Some (Ok
      \<lparr>td_confirmed = filter (\<lambda>h. h \<notin> set (txs_at st xs)) (txs_at st ys),
       td_reverted = filter (\<lambda>h. h \<notin> set (txs_at st ys)) (txs_at st xs)\<rparr>)"
proof -
  have rh: "hgt st r \<le> hgt st k" if "in_tree st r k" for k
    using ancestor_height(1) [OF sh _ that] by simp
  note hn = block_chunk_ops(1) [OF tree_shapeD(3) [OF sh n]]
  obtain m1 xs1 where m1: "collect_above st (Panic ''old canonical branch must reach the fork point'') (hgt st new) old []
      = Some (Ok (m1, [] @ rev xs1))" "in_tree st r m1" "linked st m1 xs1 old" "hgt st m1 = min (hgt st new) (hgt st old)"
    using collect_above_spec [OF sh rh [OF n] o] by blast
  note hm = block_chunk_ops(1) [OF tree_shapeD(3) [OF sh m1(2)]]
  obtain m2 ys1 where m2: "collect_above st (Panic ''new canonical branch must reach the fork point'') (hgt st m1) new []
      = Some (Ok (m2, [] @ rev ys1))" "in_tree st r m2" "linked st m2 ys1 new" "hgt st m2 = min (hgt st m1) (hgt st new)"
    using collect_above_spec [OF sh rh [OF m1(2)] n] by blast
  have h12: "hgt st m1 = hgt st m2" using m1(4) m2(4) by simp
  obtain a xs2 ys2 where j: "diff_join st m1 m2 (rev xs1) (rev ys1) = Some (Ok (rev xs1 @ rev xs2, rev ys1 @ rev ys2))"
      "in_tree st r a" "linked st a xs2 m1" "linked st a ys2 m2" "set xs2 \<inter> set ys2 = {}"
    using diff_join_spec [OF sh m1(2) m2(2) h12] by blast
  have lo: "linked st a (xs2 @ xs1) old" and ln: "linked st a (ys2 @ ys1) new"
    using j(3,4) m1(3) m2(3) by (auto simp: linked_append)
  have "length xs1 = 0 \<or> length ys1 = 0"
    using linked_height [OF sh m1(2,3)] linked_height [OF sh m2(2,3)] m1(4) h12 by linarith
  then have "xs1 = [] \<or> ys1 = []" by simp
  moreover have "set xs1 \<inter> set ys2 = {}" "set ys1 \<inter> set xs2 = {}"
    using linked_disjoint [OF sh m1(2,3) j(2,4)] linked_disjoint [OF sh m2(2,3) j(2,3)] h12 by auto
  ultimately have d: "set (xs2 @ xs1) \<inter> set (ys2 @ ys1) = {}" using j(5) by auto
  have "branch_txs st (xs2 @ xs1) = Ok (txs_at st (xs2 @ xs1))"
    "branch_txs st (ys2 @ ys1) = Ok (txs_at st (ys2 @ ys1))"
    by (intro branch_txs_spec tree_shapeD(3) [OF sh] linked_between(3) [OF sh j(2) lo], assumption)
      (intro branch_txs_spec tree_shapeD(3) [OF sh] linked_between(3) [OF sh j(2) ln], assumption)
  then have "canonical_tx_diff st old new = Some (Ok
      \<lparr>td_confirmed = filter (\<lambda>h. h \<notin> set (txs_at st (xs2 @ xs1))) (txs_at st (ys2 @ ys1)),
       td_reverted = filter (\<lambda>h. h \<notin> set (txs_at st (ys2 @ ys1))) (txs_at st (xs2 @ xs1))\<rparr>)"
    using hn hm m1(1) m2(1) j(1) by (simp add: canonical_tx_diff_def)
  with j(2) lo ln d show ?thesis by blast
qed

section \<open>Planning and validating a root advance\<close>

lemma plan_roll_spec:
  assumes inv: "tree_shape st r" and s: "in_tree st r (ft_scheduled_root t)"
    and h: "in_tree st (ft_scheduled_root t) head"
    and w: "hgt st (ft_scheduled_root t) < target" "target \<le> hgt st head"
  shows "\<exists>job. plan_roll_from t st head target = Some (Ok job) \<and>
    rj_expected_root_hash job = hsh st (ft_scheduled_root t) \<and>
    rj_expected_root_height job = hgt st (ft_scheduled_root t) \<and>
    linked st (ft_scheduled_root t) (rj_chain job) (rj_new_root job) \<and>
    in_tree st (rj_new_root job) head \<and> hgt st (rj_new_root job) = target"
proof -
  let ?s = "ft_scheduled_root t"
  note ops = block_chunk_ops [OF tree_shapeD(3) [OF inv s]]
  have rs: "hgt st r \<le> hgt st ?s" using ancestor_height(1) [OF inv _ s] by simp
  have rhead: "in_tree st r head" using s h by simp
  obtain m where m: "roll_descend st target head = Some (Ok m)" "in_tree st r m" "in_tree st m head" "hgt st m = target"
    using roll_descend_spec [OF inv _ rhead, of target] rs w by auto
  obtain k xs where k: "collect_above st (Error Fault ''fork tree branch broken while planning root roll'' None)
      (hgt st ?s) m [] = Some (Ok (k, [] @ rev xs))" "in_tree st r k" "linked st k xs m" "hgt st k = min (hgt st ?s) (hgt st m)"
    using collect_above_spec [OF inv rs m(2)] by blast
  have "in_tree st k head" using linked_in_tree [OF k(3)] m(3) by simp
  then have ks: "k = ?s"
    using ancestors_same_height [OF inv k(2) _ s h] k(4) m(4) w(1) by simp
  then show ?thesis using ops m k w(1) by (simp add: plan_roll_from_def)
qed

lemma validate_chain_spec:
  assumes sh: "tree_shape st r"
  shows "in_tree st r a \<Longrightarrow> linked st a xs n \<Longrightarrow> validate_chain st a xs = Ok n"
proof (induction xs arbitrary: a)
  case (Cons x xs)
  then have e: "child_rel st a x" "linked st x xs n" by auto
  have rx: "in_tree st r x" using Cons.prems(1) e(1) by (meson rtranclp.rtrancl_into_rtrancl)
  show ?case
    using Cons.IH [OF rx e(2)] tree_parent [OF sh rx e(1) Cons.prems(1)] tree_shapeD(5) [OF sh Cons.prems(1) e(1)]
      block_chunk_ops(1) [OF tree_shapeD(3) [OF sh rx]] block_chunk_ops(1) [OF tree_shapeD(3) [OF sh Cons.prems(1)]]
    by simp
qed simp

lemma validate_head_path_spec:
  assumes sh: "tree_shape st r" and m: "in_tree st r m"
  shows "in_tree st m n \<Longrightarrow> validate_head_path st m n = Some (Ok ())"
proof (induction n rule: less_induct)
  case (less n)
  show ?case
  proof (cases "n = m")
    case False
    obtain p where p: "in_tree st m p" "parent_of st n = Ok (Some p)" "p < n"
      by (rule ancestor_parent [OF sh m less.prems]) (use False in auto)
    have rn: "in_tree st r n" using m less.prems by simp
    have "hgt st m < hgt st n" using ancestor_height(2) [OF sh m less.prems] False by auto
    then have "validate_head_path st m n = validate_head_path st m p"
      using p(2) False block_chunk_ops(1) [OF tree_shapeD(3) [OF sh m]] block_chunk_ops(1) [OF tree_shapeD(3) [OF sh rn]]
      by (subst validate_head_path.simps) simp
    with less.IH [OF p(3,1)] show ?thesis by simp
  qed (subst validate_head_path.simps, simp)
qed

lemma validate_roll_spec:
  assumes sh: "tree_shape st (ft_root t)" and c: "linked st (ft_root t) (rj_chain job) (rj_new_root job)"
    and ne: "rj_chain job \<noteq> []" and h: "in_tree st (rj_new_root job) (ft_head t)"
    and e: "rj_expected_root_hash job = hsh st (ft_root t)" "rj_expected_root_height job = hgt st (ft_root t)"
  shows "validate_roll t st job = Some (Ok ())"
proof -
  have r: "in_tree st (ft_root t) (ft_root t)" by simp
  have nr: "in_tree st (ft_root t) (rj_new_root job)" using linked_in_tree [OF c] .
  show ?thesis
    using block_chunk_ops(1,3) [OF tree_shapeD(3) [OF sh r]] block_chunk_ops(1) [OF tree_shapeD(3) [OF sh nr]]
      e ne linked_height [OF sh r c] validate_chain_spec [OF sh r c] validate_head_path_spec [OF sh nr h]
    by (simp add: validate_roll_def wrapping_sub64_def)
qed

section \<open>Attaching a block\<close>

text \<open>A block chunk as execution leaves it: identified, writable, on its parent, without children.\<close>

definition ready_block :: "chunk_store \<Rightarrow> nat \<Rightarrow> nat \<Rightarrow> bool" where
  "ready_block st par chunk \<longleftrightarrow>
     (\<exists>h ident d. cs_chunk st chunk = Some \<lparr>ch_origin = OBlock h (Some ident), ch_source = Parent par,
        ch_body = Writable d, ch_children = []\<rparr>)"

text \<open>Two stores that differ in bodies and children only answer the walks alike.\<close>

definition same_links :: "chunk_store \<Rightarrow> chunk_store \<Rightarrow> bool" where
  "same_links st st' \<longleftrightarrow>
     (\<forall>n. map_option ch_origin (cs_chunk st' n) = map_option ch_origin (cs_chunk st n) \<and>
          map_option ch_source (cs_chunk st' n) = map_option ch_source (cs_chunk st n))"

lemma same_links_at:
  assumes "same_links st st'"
  shows "(cs_chunk st n = None \<and> cs_chunk st' n = None) \<or>
    (\<exists>c c'. cs_chunk st n = Some c \<and> cs_chunk st' n = Some c' \<and> ch_origin c' = ch_origin c \<and> ch_source c' = ch_source c)"
  using assms unfolding same_links_def by (cases "cs_chunk st n"; cases "cs_chunk st' n") (metis map_option_is_None option.distinct(1) option.map(2) option.sel)+

lemma same_links_None: "same_links st st' \<Longrightarrow> cs_chunk st' n = None \<longleftrightarrow> cs_chunk st n = None"
  using same_links_at [of st st' n] by auto

lemma same_links_ops:
  assumes "same_links st st'"
  shows "origin_at st' n = origin_at st n" "height_of st' n = height_of st n"
    "identity_of st' n = identity_of st n" "hash_of st' n = hash_of st n"
    "fork_key_of st' n = fork_key_of st n" "parent_of st' n = parent_of st n"
    "block_chunk st' n \<longleftrightarrow> block_chunk st n" "hgt st' n = hgt st n" "hsh st' n = hsh st n" "fkey st' n = fkey st n"
proof -
  have p: "parent st' c = parent st c" for c
  proof (cases "ch_source c")
    case (Parent p)
    then show ?thesis
      using same_links_None [OF assms, of p] by (cases "cs_chunk st p"; cases "cs_chunk st' p") (simp_all add: parent_def)
  qed (simp add: parent_def)
  have p2: "parent st c' = parent st c" if "ch_source c' = ch_source c" for c c'
    by (simp add: parent_def that)
  show o: "origin_at st' n = origin_at st n"
    using same_links_at [OF assms, of n] by (auto simp: origin_at_def)
  show "height_of st' n = height_of st n" "identity_of st' n = identity_of st n"
    "parent_of st' n = parent_of st n" "block_chunk st' n \<longleftrightarrow> block_chunk st n"
    using same_links_at [OF assms, of n]
    by (auto simp: height_of_def identity_of_def parent_of_def block_chunk_def with_chunk_def block_height_def
        block_identity_of_def p intro: p2)
  then show "hash_of st' n = hash_of st n" "fork_key_of st' n = fork_key_of st n"
    by (simp_all add: hash_of_def fork_key_of_def)
  show "hgt st' n = hgt st n" "hsh st' n = hsh st n" "fkey st' n = fkey st n"
    using o by (simp_all add: hgt_def hsh_def fkey_def ident_at_def)
qed

lemma parent_of_less:
  assumes "chunk_wf st" "parent_of st n = Ok (Some p)"
  shows "p < n"
proof -
  from assms(2) obtain c where c: "cs_chunk st n = Some c" "parent st c = Some p"
    by (auto simp: parent_of_def)
  then have "ch_source c = Parent p"
    by (cases "ch_source c") (auto simp: parent_def split: option.splits)
  with c(1) show ?thesis by (rule chunk_wfD(2) [OF assms(1)])
qed

lemma plan_roll_same_links:
  assumes "chunk_wf st" "same_links st st'"
  shows "plan_roll_from t st' head target = plan_roll_from t st head target"
proof -
  note ops = same_links_ops [OF assms(2)]
  have d: "roll_descend st' tg n = roll_descend st tg n" for tg n
  proof (induction n rule: less_induct)
    case (less n)
    then show ?case
      by (subst (1 2) roll_descend.simps)
        (auto simp: ops split: sum.split option.split dest: parent_of_less [OF assms(1)])
  qed
  have c: "collect_above st' f tg n acc = collect_above st f tg n acc" for f tg n acc
  proof (induction n arbitrary: acc rule: less_induct)
    case (less n)
    then show ?case
      by (subst (1 2) collect_above.simps)
        (auto simp: ops split: sum.split option.split dest: parent_of_less [OF assms(1)])
  qed
  show ?thesis unfolding plan_roll_from_def ops d c ..
qed

lemma attach_child_effect:
  assumes ty: "store_typed st" and par: "block_chunk st par" and rd: "ready_block st par chunk"
  obtains st' where "attach_block_child st par chunk = Ok st'" "store_typed st'" "same_links st st'"
    "\<And>a b. child_rel st' a b \<longleftrightarrow> child_rel st a b \<or> a = par \<and> b = chunk"
    "\<And>n. chunk_view st' n = chunk_view st n"
    "\<And>n. block_tx_hashes (the (cs_chunk st' n)) = block_tx_hashes (the (cs_chunk st n))"
    "\<And>n c. cs_chunk st n = Some c \<Longrightarrow> frozen_state c \<noteq> None \<Longrightarrow>
        frozen_state (the (cs_chunk st' n)) = frozen_state c"
    "cs_disk st' = cs_disk st" "keeps st st'"
proof -
  have wf: "chunk_wf st" using ty by (simp add: store_typed_def)
  from rd obtain h ident d where ch: "cs_chunk st chunk = Some \<lparr>ch_origin = OBlock h (Some ident),
      ch_source = Parent par, ch_body = Writable d, ch_children = []\<rparr>"
    unfolding ready_block_def by blast
  from par obtain pc hp ip where pc: "cs_chunk st par = Some pc" "ch_origin pc = OBlock hp (Some ip)"
    unfolding block_chunk_def by blast
  have lt: "par < chunk" using chunk_wfD(2) [OF wf ch] by simp
  let ?cc = "\<lparr>ch_origin = OBlock h (Some ident), ch_source = Parent par, ch_body = Frozen d, ch_children = []\<rparr>"
  define st' where "st' = put_chunk (put_chunk st chunk ?cc) par (pc\<lparr>ch_children := ch_children pc @ [chunk]\<rparr>)"
  have at: "attach_block_child st par chunk = Ok st'"
    using ch pc lt
    by (simp add: attach_block_child_def is_block_def parent_def block_identity_of_def
        origin_block_identity_def Let_def st'_def)
  have "chunk_step st st'" using at by (rule step_attach)
  then have ty': "store_typed st'" and kp: "keeps st st'"
    using chunk_step_basic [OF ty] basics_typed_keeps ty by blast+
  have look: "cs_chunk st' n = (if n = par then Some (pc\<lparr>ch_children := ch_children pc @ [chunk]\<rparr>)
      else if n = chunk then Some ?cc else cs_chunk st n)" for n
    by (simp add: st'_def)
  have v: "chunk_view st' n = chunk_view st n" for n
    by (rule chunk_view_cong [OF wf]) (use look ch pc in \<open>auto simp: read_part_def st'_def\<close>)
  show ?thesis
  proof (rule that [OF at ty' _ _ v])
    show "same_links st st'" using look ch pc by (simp add: same_links_def)
    show "child_rel st' a b \<longleftrightarrow> child_rel st a b \<or> a = par \<and> b = chunk" for a b
      using look pc ch lt by (auto simp: child_rel_def)
    show "block_tx_hashes (the (cs_chunk st' n)) = block_tx_hashes (the (cs_chunk st n))" for n
      using look pc ch lt by (simp add: block_tx_hashes_def)
    show "frozen_state (the (cs_chunk st' n)) = frozen_state c"
      if "cs_chunk st n = Some c" "frozen_state c \<noteq> None" for n c
      using look [of n] pc ch lt that by (auto simp: frozen_state_def)
    show "cs_disk st' = cs_disk st" by (simp add: st'_def)
    show "keeps st st'" by (rule kp)
  qed
qed

lemma ready_block_facts:
  assumes "tree_shape st r" "ready_block st par chunk"
  shows "block_chunk st chunk" "\<not> child_rel st chunk b" "\<not> in_tree st r chunk"
    "parent_of st chunk = Ok (if cs_chunk st par = None then None else Some par)"
  using assms(2) in_tree_frozen [OF assms(1), of chunk]
  by (auto simp: ready_block_def block_chunk_def child_rel_def parent_of_def parent_def split: option.split)

lemma attach_in_tree:
  assumes sh: "tree_shape st r" and rd: "ready_block st par chunk" and ne: "par \<noteq> chunk"
    and c: "\<And>a b. child_rel st' a b \<longleftrightarrow> child_rel st a b \<or> a = par \<and> b = chunk"
  shows "in_tree st' m n \<longleftrightarrow> in_tree st m n \<or> n = chunk \<and> in_tree st m par"
proof
  assume "in_tree st' m n"
  then show "in_tree st m n \<or> n = chunk \<and> in_tree st m par"
  proof (induction rule: rtranclp_induct)
    case (step y z)
    then show ?case
      using c [of y z] ready_block_facts(2) [OF sh rd] ne by (metis rtranclp.rtrancl_into_rtrancl)
  qed simp
next
  have mono: "in_tree st m n \<Longrightarrow> in_tree st' m n" for n
    by (erule rtranclp_mono [THEN predicate2D, rotated]) (auto simp: c)
  assume "in_tree st m n \<or> n = chunk \<and> in_tree st m par"
  then show "in_tree st' m n"
    using mono c [of par chunk] by (meson rtranclp.rtrancl_into_rtrancl)
qed

lemma same_links_source:
  assumes "same_links st st'" "block_chunk st n"
  shows "ch_source (the (cs_chunk st' n)) = ch_source (the (cs_chunk st n))"
  using same_links_at [OF assms(1), of n] assms(2) by (auto simp: block_chunk_def)

lemma attach_tree_shape:
  assumes sh: "tree_shape st r" and rd: "ready_block st par chunk" and par: "in_tree st r par"
    and h: "hgt st chunk = hgt st par + 1" and ty: "store_typed st'" and sl: "same_links st st'"
    and c: "\<And>a b. child_rel st' a b \<longleftrightarrow> child_rel st a b \<or> a = par \<and> b = chunk"
    and fz: "\<And>n c. cs_chunk st n = Some c \<Longrightarrow> frozen_state c \<noteq> None \<Longrightarrow>
        frozen_state (the (cs_chunk st' n)) = frozen_state c"
  shows "tree_shape st' r"
proof -
  note rf = ready_block_facts [OF sh rd]
  have ne: "par \<noteq> chunk" using par rf(3) by auto
  note it = attach_in_tree [OF sh rd ne c]
  note ops = same_links_ops [OF sl]
  have "block_chunk st' n" if "in_tree st' r n" for n
    using that it rf(1) ops(7) tree_shapeD(3) [OF sh] by blast
  moreover have "ch_source (the (cs_chunk st' b)) = Parent a \<and> hgt st' b = hgt st' a + 1"
    if a: "in_tree st' r a" and e: "child_rel st' a b" for a b
  proof (cases "a = par \<and> b = chunk")
    case True
    then show ?thesis
      using h ops(8) same_links_source [OF sl rf(1)] rd by (auto simp: ready_block_def)
  next
    case False
    with e c have e: "child_rel st a b" by blast
    with a it rf(2) have a: "in_tree st r a" by blast
    with e have "in_tree st r b" by (meson rtranclp.rtrancl_into_rtrancl)
    then show ?thesis
      using tree_shapeD(4,5) [OF sh a e] same_links_source [OF sl tree_shapeD(3) [OF sh]] ops(8) by simp
  qed
  moreover have "\<exists>c d w. cs_chunk st' r = Some c \<and> ch_source c = Disk d \<and> frozen_state c = Some w"
  proof -
    obtain c d w where "cs_chunk st r = Some c" "ch_source c = Disk d" "frozen_state c = Some w"
      using sh unfolding tree_shape_def by blast
    then show ?thesis using same_links_at [OF sl, of r] fz [of r c] by auto
  qed
  ultimately show ?thesis using ty by (simp add: tree_shape_def)
qed

lemma fck_less_irrefl [simp]: "\<not> fck_less a a"
  by (simp add: fck_less_def lexordp_irreflexive)

lemma fck_less_trans: "fck_less a b \<Longrightarrow> fck_less b c \<Longrightarrow> fck_less a c"
  unfolding fck_less_def by (rule lexordp_trans) auto

text \<open>What \<^verbatim>\<open>attach_inner\<close> needs of the block and the tree.\<close>

definition attachable :: "tree_inner \<Rightarrow> chunk_store \<Rightarrow> nat \<Rightarrow> nat \<Rightarrow> nat \<Rightarrow> bool \<Rightarrow> bool" where
  "attachable t st par chunk window linear \<longleftrightarrow>
     ready_block st par chunk \<and>
     in_tree st (ft_root t) par \<and> in_tree st (ft_scheduled_root t) par \<and>
     hgt st chunk = hgt st par + 1 \<and>
     (\<forall>n. in_tree st (ft_root t) n \<longrightarrow> hsh st n \<noteq> hsh st chunk) \<and>
     0 < window \<and> hgt st (ft_scheduled_root t) + window < 2 ^ 64 \<and>
     (linear \<longrightarrow> par = ft_head t \<and> fck_less (fkey st (ft_head t)) (fkey st chunk))"

definition over_window :: "tree_inner \<Rightarrow> chunk_store \<Rightarrow> nat \<Rightarrow> nat \<Rightarrow> bool \<Rightarrow> bool" where
  "over_window t st chunk window linear \<longleftrightarrow>
     fck_less (fkey st (ft_head t)) (fkey st chunk) \<and>
     hgt st (ft_scheduled_root t) + window < hgt st chunk + (if linear then 1 else 0)"

definition planned_roll :: "chunk_store \<Rightarrow> nat \<Rightarrow> nat \<Rightarrow> nat \<Rightarrow> roll_job \<Rightarrow> bool" where
  "planned_roll st from head step job \<longleftrightarrow>
     rj_expected_root_hash job = hsh st from \<and> rj_expected_root_height job = hgt st from \<and>
     linked st from (rj_chain job) (rj_new_root job) \<and> in_tree st (rj_new_root job) head \<and>
     hgt st (rj_new_root job) = hgt st from + step"

lemma attach_plan:
  assumes inv: "tree_inv t st" and at: "attachable t st par chunk window linear"
    and st': "tree_shape st' (ft_root t)" "same_links st st'"
      "in_tree st' (ft_root t) (ft_scheduled_root t)" "in_tree st' (ft_scheduled_root t) chunk"
    and w: "over_window t st chunk window linear"
  shows "\<exists>job. plan_roll_from t st chunk (hgt st (ft_scheduled_root t) + (if linear then window else 1)) = Some (Ok job) \<and>
    planned_roll st' (ft_scheduled_root t) chunk (if linear then window else 1) job"
proof -
  let ?target = "hgt st (ft_scheduled_root t) + (if linear then window else 1)"
  note ops = same_links_ops [OF st'(2)]
  have "hgt st' (ft_scheduled_root t) < ?target" "?target \<le> hgt st' chunk"
    using at w ops(8) by (auto simp: attachable_def over_window_def split: if_splits)
  then obtain job where "plan_roll_from t st' chunk ?target = Some (Ok job)"
    "rj_expected_root_hash job = hsh st' (ft_scheduled_root t)"
    "rj_expected_root_height job = hgt st' (ft_scheduled_root t)"
    "linked st' (ft_scheduled_root t) (rj_chain job) (rj_new_root job)"
    "in_tree st' (rj_new_root job) chunk" "hgt st' (rj_new_root job) = ?target"
    using plan_roll_spec [OF st'(1,3,4)] by blast
  then show ?thesis
    using plan_roll_same_links [OF tree_invD(3) [OF inv] st'(2)] ops(8)
    by (intro exI [of _ job]) (simp add: planned_roll_def)
qed

lemma block_chunk_raw:
  assumes "block_chunk st n"
  shows "with_chunk st n block_height = Ok (hgt st n)" "with_chunk st n block_identity_of = Ok (ident_at st n)"
  using assms
  by (auto simp: block_chunk_def block_height_def block_identity_of_def hgt_def ident_at_def origin_at_def
      origin_block_height_def origin_block_identity_def)

lemma attach_inner_eval:
  assumes inv: "tree_inv t st" and at: "attachable t st par chunk window linear"
    and ac: "attach_block_child st par chunk = Ok st'"
    and roll: "(if over_window t st chunk window linear
       then bind_ro (plan_roll_from t st chunk (hgt st (ft_scheduled_root t) + (if linear then window else 1)))
              (\<lambda>job. Some (Ok (Some job)))
       else Some (Ok None)) = Some (Ok roll)"
    and diff: "(if fck_less (fkey st (ft_head t)) (fkey st chunk) then canonical_tx_diff st' (ft_head t) chunk
        else Some (Ok \<lparr>td_confirmed = [], td_reverted = []\<rparr>)) = Some (Ok diff)"
  shows "attach_inner t st (hsh st par) chunk window linear = Some (Ok
    (\<lparr>ins_is_head = fck_less (fkey st (ft_head t)) (fkey st chunk),
      ins_reorg = (fck_less (fkey st (ft_head t)) (fkey st chunk) \<and> par \<noteq> ft_head t), ins_roll = roll,
      ins_confirmed_txs = td_confirmed diff, ins_reverted_txs = td_reverted diff\<rparr>,
     (if fck_less (fkey st (ft_head t)) (fkey st chunk)
      then t\<lparr>ft_head := chunk, ft_epoch := wrapping_add64 (ft_epoch t) 1,
             ft_scheduled_root := (case roll of Some job \<Rightarrow> rj_new_root job | None \<Rightarrow> ft_scheduled_root t)\<rparr>
      else t), st'))"
proof -
  note sh = tree_invD(1) [OF inv]
  have rd: "ready_block st par chunk" and par: "in_tree st (ft_root t) par"
    and h: "hgt st chunk = hgt st par + 1" and new: "\<And>n. in_tree st (ft_root t) n \<Longrightarrow> hsh st n \<noteq> hsh st chunk"
    and win: "hgt st (ft_scheduled_root t) + window < 2 ^ 64"
    and lin: "linear \<Longrightarrow> par = ft_head t \<and> fck_less (fkey st (ft_head t)) (fkey st chunk)"
    using at by (auto simp: attachable_def)
  note rf = ready_block_facts [OF sh rd]
  have pb: "block_chunk st par" using tree_inv_block [OF inv par] .
  then have live: "cs_chunk st par \<noteq> None" by (auto simp: block_chunk_def)
  have f1: "tree_find t st (hsh st par) = Some (Ok (Some par))" by (rule tree_find_node [OF inv par])
  have f2: "tree_find t st (bid_hash (ident_at st chunk)) = Some (Ok None)"
    unfolding hsh_def [symmetric] by (rule tree_find_None [OF inv new])
  have hh: "fork_key_of st (ft_head t) = Ok (fkey st (ft_head t))"
    by (rule block_chunk_ops(4) [OF tree_inv_block [OF inv tree_invD(4) [OF inv]]])
  have hs: "height_of st (ft_scheduled_root t) = Ok (hgt st (ft_scheduled_root t))"
    by (rule block_chunk_ops(1) [OF tree_inv_block [OF inv tree_invD(5) [OF inv]]])
  have sat: "saturating_add64 (hgt st (ft_scheduled_root t)) window = hgt st (ft_scheduled_root t) + window"
    using win by (simp add: saturating_add64_def)
  have ow: "(fck_less (fkey st (ft_head t)) (fkey st chunk) \<and>
      (if linear then hgt st (ft_scheduled_root t) + window \<le> hgt st chunk
       else hgt st (ft_scheduled_root t) + window < hgt st chunk)) = over_window t st chunk window linear"
    by (auto simp: over_window_def)
  have key: "bid_fork_choice (ident_at st chunk) = fkey st chunk" by (simp add: fkey_def)
  have po: "parent_of st chunk = Ok (Some par)" using rf(4) live by simp
  have nl: "\<not> (linear \<and> par \<noteq> ft_head t)"
    "\<not> (linear \<and> (\<not> fck_less (fkey st (ft_head t)) (fkey st chunk) \<or>
        fck_less (fkey st (ft_head t)) (fkey st chunk) \<and> par \<noteq> ft_head t))"
    using lin by auto
  show ?thesis
    unfolding attach_inner_def block_chunk_raw [OF rf(1)] bind_ro_simps f1 option.case
      block_chunk_ops(1) [OF pb] h f2 po key hh hs sat Let_def ow [unfolded h]
    using roll diff ac nl ow [unfolded h] by (simp add: h)
qed

text \<open>
  A block that fits is accepted: \<^verbatim>\<open>attach_inner\<close> returns, the invariant holds again, the head is the
  new block exactly when its key is greater, no view changes, and a root advance is planned from
  the scheduled root to an ancestor of the new head exactly when the window is exceeded.
\<close>

definition attach_result ::
  "tree_inner \<Rightarrow> chunk_store \<Rightarrow> nat \<Rightarrow> nat \<Rightarrow> nat \<Rightarrow> bool \<Rightarrow> inserted \<Rightarrow> tree_inner \<Rightarrow> chunk_store \<Rightarrow> bool" where
  "attach_result t st par chunk window linear ins t' st' \<longleftrightarrow>
     tree_inv t' st' \<and> ft_root t' = ft_root t \<and> same_links st st' \<and> keeps st st' \<and>
     cs_disk st' = cs_disk st \<and> (\<forall>n. chunk_view st' n = chunk_view st n) \<and>
     (\<forall>a b. child_rel st' a b \<longleftrightarrow> child_rel st a b \<or> a = par \<and> b = chunk) \<and>
     (\<forall>m n. in_tree st' m n \<longleftrightarrow> in_tree st m n \<or> n = chunk \<and> in_tree st m par) \<and>
     (ins_is_head ins \<longleftrightarrow> fck_less (fkey st (ft_head t)) (fkey st chunk)) \<and>
     ft_head t' = (if ins_is_head ins then chunk else ft_head t) \<and>
     (case ins_roll ins of
        None \<Rightarrow> \<not> over_window t st chunk window linear \<and> ft_scheduled_root t' = ft_scheduled_root t
      | Some job \<Rightarrow>
          over_window t st chunk window linear \<and>
          planned_roll st' (ft_scheduled_root t) chunk (if linear then window else 1) job \<and>
          ft_scheduled_root t' = rj_new_root job)"

lemma attach_inner_spec:
  assumes inv: "tree_inv t st" and at: "attachable t st par chunk window linear"
  shows "\<exists>ins t' st'. attach_inner t st (hsh st par) chunk window linear = Some (Ok (ins, t', st')) \<and>
    attach_result t st par chunk window linear ins t' st'"
proof -
  note sh = tree_invD(1) [OF inv]
  have rd: "ready_block st par chunk" and par: "in_tree st (ft_root t) par" "in_tree st (ft_scheduled_root t) par"
    and h: "hgt st chunk = hgt st par + 1" and new: "\<And>n. in_tree st (ft_root t) n \<Longrightarrow> hsh st n \<noteq> hsh st chunk"
    using at by (auto simp: attachable_def)
  obtain st' where ac: "attach_block_child st par chunk = Ok st'" and ty: "store_typed st'" and sl: "same_links st st'"
    and c: "\<And>a b. child_rel st' a b \<longleftrightarrow> child_rel st a b \<or> a = par \<and> b = chunk"
    and v: "\<And>n. chunk_view st' n = chunk_view st n"
    and tx: "\<And>n. block_tx_hashes (the (cs_chunk st' n)) = block_tx_hashes (the (cs_chunk st n))"
    and fz: "\<And>n c. cs_chunk st n = Some c \<Longrightarrow> frozen_state c \<noteq> None \<Longrightarrow>
        frozen_state (the (cs_chunk st' n)) = frozen_state c"
    and dk: "cs_disk st' = cs_disk st" and kp: "keeps st st'"
    by (rule attach_child_effect [OF tree_invD(2) [OF inv] tree_inv_block [OF inv par(1)] rd]) blast
  have sh': "tree_shape st' (ft_root t)" by (rule attach_tree_shape [OF sh rd par(1) h ty sl c fz])
  have "par \<noteq> chunk" using ready_block_facts(3) [OF sh rd] par(1) by auto
  note it = attach_in_tree [OF sh rd this c]
  note ops = same_links_ops [OF sl]
  have s': "in_tree st' (ft_root t) (ft_scheduled_root t)" "in_tree st' (ft_scheduled_root t) chunk"
    "in_tree st' (ft_root t) chunk" "in_tree st' (ft_root t) (ft_head t)" "in_tree st' (ft_scheduled_root t) (ft_head t)"
    using it par tree_invD(4,5,6) [OF inv] by auto
  let ?up = "fck_less (fkey st (ft_head t)) (fkey st chunk)"
  let ?ow = "over_window t st chunk window linear"
  let ?step = "if linear then window else 1"
  obtain roll where roll: "(if ?ow
       then bind_ro (plan_roll_from t st chunk (hgt st (ft_scheduled_root t) + ?step)) (\<lambda>job. Some (Ok (Some job)))
       else Some (Ok None)) = Some (Ok roll)" "roll = None \<longleftrightarrow> \<not> ?ow"
    "\<And>job. roll = Some job \<Longrightarrow> planned_roll st' (ft_scheduled_root t) chunk ?step job"
    using attach_plan [OF inv at sh' sl s'(1,2)] by (cases ?ow) auto
  obtain diff where diff: "(if ?up then canonical_tx_diff st' (ft_head t) chunk
        else Some (Ok \<lparr>td_confirmed = [], td_reverted = []\<rparr>)) = Some (Ok diff)"
    using canonical_tx_diff_spec [OF sh' s'(4,3)] by (cases ?up) auto
  let ?t' = "if ?up
      then t\<lparr>ft_head := chunk, ft_epoch := wrapping_add64 (ft_epoch t) 1,
             ft_scheduled_root := (case roll of Some job \<Rightarrow> rj_new_root job | None \<Rightarrow> ft_scheduled_root t)\<rparr>
      else t"
  have ou: "?ow \<Longrightarrow> ?up" by (simp add: over_window_def)
  have job: "in_tree st' (ft_root t) (rj_new_root job) \<and> in_tree st' (rj_new_root job) chunk" if "roll = Some job" for job
    using roll(3) [OF that] s'(1) linked_in_tree unfolding planned_roll_def by (metis rtranclp_trans)
  have sched: "in_tree st' (ft_root t) (ft_scheduled_root ?t')" "in_tree st' (ft_scheduled_root ?t') (ft_head ?t')"
    using s' job by (auto split: option.split)
  have hv: "\<not> fck_less (fkey st' (ft_head ?t')) (fkey st' n)" if "in_tree st' (ft_root t) n" for n
  proof (cases "n = chunk")
    case False
    then have "\<not> fck_less (fkey st (ft_head t)) (fkey st n)" using that it tree_invD(7) [OF inv] by blast
    then show ?thesis using fck_less_trans by (auto simp: ops)
  qed (auto simp: ops)
  have uq: "n = m" if "in_tree st' (ft_root t) n" "in_tree st' (ft_root t) m" "hsh st' n = hsh st' m" for n m
    using that it new tree_invD(8) [OF inv] unfolding ops by metis
  have inv': "tree_inv ?t' st'"
    unfolding tree_inv_def
  proof (intro conjI allI impI)
    have rt: "ft_root ?t' = ft_root t" by simp
    show "tree_shape st' (ft_root ?t')" unfolding rt by (rule sh')
    show "in_tree st' (ft_root ?t') (ft_scheduled_root ?t')" unfolding rt by (rule sched(1))
    show "in_tree st' (ft_scheduled_root ?t') (ft_head ?t')" by (rule sched(2))
    show "\<not> fck_less (fkey st' (ft_head ?t')) (fkey st' n)" if "in_tree st' (ft_root ?t') n" for n
      using that unfolding rt by (rule hv)
    show "n = m" if "in_tree st' (ft_root ?t') n" "in_tree st' (ft_root ?t') m" "hsh st' n = hsh st' m" for n m
      using that unfolding rt by (rule uq)
  qed
  have "attach_result t st par chunk window linear
      \<lparr>ins_is_head = ?up, ins_reorg = (?up \<and> par \<noteq> ft_head t), ins_roll = roll,
        ins_confirmed_txs = td_confirmed diff, ins_reverted_txs = td_reverted diff\<rparr> ?t' st'"
    unfolding attach_result_def using inv' sl kp dk v c it roll(2,3) ou by (auto split: option.split)
  then show ?thesis using attach_inner_eval [OF inv at ac roll(1) diff] by blast
qed

section \<open>Persisting a root advance\<close>

definition root_marker :: "bytes \<Rightarrow> bool" where
  "root_marker key \<longleftrightarrow> key = PERSIST_KEY_ROOT_HASH \<or> key = PERSIST_KEY_ROOT_HEIGHT"

text \<open>The durable root: its own overlay is on its disk already.\<close>

definition durable_root :: "chunk_store \<Rightarrow> nat \<Rightarrow> nat \<Rightarrow> bool" where
  "durable_root st r disk \<longleftrightarrow>
     (\<exists>c d. cs_chunk st r = Some c \<and> ch_source c = Disk disk \<and> ch_body c = Frozen d \<and>
        (\<forall>key v. \<not> root_marker key \<longrightarrow> dl_state d key = Some v \<longrightarrow> cs_disk st disk key = Ok v))"

lemma durable_root_view:
  assumes "durable_root st r disk" "\<not> root_marker key"
  shows "chunk_view st r key = disk_try_read (cs_disk st disk) key"
proof -
  from assms(1) obtain c d where c: "cs_chunk st r = Some c" "ch_source c = Disk disk" "ch_body c = Frozen d"
    "\<And>v. dl_state d key = Some v \<Longrightarrow> cs_disk st disk key = Ok v"
    using assms(2) unfolding durable_root_def by blast
  then show ?thesis
    by (cases "dl_state d key")
      (auto simp: chunk_view_Some [OF c(1)] source_view_def apply_delta_def disk_try_read_def layer_get_def)
qed

text \<open>The overlays of a branch, oldest first, as one overlay.\<close>

lemma batch_chain_spec:
  assumes sh: "tree_shape st r"
  shows "in_tree st r a \<Longrightarrow> linked st a xs n \<Longrightarrow>
    \<exists>m. batch_chain st xs acc = Ok (acc ++ m) \<and> chunk_view st n = apply_delta m (chunk_view st a)"
proof (induction xs arbitrary: a acc)
  case Nil
  then show ?case by (intro exI [of _ Map.empty]) simp
next
  case (Cons x xs)
  then have e: "child_rel st a x" "linked st x xs n" by auto
  have rx: "in_tree st r x" using Cons.prems(1) e(1) by (meson rtranclp.rtrancl_into_rtrancl)
  obtain c d where c: "cs_chunk st x = Some c" "ch_body c = Frozen d" using in_tree_frozen [OF sh rx] by blast
  have src: "ch_source c = Parent a" using tree_shapeD(4) [OF sh Cons.prems(1) e(1)] c(1) by simp
  obtain m where m: "batch_chain st xs (acc ++ dl_state d) = Ok ((acc ++ dl_state d) ++ m)"
    "chunk_view st n = apply_delta m (chunk_view st x)"
    using Cons.IH [OF rx e(2)] by blast
  have "chunk_view st x = apply_delta (dl_state d) (chunk_view st a)"
    using chunk_view_Some [OF c(1)] c(2) src by (simp add: source_view_def)
  then have "chunk_view st n = apply_delta (dl_state d ++ m) (chunk_view st a)"
    using m(2) apply_delta_simps(4) [of "dl_state d" m] by (simp add: memkv_extend_def)
  moreover have "batch_chain st (x # xs) acc = Ok (acc ++ (dl_state d ++ m))"
    using m(1) c by (simp add: frozen_state_def memkv_extend_def)
  ultimately show ?case by blast
qed

lemma batch_chain_last:
  assumes "batch_chain st (xs @ [n]) acc = Ok m" "cs_chunk st n = Some c" "ch_body c = Frozen d" "dl_state d key = Some v"
  shows "m key = Some v"
  using assms(1)
proof (induction xs arbitrary: acc)
  case Nil
  then show ?case using assms by (auto simp: frozen_state_def memkv_extend_def map_add_def)
qed auto

text \<open>A write to a disk changes no chunk.\<close>

lemma disk_write_shape:
  assumes "tree_shape st r"
  shows "tree_shape (st\<lparr>cs_disk := f\<rparr>) r"
proof -
  let ?s = "st\<lparr>cs_disk := f\<rparr>"
  have "store_typed ?s"
    using basic_typed [OF basic_disk] tree_shapeD(1) [OF assms] by blast
  moreover have "child_rel ?s = child_rel st" "block_chunk ?s = block_chunk st" "hgt ?s = hgt st"
    by (auto simp: child_rel_def block_chunk_def hgt_def origin_at_def fun_eq_iff)
  ultimately show ?thesis using assms by (simp add: tree_shape_def)
qed

lemma linked_disk [simp]: "linked (st\<lparr>cs_disk := f\<rparr>) a xs n = linked st a xs n"
  by (induction xs arbitrary: a) (auto simp: child_rel_def)

lemma at_disk [simp]:
  "hsh (st\<lparr>cs_disk := f\<rparr>) n = hsh st n" "hgt (st\<lparr>cs_disk := f\<rparr>) n = hgt st n"
  "fkey (st\<lparr>cs_disk := f\<rparr>) n = fkey st n" "child_rel (st\<lparr>cs_disk := f\<rparr>) = child_rel st"
  by (auto simp: hsh_def hgt_def fkey_def ident_at_def origin_at_def child_rel_def fun_eq_iff)

text \<open>Promoting a node to the root keeps the subtree above it.\<close>

lemma promote_effect:
  assumes ty: "store_typed st" and c: "cs_chunk st n = Some c" "ch_origin c = OBlock h (Some ident)"
    "ch_body c = Frozen d" "ch_source c = Parent p"
    and s: "s = put_chunk st n (c\<lparr>ch_source := Disk disk\<rparr>)"
  shows "promote_to_root st n disk = Ok s" "store_typed s" "child_rel s = child_rel st"
    "origin_at s = origin_at st" "block_chunk s m \<longleftrightarrow> block_chunk st m" "keeps st s"
proof -
  show pr: "promote_to_root st n disk = Ok s"
    using c by (simp add: promote_to_root_def is_block_def frozen_state_def s)
  have "chunk_step st s" using pr by (rule step_promote)
  then show "store_typed s" "keeps st s" using chunk_step_basic [OF ty] basics_typed_keeps ty by blast+
  show "child_rel s = child_rel st" "origin_at s = origin_at st" "block_chunk s m \<longleftrightarrow> block_chunk st m"
    using c by (auto simp: child_rel_def origin_at_def block_chunk_def fun_eq_iff s)
qed

lemma promote_shape:
  assumes sh: "tree_shape st r" and n: "in_tree st r n" and c: "cs_chunk st n = Some c" "ch_origin c = OBlock h (Some ident)"
    "ch_body c = Frozen d" "ch_source c = Parent p"
  shows "tree_shape (put_chunk st n (c\<lparr>ch_source := Disk disk\<rparr>)) n" (is "tree_shape ?s n")
proof -
  note pe = promote_effect [OF tree_shapeD(1) [OF sh] c refl, of disk]
  have hg: "hgt ?s = hgt st" by (simp add: hgt_def pe(4) fun_eq_iff)
  have up: "in_tree st r m" if "in_tree st n m" for m using n that by simp
  have "ch_source (the (cs_chunk ?s b)) = Parent a \<and> hgt ?s b = hgt ?s a + 1"
    if a: "in_tree st n a" and e: "child_rel st a b" for a b
  proof -
    have "n \<le> a" using in_tree_le [OF a tree_shapeD(1) [OF sh]] .
    then have "b \<noteq> n" using child_rel_less(1) [OF tree_shapeD(1) [OF sh] e] by simp
    then show ?thesis using tree_shapeD(4,5) [OF sh up [OF a] e] hg by simp
  qed
  then show ?thesis
    using pe up tree_shapeD(3) [OF sh] c by (simp add: tree_shape_def frozen_state_def)
qed

lemma roll_new_root:
  assumes sh: "tree_shape st r" and pl: "planned_roll st r head step job" and st: "0 < step"
  obtains c h ident d p xs where "in_tree st r (rj_new_root job)" "cs_chunk st (rj_new_root job) = Some c"
    "ch_origin c = OBlock h (Some ident)" "ch_body c = Frozen d" "ch_source c = Parent p"
    "rj_chain job = xs @ [rj_new_root job]"
proof -
  have l: "linked st r (rj_chain job) (rj_new_root job)" using pl by (simp add: planned_roll_def)
  have nr: "in_tree st r (rj_new_root job)" using linked_in_tree [OF l] .
  have "length (rj_chain job) = step"
    using linked_height [OF sh _ l] pl by (simp add: planned_roll_def)
  then have "rj_chain job \<noteq> []" using st by auto
  then obtain xs y where xs: "rj_chain job = xs @ [y]" by (metis rev_exhaust)
  then have y: "y = rj_new_root job" "\<exists>m. linked st r xs m \<and> child_rel st m (rj_new_root job)"
    using l by (auto simp: linked_snoc)
  then obtain m where m: "linked st r xs m" "child_rel st m (rj_new_root job)" by blast
  obtain c d where c: "cs_chunk st (rj_new_root job) = Some c" "ch_body c = Frozen d"
    using in_tree_frozen [OF sh nr] by blast
  moreover obtain h ident where "ch_origin c = OBlock h (Some ident)"
    using tree_shapeD(3) [OF sh nr] c(1) by (auto simp: block_chunk_def)
  moreover have "ch_source c = Parent m"
    using tree_shapeD(4) [OF sh linked_in_tree [OF m(1)] m(2)] c(1) by simp
  ultimately show ?thesis using that nr xs y(1) by blast
qed

lemma promoted_view:
  assumes sh: "tree_shape st r" and n: "in_tree st r n"
    and c: "cs_chunk st n = Some c" "ch_origin c = OBlock h (Some ident)" "ch_body c = Frozen d" "ch_source c = Parent p"
    and s: "s = put_chunk (st\<lparr>cs_disk := f\<rparr>) n (c\<lparr>ch_source := Disk disk\<rparr>)"
    and base: "chunk_view s n key = chunk_view st n key"
  shows "in_tree st n m \<Longrightarrow> chunk_view s m key = chunk_view st m key"
proof (induction rule: rtranclp_induct)
  case (step y z)
  have ry: "in_tree st r y" using n step.hyps(1) by simp
  have rz: "in_tree st r z" using ry step.hyps(2) by (meson rtranclp.rtrancl_into_rtrancl)
  obtain cz dz where cz: "cs_chunk st z = Some cz" "ch_body cz = Frozen dz" using in_tree_frozen [OF sh rz] by blast
  have src: "ch_source cz = Parent y" using tree_shapeD(4) [OF sh ry step.hyps(2)] cz(1) by simp
  have "n \<le> y" using in_tree_le [OF step.hyps(1) tree_shapeD(1) [OF sh]] .
  then have "z \<noteq> n" using child_rel_less(1) [OF tree_shapeD(1) [OF sh] step.hyps(2)] by simp
  then have cz': "cs_chunk s z = Some cz" using cz(1) by (simp add: s)
  show ?case
    unfolding chunk_view_Some [OF cz'] chunk_view_Some [OF cz(1)] using step.IH src
    by (simp add: source_view_def apply_delta_def split: option.split)
qed (rule base)

text \<open>
  Moving the durable root: the batch is written, the new root is promoted, the tree above it is
  the tree as before, and every view in it is as before except at the two root markers.
\<close>

definition roll_result ::
  "tree_inner \<Rightarrow> chunk_store \<Rightarrow> nat \<Rightarrow> roll_job \<Rightarrow> chunk_store \<Rightarrow> bool" where
  "roll_result t st disk job st' \<longleftrightarrow>
     tree_inv (t\<lparr>ft_root := rj_new_root job\<rparr>) st' \<and> durable_root st' (rj_new_root job) disk \<and>
     (\<forall>n key. in_tree st (rj_new_root job) n \<longrightarrow> \<not> root_marker key \<longrightarrow> chunk_view st' n key = chunk_view st n key) \<and>
     cs_disk st' disk PERSIST_KEY_ROOT_HEIGHT = Ok (Some (to_be_bytes 8 (hgt st (rj_new_root job)))) \<and>
     cs_disk st' disk PERSIST_KEY_ROOT_HASH = Ok (Some (hsh st (rj_new_root job))) \<and>
     hgt st' = hgt st \<and> hsh st' = hsh st \<and> fkey st' = fkey st \<and> child_rel st' = child_rel st \<and> keeps st st'"

lemma roll_root_spec:
  assumes inv: "tree_inv t st" and du: "durable_root st (ft_root t) disk"
    and pl: "planned_roll st (ft_root t) (ft_head t) step job" and sp: "0 < step"
    and sc: "in_tree st (rj_new_root job) (ft_scheduled_root t)"
  shows "\<exists>st'. roll_root t st disk (Ok ()) job = Some (Ok (t\<lparr>ft_root := rj_new_root job\<rparr>, st')) \<and>
    roll_result t st disk job st'"
proof -
  let ?r = "ft_root t" and ?n = "rj_new_root job"
  note sh = tree_invD(1) [OF inv]
  have l: "linked st ?r (rj_chain job) ?n" and nh: "in_tree st ?n (ft_head t)"
    and ex: "rj_expected_root_hash job = hsh st ?r" "rj_expected_root_height job = hgt st ?r"
    using pl by (auto simp: planned_roll_def)
  obtain c h ident d p xs where nr: "in_tree st ?r ?n" and c: "cs_chunk st ?n = Some c"
    "ch_origin c = OBlock h (Some ident)" "ch_body c = Frozen d" "ch_source c = Parent p"
    and xs: "rj_chain job = xs @ [?n]"
    by (rule roll_new_root [OF sh pl sp])
  have ne: "rj_chain job \<noteq> []" using xs by simp
  obtain m where m: "batch_chain st (rj_chain job) Map.empty = Ok m"
    "chunk_view st ?n = apply_delta m (chunk_view st ?r)"
    using batch_chain_spec [OF sh _ l, of Map.empty] by auto
  note ops = block_chunk_ops [OF tree_shapeD(3) [OF sh nr]]
  define batch where "batch = memkv_put (memkv_put m PERSIST_KEY_ROOT_HASH (hsh st ?n))
      PERSIST_KEY_ROOT_HEIGHT (to_be_bytes 8 (hgt st ?n))"
  have rb: "root_batch st job = Ok batch" using m(1) ops by (simp add: root_batch_def batch_def)
  define f where "f = (cs_disk st)(disk := disk_try_write (cs_disk st disk) batch)"
  define s where "s = put_chunk (st\<lparr>cs_disk := f\<rparr>) ?n (c\<lparr>ch_source := Disk disk\<rparr>)"
  have sh1: "tree_shape (st\<lparr>cs_disk := f\<rparr>) ?r" using sh by (rule disk_write_shape)
  have v0: "validate_roll t st job = Some (Ok ())" by (rule validate_roll_spec [OF sh l ne nh ex])
  have v1: "validate_roll t (st\<lparr>cs_disk := f\<rparr>) job = Some (Ok ())"
    by (rule validate_roll_spec [OF sh1]) (use l ne nh ex in auto)
  have c1: "cs_chunk (st\<lparr>cs_disk := f\<rparr>) ?n = Some c" using c by simp
  note pe = promote_effect [OF tree_shapeD(1) [OF sh1] c1 c(2,3,4) s_def]
  have eqs: "hgt s = hgt st" "hsh s = hsh st" "fkey s = fkey st" "child_rel s = child_rel st"
    using pe(3,4) at_disk by (auto simp: hgt_def hsh_def fkey_def ident_at_def origin_at_def fun_eq_iff)
  have kp: "keeps st s"
    using keeps_trans [OF basic_keeps [OF basic_disk] pe(6)] tree_invD(3) [OF inv] by blast
  have shs: "tree_shape s ?n"
    unfolding s_def by (rule promote_shape [OF sh1 _ c1 c(2,3,4)]) (use nr in simp)
  let ?t' = "t\<lparr>ft_root := ?n\<rparr>"
  have sub: "in_tree st ?r k" if "in_tree st ?n k" for k using nr that by simp
  have inv': "tree_inv ?t' s"
    unfolding tree_inv_def using shs sc tree_invD(6,7,8) [OF inv] sub by (simp add: eqs)
  have "hash_of s (ft_head t) = Ok (hsh s (ft_head t))"
    by (rule block_chunk_ops(3)) (use tree_inv_block [OF inv'] nh eqs in simp)
  moreover have "tree_find ?t' s (hsh s (ft_head t)) = Some (Ok (Some (ft_head t)))"
    by (rule tree_find_node [OF inv']) (use nh eqs in simp)
  moreover obtain rc where "cs_chunk st ?r = Some rc" "ch_source rc = Disk disk"
    using du by (auto simp: durable_root_def)
  ultimately have "commit_roll t (st\<lparr>cs_disk := f\<rparr>) job = Some (Ok (?t', s))"
    using v1 pe(1) by (simp add: commit_roll_def chunk_disk_def Let_def)
  then have rr: "roll_root t st disk (Ok ()) job = Some (Ok (?t', s))"
    using v0 rb by (simp add: roll_root_def f_def [symmetric] Let_def)
  have nk: "PERSIST_KEY_ROOT_HASH \<noteq> PERSIST_KEY_ROOT_HEIGHT"
    by (simp add: PERSIST_KEY_ROOT_HASH_def PERSIST_KEY_ROOT_HEIGHT_def)
  have bk: "batch key = m key" if "\<not> root_marker key" for key
    using that by (auto simp: batch_def memkv_put_def root_marker_def)
  have mk: "m key = Some v" if "dl_state d key = Some v" for key v
    using batch_chain_last [OF m(1) [unfolded xs] c(1,3) that] .
  have dv: "cs_disk s disk key = Ok v" if "\<not> root_marker key" "dl_state d key = Some v" for key v
    using bk [OF that(1)] mk [OF that(2)] by (simp add: s_def f_def disk_try_write_def apply_delta_def)
  have dur: "durable_root s ?n disk"
    using c(3) dv by (auto simp: durable_root_def s_def)
  have base: "chunk_view s ?n key = chunk_view st ?n key" if "\<not> root_marker key" for key
    unfolding durable_root_view [OF dur that] m(2)
    using durable_root_view [OF du that] bk [OF that]
    by (simp add: s_def f_def disk_try_write_def apply_delta_def disk_try_read_def layer_get_def split: option.split)
  have "chunk_view s n key = chunk_view st n key" if "in_tree st ?n n" "\<not> root_marker key" for n key
    using promoted_view [OF sh nr c s_def base [OF that(2)] that(1)] .
  moreover have "cs_disk s disk PERSIST_KEY_ROOT_HEIGHT = Ok (Some (to_be_bytes 8 (hgt st ?n)))"
    "cs_disk s disk PERSIST_KEY_ROOT_HASH = Ok (Some (hsh st ?n))"
    using nk by (simp_all add: s_def f_def disk_try_write_def apply_delta_def batch_def layer_set_def memkv_put_def)
  ultimately have "roll_result t st disk job s"
    unfolding roll_result_def using inv' dur eqs kp by simp
  with rr show ?thesis by blast
qed

end
