(* ===== verification/StrictChain.thy ===== *)
theory StrictChain
  imports ForkTreeProps
begin

text \<open>
  The steps of a node in strict mode over the fork tree: blocks begin execution on a tree node,
  transactions and AST branches write into child chunks, an executed block is attached after the
  range check of \<^verbatim>\<open>insert_block\<close> (\<^verbatim>\<open>src/chain/src/apply.rs\<close>), and a planned root advance is persisted at
  once (\<^verbatim>\<open>chain/src/persist.rs\<close>). Each step keeps \<open>strict_inv\<close>: the invariants of \<open>ForkTreeProps\<close>, and a
  head at most the unstable window above the durable root.
\<close>

section \<open>Execution work\<close>

text \<open>The range check at the start of \<^verbatim>\<open>insert_block\<close>.\<close>

definition insertable_height :: "tree_inner \<Rightarrow> chunk_store \<Rightarrow> nat \<Rightarrow> unit ret" where
  "insertable_height t st height =
     try_ret (root_height t st) (\<lambda>root_h.
     try_ret (head_height t st) (\<lambda>head_h.
     if height \<le> root_h \<or> head_h + 1 < height then errf ''block height outside insertable range''
     else Ok ()))"

text \<open>The steps of executing a block: they allocate chunks and change writable chunks only.\<close>

inductive work_step :: "tree_inner \<Rightarrow> chunk_store \<Rightarrow> chunk_store \<Rightarrow> bool" where
  work_exec: "begin_block_execution_pinned t st ph blk key = Some (Ok (Some r, st')) \<Longrightarrow> work_step t st st'"
| work_spawn_tx: "spawn_tx_child st p h = Ok (i, st') \<Longrightarrow> work_step t st st'"
| work_spawn_ast: "spawn_ast_child st p = Ok (i, st') \<Longrightarrow> work_step t st st'"
| work_commit: "commit_to_parent st i = Ok (p, st') \<Longrightarrow> work_step t st st'"
| work_discard: "discard st i = Ok st' \<Longrightarrow> work_step t st st'"
| work_set: "chunk_set st i key v = Ok st' \<Longrightarrow> work_step t st st'"
| work_del: "chunk_del st i key = Ok st' \<Longrightarrow> work_step t st st'"
| work_log: "emit_log st i entry = Ok st' \<Longrightarrow> work_step t st st'"
| work_drop: "\<not> in_tree st (ft_root t) i \<Longrightarrow> work_step t st (drop_chunk st i)"

definition childless :: "chunk_store \<Rightarrow> bool" where
  "childless st \<longleftrightarrow> (\<forall>n c. cs_chunk st n = Some c \<longrightarrow> is_writable c \<longrightarrow> ch_children c = [])"

text \<open>What such a step leaves alone: the frozen chunks and the disks.\<close>

definition keeps_frozen :: "chunk_store \<Rightarrow> chunk_store \<Rightarrow> bool" where
  "keeps_frozen st st' \<longleftrightarrow>
     (\<forall>n c d. cs_chunk st n = Some c \<longrightarrow> ch_body c = Frozen d \<longrightarrow> cs_chunk st' n = Some c) \<and>
     cs_disk st' = cs_disk st"

lemma new_chunk_frame:
  assumes "chunk_wf st" "new_chunk st org src = (i, st')" "childless st"
  shows "keeps_frozen st st'" "childless st'"
proof -
  have "cs_chunk st (cs_next st) = None"
    using assms(1) by (cases "cs_chunk st (cs_next st)") (auto dest: live_below_next)
  then show "keeps_frozen st st'"
    using assms(2) by (auto simp: keeps_frozen_def new_chunk_def with_body_def Let_def)
  show "childless st'"
    using assms(2,3) by (auto simp: childless_def new_chunk_def with_body_def Let_def split: if_splits)
qed

lemma put_writable_frame:
  assumes "cs_chunk st i = Some c" "ch_body c = Writable d" "childless st" "ch_children c' = ch_children c"
  shows "keeps_frozen st (put_chunk st i c')" "childless (put_chunk st i c')"
  using assms by (auto simp: keeps_frozen_def childless_def is_writable_def)

lemma mutate_frame:
  assumes "mutate_delta st i f = Ok st'" "childless st"
  shows "keeps_frozen st st' \<and> childless st'"
proof -
  from assms(1) obtain c d where "cs_chunk st i = Some c" "ch_body c = Writable d"
    "st' = put_chunk st i (c\<lparr>ch_body := Writable (f d)\<rparr>)"
    by (auto simp: mutate_delta_def split: option.splits)
  then show ?thesis using put_writable_frame [OF _ _ assms(2)] by simp
qed

lemma keeps_frozen_trans: "keeps_frozen a b \<Longrightarrow> keeps_frozen b c \<Longrightarrow> keeps_frozen a c"
  unfolding keeps_frozen_def by metis

lemma commit_frame:
  assumes "chunk_wf st" "commit_to_parent st i = Ok (p, st')" "childless st"
  shows "keeps_frozen st st' \<and> childless st'"
proof -
  from assms(2) obtain c pc target child where c: "cs_chunk st i = Some c"
    and pc: "cs_chunk st p = Some pc"
    and t: "ch_body pc = Writable target" and ch: "ch_body c = Writable child"
    and st': "st' = put_chunk (put_chunk st i (c\<lparr>ch_body := Consumed\<rparr>)) p
          (pc\<lparr>ch_body := Writable (merge_delta (ch_origin c) target child)\<rparr>)"
    by (auto simp: commit_to_parent_def split: if_splits option.splits prod.splits)
  let ?s = "put_chunk st i (c\<lparr>ch_body := Consumed\<rparr>)"
  have s: "keeps_frozen st ?s" "childless ?s" using put_writable_frame [OF c ch assms(3)] by auto
  have "p \<noteq> i" using commit_spec(3) [OF assms(1,2)] by simp
  then have "cs_chunk ?s p = Some pc" using pc by simp
  from put_writable_frame [OF this t s(2)] show ?thesis
    unfolding st' using keeps_frozen_trans [OF s(1)] by simp
qed

lemma work_step_frame:
  assumes "work_step t st st'" "tree_inv t st" "childless st"
  shows "childless st'" "store_typed st'" "\<And>n. in_tree st (ft_root t) n \<Longrightarrow> cs_chunk st' n = cs_chunk st n"
    "cs_disk st' = cs_disk st"
proof -
  note wf = tree_invD(3) [OF assms(2)]
  have typed: "store_typed s" if "chunk_step st s" for s
    using chunk_step_basic [OF tree_invD(2) [OF assms(2)] that] basics_typed_keeps tree_invD(2) [OF assms(2)] by blast
  have fr: "cs_chunk s n = cs_chunk st n" if "keeps_frozen st s" "in_tree st (ft_root t) n" for s n
    using that in_tree_frozen [OF tree_invD(1) [OF assms(2)] that(2)] unfolding keeps_frozen_def by auto
  have goal: "childless st' \<and> store_typed st' \<and> (\<forall>n. in_tree st (ft_root t) n \<longrightarrow> cs_chunk st' n = cs_chunk st n) \<and>
    cs_disk st' = cs_disk st" if "keeps_frozen st st'" "childless st'" "chunk_step st st'"
    using that fr [OF that(1)] typed [OF that(3)] by (auto simp: keeps_frozen_def)
  have "childless st' \<and> store_typed st' \<and> (\<forall>n. in_tree st (ft_root t) n \<longrightarrow> cs_chunk st' n = cs_chunk st n) \<and>
    cs_disk st' = cs_disk st"
    using assms(1)
  proof cases
    case (work_exec ph blk key r)
    then obtain par i where e: "block_exec_on st par blk key = Ok (i, st')"
      by (auto simp: begin_block_execution_pinned_def split: option.splits if_splits)
    then obtain org src where "new_chunk st org src = (i, st')"
      by (auto simp: block_exec_on_def Let_def split: if_splits)
    from new_chunk_frame [OF wf this assms(3)] show ?thesis using goal step_exec [OF e] by blast
  next
    case (work_spawn_tx p h i)
    then obtain org src where "new_chunk st org src = (i, st')"
      by (auto simp: spawn_tx_child_def split: if_splits)
    from new_chunk_frame [OF wf this assms(3)] show ?thesis using goal step_spawn_tx [OF work_spawn_tx] by blast
  next
    case (work_spawn_ast p i)
    then obtain org src where "new_chunk st org src = (i, st')"
      by (auto simp: spawn_ast_child_def split: if_splits)
    from new_chunk_frame [OF wf this assms(3)] show ?thesis using goal step_spawn_ast [OF work_spawn_ast] by blast
  next
    case (work_commit i p)
    then show ?thesis using commit_frame [OF wf _ assms(3)] goal step_commit by blast
  next
    case (work_discard i)
    then obtain c d where "cs_chunk st i = Some c" "ch_body c = Writable d" "st' = put_chunk st i (c\<lparr>ch_body := Consumed\<rparr>)"
      by (auto simp: discard_def split: if_splits option.splits prod.splits)
    then show ?thesis using put_writable_frame [OF _ _ assms(3)] goal step_discard [OF work_discard] by simp
  next
    case (work_set i key v)
    then show ?thesis using mutate_frame [OF _ assms(3)] goal step_set unfolding chunk_set_def by blast
  next
    case (work_del i key)
    then show ?thesis using mutate_frame [OF _ assms(3)] goal step_del unfolding chunk_del_def by blast
  next
    case (work_log i entry)
    then show ?thesis using mutate_frame [OF _ assms(3)] goal step_log unfolding emit_log_def by blast
  next
    case (work_drop i)
    then show ?thesis using typed step_drop assms(3) by (auto simp: drop_chunk_def childless_def split: if_splits)
  qed
  then show "childless st'" "store_typed st'" "\<And>n. in_tree st (ft_root t) n \<Longrightarrow> cs_chunk st' n = cs_chunk st n"
    "cs_disk st' = cs_disk st" by auto
qed

text \<open>Work outside the tree keeps the tree.\<close>

lemma frame_tree:
  assumes eq: "\<And>n. in_tree st r n \<Longrightarrow> cs_chunk st' n = cs_chunk st n" and a: "in_tree st r a"
  shows "in_tree st' a n \<longleftrightarrow> in_tree st a n"
proof
  assume "in_tree st' a n"
  then show "in_tree st a n"
  proof (induction rule: rtranclp_induct)
    case (step y z)
    then have "in_tree st r y" using a by simp
    then have "child_rel st y z" using step.hyps(2) eq by (simp add: child_rel_def)
    with step.IH show ?case by (rule rtranclp.rtrancl_into_rtrancl)
  qed simp
next
  assume "in_tree st a n"
  then show "in_tree st' a n"
  proof (induction rule: rtranclp_induct)
    case (step y z)
    then have "in_tree st r y" using a by simp
    then have "child_rel st' y z" using step.hyps(2) eq by (simp add: child_rel_def)
    with step.IH show ?case by (rule rtranclp.rtrancl_into_rtrancl)
  qed simp
qed

lemma frame_at:
  assumes "cs_chunk st' n = cs_chunk st n"
  shows "hgt st' n = hgt st n" "hsh st' n = hsh st n" "fkey st' n = fkey st n"
    "block_chunk st' n \<longleftrightarrow> block_chunk st n" "child_rel st' n b \<longleftrightarrow> child_rel st n b"
  using assms by (simp_all add: hgt_def hsh_def fkey_def ident_at_def origin_at_def block_chunk_def child_rel_def)

lemma frame_inv:
  assumes inv: "tree_inv t st" and ty: "store_typed st'"
    and eq: "\<And>n. in_tree st (ft_root t) n \<Longrightarrow> cs_chunk st' n = cs_chunk st n"
  shows "tree_inv t st'"
proof -
  have it: "in_tree st' a n \<longleftrightarrow> in_tree st a n" if "in_tree st (ft_root t) a" for a n
    using eq that by (rule frame_tree)
  have rt: "in_tree st' (ft_root t) n \<longleftrightarrow> in_tree st (ft_root t) n" for n using it by blast
  note at = frame_at [OF eq]
  note sh = tree_invD(1) [OF inv]
  have "ch_source (the (cs_chunk st' b)) = Parent a \<and> hgt st' b = hgt st' a + 1"
    if "in_tree st (ft_root t) a" "child_rel st' a b" for a b
  proof -
    have e: "child_rel st a b" using that at(5) by blast
    then have b: "in_tree st (ft_root t) b" using that(1) by (meson rtranclp.rtrancl_into_rtrancl)
    show ?thesis using tree_shapeD(4,5) [OF sh that(1) e] at(1) that(1) b eq [OF b] by simp
  qed
  then have sh': "tree_shape st' (ft_root t)"
    using sh ty at(4) eq unfolding tree_shape_def rt by auto
  have s: "in_tree st' (ft_scheduled_root t) (ft_head t)"
    using it [OF tree_invD(5) [OF inv]] tree_invD(6) [OF inv] by blast
  show ?thesis
    unfolding tree_inv_def rt using sh' s tree_invD(4,5,7,8) [OF inv] at(2,3) by auto
qed

section \<open>Attaching, from the code's own checks\<close>

lemma attach_Ok_attachable:
  assumes inv: "tree_inv t st" and cl: "childless st" and sc: "ft_scheduled_root t = ft_root t"
    and w: "0 < window" "hgt st (ft_root t) + window < 2 ^ 64"
    and at: "attach t st ph chunk window = Some (Ok (ins, t', st'))"
  obtains par where "ph = hsh st par" "attachable t st par chunk window False"
proof -
  from at obtain height ident par h where
    ch: "with_chunk st chunk block_height = Ok height" "with_chunk st chunk block_identity_of = Ok ident"
    and f: "tree_find t st ph = Some (Ok (Some par))" and hp: "height_of st par = Ok h" "height = h + 1"
    and dup: "tree_find t st (bid_hash ident) = Some (Ok None)"
    and ac: "\<exists>s. attach_block_child st par chunk = Ok s"
    unfolding attach_def attach_inner_def
    by (auto simp: Let_def split: option.splits if_splits)
  obtain r where "tree_find t st ph = Some (Ok r)" "\<forall>n. r = Some n \<longleftrightarrow> in_tree st (ft_root t) n \<and> hsh st n = ph"
    using tree_find_spec [OF inv] by blast
  with f have par: "in_tree st (ft_root t) par" "hsh st par = ph" by auto
  obtain r where r: "tree_find t st (bid_hash ident) = Some (Ok r)"
    "\<forall>n. r = Some n \<longleftrightarrow> in_tree st (ft_root t) n \<and> hsh st n = bid_hash ident"
    using tree_find_spec [OF inv] by blast
  with dup have new: "\<And>n. in_tree st (ft_root t) n \<Longrightarrow> hsh st n \<noteq> bid_hash ident" by auto
  from ac obtain s where "attach_block_child st par chunk = Ok s" by blast
  then obtain cc d h' ident' where cc: "cs_chunk st chunk = Some cc"
    "ch_origin cc = OBlock h' (Some ident')" "ch_source cc = Parent par" "ch_body cc = Writable d"
    using attach_cases [OF tree_invD(3) [OF inv]] by metis
  then have "ch_children cc = []" using cl by (auto simp: childless_def is_writable_def)
  with cc have rd: "ready_block st par chunk"
    unfolding ready_block_def by (cases cc) auto
  note raw = block_chunk_raw [OF ready_block_facts(1) [OF tree_invD(1) [OF inv] rd]]
  have "height = hgt st chunk" "ident = ident_at st chunk"
    using raw ch by (metis sum.inject(2))+
  moreover have "h = hgt st par" using block_chunk_ops(1) [OF tree_inv_block [OF inv par(1)]] hp(1) by simp
  ultimately have "attachable t st par chunk window False"
    using rd par hp(2) new w sc by (simp add: attachable_def hsh_def)
  with par(2) show ?thesis using that by blast
qed

section \<open>The invariant of a strict node\<close>

definition strict_inv :: "nat \<Rightarrow> nat \<Rightarrow> tree_inner \<Rightarrow> chunk_store \<Rightarrow> bool" where
  "strict_inv window disk t st \<longleftrightarrow>
     tree_inv t st \<and> childless st \<and> durable_root st (ft_root t) disk \<and>
     ft_scheduled_root t = ft_root t \<and> hgt st (ft_head t) \<le> hgt st (ft_root t) + window"

lemma tree_new_inv:
  assumes "tree_new (cs_empty disks) disk genesis = (t, st)"
  shows "strict_inv window disk t st"
proof -
  let ?c = "\<lparr>ch_origin = OBlock (blk_height genesis) (Some \<lparr>bid_hash = blk_hash genesis, bid_block = genesis,
      bid_fork_choice = fck_from_height (blk_height genesis)\<rparr>), ch_source = Disk disk,
      ch_body = Frozen delta_default, ch_children = []\<rparr>"
  have t: "t = \<lparr>ft_root = 0, ft_scheduled_root = 0, ft_head = 0, ft_epoch = 0\<rparr>"
    and st: "new_root (cs_empty disks) disk genesis = (0, st)" and c: "cs_chunk st = [0 \<mapsto> ?c]"
    using assms by (auto simp: tree_new_def root_chunk_def new_root_def with_body_def cs_empty_def Let_def)
  have ty: "store_typed st"
    using chunk_reach_typed [OF chunk_reach_step [OF chunk_reach_empty step_root [OF st]]] .
  have nc: "\<not> child_rel st a b" for a b using c by (auto simp: child_rel_def)
  have it: "in_tree st a b \<longleftrightarrow> a = b" for a b
    by (metis converse_rtranclpE nc rtranclp.rtrancl_refl)
  have "tree_shape st 0"
    unfolding tree_shape_def it using ty c nc by (auto simp: block_chunk_def frozen_state_def)
  then have "tree_inv t st" by (simp add: tree_inv_def t it)
  moreover have "childless st" "durable_root st 0 disk"
    using c by (auto simp: childless_def durable_root_def delta_default_def split: if_splits)
  ultimately show ?thesis by (simp add: strict_inv_def t)
qed

lemma childless_keeps:
  assumes cl: "childless st" and k: "keeps st st'" and wf: "chunk_wf st" "chunk_wf st'" and ty: "store_typed st'"
    and cr: "\<And>a b. child_rel st' a b \<Longrightarrow> child_rel st a b \<or> (\<exists>c d. cs_chunk st a = Some c \<and> ch_body c = Frozen d)"
  shows "childless st'"
  unfolding childless_def
proof (intro allI impI)
  fix n c' assume c': "cs_chunk st' n = Some c'" and w: "is_writable c'"
  show "ch_children c' = []"
  proof (rule ccontr)
    assume "ch_children c' \<noteq> []"
    then obtain b where "child_rel st' n b" using c' by (cases "ch_children c'") (auto simp: child_rel_def)
    with cr have "\<exists>c. cs_chunk st n = Some c \<and> \<not> is_writable c"
      using cl unfolding child_rel_def childless_def is_writable_def by fastforce
    then obtain c where c: "cs_chunk st n = Some c" "\<not> is_writable c" by blast
    obtain c0 where "cs_chunk st n = Some c0" "body_next (ch_body c0) (ch_body c')"
      by (rule keepsD [OF k live_below_next [OF wf(1) c(1)] c'])
    then show False using c w by (auto simp: body_next_def is_writable_def)
  qed
qed

lemma durable_root_keeps:
  assumes du: "durable_root st r disk" and k: "keeps st st'" and sl: "same_links st st'" and wf: "chunk_wf st"
    and dk: "cs_disk st' = cs_disk st"
  shows "durable_root st' r disk"
proof -
  from du obtain c d where c: "cs_chunk st r = Some c" "ch_source c = Disk disk" "ch_body c = Frozen d"
    "\<forall>key v. \<not> root_marker key \<longrightarrow> dl_state d key = Some v \<longrightarrow> cs_disk st disk key = Ok v"
    unfolding durable_root_def by blast
  obtain c' where c': "cs_chunk st' r = Some c'" "ch_source c' = ch_source c"
    using same_links_at [OF sl, of r] c(1) by auto
  obtain c0 where "cs_chunk st r = Some c0" "body_next (ch_body c0) (ch_body c')"
    by (rule keepsD [OF k live_below_next [OF wf c(1)] c'(1)])
  then have "ch_body c' = Frozen d" using c(1,3) by (auto simp: body_next_def)
  with c c' dk show ?thesis by (auto simp: durable_root_def)
qed

text \<open>One insertion of a block that the code accepts, with what it gives.\<close>

lemma strict_attach:
  assumes inv: "strict_inv window disk t st" and w: "0 < window"
    and h: "with_chunk st chunk block_height = Ok height" "insertable_height t st height = Ok ()" "height + window < 2 ^ 64"
    and at: "attach t st ph chunk window = Some (Ok (ins, t', st'))"
  shows "tree_inv t' st'" "childless st'" "durable_root st' (ft_root t') disk" "ft_root t' = ft_root t"
    "ins_roll ins = None \<Longrightarrow> strict_inv window disk t' st'"
    "ins_roll ins = Some job \<Longrightarrow>
       planned_roll st' (ft_root t') (ft_head t') 1 job \<and> ft_scheduled_root t' = rj_new_root job \<and>
       hgt st' (ft_head t') \<le> hgt st' (rj_new_root job) + window"
proof -
  have ti: "tree_inv t st" and cl: "childless st" and du: "durable_root st (ft_root t) disk"
    and sc: "ft_scheduled_root t = ft_root t" and hw: "hgt st (ft_head t) \<le> hgt st (ft_root t) + window"
    using inv by (auto simp: strict_inv_def)
  have hr: "root_height t st = Ok (hgt st (ft_root t))" "head_height t st = Ok (hgt st (ft_head t))"
    using block_chunk_ops(1) [OF tree_inv_block [OF ti]] tree_invD(4) [OF ti] by (simp_all add: root_height_def head_height_def)
  have range: "hgt st (ft_root t) < height" "height \<le> hgt st (ft_head t) + 1"
    using h(2) hr by (auto simp: insertable_height_def split: if_splits)
  obtain par where par: "ph = hsh st par" "attachable t st par chunk window False"
    by (rule attach_Ok_attachable [OF ti cl sc w _ at]) (use range(1) h(3) in auto)
  have rd: "ready_block st par chunk" using par(2) by (simp add: attachable_def)
  have hc: "height = hgt st chunk"
    using block_chunk_raw(1) [OF ready_block_facts(1) [OF tree_invD(1) [OF ti] rd]] h(1) by (metis sum.inject(2))
  have res: "attach_result t st par chunk window False ins t' st'"
    using attach_inner_spec [OF ti par(2)] at par(1) by (auto simp: attach_def)
  have ti': "tree_inv t' st'" and rt: "ft_root t' = ft_root t" and sl: "same_links st st'" and kp: "keeps st st'"
    and dk: "cs_disk st' = cs_disk st"
    and cr: "\<And>a b. child_rel st' a b \<longleftrightarrow> child_rel st a b \<or> a = par \<and> b = chunk"
    and up: "ins_is_head ins \<longleftrightarrow> fck_less (fkey st (ft_head t)) (fkey st chunk)"
    and hd: "ft_head t' = (if ins_is_head ins then chunk else ft_head t)"
    using res by (simp_all add: attach_result_def)
  note ops = same_links_ops [OF sl]
  have fz: "\<exists>c d. cs_chunk st par = Some c \<and> ch_body c = Frozen d"
    using in_tree_frozen [OF tree_invD(1) [OF ti]] par(2) by (simp add: attachable_def)
  show cl': "childless st'"
    by (rule childless_keeps [OF cl kp tree_invD(3) [OF ti] tree_invD(3) [OF ti'] tree_invD(2) [OF ti']])
      (use cr fz in auto)
  show du': "durable_root st' (ft_root t') disk"
    unfolding rt by (rule durable_root_keeps [OF du kp sl tree_invD(3) [OF ti] dk])
  show "tree_inv t' st'" "ft_root t' = ft_root t" by (fact ti', fact rt)
  show "strict_inv window disk t' st'" if n: "ins_roll ins = None"
  proof -
    have "\<not> over_window t st chunk window False" "ft_scheduled_root t' = ft_scheduled_root t"
      using res n by (simp_all add: attach_result_def)
    then have "hgt st' (ft_head t') \<le> hgt st' (ft_root t') + window"
      using hd up hw sc rt ops(8) by (auto simp: over_window_def)
    then show ?thesis using ti' cl' du' rt sc \<open>ft_scheduled_root t' = ft_scheduled_root t\<close> by (simp add: strict_inv_def)
  qed
  show "planned_roll st' (ft_root t') (ft_head t') 1 job \<and> ft_scheduled_root t' = rj_new_root job \<and>
       hgt st' (ft_head t') \<le> hgt st' (rj_new_root job) + window" if j: "ins_roll ins = Some job"
  proof -
    have "over_window t st chunk window False" and pl: "planned_roll st' (ft_root t) chunk 1 job"
      and "ft_scheduled_root t' = rj_new_root job"
      using res j sc by (simp_all add: attach_result_def)
    then have "ft_head t' = chunk" using hd up by (simp add: over_window_def)
    moreover have "hgt st' chunk \<le> hgt st' (rj_new_root job) + window"
      using pl ops(8) hc range hw by (simp add: planned_roll_def)
    ultimately show ?thesis using pl rt \<open>ft_scheduled_root t' = rj_new_root job\<close> by simp
  qed
qed

lemma strict_roll:
  assumes ti: "tree_inv t st" and cl: "childless st" and du: "durable_root st (ft_root t) disk"
    and job: "planned_roll st (ft_root t) (ft_head t) 1 job" "ft_scheduled_root t = rj_new_root job"
      "hgt st (ft_head t) \<le> hgt st (rj_new_root job) + window"
  obtains st' where "roll_root t st disk (Ok ()) job = Some (Ok (t\<lparr>ft_root := rj_new_root job\<rparr>, st'))"
    "strict_inv window disk (t\<lparr>ft_root := rj_new_root job\<rparr>) st'"
proof -
  obtain st' where r: "roll_root t st disk (Ok ()) job = Some (Ok (t\<lparr>ft_root := rj_new_root job\<rparr>, st'))"
    and res: "roll_result t st disk job st'"
    using roll_root_spec [OF ti du job(1)] job(2) by auto
  have ti': "tree_inv (t\<lparr>ft_root := rj_new_root job\<rparr>) st'" and du': "durable_root st' (rj_new_root job) disk"
    and hg: "hgt st' = hgt st" and cr: "child_rel st' = child_rel st" and kp: "keeps st st'"
    using res by (simp_all add: roll_result_def)
  have "childless st'"
    by (rule childless_keeps [OF cl kp tree_invD(3) [OF ti] tree_invD(3) [OF ti'] tree_invD(2) [OF ti']])
      (use cr in simp)
  then have "strict_inv window disk (t\<lparr>ft_root := rj_new_root job\<rparr>) st'"
    using ti' du' hg job by (simp add: strict_inv_def)
  with r show ?thesis by (rule that)
qed

lemma work_strict_inv:
  assumes "strict_inv window disk t st" "work_step t st st'"
  shows "strict_inv window disk t st'"
proof -
  have ti: "tree_inv t st" "childless st" using assms(1) by (auto simp: strict_inv_def)
  note f = work_step_frame [OF assms(2) ti]
  have r: "in_tree st (ft_root t) (ft_root t)" by simp
  have "durable_root st' (ft_root t) disk"
    using assms(1) f(3) [OF r] f(4) by (simp add: strict_inv_def durable_root_def)
  moreover have "hgt st' (ft_head t) = hgt st (ft_head t)" "hgt st' (ft_root t) = hgt st (ft_root t)"
    by (rule frame_at(1) [OF f(3) [OF tree_invD(4) [OF ti(1)]]], rule frame_at(1) [OF f(3) [OF r]])
  ultimately show ?thesis
    using frame_inv [OF ti(1) f(2) f(3)] f(1) assms(1) by (simp add: strict_inv_def)
qed

text \<open>A fitting block is accepted, and the root advance it asks for goes through.\<close>

lemma strict_accepts:
  assumes inv: "tree_inv t st" and du: "durable_root st (ft_root t) disk" and sc: "ft_scheduled_root t = ft_root t"
    and at: "attachable t st par chunk window False"
  shows "\<exists>ins t' st'. attach t st (hsh st par) chunk window = Some (Ok (ins, t', st')) \<and>
    attach_result t st par chunk window False ins t' st' \<and>
    (\<forall>job. ins_roll ins = Some job \<longrightarrow>
       (\<exists>st''. roll_root t' st' disk (Ok ()) job = Some (Ok (t'\<lparr>ft_root := rj_new_root job\<rparr>, st'')) \<and>
          roll_result t' st' disk job st''))"
proof -
  obtain ins t' st' where r: "attach t st (hsh st par) chunk window = Some (Ok (ins, t', st'))"
    and res: "attach_result t st par chunk window False ins t' st'"
    using attach_inner_spec [OF inv at] by (auto simp: attach_def)
  have ti': "tree_inv t' st'" and rt: "ft_root t' = ft_root t" and sl: "same_links st st'" and kp: "keeps st st'"
    and dk: "cs_disk st' = cs_disk st" and hd: "ft_head t' = (if ins_is_head ins then chunk else ft_head t)"
    and up: "ins_is_head ins \<longleftrightarrow> fck_less (fkey st (ft_head t)) (fkey st chunk)"
    using res by (simp_all add: attach_result_def)
  have du': "durable_root st' (ft_root t') disk"
    unfolding rt by (rule durable_root_keeps [OF du kp sl tree_invD(3) [OF inv] dk])
  have "\<exists>st''. roll_root t' st' disk (Ok ()) job = Some (Ok (t'\<lparr>ft_root := rj_new_root job\<rparr>, st'')) \<and>
          roll_result t' st' disk job st''" if j: "ins_roll ins = Some job" for job
  proof -
    have "over_window t st chunk window False" and pl: "planned_roll st' (ft_root t') chunk 1 job"
      and s: "ft_scheduled_root t' = rj_new_root job"
      using res j sc rt by (simp_all add: attach_result_def)
    then have "ft_head t' = chunk" using hd up by (simp add: over_window_def)
    with pl have pl: "planned_roll st' (ft_root t') (ft_head t') 1 job" by simp
    show ?thesis by (rule roll_root_spec [OF ti' du' pl]) (simp_all add: s)
  qed
  with r res show ?thesis by blast
qed

end
