(* ===== verification/BlockVerify.thy ===== *)
theory BlockVerify
  imports StateChunk
begin

text \<open>
  The protocol checks of a block before execution, \<^verbatim>\<open>src/chain/src/verify.rs\<close>: wire limits, linkage to the
  parent, timestamps, the layout of the transactions and the merkle root over them. The hash
  function of \<^verbatim>\<open>sys::calculate_hash\<close> comes from a library and is a parameter, as are the limits of the
  consensus and the clock.
\<close>

section \<open>Blocks and transactions\<close>

text \<open>The methods of the transaction object that the chain calls.\<close>

record tx_view =
  tx_ty :: nat
  tx_is_block_prelude :: bool
  tx_hash :: bytes
  tx_hash_with_fee :: bytes
  tx_size :: nat
  tx_action_count :: nat
  tx_actions_len :: nat
  tx_timestamp :: nat
  tx_main :: address
  tx_addrs :: "address list"
  tx_fee :: amount
  tx_fee_got :: amount
  tx_author :: "address option"
  tx_fee_receiver :: "address option"

record block = block_ref +
  blk_mrklroot :: bytes
  blk_transaction_count :: nat
  blk_transactions :: "tx_view list"

record mint_params =
  mp_max_block_txs :: nat
  mp_max_block_size :: nat
  mp_max_tx_size :: nat
  mp_difficulty_adjust_blocks :: nat
  mp_difficulty_group_blocks :: nat
  mp_each_block_target_time :: nat

definition tx_exceeds_max_size :: "nat \<Rightarrow> nat \<Rightarrow> bool" where
  "tx_exceeds_max_size sz mx = (0 < mx \<and> mx < sz)"

definition check_intrinsic :: "mint_params \<Rightarrow> nat \<Rightarrow> block \<Rightarrow> unit ret" where
  "check_intrinsic params pkg_size blk =
     (if 0 < mp_max_block_txs params \<and> mp_max_block_txs params < blk_transaction_count blk
      then errf ''block tx count exceeds max''
      else if 0 < mp_max_block_size params \<and> mp_max_block_size params + 100 < pkg_size
      then errf ''block wire size exceeds max payload plus header allowance''
      else Ok ())"

section \<open>Merkle root\<close>

fun merkle_next :: "(bytes \<Rightarrow> bytes) \<Rightarrow> bytes list \<Rightarrow> bytes list" where
  "merkle_next H [] = []"
| "merkle_next H [a] = [H (a @ a)]"
| "merkle_next H (a # b # rest) = H (a @ b) # merkle_next H rest"

lemma length_merkle_next: "length (merkle_next H xs) = (length xs + 1) div 2"
  by (induction H xs rule: merkle_next.induct) auto

function merkle_loop :: "(bytes \<Rightarrow> bytes) \<Rightarrow> bytes list \<Rightarrow> bytes list" where
  "merkle_loop H layer = (if length layer > 1 then merkle_loop H (merkle_next H layer) else layer)"
  by auto
termination by (relation "measure (length \<circ> snd)") (auto simp: length_merkle_next)

declare merkle_loop.simps [simp del]

definition merkle_root :: "(bytes \<Rightarrow> bytes) \<Rightarrow> bytes list \<Rightarrow> bytes" where
  "merkle_root H list = (if list = [] then replicate 32 0 else hd (merkle_loop H list))"

section \<open>Verification against the parent\<close>

fun verify_txs :: "mint_params \<Rightarrow> nat \<Rightarrow> nat \<Rightarrow> nat \<Rightarrow> tx_view list \<Rightarrow> bytes list \<Rightarrow> nat \<Rightarrow> (bytes list \<times> nat) ret" where
  "verify_txs params now prelude_ty idx [] hashes total_size = Ok (hashes, total_size)"
| "verify_txs params now prelude_ty idx (tx # txs) hashes total_size =
     (if 0 < idx \<and> tx_is_block_prelude tx then errf ''prelude transaction cannot appear at this index''
      else if 0 < idx \<and> tx_ty tx = prelude_ty then errf ''tx must not repeat the prelude type''
      else if 0 < idx \<and> tx_action_count tx \<noteq> tx_actions_len tx
      then errf ''tx action count does not match its decoded actions''
      else if 0 < idx \<and> now < tx_timestamp tx then errf ''tx timestamp is in the future''
      else if tx_exceeds_max_size (tx_size tx) (mp_max_tx_size params) then errf ''tx size exceeds max''
      else verify_txs params now prelude_ty (idx + 1) txs (hashes @ [tx_hash_with_fee tx]) (total_size + tx_size tx))"

definition verify_block :: "(bytes \<Rightarrow> bytes) \<Rightarrow> mint_params \<Rightarrow> nat \<Rightarrow> block \<Rightarrow> block_ref \<Rightarrow> unit ret" where
  "verify_block H params now blk prev =
     (case blk_transactions blk of
        [] \<Rightarrow> errf ''block has no transactions; a prelude transaction is required''
      | prelude # rest \<Rightarrow>
        if blk_transaction_count blk \<noteq> length (blk_transactions blk)
        then errf ''block tx count does not match the decoded transactions''
        else if \<not> tx_is_block_prelude prelude
        then errf ''block first transaction must be a prelude transaction''
        else if blk_prev_hash blk \<noteq> blk_hash prev then errf ''block prev hash does not match parent''
        else if now < blk_timestamp blk then errf ''block timestamp is in the future''
        else if blk_timestamp blk \<le> blk_timestamp prev
        then errf ''block timestamp must be later than parent timestamp''
        else
          try_ret (verify_txs params now (tx_ty prelude) 0 (blk_transactions blk) [] 0) (\<lambda>(hashes, total_size).
          if 0 < mp_max_block_size params \<and> mp_max_block_size params < total_size
          then errf ''block transaction payload exceeds max''
          else if merkle_root H hashes \<noteq> blk_mrklroot blk
          then errf ''block merkle root does not match its transactions''
          else Ok ()))"

section \<open>The merkle root binds the transactions\<close>

text \<open>
  Two lists of one length with one root are equal, unless the computation of the roots itself met
  two strings with one hash: \<open>merkle_inputs\<close> lists the strings that are hashed on the way.
\<close>

fun merkle_pairs :: "bytes list \<Rightarrow> bytes list" where
  "merkle_pairs [] = []"
| "merkle_pairs [a] = [a @ a]"
| "merkle_pairs (a # b # rest) = (a @ b) # merkle_pairs rest"

lemma merkle_next_pairs: "merkle_next H xs = map H (merkle_pairs xs)"
  by (induction xs rule: merkle_pairs.induct) simp_all

function merkle_inputs :: "(bytes \<Rightarrow> bytes) \<Rightarrow> bytes list \<Rightarrow> bytes list" where
  "merkle_inputs H layer =
     (if length layer > 1 then merkle_pairs layer @ merkle_inputs H (merkle_next H layer) else [])"
  by auto
termination by (relation "measure (length \<circ> snd)") (auto simp: length_merkle_next)

declare merkle_inputs.simps [simp del]

definition no_clash :: "(bytes \<Rightarrow> bytes) \<Rightarrow> bytes list \<Rightarrow> bytes list \<Rightarrow> bool" where
  "no_clash H xs ys \<longleftrightarrow> (\<forall>a\<in>set xs. \<forall>b\<in>set ys. H a = H b \<longrightarrow> a = b)"

definition hashes_ok :: "bytes list \<Rightarrow> bool" where
  "hashes_ok xs \<longleftrightarrow> (\<forall>x\<in>set xs. length x = 32)"

lemma merkle_next_ok: "\<forall>x. length (H x) = 32 \<Longrightarrow> hashes_ok (merkle_next H xs)"
  by (auto simp: hashes_ok_def merkle_next_pairs)

lemma map_no_clash: "no_clash H xs ys \<Longrightarrow> map H xs = map H ys \<Longrightarrow> xs = ys"
proof (induction xs arbitrary: ys)
  case (Cons x xs)
  then show ?case by (cases ys) (auto simp: no_clash_def)
qed simp

lemma merkle_pairs_inj:
  "length xs = length ys \<Longrightarrow> hashes_ok xs \<Longrightarrow> hashes_ok ys \<Longrightarrow> merkle_pairs xs = merkle_pairs ys \<Longrightarrow> xs = ys"
proof (induction xs arbitrary: ys rule: induct_list012)
  case (2 a)
  then obtain b where "ys = [b]" by (metis length_0_conv length_Suc_conv)
  then show ?case using 2 by (simp add: hashes_ok_def)
next
  case (3 a b xs)
  then obtain c d zs where ys: "ys = c # d # zs" by (metis length_Suc_conv)
  have "xs = zs" by (rule 3(1)) (use 3(3-6) ys in \<open>auto simp: hashes_ok_def\<close>)
  then show ?case using 3(3-6) unfolding ys by (auto simp: hashes_ok_def)
qed simp

lemma merkle_loop_inj:
  assumes H: "\<forall>x. length (H x) = 32"
  shows "no_clash H (merkle_inputs H xs) (merkle_inputs H ys) \<Longrightarrow> length xs = length ys \<Longrightarrow> hashes_ok xs \<Longrightarrow>
    hashes_ok ys \<Longrightarrow> merkle_loop H xs = merkle_loop H ys \<Longrightarrow> xs = ys"
proof (induction "length xs" arbitrary: xs ys rule: less_induct)
  case less
  show ?case
  proof (cases "length xs > 1")
    case True
    then have ys: "length ys > 1" using less.prems(2) by simp
    have c: "no_clash H (merkle_pairs xs) (merkle_pairs ys)"
      "no_clash H (merkle_inputs H (merkle_next H xs)) (merkle_inputs H (merkle_next H ys))"
      using less.prems(1) True ys merkle_inputs.simps [of H xs] merkle_inputs.simps [of H ys]
      by (auto simp: no_clash_def)
    have "merkle_loop H (merkle_next H xs) = merkle_loop H (merkle_next H ys)"
      using less.prems(5) True ys merkle_loop.simps [of H xs] merkle_loop.simps [of H ys] by simp
    moreover have "length (merkle_next H xs) < length xs" "length (merkle_next H xs) = length (merkle_next H ys)"
      unfolding length_merkle_next using True less.prems(2) by linarith+
    ultimately have "merkle_next H xs = merkle_next H ys"
      using less.hyps c(2) merkle_next_ok [OF H] by blast
    then have "merkle_pairs xs = merkle_pairs ys" using map_no_clash [OF c(1)] by (simp add: merkle_next_pairs)
    then show ?thesis by (rule merkle_pairs_inj [OF less.prems(2-4)])
  next
    case False
    then show ?thesis
      using less.prems(2,5) merkle_loop.simps [of H xs] merkle_loop.simps [of H ys] by simp
  qed
qed

lemma length_merkle_loop: "xs \<noteq> [] \<Longrightarrow> length (merkle_loop H xs) = 1"
proof (induction H xs rule: merkle_loop.induct)
  case (1 H xs)
  show ?case
  proof (cases "length xs > 1")
    case True
    then have "0 < length (merkle_next H xs)" unfolding length_merkle_next by linarith
    then have "merkle_next H xs \<noteq> []" by simp
    then show ?thesis using 1(1) [OF True] True by (simp add: merkle_loop.simps [of H xs])
  next
    case False
    then show ?thesis using 1(2) by (cases xs) (auto simp: merkle_loop.simps [of H "[_]"])
  qed
qed

lemma merkle_root_inj:
  assumes "\<forall>x. length (H x) = 32" "no_clash H (merkle_inputs H xs) (merkle_inputs H ys)" "length xs = length ys"
    "hashes_ok xs" "hashes_ok ys" and "merkle_root H xs = merkle_root H ys"
  shows "xs = ys"
proof (cases "xs = []")
  case True
  then show ?thesis using assms(3) by simp
next
  case False
  then have n: "xs \<noteq> []" "ys \<noteq> []" using assms(3) by auto
  have "hd (merkle_loop H xs) = hd (merkle_loop H ys)" using n assms(6) by (simp add: merkle_root_def)
  then have "merkle_loop H xs = merkle_loop H ys"
    using length_merkle_loop [OF n(1), of H] length_merkle_loop [OF n(2), of H] by (metis One_nat_def length_0_conv length_Suc_conv list.sel(1))
  then show ?thesis using merkle_loop_inj [OF assms(1-5)] by blast
qed

lemma verify_txs_hashes:
  "verify_txs params now ty idx txs hashes sz = Ok (hs, n) \<Longrightarrow>
     hs = hashes @ map tx_hash_with_fee txs \<and> n = sz + sum_list (map tx_size txs)"
  by (induction params now ty idx txs hashes sz rule: verify_txs.induct) (auto split: if_splits)

lemma verify_blockD:
  assumes "verify_block H params now blk prev = Ok ()"
  shows "merkle_root H (map tx_hash_with_fee (blk_transactions blk)) = blk_mrklroot blk"
    "length (blk_transactions blk) = blk_transaction_count blk" "blk_transactions blk \<noteq> []"
    "blk_prev_hash blk = blk_hash prev" "blk_timestamp prev < blk_timestamp blk" "blk_timestamp blk \<le> now"
    "0 < mp_max_block_size params \<Longrightarrow> sum_list (map tx_size (blk_transactions blk)) \<le> mp_max_block_size params"
proof -
  obtain prelude rest where t: "blk_transactions blk = prelude # rest"
    using assms by (cases "blk_transactions blk") (auto simp: verify_block_def)
  obtain hs n where v: "verify_txs params now (tx_ty prelude) 0 (prelude # rest) [] 0 = Ok (hs, n)"
    and r: "\<not> (0 < mp_max_block_size params \<and> mp_max_block_size params < n)" "merkle_root H hs = blk_mrklroot blk"
    and o': "blk_transaction_count blk = length (blk_transactions blk)" "blk_prev_hash blk = blk_hash prev"
      "blk_timestamp prev < blk_timestamp blk" "blk_timestamp blk \<le> now"
    using assms unfolding verify_block_def t by (auto split: if_splits simp del: verify_txs.simps)
  note h = verify_txs_hashes [OF v]
  show "merkle_root H (map tx_hash_with_fee (blk_transactions blk)) = blk_mrklroot blk"
    using h r(2) t by simp
  show "0 < mp_max_block_size params \<Longrightarrow> sum_list (map tx_size (blk_transactions blk)) \<le> mp_max_block_size params"
    using h r(1) t by simp
  show "length (blk_transactions blk) = blk_transaction_count blk" "blk_transactions blk \<noteq> []"
    "blk_prev_hash blk = blk_hash prev" "blk_timestamp prev < blk_timestamp blk" "blk_timestamp blk \<le> now"
    using o' t by simp_all
qed

end
