(* ===== verification/BlockExec.thy ===== *)
theory BlockExec
  imports StorageBudget Ledger StrictChain BlockVerify
begin

text \<open>
  Execution of one block, \<^verbatim>\<open>execute_block\<close> of \<^verbatim>\<open>src/chain/src/apply.rs\<close>: the storage budget is opened on the
  block chunk, every transaction runs in a child chunk that is committed on success, the fees go
  to the receiver of the prelude, and the budget is settled and verified. The execution of one
  transaction is a parameter; \<open>tx_contract\<close> says that it works on its own chunk and the chunks it
  creates. The result refines the sequential execution on plain layers.
\<close>

section \<open>Running code on a chunk\<close>

text \<open>
  Code that takes \<^verbatim>\<open>&mut dyn StateLayer\<close> runs on the view of a chunk; afterwards the overlay answers
  the keys whose answer changed.
\<close>

definition record_changes :: "layer \<Rightarrow> layer \<Rightarrow> memkv \<Rightarrow> memkv" where
  "record_changes s s' m =
     (\<lambda>key. if s' key = s key then m key else case s' key of Inr v \<Rightarrow> Some v | Inl _ \<Rightarrow> m key)"

definition with_layer :: "chunk_store \<Rightarrow> nat \<Rightarrow> (layer \<Rightarrow> ('a \<times> layer) ret) \<Rightarrow> ('a \<times> chunk_store) ret" where
  "with_layer st i f =
     try_ret (f (chunk_view st i)) (\<lambda>(x, s').
     try_ret (mutate_delta st i (\<lambda>d. d\<lparr>dl_state := record_changes (chunk_view st i) s' (dl_state d)\<rparr>)) (\<lambda>st'.
     Ok (x, st')))"

section \<open>The handler\<close>

record exec_env =
  ev_chain_id :: nat
  ev_fast_sync :: bool
  ev_consensus_flags :: nat
  ev_block_height :: nat
  ev_block_hash :: bytes
  ev_block_author :: address
  ev_tx_ty :: nat
  ev_tx_main :: address
  ev_tx_addrs :: "address list"
  ev_tx_fee :: amount

text \<open>What the engine gets from the registry and the consensus: the profile, the chain identity and the
  run of a transaction on its chunk (the context creator, execution and release).\<close>

record services =
  sv_vm_params :: "vm_execution_params ret"
  sv_chain_id :: nat
  sv_chain_flags :: "nat \<Rightarrow> nat"
  sv_execute :: "exec_env \<Rightarrow> tx_view \<Rightarrow> chunk_store \<Rightarrow> nat \<Rightarrow> chunk_store ret"

definition block_env :: "services \<Rightarrow> block \<Rightarrow> tx_view \<Rightarrow> bool \<Rightarrow> exec_env" where
  "block_env sv blk prelude fast_sync =
     \<lparr>ev_chain_id = sv_chain_id sv, ev_fast_sync = fast_sync,
      ev_consensus_flags = sv_chain_flags sv (blk_height blk), ev_block_height = blk_height blk,
      ev_block_hash = blk_hash blk,
      ev_block_author = (case tx_author prelude of Some a \<Rightarrow> a | None \<Rightarrow> addr_default),
      ev_tx_ty = 0, ev_tx_main = addr_default, ev_tx_addrs = [], ev_tx_fee = amt_zero\<rparr>"

definition tx_env :: "exec_env \<Rightarrow> tx_view \<Rightarrow> exec_env" where
  "tx_env env tx = env\<lparr>ev_tx_ty := tx_ty tx, ev_tx_main := tx_main tx, ev_tx_addrs := tx_addrs tx, ev_tx_fee := tx_fee tx\<rparr>"

text \<open>The registry hands out a context only on the transaction's own chunk; the context itself carries no
  state here, so what is left of the call is its check.\<close>

definition create_context :: "chunk_store \<Rightarrow> nat \<Rightarrow> tx_view \<Rightarrow> unit ret" where
  "create_context st i tx = with_chunk st i (\<lambda>c. validate_tx_identity c (tx_hash tx))"

fun execute_txs ::
  "services \<Rightarrow> exec_env \<Rightarrow> nat \<Rightarrow> nat \<Rightarrow> tx_view list \<Rightarrow> amount \<Rightarrow> chunk_store \<Rightarrow> (amount \<times> chunk_store) ret" where
  "execute_txs sv env block idx [] total_fee st = Ok (total_fee, st)"
| "execute_txs sv env block idx (tx # txs) total_fee st =
     (if 0 < idx \<and> tx_is_block_prelude tx then errf ''prelude transaction cannot appear at this index''
      else
        try_ret (spawn_tx_child st block (tx_hash tx)) (\<lambda>(i, st).
        try_ret (create_context st i tx) (\<lambda>_.
        try_ret (sv_execute sv (tx_env env tx) tx st i) (\<lambda>st.
        try_ret (commit_to_parent st i) (\<lambda>(_, st).
        try_ret (add_mode_u64 total_fee (tx_fee_got tx)) (\<lambda>total_fee.
        execute_txs sv env block (idx + 1) txs total_fee st))))))"

definition settle_contract_storage_budget ::
  "chunk_store \<Rightarrow> nat \<Rightarrow> vm_execution_params \<Rightarrow> nat \<Rightarrow> chunk_store ret" where
  "settle_contract_storage_budget st block vp height =
     try_ret (with_layer st block (\<lambda>s. settle_block_contract_storage_budget s vp height)) (\<lambda>(_, st).
     try_ret (verify_block_contract_storage_state (chunk_view st block) vp height) (\<lambda>_. Ok st))"

definition pay_fees :: "chunk_store \<Rightarrow> nat \<Rightarrow> address option \<Rightarrow> amount \<Rightarrow> chunk_store ret" where
  "pay_fees st block fee_receiver total_fee =
     (case fee_receiver of
        Some receiver \<Rightarrow>
          if amt_is_positive total_fee
          then try_ret (with_layer st block (\<lambda>s. hac_add_state s receiver total_fee)) (\<lambda>(_, st). Ok st)
          else Ok st
      | None \<Rightarrow> Ok st)"

definition execute_block :: "services \<Rightarrow> block \<Rightarrow> chunk_store \<Rightarrow> nat \<Rightarrow> bool \<Rightarrow> chunk_store ret" where
  "execute_block sv blk st block fast_sync =
     (case blk_transactions blk of
        [] \<Rightarrow> errf ''block has no transactions; a prelude transaction is required''
      | prelude # _ \<Rightarrow>
        if \<not> tx_is_block_prelude prelude
        then errf ''block first transaction must be a prelude transaction''
        else
          try_ret (sv_vm_params sv) (\<lambda>vp.
          try_ret (with_layer st block (\<lambda>s. init_block_contract_storage_budget s vp (blk_height blk))) (\<lambda>(_, st).
          try_ret (execute_txs sv (block_env sv blk prelude fast_sync) block 0 (blk_transactions blk) amt_zero st)
            (\<lambda>(total_fee, st).
          try_ret (pay_fees st block (tx_fee_receiver prelude) total_fee) (\<lambda>st.
          settle_contract_storage_budget st block vp (blk_height blk))))))"

section \<open>The sequential specification\<close>

text \<open>The same block on plain layers, with \<open>eff\<close> for what a transaction does to the state.\<close>

type_synonym tx_effect = "exec_env \<Rightarrow> tx_view \<Rightarrow> layer \<Rightarrow> layer ret"

fun spec_txs :: "tx_effect \<Rightarrow> exec_env \<Rightarrow> nat \<Rightarrow> tx_view list \<Rightarrow> amount \<Rightarrow> layer \<Rightarrow> (amount \<times> layer) ret" where
  "spec_txs eff env idx [] total_fee s = Ok (total_fee, s)"
| "spec_txs eff env idx (tx # txs) total_fee s =
     (if 0 < idx \<and> tx_is_block_prelude tx then errf ''prelude transaction cannot appear at this index''
      else
        try_ret (eff (tx_env env tx) tx s) (\<lambda>s.
        try_ret (add_mode_u64 total_fee (tx_fee_got tx)) (\<lambda>total_fee.
        spec_txs eff env (idx + 1) txs total_fee s)))"

definition spec_pay :: "layer \<Rightarrow> address option \<Rightarrow> amount \<Rightarrow> layer ret" where
  "spec_pay s fee_receiver total_fee =
     (case fee_receiver of
        Some receiver \<Rightarrow>
          if amt_is_positive total_fee then try_ret (hac_add_state s receiver total_fee) (\<lambda>(_, s). Ok s) else Ok s
      | None \<Rightarrow> Ok s)"

definition spec_settle :: "layer \<Rightarrow> vm_execution_params \<Rightarrow> nat \<Rightarrow> layer ret" where
  "spec_settle s vp height =
     try_ret (settle_block_contract_storage_budget s vp height) (\<lambda>(_, s).
     try_ret (verify_block_contract_storage_state s vp height) (\<lambda>_. Ok s))"

definition spec_execute :: "services \<Rightarrow> tx_effect \<Rightarrow> block \<Rightarrow> bool \<Rightarrow> layer \<Rightarrow> layer ret" where
  "spec_execute sv eff blk fast_sync s =
     (case blk_transactions blk of
        [] \<Rightarrow> errf ''block has no transactions; a prelude transaction is required''
      | prelude # _ \<Rightarrow>
        if \<not> tx_is_block_prelude prelude
        then errf ''block first transaction must be a prelude transaction''
        else
          try_ret (sv_vm_params sv) (\<lambda>vp.
          try_ret (init_block_contract_storage_budget s vp (blk_height blk)) (\<lambda>(_, s).
          try_ret (spec_txs eff (block_env sv blk prelude fast_sync) 0 (blk_transactions blk) amt_zero s)
            (\<lambda>(total_fee, s).
          try_ret (spec_pay s (tx_fee_receiver prelude) total_fee) (\<lambda>s.
          spec_settle s vp (blk_height blk))))))"

section \<open>Code on layers changes answers, never failures\<close>

definition changed :: "layer \<Rightarrow> layer \<Rightarrow> bool" where
  "changed s s' \<longleftrightarrow> (\<forall>key. s' key = s key \<or> (\<exists>v. s' key = Ok v))"

lemma changed_intros [simp, intro]:
  "changed s s" "changed s s' \<Longrightarrow> changed s (layer_set s' key v)" "changed s s' \<Longrightarrow> changed s (layer_del s' key)"
  by (auto simp: changed_def layer_set_def layer_del_def)

lemma changed_trans: "changed a b \<Longrightarrow> changed b c \<Longrightarrow> changed a c"
  unfolding changed_def by metis

lemma changed_write_transient: "write_u128_transient s key v = Ok s' \<Longrightarrow> changed s s'"
  by (auto simp: write_u128_transient_def)

lemma changed_init: "init_block_contract_storage_budget s vp height = Ok (x, s') \<Longrightarrow> changed s s'"
  by (auto simp: init_block_contract_storage_budget_def Let_def split: if_splits option.splits
      dest!: changed_write_transient intro: changed_trans)

lemma changed_settle: "settle_block_contract_storage_budget s vp height = Ok (x, s') \<Longrightarrow> changed s s'"
  by (auto simp: settle_block_contract_storage_budget_def Let_def set_contract_storage_budget_def split: option.splits)

lemma changed_do_hac_add: "do_hac_add s addr amt = Ok (x, s') \<Longrightarrow> changed s s'"
  by (auto simp: do_hac_add_def balance_set_def)

lemma changed_engulf: "blackhole_engulf s addr = Ok (x, s') \<Longrightarrow> changed s s'"
  by (auto simp: blackhole_engulf_def Let_def balance_set_def diamond_owned_del_def split: if_splits)

lemma changed_record_hac: "total_record_blackhole_hac s amt = Ok (x, s') \<Longrightarrow> changed s s'"
  by (auto simp: total_record_blackhole_hac_def with_base_total_def base_total_set_def split: if_splits)

lemma changed_hac_add: "hac_add_state s addr amt = Ok (x, s') \<Longrightarrow> changed s s'"
  by (auto simp: hac_add_state_def split: if_splits
      dest!: changed_do_hac_add changed_engulf changed_record_hac intro: changed_trans)

section \<open>Simulation\<close>

text \<open>The block chunk under execution, and what its execution leaves alone.\<close>

definition in_block :: "nat \<Rightarrow> chunk_store \<Rightarrow> chunk_store \<Rightarrow> bool" where
  "in_block b st st' \<longleftrightarrow>
     store_typed st' \<and> cs_disk st' = cs_disk st \<and> cs_next st \<le> cs_next st' \<and>
     (\<forall>j<cs_next st. j \<noteq> b \<longrightarrow> cs_chunk st' j = cs_chunk st j) \<and>
     (\<forall>j c. cs_next st \<le> j \<longrightarrow> cs_chunk st' j = Some c \<longrightarrow> ch_children c = []) \<and>
     (\<exists>c d d'. cs_chunk st b = Some c \<and> ch_body c = Writable d \<and> is_block (ch_origin c) \<and>
        cs_chunk st' b = Some (c\<lparr>ch_body := Writable d'\<rparr>))"

definition open_chunk :: "chunk_store \<Rightarrow> nat \<Rightarrow> bool" where
  "open_chunk st b \<longleftrightarrow>
     store_typed st \<and> (\<exists>c d. cs_chunk st b = Some c \<and> ch_body c = Writable d \<and> is_block (ch_origin c))"

lemma in_block_refl:
  assumes "open_chunk st b"
  shows "in_block b st st"
proof -
  from assms obtain c d where c: "store_typed st" "cs_chunk st b = Some c" "ch_body c = Writable d" "is_block (ch_origin c)"
    by (auto simp: open_chunk_def)
  have "cs_chunk st j = None" if "cs_next st \<le> j" for j
    using that c(1) chunk_wfD(1) [of st j] by (cases "cs_chunk st j") (auto simp: store_typed_def)
  moreover have "\<exists>d'. c = c\<lparr>ch_body := Writable d'\<rparr>" using c(3) by (intro exI [of _ d]) simp
  ultimately show ?thesis using c unfolding in_block_def by auto
qed

lemma in_blockE:
  assumes "in_block b st st'"
  obtains c d d' where "cs_chunk st b = Some c" "ch_body c = Writable d" "is_block (ch_origin c)"
    "cs_chunk st' b = Some (c\<lparr>ch_body := Writable d'\<rparr>)"
  using assms by (auto simp: in_block_def)

lemma in_blockD:
  assumes "in_block b st st'"
  shows "store_typed st'" "cs_disk st' = cs_disk st" "cs_next st \<le> cs_next st'"
    "j < cs_next st \<Longrightarrow> j \<noteq> b \<Longrightarrow> cs_chunk st' j = cs_chunk st j"
    "cs_next st \<le> j \<Longrightarrow> cs_chunk st' j = Some c \<Longrightarrow> ch_children c = []"
  using assms by (auto simp: in_block_def)

lemma in_block_trans:
  assumes xy: "in_block b x y" and yz: "in_block b y z"
  shows "in_block b x z"
proof -
  obtain c d d' where c: "cs_chunk x b = Some c" "ch_body c = Writable d" "is_block (ch_origin c)"
    "cs_chunk y b = Some (c\<lparr>ch_body := Writable d'\<rparr>)" by (rule in_blockE [OF xy])
  obtain e where e: "cs_chunk z b = Some (c\<lparr>ch_body := Writable e\<rparr>)"
    by (rule in_blockE [OF yz]) (use c(4) in auto)
  have "ch_children k = []" if j: "cs_next x \<le> j" "cs_chunk z j = Some k" for j k
  proof (cases "j = b")
    case True
    then show ?thesis using in_blockD(5) [OF xy j(1)] c(4) e j(2) by auto
  next
    case False
    show ?thesis
    proof (cases "j < cs_next y")
      case True
      then show ?thesis using in_blockD(4) [OF yz True False] in_blockD(5) [OF xy j(1)] j(2) by simp
    next
      case False
      then show ?thesis using in_blockD(5) [OF yz _ j(2)] by simp
    qed
  qed
  moreover have "cs_chunk z j = cs_chunk x j" if "j < cs_next x" "j \<noteq> b" for j
    using in_blockD(4) [OF xy that] in_blockD(4) [OF yz _ that(2)] in_blockD(3) [OF xy] that(1) by simp
  ultimately show ?thesis
    using c e in_blockD(1-3) [OF xy] in_blockD(1-3) [OF yz] unfolding in_block_def by auto
qed

lemma in_block_open: "in_block b st st' \<Longrightarrow> open_chunk st' b"
  by (auto simp: in_block_def open_chunk_def)

lemma record_changes_view:
  assumes "changed (apply_delta m base) s'"
  shows "apply_delta (record_changes (apply_delta m base) s' m) base = s'"
proof
  fix key
  from assms have "s' key = apply_delta m base key \<or> (\<exists>v. s' key = Ok v)" by (simp add: changed_def)
  then show "apply_delta (record_changes (apply_delta m base) s' m) base key = s' key"
    by (auto simp: apply_delta_def record_changes_def split: option.splits)
qed

lemma with_layer_sim:
  assumes op: "open_chunk st b"
    and ch: "\<forall>x s'. f (chunk_view st b) = Ok (x, s') \<longrightarrow> changed (chunk_view st b) s'"
  shows "case f (chunk_view st b) of
      Inl e \<Rightarrow> with_layer st b f = Inl e
    | Inr (x, s') \<Rightarrow> \<exists>st'. with_layer st b f = Ok (x, st') \<and> in_block b st st' \<and> chunk_view st' b = s'"
proof (cases "f (chunk_view st b)")
  case (Inl e)
  then show ?thesis by (simp add: with_layer_def)
next
  case (Inr r)
  obtain x s' where r: "r = (x, s')" by (cases r)
  from op obtain c d where c: "store_typed st" "cs_chunk st b = Some c" "ch_body c = Writable d" "is_block (ch_origin c)"
    by (auto simp: open_chunk_def)
  have wf: "chunk_wf st" using c(1) by (simp add: store_typed_def)
  let ?d = "d\<lparr>dl_state := record_changes (chunk_view st b) s' (dl_state d)\<rparr>"
  let ?c = "c\<lparr>ch_body := Writable ?d\<rparr>"
  have m: "mutate_delta st b (\<lambda>d. d\<lparr>dl_state := record_changes (chunk_view st b) s' (dl_state d)\<rparr>) = Ok (put_chunk st b ?c)"
    by (simp add: mutate_delta_def c(2,3))
  then have w: "with_layer st b f = Ok (x, put_chunk st b ?c)" by (simp add: with_layer_def Inr r)
  have v: "chunk_view st b = apply_delta (dl_state d) (source_view st (ch_source c))"
    using chunk_view_Some [OF c(2)] c(3) by simp
  have "chunk_view (put_chunk st b ?c) b = apply_delta (dl_state ?d) (source_view st (ch_source c))"
    using view_put_self [OF wf c(2), of ?c] by simp
  also have "\<dots> = s'"
    using ch Inr r record_changes_view [of "dl_state d" "source_view st (ch_source c)" s'] by (simp add: v)
  finally have "chunk_view (put_chunk st b ?c) b = s'" .
  moreover have "in_block b st (put_chunk st b ?c)"
  proof -
    have "store_typed (put_chunk st b ?c)"
      using basic_typed [OF basic_mutate [OF m] c(1)] .
    moreover have "cs_chunk st j = None" if "cs_next st \<le> j" for j
      using that chunk_wfD(1) [OF wf, of j] by (cases "cs_chunk st j") auto
    moreover have "b < cs_next st" by (rule chunk_wfD(1) [OF wf c(2)])
    ultimately show ?thesis using c(2-4) unfolding in_block_def by (auto split: if_splits)
  qed
  ultimately show ?thesis using w Inr r by auto
qed


section \<open>One transaction\<close>

text \<open>
  What executing a transaction may do to the store: work on its chunk \<open>i\<close> and on the chunks numbered
  from \<open>n0\<close>, which it created.
\<close>

inductive tx_step :: "nat \<Rightarrow> nat \<Rightarrow> chunk_store \<Rightarrow> chunk_store \<Rightarrow> bool" for i n0 where
  tx_spawn: "spawn_ast_child st p = Ok (k, st') \<Longrightarrow> p = i \<or> n0 \<le> p \<Longrightarrow> tx_step i n0 st st'"
| tx_commit: "commit_to_parent st k = Ok (p, st') \<Longrightarrow> n0 \<le> k \<Longrightarrow> tx_step i n0 st st'"
| tx_discard: "discard st k = Ok st' \<Longrightarrow> n0 \<le> k \<Longrightarrow> tx_step i n0 st st'"
| tx_set: "chunk_set st j key v = Ok st' \<Longrightarrow> j = i \<or> n0 \<le> j \<Longrightarrow> tx_step i n0 st st'"
| tx_del: "chunk_del st j key = Ok st' \<Longrightarrow> j = i \<or> n0 \<le> j \<Longrightarrow> tx_step i n0 st st'"
| tx_log: "emit_log st j entry = Ok st' \<Longrightarrow> j = i \<or> n0 \<le> j \<Longrightarrow> tx_step i n0 st st'"

definition tx_frame :: "nat \<Rightarrow> chunk_store \<Rightarrow> chunk_store \<Rightarrow> bool" where
  "tx_frame i st0 st \<longleftrightarrow>
     store_typed st \<and> cs_disk st = cs_disk st0 \<and> cs_next st0 \<le> cs_next st \<and>
     (\<forall>j<cs_next st0. j \<noteq> i \<longrightarrow> cs_chunk st j = cs_chunk st0 j) \<and>
     (\<exists>c d. cs_chunk st0 i = Some c \<and> cs_chunk st i = Some (c\<lparr>ch_body := Writable d\<rparr>)) \<and>
     (\<forall>j c. cs_next st0 \<le> j \<longrightarrow> cs_chunk st j = Some c \<longrightarrow>
        ch_children c = [] \<and> (\<exists>p. ch_source c = Parent p \<and> (p = i \<or> cs_next st0 \<le> p)))"

lemma tx_frameD:
  assumes "tx_frame i st0 st"
  shows "store_typed st" "cs_disk st = cs_disk st0" "cs_next st0 \<le> cs_next st"
    "j < cs_next st0 \<Longrightarrow> j \<noteq> i \<Longrightarrow> cs_chunk st j = cs_chunk st0 j"
    "cs_next st0 \<le> j \<Longrightarrow> cs_chunk st j = Some c \<Longrightarrow> ch_children c = []"
    "cs_next st0 \<le> j \<Longrightarrow> cs_chunk st j = Some c \<Longrightarrow> \<exists>p. ch_source c = Parent p \<and> (p = i \<or> cs_next st0 \<le> p)"
  using assms unfolding tx_frame_def by blast+

lemma tx_frameE:
  assumes "tx_frame i st0 st"
  obtains c d where "cs_chunk st0 i = Some c" "cs_chunk st i = Some (c\<lparr>ch_body := Writable d\<rparr>)"
  using assms unfolding tx_frame_def by blast

text \<open>Changing the body of chunk \<open>i\<close> to a writable one, or the body of a created chunk, keeps the frame.\<close>

lemma tx_frame_put:
  assumes fr: "tx_frame i st0 st" and c: "cs_chunk st j = Some c" and j: "j = i \<or> cs_next st0 \<le> j"
    and w: "j = i \<Longrightarrow> \<exists>d. body = Writable d" and ty: "store_typed (put_chunk st j (c\<lparr>ch_body := body\<rparr>))"
    and i: "i < cs_next st0"
  shows "tx_frame i st0 (put_chunk st j (c\<lparr>ch_body := body\<rparr>))"
proof -
  note f = tx_frameD [OF fr]
  obtain ci d where ci: "cs_chunk st0 i = Some ci" "cs_chunk st i = Some (ci\<lparr>ch_body := Writable d\<rparr>)"
    by (rule tx_frameE [OF fr])
  let ?st = "put_chunk st j (c\<lparr>ch_body := body\<rparr>)"
  have "\<exists>c d. cs_chunk st0 i = Some c \<and> cs_chunk ?st i = Some (c\<lparr>ch_body := Writable d\<rparr>)"
  proof (cases "j = i")
    case True
    then obtain d' where "body = Writable d'" using w by blast
    then have "cs_chunk ?st i = Some (ci\<lparr>ch_body := Writable d'\<rparr>)" using True ci(2) c by auto
    with ci(1) show ?thesis by (intro exI conjI)
  next
    case False
    then have "cs_chunk ?st i = Some (ci\<lparr>ch_body := Writable d\<rparr>)" using ci(2) by simp
    with ci(1) show ?thesis by (intro exI conjI)
  qed
  moreover have "cs_chunk ?st k = cs_chunk st0 k" if "k < cs_next st0" "k \<noteq> i" for k
    using that j f(4) by auto
  moreover have "ch_children k = [] \<and> (\<exists>p. ch_source k = Parent p \<and> (p = i \<or> cs_next st0 \<le> p))"
    if "cs_next st0 \<le> m" "cs_chunk ?st m = Some k" for m k
  proof (cases "m = j")
    case True
    then have "k = c\<lparr>ch_body := body\<rparr>" using that(2) by simp
    then show ?thesis using f(5,6) [of j c] that(1) c True by simp
  next
    case False
    then show ?thesis using f(5,6) [of m k] that by simp
  qed
  ultimately show ?thesis using ty f(2,3) unfolding tx_frame_def by simp
qed

lemma typed_step: "chunk_step st st' \<Longrightarrow> store_typed st \<Longrightarrow> store_typed st'"
  using steps_typed_keeps by blast

lemma tx_frame_mutate:
  assumes fr: "tx_frame i st0 st" and m: "mutate_delta st j f = Ok st'" and j: "j = i \<or> cs_next st0 \<le> j"
    and i: "i < cs_next st0"
  shows "tx_frame i st0 st'"
proof -
  from m obtain c d where c: "cs_chunk st j = Some c" "st' = put_chunk st j (c\<lparr>ch_body := Writable (f d)\<rparr>)"
    by (auto simp: mutate_delta_def split: option.splits)
  have "store_typed st'" by (rule basic_typed [OF basic_mutate [OF m] tx_frameD(1) [OF fr]])
  then show ?thesis using tx_frame_put [OF fr c(1) j _ _ i] c(2) by blast
qed

lemma tx_frame_commit:
  assumes fr: "tx_frame i st0 st" and m: "commit_to_parent st k = Ok (p, st')" and k: "cs_next st0 \<le> k"
    and i: "i < cs_next st0"
  shows "tx_frame i st0 st'"
proof -
  from m obtain c pc target child where c: "cs_chunk st k = Some c"
    and pa: "parent st c = Some p" and pc: "cs_chunk st p = Some pc"
    and st': "st' = put_chunk (put_chunk st k (c\<lparr>ch_body := Consumed\<rparr>)) p
          (pc\<lparr>ch_body := Writable (merge_delta (ch_origin c) target child)\<rparr>)"
    by (auto simp: commit_to_parent_def split: if_splits option.splits prod.splits)
  from pa have src: "ch_source c = Parent p"
    by (auto simp: parent_def split: source.splits option.splits)
  then have p: "p = i \<or> cs_next st0 \<le> p" using tx_frameD(6) [OF fr k c] by auto
  note ty = tx_frameD(1) [OF fr]
  have pk: "p < k" using chunk_wfD(2) [of st k c p] ty c src by (simp add: store_typed_def)
  let ?st1 = "put_chunk st k (c\<lparr>ch_body := Consumed\<rparr>)"
  obtain ch where "ch_body c = Writable ch"
    using m c by (auto simp: commit_to_parent_def take_writable_def split: if_splits option.splits prod.splits chunk_body.splits)
  then have "basic_step st ?st1" by (intro basic_body [OF c]) (simp add: body_next_def)
  then have ty1: "store_typed ?st1" using basic_typed ty by blast
  have fr1: "tx_frame i st0 ?st1"
    by (rule tx_frame_put [OF fr c _ _ ty1 i]) (use k i in auto)
  have pc1: "cs_chunk ?st1 p = Some pc" using pc pk by simp
  have "store_typed st'" using typed_step [OF step_commit [OF m] ty] .
  then show ?thesis unfolding st' using tx_frame_put [OF fr1 pc1 p _ _ i] by blast
qed

lemma tx_step_frame:
  assumes "tx_step i (cs_next st0) st st'" and fr: "tx_frame i st0 st" and i: "i < cs_next st0"
  shows "tx_frame i st0 st'"
  using assms(1)
proof cases
  case (tx_spawn p k)
  note ty = tx_frameD(1) [OF fr]
  have n: "\<exists>org. st' = st\<lparr>cs_next := cs_next st + 1, cs_chunk := (cs_chunk st)(cs_next st \<mapsto>
      \<lparr>ch_origin = org, ch_source = Parent p, ch_body = Writable delta_default, ch_children = []\<rparr>)\<rparr>"
    using tx_spawn(1) by (auto simp: spawn_ast_child_def new_chunk_def with_body_def Let_def split: if_splits)
  have "store_typed st'" using typed_step [OF step_spawn_ast [OF tx_spawn(1)] ty] .
  moreover obtain ci d where ci: "cs_chunk st0 i = Some ci" "cs_chunk st i = Some (ci\<lparr>ch_body := Writable d\<rparr>)"
    by (rule tx_frameE [OF fr])
  ultimately show ?thesis
    using n tx_spawn(2) tx_frameD(2-6) [OF fr] i unfolding tx_frame_def by (auto split: if_splits)
next
  case (tx_commit k p)
  then show ?thesis using tx_frame_commit [OF fr _ _ i] by blast
next
  case (tx_discard k)
  note ty = tx_frameD(1) [OF fr]
  from tx_discard(1) obtain c where c: "cs_chunk st k = Some c" "st' = put_chunk st k (c\<lparr>ch_body := Consumed\<rparr>)"
    by (auto simp: discard_def split: if_splits option.splits prod.splits)
  have "store_typed st'" using typed_step [OF step_discard [OF tx_discard(1)] ty] .
  then show ?thesis using tx_frame_put [OF fr c(1) _ _ _ i] tx_discard(2) i c(2) by auto
next
  case (tx_set j key v)
  then show ?thesis using tx_frame_mutate [OF fr _ _ i] by (simp add: chunk_set_def)
next
  case (tx_del j key)
  then show ?thesis using tx_frame_mutate [OF fr _ _ i] by (simp add: chunk_del_def)
next
  case (tx_log j entry)
  then show ?thesis using tx_frame_mutate [OF fr _ _ i] by (simp add: emit_log_def)
qed

lemma tx_steps_frame:
  assumes "(tx_step i (cs_next st0))\<^sup>*\<^sup>* st0 st" "store_typed st0" "cs_chunk st0 i = Some c" "ch_body c = Writable d"
  shows "tx_frame i st0 st"
  using assms(1)
proof (induction rule: rtranclp_induct)
  case base
  have "cs_chunk st0 j = None" if "cs_next st0 \<le> j" for j
    using that assms(2) chunk_wfD(1) [of st0 j] by (cases "cs_chunk st0 j") (auto simp: store_typed_def)
  moreover have "\<exists>d'. c = c\<lparr>ch_body := Writable d'\<rparr>" using assms(4) by (intro exI [of _ d]) simp
  ultimately show ?case using assms(2,3) by (auto simp: tx_frame_def)
next
  case (step y z)
  have "i < cs_next st0" using assms(2,3) chunk_wfD(1) by (auto simp: store_typed_def)
  then show ?case using tx_step_frame step by blast
qed


text \<open>The contract of a transaction's run on its own fresh chunk, the one \<open>create_context\<close> lets through: its
  steps, and its effect on the state it sees.\<close>

definition tx_contract :: "services \<Rightarrow> tx_effect \<Rightarrow> bool" where
  "tx_contract sv eff \<longleftrightarrow>
     (\<forall>env tx st i b.
        store_typed st \<longrightarrow>
        cs_chunk st i = Some \<lparr>ch_origin = OTx (tx_hash tx), ch_source = Parent b, ch_body = Writable delta_default,
          ch_children = []\<rparr> \<longrightarrow>
        (case sv_execute sv env tx st i of
           Inl e \<Rightarrow> eff env tx (chunk_view st i) = Inl e
         | Inr st' \<Rightarrow> (tx_step i (cs_next st))\<^sup>*\<^sup>* st st' \<and> eff env tx (chunk_view st i) = Ok (chunk_view st' i)))"

lemma spawn_open:
  assumes op: "open_chunk st b"
  obtains i st1 where "spawn_tx_child st b h = Ok (i, st1)" "i = cs_next st" "store_typed st1"
    "cs_next st1 = cs_next st + 1" "cs_disk st1 = cs_disk st"
    "cs_chunk st1 = (cs_chunk st)(i \<mapsto> \<lparr>ch_origin = OTx h, ch_source = Parent b,
           ch_body = Writable delta_default, ch_children = []\<rparr>)" "chunk_view st1 i = chunk_view st b"
proof -
  from op obtain c d where c: "store_typed st" "cs_chunk st b = Some c" "ch_body c = Writable d" "is_block (ch_origin c)"
    by (auto simp: open_chunk_def)
  obtain i st1 where sp: "spawn_tx_child st b h = Ok (i, st1)"
    using c(2-4) by (cases "new_chunk st (OTx h) (Parent b)") (auto simp: spawn_tx_child_def is_writable_def)
  have wf: "chunk_wf st" using c(1) by (simp add: store_typed_def)
  have n: "i = cs_next st" "cs_next st1 = cs_next st + 1" "cs_disk st1 = cs_disk st"
    using sp c(2-4) by (auto simp: spawn_tx_child_def is_writable_def new_chunk_def with_body_def Let_def)
  show ?thesis
    by (rule that [OF sp n(1) typed_step [OF step_spawn_tx [OF sp] c(1)] n(2,3)])
      (use spawn_tx_spec [OF wf sp] in simp_all)
qed

lemma tx_cycle:
  assumes op: "open_chunk st b" and co: "tx_contract sv eff"
  shows "case eff env tx (chunk_view st b) of
      Inl e \<Rightarrow> \<exists>i st1. spawn_tx_child st b (tx_hash tx) = Ok (i, st1) \<and> create_context st1 i tx = Ok () \<and>
        sv_execute sv env tx st1 i = Inl e
    | Inr s' \<Rightarrow> \<exists>i st1 st2 st3. spawn_tx_child st b (tx_hash tx) = Ok (i, st1) \<and> create_context st1 i tx = Ok () \<and>
        sv_execute sv env tx st1 i = Ok st2 \<and>
        commit_to_parent st2 i = Ok (b, st3) \<and> in_block b st st3 \<and> chunk_view st3 b = s'"
proof -
  from op obtain c d where c: "store_typed st" "cs_chunk st b = Some c" "ch_body c = Writable d" "is_block (ch_origin c)"
    by (auto simp: open_chunk_def)
  have bn: "b < cs_next st" using c(1,2) chunk_wfD(1) by (auto simp: store_typed_def)
  obtain i st1 where sp: "spawn_tx_child st b (tx_hash tx) = Ok (i, st1)" "i = cs_next st" "store_typed st1"
    "cs_next st1 = cs_next st + 1" "cs_disk st1 = cs_disk st"
    "cs_chunk st1 = (cs_chunk st)(i \<mapsto> \<lparr>ch_origin = OTx (tx_hash tx), ch_source = Parent b,
           ch_body = Writable delta_default, ch_children = []\<rparr>)" "chunk_view st1 i = chunk_view st b"
    by (rule spawn_open [OF op, of "tx_hash tx"])
  have ci: "cs_chunk st1 i = Some \<lparr>ch_origin = OTx (tx_hash tx), ch_source = Parent b,
           ch_body = Writable delta_default, ch_children = []\<rparr>" using sp(6) by simp
  have con: "case sv_execute sv env tx st1 i of
           Inl e \<Rightarrow> eff env tx (chunk_view st1 i) = Inl e
         | Inr st' \<Rightarrow> (tx_step i (cs_next st1))\<^sup>*\<^sup>* st1 st' \<and> eff env tx (chunk_view st1 i) = Ok (chunk_view st' i)"
    by (rule co [unfolded tx_contract_def, rule_format, OF sp(3) ci])
  have cc: "create_context st1 i tx = Ok ()" using ci by (simp add: create_context_def validate_tx_identity_def)
  show ?thesis
  proof (cases "sv_execute sv env tx st1 i")
    case (Inl e)
    then show ?thesis using con sp(1,7) cc by simp
  next
    case (Inr st2)
    then have st2: "(tx_step i (cs_next st1))\<^sup>*\<^sup>* st1 st2" "eff env tx (chunk_view st b) = Ok (chunk_view st2 i)"
      using con sp(7) by simp_all
    have fr: "tx_frame i st1 st2" by (rule tx_steps_frame [OF st2(1) sp(3) ci]) simp
    note f = tx_frameD [OF fr]
    obtain d2 where i2: "cs_chunk st2 i = Some \<lparr>ch_origin = OTx (tx_hash tx), ch_source = Parent b,
           ch_body = Writable d2, ch_children = []\<rparr>"
      by (rule tx_frameE [OF fr]) (use ci in auto)
    have b2: "cs_chunk st2 b = Some c" using f(4) [of b] sp(2,4,6) c(2) bn by simp
    have "commit_pair_ok (OTx (tx_hash tx)) (ch_origin c)"
      using c(4) by (cases "ch_origin c") (auto simp: commit_pair_ok_def is_block_def)
    then obtain st3 d3 where st3: "commit_to_parent st2 i = Ok (b, st3)"
      and st3': "st3 = put_chunk (put_chunk st2 i \<lparr>ch_origin = OTx (tx_hash tx), ch_source = Parent b,
           ch_body = Consumed, ch_children = []\<rparr>) b (c\<lparr>ch_body := Writable d3\<rparr>)"
      using i2 b2 c(3) by (auto simp: commit_to_parent_def is_exec_def parent_def take_writable_def)
    have wf2: "chunk_wf st2" using f(1) by (simp add: store_typed_def)
    have v: "chunk_view st3 b = chunk_view st2 i" by (rule commit_spec(2) [OF wf2 st3])
    have "store_typed st3" by (rule typed_step [OF step_commit [OF st3] f(1)])
    moreover have "ch_children k = []" if "cs_next st \<le> j" "j \<noteq> cs_next st" "cs_chunk st2 j = Some k" for j k
      using f(5) [of j k] that sp(4) by simp
    ultimately have "in_block b st st3"
      using st3' f(2-4) sp(2,4,5,6) c(2-4) bn unfolding in_block_def by (auto split: if_splits)
    then show ?thesis using sp(1) cc Inr st3 v st2(2) by auto
  qed
qed

lemma execute_txs_sim:
  assumes co: "tx_contract sv eff"
  shows "open_chunk st b \<Longrightarrow>
    (case spec_txs eff env idx txs total_fee (chunk_view st b) of
       Inl e \<Rightarrow> execute_txs sv env b idx txs total_fee st = Inl e
     | Inr (fee, s') \<Rightarrow> \<exists>st'. execute_txs sv env b idx txs total_fee st = Ok (fee, st') \<and>
         in_block b st st' \<and> chunk_view st' b = s')"
proof (induction txs arbitrary: idx total_fee st)
  case Nil
  then show ?case using in_block_refl by auto
next
  case (Cons tx txs)
  show ?case
  proof (cases "0 < idx \<and> tx_is_block_prelude tx")
    case False
    have eqs: "execute_txs sv env b idx (tx # txs) total_fee st =
        try_ret (spawn_tx_child st b (tx_hash tx)) (\<lambda>(i, st).
        try_ret (create_context st i tx) (\<lambda>_.
        try_ret (sv_execute sv (tx_env env tx) tx st i) (\<lambda>st.
        try_ret (commit_to_parent st i) (\<lambda>(_, st).
        try_ret (add_mode_u64 total_fee (tx_fee_got tx)) (\<lambda>total_fee.
        execute_txs sv env b (idx + 1) txs total_fee st)))))"
      "spec_txs eff env idx (tx # txs) total_fee s =
        try_ret (eff (tx_env env tx) tx s) (\<lambda>s.
        try_ret (add_mode_u64 total_fee (tx_fee_got tx)) (\<lambda>total_fee.
        spec_txs eff env (idx + 1) txs total_fee s))" for s
      by (simp_all only: execute_txs.simps spec_txs.simps False if_False)
    note cy = tx_cycle [OF Cons.prems co, of tx "tx_env env tx"]
    show ?thesis
    proof (cases "eff (tx_env env tx) tx (chunk_view st b)")
      case (Inl e)
      then show ?thesis using cy by (auto simp: eqs simp del: execute_txs.simps spec_txs.simps)
    next
      case (Inr s1)
      then obtain i st1 st2 st3 where st3: "spawn_tx_child st b (tx_hash tx) = Ok (i, st1)" "create_context st1 i tx = Ok ()"
        "sv_execute sv (tx_env env tx) tx st1 i = Ok st2" "commit_to_parent st2 i = Ok (b, st3)"
        "in_block b st st3" "chunk_view st3 b = s1" using cy by auto
      show ?thesis
      proof (cases "add_mode_u64 total_fee (tx_fee_got tx)")
        case (Inl e)
        then show ?thesis using Inr st3 by (simp add: eqs del: execute_txs.simps spec_txs.simps)
      next
        case fee: (Inr fee)
        note IH = Cons.IH [OF in_block_open [OF st3(5)], of "idx + 1" fee, unfolded st3(6)]
        show ?thesis
        proof (cases "spec_txs eff env (idx + 1) txs fee s1")
          case (Inl e)
          then show ?thesis using IH Inr st3 fee by (simp add: eqs del: execute_txs.simps spec_txs.simps)
        next
          case res: (Inr r)
          obtain f s' where r: "r = (f, s')" by (cases r)
          with IH res obtain st' where st': "execute_txs sv env b (idx + 1) txs fee st3 = Ok (f, st')"
            "in_block b st3 st'" "chunk_view st' b = s'" by auto
          then show ?thesis using res r Inr st3 fee in_block_trans [OF st3(5) st'(2)]
            by (simp add: eqs del: execute_txs.simps spec_txs.simps)
        qed
      qed
    qed
  qed simp
qed

lemma pay_fees_sim:
  assumes op: "open_chunk st b"
  shows "case spec_pay (chunk_view st b) recv fee of
      Inl e \<Rightarrow> pay_fees st b recv fee = Inl e
    | Inr s' \<Rightarrow> \<exists>st'. pay_fees st b recv fee = Ok st' \<and> in_block b st st' \<and> chunk_view st' b = s'"
proof (cases "\<exists>r. recv = Some r \<and> amt_is_positive fee")
  case True
  then obtain r where r: "recv = Some r" "amt_is_positive fee" by blast
  have "\<forall>x s'. hac_add_state (chunk_view st b) r fee = Ok (x, s') \<longrightarrow> changed (chunk_view st b) s'"
    using changed_hac_add by blast
  then have w: "case hac_add_state (chunk_view st b) r fee of
      Inl e \<Rightarrow> with_layer st b (\<lambda>s. hac_add_state s r fee) = Inl e
    | Inr (x, s') \<Rightarrow> \<exists>st'. with_layer st b (\<lambda>s. hac_add_state s r fee) = Ok (x, st') \<and> in_block b st st' \<and> chunk_view st' b = s'"
    by (rule with_layer_sim [OF op])
  show ?thesis
    using w r by (cases "hac_add_state (chunk_view st b) r fee") (auto simp: spec_pay_def pay_fees_def)
next
  case False
  then show ?thesis using in_block_refl [OF op] by (auto simp: spec_pay_def pay_fees_def split: option.split)
qed

lemma settle_sim:
  assumes op: "open_chunk st b"
  shows "case spec_settle (chunk_view st b) vp height of
      Inl e \<Rightarrow> settle_contract_storage_budget st b vp height = Inl e
    | Inr s' \<Rightarrow> \<exists>st'. settle_contract_storage_budget st b vp height = Ok st' \<and> in_block b st st' \<and> chunk_view st' b = s'"
proof -
  have "\<forall>x s'. settle_block_contract_storage_budget (chunk_view st b) vp height = Ok (x, s') \<longrightarrow> changed (chunk_view st b) s'"
    using changed_settle by blast
  then have w: "case settle_block_contract_storage_budget (chunk_view st b) vp height of
      Inl e \<Rightarrow> with_layer st b (\<lambda>s. settle_block_contract_storage_budget s vp height) = Inl e
    | Inr (x, s') \<Rightarrow> \<exists>st'. with_layer st b (\<lambda>s. settle_block_contract_storage_budget s vp height) = Ok (x, st') \<and> in_block b st st' \<and> chunk_view st' b = s'"
    by (rule with_layer_sim [OF op])
  show ?thesis
  proof (cases "settle_block_contract_storage_budget (chunk_view st b) vp height")
    case (Inl e)
    then show ?thesis using w by (simp add: spec_settle_def settle_contract_storage_budget_def)
  next
    case (Inr r)
    obtain x s' where r: "r = (x, s')" by (cases r)
    with Inr w obtain st' where st': "with_layer st b (\<lambda>s. settle_block_contract_storage_budget s vp height) = Ok (x, st')"
      "in_block b st st'" "chunk_view st' b = s'" by auto
    show ?thesis
      using st' Inr r by (cases "verify_block_contract_storage_state s' vp height")
        (auto simp: spec_settle_def settle_contract_storage_budget_def)
  qed
qed

lemma execute_block_sim:
  assumes op: "open_chunk st b" and co: "tx_contract sv eff"
  shows "case spec_execute sv eff blk fast_sync (chunk_view st b) of
      Inl e \<Rightarrow> execute_block sv blk st b fast_sync = Inl e
    | Inr s' \<Rightarrow> \<exists>st'. execute_block sv blk st b fast_sync = Ok st' \<and> in_block b st st' \<and> chunk_view st' b = s'"
proof (cases "blk_transactions blk")
  case (Cons prelude rest)
  show ?thesis
  proof (cases "tx_is_block_prelude prelude")
    case pre: True
    show ?thesis
    proof (cases "sv_vm_params sv")
      case (Inl e)
      then show ?thesis using Cons pre by (simp add: spec_execute_def execute_block_def)
    next
      case vp: (Inr vp)
      let ?h = "blk_height blk" and ?env = "block_env sv blk prelude fast_sync"
      have "\<forall>x s'. init_block_contract_storage_budget (chunk_view st b) vp ?h = Ok (x, s') \<longrightarrow> changed (chunk_view st b) s'"
        using changed_init by blast
      then have w: "case init_block_contract_storage_budget (chunk_view st b) vp ?h of
          Inl e \<Rightarrow> with_layer st b (\<lambda>s. init_block_contract_storage_budget s vp ?h) = Inl e
        | Inr (x, s') \<Rightarrow> \<exists>st'. with_layer st b (\<lambda>s. init_block_contract_storage_budget s vp ?h) = Ok (x, st') \<and> in_block b st st' \<and> chunk_view st' b = s'"
        by (rule with_layer_sim [OF op])
      show ?thesis
      proof (cases "init_block_contract_storage_budget (chunk_view st b) vp ?h")
        case (Inl e)
        then show ?thesis using w Cons pre vp by (simp add: spec_execute_def execute_block_def)
      next
        case init: (Inr r)
        obtain x s1 where r: "r = (x, s1)" by (cases r)
        obtain st1 where st1: "with_layer st b (\<lambda>s. init_block_contract_storage_budget s vp ?h) = Ok (x, st1)"
          "in_block b st st1" "chunk_view st1 b = s1" using w init r by auto
        note et = execute_txs_sim [OF co in_block_open [OF st1(2)], of ?env 0 "blk_transactions blk" amt_zero, unfolded st1(3)]
        show ?thesis
        proof (cases "spec_txs eff ?env 0 (blk_transactions blk) amt_zero s1")
          case (Inl e)
          then show ?thesis using et st1(1) init r Cons pre vp by (simp add: spec_execute_def execute_block_def del: spec_txs.simps execute_txs.simps)
        next
          case txs: (Inr q)
          obtain fee s2 where q: "q = (fee, s2)" by (cases q)
          obtain st2 where st2: "execute_txs sv ?env b 0 (blk_transactions blk) amt_zero st1 = Ok (fee, st2)"
            "in_block b st1 st2" "chunk_view st2 b = s2" using et txs q by auto
          note pf = pay_fees_sim [OF in_block_open [OF st2(2)], of "tx_fee_receiver prelude" fee, unfolded st2(3)]
          have pre_eq: "execute_block sv blk st b fast_sync =
              try_ret (pay_fees st2 b (tx_fee_receiver prelude) fee) (\<lambda>st. settle_contract_storage_budget st b vp ?h)"
            "spec_execute sv eff blk fast_sync (chunk_view st b) =
              try_ret (spec_pay s2 (tx_fee_receiver prelude) fee) (\<lambda>s. spec_settle s vp ?h)"
            using st1(1) st2(1) init r txs q Cons pre vp
            by (simp_all add: spec_execute_def execute_block_def del: spec_txs.simps execute_txs.simps)
          show ?thesis
          proof (cases "spec_pay s2 (tx_fee_receiver prelude) fee")
            case (Inl e)
            then show ?thesis using pf pre_eq by simp
          next
            case pay: (Inr s3)
            then obtain st3 where st3: "pay_fees st2 b (tx_fee_receiver prelude) fee = Ok st3" "in_block b st2 st3"
              "chunk_view st3 b = s3" using pf by auto
            note ss = settle_sim [OF in_block_open [OF st3(2)], of vp ?h, unfolded st3(3)]
            have fr: "in_block b st st3" using in_block_trans [OF st1(2) in_block_trans [OF st2(2) st3(2)]] .
            show ?thesis
              using ss pay st3(1) pre_eq in_block_trans [OF fr] by (cases "spec_settle s3 vp ?h") auto
          qed
        qed
      qed
    qed
  qed (simp add: spec_execute_def execute_block_def Cons)
qed (simp add: spec_execute_def execute_block_def)

end
