(* ===== verification/SideBranches.thy ===== *)
theory SideBranches
  imports StrictChain
begin

text \<open>
  Bounding the side branches, \<^verbatim>\<open>enforce_side_capacity\<close> of \<^verbatim>\<open>src/chain/src/tree.rs\<close>: the call returns, evicts only
  subtrees beside the canonical chain, keeps the invariants of the tree, and leaves at most the
  configured number of side blocks.
\<close>

section \<open>Dropping children\<close>

definition kids_distinct :: "chunk_store \<Rightarrow> bool" where
  "kids_distinct st \<longleftrightarrow> (\<forall>n c. cs_chunk st n = Some c \<longrightarrow> distinct (ch_children c))"

definition pruned_chunk :: "chunk \<Rightarrow> chunk \<Rightarrow> bool" where
  "pruned_chunk c c' \<longleftrightarrow> (\<exists>P. c' = c\<lparr>ch_children := filter P (ch_children c)\<rparr>)"

definition pruned :: "chunk_store \<Rightarrow> chunk_store \<Rightarrow> bool" where
  "pruned st st' \<longleftrightarrow>
     cs_next st' = cs_next st \<and> cs_disk st' = cs_disk st \<and>
     (\<forall>n. rel_option pruned_chunk (cs_chunk st n) (cs_chunk st' n))"

lemma pruned_chunk_refl: "pruned_chunk c c"
  unfolding pruned_chunk_def by (rule exI [of _ "\<lambda>_. True"]) simp

lemma pruned_chunk_trans: "pruned_chunk a b \<Longrightarrow> pruned_chunk b c \<Longrightarrow> pruned_chunk a c"
  by (auto simp: pruned_chunk_def)

lemma pruned_chunkD:
  assumes "pruned_chunk c c'"
  shows "ch_origin c' = ch_origin c" "ch_source c' = ch_source c" "ch_body c' = ch_body c"
    "set (ch_children c') \<subseteq> set (ch_children c)" "distinct (ch_children c) \<Longrightarrow> distinct (ch_children c')"
  using assms by (auto simp: pruned_chunk_def)

lemma pruned_refl: "pruned st st"
  by (simp add: pruned_def option.rel_refl pruned_chunk_refl)

lemma pruned_trans:
  assumes "pruned a b" "pruned b c"
  shows "pruned a c"
proof -
  have "rel_option pruned_chunk (cs_chunk a n) (cs_chunk c n)" for n
  proof -
    have "rel_option pruned_chunk (cs_chunk a n) (cs_chunk b n)" "rel_option pruned_chunk (cs_chunk b n) (cs_chunk c n)"
      using assms by (auto simp: pruned_def)
    then show ?thesis
      by (cases "cs_chunk a n"; cases "cs_chunk b n"; cases "cs_chunk c n") (auto intro: pruned_chunk_trans)
  qed
  then show ?thesis using assms by (simp add: pruned_def)
qed

lemma pruned_cases:
  assumes "pruned st st'"
  obtains (none) "cs_chunk st n = None" "cs_chunk st' n = None"
    | (some) c c' where "cs_chunk st n = Some c" "cs_chunk st' n = Some c'" "pruned_chunk c c'"
proof -
  have "rel_option pruned_chunk (cs_chunk st n) (cs_chunk st' n)" using assms by (simp add: pruned_def)
  then show ?thesis by (cases rule: option.rel_cases) (use that in auto)
qed

lemma pruned_child_rel:
  assumes "pruned st st'" "child_rel st' a b"
  shows "child_rel st a b"
  using assms(1)
proof (cases rule: pruned_cases [of _ _ a])
  case (some c c')
  then show ?thesis using assms(2) pruned_chunkD(4) [OF some(3)] by (auto simp: child_rel_def)
qed (use assms(2) in \<open>simp add: child_rel_def\<close>)

lemma pruned_in_tree:
  assumes "pruned st st'" "in_tree st' a b"
  shows "in_tree st a b"
  using assms(2) by (induction rule: rtranclp_induct) (auto dest: pruned_child_rel [OF assms(1)] intro: rtranclp.rtrancl_into_rtrancl)

lemma pruned_links:
  assumes "pruned st st'"
  shows "same_links st st'" "map_option read_part (cs_chunk st' m) = map_option read_part (cs_chunk st m)"
proof -
  have "map_option ch_origin (cs_chunk st' m) = map_option ch_origin (cs_chunk st m) \<and>
    map_option ch_source (cs_chunk st' m) = map_option ch_source (cs_chunk st m) \<and>
    map_option read_part (cs_chunk st' m) = map_option read_part (cs_chunk st m)" for m
    using assms by (cases rule: pruned_cases [of _ _ m]) (simp_all add: read_part_def pruned_chunkD)
  then show "same_links st st'" "map_option read_part (cs_chunk st' m) = map_option read_part (cs_chunk st m)"
    by (auto simp: same_links_def)
qed

lemmas pruned_ops = same_links_ops [OF pruned_links(1)]

lemma pruned_view: "pruned st st' \<Longrightarrow> chunk_wf st \<Longrightarrow> chunk_view st' n = chunk_view st n"
  using chunk_view_cong [of st n st'] pruned_links(2) by (auto simp: pruned_def)

lemma pruned_frame:
  assumes "pruned st st'"
  shows "kids_distinct st \<Longrightarrow> kids_distinct st'" "childless st \<Longrightarrow> childless st'"
    "durable_root st r disk \<Longrightarrow> durable_root st' r disk"
proof -
  show "kids_distinct st'" if "kids_distinct st"
    unfolding kids_distinct_def
  proof (intro allI impI)
    fix n c' assume "cs_chunk st' n = Some c'"
    then show "distinct (ch_children c')"
      using that by (cases rule: pruned_cases [OF assms, of n]) (auto simp: kids_distinct_def intro: pruned_chunkD)
  qed
  show "childless st'" if "childless st"
    unfolding childless_def
  proof (intro allI impI)
    fix n c' assume c': "cs_chunk st' n = Some c'" "is_writable c'"
    show "ch_children c' = []"
      using assms
    proof (cases rule: pruned_cases [of _ _ n])
      case (some c k)
      then have k: "k = c'" using c' by simp
      then have "is_writable c" using c'(2) pruned_chunkD(3) [OF some(3)] by (simp add: is_writable_def)
      then have "ch_children c = []" using that some(1) by (simp add: childless_def)
      then show ?thesis using pruned_chunkD(4) [OF some(3)] k by simp
    qed (use c' in simp)
  qed
  show "durable_root st' r disk" if "durable_root st r disk"
  proof -
    from that obtain c d where c: "cs_chunk st r = Some c" "ch_source c = Disk disk" "ch_body c = Frozen d"
      "\<forall>key v. \<not> root_marker key \<longrightarrow> dl_state d key = Some v \<longrightarrow> cs_disk st disk key = Ok v"
      unfolding durable_root_def by blast
    obtain c' where "cs_chunk st' r = Some c'" "pruned_chunk c c'"
      by (cases rule: pruned_cases [OF assms, of r]) (use c(1) in auto)
    then show ?thesis using c assms pruned_chunkD [of c c'] by (auto simp: durable_root_def pruned_def)
  qed
qed

lemma remove_pruned:
  assumes "remove_block_child st p w = Ok (b, st')" "store_typed st"
  shows "pruned st st'" "store_typed st'" "b \<longleftrightarrow> child_rel st p w"
    "child_rel st' a n \<longleftrightarrow> child_rel st a n \<and> \<not> (a = p \<and> n = w)"
proof -
  from assms(1) obtain c where c: "cs_chunk st p = Some c"
    "b = (length (ch_children c) \<noteq> length (filter (\<lambda>x. x \<noteq> w) (ch_children c)))"
    "st' = put_chunk st p (c\<lparr>ch_children := filter (\<lambda>x. x \<noteq> w) (ch_children c)\<rparr>)"
    by (auto simp: remove_block_child_def Let_def)
  have "pruned_chunk c (c\<lparr>ch_children := filter (\<lambda>x. x \<noteq> w) (ch_children c)\<rparr>)" by (auto simp: pruned_chunk_def)
  then show "pruned st st'" using c(1) by (auto simp: pruned_def c(3) option.rel_refl pruned_chunk_refl)
  show "store_typed st'"
    using chunk_step_basic [OF assms(2) step_remove [OF assms(1)]] basics_typed_keeps assms(2) by blast
  have "length (ch_children c) = length (filter (\<lambda>x. x \<noteq> w) (ch_children c)) \<longleftrightarrow> w \<notin> set (ch_children c)"
    using length_filter_less [of w "ch_children c" "\<lambda>x. x \<noteq> w"] filter_id_conv [of "\<lambda>x. x \<noteq> w" "ch_children c"]
    by (cases "w \<in> set (ch_children c)") auto
  then have "b \<longleftrightarrow> w \<in> set (ch_children c)" using c(2) by argo
  then show "b \<longleftrightarrow> child_rel st p w" using c(1) by (simp add: child_rel_def)
  show "child_rel st' a n \<longleftrightarrow> child_rel st a n \<and> \<not> (a = p \<and> n = w)"
    using c(1) by (auto simp: child_rel_def c(3))
qed


section \<open>Counting\<close>

lemma card_insert_le_Suc: "card (insert x A) \<le> Suc (card A)"
  by (cases "finite A") (simp_all add: card_insert_if)

text \<open>The count is an upper bound for the nodes below the stack that are not canonical.\<close>

lemma count_side_spec:
  assumes ty: "store_typed st"
  shows "good_stack st stack \<Longrightarrow>
    \<exists>N. count_side st canonical stack n = Some (Ok N) \<and>
      n + card {m. (\<exists>s\<in>set stack. in_tree st s m) \<and> hsh st m \<notin> set canonical} \<le> N"
proof (induction stack arbitrary: n rule: wf_induct_rule [OF wf_dfs_rel [of st]])
  case (1 stack)
  show ?case
  proof (cases stack)
    case Nil
    then show ?thesis by (subst count_side.simps) simp
  next
    case (Cons x rest)
    obtain c where c: "cs_chunk st x = Some c" and b: "block_chunk st x"
      using 1(2) unfolding Cons by (rule good_stack_chunk)
    note ops = block_chunk_ops [OF b]
    let ?next = "rev (ch_children c) @ rest"
    let ?n = "if hsh st x \<in> set canonical then n else n + 1"
    let ?S = "\<lambda>stack. {m. (\<exists>s\<in>set stack. in_tree st s m) \<and> hsh st m \<notin> set canonical}"
    have eq: "count_side st canonical stack n = count_side st canonical ?next ?n"
      using ops Cons c by (subst count_side.simps) simp
    obtain N where N: "count_side st canonical ?next ?n = Some (Ok N)" "?n + card (?S ?next) \<le> N"
      using 1(1) [of ?next ?n] dfs_step [OF ty c] good_stack_step [OF _ c] 1(2) Cons by blast
    have "in_tree st x m \<longleftrightarrow> m = x \<or> (\<exists>s\<in>set (ch_children c). in_tree st s m)" for m
      by (subst in_tree_unfold) (use c in auto)
    then have S: "?S stack = (if hsh st x \<in> set canonical then ?S ?next else insert x (?S ?next))"
      unfolding Cons by auto
    have "card (insert x (?S ?next)) \<le> Suc (card (?S ?next))" by (rule card_insert_le_Suc)
    then have "n + card (?S stack) \<le> N" using N(2) unfolding S by (auto split: if_splits)
    then show ?thesis using N(1) unfolding eq by blast
  qed
qed

section \<open>The canonical chain\<close>

lemma chain_loop_spec:
  assumes sh: "tree_shape st r" and n: "in_tree st r n"
  shows "\<exists>xs. chain_loop st n acc = Some (Ok (r # xs @ rev acc)) \<and> linked st r xs n"
  using n
proof (induction n arbitrary: acc rule: less_induct)
  case (less n)
  show ?case
  proof (cases "n = r")
    case True
    from sh obtain c d where "cs_chunk st r = Some c" "ch_source c = Disk d" by (auto simp: tree_shape_def)
    then have "parent_of st r = Ok None" by (simp add: parent_of_def parent_def)
    then show ?thesis using True by (subst chain_loop.simps) (auto intro!: exI [of _ "[]"])
  next
    case False
    obtain p where p: "in_tree st r p" "child_rel st p n" "parent_of st n = Ok (Some p)" "p < n"
      by (rule ancestor_parent [OF sh _ less.prems]) (use False in auto)
    obtain xs where xs: "chain_loop st p (acc @ [n]) = Some (Ok (r # xs @ rev (acc @ [n])))" "linked st r xs p"
      using less.IH [OF p(4,1)] by blast
    have "chain_loop st n acc = chain_loop st p (acc @ [n])"
      using p(3) by (subst chain_loop.simps) simp
    moreover have "linked st r (xs @ [n]) n" using xs(2) p(2) by (auto simp: linked_snoc)
    ultimately show ?thesis using xs(1) by (intro exI [of _ "xs @ [n]"]) simp
  qed
qed

lemma hashes_of_spec: "(\<And>n. n \<in> set ns \<Longrightarrow> block_chunk st n) \<Longrightarrow> hashes_of st ns = Ok (map (hsh st) ns)"
  by (induction ns) (simp_all add: block_chunk_ops)

lemma side_children_spec:
  "(\<And>n. n \<in> set cs \<Longrightarrow> block_chunk st n) \<Longrightarrow>
     side_children st next cs = Ok (filter (\<lambda>b. next \<noteq> Some (hsh st b)) cs)"
  by (induction cs) (simp_all add: block_chunk_ops)

fun next_hash :: "chunk_store \<Rightarrow> nat list \<Rightarrow> bytes option" where
  "next_hash st [] = None"
| "next_hash st (n # _) = Some (hsh st n)"

fun sides_of :: "chunk_store \<Rightarrow> nat list \<Rightarrow> nat list" where
  "sides_of st [] = []"
| "sides_of st (a # rest) =
     filter (\<lambda>b. next_hash st rest \<noteq> Some (hsh st b)) (ch_children (the (cs_chunk st a))) @ sides_of st rest"

lemma side_roots_spec:
  assumes "\<And>a. a \<in> set chain \<Longrightarrow> block_chunk st a" "\<And>a b. a \<in> set chain \<Longrightarrow> child_rel st a b \<Longrightarrow> block_chunk st b"
  shows "side_roots st chain = Ok (sides_of st chain)"
  using assms
proof (induction chain)
  case (Cons a rest)
  have IH: "side_roots st rest = Ok (sides_of st rest)" by (rule Cons.IH) (use Cons.prems in auto)
  note prems = Cons.prems
  have b: "block_chunk st a" using Cons.prems by simp
  then obtain c where c: "cs_chunk st a = Some c" by (auto simp: block_chunk_def)
  have "block_chunk st k" if "k \<in> set (ch_children c)" for k
    using Cons.prems(2) [of a k] that c by (auto simp: child_rel_def)
  then have sc: "side_children st next (ch_children c) = Ok (filter (\<lambda>b. next \<noteq> Some (hsh st b)) (ch_children c))" for "next"
    by (rule side_children_spec)
  show ?case
  proof (cases rest)
    case Nil
    then show ?thesis using b c sc IH by (simp add: block_chunk_ops)
  next
    case (Cons k ks)
    then have "block_chunk st k" using prems(1) [of k] by simp
    then show ?thesis using b c sc IH Cons by (simp add: block_chunk_ops)
  qed
qed simp


lemma linked_covers:
  assumes sh: "tree_shape st r" and ri: "in_tree st r i" and l: "linked st i xs n" and a: "in_tree st i a" "in_tree st a n"
  shows "a \<in> set (i # xs)"
  using l a(2)
proof (induction xs arbitrary: n rule: rev_induct)
  case Nil
  then show ?case using a(1) in_tree_antisym [OF a(1) _ tree_shapeD(1) [OF sh]] by auto
next
  case (snoc y ys)
  obtain m where m: "y = n" "linked st i ys m" "child_rel st m n" using snoc.prems(1) by (auto simp: linked_snoc)
  show ?case
  proof (cases "a = n")
    case False
    have ra: "in_tree st r a" using ri a(1) by simp
    obtain p where p: "in_tree st a p" "in_tree st r p" "child_rel st p n"
      by (rule ancestor_parent [OF sh ra snoc.prems(2) False])
    have "in_tree st r m" using ri linked_in_tree [OF m(2)] by simp
    then have "p = m" using tree_parent_unique [OF sh p(2) _ p(3) m(3)] by blast
    then show ?thesis using snoc.IH [OF m(2)] p(1) by auto
  qed (use m in simp)
qed

section \<open>Sides\<close>

definition side_set :: "chunk_store \<Rightarrow> nat list \<Rightarrow> nat set" where
  "side_set st chain = {b. \<exists>a\<in>set chain. child_rel st a b \<and> b \<notin> set chain}"

lemma linked_le: "linked st a xs n \<Longrightarrow> store_typed st \<Longrightarrow> k \<in> set xs \<Longrightarrow> a < k"
proof (induction xs arbitrary: a)
  case (Cons x xs)
  then have "a < x" using child_rel_less(1) by auto
  with Cons show ?case by fastforce
qed simp

lemma sides_of_spec:
  assumes inv: "tree_inv t st" and kd: "kids_distinct st"
  shows "in_tree st (ft_root t) a \<Longrightarrow> linked st a xs n \<Longrightarrow>
    set (sides_of st (a # xs)) = side_set st (a # xs) \<and> distinct (sides_of st (a # xs))"
proof (induction xs arbitrary: a)
  note sh = tree_invD(1) [OF inv] and ty = tree_invD(2) [OF inv]
  {
    case Nil
    obtain c where c: "cs_chunk st a = Some c"
      using tree_inv_block [OF inv Nil(1)] by (auto simp: block_chunk_def)
    have "a \<noteq> b" if "child_rel st a b" for b using child_rel_less(1) [OF ty that] by simp
    then show ?case using c kd by (auto simp: side_set_def child_rel_def kids_distinct_def)
  next
    case (Cons x xs)
    have x: "child_rel st a x" "linked st x xs n" using Cons.prems(2) by auto
    have rx: "in_tree st (ft_root t) x" using Cons.prems(1) x(1) by (rule rtranclp.rtrancl_into_rtrancl)
    note IH = Cons.IH [OF rx x(2)]
    obtain c where c: "cs_chunk st a = Some c" using x(1) by (auto simp: child_rel_def)
    have below: "a < k" if "k \<in> set (x # xs)" for k
      using linked_le [OF Cons.prems(2) ty] that by simp
    have hx: "hsh st x = hsh st b \<longleftrightarrow> b = x" if "child_rel st a b" for b
      using tree_invD(8) [OF inv rx rtranclp.rtrancl_into_rtrancl [OF Cons.prems(1) that]] by auto
    have off: "b \<notin> set xs" if b: "child_rel st a b" "b \<noteq> x" for b
    proof
      assume "b \<in> set xs"
      then have xb: "in_tree st x b" using linked_nodes [OF x(2)] by blast
      obtain p where p: "in_tree st x p" "in_tree st (ft_root t) p" "child_rel st p b"
        by (rule ancestor_parent [OF sh rx xb]) (use b(2) in auto)
      have "p = a" using tree_parent_unique [OF sh p(2) Cons.prems(1) p(3) b(1)] .
      then have "x \<le> a" using in_tree_le [OF p(1) ty] by simp
      then show False using below [of x] by simp
    qed
    have kid: "b \<noteq> a \<and> \<not> child_rel st a b" if "k \<in> set (x # xs)" "child_rel st k b" for k b
    proof -
      have "in_tree st x k" using linked_nodes [OF x(2)] that(1) by auto
      then have rk: "in_tree st (ft_root t) k" using rx by simp
      have "k < b" by (rule child_rel_less(1) [OF ty that(2)])
      moreover have "a < k" using below that(1) by blast
      ultimately show ?thesis using tree_parent_unique [OF sh rk Cons.prems(1) that(2)] by auto
    qed
    let ?F = "filter (\<lambda>b. Some (hsh st x) \<noteq> Some (hsh st b)) (ch_children c)"
    have F: "set ?F = {b. child_rel st a b \<and> b \<noteq> x}"
      using c hx by (auto simp: child_rel_def)
    have so: "sides_of st (a # x # xs) = ?F @ sides_of st (x # xs)" using c by simp
    have "{b. child_rel st a b \<and> b \<noteq> x} \<union> side_set st (x # xs) = side_set st (a # x # xs)"
      using off kid child_rel_less(1) [OF ty, of a a] by (auto simp: side_set_def)
    moreover have "distinct (?F @ sides_of st (x # xs))"
      using IH kd c kid unfolding distinct_append F by (auto simp: kids_distinct_def side_set_def)
    ultimately show ?case unfolding so set_append F using IH by blast
  }
qed

lemma side_insert_spec:
  "block_chunk st a \<Longrightarrow> (\<And>b. b \<in> set bs \<Longrightarrow> block_chunk st b) \<Longrightarrow>
     \<exists>ys. side_insert st a bs = Ok ys \<and> mset ys = add_mset a (mset bs)"
proof (induction bs)
  case (Cons b bs)
  obtain ys where ys: "side_insert st a bs = Ok ys" "mset ys = add_mset a (mset bs)" using Cons by auto
  obtain le where "side_key_le st a b = Ok le"
    using Cons.prems by (simp add: side_key_le_def block_chunk_ops)
  then show ?case using ys by (cases le) auto
qed simp

lemma side_sort_spec:
  "(\<And>b. b \<in> set bs \<Longrightarrow> block_chunk st b) \<Longrightarrow> \<exists>ys. side_sort st bs = Ok ys \<and> mset ys = mset bs"
proof (induction bs)
  case (Cons b bs)
  obtain ys where ys: "side_sort st bs = Ok ys" "mset ys = mset bs" using Cons by auto
  then have "set ys = set bs" by (metis set_mset_mset)
  then show ?case using ys side_insert_spec [of st b ys] Cons.prems by auto
qed simp


section \<open>Eviction\<close>

lemma pruned_tree_inv:
  assumes inv: "tree_inv t st" and pr: "pruned st st'" and ty: "store_typed st'"
    and l: "linked st (ft_root t) xs (ft_head t)" and l': "linked st' (ft_root t) xs (ft_head t)"
  shows "tree_inv t st'"
proof -
  note sh = tree_invD(1) [OF inv] and it = pruned_in_tree [OF pr] and ops = pruned_ops [OF pr]
  let ?r = "ft_root t"
  have src: "ch_source (the (cs_chunk st' b)) = ch_source (the (cs_chunk st b))" for b
    using pr by (cases rule: pruned_cases [of _ _ b]) (simp_all add: pruned_chunkD)
  from sh obtain c d w where c: "cs_chunk st ?r = Some c" "ch_source c = Disk d" "frozen_state c = Some w"
    by (auto simp: tree_shape_def)
  obtain c' where "cs_chunk st' ?r = Some c'" "pruned_chunk c c'"
    using pr by (cases rule: pruned_cases [of _ _ ?r]) (use c(1) in auto)
  then have root: "\<exists>c d w. cs_chunk st' ?r = Some c \<and> ch_source c = Disk d \<and> frozen_state c = Some w"
    using c pruned_chunkD [of c c'] by (auto simp: frozen_state_def)
  have shape: "tree_shape st' ?r"
    unfolding tree_shape_def
  proof (intro conjI allI impI)
    fix n a b
    show "block_chunk st' n" if "in_tree st' ?r n" using tree_shapeD(3) [OF sh it [OF that]] ops(7) by simp
    assume a: "in_tree st' ?r a" "child_rel st' a b"
    note d = tree_shapeD(4,5) [OF sh it [OF a(1)] pruned_child_rel [OF pr a(2)]]
    show "ch_source (the (cs_chunk st' b)) = Parent a" "hgt st' b = hgt st' a + 1" using d src ops(8) by simp_all
  qed (use ty root in auto)
  have "ft_scheduled_root t \<in> set (?r # xs)"
    by (rule linked_covers [OF sh _ l tree_invD(5,6) [OF inv]]) simp
  then have "in_tree st' ?r (ft_scheduled_root t) \<and> in_tree st' (ft_scheduled_root t) (ft_head t)"
    using linked_nodes [OF l'] linked_in_tree [OF l'] by auto
  moreover have "\<not> fck_less (fkey st' (ft_head t)) (fkey st' n)" if "in_tree st' ?r n" for n
    using tree_invD(7) [OF inv it [OF that]] ops(10) by simp
  moreover have "n = m" if "in_tree st' ?r n" "in_tree st' ?r m" "hsh st' n = hsh st' m" for n m
    using tree_invD(8) [OF inv it [OF that(1)] it [OF that(2)]] that(3) ops(9) by simp
  ultimately show ?thesis using shape by (auto simp: tree_inv_def)
qed

definition side_nodes :: "tree_inner \<Rightarrow> chunk_store \<Rightarrow> nat set" where
  "side_nodes t st = {n. in_tree st (ft_root t) n \<and> \<not> in_tree st n (ft_head t)}"

lemma side_nodes_hash:
  assumes inv: "tree_inv t st" and l: "linked st (ft_root t) xs (ft_head t)"
  shows "side_nodes t st = {n. in_tree st (ft_root t) n \<and> hsh st n \<notin> set (map (hsh st) (ft_root t # xs))}"
proof -
  have on: "in_tree st n (ft_head t) \<longleftrightarrow> n \<in> set (ft_root t # xs)" if "in_tree st (ft_root t) n" for n
    using linked_covers [OF tree_invD(1) [OF inv] _ l that] linked_nodes [OF l] linked_in_tree [OF l] by auto
  have "n \<in> set (ft_root t # xs) \<longleftrightarrow> hsh st n \<in> set (map (hsh st) (ft_root t # xs))" if n: "in_tree st (ft_root t) n" for n
  proof
    assume "hsh st n \<in> set (map (hsh st) (ft_root t # xs))"
    then obtain m where m: "m \<in> set (ft_root t # xs)" "hsh st n = hsh st m" by auto
    then have "in_tree st (ft_root t) m" using linked_nodes [OF l] by auto
    then show "n \<in> set (ft_root t # xs)" using tree_invD(8) [OF inv n _ m(2)] m(1) by simp
  qed auto
  then show ?thesis using on by (auto simp: side_nodes_def)
qed

lemma no_sides:
  assumes inv: "tree_inv t st" and l: "linked st (ft_root t) xs (ft_head t)" and no: "side_set st (ft_root t # xs) = {}"
  shows "side_nodes t st = {}"
proof -
  have "n \<in> set (ft_root t # xs)" if "in_tree st (ft_root t) n" for n
    using that
  proof (induction rule: rtranclp_induct)
    case (step y z)
    then show ?case using no by (auto simp: side_set_def)
  qed simp
  then show ?thesis using linked_nodes [OF l] linked_in_tree [OF l] by (fastforce simp: side_nodes_def)
qed

lemma count_tree:
  assumes inv: "tree_inv t st" and l: "linked st (ft_root t) xs (ft_head t)"
  shows "\<exists>N. count_side st (map (hsh st) (ft_root t # xs)) [ft_root t] 0 = Some (Ok N) \<and> card (side_nodes t st) \<le> N"
proof -
  have "good_stack st [ft_root t]" using tree_inv_block [OF inv] by (simp add: good_stack_def)
  from count_side_spec [OF tree_invD(2) [OF inv] this, of "map (hsh st) (ft_root t # xs)" 0] show ?thesis
    unfolding side_nodes_hash [OF inv l] by simp
qed

lemma linked_mono: "linked st a xs n \<Longrightarrow> (\<And>k b. b \<in> set xs \<Longrightarrow> child_rel st k b \<Longrightarrow> child_rel st' k b) \<Longrightarrow> linked st' a xs n"
  by (induction xs arbitrary: a) auto

lemma evict_loop_spec:
  assumes "canonical = map (hsh st) (ft_root t # xs)"
  shows "tree_inv t st \<Longrightarrow> kids_distinct st \<Longrightarrow> linked st (ft_root t) xs (ft_head t) \<Longrightarrow> distinct sides \<Longrightarrow>
    set sides = side_set st (ft_root t # xs) \<Longrightarrow>
    \<exists>st'. evict_loop st (ft_root t) canonical capacity sides = Some (Ok st') \<and> pruned st st' \<and> tree_inv t st' \<and>
      card (side_nodes t st') \<le> capacity"
  using assms
proof (induction sides arbitrary: st)
  case Nil
  obtain N where N: "count_side st canonical [ft_root t] 0 = Some (Ok N)"
    using count_tree [OF Nil.prems(1,3)] Nil.prems(6) by blast
  have "side_nodes t st = {}" using no_sides [OF Nil.prems(1,3)] Nil.prems(5) by simp
  then show ?case using N Nil.prems(1) pruned_refl by simp
next
  case (Cons w rest)
  let ?r = "ft_root t" and ?ch = "ft_root t # xs"
  note inv = Cons.prems(1) and l = Cons.prems(3)
  obtain N where N: "count_side st canonical [?r] 0 = Some (Ok N)" "card (side_nodes t st) \<le> N"
    using count_tree [OF inv l] Cons.prems(6) by blast
  show ?case
  proof (cases "capacity < N")
    case False
    then show ?thesis using N inv pruned_refl by (intro exI [of _ st]) simp
  next
    case True
    obtain a where a: "a \<in> set ?ch" "child_rel st a w" "w \<notin> set ?ch"
      using Cons.prems(5) by (auto simp: side_set_def)
    have ra: "in_tree st ?r a" using a(1) linked_nodes [OF l] by auto
    have rw: "in_tree st ?r w" using ra a(2) by (rule rtranclp.rtrancl_into_rtrancl)
    have pa: "parent_of st w = Ok (Some a)" by (rule tree_parent [OF tree_invD(1) [OF inv] rw a(2) ra])
    obtain c where c: "cs_chunk st a = Some c" using a(2) by (auto simp: child_rel_def)
    obtain b st1 where rm: "remove_block_child st a w = Ok (b, st1)"
      using c by (simp add: remove_block_child_def Let_def)
    note r = remove_pruned [OF rm tree_invD(2) [OF inv]]
    have b: "b" using r(3) a(2) by simp
    have l1: "linked st1 ?r xs (ft_head t)"
      by (rule linked_mono [OF l]) (use r(4) a(3) in auto)
    have inv1: "tree_inv t st1" by (rule pruned_tree_inv [OF inv r(1,2) l l1])
    have kd1: "kids_distinct st1" by (rule pruned_frame(1) [OF r(1) Cons.prems(2)])
    have only: "k = a" if "k \<in> set ?ch" "child_rel st k w" for k
      using tree_parent_unique [OF tree_invD(1) [OF inv] _ ra that(2) a(2)] that(1) linked_nodes [OF l] by auto
    have "side_set st1 ?ch = side_set st ?ch - {w}"
      using r(4) only by (auto simp: side_set_def)
    then have sides1: "set rest = side_set st1 ?ch" using Cons.prems(4,5) by auto
    have can1: "canonical = map (hsh st1) ?ch" using Cons.prems(6) pruned_ops(9) [OF r(1)] by simp
    obtain st' where st': "evict_loop st1 ?r canonical capacity rest = Some (Ok st')" "pruned st1 st'" "tree_inv t st'"
      "card (side_nodes t st') \<le> capacity"
      using Cons.IH [OF inv1 kd1 l1 _ sides1 can1] Cons.prems(4) by auto
    have "evict_loop st ?r canonical capacity (w # rest) = Some (Ok st')"
      using N(1) True pa rm b st'(1) by simp
    then show ?thesis using st' pruned_trans [OF r(1) st'(2)] by blast
  qed
qed

theorem enforce_side_capacity_spec:
  assumes inv: "tree_inv t st" and kd: "kids_distinct st"
  shows "\<exists>st'. enforce_side_capacity t st capacity = Some (Ok st') \<and> pruned st st' \<and> tree_inv t st' \<and>
    card (side_nodes t st') \<le> capacity"
proof -
  note sh = tree_invD(1) [OF inv]
  obtain xs where xs: "chain_loop st (ft_head t) [] = Some (Ok (ft_root t # xs))" "linked st (ft_root t) xs (ft_head t)"
    using chain_loop_spec [OF sh tree_invD(4) [OF inv], of "[]"] by auto
  let ?ch = "ft_root t # xs"
  have it: "in_tree st (ft_root t) a" if "a \<in> set ?ch" for a using that linked_nodes [OF xs(2)] by auto
  have bc: "block_chunk st a" if "a \<in> set ?ch" for a using tree_inv_block [OF inv it [OF that]] .
  have bk: "block_chunk st b" if "a \<in> set ?ch" "child_rel st a b" for a b
    using tree_inv_block [OF inv rtranclp.rtrancl_into_rtrancl [OF it [OF that(1)] that(2)]] .
  have s: "set (sides_of st ?ch) = side_set st ?ch" "distinct (sides_of st ?ch)"
    using sides_of_spec [OF inv kd _ xs(2)] by auto
  obtain ys where ys: "side_sort st (sides_of st ?ch) = Ok ys" "mset ys = mset (sides_of st ?ch)"
    using side_sort_spec [of "sides_of st ?ch" st] bk unfolding s(1) by (auto simp: side_set_def)
  have "set ys = side_set st ?ch" "distinct ys"
    using s ys(2) by (metis set_mset_mset, metis mset_eq_imp_distinct_iff)
  from evict_loop_spec [OF refl inv kd xs(2) this(2,1), of capacity] obtain st' where
    st': "evict_loop st (ft_root t) (map (hsh st) ?ch) capacity ys = Some (Ok st')" "pruned st st'" "tree_inv t st'"
    "card (side_nodes t st') \<le> capacity" by blast
  have hs: "hashes_of st ?ch = Ok (map (hsh st) ?ch)" by (rule hashes_of_spec) (rule bc)
  have sr: "side_roots st ?ch = Ok (sides_of st ?ch)" by (rule side_roots_spec) (fact bc, fact bk)
  have "enforce_side_capacity t st capacity = Some (Ok st')"
    unfolding enforce_side_capacity_def xs(1) bind_ro_simps hs sr ys(1) by (rule st'(1))
  with st' show ?thesis by blast
qed

end
