(* ===== verification/BlockStore.thy ===== *)
theory BlockStore
  imports ForkTree
begin

text \<open>
  The block database, \<^verbatim>\<open>src/db/src/block_store.rs\<close>: block bodies under their hash, the canonical
  height index and the cursor of the highest available height, and the root markers of the state
  database (\<^verbatim>\<open>state_status\<close> of \<^verbatim>\<open>src/db/src/store_mem.rs\<close>). The key-value backend comes from a library:
  reads answer from the contents of the database, and a batch write is an argument \<open>written\<close> that
  either stores the whole batch or fails and stores nothing, as \<^verbatim>\<open>DiskDB::try_write\<close> promises.
\<close>

named_theorems block_store_defs \<open>definitions of the block store operations\<close>

section \<open>Keys\<close>

definition KEY_PREFIX_BLOCK :: bytes where "KEY_PREFIX_BLOCK = [1]"

definition KEY_PREFIX_BLOCK_INDEX :: bytes where "KEY_PREFIX_BLOCK_INDEX = [2]"

definition KEY_AVAILABLE_CURSOR :: bytes where
  "KEY_AVAILABLE_CURSOR = map (of_nat \<circ> of_char) ''_block.cursor''"

definition block_key :: "bytes \<Rightarrow> bytes" where
  "block_key hash = KEY_PREFIX_BLOCK @ hash"

definition height_key :: "nat \<Rightarrow> bytes" where
  "height_key height = KEY_PREFIX_BLOCK_INDEX @ to_be_bytes 8 height"

section \<open>Operations\<close>

record kv_block_store =
  kb_disk :: layer
  kb_tip :: nat

definition read_hash_ret :: "layer \<Rightarrow> bytes \<Rightarrow> bytes option ret" where
  "read_hash_ret disk key =
     try_ret (disk key) (\<lambda>r. case r of
       None \<Rightarrow> Ok None
     | Some b \<Rightarrow> if length b \<noteq> 32 then errf ''block height index is malformed'' else Ok (Some b))"

definition raw_cursor :: "layer \<Rightarrow> nat ret" where
  "raw_cursor block =
     try_ret (block KEY_AVAILABLE_CURSOR) (\<lambda>r. case r of
       None \<Rightarrow> Ok 0
     | Some raw \<Rightarrow> if length raw \<noteq> 8 then errf ''block available cursor is malformed'' else Ok (be_nat raw))"

definition kv_new :: "layer \<Rightarrow> kv_block_store ret" where
  "kv_new block = try_ret (raw_cursor block) (\<lambda>tip. Ok \<lparr>kb_disk = block, kb_tip = tip\<rparr>)"

definition put_block :: "unit ret \<Rightarrow> kv_block_store \<Rightarrow> nat \<Rightarrow> bytes \<Rightarrow> bytes \<Rightarrow> kv_block_store ret" where
  "put_block written bs height hash body =
     (if height = 0 then errf ''genesis block must not be stored in BlockStore''
      else
        let batch = memkv_put Map.empty (block_key hash) body
        in try_ret written (\<lambda>_. Ok (bs\<lparr>kb_disk := disk_try_write (kb_disk bs) batch\<rparr>)))"

definition put_block_available ::
  "unit ret \<Rightarrow> kv_block_store \<Rightarrow> nat \<Rightarrow> bytes \<Rightarrow> bytes \<Rightarrow> kv_block_store ret" where
  "put_block_available written bs height hash body =
     (if height = 0 then errf ''genesis block must not be stored in BlockStore''
      else if height \<noteq> saturating_add64 (kb_tip bs) 1 then errf ''cannot append available block after cursor''
      else
        let batch = memkv_put Map.empty (block_key hash) body;
            batch = memkv_put batch (height_key height) hash;
            batch = memkv_put batch KEY_AVAILABLE_CURSOR (to_be_bytes 8 height)
        in try_ret written (\<lambda>_.
           Ok (bs\<lparr>kb_disk := disk_try_write (kb_disk bs) batch, kb_tip := height\<rparr>)))"

definition read_by_hash :: "kv_block_store \<Rightarrow> bytes \<Rightarrow> bytes option ret" where
  "read_by_hash bs hash = kb_disk bs (block_key hash)"

definition hash_by_height :: "kv_block_store \<Rightarrow> nat \<Rightarrow> bytes option ret" where
  "hash_by_height bs height = read_hash_ret (kb_disk bs) (height_key height)"

definition read_by_height :: "kv_block_store \<Rightarrow> nat \<Rightarrow> (bytes \<times> bytes) option ret" where
  "read_by_height bs height =
     try_ret (read_hash_ret (kb_disk bs) (height_key height)) (\<lambda>r. case r of
       None \<Rightarrow> Ok None
     | Some hash \<Rightarrow>
         try_ret (read_by_hash bs hash) (\<lambda>body. case body of
           None \<Rightarrow> errf ''block height index references missing body''
         | Some d \<Rightarrow> Ok (Some (hash, d))))"

definition available_cursor :: "kv_block_store \<Rightarrow> nat option ret" where
  "available_cursor bs = Ok (if 0 < kb_tip bs then Some (kb_tip bs) else None)"

text \<open>The scan of \<^verbatim>\<open>DiskDB::for_each\<close> is the backend's: \<open>scan\<close> says whether it met a record.\<close>

definition has_records :: "bool ret \<Rightarrow> kv_block_store \<Rightarrow> bool ret" where
  "has_records scan bs =
     try_ret scan (\<lambda>found. try_ret (available_cursor bs) (\<lambda>c. Ok (found \<or> c \<noteq> None)))"

fun reorg_contiguous :: "(nat \<times> bytes) list \<Rightarrow> unit ret" where
  "reorg_contiguous (a # b # rest) =
     (if checked_add 64 (fst a) 1 \<noteq> Some (fst b) then errf ''canonical reorg path is not contiguous''
      else reorg_contiguous (b # rest))"
| "reorg_contiguous canonical = Ok ()"

fun reorg_bodies :: "kv_block_store \<Rightarrow> bytes \<Rightarrow> (nat \<times> bytes) list \<Rightarrow> unit ret" where
  "reorg_bodies bs hash [] = Ok ()"
| "reorg_bodies bs hash ((h, x) # rest) =
     (if h = 0 then errf ''genesis block must not be indexed in BlockStore''
      else if x \<noteq> hash
      then try_ret (read_by_hash bs x) (\<lambda>r.
        if r = None then errf ''cannot index missing block'' else reorg_bodies bs hash rest)
      else reorg_bodies bs hash rest)"

definition reorg_batch :: "nat \<Rightarrow> nat \<Rightarrow> bytes \<Rightarrow> bytes \<Rightarrow> (nat \<times> bytes) list \<Rightarrow> memkv" where
  "reorg_batch current height hash body canonical =
     (let batch = memkv_put Map.empty (block_key hash) body;
          batch = foldl (\<lambda>b (h, x). memkv_put b (height_key h) x) batch canonical;
          batch = (if height < current
                   then foldl (\<lambda>b h. memkv_del b (height_key h)) batch [height + 1..<current + 1]
                   else batch)
      in memkv_put batch KEY_AVAILABLE_CURSOR (to_be_bytes 8 height))"

definition commit_reorg ::
  "unit ret \<Rightarrow> kv_block_store \<Rightarrow> nat \<Rightarrow> bytes \<Rightarrow> bytes \<Rightarrow> (nat \<times> bytes) list \<Rightarrow> kv_block_store ret" where
  "commit_reorg written bs height hash body canonical =
     (if height = 0 then errf ''genesis block must not be stored in BlockStore''
      else if canonical = [] then errf ''canonical reorg path is empty''
      else if last canonical \<noteq> (height, hash) then errf ''canonical reorg path ends at another block''
      else
        try_ret (reorg_contiguous canonical) (\<lambda>_.
        try_ret (reorg_bodies bs hash canonical) (\<lambda>_.
        try_ret written (\<lambda>_.
        Ok (bs\<lparr>kb_disk := disk_try_write (kb_disk bs) (reorg_batch (kb_tip bs) height hash body canonical),
               kb_tip := height\<rparr>)))))"

section \<open>The root markers of the state database\<close>

record chain_status =
  st_latest_height :: nat
  st_latest_hash :: bytes
  st_immature_height :: nat

datatype state_status = Uninitialized | Ready chain_status

definition state_status :: "bool ret \<Rightarrow> layer \<Rightarrow> state_status ret" where
  "state_status scan disk =
     try_ret (disk PERSIST_KEY_ROOT_HASH) (\<lambda>hash.
     try_ret (disk PERSIST_KEY_ROOT_HEIGHT) (\<lambda>height.
     case (hash, height) of
       (None, None) \<Rightarrow>
         try_ret scan (\<lambda>has_data.
         if has_data then errf ''state contains data but has no root markers'' else Ok Uninitialized)
     | (Some hs, Some ht) \<Rightarrow>
         if length hs = 32 \<and> length ht = 8
         then Ok (Ready \<lparr>st_latest_height = be_nat ht, st_latest_hash = hs, st_immature_height = be_nat ht\<rparr>)
         else errf ''state root markers are malformed''
     | _ \<Rightarrow> errf ''state root markers are incomplete''))"

definition status_of_store :: "bool ret \<Rightarrow> layer \<Rightarrow> chain_status ret" where
  "status_of_store scan disk =
     try_ret (state_status scan disk) (\<lambda>r. case r of
       Ready status \<Rightarrow> Ok status
     | Uninitialized \<Rightarrow>
         Ok \<lparr>st_latest_height = 0, st_latest_hash = replicate 32 0, st_immature_height = 0\<rparr>)"

lemmas [block_store_defs] = put_block_def put_block_available_def read_by_hash_def hash_by_height_def
  read_by_height_def commit_reorg_def read_hash_ret_def disk_try_write_def apply_delta_def memkv_put_def memkv_del_def

section \<open>The canonical index as a list\<close>

text \<open>The abstract view: the hashes of the available canonical blocks from height 1.\<close>

definition index_at :: "kv_block_store \<Rightarrow> nat \<Rightarrow> bytes" where
  "index_at bs h = (case kb_disk bs (height_key h) of Inr (Some x) \<Rightarrow> x | _ \<Rightarrow> [])"

definition canon :: "kv_block_store \<Rightarrow> bytes list" where
  "canon bs = map (\<lambda>i. index_at bs (i + 1)) [0..<kb_tip bs]"

definition has_body :: "kv_block_store \<Rightarrow> bytes \<Rightarrow> bool" where
  "has_body bs hash \<longleftrightarrow> (\<exists>body. kb_disk bs (block_key hash) = Ok (Some body))"

definition bodies_readable :: "kv_block_store \<Rightarrow> bool" where
  "bodies_readable bs \<longleftrightarrow> (\<forall>hash. \<exists>r. kb_disk bs (block_key hash) = Ok r)"

definition block_store_inv :: "kv_block_store \<Rightarrow> bool" where
  "block_store_inv bs \<longleftrightarrow>
     kb_tip bs < 2 ^ 64 \<and> raw_cursor (kb_disk bs) = Ok (kb_tip bs) \<and> bodies_readable bs \<and>
     (\<forall>h. 0 < h \<longrightarrow> h \<le> kb_tip bs \<longrightarrow>
        (\<exists>hash. kb_disk bs (height_key h) = Ok (Some hash) \<and> length hash = 32 \<and> has_body bs hash)) \<and>
     (\<forall>h<2 ^ 64. h = 0 \<or> kb_tip bs < h \<longrightarrow> kb_disk bs (height_key h) = Ok None)"

lemma keys_differ [simp]:
  "block_key x \<noteq> height_key h" "height_key h \<noteq> block_key x"
  "block_key x \<noteq> KEY_AVAILABLE_CURSOR" "KEY_AVAILABLE_CURSOR \<noteq> block_key x"
  "height_key h \<noteq> KEY_AVAILABLE_CURSOR" "KEY_AVAILABLE_CURSOR \<noteq> height_key h"
  "block_key x = block_key y \<longleftrightarrow> x = y"
  by (simp_all add: block_key_def height_key_def KEY_PREFIX_BLOCK_def KEY_PREFIX_BLOCK_INDEX_def KEY_AVAILABLE_CURSOR_def)

lemma height_key_inj: "a < 2 ^ 64 \<Longrightarrow> b < 2 ^ 64 \<Longrightarrow> height_key a = height_key b \<longleftrightarrow> a = b"
proof
  assume ab: "a < 2 ^ 64" "b < 2 ^ 64" and "height_key a = height_key b"
  then have "be_nat (to_be_bytes 8 a) = be_nat (to_be_bytes 8 b)" by (simp add: height_key_def)
  then show "a = b" using ab by (simp add: be_nat_to_be_bytes)
qed simp

lemma height_key_Suc: "a < b \<Longrightarrow> b < 2 ^ 64 \<Longrightarrow> height_key a \<noteq> height_key b"
  using height_key_inj [of a b] by simp

lemma length_canon [simp]: "length (canon bs) = kb_tip bs"
  by (simp add: canon_def)

lemma nth_canon: "i < kb_tip bs \<Longrightarrow> canon bs ! i = index_at bs (i + 1)"
  by (simp add: canon_def)

lemma canon_at: "0 < h \<Longrightarrow> h \<le> kb_tip bs \<Longrightarrow> canon bs ! (h - 1) = index_at bs h"
  by (cases h) (simp_all add: canon_def)

lemma block_store_invD:
  assumes "block_store_inv bs"
  shows "kb_tip bs < 2 ^ 64" "raw_cursor (kb_disk bs) = Ok (kb_tip bs)" "bodies_readable bs"
    "0 < h \<Longrightarrow> h \<le> kb_tip bs \<Longrightarrow> kb_disk bs (height_key h) = Ok (Some (index_at bs h)) \<and>
       length (index_at bs h) = 32 \<and> has_body bs (index_at bs h)"
    "h < 2 ^ 64 \<Longrightarrow> h = 0 \<or> kb_tip bs < h \<Longrightarrow> kb_disk bs (height_key h) = Ok None"
proof -
  show "0 < h \<Longrightarrow> h \<le> kb_tip bs \<Longrightarrow> kb_disk bs (height_key h) = Ok (Some (index_at bs h)) \<and>
       length (index_at bs h) = 32 \<and> has_body bs (index_at bs h)"
  proof -
    assume "0 < h" "h \<le> kb_tip bs"
    then obtain hash where "kb_disk bs (height_key h) = Ok (Some hash)" "length hash = 32" "has_body bs hash"
      using assms unfolding block_store_inv_def by blast
    then show ?thesis by (simp add: index_at_def)
  qed
qed (use assms in \<open>auto simp: block_store_inv_def\<close>)

text \<open>Reads return what the abstract list holds.\<close>

lemma hash_by_height_spec:
  assumes "block_store_inv bs" "h < 2 ^ 64"
  shows "hash_by_height bs h = Ok (if 0 < h \<and> h \<le> kb_tip bs then Some (canon bs ! (h - 1)) else None)"
proof (cases "0 < h \<and> h \<le> kb_tip bs")
  case True
  then have "canon bs ! (h - 1) = index_at bs h" by (intro canon_at) simp_all
  then show ?thesis using True block_store_invD(4) [OF assms(1), of h] by (simp add: hash_by_height_def read_hash_ret_def)
next
  case False
  then show ?thesis using block_store_invD(5) [OF assms] by (auto simp: hash_by_height_def read_hash_ret_def)
qed

lemma read_by_height_spec:
  assumes "block_store_inv bs" "h < 2 ^ 64"
  shows "if 0 < h \<and> h \<le> kb_tip bs
    then \<exists>body. read_by_height bs h = Ok (Some (canon bs ! (h - 1), body)) \<and>
      read_by_hash bs (canon bs ! (h - 1)) = Ok (Some body)
    else read_by_height bs h = Ok None"
proof (cases "0 < h \<and> h \<le> kb_tip bs")
  case True
  then have "canon bs ! (h - 1) = index_at bs h" by (intro canon_at) simp_all
  then show ?thesis
    using True block_store_invD(4) [OF assms(1), of h]
    by (auto simp: read_by_height_def read_hash_ret_def has_body_def read_by_hash_def)
next
  case False
  then show ?thesis using block_store_invD(5) [OF assms] by (auto simp: read_by_height_def read_hash_ret_def)
qed

text \<open>Opening the database again gives the same store.\<close>

lemma kv_new_reopen: "block_store_inv bs \<Longrightarrow> kv_new (kb_disk bs) = Ok bs"
  by (simp add: kv_new_def block_store_inv_def)

section \<open>The operations on the list\<close>

text \<open>
  One lemma for the writers: a batch that stores one body, writes the index of the heights after
  \<open>k\<close>, drops the rest and moves the cursor replaces the list after \<open>k\<close>.
\<close>

definition index_write :: "memkv \<Rightarrow> nat \<Rightarrow> bytes list \<Rightarrow> bytes \<Rightarrow> bytes \<Rightarrow> nat \<Rightarrow> bool" where
  "index_write batch k hs hash body current \<longleftrightarrow>
     batch KEY_AVAILABLE_CURSOR = Some (Some (to_be_bytes 8 (k + length hs))) \<and>
     (\<forall>x. batch (block_key x) = (if x = hash then Some (Some body) else None)) \<and>
     (\<forall>h<2 ^ 64. batch (height_key h) =
        (if k < h \<and> h \<le> k + length hs then Some (Some (hs ! (h - k - 1)))
         else if k + length hs < h \<and> h \<le> current then Some None else None))"

lemma index_write_spec:
  assumes inv: "block_store_inv bs" and w: "index_write batch k hs hash body (kb_tip bs)"
    and k: "k \<le> kb_tip bs" "k + length hs < 2 ^ 64"
    and hs: "\<forall>x\<in>set hs. length x = 32 \<and> (x = hash \<or> has_body bs x)"
  shows "let bs' = bs\<lparr>kb_disk := disk_try_write (kb_disk bs) batch, kb_tip := k + length hs\<rparr> in
    block_store_inv bs' \<and> canon bs' = take k (canon bs) @ hs \<and> kb_disk bs' (block_key hash) = Ok (Some body) \<and>
    (\<forall>x. x \<noteq> hash \<longrightarrow> kb_disk bs' (block_key x) = kb_disk bs (block_key x))"
proof -
  let ?bs = "bs\<lparr>kb_disk := disk_try_write (kb_disk bs) batch, kb_tip := k + length hs\<rparr>"
  note i = block_store_invD [OF inv]
  have cur: "batch KEY_AVAILABLE_CURSOR = Some (Some (to_be_bytes 8 (k + length hs)))"
    and bod: "\<And>x. batch (block_key x) = (if x = hash then Some (Some body) else None)"
    and idx: "\<And>h. h < 2 ^ 64 \<Longrightarrow> batch (height_key h) =
        (if k < h \<and> h \<le> k + length hs then Some (Some (hs ! (h - k - 1)))
         else if k + length hs < h \<and> h \<le> kb_tip bs then Some None else None)"
    using w by (simp_all add: index_write_def)
  have D: "kb_disk ?bs key = (case batch key of Some v \<Rightarrow> Ok v | None \<Rightarrow> kb_disk bs key)" for key
    by (simp add: disk_try_write_def apply_delta_def)
  have body: "kb_disk ?bs (block_key x) = (if x = hash then Ok (Some body) else kb_disk bs (block_key x))" for x
    unfolding D by (simp add: bod)
  have hb: "has_body ?bs x" if "x = hash \<or> has_body bs x" for x
    using that unfolding has_body_def body by auto
  have at: "kb_disk ?bs (height_key h) = Ok (Some (if h \<le> k then index_at bs h else hs ! (h - k - 1)))"
    if "0 < h" "h \<le> k + length hs" for h
    unfolding D using idx [of h] that k i(4) [of h] by auto
  have good: "length (if h \<le> k then index_at bs h else hs ! (h - k - 1)) = 32 \<and>
      has_body ?bs (if h \<le> k then index_at bs h else hs ! (h - k - 1))" if "0 < h" "h \<le> k + length hs" for h
  proof (cases "h \<le> k")
    case True
    then show ?thesis using i(4) [of h] that k(1) hb by simp
  next
    case False
    then have "hs ! (h - k - 1) \<in> set hs" using that by simp
    then show ?thesis using hs hb False by auto
  qed
  have none: "kb_disk ?bs (height_key h) = Ok None" if "h < 2 ^ 64" "h = 0 \<or> k + length hs < h" for h
    unfolding D using idx [OF that(1)] that(2) i(5) [OF that(1)] by auto
  have rc: "raw_cursor (kb_disk ?bs) = Ok (k + length hs)"
    unfolding raw_cursor_def D using cur k(2) by (simp add: be_nat_to_be_bytes)
  have rd: "bodies_readable ?bs" using i(3) unfolding bodies_readable_def body by auto
  have inv': "block_store_inv ?bs"
    unfolding block_store_inv_def using rc rd k(2) at good none by auto
  have "index_at ?bs h = (if h \<le> k then index_at bs h else hs ! (h - k - 1))" if "0 < h" "h \<le> k + length hs" for h
    using at [OF that] by (simp add: index_at_def)
  then have "canon ?bs ! n = (take k (canon bs) @ hs) ! n" if "n < k + length hs" for n
    using that k(1) nth_canon [of n ?bs] nth_canon [of n bs] by (auto simp: nth_append)
  moreover have "length (canon ?bs) = length (take k (canon bs) @ hs)" using k(1) by simp
  ultimately have "canon ?bs = take k (canon bs) @ hs" by (intro nth_equalityI) auto
  with inv' body show ?thesis by (simp add: Let_def del: kv_block_store.simps)
qed

lemma put_block_spec:
  assumes inv: "block_store_inv bs" and h: "0 < height"
  shows "\<exists>bs'. put_block (Ok ()) bs height hash body = Ok bs' \<and> block_store_inv bs' \<and> canon bs' = canon bs \<and>
    kb_tip bs' = kb_tip bs \<and> (\<forall>x. read_by_hash bs' x = (if x = hash then Ok (Some body) else read_by_hash bs x))"
proof -
  let ?bs = "bs\<lparr>kb_disk := disk_try_write (kb_disk bs) (memkv_put Map.empty (block_key hash) body)\<rparr>"
  have D: "kb_disk ?bs key = (if key = block_key hash then Ok (Some body) else kb_disk bs key)" for key
    by (simp add: disk_try_write_def apply_delta_def memkv_put_def)
  have "index_at ?bs = index_at bs" unfolding fun_eq_iff index_at_def D by simp
  then have "canon ?bs = canon bs" by (simp add: canon_def)
  moreover have "block_store_inv ?bs"
  proof -
    have hb: "has_body bs x \<Longrightarrow> has_body ?bs x" for x unfolding has_body_def D by simp
    have hk: "kb_disk ?bs (height_key h) = kb_disk bs (height_key h)" for h unfolding D by simp
    have rc: "raw_cursor (kb_disk ?bs) = raw_cursor (kb_disk bs)" unfolding raw_cursor_def D by simp
    have "bodies_readable ?bs" using block_store_invD(3) [OF inv] unfolding bodies_readable_def D by simp
    moreover have "\<exists>x. kb_disk bs (height_key h) = Ok (Some x) \<and> length x = 32 \<and> has_body ?bs x"
      if "0 < h" "h \<le> kb_tip bs" for h
      using block_store_invD(4) [OF inv that] hb by blast
    ultimately show ?thesis
      using block_store_invD(1,2,5) [OF inv] unfolding block_store_inv_def hk rc by simp
  qed
  moreover have "read_by_hash ?bs x = (if x = hash then Ok (Some body) else read_by_hash bs x)" for x
    unfolding read_by_hash_def D by simp
  ultimately show ?thesis using h by (auto simp: put_block_def Let_def)
qed

lemma put_block_available_spec:
  assumes inv: "block_store_inv bs" and h: "height = kb_tip bs + 1" "height < 2 ^ 64" and l: "length hash = 32"
  shows "\<exists>bs'. put_block_available (Ok ()) bs height hash body = Ok bs' \<and> block_store_inv bs' \<and>
    canon bs' = canon bs @ [hash] \<and> kb_tip bs' = height \<and>
    (\<forall>x. read_by_hash bs' x = (if x = hash then Ok (Some body) else read_by_hash bs x))"
proof -
  let ?b = "memkv_put (memkv_put (memkv_put Map.empty (block_key hash) body) (height_key height) hash)
      KEY_AVAILABLE_CURSOR (to_be_bytes 8 height)"
  have w: "index_write ?b (kb_tip bs) [hash] hash body (kb_tip bs)"
    using h by (auto simp: index_write_def memkv_put_def height_key_inj)
  have "saturating_add64 (kb_tip bs) 1 = height" using h by (simp add: saturating_add64_def)
  then show ?thesis
    using index_write_spec [OF inv w] h l
    by (auto simp: put_block_available_def Let_def read_by_hash_def)
qed

lemma foldl_put_index:
  "foldl (\<lambda>b (h, x). memkv_put b (height_key h) x) b xs key =
     (case map_of (rev (map (\<lambda>(h, x). (height_key h, x)) xs)) key of Some x \<Rightarrow> Some (Some x) | None \<Rightarrow> b key)"
  by (induction xs arbitrary: b) (auto simp: memkv_put_def map_add_def split: option.split)

lemma foldl_del_index:
  "foldl (\<lambda>b h. memkv_del b (height_key h)) b hs key = (if key \<in> height_key ` set hs then Some None else b key)"
  by (induction hs arbitrary: b) (auto simp: memkv_del_def)

lemma reorg_contiguous_Ok:
  "\<forall>i. Suc i < length xs \<longrightarrow> checked_add 64 (fst (xs ! i)) 1 = Some (fst (xs ! Suc i)) \<Longrightarrow> reorg_contiguous xs = Ok ()"
proof (induction xs rule: reorg_contiguous.induct)
  case (1 a b rest)
  have "checked_add 64 (fst a) 1 = Some (fst b)" using 1(2) [rule_format, of 0] by simp
  moreover have "reorg_contiguous (b # rest) = Ok ()"
  proof (rule 1(1))
    show "\<forall>i. Suc i < length (b # rest) \<longrightarrow>
        checked_add 64 (fst ((b # rest) ! i)) 1 = Some (fst ((b # rest) ! Suc i))"
      using 1(2) [rule_format, of "Suc _"] by simp
  qed (use calculation in simp)
  ultimately show ?case by simp
qed simp_all

lemma reorg_contiguous_path:
  "k + length hs < 2 ^ 64 \<Longrightarrow> reorg_contiguous (zip [k + 1..<k + 1 + length hs] hs) = Ok ()"
  by (rule reorg_contiguous_Ok) (auto simp: checked_add_def simp del: upt_Suc)

lemma reorg_bodies_path:
  "bodies_readable bs \<Longrightarrow> \<forall>(h, x)\<in>set xs. 0 < h \<and> (x = hash \<or> has_body bs x) \<Longrightarrow> reorg_bodies bs hash xs = Ok ()"
  by (induction xs) (auto simp: has_body_def read_by_hash_def)

text \<open>
  \<open>canonical\<close> lists the heights after \<open>k\<close>; \<open>k\<close> at most the cursor means that no height is skipped.
\<close>

lemma commit_reorg_spec:
  assumes inv: "block_store_inv bs" and k: "k \<le> kb_tip bs" "k + length hs < 2 ^ 64"
    and hs: "hs \<noteq> []" "last hs = hash" "\<forall>x\<in>set hs. length x = 32 \<and> (x = hash \<or> has_body bs x)"
  shows "\<exists>bs'. commit_reorg (Ok ()) bs (k + length hs) hash body (zip [k + 1..<k + 1 + length hs] hs) = Ok bs' \<and>
    block_store_inv bs' \<and> canon bs' = take k (canon bs) @ hs \<and> kb_tip bs' = k + length hs \<and>
    (\<forall>x. read_by_hash bs' x = (if x = hash then Ok (Some body) else read_by_hash bs x))"
proof -
  let ?p = "zip [k + 1..<k + 1 + length hs] hs" and ?h = "k + length hs"
  note upt_Suc [simp del]
  have len: "length ?p = length hs" by simp
  have nth: "?p ! j = (k + 1 + j, hs ! j)" if "j < length hs" for j using that by simp
  have ne: "?p \<noteq> []" using hs(1) by (cases hs) (simp_all add: upt_conv_Cons)
  have la: "last ?p = (?h, hash)"
    using nth [of "length hs - 1"] hs(1,2) len ne by (simp add: last_conv_nth)
  have pos: "\<forall>(h, x)\<in>set ?p. 0 < h \<and> (x = hash \<or> has_body bs x)"
    using hs(3) by (auto simp: set_zip)
  have inj: "distinct (map fst (rev (map (\<lambda>(h, x). (height_key h, x)) ?p)))"
  proof -
    have "inj_on height_key {k + 1..<k + 1 + length hs}"
      using k(2) by (auto simp: inj_on_def height_key_inj)
    then have "distinct (map height_key [k + 1..<k + 1 + length hs])" by (simp add: distinct_map)
    moreover have "map fst (map (\<lambda>(h, x). (height_key h, x)) xs) = map height_key (map fst xs)"
      for xs :: "(nat \<times> bytes) list" by (induction xs) auto
    then have "map fst (map (\<lambda>(h, x). (height_key h, x)) ?p) = map height_key [k + 1..<k + 1 + length hs]"
      by (simp del: map_map)
    ultimately show ?thesis by (simp only: rev_map [symmetric] distinct_rev)
  qed
  have find: "map_of (rev (map (\<lambda>(h, x). (height_key h, x)) ?p)) (height_key h) =
      (if k < h \<and> h \<le> ?h then Some (hs ! (h - k - 1)) else None)" if h: "h < 2 ^ 64" for h
  proof (cases "k < h \<and> h \<le> ?h")
    case True
    then have "?p ! (h - k - 1) = (h, hs ! (h - k - 1))" using nth [of "h - k - 1"] by auto
    then have "(h, hs ! (h - k - 1)) \<in> set ?p" using len True nth_mem [of "h - k - 1" ?p] by auto
    then have "(height_key h, hs ! (h - k - 1)) \<in> set (rev (map (\<lambda>(h, x). (height_key h, x)) ?p))" by force
    then show ?thesis using inj True map_of_is_SomeI by fastforce
  next
    case False
    have "height_key h \<notin> fst ` set (rev (map (\<lambda>(h, x). (height_key h, x)) ?p))"
      using False h k(2) by (auto simp: set_zip height_key_inj)
    then show ?thesis unfolding if_not_P [OF False] by (simp only: map_of_eq_None_iff not_False_eq_True)
  qed
  have nokey: "map_of (rev (map (\<lambda>(h, x). (height_key h, x)) ?p)) key = None"
    if "\<forall>h. key \<noteq> height_key h" for key
    using that by (auto simp: map_of_eq_None_iff)
  have nb: "map_of (rev (map (\<lambda>(h, x). (height_key h, x)) ?p)) (block_key x) = None" for x
    by (rule nokey) simp
  have w: "index_write (reorg_batch (kb_tip bs) ?h hash body ?p) k hs hash body (kb_tip bs)"
    unfolding index_write_def
  proof (intro conjI allI impI)
    fix h :: nat assume h: "h < 2 ^ 64"
    have img: "height_key h \<in> height_key ` set [?h + 1..<kb_tip bs + 1] \<longleftrightarrow> ?h < h \<and> h \<le> kb_tip bs"
      using h block_store_invD(1) [OF inv] by (auto simp: height_key_inj image_iff)
    show "reorg_batch (kb_tip bs) ?h hash body ?p (height_key h) =
        (if k < h \<and> h \<le> k + length hs then Some (Some (hs ! (h - k - 1)))
         else if k + length hs < h \<and> h \<le> kb_tip bs then Some None else None)"
      using find [OF h] img
      by (simp add: reorg_batch_def Let_def memkv_put_def [of _ KEY_AVAILABLE_CURSOR] foldl_put_index foldl_del_index
          memkv_put_def [of _ "block_key hash"])
  qed (use nb in \<open>simp_all add: reorg_batch_def Let_def memkv_put_def [of _ KEY_AVAILABLE_CURSOR] foldl_put_index
      foldl_del_index memkv_put_def [of _ "block_key hash"] image_iff\<close>)
  have "commit_reorg (Ok ()) bs ?h hash body ?p =
      Ok (bs\<lparr>kb_disk := disk_try_write (kb_disk bs) (reorg_batch (kb_tip bs) ?h hash body ?p), kb_tip := ?h\<rparr>)"
    using hs(1) ne la reorg_contiguous_path [OF k(2)] reorg_bodies_path [OF block_store_invD(3) [OF inv] pos]
    by (simp add: commit_reorg_def)
  then show ?thesis using index_write_spec [OF inv w k hs(3)] by (simp add: Let_def read_by_hash_def)
qed

end
