(* ===== verification/Insert.thy ===== *)
theory Insert
  imports BlockExec SideBranches BlockStore
begin

text \<open>
  Inserting one block, \<^verbatim>\<open>insert_block\<close> of \<^verbatim>\<open>src/chain/src/apply.rs\<close>, with the block history that the consensus
  reads (\<^verbatim>\<open>src/chain/src/history.rs\<close>). The consensus and the codec are trait objects: their answers
  are arguments, and so are the outcomes of disk writes. A result \<open>Inl e\<close> leaves the engine as it was:
  the detached block chunk and its children are freed with the last reference to them.
\<close>

section \<open>Block history\<close>

type_synonym pending_blocks = "nat \<rightharpoonup> bytes \<times> block_ref"

definition hist_remember :: "pending_blocks \<Rightarrow> block_ref \<Rightarrow> pending_blocks" where
  "hist_remember pending block = pending(blk_height block \<mapsto> (blk_hash block, block))"

definition hist_cached :: "pending_blocks \<Rightarrow> nat \<Rightarrow> bytes \<Rightarrow> block_ref option" where
  "hist_cached pending height hash =
     (case pending height of
        Some (cached_hash, block) \<Rightarrow> if cached_hash = hash then Some block else None
      | None \<Rightarrow> None)"

definition hist_forget :: "pending_blocks \<Rightarrow> nat \<Rightarrow> bytes \<Rightarrow> pending_blocks" where
  "hist_forget pending height hash =
     (case pending height of
        Some (cached_hash, _) \<Rightarrow> if cached_hash = hash then pending(height := None) else pending
      | None \<Rightarrow> pending)"

definition hist_clear_pending :: "pending_blocks \<Rightarrow> pending_blocks" where
  "hist_clear_pending pending = Map.empty"

text \<open>What the consensus sees of it: the trait \<^verbatim>\<open>BlockHistory\<close>.\<close>

record block_history =
  bh_stable_height :: "nat ret"
  bh_block_at_height :: "nat \<Rightarrow> block_ref option ret"

definition map_err :: "(error \<Rightarrow> error) \<Rightarrow> 'a ret \<Rightarrow> 'a ret" where
  "map_err f m = (case m of Inl e \<Rightarrow> Inl (f e) | Inr x \<Rightarrow> Inr x)"

definition to_abort :: "string \<Rightarrow> string \<Rightarrow> error \<Rightarrow> error" where
  "to_abort msg code e = (case e of Error _ _ _ \<Rightarrow> Error Abort msg (Some code) | Panic m \<Rightarrow> Panic m)"

definition store_history ::
  "bool ret \<Rightarrow> layer \<Rightarrow> kv_block_store \<Rightarrow> (bytes \<Rightarrow> block_ref ret) \<Rightarrow> block_ref \<Rightarrow> pending_blocks \<Rightarrow> block_history" where
  "store_history scan state_disk blocks decode genesis pending =
     \<lparr>bh_stable_height =
        map_err (to_abort ''canonical root status read failed'' STATE_READ_FAILED_CODE)
          (try_ret (status_of_store scan state_disk) (\<lambda>s. Ok (st_latest_height s))),
      bh_block_at_height = (\<lambda>height.
        if height = 0 then Ok (Some genesis)
        else case pending height of
          Some (_, block) \<Rightarrow> Ok (Some block)
        | None \<Rightarrow>
          try_ret (map_err (to_abort ''canonical block read failed'' STATE_READ_FAILED_CODE)
                    (read_by_height blocks height)) (\<lambda>r. case r of
            None \<Rightarrow> Ok None
          | Some (stored_hash, body) \<Rightarrow>
              try_ret (map_err (to_abort ''stored canonical block cannot be decoded'' STATE_DECODE_FAILED_CODE)
                        (decode body)) (\<lambda>block.
              if blk_height block \<noteq> height \<or> blk_hash block \<noteq> stored_hash
              then abortf ''stored block identity mismatch'' STATE_DECODE_FAILED_CODE
              else Ok (Some block))))\<rparr>"

text \<open>\<^verbatim>\<open>for_branch\<close> collects the blocks by height; a later block of the list wins.\<close>

definition for_branch :: "block_history \<Rightarrow> block_ref list \<Rightarrow> block_history" where
  "for_branch canonical blocks =
     \<lparr>bh_stable_height = bh_stable_height canonical,
      bh_block_at_height = (\<lambda>height.
        case map_of (rev (map (\<lambda>block. (blk_height block, block)) blocks)) height of
          Some block \<Rightarrow> Ok (Some block)
        | None \<Rightarrow> bh_block_at_height canonical height)\<rparr>"

section \<open>The engine\<close>

record blk_pkg =
  pk_obj :: block
  pk_data :: bytes
  pk_hash :: bytes

definition from_block_with_data :: "block \<Rightarrow> bytes \<Rightarrow> blk_pkg" where
  "from_block_with_data obj body = \<lparr>pk_obj = obj, pk_data = body, pk_hash = blk_hash obj\<rparr>"

definition pk_height :: "blk_pkg \<Rightarrow> nat" where
  "pk_height pkg = blk_height (pk_obj pkg)"

datatype apply_mode = Strict | FastSync

definition is_fast_sync :: "apply_mode \<Rightarrow> bool" where
  "is_fast_sync mode = (mode = FastSync)"

text \<open>\<open>en_side_hints\<close> is what the side list writer was sent.\<close>

record engine =
  en_tree :: tree_inner
  en_store :: chunk_store
  en_blocks :: kv_block_store
  en_pending :: pending_blocks
  en_root_available :: bool
  en_side_hints :: "bytes list list"

text \<open>The configuration, the clock and the trait objects that the engine calls.\<close>

record chain_env =
  ce_services :: services
  ce_hash :: "bytes \<Rightarrow> bytes"
  ce_mint_params :: mint_params
  ce_now :: nat
  ce_decode :: "bytes \<Rightarrow> block_ref ret"
  ce_genesis :: block_ref
  ce_unstable_block :: nat
  ce_side_tree_capacity :: nat
  ce_disk :: nat
  ce_scan :: "bool ret"
  ce_fork_choice_key :: "blk_pkg \<Rightarrow> fork_choice_key \<Rightarrow> block_history \<Rightarrow> fork_choice_key ret"
  ce_check_before :: "blk_pkg \<Rightarrow> block_ref \<Rightarrow> block_history \<Rightarrow> bool \<Rightarrow> unit ret"
  ce_check_after :: "blk_pkg \<Rightarrow> layer \<Rightarrow> layer \<Rightarrow> engine \<Rightarrow> bool \<Rightarrow> unit ret"

record disk_outcomes =
  do_put_block :: "unit ret"
  do_put_available :: "unit ret"
  do_commit_reorg :: "unit ret"
  do_root_write :: "unit ret"
  do_hint_sent :: bool

record apply_accepted =
  aa_pkg :: blk_pkg
  aa_inserted :: inserted
  aa_persist_body :: bool
  aa_prev_head :: bytes

datatype apply_result = Accepted apply_accepted | Duplicate bytes | Orphan bytes | Discarded

definition tree_fatal :: "error \<Rightarrow> error" where
  "tree_fatal = to_abort ''chain tree invariant failed'' ''core_failed''"

text \<open>An error that a live side branch swallows: not an abort; a panic is not an error value.\<close>

definition branch_level :: "error \<Rightarrow> bool" where
  "branch_level e = (case e of Error kind _ _ \<Rightarrow> kind \<noteq> Abort | Panic _ \<Rightarrow> False)"

definition engine_history :: "chain_env \<Rightarrow> engine \<Rightarrow> block_history" where
  "engine_history ce eng =
     store_history (ce_scan ce) (cs_disk (en_store eng) (ce_disk ce)) (en_blocks eng) (ce_decode ce)
       (ce_genesis ce) (en_pending eng)"

definition resolve_fork_choice ::
  "chain_env \<Rightarrow> engine \<Rightarrow> blk_pkg \<Rightarrow> (block_ref \<times> block_history \<times> fork_choice_key) option ret option" where
  "resolve_fork_choice ce eng pkg =
     (let prev_hash = blk_prev_hash (pk_obj pkg)
      in bind_ro (block_context (en_tree eng) (en_store eng) prev_hash) (\<lambda>r.
         case r of
           None \<Rightarrow> Some (Ok None)
         | Some (parent_block, parent_key) \<Rightarrow>
             bind_ro (branch_blocks (en_tree eng) (en_store eng) prev_hash) (\<lambda>bs.
             case bs of
               None \<Rightarrow> Some (Inl (tree_fatal (Error Fault ''candidate parent disappeared from fork tree'' None)))
             | Some blocks \<Rightarrow>
                 let history = for_branch (engine_history ce eng) blocks
                 in bind_ro (Some (ce_fork_choice_key ce pkg parent_key history)) (\<lambda>fork_choice.
                    Some (Ok (Some (parent_block, history, fork_choice)))))))"

definition side_append :: "bool \<Rightarrow> engine \<Rightarrow> bytes list \<Rightarrow> engine" where
  "side_append sent eng hashes =
     (if sent then eng\<lparr>en_side_hints := en_side_hints eng @ [hashes]\<rparr> else eng)"

text \<open>The commit arm of a live side branch: body first, then the attach, the hint and the capacity bound.\<close>

definition insert_side ::
  "chain_env \<Rightarrow> disk_outcomes \<Rightarrow> engine \<Rightarrow> blk_pkg \<Rightarrow> bool \<Rightarrow> bytes \<Rightarrow> chunk_store \<Rightarrow> nat \<Rightarrow>
     (apply_result \<times> engine) ret option" where
  "insert_side ce io eng pkg persist_body prev_head st chunk =
     (let prev_hash = blk_prev_hash (pk_obj pkg);
          stored = (if persist_body then put_block (do_put_block io) (en_blocks eng) (pk_height pkg) (pk_hash pkg) (pk_data pkg)
                    else Ok (en_blocks eng))
      in case stored of
           Inl (Panic m) \<Rightarrow> Some (Inl (Panic m))
         | Inl (Error _ _ _) \<Rightarrow> Some (Ok (Discarded, eng))
         | Inr blocks \<Rightarrow>
             let eng1 = eng\<lparr>en_blocks := blocks\<rparr>
             in case attach (en_tree eng) st prev_hash chunk (ce_unstable_block ce) of
                  None \<Rightarrow> None
                | Some (Inl (Panic m)) \<Rightarrow> Some (Inl (Panic m))
                | Some (Inl (Error _ _ _)) \<Rightarrow> Some (Ok (Discarded, eng1))
                | Some (Inr (inserted, t, st1)) \<Rightarrow>
                    let eng2 = side_append (do_hint_sent io) (eng1\<lparr>en_tree := t, en_store := st1\<rparr>) [pk_hash pkg]
                    in bind_ro (enforce_side_capacity t st1 (ce_side_tree_capacity ce)) (\<lambda>st2.
                       Some (Ok (Accepted \<lparr>aa_pkg = pkg, aa_inserted = inserted, aa_persist_body = persist_body,
                             aa_prev_head = prev_head\<rparr>, eng2\<lparr>en_store := st2\<rparr>))))"

definition insert_head ::
  "chain_env \<Rightarrow> engine \<Rightarrow> blk_pkg \<Rightarrow> bool \<Rightarrow> bool \<Rightarrow> bytes \<Rightarrow> chunk_store \<Rightarrow> nat \<Rightarrow>
     (apply_result \<times> engine) ret option" where
  "insert_head ce eng pkg linear persist_body prev_head st chunk =
     (let prev_hash = blk_prev_hash (pk_obj pkg)
      in bind_ro (map_err_ro tree_fatal
           (if linear then attach_linear (en_tree eng) st prev_hash chunk (ce_unstable_block ce)
            else attach (en_tree eng) st prev_hash chunk (ce_unstable_block ce))) (\<lambda>(inserted, t, st1).
         Some (Ok (Accepted \<lparr>aa_pkg = pkg, aa_inserted = inserted, aa_persist_body = persist_body,
               aa_prev_head = prev_head\<rparr>, eng\<lparr>en_tree := t, en_store := st1\<rparr>))))"

text \<open>Execution and the checks around it, on the block chunk \<open>chunk\<close> of the parent \<open>par\<close>.\<close>

definition run_block ::
  "chain_env \<Rightarrow> engine \<Rightarrow> blk_pkg \<Rightarrow> bool \<Rightarrow> chunk_store \<Rightarrow> nat \<Rightarrow> nat \<Rightarrow> chunk_store ret" where
  "run_block ce eng pkg fast_sync st chunk par =
     try_ret (execute_block (ce_services ce) (pk_obj pkg) st chunk fast_sync) (\<lambda>st'.
     try_ret (ce_check_after ce pkg (chunk_view st' chunk) (chunk_view st' par) eng fast_sync) (\<lambda>_. Ok st'))"

definition insert_block ::
  "chain_env \<Rightarrow> disk_outcomes \<Rightarrow> engine \<Rightarrow> blk_pkg \<Rightarrow> apply_mode \<Rightarrow> bool \<Rightarrow> (apply_result \<times> engine) ret option" where
  "insert_block ce io eng pkg mode persist_body =
     (let fast_sync = is_fast_sync mode; t = en_tree eng; st = en_store eng;
          height = pk_height pkg; prev_hash = blk_prev_hash (pk_obj pkg)
      in if \<not> fast_sync \<and> \<not> en_root_available eng
         then Some (errf ''chain state is unavailable pending root recovery'')
         else bind_ro (Some (head_tip t st)) (\<lambda>(prev_head, current_height).
         bind_ro (Some (insertable_height t st height)) (\<lambda>_.
         bind_ro (contains t st (pk_hash pkg)) (\<lambda>dup.
         if dup then Some (Ok (Duplicate (pk_hash pkg), eng))
         else if fast_sync \<and> (prev_hash \<noteq> prev_head \<or> height \<noteq> saturating_add64 current_height 1)
         then Some (errf ''fast-sync block does not extend head'')
         else bind_ro (resolve_fork_choice ce eng pkg) (\<lambda>r.
         case r of
           None \<Rightarrow> Some (Ok (Orphan prev_hash, eng))
         | Some (parent_block, history, fork_choice) \<Rightarrow>
             if saturating_add64 (blk_height parent_block) 1 \<noteq> height then Some (errf ''prev block not found'')
             else bind_ro (Some (if fast_sync then Ok ()
                 else verify_block (ce_hash ce) (ce_mint_params ce) (ce_now ce) (pk_obj pkg) parent_block)) (\<lambda>_.
             bind_ro (Some (ce_check_before ce pkg parent_block history fast_sync)) (\<lambda>_.
             bind_ro (Some (head_fork_choice t st)) (\<lambda>head_key.
             let plan_head = fck_less head_key fork_choice
             in bind_ro (map_err_ro tree_fatal
                  (begin_block_execution_pinned t st prev_hash (block_ref.truncate (pk_obj pkg)) fork_choice)) (\<lambda>(x, st1).
                case x of
                  None \<Rightarrow> Some (Ok (Orphan prev_hash, eng))
                | Some (chunk, par, root_pin) \<Rightarrow>
                    (case run_block ce eng pkg fast_sync st1 chunk par of
                       Inl e \<Rightarrow>
                         if \<not> fast_sync \<and> \<not> plan_head \<and> branch_level e
                         then Some (Ok (Discarded, eng)) else Some (Inl e)
                     | Inr st2 \<Rightarrow>
                         if fast_sync \<or> plan_head
                         then insert_head ce eng pkg fast_sync persist_body prev_head st2 chunk
                         else insert_side ce io eng pkg persist_body prev_head st2 chunk))))))))))"

end
