(* ===== verification/Engine.thy ===== *)
theory Engine
  imports Insert
begin

text \<open>
  The chain engine, \<^verbatim>\<open>src/chain/src/engine.rs\<close> and \<^verbatim>\<open>persist.rs\<close>: a block from the network is checked, inserted and
  persisted (\<^verbatim>\<open>discover\<close>, \<^verbatim>\<open>prepare_one\<close>, \<^verbatim>\<open>persist_one\<close>), newly stable blocks advance the durable root and are
  announced (\<^verbatim>\<open>roll_root\<close>, \<^verbatim>\<open>notify_stable\<close>), and the error boundary turns failures after the attach into the
  fatal state (\<^verbatim>\<open>handle_error\<close>, \<^verbatim>\<open>mark_fatal\<close>). An operation returns its result together with the state it leaves,
  whether it succeeds or fails. The runtime caches and the contract log store are left out.
\<close>

section \<open>Results that carry the state\<close>

definition bind_st :: "('a ret \<times> 's) option \<Rightarrow> ('a \<Rightarrow> 's \<Rightarrow> ('b ret \<times> 's) option) \<Rightarrow> ('b ret \<times> 's) option" where
  "bind_st m f =
     (case m of None \<Rightarrow> None | Some (Inl e, s) \<Rightarrow> Some (Inl e, s) | Some (Inr x, s) \<Rightarrow> f x s)"

lemma bind_st_simps [simp]:
  "bind_st None f = None" "bind_st (Some (Inl e, s)) f = Some (Inl e, s)" "bind_st (Some (Inr x, s)) f = f x s"
  by (simp_all add: bind_st_def)

definition with_state :: "'s \<Rightarrow> 'a ret option \<Rightarrow> ('a ret \<times> 's) option" where
  "with_state s m = map_option (\<lambda>r. (r, s)) m"

lemma with_state_simps [simp]: "with_state s None = None" "with_state s (Some r) = Some (r, s)"
  by (simp_all add: with_state_def)

section \<open>State\<close>

datatype lifecycle = LIFE_STARTING | LIFE_RUNNING | LIFE_FATAL | LIFE_STOPPING | LIFE_STOPPED

record node =
  nd_eng :: engine
  nd_life :: lifecycle
  nd_shutdown :: bool
  nd_syncing :: bool

datatype phase = PreAttach | PostAttach | PostCommit

datatype post_commit_policy = KeepAccepted | StopPipeline

datatype admission = Continue | Defer

datatype chain_event = EvBlockAccepted nat | EvStableBlock nat bytes

text \<open>The callbacks of the consensus and of the listeners, and \<^verbatim>\<open>decode_block\<close> of the registry.\<close>

record callbacks =
  cb_arrive :: "blk_pkg \<Rightarrow> engine \<Rightarrow> unit ret"
  cb_admission :: "blk_pkg \<Rightarrow> engine \<Rightarrow> admission ret"
  cb_block_accepted :: "blk_pkg \<Rightarrow> engine \<Rightarrow> unit ret"
  cb_stable_block :: "block_ref \<Rightarrow> engine \<Rightarrow> unit ret"
  cb_listeners :: "(chain_event \<Rightarrow> unit ret) list"
  cb_decode_block :: "bytes \<Rightarrow> block_ref ret"

datatype accept_result =
    RAccepted nat "bytes list" "bytes list"
  | RDeferred
  | RDuplicate bytes
  | ROrphan bytes
  | RIgnored

record persist_outcome =
  po_result :: accept_result
  po_rolled :: nat
  po_events :: nat

section \<open>The error boundary\<close>

definition is_abort :: "error \<Rightarrow> bool" where
  "is_abort e = (case e of Error kind _ _ \<Rightarrow> kind = Abort | Panic _ \<Rightarrow> False)"

definition mark_fatal :: "node \<Rightarrow> node" where
  "mark_fatal nd =
     (case nd_life nd of
        LIFE_STOPPING \<Rightarrow> nd
      | LIFE_STOPPED \<Rightarrow> nd
      | _ \<Rightarrow> nd\<lparr>nd_life := LIFE_FATAL, nd_shutdown := True\<rparr>)"

text \<open>A panic unwinds past the boundary.\<close>

definition handle_error :: "phase \<Rightarrow> error \<Rightarrow> node \<Rightarrow> node" where
  "handle_error phase e nd =
     (case e of
        Panic _ \<Rightarrow> nd
      | Error _ _ _ \<Rightarrow> if phase = PostAttach \<or> is_abort e then mark_fatal nd else nd)"

definition core_failed :: "string \<Rightarrow> error \<Rightarrow> error" where
  "core_failed msg e = (if is_abort e then e else to_abort msg ''core_failed'' e)"

text \<open>The listeners run in order; the first abort is kept until all have run.\<close>

fun notify_loop :: "unit ret list \<Rightarrow> error option \<Rightarrow> unit ret" where
  "notify_loop [] abort = (case abort of Some e \<Rightarrow> Inl e | None \<Rightarrow> Ok ())"
| "notify_loop (Inl (Panic m) # rest) abort = Inl (Panic m)"
| "notify_loop (Inl (Error k m c) # rest) abort =
     notify_loop rest (if abort = None \<and> is_abort (Error k m c) then Some (Error k m c) else abort)"
| "notify_loop (Inr _ # rest) abort = notify_loop rest abort"

definition notify_listeners :: "callbacks \<Rightarrow> chain_event \<Rightarrow> unit ret" where
  "notify_listeners cb ev = notify_loop (map (\<lambda>l. l ev) (cb_listeners cb)) None"

text \<open>The tail shared by both announcements: an error of the listeners is recorded and not returned.\<close>

definition listeners_done :: "unit ret \<Rightarrow> node \<Rightarrow> unit ret \<times> node" where
  "listeners_done r nd =
     (case r of
        Inr _ \<Rightarrow> (Ok (), nd)
      | Inl (Panic m) \<Rightarrow> (Inl (Panic m), nd)
      | Inl e \<Rightarrow> (Ok (), handle_error PostCommit e nd))"

section \<open>Stable blocks\<close>

definition post_commit_err :: "post_commit_policy \<Rightarrow> error \<Rightarrow> node \<Rightarrow> unit ret \<times> node" where
  "post_commit_err policy e nd =
     (let nd = handle_error PostCommit e nd
      in if policy = StopPipeline then (Inl e, nd) else (Ok (), nd))"

definition stable_block :: "callbacks \<Rightarrow> engine \<Rightarrow> nat \<Rightarrow> bytes \<Rightarrow> block_ref ret" where
  "stable_block cb eng height hash =
     (case hist_cached (en_pending eng) height hash of
        Some block \<Rightarrow> Ok block
      | None \<Rightarrow>
          try_ret (map_err (to_abort ''stable block body read failed'' STATE_READ_FAILED_CODE)
                    (read_by_hash (en_blocks eng) hash)) (\<lambda>r. case r of
            None \<Rightarrow> abortf ''stable block body is missing from the block db'' STATE_READ_FAILED_CODE
          | Some body \<Rightarrow>
              map_err (to_abort ''stable block body cannot be decoded'' STATE_DECODE_FAILED_CODE)
                (cb_decode_block cb body)))"

abbreviation upd_eng :: "(engine \<Rightarrow> engine) \<Rightarrow> node \<Rightarrow> node" where
  "upd_eng f nd \<equiv> nd\<lparr>nd_eng := f (nd_eng nd)\<rparr>"

text \<open>One announcement; the result says whether the pipeline stops with an error.\<close>

definition announce_stable :: "callbacks \<Rightarrow> post_commit_policy \<Rightarrow> nat \<Rightarrow> bytes \<Rightarrow> block_ref \<Rightarrow> node \<Rightarrow> unit ret \<times> node" where
  "announce_stable cb policy height hash block nd =
     (let nd = upd_eng (\<lambda>g. g\<lparr>en_pending := hist_remember (en_pending g) block\<rparr>) nd
      in case cb_stable_block cb block (nd_eng nd) of
           Inl (Panic m) \<Rightarrow> (Inl (Panic m), nd)
         | r \<Rightarrow>
             (let fatal = (case r of Inl e \<Rightarrow> Some (core_failed ''consensus.on_stable_block failed'' e) | Inr _ \<Rightarrow> None);
                  nd = (case fatal of Some e \<Rightarrow> handle_error PostCommit e nd | None \<Rightarrow> nd)
              in if fatal \<noteq> None \<and> policy = StopPipeline then (Inl (the fatal), nd)
                 else listeners_done (notify_listeners cb (EvStableBlock height hash)) nd))"

fun notify_stable ::
  "callbacks \<Rightarrow> bool \<Rightarrow> post_commit_policy \<Rightarrow> (nat \<times> bytes) list \<Rightarrow> node \<Rightarrow> unit ret \<times> node" where
  "notify_stable cb stored_replay policy [] nd = (Ok (), nd)"
| "notify_stable cb stored_replay policy ((height, hash) # rest) nd =
     (let forget = upd_eng (\<lambda>g. g\<lparr>en_pending := hist_forget (en_pending g) height hash\<rparr>)
      in if stored_replay then notify_stable cb stored_replay policy rest (forget nd)
         else case stable_block cb (nd_eng nd) height hash of
           Inl (Panic m) \<Rightarrow> (Inl (Panic m), nd)
         | Inl e \<Rightarrow> post_commit_err policy e nd
         | Inr block \<Rightarrow>
             (case announce_stable cb policy height hash block nd of
                (Inl e, nd) \<Rightarrow> (Inl e, nd)
              | (Inr _, nd) \<Rightarrow> notify_stable cb stored_replay policy rest (forget nd)))"

text \<open>The heights and hashes of the rolled chunks.\<close>

fun stable_of :: "chunk_store \<Rightarrow> nat list \<Rightarrow> (nat \<times> bytes) list ret" where
  "stable_of st [] = Ok []"
| "stable_of st (i # rest) =
     try_ret (height_of st i) (\<lambda>height.
     try_ret (hash_of st i) (\<lambda>hash.
     try_ret (stable_of st rest) (\<lambda>xs. Ok ((height, hash) # xs))))"

definition engine_roll_root ::
  "chain_env \<Rightarrow> disk_outcomes \<Rightarrow> callbacks \<Rightarrow> bool \<Rightarrow> post_commit_policy \<Rightarrow> roll_job \<Rightarrow> node \<Rightarrow> (nat ret \<times> node) option" where
  "engine_roll_root ce io cb stored_replay policy job nd =
     (let nd = upd_eng (\<lambda>g. g\<lparr>en_root_available := False\<rparr>) nd
      in bind_st (with_state nd
           (roll_root (en_tree (nd_eng nd)) (en_store (nd_eng nd)) (ce_disk ce) (do_root_write io) job)) (\<lambda>(t, st) nd.
         let nd = upd_eng (\<lambda>g. g\<lparr>en_tree := t, en_store := st, en_root_available := True\<rparr>) nd
         in bind_st (Some (stable_of st (rj_chain job), nd)) (\<lambda>stable nd.
            bind_st (Some (notify_stable cb stored_replay policy stable nd)) (\<lambda>_ nd.
            Some (Ok (length stable), nd)))))"

section \<open>Persisting an accepted block\<close>

definition side_append_many :: "bool \<Rightarrow> engine \<Rightarrow> bytes list \<Rightarrow> engine" where
  "side_append_many sent eng hashes = (if hashes = [] then eng else side_append sent eng hashes)"

text \<open>The block database after a reorganisation, and the replaced tail as side branch hints.\<close>

definition persist_reorg ::
  "chain_env \<Rightarrow> disk_outcomes \<Rightarrow> blk_pkg \<Rightarrow> bytes \<Rightarrow> node \<Rightarrow> (unit ret \<times> node) option" where
  "persist_reorg ce io pkg prev_head nd =
     (let t = en_tree (nd_eng nd); st = en_store (nd_eng nd)
      in bind_st (Some (root_height t st, nd)) (\<lambda>root_h nd.
         bind_st (Some (back_hashes t st (pk_height pkg - root_h), nd)) (\<lambda>back nd.
         let canonical = rev back
         in bind_st (Some (map_err persist_fatal (commit_reorg (do_commit_reorg io) (en_blocks (nd_eng nd)) (pk_height pkg)
                (pk_hash pkg) (pk_data pkg) canonical), nd)) (\<lambda>blocks nd.
            let nd = upd_eng (\<lambda>g. g\<lparr>en_blocks := blocks\<rparr>) nd
            in bind_st (with_state nd (branch_blocks t st prev_head)) (\<lambda>branch nd.
               let replaced = map blk_hash (filter
                     (\<lambda>blk. root_h < blk_height blk \<and> blk_hash blk \<notin> set (map snd canonical))
                     (case branch of Some bs \<Rightarrow> bs | None \<Rightarrow> []));
                   nd = upd_eng (\<lambda>g. side_append_many (do_hint_sent io) g replaced) nd
               in bind_st (with_state nd (enforce_side_capacity t st (ce_side_tree_capacity ce))) (\<lambda>st' nd.
                  Some (Ok (), upd_eng (\<lambda>g. g\<lparr>en_store := st'\<rparr>) nd)))))))"

definition persist_stage ::
  "chain_env \<Rightarrow> disk_outcomes \<Rightarrow> callbacks \<Rightarrow> post_commit_policy \<Rightarrow> apply_accepted \<Rightarrow> node \<Rightarrow> (nat ret \<times> node) option" where
  "persist_stage ce io cb policy job nd =
     (let pkg = aa_pkg job; ins = aa_inserted job
      in bind_st
           (if aa_persist_body job \<and> ins_is_head ins \<and> ins_reorg ins
            then persist_reorg ce io pkg (aa_prev_head job) nd
            else if aa_persist_body job \<and> ins_is_head ins
            then bind_st (Some (map_err persist_fatal (put_block_available (do_put_available io) (en_blocks (nd_eng nd))
                   (pk_height pkg) (pk_hash pkg) (pk_data pkg)), nd)) (\<lambda>blocks nd.
                 Some (Ok (), upd_eng (\<lambda>g. g\<lparr>en_blocks := blocks\<rparr>) nd))
            else Some (Ok (), nd)) (\<lambda>_ nd.
         case ins_roll ins of
           Some roll \<Rightarrow> engine_roll_root ce io cb (\<not> aa_persist_body job) policy roll nd
         | None \<Rightarrow> Some (Ok 0, nd)))"

text \<open>The callbacks after the durable commit.\<close>

definition publish_accepted ::
  "callbacks \<Rightarrow> post_commit_policy \<Rightarrow> apply_accepted \<Rightarrow> node \<Rightarrow> unit ret \<times> node" where
  "publish_accepted cb policy job nd =
     (if \<not> aa_persist_body job then (Ok (), nd)
      else case cb_block_accepted cb (aa_pkg job) (nd_eng nd) of
        Inl (Panic m) \<Rightarrow> (Inl (Panic m), nd)
      | r \<Rightarrow>
          (let fatal = (case r of Inl e \<Rightarrow> Some (core_failed ''consensus.on_block_accepted failed'' e) | Inr _ \<Rightarrow> None);
               nd = (case fatal of Some e \<Rightarrow> handle_error PostCommit e nd | None \<Rightarrow> nd)
           in if fatal \<noteq> None \<and> policy = StopPipeline then (Inl (the fatal), nd)
              else listeners_done (notify_listeners cb (EvBlockAccepted (pk_height (aa_pkg job)))) nd))"

definition persist_one ::
  "chain_env \<Rightarrow> disk_outcomes \<Rightarrow> callbacks \<Rightarrow> post_commit_policy \<Rightarrow> apply_accepted \<Rightarrow> node \<Rightarrow>
     (persist_outcome ret \<times> node) option" where
  "persist_one ce io cb policy job nd =
     (case persist_stage ce io cb policy job nd of
        None \<Rightarrow> None
      | Some (Inl e, nd) \<Rightarrow> Some (Inl e, handle_error PostAttach e nd)
      | Some (Inr rolled, nd) \<Rightarrow>
          bind_st (Some (publish_accepted cb policy job nd)) (\<lambda>_ nd.
          Some (Ok \<lparr>po_result = RAccepted (pk_height (aa_pkg job)) (ins_confirmed_txs (aa_inserted job))
                      (ins_reverted_txs (aa_inserted job)),
                    po_rolled = rolled, po_events = 1 + rolled\<rparr>, nd)))"

section \<open>A block from the network\<close>

definition prepare_one ::
  "chain_env \<Rightarrow> disk_outcomes \<Rightarrow> blk_pkg \<Rightarrow> apply_mode \<Rightarrow> bool \<Rightarrow> engine \<Rightarrow> (apply_result \<times> engine) ret option" where
  "prepare_one ce io pkg mode persist_body eng =
     bind_ro (insert_block ce io eng pkg mode persist_body) (\<lambda>(res, eng).
     case res of
       Accepted job \<Rightarrow>
         (if ins_is_head (aa_inserted job)
          then let pending = (if ins_reorg (aa_inserted job) then hist_clear_pending (en_pending eng) else en_pending eng)
               in Some (Ok (res, eng\<lparr>en_pending := hist_remember pending (block_ref.truncate (pk_obj pkg))\<rparr>))
          else Some (Ok (res, eng)))
     | _ \<Rightarrow> Some (Ok (res, eng)))"

definition discover ::
  "chain_env \<Rightarrow> disk_outcomes \<Rightarrow> callbacks \<Rightarrow> blk_pkg \<Rightarrow> node \<Rightarrow> (accept_result ret \<times> node) option" where
  "discover ce io cb pkg nd =
     (let eng = nd_eng nd; prev_hash = blk_prev_hash (pk_obj pkg)
      in if nd_shutdown nd then Some (errf ''engine is stopping'', nd)
         else if nd_syncing nd
         then Some (Inl (Error Fault ''chain is syncing; block deferred'' (Some ''sync_deferred'')), nd)
         else
           bind_st (Some (check_intrinsic (ce_mint_params ce) (length (pk_data pkg)) (pk_obj pkg), nd)) (\<lambda>_ nd.
           bind_st (with_state nd (contains (en_tree eng) (en_store eng) prev_hash)) (\<lambda>known nd.
           if \<not> known then Some (Ok (ROrphan prev_hash), nd)
           else case cb_arrive cb pkg eng of
             Inl e \<Rightarrow> Some (Inl e, handle_error PreAttach e nd)
           | Inr _ \<Rightarrow>
               (case cb_admission cb pkg eng of
                  Inl e \<Rightarrow> Some (Inl e, handle_error PreAttach e nd)
                | Inr Defer \<Rightarrow> Some (Ok RDeferred, nd)
                | Inr Continue \<Rightarrow>
                    if nd_shutdown nd then Some (errf ''engine is stopping'', nd)
                    else (case prepare_one ce io pkg Strict True eng of
                       None \<Rightarrow> None
                     | Some (Inl e) \<Rightarrow> Some (Inl e, handle_error PreAttach e nd)
                     | Some (Inr (res, eng)) \<Rightarrow>
                         let nd = nd\<lparr>nd_eng := eng\<rparr>
                         in (case res of
                               Accepted job \<Rightarrow>
                                 bind_st (persist_one ce io cb KeepAccepted job nd) (\<lambda>outcome nd.
                                 Some (Ok (po_result outcome), nd))
                             | Duplicate hash \<Rightarrow> Some (Ok (RDuplicate hash), nd)
                             | Orphan par \<Rightarrow> Some (Ok (ROrphan par), nd)
                             | Discarded \<Rightarrow> Some (Ok RIgnored, nd)))))))"

end
