(* ===== verification/InsertProps.thy ===== *)
theory InsertProps
  imports Insert
begin

text \<open>
  What inserting a block does: a block that passes the checks is executed on the state of its parent
  exactly as the sequential specification says, joins the tree under its parent, and leaves every
  other node of the tree with the state it had.
\<close>

section \<open>Executing on a node of the tree\<close>

text \<open>The store after execution: the old chunks untouched, the block chunk \<open>b\<close> ready on its parent.\<close>

definition executed :: "chunk_store \<Rightarrow> chunk_store \<Rightarrow> nat \<Rightarrow> nat \<Rightarrow> nat \<Rightarrow> block_identity \<Rightarrow> bool" where
  "executed st st2 par b height ident \<longleftrightarrow>
     b = cs_next st \<and> store_typed st2 \<and> cs_disk st2 = cs_disk st \<and>
     (\<forall>j<cs_next st. cs_chunk st2 j = cs_chunk st j) \<and>
     (\<forall>j c. cs_next st \<le> j \<longrightarrow> cs_chunk st2 j = Some c \<longrightarrow> ch_children c = []) \<and>
     (\<exists>d. cs_chunk st2 b = Some \<lparr>ch_origin = OBlock height (Some ident), ch_source = Parent par,
        ch_body = Writable d, ch_children = []\<rparr>)"

lemma executedD:
  assumes "executed st st2 par b height ident"
  shows "b = cs_next st" "store_typed st2" "cs_disk st2 = cs_disk st"
    "j < cs_next st \<Longrightarrow> cs_chunk st2 j = cs_chunk st j"
    "cs_next st \<le> j \<Longrightarrow> cs_chunk st2 j = Some c \<Longrightarrow> ch_children c = []"
    "ready_block st2 par b" "hgt st2 b = height" "ident_at st2 b = ident"
  using assms unfolding executed_def ready_block_def
  by (auto simp: hgt_def ident_at_def origin_at_def origin_block_height_def origin_block_identity_def)

lemma in_tree_old: "tree_inv t st \<Longrightarrow> in_tree st (ft_root t) n \<Longrightarrow> n < cs_next st"
  using tree_inv_block [of t st n] chunk_wfD(1) [OF tree_invD(3)] by (auto simp: block_chunk_def)

lemma executed_tree:
  assumes inv: "tree_inv t st" and ex: "executed st st2 par b height ident"
  shows "tree_inv t st2" "\<And>n. in_tree st (ft_root t) n \<Longrightarrow> cs_chunk st2 n = cs_chunk st n"
    "\<And>a n. in_tree st (ft_root t) a \<Longrightarrow> in_tree st2 a n \<longleftrightarrow> in_tree st a n"
    "\<And>n. in_tree st (ft_root t) n \<Longrightarrow> hgt st2 n = hgt st n \<and> hsh st2 n = hsh st n \<and> fkey st2 n = fkey st n"
    "\<And>n. n < cs_next st \<Longrightarrow> chunk_view st2 n = chunk_view st n"
proof -
  note e = executedD [OF ex]
  show eq: "cs_chunk st2 n = cs_chunk st n" if "in_tree st (ft_root t) n" for n
    by (rule e(4) [OF in_tree_old [OF inv that]])
  show "tree_inv t st2" by (rule frame_inv [OF inv e(2) eq])
  show "in_tree st2 a n \<longleftrightarrow> in_tree st a n" if "in_tree st (ft_root t) a" for a n
    using frame_tree [OF eq that] .
  show "hgt st2 n = hgt st n \<and> hsh st2 n = hsh st n \<and> fkey st2 n = fkey st n" if "in_tree st (ft_root t) n" for n
    using frame_at(1-3) [OF eq [OF that]] by simp
  show "chunk_view st2 n = chunk_view st n" if "n < cs_next st" for n
    by (rule chunk_view_cong [OF tree_invD(3) [OF inv] _ e(3)]) (use e(4) that in auto)
qed

lemma executed_strict:
  assumes inv: "strict_inv window disk t st" "kids_distinct st" and ex: "executed st st2 par b height ident"
  shows "strict_inv window disk t st2" "kids_distinct st2"
proof -
  have ti: "tree_inv t st" and cl: "childless st" using inv(1) by (simp_all add: strict_inv_def)
  note e = executedD [OF ex] and x = executed_tree [OF ti ex]
  have r: "in_tree st (ft_root t) (ft_root t)" by simp
  have old: "cs_chunk st2 n = cs_chunk st n \<or> ch_children c = []" if "cs_chunk st2 n = Some c" for n c
    using e(4) [of n] e(5) [of n c] that by (cases "n < cs_next st") auto
  have "childless st2"
    using cl old unfolding childless_def by metis
  moreover have "durable_root st2 (ft_root t) disk"
    using inv(1) x(2) [OF r] e(3) by (simp add: strict_inv_def durable_root_def)
  ultimately show "strict_inv window disk t st2"
    using x(1) x(4) [OF r] x(4) [OF tree_invD(4) [OF ti]] inv(1) by (simp add: strict_inv_def)
  show "kids_distinct st2"
    using inv(2) old unfolding kids_distinct_def by (metis distinct.simps(1))
qed

text \<open>The specification of execution with the check after it, on the state of the parent.\<close>

definition spec_run :: "chain_env \<Rightarrow> tx_effect \<Rightarrow> engine \<Rightarrow> blk_pkg \<Rightarrow> bool \<Rightarrow> layer \<Rightarrow> layer ret" where
  "spec_run ce eff eng pkg fast_sync s =
     try_ret (spec_execute (ce_services ce) eff (pk_obj pkg) fast_sync s) (\<lambda>s'.
     try_ret (ce_check_after ce pkg s' s eng fast_sync) (\<lambda>_. Ok s'))"

definition block_ident :: "blk_pkg \<Rightarrow> fork_choice_key \<Rightarrow> block_identity" where
  "block_ident pkg key =
     \<lparr>bid_hash = blk_hash (pk_obj pkg), bid_block = block_ref.truncate (pk_obj pkg), bid_fork_choice = key\<rparr>"

lemma truncate_simps [simp]:
  "blk_height (block_ref.truncate b) = blk_height b" "blk_hash (block_ref.truncate b) = blk_hash b"
  "blk_prev_hash (block_ref.truncate b) = blk_prev_hash b"
  by (simp_all add: block_ref.truncate_def)

lemma run_block_sim:
  assumes inv: "tree_inv t st" and par: "in_tree st (ft_root t) par" "hsh st par = blk_prev_hash (pk_obj pkg)"
    "pk_height pkg = hgt st par + 1" and co: "tx_contract (ce_services ce) eff"
  shows "\<exists>st1. begin_block_execution_pinned t st (blk_prev_hash (pk_obj pkg)) (block_ref.truncate (pk_obj pkg)) key =
      Some (Ok (Some (cs_next st, par, ft_root t), st1)) \<and>
    (case spec_run ce eff eng pkg fast_sync (chunk_view st par) of
       Inl e \<Rightarrow> run_block ce eng pkg fast_sync st1 (cs_next st) par = Inl e
     | Inr s' \<Rightarrow> \<exists>st2. run_block ce eng pkg fast_sync st1 (cs_next st) par = Ok st2 \<and>
         executed st st2 par (cs_next st) (pk_height pkg) (block_ident pkg key) \<and> chunk_view st2 (cs_next st) = s')"
proof -
  let ?b = "cs_next st" and ?org = "OBlock (pk_height pkg) (Some (block_ident pkg key))"
  have wf: "chunk_wf st" and ty: "store_typed st" using tree_invD [OF inv] by auto
  from tree_inv_block [OF inv par(1)] obtain pc h ident where
    pc: "cs_chunk st par = Some pc" "ch_origin pc = OBlock h (Some ident)" by (auto simp: block_chunk_def)
  have lt: "par < ?b" by (rule chunk_wfD(1) [OF wf pc(1)])
  obtain st1 where st1: "new_chunk st ?org (Parent par) = (?b, st1)"
    by (auto simp: new_chunk_def with_body_def Let_def)
  have ex1: "block_exec_on st par (block_ref.truncate (pk_obj pkg)) key = Ok (?b, st1)"
    using pc st1 by (simp add: block_exec_on_def Let_def is_block_def pk_height_def block_ident_def)
  have beg: "begin_block_execution_pinned t st (blk_prev_hash (pk_obj pkg)) (block_ref.truncate (pk_obj pkg)) key =
      Some (Ok (Some (?b, par, ft_root t), st1))"
    using tree_find_node [OF inv par(1)] par ex1 block_chunk_ops(1) [OF tree_inv_block [OF inv par(1)]]
    by (simp add: begin_block_execution_pinned_def pk_height_def)
  have wb: "with_body st ?org (Parent par) (Writable delta_default) = (?b, st1)"
    using st1 by (simp add: new_chunk_def)
  have sp: "Parent par = Parent p \<Longrightarrow> p < cs_next st" for p using lt by simp
  note v = with_body_view [OF wf sp wb]
  have dk: "cs_disk st1 = cs_disk st" "cs_next st1 = cs_next st + 1"
    using wb by (auto simp: with_body_def Let_def)
  have ty1: "store_typed st1" by (rule typed_step [OF step_exec [OF ex1] ty])
  have op: "open_chunk st1 ?b" using ty1 v(2) by (simp add: open_chunk_def is_block_def)
  have view1: "chunk_view st1 ?b = chunk_view st par"
    using v(4) by (simp add: source_view_def apply_delta_def delta_default_def)
  have to_ex: "executed st st2 par ?b (pk_height pkg) (block_ident pkg key)" if ib: "in_block ?b st1 st2" for st2
  proof -
    obtain c d d' where c: "cs_chunk st1 ?b = Some c" "cs_chunk st2 ?b = Some (c\<lparr>ch_body := Writable d'\<rparr>)"
      by (rule in_blockE [OF ib])
    have "ch_children k = []" if "?b \<le> j" "cs_chunk st2 j = Some k" for j k
    proof (cases "j = ?b")
      case True
      then show ?thesis using c v(2) that(2) by auto
    next
      case False
      then show ?thesis using in_blockD(5) [OF ib _ that(2)] that(1) dk(2) by simp
    qed
    moreover have "cs_chunk st2 j = cs_chunk st j" if "j < ?b" for j
      using in_blockD(4) [OF ib, of j] that dk(2) v(2) by simp
    ultimately show ?thesis
      using c v(2) dk(1) in_blockD(1,2) [OF ib] unfolding executed_def by auto
  qed
  note sim = execute_block_sim [OF op co, of "pk_obj pkg" fast_sync, unfolded view1]
  show ?thesis
  proof (cases "spec_execute (ce_services ce) eff (pk_obj pkg) fast_sync (chunk_view st par)")
    case (Inl e)
    then show ?thesis using beg sim by (simp add: spec_run_def run_block_def)
  next
    case (Inr s')
    then obtain st2 where st2: "execute_block (ce_services ce) (pk_obj pkg) st1 ?b fast_sync = Ok st2"
      "in_block ?b st1 st2" "chunk_view st2 ?b = s'" using sim by auto
    have pv: "chunk_view st2 par = chunk_view st par" by (rule executed_tree(5) [OF inv to_ex [OF st2(2)] lt])
    show ?thesis
      using beg st2 Inr pv to_ex [OF st2(2)]
      by (cases "ce_check_after ce pkg s' (chunk_view st par) eng fast_sync") (simp_all add: spec_run_def run_block_def)
  qed
qed

section \<open>Reading the branch of the parent\<close>

lemma branch_loop_spec:
  assumes sh: "tree_shape st r" and n: "in_tree st r n"
  shows "\<exists>xs. branch_loop st r n acc = Some (Ok (Some (map (\<lambda>k. bid_block (ident_at st k)) (r # xs) @ rev acc))) \<and>
    linked st r xs n"
  using n
proof (induction n arbitrary: acc rule: less_induct)
  case (less n)
  let ?b = "\<lambda>k. bid_block (ident_at st k)"
  note id = block_chunk_ops(2) [OF tree_shapeD(3) [OF sh less.prems]]
  show ?case
  proof (cases "n = r")
    case True
    then have "branch_loop st r n acc = Some (Ok (Some (?b r # rev acc)))"
      using id by (subst branch_loop.simps) simp
    then show ?thesis using True by (intro exI [of _ "[]"]) simp
  next
    case False
    obtain p where p: "in_tree st r p" "child_rel st p n" "parent_of st n = Ok (Some p)" "p < n"
      by (rule ancestor_parent [OF sh _ less.prems]) (use False in auto)
    obtain xs where xs: "branch_loop st r p (acc @ [?b n]) = Some (Ok (Some (map ?b (r # xs) @ rev (acc @ [?b n]))))"
      "linked st r xs p"
      using less.IH [OF p(4,1)] by blast
    have "branch_loop st r n acc = branch_loop st r p (acc @ [?b n])"
      using p(3) id False by (subst branch_loop.simps) (simp add: Let_def)
    moreover have "linked st r (xs @ [n]) n" using xs(2) p(2) by (auto simp: linked_snoc)
    ultimately show ?thesis using xs(1) by (intro exI [of _ "xs @ [n]"]) simp
  qed
qed

lemma branch_blocks_spec:
  assumes inv: "tree_inv t st" and n: "in_tree st (ft_root t) n"
  shows "\<exists>xs. branch_blocks t st (hsh st n) = Some (Ok (Some (map (\<lambda>k. bid_block (ident_at st k)) (ft_root t # xs)))) \<and>
    linked st (ft_root t) xs n"
  using branch_loop_spec [OF tree_invD(1) [OF inv] n, of "[]"] tree_find_node [OF inv n] by (simp add: branch_blocks_def)

text \<open>The fork choice of the candidate: the history follows the branch of its parent.\<close>

lemma resolve_spec:
  assumes inv: "tree_inv (en_tree eng) (en_store eng)"
  obtains (orphan) "\<forall>n. in_tree (en_store eng) (ft_root (en_tree eng)) n \<longrightarrow>
        hsh (en_store eng) n \<noteq> blk_prev_hash (pk_obj pkg)" "resolve_fork_choice ce eng pkg = Some (Ok None)"
  | (parent) par xs where "in_tree (en_store eng) (ft_root (en_tree eng)) par"
      "hsh (en_store eng) par = blk_prev_hash (pk_obj pkg)" "linked (en_store eng) (ft_root (en_tree eng)) xs par"
      "resolve_fork_choice ce eng pkg =
         (let ident = ident_at (en_store eng) par;
              history = for_branch (engine_history ce eng)
                (map (\<lambda>k. bid_block (ident_at (en_store eng) k)) (ft_root (en_tree eng) # xs))
          in Some (try_ret (ce_fork_choice_key ce pkg (bid_fork_choice ident) history)
               (\<lambda>key. Ok (Some (bid_block ident, history, key)))))"
proof (cases "\<exists>n. in_tree (en_store eng) (ft_root (en_tree eng)) n \<and> hsh (en_store eng) n = blk_prev_hash (pk_obj pkg)")
  case False
  then have f: "tree_find (en_tree eng) (en_store eng) (blk_prev_hash (pk_obj pkg)) = Some (Ok None)"
    by (intro tree_find_None [OF inv]) auto
  then have "resolve_fork_choice ce eng pkg = Some (Ok None)"
    by (simp add: resolve_fork_choice_def block_context_def Let_def)
  with False show ?thesis using orphan by blast
next
  case True
  then obtain par where par: "in_tree (en_store eng) (ft_root (en_tree eng)) par"
    "hsh (en_store eng) par = blk_prev_hash (pk_obj pkg)" by blast
  obtain xs where xs: "branch_blocks (en_tree eng) (en_store eng) (blk_prev_hash (pk_obj pkg)) =
      Some (Ok (Some (map (\<lambda>k. bid_block (ident_at (en_store eng) k)) (ft_root (en_tree eng) # xs))))"
    "linked (en_store eng) (ft_root (en_tree eng)) xs par"
    using branch_blocks_spec [OF inv par(1)] par(2) by auto
  have f: "tree_find (en_tree eng) (en_store eng) (blk_prev_hash (pk_obj pkg)) = Some (Ok (Some par))"
    using tree_find_node [OF inv par(1)] par(2) by simp
  note id = block_chunk_ops(2) [OF tree_inv_block [OF inv par(1)]]
  show ?thesis
  proof (rule parent [OF par xs(2)])
    show "resolve_fork_choice ce eng pkg =
         (let ident = ident_at (en_store eng) par;
              history = for_branch (engine_history ce eng)
                (map (\<lambda>k. bid_block (ident_at (en_store eng) k)) (ft_root (en_tree eng) # xs))
          in Some (try_ret (ce_fork_choice_key ce pkg (bid_fork_choice ident) history)
               (\<lambda>key. Ok (Some (bid_block ident, history, key)))))"
      using f id xs(1)
      by (cases "ce_fork_choice_key ce pkg (bid_fork_choice (ident_at (en_store eng) par))
            (for_branch (engine_history ce eng)
              (map (\<lambda>k. bid_block (ident_at (en_store eng) k)) (ft_root (en_tree eng) # xs)))")
        (simp_all add: resolve_fork_choice_def block_context_def Let_def)
  qed
qed

section \<open>Committing an executed block\<close>

definition strict_post :: "nat \<Rightarrow> nat \<Rightarrow> inserted \<Rightarrow> tree_inner \<Rightarrow> chunk_store \<Rightarrow> bool" where
  "strict_post window disk ins t st \<longleftrightarrow>
     tree_inv t st \<and> childless st \<and> durable_root st (ft_root t) disk \<and> kids_distinct st \<and>
     (case ins_roll ins of
        None \<Rightarrow> strict_inv window disk t st
      | Some job \<Rightarrow>
          planned_roll st (ft_root t) (ft_head t) 1 job \<and> ft_scheduled_root t = rj_new_root job \<and>
          hgt st (ft_head t) \<le> hgt st (rj_new_root job) + window)"

lemma executed_no_parent:
  assumes ty: "store_typed st" and ex: "executed st st2 par b height ident"
  shows "\<not> child_rel st2 a b"
proof
  assume c: "child_rel st2 a b"
  note e = executedD [OF ex]
  show False
  proof (cases "a < cs_next st")
    case True
    then have "child_rel st a b" using c e(4) [OF True] by (simp add: child_rel_def)
    then show False using child_rel_less(2) [OF ty, of a b] e(1) by simp
  next
    case False
    then show False using c e(5) [of a] by (fastforce simp: child_rel_def)
  qed
qed

lemma attach_kids:
  assumes at: "attach t st ph chunk window = Some (Ok (ins, t', st'))" and wf: "chunk_wf st"
    and kd: "kids_distinct st" and no: "\<And>a. \<not> child_rel st a chunk"
  shows "kids_distinct st'"
proof -
  from at obtain par where "attach_block_child st par chunk = Ok st'"
    unfolding attach_def attach_inner_def by (auto simp: Let_def split: option.splits if_splits)
  then obtain c cc d where c: "cs_chunk st par = Some c" "cs_chunk st chunk = Some cc"
    "st' = put_chunk (put_chunk st chunk (cc\<lparr>ch_body := Frozen d\<rparr>)) par (c\<lparr>ch_children := ch_children c @ [chunk]\<rparr>)"
    using attach_cases [OF wf] by metis
  have "chunk \<notin> set (ch_children c)" using no [of par] c(1) by (simp add: child_rel_def)
  then show ?thesis using kd c unfolding kids_distinct_def by (auto split: if_splits)
qed

lemma attach_reorg:
  assumes "attach t st ph chunk window = Some (Ok (ins, t', st'))" "tree_find t st ph = Some (Ok (Some par))"
  shows "ins_reorg ins \<longleftrightarrow> ins_is_head ins \<and> par \<noteq> ft_head t"
  using assms(1) unfolding attach_def attach_inner_def assms(2)
  by (auto simp: Let_def split: if_splits)

lemma commit_block:
  assumes inv: "strict_inv window disk t st" "kids_distinct st" and w: "0 < window" "height + window < 2 ^ 64"
    and ex: "executed st st2 par b height ident"
    and par: "in_tree st (ft_root t) par" "height = hgt st par + 1"
    and new: "\<And>n. in_tree st (ft_root t) n \<Longrightarrow> hsh st n \<noteq> bid_hash ident"
    and range: "insertable_height t st height = Ok ()"
  shows "\<exists>ins t' st'. attach t st2 (hsh st par) b window = Some (Ok (ins, t', st')) \<and>
    attach_result t st2 par b window False ins t' st' \<and> strict_post window disk ins t' st' \<and>
    (ins_reorg ins \<longleftrightarrow> ins_is_head ins \<and> par \<noteq> ft_head t)"
proof -
  have ti: "tree_inv t st" and sc: "ft_scheduled_root t = ft_root t" using inv(1) by (simp_all add: strict_inv_def)
  note e = executedD [OF ex] and x = executed_tree [OF ti ex] and i2 = executed_strict [OF inv ex]
  have hr: "hgt st (ft_root t) + window < 2 ^ 64"
  proof -
    have "hgt st (ft_root t) \<le> hgt st par" using ancestor_height [OF tree_invD(1) [OF ti] _ par(1)] by simp
    then show ?thesis using w(2) par(2) by simp
  qed
  have r: "in_tree st (ft_root t) (ft_root t)" by simp
  have at: "attachable t st2 par b window False"
    unfolding attachable_def sc
    using e(6,7) x(3) [OF r] x(4) par new w(1) hr x(4) [OF r] e(8) by (simp add: hsh_def)
  have hp: "hsh st2 par = hsh st par" using x(4) [OF par(1)] by simp
  obtain ins t' st' where a: "attach t st2 (hsh st par) b window = Some (Ok (ins, t', st'))"
    "attach_result t st2 par b window False ins t' st'"
    using attach_inner_spec [OF x(1) at] hp by (auto simp: attach_def)
  have hb: "with_chunk st2 b block_height = Ok height"
    using block_chunk_raw(1) [OF ready_block_facts(1) [OF tree_invD(1) [OF x(1)] e(6)]] e(7) by simp
  have range2: "insertable_height t st2 height = Ok ()"
  proof -
    have "height_of st2 n = height_of st n" if "in_tree st (ft_root t) n" for n
      using x(2) [OF that] by (simp add: height_of_def with_chunk_def)
    then show ?thesis using range r tree_invD(4) [OF ti] by (simp add: insertable_height_def root_height_def head_height_def)
  qed
  note sa = strict_attach [OF i2(1) w(1) hb range2 w(2) a(1)]
  have "kids_distinct st'"
    by (rule attach_kids [OF a(1) tree_invD(3) [OF x(1)] i2(2)]) (rule executed_no_parent [OF tree_invD(2) [OF ti] ex])
  then have "strict_post window disk ins t' st'"
    using sa by (auto simp: strict_post_def split: option.split)
  moreover have "ins_reorg ins \<longleftrightarrow> ins_is_head ins \<and> par \<noteq> ft_head t"
    by (rule attach_reorg [OF a(1)]) (use tree_find_node [OF x(1), of par] x(3) [OF r] par(1) hp in simp)
  ultimately show ?thesis using a by blast
qed

section \<open>The effect on the tree\<close>

lemma linked_unique:
  assumes sh: "tree_shape st r"
  shows "linked st r xs n \<Longrightarrow> linked st r ys n \<Longrightarrow> xs = ys"
proof (induction xs arbitrary: n ys rule: rev_induct)
  case Nil
  show ?case
  proof (cases ys rule: rev_cases)
    case (snoc zs y)
    then have "r < n" using linked_le [OF Nil(2) tree_shapeD(1) [OF sh], of n] Nil(2) by (auto simp: linked_snoc)
    then show ?thesis using Nil(1) by simp
  qed simp
next
  case (snoc x xs)
  from snoc.prems(1) obtain m where m: "x = n" "linked st r xs m" "child_rel st m n" by (auto simp: linked_snoc)
  show ?case
  proof (cases ys rule: rev_cases)
    case Nil
    then have "r = n" using snoc.prems(2) by simp
    moreover have "r < n" using linked_le [OF snoc.prems(1) tree_shapeD(1) [OF sh], of n] m(1) by simp
    ultimately show ?thesis by simp
  next
    case (snoc zs y)
    with snoc.prems(2) obtain k where k: "y = n" "linked st r zs k" "child_rel st k n" by (auto simp: linked_snoc)
    have "m = k" by (rule tree_parent_unique [OF sh linked_in_tree [OF m(2)] linked_in_tree [OF k(2)] m(3) k(3)])
    then show ?thesis using snoc.IH [OF m(2)] k m(1) snoc by simp
  qed
qed

text \<open>
  The block \<open>cs_next st\<close> has joined the tree with the state \<open>s'\<close>; the other nodes keep their states, the
  head moves when the fork choice says so, and only side branches may have been evicted.
\<close>

definition joined ::
  "tree_inner \<Rightarrow> chunk_store \<Rightarrow> nat \<Rightarrow> layer \<Rightarrow> nat \<Rightarrow> block_identity \<Rightarrow> inserted \<Rightarrow> tree_inner \<Rightarrow> chunk_store \<Rightarrow> bool" where
  "joined t st par s' height ident ins t' st' \<longleftrightarrow>
     (let b = cs_next st; r = ft_root t
      in ft_root t' = r \<and> chunk_view st' b = s' \<and> hgt st' b = height \<and> ident_at st' b = ident \<and>
         ins_is_head ins = fck_less (fkey st (ft_head t)) (bid_fork_choice ident) \<and>
         ft_head t' = (if ins_is_head ins then b else ft_head t) \<and>
         (ins_reorg ins \<longleftrightarrow> ins_is_head ins \<and> par \<noteq> ft_head t) \<and>
         (\<forall>n. in_tree st r n \<longrightarrow>
            chunk_view st' n = chunk_view st n \<and> hgt st' n = hgt st n \<and> ident_at st' n = ident_at st n) \<and>
         (\<forall>n. in_tree st' r n \<longrightarrow> in_tree st r n \<or> n = b) \<and>
         (if ins_is_head ins
          then (\<forall>n. in_tree st r n \<longrightarrow> in_tree st' r n) \<and> (\<forall>xs. linked st r xs par \<longrightarrow> linked st' r (xs @ [b]) b)
          else (\<forall>xs. linked st r xs (ft_head t) \<longrightarrow> linked st' r xs (ft_head t))))"

lemma executed_linked:
  assumes inv: "tree_inv t st" and ex: "executed st st2 par b height ident"
  shows "in_tree st (ft_root t) a \<Longrightarrow> linked st a xs n \<Longrightarrow> linked st2 a xs n"
proof (induction xs arbitrary: a)
  case (Cons x xs)
  then have c: "child_rel st a x" and l: "linked st x xs n" by simp_all
  then have "in_tree st (ft_root t) x" using Cons.prems(1) by (meson rtranclp.rtrancl_into_rtrancl)
  moreover have "child_rel st2 a x" using c executed_tree(2) [OF inv ex Cons.prems(1)] by (simp add: child_rel_def)
  ultimately show ?case using Cons.IH l by simp
qed simp

lemma attach_joined:
  assumes inv: "tree_inv t st" and ex: "executed st st2 par b height ident" and v: "chunk_view st2 b = s'"
    and par: "in_tree st (ft_root t) par"
    and res: "attach_result t st2 par b window linear ins t' st'"
    and rg: "ins_reorg ins \<longleftrightarrow> ins_is_head ins \<and> par \<noteq> ft_head t"
  shows "joined t st par s' height ident ins t' st'"
proof -
  note e = executedD [OF ex] and x = executed_tree [OF inv ex]
  have ti': "tree_inv t' st'" and rt: "ft_root t' = ft_root t" and sl: "same_links st2 st'"
    and vw: "\<And>n. chunk_view st' n = chunk_view st2 n"
    and cr: "\<And>a c. child_rel st' a c \<longleftrightarrow> child_rel st2 a c \<or> a = par \<and> c = b"
    and it: "\<And>m n. in_tree st' m n \<longleftrightarrow> in_tree st2 m n \<or> n = b \<and> in_tree st2 m par"
    and up: "ins_is_head ins \<longleftrightarrow> fck_less (fkey st2 (ft_head t)) (fkey st2 b)"
    and hd: "ft_head t' = (if ins_is_head ins then b else ft_head t)"
    using res by (simp_all add: attach_result_def)
  note ops = same_links_ops [OF sl]
  have r: "in_tree st (ft_root t) (ft_root t)" by simp
  have l': "linked st' a xs n" if "in_tree st (ft_root t) a" "linked st a xs n" for a xs n
    by (rule linked_mono [OF executed_linked [OF inv ex that]]) (simp add: cr)
  have "linked st' (ft_root t) (xs @ [b]) b" if "linked st (ft_root t) xs par" for xs
    using l' [OF r that] cr by (auto simp: linked_snoc)
  moreover have "ident_at st' b = ident" "fkey st2 b = bid_fork_choice ident"
    using e(8) ops(1) by (simp_all add: ident_at_def fkey_def)
  moreover have "fkey st2 (ft_head t) = fkey st (ft_head t)" using x(4) [OF tree_invD(4) [OF inv]] by simp
  moreover have "chunk_view st' n = chunk_view st n \<and> hgt st' n = hgt st n \<and> ident_at st' n = ident_at st n"
    if "in_tree st (ft_root t) n" for n
    using vw ops(1,8) x(4) [OF that] x(5) [OF in_tree_old [OF inv that]] x(2) [OF that]
    by (simp add: ident_at_def) (simp add: origin_at_def)
  moreover have "in_tree st' (ft_root t) n \<longleftrightarrow> in_tree st (ft_root t) n \<or> n = b" for n
    unfolding it using x(3) [OF r] par by auto
  ultimately show ?thesis
    unfolding joined_def Let_def e(1) [symmetric]
    using rt vw v ops(8) e(7) up hd l' [OF r] rg by simp
qed

text \<open>Evicting side branches afterwards.\<close>

lemma linked_pruned:
  assumes pr: "pruned st st'" and sh: "tree_shape st r" "tree_shape st' r" and n: "in_tree st' r n" and l: "linked st r xs n"
  shows "linked st' r xs n"
proof -
  obtain ys where ys: "linked st' r ys n" using chain_loop_spec [OF sh(2) n, of "[]"] by auto
  have "linked st r ys n" by (rule linked_mono [OF ys]) (rule pruned_child_rel [OF pr])
  then have "ys = xs" using linked_unique [OF sh(1)] l by blast
  with ys show ?thesis by simp
qed

lemma joined_pruned:
  assumes j: "joined t st par s' height ident ins t' st'" and nh: "\<not> ins_is_head ins"
    and ti: "tree_inv t' st'" and pr: "pruned st' st''" and ti': "tree_inv t' st''"
  shows "joined t st par s' height ident ins t' st''"
proof -
  note ops = pruned_ops [OF pr]
  have v: "chunk_view st'' n = chunk_view st' n" for n by (rule pruned_view [OF pr tree_invD(3) [OF ti]])
  have rt: "ft_root t' = ft_root t" and hd: "ft_head t' = ft_head t" using j nh by (simp_all add: joined_def Let_def)
  have sub: "in_tree st'' a n \<Longrightarrow> in_tree st' a n" for a n by (rule pruned_in_tree [OF pr])
  have "linked st'' (ft_root t) xs (ft_head t)" if "linked st' (ft_root t) xs (ft_head t)" for xs
    by (rule linked_pruned [OF pr]) (use tree_invD(1,4) [OF ti] tree_invD(1,4) [OF ti'] rt hd that in simp_all)
  moreover have "ident_at st'' n = ident_at st' n" for n using ops(1) by (simp add: ident_at_def)
  ultimately show ?thesis using j nh v ops(8) sub unfolding joined_def Let_def by auto
qed

lemma strict_post_pruned:
  assumes sp: "strict_post window disk ins t st" and pr: "pruned st st'" and ti': "tree_inv t st'"
  shows "strict_post window disk ins t st'"
proof -
  have ti: "tree_inv t st" and cl: "childless st" and du: "durable_root st (ft_root t) disk" and kd: "kids_distinct st"
    using sp by (simp_all add: strict_post_def)
  have f: "childless st'" "durable_root st' (ft_root t) disk" "kids_distinct st'"
    by (rule pruned_frame(2) [OF pr cl], rule pruned_frame(3) [OF pr du], rule pruned_frame(1) [OF pr kd])
  have hg: "hgt st' = hgt st" "hsh st' = hsh st" using pruned_ops(8,9) [OF pr] by auto
  show ?thesis
  proof (cases "ins_roll ins")
    case None
    then show ?thesis using sp f ti' hg by (simp add: strict_post_def strict_inv_def)
  next
    case (Some job)
    then have pl: "planned_roll st (ft_root t) (ft_head t) 1 job" "ft_scheduled_root t = rj_new_root job"
      using sp by (simp_all add: strict_post_def)
    have "linked st' (ft_root t) (rj_chain job) (rj_new_root job)"
      by (rule linked_pruned [OF pr tree_invD(1) [OF ti] tree_invD(1) [OF ti']])
        (use pl tree_invD(5) [OF ti'] in \<open>simp_all add: planned_roll_def\<close>)
    then have "planned_roll st' (ft_root t) (ft_head t) 1 job"
      using pl tree_invD(6) [OF ti'] hg by (simp add: planned_roll_def)
    then show ?thesis using sp f ti' hg Some by (simp add: strict_post_def)
  qed
qed

section \<open>The handler\<close>

text \<open>The identity of a node is that of its block.\<close>

definition idents_ok :: "tree_inner \<Rightarrow> chunk_store \<Rightarrow> bool" where
  "idents_ok t st \<longleftrightarrow>
     (\<forall>n. in_tree st (ft_root t) n \<longrightarrow>
        blk_height (bid_block (ident_at st n)) = hgt st n \<and> blk_hash (bid_block (ident_at st n)) = hsh st n)"

definition chain_inv :: "chain_env \<Rightarrow> engine \<Rightarrow> bool" where
  "chain_inv ce eng \<longleftrightarrow>
     strict_inv (ce_unstable_block ce) (ce_disk ce) (en_tree eng) (en_store eng) \<and>
     kids_distinct (en_store eng) \<and> 0 < ce_unstable_block ce \<and> idents_ok (en_tree eng) (en_store eng)"

text \<open>An accepted insertion in strict mode.\<close>

definition inserted_ok :: "chain_env \<Rightarrow> tx_effect \<Rightarrow> engine \<Rightarrow> blk_pkg \<Rightarrow> bool \<Rightarrow> apply_accepted \<Rightarrow> engine \<Rightarrow> bool" where
  "inserted_ok ce eff eng pkg persist_body acc eng' \<longleftrightarrow>
     (let t = en_tree eng; st = en_store eng; t' = en_tree eng'; st' = en_store eng'; ins = aa_inserted acc
      in (\<exists>par s' key.
           in_tree st (ft_root t) par \<and> hsh st par = blk_prev_hash (pk_obj pkg) \<and> pk_height pkg = hgt st par + 1 \<and>
           (\<forall>n. in_tree st (ft_root t) n \<longrightarrow> hsh st n \<noteq> blk_hash (pk_obj pkg)) \<and>
           verify_block (ce_hash ce) (ce_mint_params ce) (ce_now ce) (pk_obj pkg) (bid_block (ident_at st par)) = Ok () \<and>
           spec_run ce eff eng pkg False (chunk_view st par) = Ok s' \<and>
           joined t st par s' (pk_height pkg) (block_ident pkg key) ins t' st') \<and>
         strict_post (ce_unstable_block ce) (ce_disk ce) ins t' st' \<and>
         aa_pkg acc = pkg \<and> aa_persist_body acc = persist_body \<and> aa_prev_head acc = hsh st (ft_head t) \<and>
         en_pending eng' = en_pending eng \<and> en_root_available eng' = en_root_available eng \<and>
         (if ins_is_head ins then en_blocks eng' = en_blocks eng
          else card (side_nodes t' st') \<le> ce_side_tree_capacity ce \<and>
            (if persist_body
             then put_block (Ok ()) (en_blocks eng) (pk_height pkg) (pk_hash pkg) (pk_data pkg) = Ok (en_blocks eng')
             else en_blocks eng' = en_blocks eng)))"

lemma chain_invD:
  assumes "chain_inv ce eng"
  shows "strict_inv (ce_unstable_block ce) (ce_disk ce) (en_tree eng) (en_store eng)" "kids_distinct (en_store eng)"
    "0 < ce_unstable_block ce" "tree_inv (en_tree eng) (en_store eng)" "idents_ok (en_tree eng) (en_store eng)"
  using assms by (auto simp: chain_inv_def strict_inv_def)

lemma put_block_Ok: "put_block written bs h x y = Ok bs' \<Longrightarrow> put_block (Ok ()) bs h x y = Ok bs'"
  by (auto simp: put_block_def Let_def split: if_splits)

lemma put_block_canon: "put_block written bs h x y = Ok bs' \<Longrightarrow> block_store_inv bs \<Longrightarrow> block_store_inv bs' \<and> canon bs' = canon bs"
  using put_block_spec [of bs h x y] put_block_Ok [of written bs h x y bs']
  by (cases "h = 0") (auto simp: put_block_def)

text \<open>The two commit arms.\<close>

lemma commit_arms:
  assumes inv: "chain_inv ce eng" and ph: "pk_hash pkg = blk_hash (pk_obj pkg)"
    and hw: "pk_height pkg + ce_unstable_block ce < 2 ^ 64"
    and ex: "executed (en_store eng) st2 par b (pk_height pkg) (block_ident pkg key)"
    and v: "spec_run ce eff eng pkg False (chunk_view (en_store eng) par) = Ok (chunk_view st2 b)"
    and par: "in_tree (en_store eng) (ft_root (en_tree eng)) par" "hsh (en_store eng) par = blk_prev_hash (pk_obj pkg)"
      "pk_height pkg = hgt (en_store eng) par + 1"
    and new: "\<forall>n. in_tree (en_store eng) (ft_root (en_tree eng)) n \<longrightarrow> hsh (en_store eng) n \<noteq> blk_hash (pk_obj pkg)"
    and range: "insertable_height (en_tree eng) (en_store eng) (pk_height pkg) = Ok ()"
    and vf: "verify_block (ce_hash ce) (ce_mint_params ce) (ce_now ce) (pk_obj pkg)
      (bid_block (ident_at (en_store eng) par)) = Ok ()"
  shows "fck_less (fkey (en_store eng) (ft_head (en_tree eng))) key \<Longrightarrow>
      \<exists>acc eng'. insert_head ce eng pkg False persist_body (hsh (en_store eng) (ft_head (en_tree eng))) st2 b =
          Some (Ok (Accepted acc, eng')) \<and>
        inserted_ok ce eff eng pkg persist_body acc eng' \<and> ins_is_head (aa_inserted acc)"
    and "\<not> fck_less (fkey (en_store eng) (ft_head (en_tree eng))) key \<Longrightarrow>
      (case (if persist_body then put_block (do_put_block io) (en_blocks eng) (pk_height pkg) (pk_hash pkg) (pk_data pkg)
             else Ok (en_blocks eng)) of
         Inl (Panic m) \<Rightarrow> insert_side ce io eng pkg persist_body (hsh (en_store eng) (ft_head (en_tree eng))) st2 b = Some (Inl (Panic m))
       | Inl (Error _ _ _) \<Rightarrow>
           insert_side ce io eng pkg persist_body (hsh (en_store eng) (ft_head (en_tree eng))) st2 b = Some (Ok (Discarded, eng))
       | Inr blocks \<Rightarrow> \<exists>acc eng'.
           insert_side ce io eng pkg persist_body (hsh (en_store eng) (ft_head (en_tree eng))) st2 b =
             Some (Ok (Accepted acc, eng')) \<and>
           inserted_ok ce eff eng pkg persist_body acc eng' \<and> \<not> ins_is_head (aa_inserted acc))"
proof -
  let ?t = "en_tree eng" and ?st = "en_store eng"
  note ci = chain_invD [OF inv]
  have new': "hsh ?st n \<noteq> bid_hash (block_ident pkg key)" if "in_tree ?st (ft_root ?t) n" for n
    using new that by (simp add: block_ident_def)
  obtain ins t' st' where a: "attach ?t st2 (blk_prev_hash (pk_obj pkg)) b (ce_unstable_block ce) = Some (Ok (ins, t', st'))"
    and res: "attach_result ?t st2 par b (ce_unstable_block ce) False ins t' st'"
    and sp: "strict_post (ce_unstable_block ce) (ce_disk ce) ins t' st'"
    and rg: "ins_reorg ins \<longleftrightarrow> ins_is_head ins \<and> par \<noteq> ft_head ?t"
    using commit_block [OF ci(1,2,3) hw ex par(1,3) new' range] par(2) by auto
  have j: "joined ?t ?st par (chunk_view st2 b) (pk_height pkg) (block_ident pkg key) ins t' st'"
    by (rule attach_joined [OF ci(4) ex refl par(1) res rg])
  have up: "ins_is_head ins \<longleftrightarrow> fck_less (fkey ?st (ft_head ?t)) key"
    using j by (simp add: joined_def Let_def block_ident_def)
  let ?acc = "\<lparr>aa_pkg = pkg, aa_inserted = ins, aa_persist_body = persist_body, aa_prev_head = hsh ?st (ft_head ?t)\<rparr>"
  {
    assume "fck_less (fkey ?st (ft_head ?t)) key"
    then have h: "ins_is_head ins" using up by simp
    have "inserted_ok ce eff eng pkg persist_body ?acc (eng\<lparr>en_tree := t', en_store := st'\<rparr>)"
      unfolding inserted_ok_def Let_def using par new vf v j sp h by auto
    moreover have "insert_head ce eng pkg False persist_body (hsh ?st (ft_head ?t)) st2 b =
        Some (Ok (Accepted ?acc, eng\<lparr>en_tree := t', en_store := st'\<rparr>))"
      using a by (simp add: insert_head_def Let_def map_err_ro_def)
    ultimately show "\<exists>acc eng'. insert_head ce eng pkg False persist_body (hsh ?st (ft_head ?t)) st2 b =
          Some (Ok (Accepted acc, eng')) \<and>
        inserted_ok ce eff eng pkg persist_body acc eng' \<and> ins_is_head (aa_inserted acc)" using h by fastforce
  next
    assume "\<not> fck_less (fkey ?st (ft_head ?t)) key"
    then have h: "\<not> ins_is_head ins" using up by simp
    have tk: "tree_inv t' st'" "kids_distinct st'" using sp by (simp_all add: strict_post_def)
    obtain st'' where pr: "enforce_side_capacity t' st' (ce_side_tree_capacity ce) = Some (Ok st'')" "pruned st' st''"
      "tree_inv t' st''" "card (side_nodes t' st'') \<le> ce_side_tree_capacity ce"
      using enforce_side_capacity_spec [OF tk, of "ce_side_tree_capacity ce"] by blast
    have j2: "joined ?t ?st par (chunk_view st2 b) (pk_height pkg) (block_ident pkg key) ins t' st''"
      by (rule joined_pruned [OF j h tk(1) pr(2,3)])
    have sp2: "strict_post (ce_unstable_block ce) (ce_disk ce) ins t' st''"
      by (rule strict_post_pruned [OF sp pr(2,3)])
    let ?stored = "if persist_body then put_block (do_put_block io) (en_blocks eng) (pk_height pkg) (pk_hash pkg) (pk_data pkg)
             else Ok (en_blocks eng)"
    show "case ?stored of
         Inl (Panic m) \<Rightarrow> insert_side ce io eng pkg persist_body (hsh ?st (ft_head ?t)) st2 b = Some (Inl (Panic m))
       | Inl (Error _ _ _) \<Rightarrow>
           insert_side ce io eng pkg persist_body (hsh ?st (ft_head ?t)) st2 b = Some (Ok (Discarded, eng))
       | Inr blocks \<Rightarrow> \<exists>acc eng'.
           insert_side ce io eng pkg persist_body (hsh ?st (ft_head ?t)) st2 b = Some (Ok (Accepted acc, eng')) \<and>
           inserted_ok ce eff eng pkg persist_body acc eng' \<and> \<not> ins_is_head (aa_inserted acc)"
    proof (cases ?stored)
      case (Inl e)
      then show ?thesis by (cases e) (simp_all add: insert_side_def Let_def del: if_split)
    next
      case (Inr blocks)
      let ?eng = "(side_append (do_hint_sent io) (eng\<lparr>en_blocks := blocks, en_tree := t', en_store := st'\<rparr>) [pk_hash pkg])\<lparr>en_store := st''\<rparr>"
      have blk: "if persist_body
             then put_block (Ok ()) (en_blocks eng) (pk_height pkg) (pk_hash pkg) (pk_data pkg) = Ok blocks
             else blocks = en_blocks eng"
        using Inr put_block_Ok by (auto split: if_splits)
      have f: "en_tree ?eng = t'" "en_store ?eng = st''" "en_blocks ?eng = blocks" "en_pending ?eng = en_pending eng"
        "en_root_available ?eng = en_root_available eng"
        by (simp_all add: side_append_def)
      have "inserted_ok ce eff eng pkg persist_body ?acc ?eng"
        unfolding inserted_ok_def Let_def f using par new vf v j2 sp2 h pr(4) blk by auto
      moreover have "insert_side ce io eng pkg persist_body (hsh ?st (ft_head ?t)) st2 b = Some (Ok (Accepted ?acc, ?eng))"
        unfolding insert_side_def Let_def Inr using a pr(1) by simp
      ultimately show ?thesis unfolding Inr using h by fastforce
    qed
  }
qed

lemma is_fast_sync_simps: "is_fast_sync Strict = False" "is_fast_sync FastSync = True"
  by (simp_all add: is_fast_sync_def)

text \<open>The handler after its early returns: a fresh block in range whose parent \<open>par\<close> is in the tree.\<close>

lemma insert_on_parent:
  assumes inv: "chain_inv ce eng" and co: "tx_contract (ce_services ce) eff" and ph: "pk_hash pkg = blk_hash (pk_obj pkg)"
    and hw: "pk_height pkg + ce_unstable_block ce < 2 ^ 64" and av: "en_root_available eng"
    and range: "insertable_height (en_tree eng) (en_store eng) (pk_height pkg) = Ok ()"
    and new: "\<forall>n. in_tree (en_store eng) (ft_root (en_tree eng)) n \<longrightarrow> hsh (en_store eng) n \<noteq> blk_hash (pk_obj pkg)"
    and par: "in_tree (en_store eng) (ft_root (en_tree eng)) par" "hsh (en_store eng) par = blk_prev_hash (pk_obj pkg)"
      "pk_height pkg = hgt (en_store eng) par + 1"
    and rs: "resolve_fork_choice ce eng pkg = Some (Ok (Some (bid_block (ident_at (en_store eng) par), history, key)))"
    and vf: "verify_block (ce_hash ce) (ce_mint_params ce) (ce_now ce) (pk_obj pkg)
      (bid_block (ident_at (en_store eng) par)) = Ok ()"
    and bf: "ce_check_before ce pkg (bid_block (ident_at (en_store eng) par)) history False = Ok ()"
  shows "case spec_run ce eff eng pkg False (chunk_view (en_store eng) par) of
      Inl e \<Rightarrow> insert_block ce io eng pkg Strict persist_body =
        (if \<not> fck_less (fkey (en_store eng) (ft_head (en_tree eng))) key \<and> branch_level e
         then Some (Ok (Discarded, eng)) else Some (Inl e))
    | Inr s' \<Rightarrow>
        (\<exists>acc eng'. insert_block ce io eng pkg Strict persist_body = Some (Ok (Accepted acc, eng')) \<and>
          inserted_ok ce eff eng pkg persist_body acc eng' \<and>
          (ins_is_head (aa_inserted acc) \<longleftrightarrow> fck_less (fkey (en_store eng) (ft_head (en_tree eng))) key)) \<or>
        \<not> fck_less (fkey (en_store eng) (ft_head (en_tree eng))) key \<and> persist_body \<and>
        (\<exists>e. put_block (do_put_block io) (en_blocks eng) (pk_height pkg) (pk_hash pkg) (pk_data pkg) = Inl e \<and>
          insert_block ce io eng pkg Strict persist_body =
            (case e of Panic m \<Rightarrow> Some (Inl (Panic m)) | Error _ _ _ \<Rightarrow> Some (Ok (Discarded, eng))))"
proof -
  let ?t = "en_tree eng" and ?st = "en_store eng"
  let ?b = "cs_next ?st" and ?head = "hsh ?st (ft_head ?t)" and ?plan = "fck_less (fkey ?st (ft_head ?t)) key"
  note ci = chain_invD [OF inv]
  note hd = block_chunk_ops [OF tree_inv_block [OF ci(4) tree_invD(4) [OF ci(4)]]]
  obtain st1 where beg: "begin_block_execution_pinned ?t ?st (blk_prev_hash (pk_obj pkg)) (block_ref.truncate (pk_obj pkg)) key =
      Some (Ok (Some (?b, par, ft_root ?t), st1))"
    and sim: "case spec_run ce eff eng pkg False (chunk_view ?st par) of
       Inl e \<Rightarrow> run_block ce eng pkg False st1 ?b par = Inl e
     | Inr s' \<Rightarrow> \<exists>st2. run_block ce eng pkg False st1 ?b par = Ok st2 \<and>
         executed ?st st2 par ?b (pk_height pkg) (block_ident pkg key) \<and> chunk_view st2 ?b = s'"
    using run_block_sim [OF ci(4) par co] by blast
  have cn: "contains ?t ?st (pk_hash pkg) = Some (Ok False)"
    using tree_find_None [OF ci(4), of "pk_hash pkg"] new ph by (simp add: contains_def)
  have hp: "saturating_add64 (blk_height (bid_block (ident_at ?st par))) 1 = pk_height pkg"
    using ci(5) par hw by (simp add: idents_ok_def saturating_add64_def)
  have eq: "insert_block ce io eng pkg Strict persist_body =
      (case run_block ce eng pkg False st1 ?b par of
         Inl e \<Rightarrow> if \<not> ?plan \<and> branch_level e then Some (Ok (Discarded, eng)) else Some (Inl e)
       | Inr st2 \<Rightarrow>
           if ?plan then insert_head ce eng pkg False persist_body ?head st2 ?b
           else insert_side ce io eng pkg persist_body ?head st2 ?b)"
    unfolding insert_block_def Let_def is_fast_sync_simps not_False_eq_True simp_thms
    using av hd range cn rs hp vf bf beg by (simp add: head_tip_def head_fork_choice_def map_err_ro_def)
  show ?thesis
  proof (cases "spec_run ce eff eng pkg False (chunk_view ?st par)")
    case (Inl e)
    then have "run_block ce eng pkg False st1 ?b par = Inl e" using sim by simp
    then show ?thesis unfolding eq Inl by simp
  next
    case (Inr s')
    then obtain st2 where st2: "run_block ce eng pkg False st1 ?b par = Ok st2"
      "executed ?st st2 par ?b (pk_height pkg) (block_ident pkg key)" "chunk_view st2 ?b = s'"
      using sim by auto
    have v: "spec_run ce eff eng pkg False (chunk_view ?st par) = Ok (chunk_view st2 ?b)" using Inr st2(3) by simp
    note arms = commit_arms [OF inv ph hw st2(2) v par new range vf]
    have eq2: "insert_block ce io eng pkg Strict persist_body =
        (if ?plan then insert_head ce eng pkg False persist_body ?head st2 ?b
         else insert_side ce io eng pkg persist_body ?head st2 ?b)" unfolding eq st2(1) by simp
    show ?thesis
    proof (cases ?plan)
      case True
      then show ?thesis using arms(1) [OF True, of persist_body] eq2 Inr by auto
    next
      case False
      note side = arms(2) [OF False, of io persist_body]
      show ?thesis
      proof (cases "if persist_body then put_block (do_put_block io) (en_blocks eng) (pk_height pkg) (pk_hash pkg) (pk_data pkg)
             else Ok (en_blocks eng)")
        case put: (Inl e)
        then have "persist_body" "put_block (do_put_block io) (en_blocks eng) (pk_height pkg) (pk_hash pkg) (pk_data pkg) = Inl e"
          by (auto split: if_splits)
        then show ?thesis using side False eq2 Inr put by (cases e) auto
      next
        case (Inr blocks)
        then show ?thesis
          using side False eq2 \<open>spec_run ce eff eng pkg False (chunk_view ?st par) = Inr s'\<close> by auto
      qed
    qed
  qed
qed

text \<open>A block that passes every check and executes is accepted when its body can be stored.\<close>

lemma insert_accepts:
  assumes inv: "chain_inv ce eng" and co: "tx_contract (ce_services ce) eff" and ph: "pk_hash pkg = blk_hash (pk_obj pkg)"
    and hw: "pk_height pkg + ce_unstable_block ce < 2 ^ 64" and av: "en_root_available eng"
    and range: "insertable_height (en_tree eng) (en_store eng) (pk_height pkg) = Ok ()"
    and new: "\<forall>n. in_tree (en_store eng) (ft_root (en_tree eng)) n \<longrightarrow> hsh (en_store eng) n \<noteq> blk_hash (pk_obj pkg)"
    and par: "in_tree (en_store eng) (ft_root (en_tree eng)) par" "hsh (en_store eng) par = blk_prev_hash (pk_obj pkg)"
      "pk_height pkg = hgt (en_store eng) par + 1"
    and rs: "resolve_fork_choice ce eng pkg = Some (Ok (Some (bid_block (ident_at (en_store eng) par), history, key)))"
    and vf: "verify_block (ce_hash ce) (ce_mint_params ce) (ce_now ce) (pk_obj pkg)
      (bid_block (ident_at (en_store eng) par)) = Ok ()"
    and bf: "ce_check_before ce pkg (bid_block (ident_at (en_store eng) par)) history False = Ok ()"
    and run: "spec_run ce eff eng pkg False (chunk_view (en_store eng) par) = Ok s'" and io: "do_put_block io = Ok ()"
  shows "\<exists>acc eng'. insert_block ce io eng pkg Strict persist_body = Some (Ok (Accepted acc, eng')) \<and>
    chunk_view (en_store eng') (cs_next (en_store eng)) = s' \<and>
    (ft_head (en_tree eng') = cs_next (en_store eng) \<longleftrightarrow> fck_less (fkey (en_store eng) (ft_head (en_tree eng))) key) \<and>
    (\<forall>n. in_tree (en_store eng) (ft_root (en_tree eng)) n \<longrightarrow>
       chunk_view (en_store eng') n = chunk_view (en_store eng) n)"
proof -
  let ?st = "en_store eng" and ?t = "en_tree eng"
  have pb: "put_block (do_put_block io) (en_blocks eng) (pk_height pkg) (pk_hash pkg) (pk_data pkg) \<noteq> Inl e" for e
    using par(3) io by (simp add: put_block_def Let_def)
  obtain acc eng' where acc: "insert_block ce io eng pkg Strict persist_body = Some (Ok (Accepted acc, eng'))"
    "inserted_ok ce eff eng pkg persist_body acc eng'" "ins_is_head (aa_inserted acc) \<longleftrightarrow> fck_less (fkey ?st (ft_head ?t)) key"
    using insert_on_parent [OF inv co ph hw av range new par rs vf bf, of io persist_body] pb unfolding run sum.case by blast
  obtain p s k where j: "in_tree ?st (ft_root ?t) p" "hsh ?st p = blk_prev_hash (pk_obj pkg)"
      "spec_run ce eff eng pkg False (chunk_view ?st p) = Ok s"
      "joined ?t ?st p s (pk_height pkg) (block_ident pkg k) (aa_inserted acc) (en_tree eng') (en_store eng')"
    using acc(2) unfolding inserted_ok_def Let_def by blast
  have "p = par"
    using tree_find_spec [OF chain_invD(4) [OF inv], of "blk_prev_hash (pk_obj pkg)"] j(1,2) par(1,2) by (metis option.inject)
  then have "s = s'" using j(3) run by simp
  moreover have "ft_head ?t < cs_next ?st" using in_tree_old [OF chain_invD(4) [OF inv] tree_invD(4) [OF chain_invD(4) [OF inv]]] .
  ultimately show ?thesis using acc(1,3) j(4) unfolding joined_def Let_def by auto
qed

definition outcome_ok :: "chain_env \<Rightarrow> tx_effect \<Rightarrow> engine \<Rightarrow> blk_pkg \<Rightarrow> bool \<Rightarrow> apply_result \<Rightarrow> engine \<Rightarrow> bool" where
  "outcome_ok ce eff eng pkg persist_body res eng' \<longleftrightarrow>
     (case res of
        Accepted acc \<Rightarrow> inserted_ok ce eff eng pkg persist_body acc eng'
      | Duplicate h \<Rightarrow> eng' = eng \<and> (\<exists>n. in_tree (en_store eng) (ft_root (en_tree eng)) n \<and> hsh (en_store eng) n = h)
      | Orphan h \<Rightarrow> eng' = eng \<and> (\<forall>n. in_tree (en_store eng) (ft_root (en_tree eng)) n \<longrightarrow> hsh (en_store eng) n \<noteq> h)
      | Discarded \<Rightarrow> eng' = eng)"

abbreviation good_outcome :: "chain_env \<Rightarrow> tx_effect \<Rightarrow> engine \<Rightarrow> blk_pkg \<Rightarrow> bool \<Rightarrow> (apply_result \<times> engine) ret option \<Rightarrow> bool" where
  "good_outcome ce eff eng pkg persist_body m \<equiv>
     \<exists>r. m = Some r \<and> (\<forall>res eng'. r = Ok (res, eng') \<longrightarrow> outcome_ok ce eff eng pkg persist_body res eng')"

text \<open>The checks of a fresh block in range against the parent found in the tree.\<close>

lemma insert_parent_outcome:
  assumes inv: "chain_inv ce eng" and co: "tx_contract (ce_services ce) eff" and ph: "pk_hash pkg = blk_hash (pk_obj pkg)"
    and hw: "pk_height pkg + ce_unstable_block ce < 2 ^ 64" and av: "en_root_available eng"
    and range: "insertable_height (en_tree eng) (en_store eng) (pk_height pkg) = Ok ()"
    and new: "\<forall>n. in_tree (en_store eng) (ft_root (en_tree eng)) n \<longrightarrow> hsh (en_store eng) n \<noteq> blk_hash (pk_obj pkg)"
    and par: "in_tree (en_store eng) (ft_root (en_tree eng)) par" "hsh (en_store eng) par = blk_prev_hash (pk_obj pkg)"
    and rs: "resolve_fork_choice ce eng pkg = Some (Ok (Some (bid_block (ident_at (en_store eng) par), history, key)))"
  shows "good_outcome ce eff eng pkg persist_body (insert_block ce io eng pkg Strict persist_body)"
proof -
  let ?t = "en_tree eng" and ?st = "en_store eng" and ?p = "bid_block (ident_at (en_store eng) par)"
  note ci = chain_invD [OF inv]
  note hd = block_chunk_ops [OF tree_inv_block [OF ci(4) tree_invD(4) [OF ci(4)]]]
  have cn: "contains ?t ?st (pk_hash pkg) = Some (Ok False)"
    using tree_find_None [OF ci(4), of "pk_hash pkg"] new ph by (simp add: contains_def)
  note ev = insert_block_def Let_def is_fast_sync_simps head_tip_def
  show ?thesis
  proof (cases "saturating_add64 (blk_height ?p) 1 = pk_height pkg")
    case False
    then have "insert_block ce io eng pkg Strict persist_body = Some (errf ''prev block not found'')"
      using av hd range cn rs by (simp add: ev)
    then show ?thesis by simp
  next
    case hp: True
    then have hgt: "pk_height pkg = hgt ?st par + 1"
      using ci(3,5) par(1) hw by (auto simp: idents_ok_def saturating_add64_def split: if_splits)
    show ?thesis
    proof (cases "verify_block (ce_hash ce) (ce_mint_params ce) (ce_now ce) (pk_obj pkg) ?p")
      case (Inl e)
      then have "insert_block ce io eng pkg Strict persist_body = Some (Inl e)"
        using av hd range cn rs hp by (simp add: ev)
      then show ?thesis by simp
    next
      case vf: (Inr u)
      show ?thesis
      proof (cases "ce_check_before ce pkg ?p history False")
        case (Inl e)
        then have "insert_block ce io eng pkg Strict persist_body = Some (Inl e)"
          using av hd range cn rs hp vf by (simp add: ev)
        then show ?thesis by simp
      next
        case bf: (Inr u')
        note on = insert_on_parent [OF inv co ph hw av range new par hgt rs, of io persist_body]
        have vf': "verify_block (ce_hash ce) (ce_mint_params ce) (ce_now ce) (pk_obj pkg) ?p = Ok ()"
          and bf': "ce_check_before ce pkg ?p history False = Ok ()" using vf bf by simp_all
        show ?thesis
        proof (cases "spec_run ce eff eng pkg False (chunk_view ?st par)")
          case (Inl e)
          then show ?thesis using on [OF vf' bf'] by (auto simp: outcome_ok_def)
        next
          case (Inr s')
          from on [OF vf' bf', unfolded Inr sum.case] consider
            (acc) acc eng' where "insert_block ce io eng pkg Strict persist_body = Some (Ok (Accepted acc, eng'))"
              "inserted_ok ce eff eng pkg persist_body acc eng'"
          | (put) e where "insert_block ce io eng pkg Strict persist_body =
                (case e of Panic m \<Rightarrow> Some (Inl (Panic m)) | Error _ _ _ \<Rightarrow> Some (Ok (Discarded, eng)))"
            by blast
          then show ?thesis
          proof cases
            case (put e)
            then show ?thesis by (cases e) (simp_all add: outcome_ok_def)
          qed (simp add: outcome_ok_def)
        qed
      qed
    qed
  qed
qed

lemma insert_strict_outcome:
  assumes inv: "chain_inv ce eng" and co: "tx_contract (ce_services ce) eff" and ph: "pk_hash pkg = blk_hash (pk_obj pkg)"
    and hw: "pk_height pkg + ce_unstable_block ce < 2 ^ 64"
  shows "good_outcome ce eff eng pkg persist_body (insert_block ce io eng pkg Strict persist_body)"
proof -
  let ?t = "en_tree eng" and ?st = "en_store eng"
  note ci = chain_invD [OF inv]
  note hd = block_chunk_ops [OF tree_inv_block [OF ci(4) tree_invD(4) [OF ci(4)]]]
  note ev = insert_block_def Let_def is_fast_sync_simps head_tip_def contains_def
  obtain r where r: "tree_find ?t ?st (pk_hash pkg) = Some (Ok r)"
    "\<forall>n. r = Some n \<longleftrightarrow> in_tree ?st (ft_root ?t) n \<and> hsh ?st n = pk_hash pkg"
    using tree_find_spec [OF ci(4)] by blast
  consider (down) "\<not> en_root_available eng"
    | (range) e where "en_root_available eng" "insertable_height ?t ?st (pk_height pkg) = Inl e"
    | (dup) n where "en_root_available eng" "insertable_height ?t ?st (pk_height pkg) = Ok ()" "r = Some n"
    | (fresh) "en_root_available eng" "insertable_height ?t ?st (pk_height pkg) = Ok ()" "r = None"
    by (cases "insertable_height ?t ?st (pk_height pkg)"; cases r) auto
  then show ?thesis
  proof cases
    case down
    then show ?thesis by (simp add: ev)
  next
    case range
    then show ?thesis using hd by (simp add: ev)
  next
    case dup
    then have "insert_block ce io eng pkg Strict persist_body = Some (Ok (Duplicate (pk_hash pkg), eng))"
      using hd r(1) by (simp add: ev)
    then show ?thesis using r(2) dup(3) by (auto simp: outcome_ok_def)
  next
    case fresh
    then have new: "\<forall>n. in_tree ?st (ft_root ?t) n \<longrightarrow> hsh ?st n \<noteq> blk_hash (pk_obj pkg)" using r(2) ph by auto
    show ?thesis
      using ci(4)
    proof (cases rule: resolve_spec [of eng pkg ce])
      case orphan
      then have "insert_block ce io eng pkg Strict persist_body = Some (Ok (Orphan (blk_prev_hash (pk_obj pkg)), eng))"
        using fresh hd r(1) by (simp add: ev)
      then show ?thesis using orphan(1) by (simp add: outcome_ok_def)
    next
      case (parent par xs)
      let ?h = "for_branch (engine_history ce eng) (map (\<lambda>k. bid_block (ident_at ?st k)) (ft_root ?t # xs))"
      show ?thesis
      proof (cases "ce_fork_choice_key ce pkg (bid_fork_choice (ident_at ?st par)) ?h")
        case (Inl e)
        then have "resolve_fork_choice ce eng pkg = Some (Inl e)" using parent(4) by (simp add: Let_def)
        then have "insert_block ce io eng pkg Strict persist_body = Some (Inl e)"
          using fresh hd r(1) by (simp add: ev)
        then show ?thesis by simp
      next
        case (Inr key)
        then have "resolve_fork_choice ce eng pkg = Some (Ok (Some (bid_block (ident_at ?st par), ?h, key)))"
          using parent(4) by (simp add: Let_def)
        then show ?thesis by (rule insert_parent_outcome [OF inv co ph hw fresh(1,2) new parent(1,2)])
      qed
    qed
  qed
qed

end
