(* ===== verification/EngineProps.thy ===== *)
theory EngineProps
  imports Engine InsertProps
begin

text \<open>
  The engine keeps the block database and the fork tree together: after every block from the
  network the canonical height index lists exactly the branch of the head, with a body for every
  node, or the engine has stopped for good.
\<close>

section \<open>The invariant\<close>

definition index_ok :: "engine \<Rightarrow> bool" where
  "index_ok eng \<longleftrightarrow>
     (let t = en_tree eng; st = en_store eng; bs = en_blocks eng; r = ft_root t
      in block_store_inv bs \<and> kb_tip bs = hgt st (ft_head t) \<and>
         (\<exists>xs. linked st r xs (ft_head t) \<and> drop (hgt st r) (canon bs) = map (hsh st) xs) \<and>
         (0 < hgt st r \<longrightarrow> canon bs ! (hgt st r - 1) = hsh st r) \<and>
         (\<forall>n. in_tree st r n \<longrightarrow> length (hsh st n) = 32) \<and>
         (\<forall>n. in_tree st r n \<longrightarrow> n \<noteq> r \<longrightarrow> has_body bs (hsh st n)))"

definition chain_ok :: "chain_env \<Rightarrow> engine \<Rightarrow> bool" where
  "chain_ok ce eng \<longleftrightarrow> chain_inv ce eng \<and> index_ok eng \<and> en_root_available eng"

text \<open>Only the pending cache and the hints may differ.\<close>

definition same_core :: "engine \<Rightarrow> engine \<Rightarrow> bool" where
  "same_core a b \<longleftrightarrow>
     en_tree b = en_tree a \<and> en_store b = en_store a \<and> en_blocks b = en_blocks a \<and> en_root_available b = en_root_available a"

lemma same_core_refl [simp]: "same_core a a" and same_core_trans: "same_core a b \<Longrightarrow> same_core b c \<Longrightarrow> same_core a c"
  by (auto simp: same_core_def)

lemma same_core_upd [simp]:
  "same_core a (b\<lparr>en_pending := p\<rparr>) \<longleftrightarrow> same_core a b" "same_core a (b\<lparr>en_side_hints := h\<rparr>) \<longleftrightarrow> same_core a b"
  "same_core (a\<lparr>en_pending := p\<rparr>) b \<longleftrightarrow> same_core a b"
  by (simp_all add: same_core_def)

lemma chain_ok_core: "same_core a b \<Longrightarrow> chain_ok ce b \<longleftrightarrow> chain_ok ce a"
  by (simp add: same_core_def chain_ok_def chain_inv_def index_ok_def)

section \<open>Callbacks leave the chain alone\<close>

lemma handle_error_eng [simp]: "nd_eng (handle_error ph e nd) = nd_eng nd"
  by (auto simp: handle_error_def mark_fatal_def split: error.split lifecycle.split)

lemma listeners_done_eng [simp]: "nd_eng (snd (listeners_done r nd)) = nd_eng nd"
  by (auto simp: listeners_done_def split: sum.split error.split)

lemma post_commit_err_eng [simp]: "nd_eng (snd (post_commit_err policy e nd)) = nd_eng nd"
  by (simp add: post_commit_err_def Let_def)

lemma announce_core: "same_core (nd_eng nd) (nd_eng (snd (announce_stable cb policy h x blk nd)))"
  by (auto simp: announce_stable_def Let_def split: sum.split error.split option.split)

lemma notify_stable_core: "same_core (nd_eng nd) (nd_eng (snd (notify_stable cb replay policy xs nd)))"
proof (induction cb replay policy xs nd rule: notify_stable.induct)
  case (2 cb replay policy height hash rest nd)
  let ?f = "upd_eng (\<lambda>g. g\<lparr>en_pending := hist_forget (en_pending g) height hash\<rparr>)"
  show ?case
  proof (cases replay)
    case True
    then show ?thesis using 2(1) [OF refl True] by (simp add: Let_def)
  next
    case False
    show ?thesis
    proof (cases "stable_block cb (nd_eng nd) height hash")
      case (Inl e)
      then show ?thesis using False by (cases e) (simp_all add: Let_def)
    next
      case (Inr block)
      obtain r nd' where a: "announce_stable cb policy height hash block nd = (r, nd')"
        by (cases "announce_stable cb policy height hash block nd")
      have c: "same_core (nd_eng nd) (nd_eng nd')" using announce_core [of nd cb policy height hash block] a by simp
      show ?thesis
      proof (cases r)
        case (Inl e)
        then show ?thesis using False Inr a c by (simp add: Let_def)
      next
        case ok: (Inr u)
        have "same_core (nd_eng (?f nd')) (nd_eng (snd (notify_stable cb replay policy rest (?f nd'))))"
          using 2(2) [OF refl False Inr a [symmetric] ok] .
        moreover have "same_core (nd_eng nd) (nd_eng (?f nd'))" using c by simp
        ultimately show ?thesis using False Inr a ok same_core_trans by (simp add: Let_def)
      qed
    qed
  qed
qed simp

lemma publish_core [simp]: "nd_eng (snd (publish_accepted cb policy job nd)) = nd_eng nd"
  by (auto simp: publish_accepted_def Let_def split: sum.split error.split option.split)

section \<open>After the insertion\<close>

lemma body_mono:
  assumes "\<forall>x. read_by_hash bs' x = (if x = hash then Ok (Some body) else read_by_hash bs x)" "has_body bs x"
  shows "has_body bs' x"
  using assms by (auto simp: has_body_def read_by_hash_def)

text \<open>What the insertion leaves for the persistence stage; \<open>b\<close> is the new node.\<close>

definition persist_ready :: "chain_env \<Rightarrow> blk_pkg \<Rightarrow> inserted \<Rightarrow> nat \<Rightarrow> engine \<Rightarrow> bool" where
  "persist_ready ce pkg ins b eng \<longleftrightarrow>
     (let t = en_tree eng; st = en_store eng; bs = en_blocks eng; r = ft_root t
      in strict_post (ce_unstable_block ce) (ce_disk ce) ins t st \<and> 0 < ce_unstable_block ce \<and> idents_ok t st \<and>
         en_root_available eng \<and> block_store_inv bs \<and> hgt st r \<le> kb_tip bs \<and>
         (0 < hgt st r \<longrightarrow> canon bs ! (hgt st r - 1) = hsh st r) \<and>
         (\<forall>n. in_tree st r n \<longrightarrow> length (hsh st n) = 32) \<and>
         (\<forall>n. in_tree st r n \<longrightarrow> n \<noteq> r \<longrightarrow> n \<noteq> b \<or> \<not> ins_is_head ins \<longrightarrow> has_body bs (hsh st n)) \<and>
         (if ins_is_head ins
          then ft_head t = b \<and> hsh st b = pk_hash pkg \<and> hgt st b = pk_height pkg \<and> hgt st r < pk_height pkg \<and> pk_height pkg < 2 ^ 64 \<and>
            (\<not> ins_reorg ins \<longrightarrow> kb_tip bs + 1 = pk_height pkg \<and>
               (\<exists>xs. linked st r (xs @ [b]) b \<and> drop (hgt st r) (canon bs) = map (hsh st) xs))
          else index_ok eng))"

lemma hsh_ident: "ident_at st' n = ident_at st n \<Longrightarrow> hsh st' n = hsh st n"
  by (simp add: hsh_def)

lemma map_path_hashes:
  assumes "linked st r xs n" "in_tree st r0 r" "\<And>k. in_tree st r0 k \<Longrightarrow> hsh st' k = hsh st k"
  shows "map (hsh st') xs = map (hsh st) xs"
  using assms linked_nodes [OF assms(1)] by (auto intro: rtranclp_trans)

lemma insert_persist_ready:
  assumes ok: "chain_ok ce eng" and ins: "inserted_ok ce eff eng pkg True acc eng'"
    and pk: "pk_hash pkg = blk_hash (pk_obj pkg)" "length (pk_hash pkg) = 32" "pk_height pkg + ce_unstable_block ce < 2 ^ 64"
  shows "persist_ready ce pkg (aa_inserted acc) (cs_next (en_store eng)) eng'"
proof -
  let ?t = "en_tree eng" and ?st = "en_store eng" and ?bs = "en_blocks eng" and ?r = "ft_root (en_tree eng)"
  let ?t' = "en_tree eng'" and ?st' = "en_store eng'" and ?bs' = "en_blocks eng'" and ?ins = "aa_inserted acc"
  let ?b = "cs_next ?st"
  have ci: "chain_inv ce eng" and av: "en_root_available eng" using ok by (simp_all add: chain_ok_def)
  have bi: "block_store_inv ?bs" and tip: "kb_tip ?bs = hgt ?st (ft_head ?t)"
    and ro: "0 < hgt ?st ?r \<longrightarrow> canon ?bs ! (hgt ?st ?r - 1) = hsh ?st ?r"
    and len: "\<And>n. in_tree ?st ?r n \<Longrightarrow> length (hsh ?st n) = 32"
    and bod: "\<And>n. in_tree ?st ?r n \<Longrightarrow> n \<noteq> ?r \<Longrightarrow> has_body ?bs (hsh ?st n)"
    using ok by (simp_all add: chain_ok_def index_ok_def Let_def)
  obtain xs where xs: "linked ?st ?r xs (ft_head ?t)" "drop (hgt ?st ?r) (canon ?bs) = map (hsh ?st) xs"
    using ok by (auto simp: chain_ok_def index_ok_def Let_def)
  note c = chain_invD [OF ci]
  obtain par s' key where par: "in_tree ?st ?r par" "pk_height pkg = hgt ?st par + 1"
    and j: "joined ?t ?st par s' (pk_height pkg) (block_ident pkg key) ?ins ?t' ?st'"
    using ins by (auto simp: inserted_ok_def Let_def)
  have sp: "strict_post (ce_unstable_block ce) (ce_disk ce) ?ins ?t' ?st'" and av': "en_root_available eng'"
    using ins av by (simp_all add: inserted_ok_def Let_def)
  have rt: "ft_root ?t' = ?r" and hb: "hgt ?st' ?b = pk_height pkg" and ib: "ident_at ?st' ?b = block_ident pkg key"
    and old: "\<And>n. in_tree ?st ?r n \<Longrightarrow> hgt ?st' n = hgt ?st n \<and> ident_at ?st' n = ident_at ?st n"
    and only: "\<And>n. in_tree ?st' ?r n \<Longrightarrow> in_tree ?st ?r n \<or> n = ?b"
    and hd: "ft_head ?t' = (if ins_is_head ?ins then ?b else ft_head ?t)"
    and rg: "ins_reorg ?ins \<longleftrightarrow> ins_is_head ?ins \<and> par \<noteq> ft_head ?t"
    using j by (simp_all add: joined_def Let_def)
  have hs: "hsh ?st' n = hsh ?st n" if "in_tree ?st ?r n" for n
    by (rule hsh_ident) (use old [OF that] in simp)
  have hsb: "hsh ?st' ?b = pk_hash pkg" using ib pk(1) by (simp add: hsh_def block_ident_def)
  have r: "in_tree ?st ?r ?r" by simp
  have hr: "hgt ?st' ?r = hgt ?st ?r" "hsh ?st' ?r = hsh ?st ?r" using old [OF r] hs [OF r] by simp_all
  have rh: "hgt ?st ?r \<le> hgt ?st (ft_head ?t)" using linked_height [OF tree_invD(1) [OF c(4)] r xs(1)] by simp
  have rp: "hgt ?st ?r < pk_height pkg"
    using ancestor_height(1) [OF tree_invD(1) [OF c(4)] r par(1)] par(2) by simp
  have len': "length (hsh ?st' n) = 32" if "in_tree ?st' ?r n" for n
    using only [OF that] len hs hsb pk(2) by auto
  have ids: "idents_ok ?t' ?st'"
    unfolding idents_ok_def rt
  proof (intro allI impI)
    fix n assume "in_tree ?st' ?r n"
    then consider "in_tree ?st ?r n" | "n = ?b" using only by blast
    then show "blk_height (bid_block (ident_at ?st' n)) = hgt ?st' n \<and> blk_hash (bid_block (ident_at ?st' n)) = hsh ?st' n"
    proof cases
      case 1
      then show ?thesis using old [OF 1] hs [OF 1] c(5) by (simp add: idents_ok_def)
    next
      case 2
      then show ?thesis using ib hb hsb pk(1) by (simp add: block_ident_def pk_height_def)
    qed
  qed
  show ?thesis
  proof (cases "ins_is_head ?ins")
    case True
    have bs': "?bs' = ?bs" using ins True by (simp add: inserted_ok_def Let_def)
    have "has_body ?bs' (hsh ?st' n)" if "in_tree ?st' ?r n" "n \<noteq> ?r" "n \<noteq> ?b" for n
      using only [OF that(1)] that bod hs bs' by auto
    moreover have "kb_tip ?bs + 1 = pk_height pkg \<and> (\<exists>xs. linked ?st' ?r (xs @ [?b]) ?b \<and>
        drop (hgt ?st ?r) (canon ?bs) = map (hsh ?st') xs)" if "\<not> ins_reorg ?ins"
    proof -
      have ph: "par = ft_head ?t" using rg True that by simp
      then have "linked ?st' ?r (xs @ [?b]) ?b" using j True xs(1) by (simp add: joined_def Let_def)
      moreover have "map (hsh ?st') xs = map (hsh ?st) xs" by (rule map_path_hashes [OF xs(1) r hs])
      ultimately show ?thesis using xs(2) par(2) tip ph by metis
    qed
    ultimately show ?thesis
      unfolding persist_ready_def Let_def rt bs'
      using sp c(3) ids av' bi tip rh ro hr len' True hd hsb hb rp pk(3) by auto
  next
    case False
    have path: "linked ?st' ?r xs (ft_head ?t)" using j False xs(1) by (simp add: joined_def Let_def)
    obtain bs1 where bs1: "put_block (Ok ()) ?bs (pk_height pkg) (pk_hash pkg) (pk_data pkg) = Ok bs1" "block_store_inv bs1"
      "canon bs1 = canon ?bs" "kb_tip bs1 = kb_tip ?bs"
      "\<forall>x. read_by_hash bs1 x = (if x = pk_hash pkg then Ok (Some (pk_data pkg)) else read_by_hash ?bs x)"
      using put_block_spec [OF bi, of "pk_height pkg" "pk_hash pkg" "pk_data pkg"] par(2) by auto
    have bs': "?bs' = bs1" using ins False bs1(1) by (simp add: inserted_ok_def Let_def)
    have body: "has_body ?bs' (hsh ?st' n)" if "in_tree ?st' ?r n" "n \<noteq> ?r" for n
    proof (cases "in_tree ?st ?r n")
      case True
      then show ?thesis using body_mono [OF bs1(5) bod] that(2) hs bs' by simp
    next
      case False
      then have "n = ?b" using only that(1) by blast
      then show ?thesis using hsb bs1(5) bs' by (auto simp: has_body_def read_by_hash_def)
    qed
    have "map (hsh ?st') xs = map (hsh ?st) xs" by (rule map_path_hashes [OF xs(1) r hs])
    then have "index_ok eng'"
      unfolding index_ok_def Let_def rt bs' bs1(3,4)
      using bs1(2) tip old [OF tree_invD(4) [OF c(4)]] hd False path xs(2) hr ro len' body bs' by auto
    then show ?thesis
      unfolding persist_ready_def Let_def rt bs' bs1(3,4)
      using sp c(3) ids av' bs1(2) tip rh ro hr len' False body bs' by auto
  qed
qed

section \<open>The persistence stage\<close>

definition persisted :: "chain_env \<Rightarrow> inserted \<Rightarrow> engine \<Rightarrow> bool" where
  "persisted ce ins eng \<longleftrightarrow>
     strict_post (ce_unstable_block ce) (ce_disk ce) ins (en_tree eng) (en_store eng) \<and> 0 < ce_unstable_block ce \<and>
     idents_ok (en_tree eng) (en_store eng) \<and> en_root_available eng \<and> index_ok eng"

text \<open>A write that extends or replaces the index after height \<open>k\<close>, up to the new head.\<close>

lemma persisted_write:
  assumes rd: "persist_ready ce pkg ins b eng" and h: "ins_is_head ins"
    and bs: "block_store_inv bs'" "canon bs' = take (hgt (en_store eng) (ft_root (en_tree eng))) (canon (en_blocks eng)) @ map (hsh (en_store eng)) xs"
      "kb_tip bs' = pk_height pkg"
      "\<forall>x. read_by_hash bs' x = (if x = pk_hash pkg then Ok (Some body) else read_by_hash (en_blocks eng) x)"
    and xs: "linked (en_store eng) (ft_root (en_tree eng)) xs b"
  shows "persisted ce ins (eng\<lparr>en_blocks := bs'\<rparr>)"
proof -
  let ?t = "en_tree eng" and ?st = "en_store eng" and ?bs = "en_blocks eng" and ?r = "ft_root (en_tree eng)"
  have le: "hgt ?st ?r \<le> kb_tip ?bs" and hd: "ft_head ?t = b" "hsh ?st b = pk_hash pkg" "hgt ?st b = pk_height pkg"
    using rd h by (simp_all add: persist_ready_def Let_def)
  have "drop (hgt ?st ?r) (canon bs') = map (hsh ?st) xs" using bs(2) le by simp
  moreover have "0 < hgt ?st ?r \<longrightarrow> canon bs' ! (hgt ?st ?r - 1) = hsh ?st ?r"
    using rd le bs(2) by (auto simp: persist_ready_def Let_def nth_append)
  moreover have "has_body bs' (hsh ?st n)" if "in_tree ?st ?r n" "n \<noteq> ?r" for n
  proof (cases "n = b")
    case True
    then show ?thesis using hd bs(4) by (auto simp: has_body_def read_by_hash_def)
  next
    case False
    then show ?thesis using rd that by (intro body_mono [OF bs(4)]) (simp add: persist_ready_def Let_def)
  qed
  ultimately have "index_ok (eng\<lparr>en_blocks := bs'\<rparr>)"
    using rd bs(1,3) xs hd by (auto simp: index_ok_def Let_def persist_ready_def)
  then show ?thesis using rd by (simp add: persisted_def persist_ready_def Let_def)
qed

lemma extend_persisted:
  assumes rd: "persist_ready ce pkg ins b eng" and h: "ins_is_head ins" "\<not> ins_reorg ins" and l: "length (pk_hash pkg) = 32"
  shows "\<exists>bs'. put_block_available (Ok ()) (en_blocks eng) (pk_height pkg) (pk_hash pkg) body = Ok bs' \<and>
    persisted ce ins (eng\<lparr>en_blocks := bs'\<rparr>)"
proof -
  let ?t = "en_tree eng" and ?st = "en_store eng" and ?bs = "en_blocks eng" and ?r = "ft_root (en_tree eng)"
  have bi: "block_store_inv ?bs" and tip: "kb_tip ?bs + 1 = pk_height pkg" and lt: "pk_height pkg < 2 ^ 64"
    and hb: "hsh ?st b = pk_hash pkg" and le: "hgt ?st ?r \<le> kb_tip ?bs"
    using rd h by (simp_all add: persist_ready_def Let_def)
  obtain xs where xs: "linked ?st ?r (xs @ [b]) b" "drop (hgt ?st ?r) (canon ?bs) = map (hsh ?st) xs"
    using rd h by (auto simp: persist_ready_def Let_def)
  obtain bs' where bs': "put_block_available (Ok ()) ?bs (pk_height pkg) (pk_hash pkg) body = Ok bs'" "block_store_inv bs'"
    "canon bs' = canon ?bs @ [pk_hash pkg]" "kb_tip bs' = pk_height pkg"
    "\<forall>x. read_by_hash bs' x = (if x = pk_hash pkg then Ok (Some body) else read_by_hash ?bs x)"
    using put_block_available_spec [OF bi tip [symmetric] lt l, of body] by blast
  have "canon bs' = take (hgt ?st ?r) (canon ?bs) @ map (hsh ?st) (xs @ [b])"
    using bs'(3) xs(2) hb append_take_drop_id [of "hgt ?st ?r" "canon ?bs"] by simp
  then show ?thesis using persisted_write [OF rd h(1) bs'(2) _ bs'(4,5) xs(1)] bs'(1) by blast
qed

lemma back_loop_spec:
  assumes sh: "tree_shape st r"
  shows "linked st r xs n \<Longrightarrow> back_loop st (length xs) n out = Ok (out @ rev (map (\<lambda>k. (hgt st k, hsh st k)) xs))"
proof (induction xs arbitrary: n out rule: rev_induct)
  case (snoc x xs)
  then obtain p where p: "x = n" "linked st r xs p" "child_rel st p n" by (auto simp: linked_snoc)
  have rp: "in_tree st r p" by (rule linked_in_tree [OF p(2)])
  have rn: "in_tree st r n" using rp p(3) by (rule rtranclp.rtrancl_into_rtrancl)
  have "parent_of st n = Ok (Some p)" by (rule tree_parent [OF sh rn p(3) rp])
  moreover note ops = block_chunk_ops(1,3) [OF tree_shapeD(3) [OF sh rn]]
  ultimately show ?case using snoc.IH [OF p(2), of "out @ [(hgt st n, hsh st n)]"] p(1) by simp
qed simp

lemma linked_heights:
  assumes sh: "tree_shape st r"
  shows "in_tree st r a \<Longrightarrow> linked st a xs n \<Longrightarrow>
    map (\<lambda>k. (hgt st k, hsh st k)) xs = zip [hgt st a + 1..<hgt st a + 1 + length xs] (map (hsh st) xs)"
proof (induction xs arbitrary: a)
  case (Cons x xs)
  then have c: "child_rel st a x" "linked st x xs n" by simp_all
  then have rx: "in_tree st r x" using Cons.prems(1) by (meson rtranclp.rtrancl_into_rtrancl)
  have "hgt st x = hgt st a + 1" by (rule tree_shapeD(5) [OF sh Cons.prems(1) c(1)])
  moreover have "[hgt st a + 1..<hgt st a + 1 + length (x # xs)] = (hgt st a + 1) # [hgt st a + 2..<hgt st a + 2 + length xs]"
    by (simp add: upt_conv_Cons del: upt_Suc)
  ultimately show ?case using Cons.IH [OF rx c(2)] by (simp del: upt_Suc)
qed simp

lemma reorg_persisted:
  assumes rd: "persist_ready ce pkg ins b eng" and h: "ins_is_head ins"
  shows "\<exists>xs bs'. root_height (en_tree eng) (en_store eng) = Ok (hgt (en_store eng) (ft_root (en_tree eng))) \<and>
    back_hashes (en_tree eng) (en_store eng) (pk_height pkg - hgt (en_store eng) (ft_root (en_tree eng))) =
      Ok (rev (map (\<lambda>k. (hgt (en_store eng) k, hsh (en_store eng) k)) xs)) \<and>
    commit_reorg (Ok ()) (en_blocks eng) (pk_height pkg) (pk_hash pkg) body
      (map (\<lambda>k. (hgt (en_store eng) k, hsh (en_store eng) k)) xs) = Ok bs' \<and>
    persisted ce ins (eng\<lparr>en_blocks := bs'\<rparr>)"
proof -
  let ?t = "en_tree eng" and ?st = "en_store eng" and ?bs = "en_blocks eng" and ?r = "ft_root (en_tree eng)"
  have ti: "tree_inv ?t ?st" and bi: "block_store_inv ?bs" and lt: "pk_height pkg < 2 ^ 64"
    and hd: "ft_head ?t = b" "hsh ?st b = pk_hash pkg" "hgt ?st b = pk_height pkg" and le: "hgt ?st ?r \<le> kb_tip ?bs"
    and gt: "hgt ?st ?r < pk_height pkg" and len: "\<And>n. in_tree ?st ?r n \<Longrightarrow> length (hsh ?st n) = 32"
    and bod: "\<And>n. in_tree ?st ?r n \<Longrightarrow> n \<noteq> ?r \<Longrightarrow> n \<noteq> b \<Longrightarrow> has_body ?bs (hsh ?st n)"
    using rd h by (simp_all add: persist_ready_def Let_def strict_post_def)
  note sh = tree_invD(1) [OF ti]
  have r: "in_tree ?st ?r ?r" by simp
  obtain xs where xs: "linked ?st ?r xs b" using chain_loop_spec [OF sh tree_invD(4) [OF ti], of "[]"] hd(1) by auto
  have hx: "pk_height pkg = hgt ?st ?r + length xs" using linked_height [OF sh r xs] hd(3) by simp
  have ne: "xs \<noteq> []" using hx gt by auto
  have la: "last xs = b" using xs ne by (cases xs rule: rev_cases) (auto simp: linked_snoc)
  have dist: "\<forall>k\<in>set xs. in_tree ?st ?r k \<and> k \<noteq> ?r"
    using linked_nodes [OF xs] linked_le [OF xs tree_invD(2) [OF ti]] by auto
  have rh: "root_height ?t ?st = Ok (hgt ?st ?r)"
    using block_chunk_ops(1) [OF tree_inv_block [OF ti r]] by (simp add: root_height_def)
  have bh: "back_hashes ?t ?st (pk_height pkg - hgt ?st ?r) = Ok (rev (map (\<lambda>k. (hgt ?st k, hsh ?st k)) xs))"
    using back_loop_spec [OF sh xs, of "[]"] hx hd(1) by (simp add: back_hashes_def)
  have hs: "\<forall>x\<in>set (map (hsh ?st) xs). length x = 32 \<and> (x = pk_hash pkg \<or> has_body ?bs x)"
  proof
    fix x assume "x \<in> set (map (hsh ?st) xs)"
    then obtain k where k: "k \<in> set xs" "x = hsh ?st k" by auto
    then show "length x = 32 \<and> (x = pk_hash pkg \<or> has_body ?bs x)"
      using dist len [of k] bod [of k] hd(2) by (cases "k = b") auto
  qed
  have "last (map (hsh ?st) xs) = pk_hash pkg" using la ne hd(2) by (simp add: last_map)
  then obtain bs' where bs': "commit_reorg (Ok ()) ?bs (pk_height pkg) (pk_hash pkg) body
      (zip [hgt ?st ?r + 1..<hgt ?st ?r + 1 + length xs] (map (hsh ?st) xs)) = Ok bs'"
    "block_store_inv bs'" "canon bs' = take (hgt ?st ?r) (canon ?bs) @ map (hsh ?st) xs" "kb_tip bs' = pk_height pkg"
    "\<forall>x. read_by_hash bs' x = (if x = pk_hash pkg then Ok (Some body) else read_by_hash ?bs x)"
    using commit_reorg_spec [OF bi le _ _ _ hs, of body] hx lt ne by auto
  have pe: "persisted ce ins (eng\<lparr>en_blocks := bs'\<rparr>)" by (rule persisted_write [OF rd h bs'(2-5) xs])
  have cr: "commit_reorg (Ok ()) ?bs (pk_height pkg) (pk_hash pkg) body (map (\<lambda>k. (hgt ?st k, hsh ?st k)) xs) = Ok bs'"
    unfolding linked_heights [OF sh r xs] by (rule bs'(1))
  show ?thesis by (intro exI conjI) (rule rh, rule bh, rule cr, rule pe)
qed

lemma persisted_core: "same_core a b \<Longrightarrow> persisted ce ins b \<longleftrightarrow> persisted ce ins a"
  by (simp add: same_core_def persisted_def index_ok_def)

text \<open>Evicting side branches keeps the index and the plan of the root.\<close>

lemma persisted_pruned:
  assumes pe: "persisted ce ins eng" and pr: "pruned (en_store eng) st'" and ti': "tree_inv (en_tree eng) st'"
  shows "persisted ce ins (eng\<lparr>en_store := st'\<rparr>)"
proof -
  let ?t = "en_tree eng" and ?st = "en_store eng" and ?r = "ft_root (en_tree eng)"
  have sp: "strict_post (ce_unstable_block ce) (ce_disk ce) ins ?t ?st" and ix: "index_ok eng"
    using pe by (simp_all add: persisted_def)
  have ti: "tree_inv ?t ?st" using sp by (simp add: strict_post_def)
  note ops = pruned_ops [OF pr]
  have e: "hgt st' = hgt ?st" "hsh st' = hsh ?st" "ident_at st' = ident_at ?st"
    using ops(1,8,9) by (auto simp: ident_at_def)
  have sub: "in_tree st' ?r n \<Longrightarrow> in_tree ?st ?r n" for n by (rule pruned_in_tree [OF pr])
  obtain xs where xs: "linked ?st ?r xs (ft_head ?t)" "drop (hgt ?st ?r) (canon (en_blocks eng)) = map (hsh ?st) xs"
    using ix by (auto simp: index_ok_def Let_def)
  have "linked st' ?r xs (ft_head ?t)"
    by (rule linked_pruned [OF pr tree_invD(1) [OF ti] tree_invD(1) [OF ti'] tree_invD(4) [OF ti'] xs(1)])
  then have "index_ok (eng\<lparr>en_store := st'\<rparr>)"
    using ix xs(2) e sub unfolding index_ok_def Let_def by auto
  moreover have "idents_ok ?t st'" using pe sub e unfolding persisted_def idents_ok_def by auto
  ultimately show ?thesis using pe strict_post_pruned [OF sp pr ti'] by (simp add: persisted_def)
qed

lemma branch_blocks_returns:
  assumes "tree_inv t st"
  shows "\<exists>r. branch_blocks t st hash = Some (Ok r)"
proof -
  obtain r where r: "tree_find t st hash = Some (Ok r)" "\<forall>n. r = Some n \<longleftrightarrow> in_tree st (ft_root t) n \<and> hsh st n = hash"
    using tree_find_spec [OF assms] by blast
  show ?thesis
  proof (cases r)
    case None
    then show ?thesis using r(1) by (simp add: branch_blocks_def)
  next
    case (Some n)
    then have "in_tree st (ft_root t) n" "hsh st n = hash" using r(2) by auto
    then show ?thesis using branch_blocks_spec [OF assms] by blast
  qed
qed

lemma persist_reorg_spec:
  assumes rd: "persist_ready ce pkg ins b (nd_eng nd)" and h: "ins_is_head ins"
  shows "do_commit_reorg io = Ok () \<Longrightarrow>
      \<exists>nd'. persist_reorg ce io pkg prev nd = Some (Ok (), nd') \<and> persisted ce ins (nd_eng nd') \<and> nd_life nd' = nd_life nd"
    and "do_commit_reorg io = Inl (Error k m c) \<Longrightarrow> \<exists>e. persist_reorg ce io pkg prev nd = Some (Inl (persist_fatal e), nd) \<and> e = Error k m c"
proof -
  let ?eng = "nd_eng nd" let ?t = "en_tree ?eng" and ?st = "en_store ?eng"
  obtain xs bs' where rh: "root_height ?t ?st = Ok (hgt ?st (ft_root ?t))"
    and bh: "back_hashes ?t ?st (pk_height pkg - hgt ?st (ft_root ?t)) = Ok (rev (map (\<lambda>k. (hgt ?st k, hsh ?st k)) xs))"
    and cr: "commit_reorg (Ok ()) (en_blocks ?eng) (pk_height pkg) (pk_hash pkg) (pk_data pkg)
        (map (\<lambda>k. (hgt ?st k, hsh ?st k)) xs) = Ok bs'"
    and pe: "persisted ce ins (?eng\<lparr>en_blocks := bs'\<rparr>)"
    using reorg_persisted [OF rd h, of "pk_data pkg"] by blast
  have sp: "tree_inv ?t ?st" "kids_distinct ?st" using rd by (simp_all add: persist_ready_def Let_def strict_post_def)
  {
    assume w: "do_commit_reorg io = Ok ()"
    obtain br where br: "branch_blocks ?t ?st prev = Some (Ok br)" using branch_blocks_returns [OF sp(1)] by blast
    obtain st' where st': "enforce_side_capacity ?t ?st (ce_side_tree_capacity ce) = Some (Ok st')" "pruned ?st st'" "tree_inv ?t st'"
      using enforce_side_capacity_spec [OF sp, of "ce_side_tree_capacity ce"] by blast
    let ?rep = "map blk_hash (filter (\<lambda>blk. hgt ?st (ft_root ?t) < blk_height blk \<and>
        blk_hash blk \<notin> set (map snd (map (\<lambda>k. (hgt ?st k, hsh ?st k)) xs))) (case br of Some bs \<Rightarrow> bs | None \<Rightarrow> []))"
    let ?e1 = "side_append_many (do_hint_sent io) (?eng\<lparr>en_blocks := bs'\<rparr>) ?rep"
    have c1: "same_core (?eng\<lparr>en_blocks := bs'\<rparr>) ?e1"
      by (simp add: side_append_many_def side_append_def same_core_def)
    then have t1: "en_tree ?e1 = ?t" "en_store ?e1 = ?st" by (simp_all add: same_core_def)
    have p1: "persisted ce ins ?e1" using pe persisted_core [OF c1] by simp
    have "persisted ce ins (?e1\<lparr>en_store := st'\<rparr>)"
      by (rule persisted_pruned [OF p1]) (use st'(2,3) t1 in simp_all)
    moreover have "persist_reorg ce io pkg prev nd = Some (Ok (), nd\<lparr>nd_eng := ?e1\<lparr>en_store := st'\<rparr>\<rparr>)"
      using rh bh cr w br st'(1) by (simp add: persist_reorg_def Let_def map_err_def image_image)
    ultimately show "\<exists>nd'. persist_reorg ce io pkg prev nd = Some (Ok (), nd') \<and> persisted ce ins (nd_eng nd') \<and>
        nd_life nd' = nd_life nd" by simp
  next
    assume w: "do_commit_reorg io = Inl (Error k m c)"
    have "commit_reorg (Inl (Error k m c)) (en_blocks ?eng) (pk_height pkg) (pk_hash pkg) (pk_data pkg)
        (map (\<lambda>k. (hgt ?st k, hsh ?st k)) xs) = Inl (Error k m c)"
      using cr by (auto simp: commit_reorg_def split: if_splits)
    then show "\<exists>e. persist_reorg ce io pkg prev nd = Some (Inl (persist_fatal e), nd) \<and> e = Error k m c"
      using rh bh w by (simp add: persist_reorg_def Let_def map_err_def)
  }
qed

lemma roll_kids:
  assumes "roll_root t st disk w job = Some (Ok (t', st'))" "kids_distinct st"
  shows "kids_distinct st'"
proof -
  from assms(1) obtain f d where pr: "promote_to_root (st\<lparr>cs_disk := f\<rparr>) (rj_new_root job) d = Ok st'"
    unfolding roll_root_def commit_roll_def by (auto simp: Let_def split: if_splits option.splits)
  show ?thesis
    using pr assms(2) by (auto simp: promote_to_root_def kids_distinct_def split: if_splits source.splits)
qed

lemma keeps_ident:
  assumes "keeps st st'" "chunk_wf st'" "n < cs_next st" "block_chunk st' n"
  shows "ident_at st' n = ident_at st n"
proof -
  from assms(4) obtain c' where c': "cs_chunk st' n = Some c'" by (auto simp: block_chunk_def)
  obtain c where "cs_chunk st n = Some c" "ch_origin c' = ch_origin c"
    using assms(1,3) c' unfolding keeps_def by blast
  then show ?thesis using c' by (simp add: ident_at_def origin_at_def)
qed

lemma stable_of_spec: "(\<And>n. n \<in> set ns \<Longrightarrow> block_chunk st n) \<Longrightarrow> stable_of st ns = Ok (map (\<lambda>k. (hgt st k, hsh st k)) ns)"
  by (induction ns) (simp_all add: block_chunk_ops)

lemma roll_persisted:
  assumes pe: "persisted ce ins eng" and job: "ins_roll ins = Some job"
  shows "\<exists>t' st' stable. roll_root (en_tree eng) (en_store eng) (ce_disk ce) (Ok ()) job = Some (Ok (t', st')) \<and>
    stable_of st' (rj_chain job) = Ok stable \<and> chain_ok ce (eng\<lparr>en_tree := t', en_store := st', en_root_available := True\<rparr>)"
proof -
  let ?t = "en_tree eng" and ?st = "en_store eng" and ?bs = "en_blocks eng"
  let ?r = "ft_root ?t" and ?n = "rj_new_root job"
  have sp: "strict_post (ce_unstable_block ce) (ce_disk ce) ins ?t ?st" and w: "0 < ce_unstable_block ce"
    and ids: "idents_ok ?t ?st" and ix: "index_ok eng" using pe by (simp_all add: persisted_def)
  have ti: "tree_inv ?t ?st" and cl: "childless ?st" and du: "durable_root ?st ?r (ce_disk ce)" and kd: "kids_distinct ?st"
    and pl: "planned_roll ?st ?r (ft_head ?t) 1 job" "ft_scheduled_root ?t = ?n"
      "hgt ?st (ft_head ?t) \<le> hgt ?st ?n + ce_unstable_block ce"
    using sp job by (simp_all add: strict_post_def)
  obtain st' where r: "roll_root ?t ?st (ce_disk ce) (Ok ()) job = Some (Ok (?t\<lparr>ft_root := ?n\<rparr>, st'))"
    and si: "strict_inv (ce_unstable_block ce) (ce_disk ce) (?t\<lparr>ft_root := ?n\<rparr>) st'"
    by (rule strict_roll [OF ti cl du pl])
  have "roll_result ?t ?st (ce_disk ce) job st'"
    using roll_root_spec [OF ti du pl(1)] pl(2) r by auto
  then have hg: "hgt st' = hgt ?st" "hsh st' = hsh ?st" and cr: "child_rel st' = child_rel ?st" and kp: "keeps ?st st'"
    by (simp_all add: roll_result_def)
  let ?t' = "?t\<lparr>ft_root := ?n\<rparr>"
  have ti': "tree_inv ?t' st'" using si by (simp add: strict_inv_def)
  have link: "linked st' a xs n = linked ?st a xs n" for a xs n
    by (induction xs arbitrary: a) (simp_all add: cr)
  have rn: "in_tree ?st ?r ?n" using tree_invD(5) [OF ti] pl(2) by simp
  have it: "in_tree ?st ?r n" if "in_tree st' ?n n" for n using that rn unfolding cr by simp
  have "ident_at st' n = ident_at ?st n" if "in_tree st' ?n n" for n
    by (rule keeps_ident [OF kp tree_invD(3) [OF ti'] in_tree_old [OF ti it [OF that]]])
      (use tree_inv_block [OF ti'] that in simp)
  then have ids': "idents_ok ?t' st'" using ids it hg unfolding idents_ok_def by simp
  obtain xs where xs: "linked ?st ?r xs (ft_head ?t)" "drop (hgt ?st ?r) (canon ?bs) = map (hsh ?st) xs"
    using ix by (auto simp: index_ok_def Let_def)
  have ch: "linked ?st ?r (rj_chain job) ?n" "hgt ?st ?n = hgt ?st ?r + 1" "in_tree ?st ?n (ft_head ?t)"
    using pl(1) by (simp_all add: planned_roll_def)
  have "length (rj_chain job) = 1" using linked_height [OF tree_invD(1) [OF ti] _ ch(1)] ch(2) by simp
  then have chain: "rj_chain job = [?n]" using ch(1) by (cases "rj_chain job") auto
  obtain ys where ys: "linked ?st ?n ys (ft_head ?t)"
    using chain_loop_spec [OF tree_invD(1) [OF ti'] tree_invD(4) [OF ti'], of "[]"] link by auto
  have "linked ?st ?r (?n # ys) (ft_head ?t)" using ch(1) ys chain by simp
  then have "xs = ?n # ys" using linked_unique [OF tree_invD(1) [OF ti] xs(1)] by simp
  then have dr: "drop (hgt ?st ?r) (canon ?bs) = hsh ?st ?n # map (hsh ?st) ys" using xs(2) by simp
  then have d1: "canon ?bs ! hgt ?st ?r = hsh ?st ?n" "drop (hgt ?st ?r + 1) (canon ?bs) = map (hsh ?st) ys"
    by (metis hd_drop_conv_nth list.sel(1) drop_eq_Nil2 list.distinct(1) not_le,
        metis drop_Suc list.sel(3) tl_drop Suc_eq_plus1)
  have nr: "k \<noteq> ?r" if "in_tree st' ?n k" for k
    using in_tree_le [OF that tree_invD(2) [OF ti']] child_rel_less(1) [OF tree_invD(2) [OF ti], of ?r ?n] ch(1) chain by auto
  have ix': "index_ok (eng\<lparr>en_tree := ?t', en_store := st', en_root_available := True\<rparr>)"
    using ix d1 ch(2) ys it nr unfolding index_ok_def Let_def by (auto simp: hg link)
  have "chain_ok ce (eng\<lparr>en_tree := ?t', en_store := st', en_root_available := True\<rparr>)"
    using si roll_kids [OF r kd] w ids' ix' by (simp add: chain_ok_def chain_inv_def)
  moreover have "stable_of st' (rj_chain job) = Ok (map (\<lambda>k. (hgt st' k, hsh st' k)) [?n])"
    unfolding chain by (rule stable_of_spec) (use tree_inv_block [OF ti', of ?n] in simp)
  ultimately show ?thesis using r by blast
qed

section \<open>The outcome of persistence\<close>

text \<open>A disk write returns: it succeeds or fails with an error.\<close>

definition returns :: "unit ret \<Rightarrow> bool" where
  "returns r \<longleftrightarrow> (\<forall>m. r \<noteq> Inl (Panic m))"

definition writes_return :: "disk_outcomes \<Rightarrow> bool" where
  "writes_return io \<longleftrightarrow>
     returns (do_put_block io) \<and> returns (do_put_available io) \<and> returns (do_commit_reorg io) \<and> returns (do_root_write io)"

definition writes_succeed :: "disk_outcomes \<Rightarrow> bool" where
  "writes_succeed io \<longleftrightarrow>
     do_put_block io = Ok () \<and> do_put_available io = Ok () \<and> do_commit_reorg io = Ok () \<and> do_root_write io = Ok ()"

definition stopped :: "node \<Rightarrow> bool" where
  "stopped nd \<longleftrightarrow> nd_life nd \<in> {LIFE_FATAL, LIFE_STOPPING, LIFE_STOPPED}"

lemma returnsE:
  assumes "returns r"
  obtains "r = Ok ()" | k m c where "r = Inl (Error k m c)"
proof (cases r)
  case (Inl e)
  then show ?thesis using assms that by (cases e) (auto simp: returns_def)
qed (use that in simp)

text \<open>A result of a stage: the chain is consistent, or an error goes to the boundary.\<close>

definition stage_ok :: "chain_env \<Rightarrow> disk_outcomes \<Rightarrow> ('a ret \<times> node) option \<Rightarrow> bool" where
  "stage_ok ce io x \<longleftrightarrow>
     (\<exists>r nd. x = Some (r, nd) \<and>
        (chain_ok ce (nd_eng nd) \<or> \<not> writes_succeed io \<and> (\<exists>k m c. r = Inl (Error k m c))))"

lemma persisted_done: "persisted ce ins eng \<Longrightarrow> ins_roll ins = None \<Longrightarrow> chain_ok ce eng"
  by (simp add: persisted_def chain_ok_def chain_inv_def strict_post_def)

lemma persist_fatal_Error: "\<exists>k' m' c'. persist_fatal (Error k m c) = Error k' m' c'"
  by (simp add: persist_fatal_def)

lemma roll_stage_ok:
  assumes pe: "persisted ce ins (nd_eng nd)" and job: "ins_roll ins = Some job" and io: "writes_return io"
  shows "stage_ok ce io (engine_roll_root ce io cb replay policy job nd)"
proof -
  let ?eng = "nd_eng nd"
  obtain t' st' stable where r: "roll_root (en_tree ?eng) (en_store ?eng) (ce_disk ce) (Ok ()) job = Some (Ok (t', st'))"
    and s: "stable_of st' (rj_chain job) = Ok stable"
    and ok: "chain_ok ce (?eng\<lparr>en_tree := t', en_store := st', en_root_available := True\<rparr>)"
    using roll_persisted [OF pe job] by blast
  have "returns (do_root_write io)" using io by (simp add: writes_return_def)
  then show ?thesis
  proof (cases rule: returnsE)
    case 1
    let ?nd = "nd\<lparr>nd_eng := ?eng\<lparr>en_tree := t', en_store := st', en_root_available := True\<rparr>\<rparr>"
    obtain q nd' where q: "notify_stable cb replay policy stable ?nd = (q, nd')"
      by (cases "notify_stable cb replay policy stable ?nd")
    have "same_core (nd_eng ?nd) (nd_eng nd')" using notify_stable_core [of ?nd cb replay policy stable] q by simp
    then have "chain_ok ce (nd_eng nd')" using ok chain_ok_core by simp
    moreover have "\<exists>r. engine_roll_root ce io cb replay policy job nd = Some (r, nd')"
      using r s q 1 by (cases q) (simp_all add: engine_roll_root_def Let_def)
    ultimately show ?thesis by (auto simp: stage_ok_def)
  next
    case (2 k m c)
    have "roll_root (en_tree ?eng) (en_store ?eng) (ce_disk ce) (do_root_write io) job = Some (Inl (persist_fatal (Error k m c)))"
      using r 2 by (auto simp: roll_root_def map_err_ro_def Let_def split: option.splits sum.splits)
    then show ?thesis
      using 2 persist_fatal_Error [of k m c] by (auto simp: stage_ok_def engine_roll_root_def Let_def writes_succeed_def)
  qed
qed

lemma persist_stage_ok:
  assumes rd: "persist_ready ce pkg ins b (nd_eng nd)" and l: "length (pk_hash pkg) = 32"
    and job: "aa_pkg job = pkg" "aa_inserted job = ins" "aa_persist_body job" and io: "writes_return io"
  shows "stage_ok ce io (persist_stage ce io cb policy job nd)"
proof -
  have rest: "stage_ok ce io (case ins_roll ins of Some roll \<Rightarrow> engine_roll_root ce io cb (\<not> aa_persist_body job) policy roll nd'
      | None \<Rightarrow> Some (Ok 0, nd'))" if "persisted ce ins (nd_eng nd')" for nd'
    using roll_stage_ok [OF that _ io] persisted_done [OF that] by (auto simp: stage_ok_def split: option.split)
  have w: "returns (do_commit_reorg io)" "returns (do_put_available io)" using io by (simp_all add: writes_return_def)
  have fail: "stage_ok ce io (Some (Inl (persist_fatal (Error k m c)), nd))" if "\<not> writes_succeed io" for k m c
    using that persist_fatal_Error [of k m c] by (auto simp: stage_ok_def)
  note st = persist_stage_def Let_def job(1,2) bind_st_simps
  consider (side) "\<not> ins_is_head ins" | (reorg) "ins_is_head ins" "ins_reorg ins" | (extend) "ins_is_head ins" "\<not> ins_reorg ins"
    by blast
  then show ?thesis
  proof cases
    case side
    have "persisted ce ins (nd_eng nd)" using rd side by (simp add: persist_ready_def persisted_def Let_def)
    then show ?thesis using rest side by (simp add: st job(3))
  next
    case reorg
    from w(1) show ?thesis
    proof (cases rule: returnsE)
      case 1
      then obtain nd' where "persist_reorg ce io pkg (aa_prev_head job) nd = Some (Ok (), nd')" "persisted ce ins (nd_eng nd')"
        using persist_reorg_spec(1) [OF rd reorg(1)] by blast
      then show ?thesis using rest reorg by (simp add: st job(3))
    next
      case (2 k m c)
      then have "persist_reorg ce io pkg (aa_prev_head job) nd = Some (Inl (persist_fatal (Error k m c)), nd)"
        using persist_reorg_spec(2) [OF rd reorg(1)] by blast
      moreover have "\<not> writes_succeed io" using 2 by (simp add: writes_succeed_def)
      ultimately show ?thesis using fail reorg by (simp add: st job(3))
    qed
  next
    case extend
    obtain bs' where bs': "put_block_available (Ok ()) (en_blocks (nd_eng nd)) (pk_height pkg) (pk_hash pkg) (pk_data pkg) = Ok bs'"
      "persisted ce ins (nd_eng nd\<lparr>en_blocks := bs'\<rparr>)"
      using extend_persisted [OF rd extend l] by blast
    from w(2) show ?thesis
    proof (cases rule: returnsE)
      case 1
      then show ?thesis using bs' rest [of "nd\<lparr>nd_eng := nd_eng nd\<lparr>en_blocks := bs'\<rparr>\<rparr>"] extend by (simp add: st job(3) map_err_def)
    next
      case (2 k m c)
      then have "put_block_available (do_put_available io) (en_blocks (nd_eng nd)) (pk_height pkg) (pk_hash pkg) (pk_data pkg) =
          Inl (Error k m c)"
        using bs'(1) by (auto simp: put_block_available_def Let_def split: if_splits)
      moreover have "\<not> writes_succeed io" using 2 by (simp add: writes_succeed_def)
      ultimately show ?thesis using fail extend by (simp add: st job(3) map_err_def)
    qed
  qed
qed

text \<open>The result of an operation on the node: a consistent chain, unless a write failed and the engine stopped.\<close>

definition node_ok :: "chain_env \<Rightarrow> disk_outcomes \<Rightarrow> ('a ret \<times> node) option \<Rightarrow> bool" where
  "node_ok ce io x \<longleftrightarrow>
     (\<exists>r nd. x = Some (r, nd) \<and> (chain_ok ce (nd_eng nd) \<or> \<not> writes_succeed io \<and> stopped nd))"

lemma stopped_PostAttach: "stopped (handle_error PostAttach (Error k m c) nd)"
  by (auto simp: handle_error_def mark_fatal_def stopped_def split: lifecycle.split)

lemma persist_one_ok:
  assumes "stage_ok ce io (persist_stage ce io cb policy job nd)"
  shows "node_ok ce io (persist_one ce io cb policy job nd)"
proof -
  from assms obtain r nd1 where s: "persist_stage ce io cb policy job nd = Some (r, nd1)"
    and ok: "chain_ok ce (nd_eng nd1) \<or> \<not> writes_succeed io \<and> (\<exists>k m c. r = Inl (Error k m c))"
    by (auto simp: stage_ok_def)
  show ?thesis
  proof (cases r)
    case (Inl e)
    then have "persist_one ce io cb policy job nd = Some (Inl e, handle_error PostAttach e nd1)"
      using s by (simp add: persist_one_def)
    then show ?thesis using ok Inl stopped_PostAttach by (auto simp: node_ok_def)
  next
    case (Inr n)
    then have c: "chain_ok ce (nd_eng nd1)" using ok by auto
    obtain q nd2 where q: "publish_accepted cb policy job nd1 = (q, nd2)" by (cases "publish_accepted cb policy job nd1")
    then have "chain_ok ce (nd_eng nd2)" using c publish_core [of cb policy job nd1] by simp
    moreover have "\<exists>r. persist_one ce io cb policy job nd = Some (r, nd2)"
      using s Inr q by (cases q) (simp_all add: persist_one_def)
    ultimately show ?thesis by (auto simp: node_ok_def)
  qed
qed

section \<open>A block from the network\<close>

lemma persist_ready_core:
  assumes "same_core a b"
  shows "persist_ready ce pkg ins n b \<longleftrightarrow> persist_ready ce pkg ins n a"
proof -
  have "index_ok b \<longleftrightarrow> index_ok a" using assms by (simp add: same_core_def index_ok_def)
  then show ?thesis using assms unfolding persist_ready_def same_core_def by (simp only:)
qed

lemma discover_ok:
  assumes ok: "chain_ok ce (nd_eng nd)" and co: "tx_contract (ce_services ce) eff"
    and pk: "pk_hash pkg = blk_hash (pk_obj pkg)" "length (pk_hash pkg) = 32" "pk_height pkg + ce_unstable_block ce < 2 ^ 64"
    and io: "writes_return io"
  shows "node_ok ce io (discover ce io cb pkg nd)"
proof -
  let ?eng = "nd_eng nd"
  have inv: "chain_inv ce ?eng" using ok by (simp add: chain_ok_def)
  have stay: "node_ok ce io (Some (r, nd'))" if "nd_eng nd' = ?eng" for r nd' using that ok by (auto simp: node_ok_def)
  obtain q where q: "insert_block ce io ?eng pkg Strict True = Some q"
    "\<forall>res eng'. q = Ok (res, eng') \<longrightarrow> outcome_ok ce eff ?eng pkg True res eng'"
    using insert_strict_outcome [OF inv co pk(1,3)] by blast
  obtain known where known: "contains (en_tree ?eng) (en_store ?eng) (blk_prev_hash (pk_obj pkg)) = Some (Ok known)"
    using tree_find_spec [OF chain_invD(4) [OF inv], of "blk_prev_hash (pk_obj pkg)"] by (auto simp: contains_def)
  have main: "node_ok ce io (case prepare_one ce io pkg Strict True ?eng of
       None \<Rightarrow> None
     | Some (Inl e) \<Rightarrow> Some (Inl e, handle_error PreAttach e nd)
     | Some (Inr (res, eng)) \<Rightarrow>
         let nd = nd\<lparr>nd_eng := eng\<rparr>
         in (case res of
               Accepted job \<Rightarrow>
                 bind_st (persist_one ce io cb KeepAccepted job nd) (\<lambda>outcome nd. Some (Ok (po_result outcome), nd))
             | Duplicate hash \<Rightarrow> Some (Ok (RDuplicate hash), nd)
             | Orphan par \<Rightarrow> Some (Ok (ROrphan par), nd)
             | Discarded \<Rightarrow> Some (Ok RIgnored, nd)))"
  proof (cases q)
    case (Inl e)
    then show ?thesis using q(1) by (simp add: prepare_one_def stay)
  next
    case (Inr p)
    obtain res eng' where p: "p = (res, eng')" by (cases p)
    have out: "outcome_ok ce eff ?eng pkg True res eng'" using q(2) Inr p by simp
    show ?thesis
    proof (cases res)
      case (Accepted job)
      have ins: "inserted_ok ce eff ?eng pkg True job eng'" using out Accepted by (simp add: outcome_ok_def)
      then have j: "aa_pkg job = pkg" "aa_persist_body job" by (simp_all add: inserted_ok_def Let_def)
      obtain eng2 where e2: "prepare_one ce io pkg Strict True ?eng = Some (Ok (Accepted job, eng2))" "same_core eng' eng2"
        using q(1) Inr p Accepted
        by (cases "ins_is_head (aa_inserted job)") (simp_all add: prepare_one_def Let_def)
      have "persist_ready ce pkg (aa_inserted job) (cs_next (en_store ?eng)) eng'"
        by (rule insert_persist_ready [OF ok ins pk])
      then have rd: "persist_ready ce pkg (aa_inserted job) (cs_next (en_store ?eng)) (nd_eng (nd\<lparr>nd_eng := eng2\<rparr>))"
        using persist_ready_core [OF e2(2)] by simp
      have "node_ok ce io (persist_one ce io cb KeepAccepted job (nd\<lparr>nd_eng := eng2\<rparr>))"
        by (rule persist_one_ok [OF persist_stage_ok [OF rd pk(2) j(1) refl j(2) io]])
      then obtain r nd2 where r: "persist_one ce io cb KeepAccepted job (nd\<lparr>nd_eng := eng2\<rparr>) = Some (r, nd2)"
        "chain_ok ce (nd_eng nd2) \<or> \<not> writes_succeed io \<and> stopped nd2" by (auto simp: node_ok_def)
      then show ?thesis using e2(1) by (cases r) (auto simp: node_ok_def Let_def)
    qed (use q(1) Inr p out in \<open>auto simp: prepare_one_def outcome_ok_def Let_def stay\<close>)
  qed
  show ?thesis
    unfolding discover_def Let_def
    using main [unfolded Let_def] known
    by (cases "check_intrinsic (ce_mint_params ce) (length (pk_data pkg)) (pk_obj pkg)"; cases "cb_arrive cb pkg ?eng";
        cases "cb_admission cb pkg ?eng") (auto simp: stay split: admission.split)
qed

end
