(* ===== verification/StrictReach.thy ===== *)
theory StrictReach
  imports EngineProps
begin

text \<open>
  A running node in strict mode as a state machine over the fork tree, with every change the live code
  makes to it: a block begins execution and writes into its chunks, the executed block is attached
  after the range check, a side block and a reorganisation are followed by \<^verbatim>\<open>enforce_side_capacity\<close>
  (\<^verbatim>\<open>src/chain/src/apply.rs\<close>, \<^verbatim>\<open>src/chain/src/engine.rs\<close>), and a planned root advance is persisted
  (\<^verbatim>\<open>src/chain/src/persist.rs\<close>). Every reachable state satisfies \<open>strict_inv\<close> and holds at most the
  configured number of side blocks.
\<close>

section \<open>The state machine\<close>

text \<open>An insertion step is the three calls in the order of the code; a call that fails stops the node.\<close>

inductive strict_reach :: "nat \<Rightarrow> nat \<Rightarrow> nat \<Rightarrow> tree_inner \<Rightarrow> chunk_store \<Rightarrow> bool" for window capacity disk where
  reach_new: "tree_new (cs_empty disks) disk genesis = (t, st) \<Longrightarrow> strict_reach window capacity disk t st"
| reach_work: "strict_reach window capacity disk t st \<Longrightarrow> work_step t st st' \<Longrightarrow> strict_reach window capacity disk t st'"
| reach_insert: "strict_reach window capacity disk t st \<Longrightarrow> with_chunk st chunk block_height = Ok height \<Longrightarrow>
     insertable_height t st height = Ok () \<Longrightarrow> height + window < 2 ^ 64 \<Longrightarrow>
     attach t st ph chunk window = Some (Ok (ins, t1, st1)) \<Longrightarrow>
     (if ins_is_head ins \<and> \<not> ins_reorg ins then Some (Ok st1) else enforce_side_capacity t1 st1 capacity) = Some (Ok st2) \<Longrightarrow>
     (case ins_roll ins of None \<Rightarrow> Some (Ok (t1, st2)) | Some job \<Rightarrow> roll_root t1 st2 disk (Ok ()) job) = Some (Ok (t2, st3)) \<Longrightarrow>
     strict_reach window capacity disk t2 st3"

section \<open>Side blocks\<close>

lemma side_nodes_finite:
  assumes "tree_inv t st"
  shows "finite (side_nodes t st)"
proof (rule finite_subset)
  show "side_nodes t st \<subseteq> {..<cs_next st}"
    using tree_inv_block [OF assms] live_below_next [OF tree_invD(3) [OF assms]]
    by (auto simp: side_nodes_def block_chunk_def)
qed simp

lemma side_nodes_extend:
  assumes res: "attach_result t st par chunk window False ins t' st'" and par: "par = ft_head t" and h: "ins_is_head ins"
  shows "side_nodes t' st' \<subseteq> side_nodes t st"
  using res par h by (auto simp: attach_result_def side_nodes_def)

lemma side_nodes_roll:
  assumes "roll_result t st disk job st'" "in_tree st (ft_root t) (rj_new_root job)"
  shows "side_nodes (t\<lparr>ft_root := rj_new_root job\<rparr>) st' \<subseteq> side_nodes t st"
  using assms by (auto simp: roll_result_def side_nodes_def)

lemma side_nodes_work:
  assumes "work_step t st st'" "tree_inv t st" "childless st"
  shows "side_nodes t st' = side_nodes t st"
proof -
  note f = work_step_frame [OF assms(1-3)]
  have "in_tree st' a n \<longleftrightarrow> in_tree st a n" if "in_tree st (ft_root t) a" for a n
    by (rule frame_tree [OF f(3) that])
  then show ?thesis by (auto simp: side_nodes_def)
qed

section \<open>Distinct children\<close>

lemma kids_put:
  assumes "cs_chunk st i = Some c" "kids_distinct st" "ch_children c' = ch_children c"
  shows "kids_distinct (put_chunk st i c')"
  using assms by (auto simp: kids_distinct_def)

lemma kids_new: "new_chunk st org src = (i, st') \<Longrightarrow> kids_distinct st \<Longrightarrow> kids_distinct st'"
  by (auto simp: kids_distinct_def new_chunk_def with_body_def Let_def split: if_splits)

lemma kids_mutate:
  assumes "mutate_delta st i f = Ok st'" "kids_distinct st"
  shows "kids_distinct st'"
proof -
  from assms(1) obtain c d where "cs_chunk st i = Some c" "st' = put_chunk st i (c\<lparr>ch_body := Writable (f d)\<rparr>)"
    by (auto simp: mutate_delta_def split: option.splits)
  then show ?thesis using kids_put [OF _ assms(2)] by simp
qed

lemma kids_commit:
  assumes "commit_to_parent st i = Ok (p, st')" "kids_distinct st" "chunk_wf st"
  shows "kids_distinct st'"
proof -
  from assms(1) obtain c pc d where c: "cs_chunk st i = Some c" and pc: "cs_chunk st p = Some pc"
    and st': "st' = put_chunk (put_chunk st i (c\<lparr>ch_body := Consumed\<rparr>)) p (pc\<lparr>ch_body := d\<rparr>)"
    by (auto simp: commit_to_parent_def split: if_splits option.splits prod.splits)
  have k: "kids_distinct (put_chunk st i (c\<lparr>ch_body := Consumed\<rparr>))" by (rule kids_put [OF c assms(2)]) simp
  have "p \<noteq> i" using commit_spec(3) [OF assms(3,1)] by simp
  then have "cs_chunk (put_chunk st i (c\<lparr>ch_body := Consumed\<rparr>)) p = Some pc" using pc by simp
  from kids_put [OF this k] show ?thesis unfolding st' by simp
qed

lemma work_kids:
  assumes "work_step t st st'" "kids_distinct st" "chunk_wf st"
  shows "kids_distinct st'"
  using assms(1)
proof cases
  case (work_exec ph blk key r)
  then obtain par i where "block_exec_on st par blk key = Ok (i, st')"
    by (auto simp: begin_block_execution_pinned_def split: option.splits if_splits)
  then show ?thesis using kids_new [OF _ assms(2)] by (auto simp: block_exec_on_def Let_def split: if_splits)
next
  case (work_spawn_tx p h i)
  then show ?thesis using kids_new [OF _ assms(2)] by (auto simp: spawn_tx_child_def split: if_splits)
next
  case (work_spawn_ast p i)
  then show ?thesis using kids_new [OF _ assms(2)] by (auto simp: spawn_ast_child_def split: if_splits)
next
  case (work_commit i p)
  then show ?thesis using kids_commit assms(2,3) by blast
next
  case (work_discard i)
  then obtain c where "cs_chunk st i = Some c" "st' = put_chunk st i (c\<lparr>ch_body := Consumed\<rparr>)"
    by (auto simp: discard_def split: if_splits option.splits prod.splits)
  then show ?thesis using kids_put [OF _ assms(2)] by simp
next
  case (work_set i key v)
  then show ?thesis using kids_mutate [OF _ assms(2)] by (simp add: chunk_set_def)
next
  case (work_del i key)
  then show ?thesis using kids_mutate [OF _ assms(2)] by (simp add: chunk_del_def)
next
  case (work_log i entry)
  then show ?thesis using kids_mutate [OF _ assms(2)] by (simp add: emit_log_def)
next
  case (work_drop i)
  then show ?thesis using assms(2) by (auto simp: kids_distinct_def drop_chunk_def split: if_splits)
qed

lemma writable_no_parent:
  assumes "store_typed st" "cs_chunk st b = Some c" "ch_body c = Writable d"
  shows "\<not> child_rel st a b"
  using assms by (fastforce simp: store_typed_def child_rel_def attached_def)

section \<open>Reachable states\<close>

lemma insert_step:
  assumes inv: "strict_inv window disk t st" "kids_distinct st" and cap: "card (side_nodes t st) \<le> capacity"
    and w: "0 < window"
    and h: "with_chunk st chunk block_height = Ok height" "insertable_height t st height = Ok ()" "height + window < 2 ^ 64"
    and at: "attach t st ph chunk window = Some (Ok (ins, t1, st1))"
    and ev: "(if ins_is_head ins \<and> \<not> ins_reorg ins then Some (Ok st1) else enforce_side_capacity t1 st1 capacity) = Some (Ok st2)"
  shows "strict_post window disk ins t1 st2 \<and> card (side_nodes t1 st2) \<le> capacity"
proof -
  have ti: "tree_inv t st" and cl: "childless st" and sc: "ft_scheduled_root t = ft_root t"
    using inv(1) by (auto simp: strict_inv_def)
  note sa = strict_attach [OF inv(1) w h at]
  have range: "hgt st (ft_root t) < height"
    using h(2) block_chunk_ops(1) [OF tree_inv_block [OF ti]] tree_invD(4) [OF ti]
    by (auto simp: insertable_height_def root_height_def head_height_def split: if_splits)
  obtain par where par: "ph = hsh st par" "attachable t st par chunk window False"
    by (rule attach_Ok_attachable [OF ti cl sc w _ at]) (use range h(3) in auto)
  have res: "attach_result t st par chunk window False ins t1 st1"
    using attach_inner_spec [OF ti par(2)] at par(1) by (auto simp: attach_def)
  from par(2) obtain cc d where "cs_chunk st chunk = Some cc" "ch_body cc = Writable d"
    by (auto simp: attachable_def ready_block_def)
  then have kd: "kids_distinct st1"
    by (intro attach_kids [OF at tree_invD(3) [OF ti] inv(2)] writable_no_parent [OF tree_invD(2) [OF ti]])
  then have sp: "strict_post window disk ins t1 st1"
    using sa by (auto simp: strict_post_def split: option.split)
  show ?thesis
  proof (cases "ins_is_head ins \<and> \<not> ins_reorg ins")
    case True
    have ip: "in_tree st (ft_root t) par" using par(2) by (simp add: attachable_def)
    have "ins_reorg ins \<longleftrightarrow> ins_is_head ins \<and> par \<noteq> ft_head t"
      by (rule attach_reorg [OF at]) (use tree_find_node [OF ti ip] par(1) in simp)
    then have "side_nodes t1 st1 \<subseteq> side_nodes t st" using side_nodes_extend [OF res] True by simp
    then have "card (side_nodes t1 st1) \<le> card (side_nodes t st)" by (rule card_mono [OF side_nodes_finite [OF ti]])
    then show ?thesis using ev True sp cap by simp
  next
    case False
    then have "enforce_side_capacity t1 st1 capacity = Some (Ok st2)" using ev by (simp only: False if_False)
    with enforce_side_capacity_spec [OF sa(1) kd, of capacity]
    have "pruned st1 st2" "tree_inv t1 st2" "card (side_nodes t1 st2) \<le> capacity" by auto
    then show ?thesis using strict_post_pruned [OF sp] by simp
  qed
qed

lemma root_step:
  assumes sp: "strict_post window disk ins t st" and cap: "card (side_nodes t st) \<le> capacity"
    and r: "(case ins_roll ins of None \<Rightarrow> Some (Ok (t, st)) | Some job \<Rightarrow> roll_root t st disk (Ok ()) job) = Some (Ok (t', st'))"
  shows "strict_inv window disk t' st' \<and> kids_distinct st' \<and> card (side_nodes t' st') \<le> capacity"
proof (cases "ins_roll ins")
  case None
  then show ?thesis using sp cap r by (simp add: strict_post_def)
next
  case (Some job)
  then have ti: "tree_inv t st" and cl: "childless st" and du: "durable_root st (ft_root t) disk" and kd: "kids_distinct st"
    and pl: "planned_roll st (ft_root t) (ft_head t) 1 job" "ft_scheduled_root t = rj_new_root job"
      "hgt st (ft_head t) \<le> hgt st (rj_new_root job) + window"
    using sp by (simp_all add: strict_post_def)
  have rr: "roll_root t st disk (Ok ()) job = Some (Ok (t', st'))" using r Some by simp
  obtain s where s: "roll_root t st disk (Ok ()) job = Some (Ok (t\<lparr>ft_root := rj_new_root job\<rparr>, s))"
    "strict_inv window disk (t\<lparr>ft_root := rj_new_root job\<rparr>) s"
    by (rule strict_roll [OF ti cl du pl])
  have eq: "t' = t\<lparr>ft_root := rj_new_root job\<rparr>" "s = st'" using s(1) rr by auto
  have "roll_result t st disk job st'" using roll_root_spec [OF ti du pl(1)] rr pl(2) by auto
  then have "side_nodes t' st' \<subseteq> side_nodes t st"
    unfolding eq(1) by (rule side_nodes_roll) (use tree_invD(5) [OF ti] pl(2) in simp)
  then have "card (side_nodes t' st') \<le> card (side_nodes t st)" by (rule card_mono [OF side_nodes_finite [OF ti]])
  then show ?thesis using s(2) eq roll_kids [OF rr kd] cap by simp
qed

lemma new_sides:
  assumes "tree_new (cs_empty disks) disk genesis = (t, st)"
  shows "kids_distinct st \<and> side_nodes t st = {}"
proof -
  have c: "\<exists>c. cs_chunk st = [0 \<mapsto> c] \<and> ch_children c = []" and t: "ft_root t = 0" "ft_head t = 0"
    using assms by (auto simp: tree_new_def root_chunk_def new_root_def with_body_def cs_empty_def Let_def)
  then have "\<not> child_rel st a b" for a b by (auto simp: child_rel_def split: if_splits)
  then have "in_tree st a b \<longleftrightarrow> a = b" for a b by (metis converse_rtranclpE rtranclp.rtrancl_refl)
  then show ?thesis using c t by (auto simp: side_nodes_def kids_distinct_def split: if_splits)
qed

lemma strict_reach_inv:
  assumes "0 < window"
  shows "strict_reach window capacity disk t st \<Longrightarrow>
    strict_inv window disk t st \<and> kids_distinct st \<and> card (side_nodes t st) \<le> capacity"
proof (induction rule: strict_reach.induct)
  case (reach_new disks genesis t st)
  then show ?case using tree_new_inv new_sides by simp
next
  case (reach_work t st st')
  then have i: "strict_inv window disk t st" "strict_inv window disk t st'" using work_strict_inv by blast+
  then have "side_nodes t st' = side_nodes t st"
    using side_nodes_work [OF reach_work.hyps(2)] by (simp add: strict_inv_def)
  moreover have "kids_distinct st'"
    by (rule work_kids [OF reach_work.hyps(2)]) (use reach_work.IH i(1) tree_invD(3) in \<open>auto simp: strict_inv_def\<close>)
  ultimately show ?case using i reach_work.IH by simp
next
  case (reach_insert t st chunk height ph ins t1 st1 st2 t2 st3)
  then have "strict_post window disk ins t1 st2 \<and> card (side_nodes t1 st2) \<le> capacity"
    using insert_step [OF _ _ _ assms reach_insert.hyps(2-6)] by blast
  with root_step reach_insert.hyps(7) show ?case by blast
qed

end
