(* ===== verification/ChainScenario.thy ===== *)
theory ChainScenario
  imports StrictChain
begin

text \<open>
  A small chain for the examples: a genesis block on an empty disk and one block executing on it,
  with chunk 0 the root and chunk 1 the block.
\<close>

definition genesis :: block_ref where
  "genesis = \<lparr>blk_height = 0, blk_hash = [1], blk_prev_hash = [], blk_timestamp = 100\<rparr>"

definition block_one :: block_ref where
  "block_one = \<lparr>blk_height = 1, blk_hash = [2], blk_prev_hash = [1], blk_timestamp = 200\<rparr>"

definition demo_disks :: "nat \<Rightarrow> layer" where
  "demo_disks = (\<lambda>_ _. Ok None)"

definition demo_tree :: tree_inner where
  "demo_tree = fst (tree_new (cs_empty demo_disks) 0 genesis)"

definition demo_st0 :: chunk_store where
  "demo_st0 = snd (tree_new (cs_empty demo_disks) 0 genesis)"

definition root_demo_chunk :: chunk where
  "root_demo_chunk = \<lparr>ch_origin = OBlock 0 (Some \<lparr>bid_hash = [1], bid_block = genesis,
      bid_fork_choice = fck_from_height 0\<rparr>), ch_source = Disk 0, ch_body = Frozen delta_default, ch_children = []\<rparr>"

definition block_demo_chunk :: chunk where
  "block_demo_chunk = \<lparr>ch_origin = OBlock 1 (Some \<lparr>bid_hash = [2], bid_block = block_one,
      bid_fork_choice = fck_from_height 1\<rparr>), ch_source = Parent 0, ch_body = Writable delta_default, ch_children = []\<rparr>"

definition demo_st1 :: chunk_store where
  "demo_st1 = \<lparr>cs_next = 2, cs_chunk = [0 \<mapsto> root_demo_chunk, 1 \<mapsto> block_demo_chunk], cs_disk = demo_disks\<rparr>"

lemma demo_start:
  "demo_tree = \<lparr>ft_root = 0, ft_scheduled_root = 0, ft_head = 0, ft_epoch = 0\<rparr>"
  "demo_st0 = \<lparr>cs_next = 1, cs_chunk = [0 \<mapsto> root_demo_chunk], cs_disk = demo_disks\<rparr>"
  by (simp_all add: demo_tree_def demo_st0_def tree_new_def root_chunk_def new_root_def with_body_def
      cs_empty_def Let_def genesis_def root_demo_chunk_def)

lemma demo_begin:
  "begin_block_execution_pinned demo_tree demo_st0 [1] block_one (fck_from_height 1) = Some (Ok (Some (1, 0, 0), demo_st1))"
  by (simp add: begin_block_execution_pinned_def tree_find_def hash_of_def identity_of_def height_of_def
      demo_start root_demo_chunk_def block_height_def block_identity_of_def origin_block_height_def
      origin_block_identity_def expect_def block_one_def block_exec_on_def is_block_def new_chunk_def
      with_body_def Let_def demo_st1_def block_demo_chunk_def)

lemma demo_new: "tree_new (cs_empty demo_disks) 0 genesis = (demo_tree, demo_st0)"
  by (simp add: demo_tree_def demo_st0_def)

lemma demo_chunk_reach: "chunk_reach demo_st1"
proof -
  have "new_root (cs_empty demo_disks) 0 genesis = (0, demo_st0)"
    using demo_new by (simp add: tree_new_def root_chunk_def demo_start split: prod.splits)
  then have "chunk_step (cs_empty demo_disks) demo_st0" by (rule step_root)
  moreover have "block_exec_on demo_st0 0 block_one (fck_from_height 1) = Ok (1, demo_st1)"
    by (simp add: demo_start root_demo_chunk_def block_exec_on_def is_block_def new_chunk_def block_one_def
      with_body_def Let_def demo_st1_def block_demo_chunk_def)
  then have "chunk_step demo_st0 demo_st1" by (rule step_exec)
  ultimately show ?thesis using chunk_reach_step chunk_reach_empty by blast
qed

lemma demo_strict_inv: "strict_inv 1 0 demo_tree demo_st1"
  by (rule work_strict_inv [OF tree_new_inv [OF demo_new] work_exec [OF demo_begin]])

lemma demo_no_child: "\<not> child_rel demo_st1 a b"
  by (auto simp: child_rel_def demo_st1_def root_demo_chunk_def block_demo_chunk_def split: if_splits)

lemma demo_in_tree [simp]: "in_tree demo_st1 a b \<longleftrightarrow> a = b"
  by (metis converse_rtranclpE demo_no_child rtranclp.rtrancl_refl)

lemma demo_at [simp]:
  "hgt demo_st1 0 = 0" "hgt demo_st1 (Suc 0) = 1" "hsh demo_st1 0 = [1]" "hsh demo_st1 (Suc 0) = [2]"
  "fkey demo_st1 0 = fck_from_height 0" "fkey demo_st1 (Suc 0) = fck_from_height 1"
  by (simp_all add: hgt_def hsh_def fkey_def ident_at_def origin_at_def demo_st1_def root_demo_chunk_def
      block_demo_chunk_def origin_block_height_def origin_block_identity_def)

lemma demo_keys: "fck_less (fck_from_height 0) (fck_from_height 1)"
proof -
  have n8: "(8::nat) = Suc (Suc (Suc (Suc (Suc (Suc (Suc (Suc 0)))))))" by simp
  show ?thesis unfolding fck_less_def fck_from_height_def n8 by simp
qed

lemma demo_attachable: "attachable demo_tree demo_st1 0 1 1 linear"
  using demo_keys
  by (simp add: attachable_def demo_start ready_block_def)
    (simp add: demo_st1_def block_demo_chunk_def)

lemma demo_spawn: "\<exists>st. spawn_tx_child demo_st1 1 [7] = Ok (2, st)"
  by (simp add: spawn_tx_child_def demo_st1_def block_demo_chunk_def is_block_def is_writable_def
      new_chunk_def with_body_def Let_def)

text \<open>The block attached by fast sync with a window of one block plans the root advance to itself.\<close>

lemma demo_roll:
  "\<exists>t st job. tree_inv t st \<and> durable_root st (ft_root t) 0 \<and>
     planned_roll st (ft_root t) (ft_head t) 1 job \<and> in_tree st (rj_new_root job) (ft_scheduled_root t)"
proof -
  have inv: "tree_inv demo_tree demo_st1" and du: "durable_root demo_st1 (ft_root demo_tree) 0"
    using demo_strict_inv by (auto simp: strict_inv_def)
  obtain ins t' st' where res: "attach_result demo_tree demo_st1 0 1 1 True ins t' st'"
    using attach_inner_spec [OF inv demo_attachable] by blast
  have ow: "over_window demo_tree demo_st1 1 1 True"
    using demo_keys by (simp add: over_window_def demo_start)
  then obtain job where j: "ins_roll ins = Some job"
    using res by (cases "ins_roll ins") (simp_all add: attach_result_def)
  have "tree_inv t' st'" "ft_root t' = 0" "same_links demo_st1 st'" "keeps demo_st1 st'" "cs_disk st' = cs_disk demo_st1"
    "ft_head t' = 1" "planned_roll st' 0 1 1 job" "ft_scheduled_root t' = rj_new_root job"
    using res j demo_keys by (simp_all add: attach_result_def demo_start)
  moreover have "durable_root st' 0 0"
    by (rule durable_root_keeps [of demo_st1]) (use calculation du tree_invD(3) [OF inv] in \<open>simp_all add: demo_start\<close>)
  ultimately show ?thesis by (intro exI [of _ t'] exI [of _ st'] exI [of _ job]) simp
qed

end
