(* ===== verification/ContractFee.thy ===== *)
theory ContractFee
  imports StorageBudget
begin

text \<open>
  The storage fee boundary of contract deployment and update, from
  \<^verbatim>\<open>src/vm/src/action/contract_exec.rs\<close>: the minimum protocol cost at a number of periods, the
  two-tier quote for wallets, and the check that classifies a transaction as full price or discount
  and books the discount bytes. The execution context contributes the fast-sync flag, the block
  height, the profile of the registered services and the fee purity of the transaction.
\<close>

record fee_ctx =
  fx_fast_sync :: bool
  fx_height :: nat
  fx_vm_params :: "vm_execution_params ret"
  fx_fee_purity_checked :: "nat ret"

definition calc_contract_protocol_cost_min_with_periods :: "fee_ctx \<Rightarrow> nat \<Rightarrow> nat \<Rightarrow> amount ret" where
  "calc_contract_protocol_cost_min_with_periods ctx charge_bytes periods =
     (if charge_bytes = 0 then Ok amt_zero
      else
        try_ret (fx_vm_params ctx) (\<lambda>vp.
        try_ret (fx_fee_purity_checked ctx) (\<lambda>raw.
        let fee_purity = effective_fee_purity vp (fx_height ctx) raw
        in if periods = 0 \<or> fee_purity = 0 then errf ''contract protocol fee calculate failed''
           else case checked_mul 128 fee_purity charge_bytes of
             None \<Rightarrow> errf ''contract protocol fee calculate failed: fee_purity * bytes overflow''
           | Some need \<Rightarrow>
             (case checked_mul 128 need periods of
                None \<Rightarrow> errf ''contract protocol fee calculate failed: required * periods overflow''
              | Some need \<Rightarrow> Ok (settlement_amount need)))))"

record fee_quote =
  fq_charge_bytes :: nat
  fq_full_price :: amount
  fq_full_price_periods :: nat
  fq_discount :: "(amount \<times> nat) option"

definition quote_contract_storage_fee :: "fee_ctx \<Rightarrow> layer \<Rightarrow> nat \<Rightarrow> fee_quote ret" where
  "quote_contract_storage_fee ctx s charge_bytes =
     try_ret (fx_vm_params ctx) (\<lambda>vp.
     let p_max = vp_contract_store_perm_periods vp
     in try_ret (calc_contract_protocol_cost_min_with_periods ctx charge_bytes p_max) (\<lambda>full_price.
        try_ret (peek_block_contract_storage_snapshot s vp (fx_height ctx)) (\<lambda>so.
        try_ret
          (case so of
             Some snapshot \<Rightarrow>
               if charge_bytes \<le> remaining_quota snapshot
               then try_ret (csf_discount_periods (vp_contract_storage_fee vp) (ss_remaining_start snapshot)
                        (ss_capacity snapshot) p_max) (\<lambda>periods.
                    try_ret (calc_contract_protocol_cost_min_with_periods ctx charge_bytes periods) (\<lambda>minimum.
                    Ok (Some (minimum, periods))))
               else Ok None
           | None \<Rightarrow> Ok None) (\<lambda>discount.
        Ok \<lparr>fq_charge_bytes = charge_bytes, fq_full_price = full_price, fq_full_price_periods = p_max,
            fq_discount = discount\<rparr>))))"

definition enforce_contract_storage_fee :: "fee_ctx \<Rightarrow> layer \<Rightarrow> nat \<Rightarrow> amount \<Rightarrow> (unit \<times> layer) ret" where
  "enforce_contract_storage_fee ctx s charge_bytes protocol_cost =
     (let fast_sync = fx_fast_sync ctx; height = fx_height ctx
      in if \<not> fast_sync \<and> amt_is_negative protocol_cost then errf ''protocol fee cannot be negative''
         else
           try_ret (fx_vm_params ctx) (\<lambda>vp.
           let p_max = vp_contract_store_perm_periods vp
           in try_ret (calc_contract_protocol_cost_min_with_periods ctx charge_bytes p_max) (\<lambda>min_full.
              if \<not> csf_is_active_at (vp_contract_storage_fee vp) height
              then if \<not> fast_sync \<and> amt_less protocol_cost min_full
                   then errf ''protocol fee below the full-price minimum''
                   else Ok ((), s)
              else
                try_ret (read_block_contract_storage_snapshot s vp height) (\<lambda>so.
                case so of
                  None \<Rightarrow> abortf ''contract storage budget snapshot missing at active height'' ''core_failed''
                | Some snapshot \<Rightarrow>
                    if \<not> amt_less protocol_cost min_full then Ok ((), s)
                    else
                      try_ret
                        (if fast_sync then Ok ()
                         else
                           try_ret (csf_discount_periods (vp_contract_storage_fee vp)
                             (ss_remaining_start snapshot) (ss_capacity snapshot) p_max) (\<lambda>periods.
                           try_ret (calc_contract_protocol_cost_min_with_periods ctx charge_bytes periods)
                             (\<lambda>min_discount.
                           if amt_less protocol_cost min_discount
                           then errf ''protocol fee is below the storage fee minimum''
                           else Ok ()))) (\<lambda>_.
                      try_ret (consume_block_contract_storage_discount s snapshot charge_bytes) (\<lambda>(_, s).
                      Ok ((), s)))))))"

section \<open>The minimum cost\<close>

lemma SETTLEMENT_SCALE_val: "SETTLEMENT_SCALE = 1000000"
  by (simp add: SETTLEMENT_SCALE_def)

lemma ceil_pricing_bounds:
  "v \<le> ceil_pricing_to_settlement v * SETTLEMENT_SCALE" "ceil_pricing_to_settlement v * SETTLEMENT_SCALE < v + SETTLEMENT_SCALE"
  "ceil_pricing_to_settlement v \<le> v"
  by (simp_all add: ceil_pricing_to_settlement_def SETTLEMENT_SCALE_val)

lemma ceil_pricing_mono: "v \<le> w \<Longrightarrow> ceil_pricing_to_settlement v \<le> ceil_pricing_to_settlement w"
  by (simp add: ceil_pricing_to_settlement_def div_le_mono)

lemma settlement_amount_spec:
  assumes "v < 2 ^ 128"
  shows "amt_nonneg (settlement_amount v)"
    "amt_val (settlement_amount v) = int (ceil_pricing_to_settlement v * 10 ^ 238)"
proof -
  have "ceil_pricing_to_settlement v < 2 ^ 128" using ceil_pricing_bounds(3) assms by (rule le_less_trans)
  from coin_u128_spec [OF this, of 238] show "amt_nonneg (settlement_amount v)"
    "amt_val (settlement_amount v) = int (ceil_pricing_to_settlement v * 10 ^ 238)"
    unfolding settlement_amount_def by (simp_all only: numeral_le_iff semiring_norm simp_thms)
qed

lemma min_cost_nonneg:
  assumes "calc_contract_protocol_cost_min_with_periods ctx bytes periods = Ok a"
  shows "amt_nonneg a"
  using assms
  by (auto simp: calc_contract_protocol_cost_min_with_periods_def Let_def checked_mul_def
      intro: settlement_amount_spec(1) split: if_splits option.splits)

lemma amt_less_irrefl: "amt_nonneg a \<Longrightarrow> \<not> amt_less a a"
  by (simp add: amt_less_def amt_cmp_eq cmp_of_def)

section \<open>Booking\<close>

lemma read_typed_sound:
  assumes "read_typed decode s key = Ok (Some v)"
  shows "\<exists>buf n. decode buf = Ok (v, n)"
proof (cases "layer_get s key")
  case (Inr o')
  then obtain buf where o': "o' = Some buf" using assms by (cases o') (auto simp: read_typed_def)
  show ?thesis
  proof (cases "decode buf")
    case (Inl e)
    then show ?thesis using assms Inr o' by (cases e) (auto simp: read_typed_def)
  next
    case (Inr p)
    then show ?thesis using assms \<open>layer_get s key = Inr o'\<close> o' by (cases p) (auto simp: read_typed_def)
  qed
qed (use assms in \<open>simp add: read_typed_def\<close>)

lemma snapshot_facts:
  assumes "read_block_contract_storage_snapshot s vp height = Ok (Some snap)"
  shows "ss_used_discount snap \<le> ss_quota snap" "ss_quota snap \<le> ss_remaining_start snap"
    "ss_remaining_start snap \<le> uint_MAX 16 12"
proof -
  have "v \<le> uint_MAX 16 12" if "read_u128_transient s BLOCK_BUDGET_START_KEY = Ok (Some v)" for v
    using read_typed_sound [OF that [unfolded read_u128_transient_def]] uint12.decode_take(4)
    by (auto simp: uint_valid_def)
  with assms show "ss_used_discount snap \<le> ss_quota snap" "ss_quota snap \<le> ss_remaining_start snap"
    "ss_remaining_start snap \<le> uint_MAX 16 12"
    by (auto simp: read_block_contract_storage_snapshot_def csf_block_quota_def Let_def ok_or_def not_less
        split: if_splits option.splits)
qed

text \<open>What booking a discount does: the used counter grows by the charge, or the quota is exhausted.\<close>

lemma consume_spec:
  assumes "read_block_contract_storage_snapshot s vp height = Ok (Some snap)"
  shows "consume_block_contract_storage_discount s snap charge =
    (if charge \<le> remaining_quota snap
     then Ok (snap\<lparr>ss_used_discount := ss_used_discount snap + charge\<rparr>,
            layer_set s BLOCK_BUDGET_USED_KEY (uint_encode 16 12 (ss_used_discount snap + charge)))
     else errf ''contract storage discount quota exhausted'')"
proof (cases "charge \<le> remaining_quota snap")
  case True
  note f = snapshot_facts [OF assms]
  have "ss_used_discount snap + charge \<le> uint_MAX 16 12"
    using f True by (simp add: remaining_quota_def)
  then show ?thesis using True uint12_fits(1)
    by (simp add: consume_block_contract_storage_discount_def checked_add_def write_transient_eq)
qed (simp add: consume_block_contract_storage_discount_def)

text \<open>A transaction that strict execution accepts leaves the same state in fast sync.\<close>

lemma calc_mode [simp]:
  "calc_contract_protocol_cost_min_with_periods (ctx\<lparr>fx_fast_sync := b\<rparr>) bytes periods =
     calc_contract_protocol_cost_min_with_periods ctx bytes periods"
  by (simp add: calc_contract_protocol_cost_min_with_periods_def)

lemma fast_sync_agrees:
  assumes "enforce_contract_storage_fee (ctx\<lparr>fx_fast_sync := False\<rparr>) s bytes cost = Ok ((), s')"
  shows "enforce_contract_storage_fee (ctx\<lparr>fx_fast_sync := True\<rparr>) s bytes cost = Ok ((), s')"
  using assms unfolding enforce_contract_storage_fee_def Let_def
  by (auto split: if_splits option.splits)

text \<open>The boundary on every branch, for a profile with an open block.\<close>

lemma enforce_eq:
  assumes "fx_vm_params ctx = Ok vp" "\<not> csf_is_disabled (vp_contract_storage_fee vp)"
    and snap: "read_block_contract_storage_snapshot s vp (fx_height ctx) = Ok (Some snap)"
    and "calc_contract_protocol_cost_min_with_periods ctx bytes (vp_contract_store_perm_periods vp) = Ok full"
    and "price_of vp (ss_remaining_start snap) (ss_capacity snap) = Ok periods"
    and "calc_contract_protocol_cost_min_with_periods ctx bytes periods = Ok disc"
  shows "enforce_contract_storage_fee ctx s bytes cost =
    (if \<not> fx_fast_sync ctx \<and> amt_is_negative cost then errf ''protocol fee cannot be negative''
     else if \<not> amt_less cost full then Ok ((), s)
     else if \<not> fx_fast_sync ctx \<and> amt_less cost disc then errf ''protocol fee is below the storage fee minimum''
     else if bytes \<le> remaining_quota snap
     then Ok ((), layer_set s BLOCK_BUDGET_USED_KEY (uint_encode 16 12 (ss_used_discount snap + bytes)))
     else errf ''contract storage discount quota exhausted'')"
  using assms by (simp add: enforce_contract_storage_fee_def Let_def csf_is_active_at_def price_of_def consume_spec [OF snap])

text \<open>A quoted price is accepted: the discount books its bytes, the full price books nothing.\<close>

lemma quote_discountD:
  assumes "quote_contract_storage_fee ctx s bytes = Ok q" "fq_discount q = Some (disc, periods)"
  obtains vp snap where "fx_vm_params ctx = Ok vp" "\<not> csf_is_disabled (vp_contract_storage_fee vp)"
    "read_block_contract_storage_snapshot s vp (fx_height ctx) = Ok (Some snap)"
    "calc_contract_protocol_cost_min_with_periods ctx bytes (vp_contract_store_perm_periods vp) = Ok (fq_full_price q)"
    "price_of vp (ss_remaining_start snap) (ss_capacity snap) = Ok periods"
    "calc_contract_protocol_cost_min_with_periods ctx bytes periods = Ok disc"
    "bytes \<le> remaining_quota snap"
  using assms
  by (auto simp: quote_contract_storage_fee_def Let_def peek_block_contract_storage_snapshot_def
      csf_is_active_at_def price_of_def split: option.splits if_splits)

lemma quote_accepted:
  assumes "quote_contract_storage_fee ctx s bytes = Ok q" "fq_discount q = Some (disc, periods)"
  shows "enforce_contract_storage_fee ctx s bytes (fq_full_price q) = Ok ((), s)"
    "\<exists>vp snap. fx_vm_params ctx = Ok vp \<and> read_block_contract_storage_snapshot s vp (fx_height ctx) = Ok (Some snap) \<and>
       enforce_contract_storage_fee ctx s bytes disc = Ok ((),
         if amt_less disc (fq_full_price q)
         then layer_set s BLOCK_BUDGET_USED_KEY (uint_encode 16 12 (ss_used_discount snap + bytes))
         else s)"
proof -
  obtain vp snap where d: "fx_vm_params ctx = Ok vp" "\<not> csf_is_disabled (vp_contract_storage_fee vp)"
    "read_block_contract_storage_snapshot s vp (fx_height ctx) = Ok (Some snap)"
    "calc_contract_protocol_cost_min_with_periods ctx bytes (vp_contract_store_perm_periods vp) = Ok (fq_full_price q)"
    "price_of vp (ss_remaining_start snap) (ss_capacity snap) = Ok periods"
    "calc_contract_protocol_cost_min_with_periods ctx bytes periods = Ok disc"
    "bytes \<le> remaining_quota snap"
    by (rule quote_discountD [OF assms])
  note n = min_cost_nonneg [OF d(4)] min_cost_nonneg [OF d(6)]
  show "enforce_contract_storage_fee ctx s bytes (fq_full_price q) = Ok ((), s)"
    using n by (simp add: enforce_eq [OF d(1-6)] amt_less_irrefl)
  show "\<exists>vp snap. fx_vm_params ctx = Ok vp \<and> read_block_contract_storage_snapshot s vp (fx_height ctx) = Ok (Some snap) \<and>
       enforce_contract_storage_fee ctx s bytes disc = Ok ((),
         if amt_less disc (fq_full_price q)
         then layer_set s BLOCK_BUDGET_USED_KEY (uint_encode 16 12 (ss_used_discount snap + bytes))
         else s)"
    using n d(1,3,7) by (auto simp: enforce_eq [OF d(1-6)] amt_less_irrefl intro!: exI [of _ vp] exI [of _ snap])
qed

end
