(* ===== verification/BudgetScenario.thy ===== *)
theory BudgetScenario
  imports ContractFee
begin

text \<open>
  A concrete profile of the storage budget with one capacity expansion, an empty state, and an open
  block with a fee context, for examples.
\<close>

definition demo_fee :: storage_fee_params where
  "demo_fee = \<lparr>csf_rule_version = 1, csf_activation_height = 0, csf_target_capacity_blocks = 100,
     csf_curve_steps = 1000, csf_period_floor = 10, csf_max_block_discount_bytes = 16000,
     csf_supplement_schedule = [(0, 1000), (200, 3000)]\<rparr>"

definition demo_vp :: vm_execution_params where
  "demo_vp = \<lparr>vp_contract_store_perm_periods = 10000, vp_contract_storage_fee = demo_fee,
     vp_initial_fee_purity_floor = 100, vp_fee_purity_reductions = [(150, 20)],
     vp_gas_budget_lookup = replicate 256 0, vp_tx_gas_budget_cap_byte = 0, vp_compute_limit_byte = 0,
     vp_resource_limit_byte = 0, vp_storage_limit_byte = 0\<rparr>"

definition no_state :: layer where "no_state = (\<lambda>_. Ok None)"

lemma demo_vp_valid [simp]: "vp_validate demo_vp = Ok ()"
  by (simp add: vp_validate_def demo_vp_def demo_fee_def csf_validate_def csf_is_disabled_def checked_mul_def
      uint12_MAX)

lemma demo_vp_enabled [simp]: "\<not> csf_is_disabled (vp_contract_storage_fee demo_vp)"
  by (simp add: demo_vp_def demo_fee_def csf_is_disabled_def)

lemma demo_rates [simp]:
  "rate_at demo_vp 199 = 1000" "rate_at demo_vp 200 = 3000" "cap_at demo_vp 199 = 100000" "cap_at demo_vp 200 = 300000"
  by (simp_all add: rate_at_def cap_at_def csf_active_rate_def csf_active_entry_def csf_is_disabled_def
      demo_vp_def demo_fee_def)

lemma demo_limit [simp]: "csf_max_block_discount_bytes (vp_contract_storage_fee demo_vp) = 16000"
  by (simp add: demo_vp_def demo_fee_def)

lemma no_budget: "read_contract_storage_budget no_state = Ok None"
  by (simp add: read_contract_storage_budget_def read_typed_def layer_get_def no_state_def)

lemma no_state_settled [simp]: "settled_as no_state vp height None"
  by (simp add: settled_as_def no_budget budget_abs_def budget_fits_def)

lemma demo_blocks: "spec_blocks demo_vp 199 None [[5000], [300, 200]] = Some (Some (298500, 300000))"
  by (simp add: spec_block_def spec_start_def Let_def)

text \<open>A block at height 199 with some discount used.\<close>

definition open_block :: layer where
  "open_block = layer_set (layer_set no_state BLOCK_BUDGET_START_KEY (uint_encode 16 12 60000))
     BLOCK_BUDGET_USED_KEY (uint_encode 16 12 1000)"

definition demo_ctx :: fee_ctx where
  "demo_ctx = \<lparr>fx_fast_sync = False, fx_height = 199, fx_vm_params = Ok demo_vp, fx_fee_purity_checked = Ok 30\<rparr>"

definition open_snap :: storage_snapshot where
  "open_snap = \<lparr>ss_remaining_start = 60000, ss_used_discount = 1000, ss_capacity = 100000, ss_rate = 1000,
     ss_quota = 16000\<rparr>"

lemma open_block_snapshot: "read_block_contract_storage_snapshot open_block demo_vp 199 = Ok (Some open_snap)"
proof -
  have v: "csf_validate (vp_contract_storage_fee demo_vp) 10000 = Ok ()"
    using demo_vp_valid by (simp add: vp_validate_def demo_vp_def)
  have e: "csf_active_entry (vp_contract_storage_fee demo_vp) 199 = Some (0, 1000)"
    by (simp add: csf_active_entry_def csf_is_disabled_def demo_vp_def demo_fee_def)
  have c: "csf_capacity_at (vp_contract_storage_fee demo_vp) 199 = Ok 100000"
    using profile_at(2) [of demo_vp 199] by simp
  have s: "snapshot_in open_block 60000 1000"
    by (simp add: snapshot_in_def open_block_def layer_set_def)
  show ?thesis
    using snapshot_read [OF v _ e c s] by (simp add: uint12_MAX csf_block_quota_def open_snap_def)
qed

lemma demo_prices:
  "calc_contract_protocol_cost_min_with_periods demo_ctx 500 10000 = Ok (settlement_amount 150000000)"
  "calc_contract_protocol_cost_min_with_periods demo_ctx 500 4000 = Ok (settlement_amount 60000000)"
  by (simp_all add: calc_contract_protocol_cost_min_with_periods_def demo_ctx_def effective_fee_purity_def
      fee_purity_floor_at_def demo_vp_def checked_mul_def Let_def)

lemma demo_price: "price_of demo_vp 60000 100000 = Ok 4000"
  using price_of_eq [of demo_vp 100000 60000] by (simp add: uint12_MAX curve_step_def)

lemma demo_enforce:
  "enforce_contract_storage_fee demo_ctx open_block 500 (settlement_amount 60000000) =
     Ok ((), layer_set open_block BLOCK_BUDGET_USED_KEY (uint_encode 16 12 1500))"
proof -
  have "amt_cmp (settlement_amount a) (settlement_amount b) =
      cmp_of (int (ceil_pricing_to_settlement a * 10 ^ 238)) (int (ceil_pricing_to_settlement b * 10 ^ 238))"
    if "a < 2 ^ 128" "b < 2 ^ 128" for a b
    using amt_cmp_eq that settlement_amount_spec by (simp add: amt_nonneg_def)
  then have "amt_less (settlement_amount 60000000) (settlement_amount 150000000)"
    "\<not> amt_less (settlement_amount 60000000) (settlement_amount 60000000)"
    by (simp_all add: amt_less_def cmp_of_def ceil_pricing_to_settlement_def SETTLEMENT_SCALE_val)
  moreover have "amt_nonneg (settlement_amount 60000000)" by (rule settlement_amount_spec(1)) simp
  moreover have c: "fx_vm_params demo_ctx = Ok demo_vp" "fx_height demo_ctx = 199" "\<not> fx_fast_sync demo_ctx"
    "vp_contract_store_perm_periods demo_vp = 10000"
    by (simp_all add: demo_ctx_def demo_vp_def)
  ultimately show ?thesis
    using enforce_eq [OF c(1) demo_vp_enabled, of open_block open_snap 500 "settlement_amount 150000000" 4000
        "settlement_amount 60000000" "settlement_amount 60000000"] open_block_snapshot demo_prices demo_price
    by (simp add: open_snap_def remaining_quota_def)
qed

lemma demo_quote:
  "quote_contract_storage_fee demo_ctx open_block 500 =
     Ok \<lparr>fq_charge_bytes = 500, fq_full_price = settlement_amount 150000000, fq_full_price_periods = 10000,
        fq_discount = Some (settlement_amount 60000000, 4000)\<rparr>"
proof -
  have st: "read_u128_transient open_block BLOCK_BUDGET_START_KEY = Ok (Some 60000)"
    by (rule read_transient_eq) (simp_all add: open_block_def layer_set_def uint12_MAX)
  have p: "peek_block_contract_storage_snapshot open_block demo_vp 199 = Ok (Some open_snap)"
    using open_block_snapshot st by (simp add: peek_block_contract_storage_snapshot_def csf_is_active_at_def)
  have c: "fx_vm_params demo_ctx = Ok demo_vp" "fx_height demo_ctx = 199"
    "vp_contract_store_perm_periods demo_vp = 10000"
    by (simp_all add: demo_ctx_def demo_vp_def)
  show ?thesis
    using p demo_prices demo_price [unfolded price_of_def c]
    by (simp add: quote_contract_storage_fee_def c open_snap_def remaining_quota_def)
qed

text \<open>At height 200 the capacity grows from 100000 to 300000 bytes: the budget of block 200 leaves the range
  published before block 199.\<close>

lemma demo_199: "\<exists>s'. run_blocks demo_vp 199 [[5000]] no_state = Ok s' \<and> settled_as s' demo_vp 200 (Some (96000, 100000))"
proof -
  have "spec_blocks demo_vp 199 None [[5000]] = Some (Some (96000, 100000))"
    by (simp add: spec_block_def spec_start_def Let_def)
  then show ?thesis
    using run_blocks_spec [OF demo_vp_valid demo_vp_enabled no_state_settled, of 199 "[[5000]]"]
    by (simp del: run_blocks.simps spec_blocks.simps) blast
qed

lemma range_left_by_expansion:
  "\<exists>s' facts facts'. run_blocks demo_vp 199 [[5000]] no_state = Ok s' \<and>
    contract_storage_fee_facts no_state demo_vp 199 = Ok facts \<and>
    contract_storage_fee_facts s' demo_vp 200 = Ok facts' \<and>
    sf_next_remaining_hi facts = 100000 \<and> sf_remaining facts' = 296000"
proof -
  obtain s' where s': "run_blocks demo_vp 199 [[5000]] no_state = Ok s'" "settled_as s' demo_vp 200 (Some (96000, 100000))"
    using demo_199 by blast
  obtain facts where f: "contract_storage_fee_facts no_state demo_vp 199 = Ok facts" "sf_next_remaining_hi facts = 100000"
    using facts_spec [OF demo_vp_valid demo_vp_enabled no_state_settled, of 199] by (auto simp: spec_start_def)
  obtain facts' where "contract_storage_fee_facts s' demo_vp 200 = Ok facts'" "sf_remaining facts' = 296000"
    using facts_spec [OF demo_vp_valid demo_vp_enabled s'(2)] by (auto simp: spec_start_def)
  with s'(1) f show ?thesis by blast
qed

end
