(* ===== verification/EngineScenario.thy ===== *)
theory EngineScenario
  imports StrictReach ChainScenario BudgetScenario
begin

text \<open>
  A small node for the examples: a genesis block on an empty disk, no stored block yet, and a block
  at height 1 whose only transaction writes one key.
\<close>

definition genesis32 :: block_ref where
  "genesis32 = \<lparr>blk_height = 0, blk_hash = replicate 32 1, blk_prev_hash = [], blk_timestamp = 100\<rparr>"

definition coinbase :: tx_view where
  "coinbase = \<lparr>tx_ty = 0, tx_is_block_prelude = True, tx_hash = replicate 32 7, tx_hash_with_fee = replicate 32 7,
     tx_size = 100, tx_action_count = 0, tx_actions_len = 0, tx_timestamp = 150, tx_main = addr_default,
     tx_addrs = [], tx_fee = amt_zero, tx_fee_got = amt_zero, tx_author = None, tx_fee_receiver = None\<rparr>"

definition block32 :: block where
  "block32 = \<lparr>blk_height = 1, blk_hash = replicate 32 2, blk_prev_hash = replicate 32 1, blk_timestamp = 200,
     blk_mrklroot = replicate 32 7, blk_transaction_count = 1, blk_transactions = [coinbase]\<rparr>"

definition pkg32 :: blk_pkg where
  "pkg32 = from_block_with_data block32 [1, 2, 3]"

text \<open>A profile without the storage discount, and a transaction that stores its hash under one key; the run
  checks the identity of its chunk again, as \<^verbatim>\<open>ContextInst::new\<close> does.\<close>

definition plain_vp :: vm_execution_params where
  "plain_vp = demo_vp\<lparr>vp_contract_storage_fee := demo_fee\<lparr>csf_supplement_schedule := []\<rparr>\<rparr>"

definition demo_eff :: tx_effect where
  "demo_eff env tx s = Ok (layer_set s [9] (tx_hash tx))"

definition demo_services :: services where
  "demo_services = \<lparr>sv_vm_params = Ok plain_vp, sv_chain_id = 0, sv_chain_flags = (\<lambda>_. 0),
     sv_execute = (\<lambda>env tx st i. try_ret (create_context st i tx) (\<lambda>_. chunk_set st i [9] (tx_hash tx)))\<rparr>"

definition cut_hash :: "bytes \<Rightarrow> bytes" where
  "cut_hash x = take 32 (x @ replicate 32 0)"

lemma length_cut_hash [simp]: "length (cut_hash x) = 32"
  by (simp add: cut_hash_def min_def)

definition demo_ce :: chain_env where
  "demo_ce = \<lparr>ce_services = demo_services, ce_hash = cut_hash,
     ce_mint_params = \<lparr>mp_max_block_txs = 1000, mp_max_block_size = 1000000, mp_max_tx_size = 16000,
       mp_difficulty_adjust_blocks = 288, mp_difficulty_group_blocks = 36, mp_each_block_target_time = 300\<rparr>,
     ce_now = 300, ce_decode = (\<lambda>_. errf ''no block''), ce_genesis = genesis32, ce_unstable_block = 4,
     ce_side_tree_capacity = 8, ce_disk = 0, ce_scan = Ok False,
     ce_fork_choice_key = (\<lambda>pkg _ _. Ok (fck_from_height (pk_height pkg))),
     ce_check_before = (\<lambda>_ _ _ _. Ok ()), ce_check_after = (\<lambda>_ _ _ _ _. Ok ())\<rparr>"

definition demo_io :: disk_outcomes where
  "demo_io = \<lparr>do_put_block = Ok (), do_put_available = Ok (), do_commit_reorg = Ok (), do_root_write = Ok (),
     do_hint_sent = True\<rparr>"

definition demo_cb :: callbacks where
  "demo_cb = \<lparr>cb_arrive = (\<lambda>_ _. Ok ()), cb_admission = (\<lambda>_ _. Ok Continue), cb_block_accepted = (\<lambda>_ _. Ok ()),
     cb_stable_block = (\<lambda>_ _. Ok ()), cb_listeners = [], cb_decode_block = (\<lambda>_. errf ''no block'')\<rparr>"

definition empty_blocks :: kv_block_store where
  "empty_blocks = \<lparr>kb_disk = no_state, kb_tip = 0\<rparr>"

definition chunk32 :: chunk where
  "chunk32 = \<lparr>ch_origin = OBlock 0 (Some \<lparr>bid_hash = replicate 32 1, bid_block = genesis32,
      bid_fork_choice = fck_from_height 0\<rparr>), ch_source = Disk 0, ch_body = Frozen delta_default, ch_children = []\<rparr>"

definition demo_eng :: engine where
  "demo_eng = \<lparr>en_tree = fst (tree_new (cs_empty demo_disks) 0 genesis32),
     en_store = snd (tree_new (cs_empty demo_disks) 0 genesis32), en_blocks = empty_blocks,
     en_pending = Map.empty, en_root_available = True, en_side_hints = []\<rparr>"

definition demo_node :: node where
  "demo_node = \<lparr>nd_eng = demo_eng, nd_life = LIFE_RUNNING, nd_shutdown = False, nd_syncing = False\<rparr>"

definition demo_store :: chunk_store where
  "demo_store = \<lparr>cs_next = 1, cs_chunk = [0 \<mapsto> chunk32], cs_disk = demo_disks\<rparr>"

lemma demo_eng_sel:
  "en_tree demo_eng = \<lparr>ft_root = 0, ft_scheduled_root = 0, ft_head = 0, ft_epoch = 0\<rparr>"
  "en_store demo_eng = demo_store" "en_blocks demo_eng = empty_blocks" "en_root_available demo_eng"
  by (simp_all add: demo_eng_def tree_new_def root_chunk_def new_root_def with_body_def cs_empty_def Let_def
      genesis32_def chunk32_def demo_store_def)

lemma demo_store_at [simp]:
  "hgt demo_store 0 = 0" "hsh demo_store 0 = replicate 32 1" "fkey demo_store 0 = fck_from_height 0"
  "bid_block (ident_at demo_store 0) = genesis32"
  by (simp_all add: demo_store_def hgt_def hsh_def fkey_def ident_at_def origin_at_def chunk32_def origin_block_height_def
      origin_block_identity_def)

lemma demo_store_tree [simp]: "in_tree demo_store a b \<longleftrightarrow> a = b"
proof -
  have "\<not> child_rel demo_store x y" for x y by (auto simp: demo_store_def child_rel_def chunk32_def split: if_splits)
  then show ?thesis by (metis converse_rtranclpE rtranclp.rtrancl_refl)
qed

lemma demo_kids: "kids_distinct demo_store"
  by (simp add: kids_distinct_def demo_store_def chunk32_def)

lemma demo_chain_inv: "chain_inv demo_ce demo_eng"
proof -
  have "strict_inv 4 0 (en_tree demo_eng) (en_store demo_eng)"
    by (rule tree_new_inv [of demo_disks 0 genesis32]) (simp add: demo_eng_def)
  then show ?thesis
    using demo_kids by (simp add: chain_inv_def demo_ce_def demo_eng_sel idents_ok_def) (simp add: genesis32_def)
qed

lemma empty_blocks_inv: "block_store_inv empty_blocks" "canon empty_blocks = []"
  by (simp_all add: empty_blocks_def block_store_inv_def raw_cursor_def no_state_def bodies_readable_def canon_def)

lemma demo_index_ok: "index_ok demo_eng"
proof -
  have "linked demo_store 0 [] 0" by simp
  then have "\<exists>xs. linked demo_store 0 xs 0 \<and> [] = map (hsh demo_store) xs" by force
  then show ?thesis
    using empty_blocks_inv by (simp add: index_ok_def demo_eng_sel Let_def) (simp add: empty_blocks_def)
qed

lemma demo_chain_ok: "chain_ok demo_ce (nd_eng demo_node)"
  using demo_chain_inv demo_index_ok by (simp add: chain_ok_def demo_node_def demo_eng_sel)

lemma demo_contract: "tx_contract demo_services demo_eff"
proof -
  have set: "\<exists>st'. chunk_set st i key v = Ok st' \<and> (tx_step i (cs_next st))\<^sup>*\<^sup>* st st' \<and>
      layer_set (chunk_view st i) key v = chunk_view st' i"
    if st: "store_typed st" "cs_chunk st i = Some c" "ch_body c = Writable delta_default" for st i c key v
  proof -
    have wf: "chunk_wf st" using st(1) by (simp add: store_typed_def)
    let ?d = "delta_default\<lparr>dl_state := memkv_put (dl_state delta_default) key v\<rparr>"
    let ?st = "put_chunk st i (c\<lparr>ch_body := Writable ?d\<rparr>)"
    have ok: "chunk_set st i key v = Ok ?st" using st(2,3) by (simp add: chunk_set_def mutate_delta_def)
    moreover have "tx_step i (cs_next st) st ?st" by (rule tx_set [OF ok]) simp
    moreover have "layer_set (chunk_view st i) key v = chunk_view ?st i"
      using view_put_self [OF wf st(2), of "c\<lparr>ch_body := Writable ?d\<rparr>"] chunk_view_Some [OF st(2)] st(3)
      by (auto simp: apply_delta_def layer_set_def memkv_put_def fun_eq_iff)
    ultimately show ?thesis by blast
  qed
  show ?thesis
    unfolding tx_contract_def demo_services_def demo_eff_def services.select_convs
  proof (intro allI impI)
    fix env and tx :: tx_view and st i b
    assume "store_typed st" and c: "cs_chunk st i = Some \<lparr>ch_origin = OTx (tx_hash tx), ch_source = Parent b,
      ch_body = Writable delta_default, ch_children = []\<rparr>"
    then have cc: "create_context st i tx = Ok ()" by (simp add: create_context_def validate_tx_identity_def)
    from set [OF \<open>store_typed st\<close> c, of "[9]" "tx_hash tx"] obtain st' where "chunk_set st i [9] (tx_hash tx) = Ok st'"
      "(tx_step i (cs_next st))\<^sup>*\<^sup>* st st'" "layer_set (chunk_view st i) [9] (tx_hash tx) = chunk_view st' i" by auto
    then show "case try_ret (create_context st i tx) (\<lambda>_. chunk_set st i [9] (tx_hash tx)) of
        Inl e \<Rightarrow> Ok (layer_set (chunk_view st i) [9] (tx_hash tx)) = Inl e
      | Inr st' \<Rightarrow> (tx_step i (cs_next st))\<^sup>*\<^sup>* st st' \<and>
          Ok (layer_set (chunk_view st i) [9] (tx_hash tx)) = Ok (chunk_view st' i)" using cc by simp
  qed
qed

lemma demo_pkg:
  "pk_hash pkg32 = blk_hash (pk_obj pkg32)" "length (pk_hash pkg32) = 32" "pk_height pkg32 = 1"
  "blk_prev_hash (pk_obj pkg32) = replicate 32 1" "blk_hash (pk_obj pkg32) = replicate 32 2" "pk_obj pkg32 = block32"
  by (simp_all add: pkg32_def from_block_with_data_def pk_height_def block32_def)

lemma demo_verified: "verify_block cut_hash (ce_mint_params demo_ce) 300 block32 genesis32 = Ok ()"
  by (simp add: verify_block_def block32_def genesis32_def coinbase_def demo_ce_def tx_exceeds_max_size_def
      merkle_root_def merkle_loop.simps)

lemma demo_view: "chunk_view demo_store 0 = no_state"
  using chunk_view_Some [of demo_store 0 chunk32]
  by (auto simp: demo_store_def chunk32_def source_view_def demo_disks_def no_state_def apply_delta_def delta_default_def disk_try_read_def layer_get_def fun_eq_iff)

lemma demo_fees: "add_mode_u64 amt_zero amt_zero = Ok amt_zero"
  by (simp add: add_mode_u64_def compute_unsigned_def amt_is_negative_def amt_is_zero_def amt_zero_def)

lemma plain_budget:
  "init_block_contract_storage_budget s plain_vp height = Ok (None, s)"
  "settle_block_contract_storage_budget s plain_vp height = Ok (None, s)"
  by (simp_all add: init_block_contract_storage_budget_def settle_block_contract_storage_budget_def
      read_block_contract_storage_snapshot_def csf_is_active_at_def csf_is_disabled_def plain_vp_def Let_def)

lemma plain_verified: "verify_block_contract_storage_state (layer_set no_state [9] v) plain_vp height = Ok ()"
proof -
  have k: "BLOCK_BUDGET_START_KEY \<noteq> [9]" "BLOCK_BUDGET_USED_KEY \<noteq> [9]" "[KEY_CONTRACT_STORAGE_BUDGET] \<noteq> [9]"
    by (simp_all add: BLOCK_BUDGET_START_KEY_def BLOCK_BUDGET_USED_KEY_def ascii_bytes_def)
  have r: "layer_set no_state [9] v key = Ok None" if "key \<noteq> [9]" for key
    using that by (simp add: layer_set_def no_state_def)
  have rt: "read_typed f (layer_set no_state [9] v) key = Ok None" if "key \<noteq> [9]" for key and f :: "bytes \<Rightarrow> ('a \<times> nat) ret"
    using r [OF that] by (simp add: read_typed_def layer_get_def)
  show ?thesis
    by (simp add: rt verify_block_contract_storage_state_def Let_def csf_is_disabled_def plain_vp_def
      read_u128_transient_def read_contract_storage_budget_def k)
qed

lemma demo_run: "spec_run demo_ce demo_eff demo_eng pkg32 False no_state = Ok (layer_set no_state [9] (replicate 32 7))"
proof -
  have sv: "ce_services demo_ce = demo_services" "sv_vm_params demo_services = Ok plain_vp"
    "ce_check_after demo_ce = (\<lambda>_ _ _ _ _. Ok ())" by (simp_all add: demo_ce_def demo_services_def)
  have tx: "blk_transactions block32 = [coinbase]" "tx_is_block_prelude coinbase" "tx_fee_receiver coinbase = None"
    "tx_fee_got coinbase = amt_zero" "tx_hash coinbase = replicate 32 7"
    by (simp_all add: block32_def coinbase_def)
  show ?thesis
    by (simp add: spec_run_def spec_execute_def demo_pkg(6) sv tx plain_budget demo_eff_def demo_fees spec_pay_def
        spec_settle_def plain_verified)
qed

lemma demo_writes: "writes_return demo_io" "writes_succeed demo_io"
  by (simp_all add: writes_return_def writes_succeed_def demo_io_def returns_def)

lemma demo_insertable: "insertable_height (en_tree demo_eng) (en_store demo_eng) (pk_height pkg32) = Ok ()"
  by (simp add: insertable_height_def root_height_def head_height_def demo_eng_sel demo_pkg demo_store_def
      chunk32_def block_height_def origin_block_height_def height_of_def)

lemma demo_resolve:
  "\<exists>history. resolve_fork_choice demo_ce demo_eng pkg32 =
     Some (Ok (Some (bid_block (ident_at (en_store demo_eng) 0), history, fck_from_height 1)))"
proof -
  have "ce_fork_choice_key demo_ce pkg32 key h = Ok (fck_from_height 1)" for key h
    using demo_pkg(3) by (simp add: demo_ce_def)
  then show ?thesis
    by (cases rule: resolve_spec [OF chain_invD(4) [OF demo_chain_inv], of pkg32 demo_ce])
      (auto simp: demo_eng_sel demo_pkg block32_def Let_def)
qed

text \<open>The block chunk of the small chain, open for execution on the empty state.\<close>

lemma demo_open: "open_chunk demo_st1 1"
  using chunk_reach_typed [OF demo_chunk_reach]
  by (simp add: open_chunk_def demo_st1_def block_demo_chunk_def is_block_def)

lemma demo_execute:
  "spec_execute demo_services demo_eff block32 False (chunk_view demo_st1 1) = Ok (layer_set no_state [9] (replicate 32 7))"
proof -
  have "chunk_view demo_st1 0 = no_state"
    using chunk_view_Some [of demo_st1 0 root_demo_chunk]
    by (auto simp: demo_st1_def root_demo_chunk_def source_view_def demo_disks_def no_state_def apply_delta_def
        delta_default_def disk_try_read_def layer_get_def fun_eq_iff)
  then have v: "chunk_view demo_st1 1 = no_state"
    using chunk_view_Some [of demo_st1 1 block_demo_chunk]
    by (auto simp: demo_st1_def block_demo_chunk_def source_view_def apply_delta_def delta_default_def)
  have "spec_run demo_ce demo_eff demo_eng pkg32 False no_state = spec_execute demo_services demo_eff block32 False no_state"
    by (simp add: spec_run_def demo_ce_def demo_pkg try_ret_def split: sum.split)
  then show ?thesis using demo_run v by simp
qed

text \<open>A block with two transactions, whose merkle root hashes their concatenation.\<close>

definition pair32 :: block where
  "pair32 = block32\<lparr>blk_mrklroot := replicate 32 7, blk_transaction_count := 2,
     blk_transactions := [coinbase, coinbase\<lparr>tx_is_block_prelude := False, tx_ty := 2, tx_hash_with_fee := replicate 32 8\<rparr>]\<rparr>"

lemma demo_pair_verified:
  "verify_block cut_hash (ce_mint_params demo_ce) 300 pair32 genesis32 = Ok ()"
  "verify_block cut_hash (ce_mint_params demo_ce) 300 (pair32\<lparr>blk_timestamp := 250\<rparr>) genesis32 = Ok ()"
  by (simp_all add: verify_block_def pair32_def block32_def genesis32_def coinbase_def demo_ce_def tx_exceeds_max_size_def
      merkle_root_def merkle_loop.simps cut_hash_def)

lemma demo_pair_hashes:
  "blk_transactions (pair32\<lparr>blk_timestamp := 250\<rparr>) = blk_transactions pair32"
  "blk_mrklroot (pair32\<lparr>blk_timestamp := 250\<rparr>) = blk_mrklroot pair32"
  "hashes_ok (map tx_hash_with_fee (blk_transactions pair32))"
  "no_clash cut_hash (merkle_inputs cut_hash (map tx_hash_with_fee (blk_transactions pair32)))
     (merkle_inputs cut_hash (map tx_hash_with_fee (blk_transactions pair32)))"
  by (simp_all add: pair32_def hashes_ok_def coinbase_def no_clash_def merkle_inputs.simps)

text \<open>The small chain as a strict node: block one is executed, attached and becomes the head.\<close>

lemma demo_strict_reach: "strict_reach 1 8 0 demo_tree demo_st1"
  by (rule reach_work [OF reach_new [OF demo_new] work_exec [OF demo_begin]])

lemma demo_strict_insert: "\<exists>t st. strict_reach 1 8 0 t st \<and> ft_head t = 1 \<and> ft_root t = 0 \<and> hgt st 1 = 1"
proof -
  have ti: "tree_inv demo_tree demo_st1" "durable_root demo_st1 (ft_root demo_tree) 0"
    using demo_strict_inv by (simp_all add: strict_inv_def)
  obtain ins t st where a: "attach demo_tree demo_st1 [1] 1 1 = Some (Ok (ins, t, st))"
    and r: "attach_result demo_tree demo_st1 0 1 1 False ins t st"
    using strict_accepts [OF ti _ demo_attachable] by (auto simp: demo_start)
  have h: "ins_is_head ins" "ft_head t = 1" "ft_root t = 0" "ins_roll ins = None"
    using r demo_keys by (auto simp: attach_result_def demo_start over_window_def split: option.splits)
  have "tree_find demo_tree demo_st1 [1] = Some (Ok (Some 0))"
    using tree_find_node [OF ti(1), of 0] by (simp add: demo_start)
  then have nr: "\<not> ins_reorg ins" using attach_reorg [OF a] by (simp add: demo_start)
  have hc: "with_chunk demo_st1 1 block_height = Ok 1"
    by (simp add: demo_st1_def block_demo_chunk_def block_height_def origin_block_height_def)
  have rg: "insertable_height demo_tree demo_st1 1 = Ok ()"
    using block_chunk_ops(1) [OF tree_inv_block [OF ti(1)], of 0]
    by (simp add: insertable_height_def root_height_def head_height_def demo_start)
  have "hgt st 1 = 1" using r same_links_ops(8) [of demo_st1 st] by (simp add: attach_result_def)
  moreover have "strict_reach 1 8 0 t st"
    by (rule reach_insert [OF demo_strict_reach hc rg _ a]) (use h nr in simp_all)
  ultimately show ?thesis using h by blast
qed

end
