(* ===== verification/VmValue.thy ===== *)
theory VmValue
  imports Address
begin

text \<open>
  The scalar half of the virtual machine's values: \<^verbatim>\<open>src/vm/src/value/\<close> (types, conversions,
  casts, the storage codec, map keys and byte operands) and the limits of
  \<^verbatim>\<open>src/vm/src/rt/cap.rs\<close>. A container is an address into the store of the machine, so that
  the aliasing of \<^verbatim>\<open>Rc<RefCell<..>>\<close> is explicit. Integers are words of their width.
\<close>

section \<open>Errors\<close>

text \<open>
  \<^verbatim>\<open>ItrErr\<close> of \<^verbatim>\<open>rt/error.rs\<close>: the code by its name, the message left out.
\<close>

datatype itr_err = ItrErr (itr_code: string)

type_synonym 'a vmrt = "itr_err + 'a"

abbreviation itr_err_code :: "string \<Rightarrow> 'a vmrt" where
  "itr_err_code c \<equiv> Inl (ItrErr c)"

text \<open>
  Taking over an error of the node: an abort keeps its classification, any other error becomes the
  code of the caller. An error of the machine itself takes the new code always.
\<close>

fun is_abort :: "error \<Rightarrow> bool" where
  "is_abort (Error kind _ _) \<longleftrightarrow> kind = Abort"
| "is_abort (Panic _) \<longleftrightarrow> False"

definition map_native_action_code :: "error \<Rightarrow> string" where
  "map_native_action_code e =
     (if is_abort e
      then if err_code e = Some STATE_DECODE_FAILED_CODE then ''StateDecodeFailed'' else ''StateReadFailed''
      else ''ActCallError'')"

definition map_ire :: "'a ret \<Rightarrow> string \<Rightarrow> 'a vmrt" where
  "map_ire r ec =
     (case r of
        Inl e \<Rightarrow> itr_err_code (if is_abort e then map_native_action_code e else ec)
      | Inr x \<Rightarrow> Ok x)"

definition recode :: "'a vmrt \<Rightarrow> string \<Rightarrow> 'a vmrt" where
  "recode r ec = (case r of Inl _ \<Rightarrow> itr_err_code ec | Inr x \<Rightarrow> Ok x)"

section \<open>Limits\<close>

abbreviation (input) u16_max :: nat where "u16_max \<equiv> 65535"

record SpaceCap =
  sc_loaded_contract :: nat
  sc_call_depth :: nat
  sc_value_size :: nat
  sc_call_data_size :: nat
  sc_tuple_length :: nat
  sc_compo_length :: nat
  sc_storage_period :: nat
  sc_storage_live_max_periods :: nat
  sc_storage_recv_max_periods :: nat
  sc_stack_slot :: nat
  sc_local_slot :: nat
  sc_heap_segment :: nat
  sc_global :: nat
  sc_memory :: nat
  sc_kv_key_size :: nat
  sc_status_pure_size :: nat
  sc_log_size :: nat
  sc_contract_size :: nat
  sc_function_size :: nat
  sc_inherit :: nat
  sc_library :: nat
  sc_p2sh_set :: nat
  sc_p2sh_merkle_depth_max :: nat
  sc_p2sh_lockbox_size_max :: nat
  sc_reentry_level :: nat
  sc_intent_bind_depth :: nat
  sc_intent_new :: nat
  sc_intent_key :: nat

definition SpaceCap_new :: SpaceCap where
  "SpaceCap_new =
     \<lparr>sc_loaded_contract = 20, sc_call_depth = 32, sc_value_size = 1280,
      sc_call_data_size = 4608, sc_tuple_length = 32, sc_compo_length = 128,
      sc_storage_period = 100, sc_storage_live_max_periods = 30000, sc_storage_recv_max_periods = 3000,
      sc_stack_slot = 256, sc_local_slot = 256, sc_heap_segment = 64,
      sc_global = 40, sc_memory = 24, sc_kv_key_size = 128,
      sc_status_pure_size = 128, sc_log_size = 9600, sc_contract_size = u16_max * 1,
      sc_function_size = u16_max div 4, sc_inherit = 12, sc_library = 64,
      sc_p2sh_set = 128, sc_p2sh_merkle_depth_max = 8, sc_p2sh_lockbox_size_max = 4096,
      sc_reentry_level = 1, sc_intent_bind_depth = 10, sc_intent_new = 128,
      sc_intent_key = 32\<rparr>"

definition scalar_field_len_fits :: "nat \<Rightarrow> nat \<Rightarrow> bool" where
  "scalar_field_len_fits len value_max \<longleftrightarrow> len < u16_max \<and> len \<le> value_max"

definition field_scalar_len_ok :: "SpaceCap \<Rightarrow> nat \<Rightarrow> bool" where
  "field_scalar_len_ok cap len = scalar_field_len_fits len (sc_value_size cap)"

section \<open>Types and values\<close>

datatype ValueTy =
    TyNil | TyBool | TyU8 | TyU16 | TyU32 | TyU64 | TyU128
  | TyBytes | TyAddress | TyTuple | TyCompo | TyHandle

fun ty_num_of :: "ValueTy \<Rightarrow> u8" where
  "ty_num_of TyNil = 0"
| "ty_num_of TyBool = 1"
| "ty_num_of TyU8 = 2"
| "ty_num_of TyU16 = 3"
| "ty_num_of TyU32 = 4"
| "ty_num_of TyU64 = 5"
| "ty_num_of TyU128 = 6"
| "ty_num_of TyBytes = 8"
| "ty_num_of TyAddress = 9"
| "ty_num_of TyTuple = 13"
| "ty_num_of TyCompo = 14"
| "ty_num_of TyHandle = 15"

definition value_ty_build :: "u8 \<Rightarrow> ValueTy ret" where
  "value_ty_build t =
     (if t = 0 then Ok TyNil
      else if t = 1 then Ok TyBool
      else if t = 2 then Ok TyU8
      else if t = 3 then Ok TyU16
      else if t = 4 then Ok TyU32
      else if t = 5 then Ok TyU64
      else if t = 6 then Ok TyU128
      else if t = 8 then Ok TyBytes
      else if t = 9 then Ok TyAddress
      else if t = 13 then Ok TyTuple
      else if t = 14 then Ok TyCompo
      else if t = 15 then Ok TyHandle
      else errf ''unknown type'')"

fun uint_bits :: "ValueTy \<Rightarrow> nat option" where
  "uint_bits TyU8 = Some 8"
| "uint_bits TyU16 = Some 16"
| "uint_bits TyU32 = Some 32"
| "uint_bits TyU64 = Some 64"
| "uint_bits TyU128 = Some 128"
| "uint_bits _ = None"

definition ty_is_uint :: "ValueTy \<Rightarrow> bool" where
  "ty_is_uint t \<longleftrightarrow> t \<in> {TyU8, TyU16, TyU32, TyU64, TyU128}"

fun check_func_argv_type :: "ValueTy \<Rightarrow> unit ret" where
  "check_func_argv_type TyNil = errf ''Value Type cannot be func argv''"
| "check_func_argv_type TyTuple = errf ''Value Type cannot be func argv''"
| "check_func_argv_type _ = Ok ()"

fun check_func_retv_type :: "ValueTy \<Rightarrow> unit ret" where
  "check_func_retv_type TyNil = errf ''Value Type cannot be func retval''"
| "check_func_retv_type _ = Ok ()"

definition parse_value_ty_param :: "u8 \<Rightarrow> ValueTy vmrt" where
  "parse_value_ty_param raw = map_ire (value_ty_build raw) ''InstParamsErr''"

definition parse_cto_target_ty_param :: "u8 \<Rightarrow> ValueTy vmrt" where
  "parse_cto_target_ty_param raw =
     try_ret (parse_value_ty_param raw) (\<lambda>ty.
     if ty \<in> {TyBool, TyU8, TyU16, TyU32, TyU64, TyU128, TyBytes, TyAddress} then Ok ty
     else itr_err_code ''InstParamsErr'')"

text \<open>
  \<open>VTuple\<close> carries the identity of its shared slice beside the items (an equality test looks at
  it first); \<open>VCompo\<close> and \<open>VHandle\<close> are identities alone.
\<close>

datatype vm_value =
    VNil
  | VBool bool
  | VU8 "8 word"
  | VU16 "16 word"
  | VU32 "32 word"
  | VU64 "64 word"
  | VU128 "128 word"
  | VBytes bytes
  | VAddress address
  | VTuple nat "vm_value list"
  | VCompo nat
  | VHandle nat

fun val_ty :: "vm_value \<Rightarrow> ValueTy" where
  "val_ty VNil = TyNil"
| "val_ty (VBool _) = TyBool"
| "val_ty (VU8 _) = TyU8"
| "val_ty (VU16 _) = TyU16"
| "val_ty (VU32 _) = TyU32"
| "val_ty (VU64 _) = TyU64"
| "val_ty (VU128 _) = TyU128"
| "val_ty (VBytes _) = TyBytes"
| "val_ty (VAddress _) = TyAddress"
| "val_ty (VTuple _ _) = TyTuple"
| "val_ty (VCompo _) = TyCompo"
| "val_ty (VHandle _) = TyHandle"

definition val_is_uint :: "vm_value \<Rightarrow> bool" where
  "val_is_uint v = ty_is_uint (val_ty v)"

definition ty_num :: "vm_value \<Rightarrow> u8" where
  "ty_num v = ty_num_of (val_ty v)"

section \<open>Byte helpers\<close>

definition decode_canonical_bool_byte :: "u8 \<Rightarrow> bool option" where
  "decode_canonical_bool_byte b = (if b = 0 then Some False else if b = 1 then Some True else None)"

definition encode_canonical_bool_byte :: "bool \<Rightarrow> u8" where
  "encode_canonical_bool_byte b = (if b then 1 else 0)"

definition trim_leading_zero_bytes :: "bytes \<Rightarrow> bytes" where
  "trim_leading_zero_bytes buf = dropWhile (\<lambda>b. b = 0) buf"

definition uint_key_bytes :: "nat \<Rightarrow> bytes" where
  "uint_key_bytes n =
     (let trimmed = trim_leading_zero_bytes (to_be_bytes 16 n)
      in if trimmed = [] then [0] else trimmed)"

definition fit_be_bytes :: "nat \<Rightarrow> bytes \<Rightarrow> bytes option" where
  "fit_be_bytes n buf =
     (if length buf \<le> n then Some (replicate (n - length buf) 0 @ buf)
      else let cut = length buf - n
           in if list_ex (\<lambda>b. b \<noteq> 0) (take cut buf) then None else Some (drop cut buf))"

definition minimal_active_uint_bytes :: "nat \<Rightarrow> nat option" where
  "minimal_active_uint_bytes non_zero_len = List.find (\<lambda>w. non_zero_len \<le> w) [1, 2, 4, 8, 16]"

definition checked_value_output_len :: "SpaceCap \<Rightarrow> nat \<Rightarrow> nat vmrt" where
  "checked_value_output_len cap len =
     (if \<not> field_scalar_len_ok cap len then itr_err_code ''OutOfValueSize'' else Ok len)"

definition checked_value_output_add :: "SpaceCap \<Rightarrow> nat \<Rightarrow> nat \<Rightarrow> nat vmrt" where
  "checked_value_output_add cap left right =
     try_ret (ok_or (checked_add 64 left right) (ItrErr ''OutOfValueSize'')) (\<lambda>total.
     checked_value_output_len cap total)"

definition length_value_by_len :: "SpaceCap \<Rightarrow> nat \<Rightarrow> vm_value vmrt" where
  "length_value_by_len cap len =
     (if len > sc_compo_length cap then itr_err_code ''OutOfCompoLen'' else Ok (VU32 (of_nat len)))"

section \<open>Sizes and raw bytes\<close>

definition REF_DUP_SIZE :: nat where
  "REF_DUP_SIZE = 8"

fun scalar_bytes :: "vm_value \<Rightarrow> bytes option" where
  "scalar_bytes VNil = Some []"
| "scalar_bytes (VBool b) = Some [encode_canonical_bool_byte b]"
| "scalar_bytes (VU8 n) = Some (to_be_bytes 1 (unat n))"
| "scalar_bytes (VU16 n) = Some (to_be_bytes 2 (unat n))"
| "scalar_bytes (VU32 n) = Some (to_be_bytes 4 (unat n))"
| "scalar_bytes (VU64 n) = Some (to_be_bytes 8 (unat n))"
| "scalar_bytes (VU128 n) = Some (to_be_bytes 16 (unat n))"
| "scalar_bytes (VBytes buf) = Some buf"
| "scalar_bytes (VAddress a) = Some (addr_encode a)"
| "scalar_bytes _ = None"

fun dup_size :: "vm_value \<Rightarrow> nat" where
  "dup_size VNil = 0"
| "dup_size (VBool _) = 1"
| "dup_size (VU8 _) = 1"
| "dup_size (VU16 _) = 2"
| "dup_size (VU32 _) = 4"
| "dup_size (VU64 _) = 8"
| "dup_size (VU128 _) = 16"
| "dup_size (VBytes b) = length b"
| "dup_size (VAddress _) = ADDRESS_SIZE"
| "dup_size _ = REF_DUP_SIZE"

fun is_scalar_value :: "vm_value \<Rightarrow> bool" where
  "is_scalar_value (VTuple _ _) = False"
| "is_scalar_value (VCompo _) = False"
| "is_scalar_value (VHandle _) = False"
| "is_scalar_value _ = True"

text \<open>On the values that get past the first test \<^verbatim>\<open>val_size\<close> and \<^verbatim>\<open>dup_size\<close> are the same table.\<close>

definition can_get_size :: "vm_value \<Rightarrow> nat vmrt" where
  "can_get_size v =
     (if \<not> is_scalar_value v then itr_err_code ''ItemNoSize''
      else let n = dup_size v
           in if n \<ge> u16_max then itr_err_code ''OutOfValueSize'' else Ok n)"

definition val_valid :: "SpaceCap \<Rightarrow> vm_value \<Rightarrow> vm_value vmrt" where
  "val_valid cap v =
     (case can_get_size v of
        Inr n \<Rightarrow> if n > sc_value_size cap then itr_err_code ''OutOfValueSize'' else Ok v
      | Inl e \<Rightarrow> if itr_code e = ''ItemNoSize'' then Ok v else Inl e)"

section \<open>Conversions\<close>

fun uint_u128_opt :: "vm_value \<Rightarrow> nat option" where
  "uint_u128_opt (VU8 n) = Some (unat n)"
| "uint_u128_opt (VU16 n) = Some (unat n)"
| "uint_u128_opt (VU32 n) = Some (unat n)"
| "uint_u128_opt (VU64 n) = Some (unat n)"
| "uint_u128_opt (VU128 n) = Some (unat n)"
| "uint_u128_opt _ = None"

text \<open>\<^verbatim>\<open>try_from\<close> into the unsigned type of the given width, as a value.\<close>

definition uint_try_from :: "nat \<Rightarrow> nat \<Rightarrow> vm_value option" where
  "uint_try_from bits n =
     (if n \<ge> 2 ^ bits then None
      else if bits = 8 then Some (VU8 (of_nat n))
      else if bits = 16 then Some (VU16 (of_nat n))
      else if bits = 32 then Some (VU32 (of_nat n))
      else if bits = 64 then Some (VU64 (of_nat n))
      else if bits = 128 then Some (VU128 (of_nat n))
      else None)"

definition buf_to_uint :: "bytes \<Rightarrow> vm_value vmrt" where
  "buf_to_uint buf =
     (let raw = trim_leading_zero_bytes buf; sz = length raw
      in if sz = 0 then Ok (VU8 0)
         else case minimal_active_uint_bytes sz of
           None \<Rightarrow> itr_err_code ''CastFail''
         | Some width \<Rightarrow>
             if width = 1 then Ok (VU8 (hd raw))
             else if width = 2 then Ok (VU16 (of_nat (be_nat raw)))
             else if width = 4 then Ok (VU32 (of_nat (be_nat (replicate (4 - sz) 0 @ raw))))
             else if width = 8 then Ok (VU64 (of_nat (be_nat (replicate (8 - sz) 0 @ raw))))
             else if width = 16 then Ok (VU128 (of_nat (be_nat (replicate (16 - sz) 0 @ raw))))
             else itr_err_code ''CastFail'')"

definition buf_to_u128 :: "bytes \<Rightarrow> nat vmrt" where
  "buf_to_u128 buf =
     (case fit_be_bytes 16 (trim_leading_zero_bytes buf) of
        None \<Rightarrow> itr_err_code ''CastFail''
      | Some out \<Rightarrow> Ok (be_nat out))"

definition extract_uint_cast :: "nat \<Rightarrow> vm_value \<Rightarrow> nat vmrt" where
  "extract_uint_cast bits v =
     (case uint_u128_opt v of
        None \<Rightarrow> itr_err_code ''CastParamFail''
      | Some un \<Rightarrow> if un < 2 ^ bits then Ok un else itr_err_code ''CastParamFail'')"

definition has_non_zero_byte :: "bytes \<Rightarrow> bool" where
  "has_non_zero_byte b = list_ex (\<lambda>x. x \<noteq> 0) b"

definition extract_bool :: "vm_value \<Rightarrow> bool vmrt" where
  "extract_bool v =
     (case uint_u128_opt v of
        Some n \<Rightarrow> Ok (n \<noteq> 0)
      | None \<Rightarrow>
          (case v of
             VBool b \<Rightarrow> Ok b
           | VNil \<Rightarrow> Ok False
           | VBytes b \<Rightarrow> Ok (has_non_zero_byte b)
           | VAddress a \<Rightarrow> Ok (has_non_zero_byte a)
           | _ \<Rightarrow> itr_err_code ''CastFail''))"

definition to_uint :: "vm_value \<Rightarrow> vm_value vmrt" where
  "to_uint v = (if ty_is_uint (val_ty v) then Ok v else itr_err_code ''CastFail'')"

definition to_u128 :: "vm_value \<Rightarrow> nat vmrt" where
  "to_u128 v =
     (case uint_u128_opt v of
        Some n \<Rightarrow> Ok n
      | None \<Rightarrow>
          (case v of
             VNil \<Rightarrow> Ok 0
           | VBool b \<Rightarrow> Ok (if b then 1 else 0)
           | VBytes buf \<Rightarrow> buf_to_u128 buf
           | VAddress a \<Rightarrow> buf_to_u128 a
           | _ \<Rightarrow> itr_err_code ''CastFail''))"

definition address_from_bytes :: "bytes \<Rightarrow> address ret" where
  "address_from_bytes buf =
     (if length buf \<noteq> ADDRESS_SIZE then errf ''address bytes length invalid''
      else try_ret (addr_decode buf) (\<lambda>(a, _). Ok a))"

definition type_from :: "ValueTy \<Rightarrow> bytes \<Rightarrow> vm_value vmrt" where
  "type_from ty stuff =
     (let vlen = length stuff; cast_err = itr_err_code ''CastParamFail'';
          sized = (\<lambda>l v. if vlen \<noteq> l then cast_err else v)
      in case ty of
           TyNil \<Rightarrow> sized 0 (Ok VNil)
         | TyBool \<Rightarrow> sized 1 (case decode_canonical_bool_byte (hd stuff) of
                                None \<Rightarrow> cast_err | Some b \<Rightarrow> Ok (VBool b))
         | TyU8 \<Rightarrow> sized 1 (Ok (VU8 (hd stuff)))
         | TyU16 \<Rightarrow> sized 2 (Ok (VU16 (of_nat (be_nat stuff))))
         | TyU32 \<Rightarrow> sized 4 (Ok (VU32 (of_nat (be_nat stuff))))
         | TyU64 \<Rightarrow> sized 8 (Ok (VU64 (of_nat (be_nat stuff))))
         | TyU128 \<Rightarrow> sized 16 (Ok (VU128 (of_nat (be_nat stuff))))
         | TyBytes \<Rightarrow> Ok (VBytes stuff)
         | TyAddress \<Rightarrow> sized ADDRESS_SIZE (case address_from_bytes stuff of
                                Inl _ \<Rightarrow> cast_err | Inr addr \<Rightarrow> Ok (VAddress addr))
         | _ \<Rightarrow> cast_err)"

definition extract_address :: "vm_value \<Rightarrow> address vmrt" where
  "extract_address v =
     (case v of
        VAddress a \<Rightarrow> Ok a
      | VBytes b \<Rightarrow> map_ire (address_from_bytes b) ''CastParamFail''
      | _ \<Rightarrow> itr_err_code ''CastParamFail'')"

definition extract_contract_address :: "vm_value \<Rightarrow> address vmrt" where
  "extract_contract_address v =
     try_ret (extract_address v) (\<lambda>addr.
     if \<not> is_contract addr then itr_err_code ''ContractAddrErr'' else Ok addr)"

section \<open>Bytes and keys of a value\<close>

definition extract_bytes_ec :: "string \<Rightarrow> vm_value \<Rightarrow> bytes vmrt" where
  "extract_bytes_ec ec v =
     (if v = VNil then itr_err_code ec
      else case scalar_bytes v of Some b \<Rightarrow> Ok b | None \<Rightarrow> itr_err_code ec)"

definition extract_bytes_len_ec :: "string \<Rightarrow> vm_value \<Rightarrow> nat vmrt" where
  "extract_bytes_len_ec ec v =
     (case v of
        VBool _ \<Rightarrow> Ok 1
      | VU8 _ \<Rightarrow> Ok 1
      | VU16 _ \<Rightarrow> Ok 2
      | VU32 _ \<Rightarrow> Ok 4
      | VU64 _ \<Rightarrow> Ok 8
      | VU128 _ \<Rightarrow> Ok 16
      | VBytes b \<Rightarrow> Ok (length b)
      | VAddress _ \<Rightarrow> Ok ADDRESS_SIZE
      | _ \<Rightarrow> itr_err_code ec)"

definition extract_key_bytes_ec :: "string \<Rightarrow> vm_value \<Rightarrow> bytes vmrt" where
  "extract_key_bytes_ec ec v =
     (case v of
        VBool _ \<Rightarrow> itr_err_code ec
      | VNil \<Rightarrow> itr_err_code ec
      | _ \<Rightarrow>
          if val_is_uint v then
            try_ret (extract_uint_cast 128 v) (\<lambda>n. Ok (uint_key_bytes n))
          else
            try_ret (extract_bytes_ec ec v) (\<lambda>key.
            if key = [] then itr_err_code ec else Ok key))"

definition check_scalar_as :: "string \<Rightarrow> vm_value \<Rightarrow> unit vmrt" where
  "check_scalar_as ec v = (if is_scalar_value v then Ok () else itr_err_code ec)"

definition check_non_nil_scalar :: "string \<Rightarrow> vm_value \<Rightarrow> unit vmrt" where
  "check_non_nil_scalar nil_ec v =
     (if v = VNil then itr_err_code nil_ec else check_scalar_as ''CastBeValueFail'' v)"

definition check_tuple_item :: "vm_value \<Rightarrow> unit vmrt" where
  "check_tuple_item v =
     (case v of
        VTuple _ _ \<Rightarrow> itr_err_code ''CastBeValueFail''
      | VCompo _ \<Rightarrow> Ok ()
      | VHandle _ \<Rightarrow> Ok ()
      | _ \<Rightarrow> check_scalar_as ''CastBeValueFail'' v)"

section \<open>Casts\<close>

definition ensure_active_uint_bits :: "nat \<Rightarrow> unit vmrt" where
  "ensure_active_uint_bits bits =
     (if bits \<in> set [8, 16, 32, 64, 128] then Ok () else itr_err_code ''CastFail'')"

definition bytes_to_uint_width :: "bytes \<Rightarrow> nat \<Rightarrow> vm_value vmrt" where
  "bytes_to_uint_width buf bits =
     try_ret (ensure_active_uint_bits bits) (\<lambda>_.
     if bits = 8 then
       try_ret (ok_or (fit_be_bytes 1 buf) (ItrErr ''CastFail'')) (\<lambda>b. Ok (VU8 (of_nat (be_nat b))))
     else if bits = 16 then
       try_ret (ok_or (fit_be_bytes 2 buf) (ItrErr ''CastFail'')) (\<lambda>b. Ok (VU16 (of_nat (be_nat b))))
     else if bits = 32 then
       try_ret (ok_or (fit_be_bytes 4 buf) (ItrErr ''CastFail'')) (\<lambda>b. Ok (VU32 (of_nat (be_nat b))))
     else if bits = 64 then
       try_ret (ok_or (fit_be_bytes 8 buf) (ItrErr ''CastFail'')) (\<lambda>b. Ok (VU64 (of_nat (be_nat b))))
     else if bits = 128 then
       try_ret (ok_or (fit_be_bytes 16 buf) (ItrErr ''CastFail'')) (\<lambda>b. Ok (VU128 (of_nat (be_nat b))))
     else itr_err_code ''CastFail'')"

definition cast_to_uint_width :: "vm_value \<Rightarrow> nat \<Rightarrow> vm_value vmrt" where
  "cast_to_uint_width v bits =
     try_ret (ensure_active_uint_bits bits) (\<lambda>_.
     case v of
       VBytes buf \<Rightarrow> bytes_to_uint_width buf bits
     | _ \<Rightarrow>
         try_ret (recode (to_u128 v) ''CastFail'') (\<lambda>n.
         ok_or (uint_try_from bits n) (ItrErr ''CastFail'')))"

definition cast_bool :: "vm_value \<Rightarrow> vm_value vmrt" where
  "cast_bool v = try_ret (extract_bool v) (\<lambda>b. Ok (VBool b))"

definition cast_bool_not :: "vm_value \<Rightarrow> vm_value vmrt" where
  "cast_bool_not v = try_ret (extract_bool v) (\<lambda>b. Ok (VBool (\<not> b)))"

definition cast_bytes :: "vm_value \<Rightarrow> vm_value vmrt" where
  "cast_bytes v =
     (case v of
        VBytes _ \<Rightarrow> Ok v
      | _ \<Rightarrow> try_ret (extract_bytes_ec ''CastFail'' v) (\<lambda>b. Ok (VBytes b)))"

definition cast_addr :: "vm_value \<Rightarrow> vm_value vmrt" where
  "cast_addr v =
     (case v of
        VAddress _ \<Rightarrow> Ok v
      | _ \<Rightarrow>
          try_ret (cast_bytes v) (\<lambda>w.
          case w of
            VBytes buf \<Rightarrow>
              try_ret (map_ire (address_from_bytes buf) ''CastFail'') (\<lambda>adr. Ok (VAddress adr))
          | _ \<Rightarrow> itr_err_code ''CastFail''))"

definition cast_to_ty :: "vm_value \<Rightarrow> ValueTy \<Rightarrow> vm_value vmrt" where
  "cast_to_ty v ty =
     (case ty of
        TyBool \<Rightarrow> cast_bool v
      | TyU8 \<Rightarrow> cast_to_uint_width v 8
      | TyU16 \<Rightarrow> cast_to_uint_width v 16
      | TyU32 \<Rightarrow> cast_to_uint_width v 32
      | TyU64 \<Rightarrow> cast_to_uint_width v 64
      | TyU128 \<Rightarrow> cast_to_uint_width v 128
      | TyBytes \<Rightarrow> cast_bytes v
      | TyAddress \<Rightarrow> cast_addr v
      | _ \<Rightarrow> itr_err_code ''CastFail'')"

definition cast_to :: "vm_value \<Rightarrow> u8 \<Rightarrow> vm_value vmrt" where
  "cast_to v ty = try_ret (map_ire (value_ty_build ty) ''CastFail'') (cast_to_ty v)"

definition cast_param :: "vm_value \<Rightarrow> ValueTy \<Rightarrow> vm_value vmrt" where
  "cast_param v ty =
     (let actual = val_ty v
      in if ty = actual then Ok v
         else if ty_is_uint ty \<and> ty_is_uint actual then recode (cast_to_ty v ty) ''CallArgvTypeFail''
         else if (ty = TyAddress \<and> actual = TyBytes) \<or> (ty = TyBytes \<and> actual = TyAddress)
         then recode (cast_to_ty v ty) ''CallArgvTypeFail''
         else itr_err_code ''CallArgvTypeFail'')"

definition widen_to :: "nat \<Rightarrow> vm_value \<Rightarrow> vm_value vmrt" where
  "widen_to tb v =
     (case uint_bits (val_ty v) of
        Some b \<Rightarrow> if b < tb then cast_to_uint_width v tb else Ok v
      | None \<Rightarrow> itr_err_code ''CastFail'')"

definition cast_same_uint_width2 :: "vm_value \<Rightarrow> vm_value \<Rightarrow> (vm_value \<times> vm_value) vmrt" where
  "cast_same_uint_width2 x y =
     (case (uint_bits (val_ty x), uint_bits (val_ty y)) of
        (Some lb, Some rb) \<Rightarrow>
          (let tb = max lb rb in
           try_ret (widen_to tb x) (\<lambda>x.
           try_ret (widen_to tb y) (\<lambda>y. Ok (x, y))))
      | _ \<Rightarrow> itr_err_code ''CastFail'')"

definition cast_same_uint_width3 ::
  "vm_value \<Rightarrow> vm_value \<Rightarrow> vm_value \<Rightarrow> (vm_value \<times> vm_value \<times> vm_value) vmrt" where
  "cast_same_uint_width3 x y z =
     (case (uint_bits (val_ty x), uint_bits (val_ty y), uint_bits (val_ty z)) of
        (Some xb, Some yb, Some zb) \<Rightarrow>
          (let tb = max (max xb yb) zb in
           try_ret (widen_to tb x) (\<lambda>x.
           try_ret (widen_to tb y) (\<lambda>y.
           try_ret (widen_to tb z) (\<lambda>z. Ok (x, y, z)))))
      | _ \<Rightarrow> itr_err_code ''CastFail'')"

definition cast_same_uint_width4 ::
  "vm_value \<Rightarrow> vm_value \<Rightarrow> vm_value \<Rightarrow> vm_value \<Rightarrow>
   (vm_value \<times> vm_value \<times> vm_value \<times> vm_value) vmrt" where
  "cast_same_uint_width4 x y z w =
     (case (uint_bits (val_ty x), uint_bits (val_ty y), uint_bits (val_ty z), uint_bits (val_ty w)) of
        (Some xb, Some yb, Some zb, Some wb) \<Rightarrow>
          (let tb = max (max (max xb yb) zb) wb in
           try_ret (widen_to tb x) (\<lambda>x.
           try_ret (widen_to tb y) (\<lambda>y.
           try_ret (widen_to tb z) (\<lambda>z.
           try_ret (widen_to tb w) (\<lambda>w. Ok (x, y, z, w))))))
      | _ \<Rightarrow> itr_err_code ''CastFail'')"

definition arithmetic_args2 :: "vm_value \<Rightarrow> vm_value \<Rightarrow> (vm_value \<times> vm_value) vmrt" where
  "arithmetic_args2 x y =
     try_ret (to_uint x) (\<lambda>lx.
     try_ret (to_uint y) (\<lambda>ry. cast_same_uint_width2 lx ry))"

definition arithmetic_args3 ::
  "vm_value \<Rightarrow> vm_value \<Rightarrow> vm_value \<Rightarrow> (vm_value \<times> vm_value \<times> vm_value) vmrt" where
  "arithmetic_args3 x y z =
     try_ret (to_uint x) (\<lambda>lx.
     try_ret (to_uint y) (\<lambda>my.
     try_ret (to_uint z) (\<lambda>rz. cast_same_uint_width3 lx my rz)))"

definition arithmetic_args4 ::
  "vm_value \<Rightarrow> vm_value \<Rightarrow> vm_value \<Rightarrow> vm_value \<Rightarrow>
   (vm_value \<times> vm_value \<times> vm_value \<times> vm_value) vmrt" where
  "arithmetic_args4 x y z w =
     try_ret (to_uint x) (\<lambda>lx.
     try_ret (to_uint y) (\<lambda>my.
     try_ret (to_uint z) (\<lambda>rz.
     try_ret (to_uint w) (\<lambda>qw. cast_same_uint_width4 lx my rz qw))))"

section \<open>Byte operands\<close>

definition cutbyte :: "vm_value \<Rightarrow> nat \<Rightarrow> vm_value vmrt" where
  "cutbyte v n =
     try_ret (extract_bytes_ec ''BytesHandle'' v) (\<lambda>buf.
     if n \<ge> length buf then itr_err_code ''StackError'' else Ok (VU8 (buf ! n)))"

definition cutleft :: "vm_value \<Rightarrow> nat \<Rightarrow> vm_value vmrt" where
  "cutleft v n =
     try_ret (extract_bytes_ec ''BytesHandle'' v) (\<lambda>buf.
     if n > length buf then itr_err_code ''StackError'' else Ok (VBytes (take n buf)))"

definition cutright :: "vm_value \<Rightarrow> nat \<Rightarrow> vm_value vmrt" where
  "cutright v n =
     try_ret (extract_bytes_ec ''BytesHandle'' v) (\<lambda>buf.
     try_ret (ok_or (checked_sub (length buf) n) (ItrErr ''StackError'')) (\<lambda>spx.
     Ok (VBytes (drop spx buf))))"

definition cutout :: "vm_value \<Rightarrow> vm_value \<Rightarrow> vm_value \<Rightarrow> vm_value vmrt" where
  "cutout v len ost =
     try_ret (extract_uint_cast 16 len) (\<lambda>len.
     try_ret (extract_uint_cast 16 ost) (\<lambda>ost.
     try_ret (extract_bytes_ec ''BytesHandle'' v) (\<lambda>buf.
     try_ret (ok_or (checked_add 64 len ost) (ItrErr ''StackError'')) (\<lambda>end.
     if end > length buf then itr_err_code ''StackError''
     else Ok (VBytes (take (end - ost) (drop ost buf)))))))"

definition dropleft :: "vm_value \<Rightarrow> nat \<Rightarrow> vm_value vmrt" where
  "dropleft v n =
     try_ret (extract_bytes_ec ''BytesHandle'' v) (\<lambda>buf.
     if n > length buf then itr_err_code ''StackError'' else Ok (VBytes (drop n buf)))"

definition dropright :: "vm_value \<Rightarrow> nat \<Rightarrow> vm_value vmrt" where
  "dropright v n =
     try_ret (extract_bytes_ec ''BytesHandle'' v) (\<lambda>buf.
     try_ret (ok_or (checked_sub (length buf) n) (ItrErr ''StackError'')) (\<lambda>spx.
     Ok (VBytes (take spx buf))))"

definition concat_value :: "vm_value \<Rightarrow> vm_value \<Rightarrow> SpaceCap \<Rightarrow> vm_value vmrt" where
  "concat_value a b cap =
     try_ret (extract_bytes_ec ''BytesHandle'' a) (\<lambda>av.
     try_ret (extract_bytes_ec ''BytesHandle'' b) (\<lambda>bv.
     try_ret (checked_value_output_add cap (length av) (length bv)) (\<lambda>_.
     val_valid cap (VBytes (av @ bv)))))"

section \<open>The storage codec\<close>

definition value_encode :: "vm_value \<Rightarrow> bytes ret" where
  "value_encode v =
     (if \<not> is_scalar_value v then panicf ''Value::serialize does not support Tuple/Handle/Compo''
      else case v of
        VBytes buf \<Rightarrow>
          if \<not> length buf < u16_max then panicf ''Value::serialize bytes length exceeds u16 field limit''
          else Ok ([ty_num v] @ to_be_bytes 2 (length buf) @ buf)
      | _ \<Rightarrow>
          (case scalar_bytes v of
             None \<Rightarrow> panicf ''non-scalar values are rejected above''
           | Some buf \<Rightarrow> Ok ([ty_num v] @ buf)))"

definition value_decode :: "bytes \<Rightarrow> (vm_value \<times> nat) ret" where
  "value_decode bs =
     (if length bs < 1 then errf ''value buf too short''
      else
           try_ret (value_ty_build (hd bs)) (\<lambda>ty.
           let buf = tl bs;
               num = (\<lambda>l k. if length buf < l then errf ''value buf too short'' else k (be_nat (take l buf)))
           in try_ret (case ty of
                TyNil \<Rightarrow> Ok (0, VNil)
              | TyBool \<Rightarrow> num 1 (\<lambda>b.
                  case type_from TyBool [of_nat b] of
                    Inl _ \<Rightarrow> errf ''value bool invalid''
                  | Inr v \<Rightarrow> Ok (1, v))
              | TyU8 \<Rightarrow> num 1 (\<lambda>n. Ok (1, VU8 (of_nat n)))
              | TyU16 \<Rightarrow> num 2 (\<lambda>n. Ok (2, VU16 (of_nat n)))
              | TyU32 \<Rightarrow> num 4 (\<lambda>n. Ok (4, VU32 (of_nat n)))
              | TyU64 \<Rightarrow> num 8 (\<lambda>n. Ok (8, VU64 (of_nat n)))
              | TyU128 \<Rightarrow> num 16 (\<lambda>n. Ok (16, VU128 (of_nat n)))
              | TyBytes \<Rightarrow> num 2 (\<lambda>l.
                  if length (drop 2 buf) < l then errf ''value buf too short''
                  else Ok (2 + l, VBytes (take l (drop 2 buf))))
              | TyAddress \<Rightarrow>
                  try_ret (addr_decode buf) (\<lambda>(adr, sz). Ok (sz, VAddress adr))
              | _ \<Rightarrow> errf ''Tuple, handle, compo or slice value item cannot be parsed'')
              (\<lambda>(sz, out). Ok (out, sz + 1))))"

section \<open>Widths and casts\<close>

lemma active_bits_iff [simp]:
  "ensure_active_uint_bits bits = Inr u \<longleftrightarrow> bits \<in> {8, 16, 32, 64, 128}"
  by (auto simp: ensure_active_uint_bits_def)

lemma uint_u128_opt_bits:
  "uint_u128_opt v = Some n \<Longrightarrow> \<exists>bits. uint_bits (val_ty v) = Some bits \<and> n < 2 ^ bits"
  by (cases v) (auto intro: unsigned_less [THEN order_less_le_trans])

lemma uint_bits_active: "uint_bits ty = Some bits \<Longrightarrow> bits \<in> {8, 16, 32, 64, 128}"
  by (cases ty) auto

lemma uint_bits_u128: "uint_bits (val_ty v) = Some bits \<Longrightarrow> \<exists>n < 2 ^ bits. uint_u128_opt v = Some n"
  by (cases v) (auto intro: unsigned_less [THEN order_less_le_trans])

lemma ty_is_uint_iff: "ty_is_uint ty \<longleftrightarrow> (\<exists>bits. uint_bits ty = Some bits)"
  by (cases ty) (auto simp: ty_is_uint_def)

lemma val_is_uint_iff: "val_is_uint v \<longleftrightarrow> (\<exists>n. uint_u128_opt v = Some n)"
  by (cases v) (auto simp: val_is_uint_def ty_is_uint_def)

lemma uint_u128_less: "uint_u128_opt v = Some n \<Longrightarrow> n < 2 ^ 128"
proof -
  assume "uint_u128_opt v = Some n"
  then obtain bits where "uint_bits (val_ty v) = Some bits" "n < 2 ^ bits"
    using uint_u128_opt_bits by blast
  then show ?thesis by (cases "val_ty v") auto
qed

lemma uint_try_from_Some:
  assumes "uint_try_from bits n = Some v"
  shows "uint_u128_opt v = Some n \<and> uint_bits (val_ty v) = Some bits \<and> n < 2 ^ bits"
  using assms by (auto simp: uint_try_from_def unat_of_nat split: if_splits)

lemma uint_try_from_total:
  "bits \<in> {8, 16, 32, 64, 128} \<Longrightarrow> n < 2 ^ bits \<Longrightarrow> \<exists>v. uint_try_from bits n = Some v"
  by (auto simp: uint_try_from_def)

lemma uint_value_eqI:
  assumes "uint_u128_opt v = Some n" and "uint_bits (val_ty v) = Some bits"
    and "uint_u128_opt w = Some n" and "uint_bits (val_ty w) = Some bits"
  shows "v = w"
  using assms by (cases v; cases w) (auto simp: word_unat_eq_iff)

lemma fit_be_bytes_eq:
  "fit_be_bytes n buf =
     (if be_nat buf < 256 ^ n then Some (to_be_bytes n (be_nat buf)) else None)"
proof (cases "length buf \<le> n")
  case True
  then have "be_nat buf < 256 ^ n"
    using be_nat_less [of buf] by (meson order_less_le_trans one_le_numeral power_increasing)
  moreover have "replicate (n - length buf) 0 @ buf = to_be_bytes n (be_nat buf)"
    using True calculation by (intro be_nat_inj) (simp_all add: be_nat_append be_nat_to_be_bytes)
  ultimately show ?thesis using True by (simp add: fit_be_bytes_def)
next
  case False
  define cut where "cut = length buf - n"
  have len: "length (drop cut buf) = n" using False by (simp add: cut_def)
  have split: "be_nat buf = be_nat (take cut buf) * 256 ^ n + be_nat (drop cut buf)"
    using be_nat_append [of "take cut buf" "drop cut buf"] len by simp
  have low: "be_nat (drop cut buf) < 256 ^ n" using be_nat_less [of "drop cut buf"] len by simp
  have small: "be_nat buf < 256 ^ n \<longleftrightarrow> be_nat (take cut buf) = 0"
  proof
    assume "be_nat buf < 256 ^ n"
    then show "be_nat (take cut buf) = 0" using split by (cases "be_nat (take cut buf)") auto
  qed (use split low in simp)
  have zeros: "be_nat (take cut buf) = 0 \<longleftrightarrow> \<not> list_ex (\<lambda>b. b \<noteq> 0) (take cut buf)"
    by (simp add: be_nat_eq_0_iff list_ex_iff)
  have "be_nat (take cut buf) = 0 \<Longrightarrow> drop cut buf = to_be_bytes n (be_nat buf)"
    using split low len by (intro be_nat_inj) (simp_all add: be_nat_to_be_bytes)
  with small zeros False show ?thesis by (auto simp: fit_be_bytes_def cut_def [symmetric])
qed

lemma buf_to_u128_eq:
  "buf_to_u128 buf = (if be_nat buf < 2 ^ 128 then Ok (be_nat buf) else itr_err_code ''CastFail'')"
proof -
  have "(256 :: nat) ^ 16 = 2 ^ 128" by simp
  then show ?thesis
    by (simp add: buf_to_u128_def trim_leading_zero_bytes_def fit_be_bytes_eq be_nat_to_be_bytes)
qed

lemma bytes_to_uint_width_eq:
  assumes "bits \<in> {8, 16, 32, 64, 128}"
  shows "bytes_to_uint_width buf bits = ok_or (uint_try_from bits (be_nat buf)) (ItrErr ''CastFail'')"
  using assms
  by (auto simp: bytes_to_uint_width_def fit_be_bytes_eq uint_try_from_def be_nat_to_be_bytes
      ensure_active_uint_bits_def)

text \<open>The reference form of a cast: read the number, then fit it into the target width.\<close>

lemma cast_to_uint_width_eq:
  assumes "bits \<in> {8, 16, 32, 64, 128}"
  shows "cast_to_uint_width v bits =
    (case to_u128 v of
       Inr n \<Rightarrow> ok_or (uint_try_from bits n) (ItrErr ''CastFail'')
     | Inl _ \<Rightarrow> itr_err_code ''CastFail'')"
proof -
  have act: "ensure_active_uint_bits bits = Ok ()"
    using assms by (auto simp: ensure_active_uint_bits_def)
  have le: "(2 :: nat) ^ bits \<le> 2 ^ 128" using assms by auto
  show ?thesis
  proof (cases v)
    case (VBytes buf)
    have "uint_try_from bits n = None" if "\<not> n < 2 ^ 128" for n
      using that le by (simp add: uint_try_from_def)
    then show ?thesis
      using VBytes bytes_to_uint_width_eq [OF assms]
      by (simp add: cast_to_uint_width_def to_u128_def buf_to_u128_eq act)
  qed (simp_all add: cast_to_uint_width_def act recode_def split: sum.splits)
qed

lemma cast_to_uint_width_Ok:
  assumes "cast_to_uint_width v bits = Ok w"
  shows "uint_bits (val_ty w) = Some bits \<and> (\<exists>n. to_u128 v = Ok n \<and> uint_u128_opt w = Some n)"
proof -
  have "bits \<in> {8, 16, 32, 64, 128}" using assms by (auto simp: cast_to_uint_width_def)
  with assms show ?thesis
    by (auto simp: cast_to_uint_width_eq dest: uint_try_from_Some split: sum.splits)
qed

lemma to_u128_uint: "uint_u128_opt v = Some n \<Longrightarrow> to_u128 v = Ok n"
  by (simp add: to_u128_def)

text \<open>Widening a uint keeps its number.\<close>

lemma widen_to_uint:
  assumes "uint_u128_opt v = Some n" and "uint_bits (val_ty v) = Some b"
    and "b \<le> tb" and "tb \<in> {8, 16, 32, 64, 128}"
  shows "\<exists>w. widen_to tb v = Ok w \<and> uint_u128_opt w = Some n \<and> uint_bits (val_ty w) = Some tb"
proof (cases "b < tb")
  case True
  have "n < 2 ^ b" using uint_u128_opt_bits [OF assms(1)] assms(2) by auto
  also have "(2 :: nat) ^ b \<le> 2 ^ tb" using assms(3) by simp
  finally obtain w where "uint_try_from tb n = Some w" using uint_try_from_total assms(4) by blast
  then show ?thesis using True assms uint_try_from_Some
    by (auto simp: widen_to_def cast_to_uint_width_eq to_u128_uint)
qed (use assms in \<open>auto simp: widen_to_def\<close>)

lemma to_uint_Ok [simp]: "to_uint v = Ok w \<longleftrightarrow> w = v \<and> val_is_uint v"
  by (auto simp: to_uint_def val_is_uint_def)

lemma to_uint_Err: "\<not> val_is_uint v \<Longrightarrow> to_uint v = itr_err_code ''CastFail''"
  by (simp add: to_uint_def val_is_uint_def)

lemma to_uint_eq:
  "to_uint v = (if val_is_uint v then Ok v else itr_err_code ''CastFail'')"
  by (simp add: to_uint_def val_is_uint_def)

section \<open>Map keys\<close>

lemma uint_key_bytes_eq: "n < 2 ^ 128 \<Longrightarrow> uint_key_bytes n = (if n = 0 then [0] else nat_bytes n)"
proof -
  assume "n < 2 ^ 128"
  then have "be_nat (to_be_bytes 16 n) = n" by (simp add: be_nat_to_be_bytes)
  then show ?thesis by (simp add: uint_key_bytes_def trim_leading_zero_bytes_def Let_def)
qed

lemma be_nat_uint_key_bytes: "n < 2 ^ 128 \<Longrightarrow> be_nat (uint_key_bytes n) = n"
  by (simp add: uint_key_bytes_eq)

lemma extract_key_bytes_uint:
  "uint_u128_opt v = Some n \<Longrightarrow> extract_key_bytes_ec ec v = Ok (uint_key_bytes n)"
  using uint_u128_less [of v n]
  by (cases v) (auto simp: extract_key_bytes_ec_def extract_uint_cast_def val_is_uint_def ty_is_uint_def)

lemma uint_keys_agree:
  assumes "uint_u128_opt v = Some m" and "uint_u128_opt w = Some n"
  shows "extract_key_bytes_ec ec v = extract_key_bytes_ec ec w \<longleftrightarrow> m = n"
proof
  assume "extract_key_bytes_ec ec v = extract_key_bytes_ec ec w"
  then have "uint_key_bytes m = uint_key_bytes n" using assms by (simp add: extract_key_bytes_uint)
  then have "be_nat (uint_key_bytes m) = be_nat (uint_key_bytes n)" by simp
  then show "m = n"
    using assms [THEN uint_u128_less] by (simp only: be_nat_uint_key_bytes)
qed (simp add: assms extract_key_bytes_uint)

lemma extract_key_bytes_nonempty: "extract_key_bytes_ec ec v = Ok k \<Longrightarrow> k \<noteq> []"
proof (cases "val_is_uint v")
  case True
  then obtain n where n: "uint_u128_opt v = Some n" by (auto simp: val_is_uint_iff)
  moreover assume "extract_key_bytes_ec ec v = Ok k"
  ultimately have "k = uint_key_bytes n" by (simp add: extract_key_bytes_uint)
  then show ?thesis by (simp add: uint_key_bytes_eq [OF uint_u128_less [OF n]])
qed (auto simp: extract_key_bytes_ec_def split: vm_value.splits if_splits)

section \<open>The storage codec is exact\<close>

lemma ty_build_num: "value_ty_build (ty_num_of ty) = Ok ty"
  by (cases ty) (simp_all add: value_ty_build_def)

lemma ty_build_Ok: "value_ty_build t = Ok ty \<Longrightarrow> ty_num_of ty = t"
  by (auto simp: value_ty_build_def split: if_splits)

text \<open>The values the storage accepts: scalars, bytes below the length limit, supported addresses.\<close>

fun storable :: "vm_value \<Rightarrow> bool" where
  "storable (VBytes b) \<longleftrightarrow> length b < u16_max"
| "storable (VAddress a) \<longleftrightarrow> addr_valid a"
| "storable v \<longleftrightarrow> is_scalar_value v"

lemma to_be_bytes_1: "to_be_bytes 1 (unat (b :: u8)) = [b]"
  by (rule be_nat_inj) (simp_all add: be_nat_to_be_bytes)

lemma to_be_bytes_2: "to_be_bytes 2 n = [of_nat (n div 256), of_nat n]"
  by (simp add: numeral_2_eq_2)

lemma word_mod_round:
  "of_nat (unat (a :: 16 word) mod 65536) = a"
  "of_nat (unat (b :: 32 word) mod 4294967296) = b"
  "of_nat (unat (c :: 64 word) mod 18446744073709551616) = c"
  "of_nat (unat (d :: 128 word) mod 340282366920938463463374607431768211456) = d"
  using unsigned_less [of a, where ?'a = nat] unsigned_less [of b, where ?'a = nat]
    unsigned_less [of c, where ?'a = nat] unsigned_less [of d, where ?'a = nat]
  by simp_all

lemma value_decode_encode:
  assumes "storable v"
  shows "\<exists>bs. value_encode v = Ok bs \<and> value_decode (bs @ rest) = Ok (v, length bs)"
  using assms
proof (cases v)
  case (VBytes b)
  then show ?thesis using assms
    by (simp add: value_encode_def value_decode_def ty_num_def value_ty_build_def be_nat_to_be_bytes)
next
  case (VAddress a)
  then show ?thesis using assms addr.decode_encode [of a rest]
    by (simp add: value_encode_def value_decode_def ty_num_def value_ty_build_def)
qed (auto simp: value_encode_def value_decode_def ty_num_def value_ty_build_def be_nat_to_be_bytes
    type_from_def decode_canonical_bool_byte_def encode_canonical_bool_byte_def to_be_bytes_1
    word_mod_round)

lemma be_word_round:
  "length xs = n \<Longrightarrow> (256 :: nat) ^ n = 2 ^ LENGTH('a) \<Longrightarrow>
   to_be_bytes n (unat (of_nat (be_nat xs) :: 'a::len word)) = xs"
  using be_nat_less [of xs] by (auto simp: unat_of_nat)

lemma value_encode_decode:
  assumes "value_decode bs = Ok (v, n)" and "v \<notin> VBytes ` {b. length b = u16_max}"
  shows "storable v \<and> n \<le> length bs \<and> value_encode v = Ok (take n bs)"
proof -
  from assms(1) obtain t buf where bs: "bs = t # buf" by (cases bs) (auto simp: value_decode_def)
  with assms(1) obtain ty where ty: "value_ty_build t = Ok ty"
    by (auto simp: value_decode_def)
  from ty_build_Ok [OF ty] have t: "t = ty_num_of ty" by simp
  show ?thesis
  proof (cases ty)
    case TyAddress
    then obtain a m where "addr_decode buf = Ok (a, m)" and v: "v = VAddress a" "n = m + 1"
      using assms(1) bs ty by (auto simp: value_decode_def)
    from addr.decode_take [OF this(1)] addr.decode_sound [OF this(1)] show ?thesis
      using v bs t TyAddress by (auto simp: value_encode_def ty_num_def)
  next
    case TyBytes
    define l where "l = be_nat (take 2 buf)"
    from TyBytes assms(1) bs ty have len: "2 \<le> length buf" "l \<le> length buf - 2"
      and v: "v = VBytes (take l (drop 2 buf))" "n = l + 3"
      by (auto simp: value_decode_def l_def split: if_splits)
    have "l < 65536" using be_nat_less [of "take 2 buf"] len by (simp add: l_def)
    moreover have "l \<noteq> u16_max" using assms(2) v len by auto
    moreover have "to_be_bytes 2 l = take 2 buf"
      using to_be_bytes_be_nat [of "take 2 buf"] len by (simp add: l_def)
    moreover have "take (l + 2) buf = take 2 buf @ take l (drop 2 buf)"
      by (simp add: take_add [symmetric] add.commute)
    ultimately show ?thesis using v len bs t TyBytes
      by (simp add: value_encode_def ty_num_def min_def numeral_3_eq_3)
  next
    case TyBool
    then show ?thesis using assms(1) bs ty t
      by (cases buf) (auto simp: value_decode_def value_encode_def ty_num_def type_from_def
          decode_canonical_bool_byte_def encode_canonical_bool_byte_def split: if_splits)
  next
    case TyU8
    then show ?thesis using assms(1) bs ty t
      by (cases buf) (auto simp: value_decode_def value_encode_def ty_num_def split: if_splits)
  qed (use assms(1) bs ty t in \<open>auto simp: value_decode_def value_encode_def ty_num_def be_word_round
      split: if_splits\<close>)
qed

lemma value_decode_limit:
  assumes "length b = u16_max"
  shows "value_decode ([8, 255, 255] @ b) = Ok (VBytes b, 65538) \<and>
    value_encode (VBytes b) = panicf ''Value::serialize bytes length exceeds u16 field limit''"
proof
  define l where "l = length b"
  have split2: "take 2 (x # y # b) = [x, y]" "drop 2 (x # y # b) = b" for x y
    by (simp_all add: numeral_2_eq_2)
  have "be_nat [255, 255] = l" using assms by (simp add: l_def)
  with split2 have "value_decode ([8, 255, 255] @ b) = Ok (VBytes b, 2 + l + 1)"
    by (simp add: value_decode_def value_ty_build_def l_def)
  then show "value_decode ([8, 255, 255] @ b) = Ok (VBytes b, 65538)"
    using assms by (simp add: l_def)
  show "value_encode (VBytes b) = panicf ''Value::serialize bytes length exceeds u16 field limit''"
    using assms by (simp add: value_encode_def)
qed

end
