(* ===== verification/VmArith.thy ===== *)
theory VmArith
  imports VmValue
begin

text \<open>
  The arithmetic of the virtual machine: \<^verbatim>\<open>src/vm/src/interpreter/instruction.rs\<close> over the
  registry of \<^verbatim>\<open>src/vm/src/rt/fin.rs\<close>. A \<^verbatim>\<open>u128\<close> is a natural number below \<open>U128\<close> with
  the wrap written out, and a 256-bit number a pair of high and low halves, as in the code.
  The error closures of the code differ in their message only, so they are the one code
  \<^verbatim>\<open>Arithmetic\<close>, and the operation names that only reach messages are left out.
\<close>

unbundle bit_operations_syntax

definition U128 :: nat where
  "U128 = 2 ^ 128"

abbreviation arith_err :: "'a vmrt" where
  "arith_err \<equiv> itr_err_code ''Arithmetic''"

section \<open>Rounding policies and the registry\<close>

datatype FinRoundPolicy = Exact | Floor | Ceil | HalfUp | HalfEven

datatype FinKernel =
    KDiv | KMulDiv | KSqrtMul | KQuantize | KDevScaled | KScaledDiv | KScaledAdd | KScaledSub
  | KMulShr | KMulDivDenAdd | KMulDivDenSub | KMulAddDiv | KMulSubDiv | KMul3Div | KSatAdd
  | KSatSub | KWavg2 | KLerp | KAbsDiffLte | KWithinBps | KCrossLte | KCrossGte | KCrossEq
  | KRPow | KU64Mad

datatype fin_family = FIN2 | FIN3 | FIN4 | FINP3 | FINP4 | FINPOW3

record FinSpec =
  fs_family :: fin_family
  fs_id :: nat
  fs_name :: string
  fs_kernel :: FinKernel
  fs_round :: "FinRoundPolicy option"

definition round_or_exact :: "FinSpec \<Rightarrow> FinRoundPolicy" where
  "round_or_exact spec = (case fs_round spec of Some r \<Rightarrow> r | None \<Rightarrow> Exact)"

fun fin_family_argc :: "fin_family \<Rightarrow> nat" where
  "fin_family_argc FIN2 = 2"
| "fin_family_argc FIN3 = 3"
| "fin_family_argc FINP3 = 3"
| "fin_family_argc FINPOW3 = 3"
| "fin_family_argc FIN4 = 4"
| "fin_family_argc FINP4 = 4"

abbreviation fin_spec ::
  "fin_family \<Rightarrow> nat \<Rightarrow> string \<Rightarrow> FinKernel \<Rightarrow> FinRoundPolicy option \<Rightarrow> FinSpec" where
  "fin_spec f i n k r \<equiv> \<lparr>fs_family = f, fs_id = i, fs_name = n, fs_kernel = k, fs_round = r\<rparr>"

definition FIN_SPECS :: "FinSpec list" where
  "FIN_SPECS = [
     fin_spec FIN2 0 ''div_exact'' KDiv (Some Exact),
     fin_spec FIN2 1 ''div_floor'' KDiv (Some Floor),
     fin_spec FIN2 2 ''div_ceil'' KDiv (Some Ceil),
     fin_spec FIN2 3 ''div_half_up'' KDiv (Some HalfUp),
     fin_spec FIN2 4 ''div_half_even'' KDiv (Some HalfEven),
     fin_spec FIN2 5 ''sqrt_mul_floor'' KSqrtMul (Some Floor),
     fin_spec FIN2 6 ''sqrt_mul_ceil'' KSqrtMul (Some Ceil),
     fin_spec FIN2 7 ''quantize_floor'' KQuantize (Some Floor),
     fin_spec FIN2 8 ''quantize_ceil'' KQuantize (Some Ceil),
     fin_spec FIN2 9 ''sat_add'' KSatAdd None,
     fin_spec FIN2 10 ''sat_sub'' KSatSub None,
     fin_spec FIN3 0 ''mul_div_exact'' KMulDiv (Some Exact),
     fin_spec FIN3 1 ''mul_div_floor'' KMulDiv (Some Floor),
     fin_spec FIN3 2 ''mul_div_ceil'' KMulDiv (Some Ceil),
     fin_spec FIN3 3 ''mul_div_half_up'' KMulDiv (Some HalfUp),
     fin_spec FIN3 4 ''mul_div_half_even'' KMulDiv (Some HalfEven),
     fin_spec FIN3 5 ''dev_scaled_floor'' KDevScaled (Some Floor),
     fin_spec FIN3 6 ''dev_scaled_ceil'' KDevScaled (Some Ceil),
     fin_spec FIN3 7 ''dev_scaled_half_even'' KDevScaled (Some HalfEven),
     fin_spec FIN3 8 ''scaled_div_floor'' KScaledDiv (Some Floor),
     fin_spec FIN3 9 ''scaled_div_ceil'' KScaledDiv (Some Ceil),
     fin_spec FIN3 10 ''scaled_div_half_up'' KScaledDiv (Some HalfUp),
     fin_spec FIN3 11 ''scaled_div_half_even'' KScaledDiv (Some HalfEven),
     fin_spec FIN3 12 ''mul_shr_floor'' KMulShr (Some Floor),
     fin_spec FIN3 13 ''mul_shr_ceil'' KMulShr (Some Ceil),
     fin_spec FIN3 14 ''scaled_add_floor'' KScaledAdd (Some Floor),
     fin_spec FIN3 15 ''scaled_add_ceil'' KScaledAdd (Some Ceil),
     fin_spec FIN3 16 ''scaled_sub_floor'' KScaledSub (Some Floor),
     fin_spec FIN3 17 ''scaled_sub_ceil'' KScaledSub (Some Ceil),
     fin_spec FIN3 22 ''u64_mad'' KU64Mad None,
     fin_spec FIN3 18 ''mul_div_den_add_floor'' KMulDivDenAdd (Some Floor),
     fin_spec FIN3 19 ''mul_div_den_add_ceil'' KMulDivDenAdd (Some Ceil),
     fin_spec FIN3 20 ''mul_div_den_sub_floor'' KMulDivDenSub (Some Floor),
     fin_spec FIN3 21 ''mul_div_den_sub_ceil'' KMulDivDenSub (Some Ceil),
     fin_spec FIN4 0 ''mul_add_div_exact'' KMulAddDiv (Some Exact),
     fin_spec FIN4 1 ''mul_add_div_floor'' KMulAddDiv (Some Floor),
     fin_spec FIN4 2 ''mul_add_div_ceil'' KMulAddDiv (Some Ceil),
     fin_spec FIN4 3 ''mul_add_div_half_up'' KMulAddDiv (Some HalfUp),
     fin_spec FIN4 4 ''mul_add_div_half_even'' KMulAddDiv (Some HalfEven),
     fin_spec FIN4 5 ''mul_sub_div_exact'' KMulSubDiv (Some Exact),
     fin_spec FIN4 6 ''mul_sub_div_floor'' KMulSubDiv (Some Floor),
     fin_spec FIN4 7 ''mul_sub_div_ceil'' KMulSubDiv (Some Ceil),
     fin_spec FIN4 8 ''mul_sub_div_half_up'' KMulSubDiv (Some HalfUp),
     fin_spec FIN4 9 ''mul_sub_div_half_even'' KMulSubDiv (Some HalfEven),
     fin_spec FIN4 10 ''mul3_div_exact'' KMul3Div (Some Exact),
     fin_spec FIN4 11 ''mul3_div_floor'' KMul3Div (Some Floor),
     fin_spec FIN4 12 ''mul3_div_ceil'' KMul3Div (Some Ceil),
     fin_spec FIN4 13 ''mul3_div_half_up'' KMul3Div (Some HalfUp),
     fin_spec FIN4 14 ''mul3_div_half_even'' KMul3Div (Some HalfEven),
     fin_spec FIN4 15 ''wavg2_exact'' KWavg2 (Some Exact),
     fin_spec FIN4 16 ''wavg2_floor'' KWavg2 (Some Floor),
     fin_spec FIN4 17 ''wavg2_ceil'' KWavg2 (Some Ceil),
     fin_spec FIN4 18 ''wavg2_half_up'' KWavg2 (Some HalfUp),
     fin_spec FIN4 19 ''wavg2_half_even'' KWavg2 (Some HalfEven),
     fin_spec FIN4 20 ''lerp_exact'' KLerp (Some Exact),
     fin_spec FIN4 21 ''lerp_floor'' KLerp (Some Floor),
     fin_spec FIN4 22 ''lerp_ceil'' KLerp (Some Ceil),
     fin_spec FIN4 23 ''lerp_half_up'' KLerp (Some HalfUp),
     fin_spec FIN4 24 ''lerp_half_even'' KLerp (Some HalfEven),
     fin_spec FINP3 0 ''abs_diff_lte'' KAbsDiffLte None,
     fin_spec FINP4 0 ''within_bps'' KWithinBps None,
     fin_spec FINP4 1 ''cross_lte'' KCrossLte None,
     fin_spec FINP4 2 ''cross_gte'' KCrossGte None,
     fin_spec FINP4 3 ''cross_eq'' KCrossEq None,
     fin_spec FINPOW3 0 ''rpow_half_up'' KRPow (Some HalfUp)]"

definition fin_spec_lookup :: "fin_family \<Rightarrow> nat \<Rightarrow> FinSpec vmrt" where
  "fin_spec_lookup family i =
     ok_or (List.find (\<lambda>spec. fs_family spec = family \<and> fs_id spec = i) FIN_SPECS)
       (ItrErr ''InstParamsErr'')"

definition fin_source_call_spec :: "string \<Rightarrow> FinSpec option" where
  "fin_source_call_spec name = List.find (\<lambda>spec. fs_name spec = name) FIN_SPECS"

section \<open>128-bit modular arithmetic\<close>

definition overflowing_add :: "nat \<Rightarrow> nat \<Rightarrow> nat \<times> nat" where
  "overflowing_add a b = ((a + b) mod U128, if a + b \<ge> U128 then 1 else 0)"

definition overflowing_sub :: "nat \<Rightarrow> nat \<Rightarrow> nat \<times> nat" where
  "overflowing_sub a b = ((a + U128 - b) mod U128, if a < b then 1 else 0)"

definition abs_diff :: "nat \<Rightarrow> nat \<Rightarrow> nat" where
  "abs_diff a b = (if a < b then b - a else a - b)"

definition add_mod_u128 :: "nat \<Rightarrow> nat \<Rightarrow> nat \<Rightarrow> nat" where
  "add_mod_u128 a b m =
     (let lhs = a mod m; rhs = b mod m; gap = m - rhs
      in if lhs \<ge> gap then lhs - gap else lhs + rhs)"

function mul_mod_loop :: "nat \<Rightarrow> nat \<Rightarrow> nat \<Rightarrow> nat \<Rightarrow> nat" where
  "mul_mod_loop m lhs rhs out =
     (if rhs = 0 then out
      else
        let out = (if rhs AND 1 = 1 then add_mod_u128 out lhs m else out);
            rhs' = drop_bit 1 rhs;
            lhs = (if rhs' \<noteq> 0 then add_mod_u128 lhs lhs m else lhs)
        in mul_mod_loop m lhs rhs' out)"
  by pat_completeness auto
termination
  by (relation "measure (\<lambda>(m, lhs, rhs, out). rhs)") (auto simp: drop_bit_eq_div)

definition mul_mod_u128 :: "nat \<Rightarrow> nat \<Rightarrow> nat \<Rightarrow> nat" where
  "mul_mod_u128 a b m = mul_mod_loop m (a mod m) (b mod m) 0"

section \<open>256-bit numbers\<close>

definition low_bits_mask :: "nat \<Rightarrow> nat" where
  "low_bits_mask bits =
     (if bits = 0 then 0 else if bits \<ge> 128 then U128 - 1 else push_bit bits 1 - 1)"

definition mul_wide_u128 :: "nat \<Rightarrow> nat \<Rightarrow> nat \<times> nat" where
  "mul_wide_u128 a b = (a * b div U128, a * b mod U128)"

definition add_u256_u128 :: "nat \<Rightarrow> nat \<Rightarrow> nat \<Rightarrow> (nat \<times> nat) option" where
  "add_u256_u128 hi lo add =
     (let (lo, carry) = overflowing_add lo add
      in map_option (\<lambda>hi. (hi, lo)) (checked_add 128 hi carry))"

definition add_u256 :: "nat \<Rightarrow> nat \<Rightarrow> nat \<Rightarrow> nat \<Rightarrow> (nat \<times> nat) option" where
  "add_u256 ahi alo bhi blo =
     (let (lo, carry) = overflowing_add alo blo
      in case checked_add 128 ahi bhi of
           None \<Rightarrow> None
         | Some hi \<Rightarrow> map_option (\<lambda>hi. (hi, lo)) (checked_add 128 hi carry))"

definition sub_u256 :: "nat \<Rightarrow> nat \<Rightarrow> nat \<Rightarrow> nat \<Rightarrow> (nat \<times> nat) option" where
  "sub_u256 ahi alo bhi blo =
     (let (lo, borrow) = overflowing_sub alo blo
      in case checked_sub ahi bhi of
           None \<Rightarrow> None
         | Some hi \<Rightarrow> map_option (\<lambda>hi. (hi, lo)) (checked_sub hi borrow))"

definition sub_u256_u128 :: "nat \<Rightarrow> nat \<Rightarrow> nat \<Rightarrow> (nat \<times> nat) option" where
  "sub_u256_u128 hi lo sub = sub_u256 hi lo 0 sub"

definition cmp_u256 :: "nat \<Rightarrow> nat \<Rightarrow> nat \<Rightarrow> nat \<Rightarrow> Ordering" where
  "cmp_u256 ahi alo bhi blo = then_ord (cmp_of ahi bhi) (cmp_of alo blo)"

text \<open>The loop over the bit positions below the given one, from the highest down.\<close>

fun div_u256_loop :: "nat \<Rightarrow> nat \<Rightarrow> nat \<Rightarrow> nat \<Rightarrow> nat \<Rightarrow> nat \<times> nat" where
  "div_u256_loop lo d 0 rem quo = (quo, rem)"
| "div_u256_loop lo d (Suc shift) rem quo =
     (let carry = drop_bit 127 rem;
          rem = (push_bit 1 rem mod U128) OR (drop_bit shift lo AND 1)
      in if carry \<noteq> 0 \<or> rem \<ge> d
         then div_u256_loop lo d shift (fst (overflowing_sub rem d)) (quo OR push_bit shift 1)
         else div_u256_loop lo d shift rem quo)"

definition div_u256_by_u128_to_u128 :: "nat \<Rightarrow> nat \<Rightarrow> nat \<Rightarrow> (nat \<times> nat) option" where
  "div_u256_by_u128_to_u128 hi lo d =
     (if d = 0 \<or> hi \<ge> d then None else Some (div_u256_loop lo d 128 hi 0))"

fun div_u129_loop ::
  "nat \<Rightarrow> nat \<Rightarrow> nat \<Rightarrow> nat \<Rightarrow> nat \<Rightarrow> nat \<Rightarrow> nat \<Rightarrow> nat \<Rightarrow> (nat \<times> nat \<times> nat) option" where
  "div_u129_loop n_hi n_lo d_hi d_lo 0 quo rem_hi rem_lo = Some (quo, rem_hi, rem_lo)"
| "div_u129_loop n_hi n_lo d_hi d_lo (Suc shift) quo rem_hi rem_lo =
     (let next_bit = (if shift \<ge> 128 then drop_bit (shift - 128) n_hi AND 1
                      else drop_bit shift n_lo AND 1);
          carry = drop_bit 127 rem_lo;
          rem_hi = (push_bit 1 rem_hi mod U128) OR carry;
          rem_lo = (push_bit 1 rem_lo mod U128) OR next_bit
      in if cmp_u256 rem_hi rem_lo d_hi d_lo \<noteq> Less
         then case sub_u256 rem_hi rem_lo d_hi d_lo of
                None \<Rightarrow> None
              | Some (new_hi, new_lo) \<Rightarrow>
                  if shift \<ge> 128 then None
                  else div_u129_loop n_hi n_lo d_hi d_lo shift (quo OR push_bit shift 1) new_hi new_lo
         else div_u129_loop n_hi n_lo d_hi d_lo shift quo rem_hi rem_lo)"

definition div_u256_by_u129_to_u128 ::
  "nat \<Rightarrow> nat \<Rightarrow> nat \<Rightarrow> nat \<Rightarrow> (nat \<times> nat \<times> nat) option" where
  "div_u256_by_u129_to_u128 n_hi n_lo d_hi d_lo =
     (if d_hi > 1 \<or> (d_hi = 0 \<and> d_lo = 0) then None
      else if d_hi = 0
      then map_option (\<lambda>(quo, rem). (quo, 0, rem)) (div_u256_by_u128_to_u128 n_hi n_lo d_lo)
      else div_u129_loop n_hi n_lo d_hi d_lo 256 0 0 0)"

definition shr_u256_to_u128 :: "nat \<Rightarrow> nat \<Rightarrow> nat \<Rightarrow> (nat \<times> bool) option" where
  "shr_u256_to_u128 hi lo shift =
     (if shift = 0 then (if hi = 0 then Some (lo, False) else None)
      else if shift \<le> 127 then
        (if drop_bit shift hi \<noteq> 0 then None
         else Some ((push_bit (128 - shift) hi mod U128) OR drop_bit shift lo,
                    lo AND low_bits_mask shift \<noteq> 0))
      else if shift = 128 then Some (hi, lo \<noteq> 0)
      else if shift \<le> 255 then
        (let rhs = shift - 128
         in Some (drop_bit rhs hi, lo \<noteq> 0 \<or> hi AND low_bits_mask rhs \<noteq> 0))
      else None)"

definition mul_u256_u128_to_u256_checked :: "nat \<Rightarrow> nat \<Rightarrow> nat \<Rightarrow> (nat \<times> nat) option" where
  "mul_u256_u128_to_u256_checked hi lo mul =
     (let (lo_hi, lo_lo) = mul_wide_u128 lo mul;
          (hi_hi, hi_lo) = mul_wide_u128 hi mul
      in if hi_hi \<noteq> 0 then None
         else map_option (\<lambda>out_hi. (out_hi, lo_lo)) (checked_add 128 hi_lo lo_hi))"

text \<open>\<^verbatim>\<open>u128::isqrt\<close> of the standard library.\<close>

fun isqrt :: "nat \<Rightarrow> nat" where
  "isqrt n =
     (if n = 0 then 0
      else let r = 2 * isqrt (n div 4) in if (r + 1) * (r + 1) \<le> n then r + 1 else r)"

fun isqrt_u256_loop :: "nat \<Rightarrow> nat \<Rightarrow> nat \<Rightarrow> nat \<Rightarrow> nat" where
  "isqrt_u256_loop hi lo 0 out = out"
| "isqrt_u256_loop hi lo (Suc k) out =
     (let candidate = out OR push_bit k 1;
          (sq_hi, sq_lo) = mul_wide_u128 candidate candidate
      in isqrt_u256_loop hi lo k
           (if cmp_u256 sq_hi sq_lo hi lo \<noteq> Greater then candidate else out))"

definition isqrt_u256_floor :: "nat \<Rightarrow> nat \<Rightarrow> nat" where
  "isqrt_u256_floor hi lo = (if hi = 0 then isqrt lo else isqrt_u256_loop hi lo 128 0)"

section \<open>Rounding a quotient\<close>

definition require_nonzero_u128 :: "nat \<Rightarrow> nat vmrt" where
  "require_nonzero_u128 d = (if d = 0 then arith_err else Ok d)"

definition half_up_round_u128_threshold :: "nat \<Rightarrow> nat" where
  "half_up_round_u128_threshold div' = div' - div' div 2"

definition succ_u128 :: "nat \<Rightarrow> nat vmrt" where
  "succ_u128 quo = ok_or (checked_add 128 quo 1) (ItrErr ''Arithmetic'')"

definition ceil_quot_if_rem_u128 :: "nat \<Rightarrow> nat \<Rightarrow> nat vmrt" where
  "ceil_quot_if_rem_u128 quo rem = (if rem = 0 then Ok quo else succ_u128 quo)"

definition round_half_up_div_u256_by_u128 :: "nat \<Rightarrow> nat \<Rightarrow> nat \<Rightarrow> nat vmrt" where
  "round_half_up_div_u256_by_u128 hi lo d =
     try_ret (ok_or (div_u256_by_u128_to_u128 hi lo d) (ItrErr ''Arithmetic'')) (\<lambda>(quo, rem).
     if rem \<ge> half_up_round_u128_threshold d then succ_u128 quo else Ok quo)"

definition round_half_even_quot_u128 :: "nat \<Rightarrow> nat \<Rightarrow> nat \<Rightarrow> nat vmrt" where
  "round_half_even_quot_u128 quo rem d =
     (if rem = 0 then Ok quo
      else
        try_ret
          (if rem > u128_max div 2 then Ok Greater
           else try_ret (ok_or (checked_mul 128 rem 2) (ItrErr ''Arithmetic'')) (\<lambda>dbl. Ok (cmp_of dbl d)))
          (\<lambda>cmp_half.
        if cmp_half = Greater \<or> (cmp_half = Equal \<and> quo AND 1 = 1) then succ_u128 quo else Ok quo))"

definition round_quot_u128_with_policy :: "nat \<Rightarrow> nat \<Rightarrow> nat \<Rightarrow> FinRoundPolicy \<Rightarrow> nat vmrt" where
  "round_quot_u128_with_policy quo rem d round =
     (case round of
        Exact \<Rightarrow> if rem \<noteq> 0 then arith_err else Ok quo
      | Floor \<Rightarrow> Ok quo
      | Ceil \<Rightarrow> ceil_quot_if_rem_u128 quo rem
      | HalfUp \<Rightarrow> if rem \<ge> half_up_round_u128_threshold d then succ_u128 quo else Ok quo
      | HalfEven \<Rightarrow> round_half_even_quot_u128 quo rem d)"

definition div_u256_by_u128_with_round :: "nat \<Rightarrow> nat \<Rightarrow> nat \<Rightarrow> FinRoundPolicy \<Rightarrow> nat vmrt" where
  "div_u256_by_u128_with_round hi lo d round =
     try_ret (ok_or (div_u256_by_u128_to_u128 hi lo d) (ItrErr ''Arithmetic'')) (\<lambda>(quo, rem).
     round_quot_u128_with_policy quo rem d round)"

definition div_u256_by_u129_with_round ::
  "nat \<Rightarrow> nat \<Rightarrow> nat \<Rightarrow> nat \<Rightarrow> FinRoundPolicy \<Rightarrow> nat \<Rightarrow> nat vmrt" where
  "div_u256_by_u129_with_round hi lo d_hi d_lo round half_even_parity_offset =
     try_ret (ok_or (div_u256_by_u129_to_u128 hi lo d_hi d_lo) (ItrErr ''Arithmetic''))
       (\<lambda>(quo, rem_hi, rem_lo).
     let has_rem = rem_hi \<noteq> 0 \<or> rem_lo \<noteq> 0;
         doubled = ok_or (add_u256 rem_hi rem_lo rem_hi rem_lo) (ItrErr ''Arithmetic'')
     in case round of
          Exact \<Rightarrow> if has_rem then arith_err else Ok quo
        | Floor \<Rightarrow> Ok quo
        | Ceil \<Rightarrow> if has_rem then succ_u128 quo else Ok quo
        | HalfUp \<Rightarrow>
            try_ret doubled (\<lambda>(dbl_hi, dbl_lo).
            if cmp_u256 dbl_hi dbl_lo d_hi d_lo \<noteq> Less then succ_u128 quo else Ok quo)
        | HalfEven \<Rightarrow>
            try_ret doubled (\<lambda>(dbl_hi, dbl_lo).
            let cmp_half = cmp_u256 dbl_hi dbl_lo d_hi d_lo;
                final_quo_is_odd = (quo AND 1) \<noteq> (half_even_parity_offset AND 1)
            in if cmp_half = Greater \<or> (cmp_half = Equal \<and> final_quo_is_odd)
               then succ_u128 quo else Ok quo))"

definition mul_xy_addsub_z :: "nat \<Rightarrow> nat \<Rightarrow> nat \<Rightarrow> bool \<Rightarrow> (nat \<times> nat) vmrt" where
  "mul_xy_addsub_z x y z add_z =
     (let (hi, lo) = mul_wide_u128 x y
      in if add_z then ok_or (add_u256_u128 hi lo z) (ItrErr ''Arithmetic'')
         else ok_or (sub_u256_u128 hi lo z) (ItrErr ''Arithmetic''))"

definition mul_xy_addsub_z_fit_u128 :: "nat \<Rightarrow> nat \<Rightarrow> nat \<Rightarrow> bool \<Rightarrow> nat vmrt" where
  "mul_xy_addsub_z_fit_u128 x y z add_z =
     try_ret (mul_xy_addsub_z x y z add_z) (\<lambda>(hi, lo).
     if hi \<noteq> 0 then arith_err else Ok lo)"

definition mul_xy_addsub_z_div_u128 ::
  "nat \<Rightarrow> nat \<Rightarrow> nat \<Rightarrow> nat \<Rightarrow> bool \<Rightarrow> FinRoundPolicy \<Rightarrow> nat vmrt" where
  "mul_xy_addsub_z_div_u128 x y z d add_z round =
     try_ret (mul_xy_addsub_z x y z add_z) (\<lambda>(hi, lo).
     div_u256_by_u128_with_round hi lo d round)"

definition mul_div_half_up :: "nat \<Rightarrow> nat \<Rightarrow> nat \<Rightarrow> nat vmrt" where
  "mul_div_half_up lhs rhs d =
     (let (hi, lo) = mul_wide_u128 lhs rhs in round_half_up_div_u256_by_u128 hi lo d)"

definition scaled_abs_diff_div_u128 :: "nat \<Rightarrow> nat \<Rightarrow> nat \<Rightarrow> (nat \<times> nat) option" where
  "scaled_abs_diff_div_u128 x reference scale =
     (if reference = 0 \<or> scale = 0 then None
      else let (hi, lo) = mul_wide_u128 (abs_diff x reference) scale
           in div_u256_by_u128_to_u128 hi lo reference)"

section \<open>Bits of natural numbers\<close>

lemma or_disjoint: "b < 2 ^ k \<Longrightarrow> (a * 2 ^ k) OR b = a * 2 ^ k + (b :: nat)"
proof -
  assume b: "b < 2 ^ k"
  have "(a * 2 ^ k) AND b = 0"
  proof (rule bit_eqI)
    fix n
    have "\<not> bit b n" if "k \<le> n"
    proof -
      have "(2 :: nat) ^ k \<le> 2 ^ n" using that by simp
      with b have "b < 2 ^ n" by linarith
      then show ?thesis by (simp add: bit_iff_odd)
    qed
    then show "bit (a * 2 ^ k AND b) n \<longleftrightarrow> bit (0 :: nat) n"
      by (cases "k \<le> n") (simp_all add: bit_and_iff push_bit_eq_mult [symmetric] bit_push_bit_iff)
  qed
  then show ?thesis by (simp add: disjunctive_add_eq_or)
qed

lemma or_low_bit: "b < 2 \<Longrightarrow> (2 * a) OR b = 2 * a + (b :: nat)"
  using or_disjoint [of b 1 a] by (simp add: mult.commute)

lemma and_1_mod: "(n :: nat) AND 1 = n mod 2"
  by (simp add: and_one_eq)

lemma split_bit: "(n :: nat) mod 2 ^ Suc k = 2 ^ k * (n div 2 ^ k mod 2) + n mod 2 ^ k"
  by (metis mod_mult2_eq mult.commute power_Suc add.commute)

lemma U128_pos [simp]: "0 < U128"
  by (simp add: U128_def)

lemma U128_double: "U128 = 2 * 2 ^ 127"
  by (simp add: U128_def)

declare mul_mod_loop.simps [simp del] isqrt.simps [simp del]

section \<open>Pairs of halves are numbers\<close>

definition u256 :: "nat \<Rightarrow> nat \<Rightarrow> nat" where
  "u256 hi lo = hi * U128 + lo"

definition split256 :: "nat \<Rightarrow> nat \<times> nat" where
  "split256 n = (n div U128, n mod U128)"

lemma mul_wide_u128_split: "mul_wide_u128 a b = split256 (a * b)"
  by (simp add: mul_wide_u128_def split256_def)

lemma split256_u256: "lo < U128 \<Longrightarrow> split256 (u256 hi lo) = (hi, lo)"
  by (simp add: split256_def u256_def)

lemma u256_split256: "split256 n = (hi, lo) \<Longrightarrow> u256 hi lo = n \<and> lo < U128"
  by (auto simp: split256_def u256_def)

lemma u256_div [simp]: "lo < U128 \<Longrightarrow> u256 hi lo div U128 = hi"
  by (simp add: u256_def)

lemma u256_mod [simp]: "lo < U128 \<Longrightarrow> u256 hi lo mod U128 = lo"
  by (simp add: u256_def)

lemma u256_less: "hi < U128 \<Longrightarrow> lo < U128 \<Longrightarrow> u256 hi lo < U128 * U128"
proof -
  assume "hi < U128" "lo < U128"
  then have "hi * U128 + lo < (hi + 1) * U128" by simp
  also have "\<dots> \<le> U128 * U128" using \<open>hi < U128\<close> by (intro mult_le_mono1) simp
  finally show ?thesis by (simp add: u256_def)
qed

lemma u256_div_less: "n < U128 * U128 \<Longrightarrow> n div U128 < U128"
  by (simp add: less_mult_imp_div_less)

lemma checked_add_128: "checked_add 128 a b = (if a + b < U128 then Some (a + b) else None)"
  by (simp add: checked_add_def U128_def)

lemma checked_mul_128: "checked_mul 128 a b = (if a * b < U128 then Some (a * b) else None)"
  by (simp add: checked_mul_def U128_def)

lemma carry_split:
  assumes "lo < U128" and "c < U128"
  shows "(u256 hi lo + c) div U128 = hi + (if lo + c \<ge> U128 then 1 else 0)"
    and "(u256 hi lo + c) mod U128 = (lo + c) mod U128"
proof -
  have *: "u256 hi lo + c = (lo + c) + hi * U128" by (simp add: u256_def)
  have "(lo + c) div U128 = (if lo + c \<ge> U128 then 1 else 0)"
    using assms by (auto simp: div_nat_eqI)
  then show "(u256 hi lo + c) div U128 = hi + (if lo + c \<ge> U128 then 1 else 0)"
    and "(u256 hi lo + c) mod U128 = (lo + c) mod U128" unfolding * by simp_all
qed

lemma div_U128_less_iff: "n div U128 < U128 \<longleftrightarrow> n < U128 * U128"
  by (simp add: div_less_iff_less_mult)

lemma add_u256_u128_eq:
  assumes "lo < U128" and "c < U128"
  shows "add_u256_u128 hi lo c =
    (if u256 hi lo + c < U128 * U128 then Some (split256 (u256 hi lo + c)) else None)"
  using carry_split [OF assms, of hi] div_U128_less_iff [of "u256 hi lo + c"]
  by (simp add: add_u256_u128_def overflowing_add_def split256_def checked_add_128)

lemma u256_add: "u256 ahi alo + u256 bhi blo = u256 (ahi + bhi) alo + blo"
  by (simp add: u256_def algebra_simps)

lemma add_u256_eq:
  assumes "alo < U128" and "blo < U128"
  shows "add_u256 ahi alo bhi blo =
    (if u256 ahi alo + u256 bhi blo < U128 * U128
     then Some (split256 (u256 ahi alo + u256 bhi blo)) else None)"
proof -
  note c = carry_split [OF assms, of "ahi + bhi"] div_U128_less_iff [of "u256 (ahi + bhi) alo + blo"]
  have "add_u256 ahi alo bhi blo = add_u256_u128 (ahi + bhi) alo blo"
    by (auto simp: add_u256_def add_u256_u128_def checked_add_128 Let_def split: prod.splits)
  then show ?thesis by (simp add: add_u256_u128_eq [OF assms] u256_add)
qed

lemma sub_u256_eq:
  assumes "alo < U128" and "blo < U128"
  shows "sub_u256 ahi alo bhi blo =
    (if u256 ahi alo < u256 bhi blo then None
     else Some (split256 (u256 ahi alo - u256 bhi blo)))"
proof (cases "ahi < bhi")
  case True
  then have "(ahi + 1) * U128 \<le> bhi * U128" by (intro mult_le_mono1) simp
  then have "u256 ahi alo < u256 bhi blo" using assms by (simp add: u256_def)
  with True show ?thesis by (simp add: sub_u256_def overflowing_sub_def checked_sub_def)
next
  case False
  then obtain k where k: "ahi = bhi + k" using le_Suc_ex by (metis not_less)
  show ?thesis
  proof (cases "alo < blo")
    case True
    show ?thesis
    proof (cases k)
      case 0
      with True k show ?thesis
        by (simp add: sub_u256_def overflowing_sub_def checked_sub_def u256_def)
    next
      case (Suc m)
      have le: "u256 bhi blo \<le> u256 ahi alo" using assms k Suc by (simp add: u256_def algebra_simps)
      have "u256 ahi alo - u256 bhi blo = u256 m (alo + U128 - blo)"
        using assms k Suc True by (simp add: u256_def algebra_simps)
      moreover have "alo + U128 - blo < U128" using True U128_pos by linarith
      ultimately show ?thesis using k Suc True le
        by (simp add: sub_u256_def overflowing_sub_def checked_sub_def split256_u256)
    qed
  next
    case False
    have le: "u256 bhi blo \<le> u256 ahi alo" using k False by (simp add: u256_def algebra_simps)
    have "u256 ahi alo - u256 bhi blo = u256 k (alo - blo)"
      using k False by (simp add: u256_def algebra_simps)
    moreover have "(alo + U128 - blo) mod U128 = alo - blo"
    proof -
      have e: "alo + U128 - blo = (alo - blo) + U128" using False by simp
      show ?thesis unfolding e using assms by simp
    qed
    moreover have "split256 (u256 k (alo - blo)) = (k, alo - blo)"
      using assms by (intro split256_u256) simp
    ultimately show ?thesis using k False le
      by (simp add: sub_u256_def overflowing_sub_def checked_sub_def)
  qed
qed

lemma cmp_u256_eq:
  assumes "alo < U128" and "blo < U128"
  shows "cmp_u256 ahi alo bhi blo = cmp_of (u256 ahi alo) (u256 bhi blo)"
proof -
  have hi: "u256 a l < u256 b r" if "a < b" "l < U128" for a b l r
  proof -
    have "(a + 1) * U128 \<le> b * U128" using that by (intro mult_le_mono1) simp
    with that(2) show ?thesis by (simp add: u256_def)
  qed
  consider "ahi < bhi" | "bhi < ahi" | "ahi = bhi" by linarith
  then show ?thesis
  proof cases
    case 1
    with hi [OF 1 assms(1)] show ?thesis by (simp add: cmp_u256_def cmp_of_def)
  next
    case 2
    with hi [OF 2 assms(2), of alo] show ?thesis by (simp add: cmp_u256_def cmp_of_def)
  next
    case 3
    then show ?thesis by (simp add: cmp_u256_def cmp_of_def u256_def)
  qed
qed

section \<open>Modular arithmetic is exact\<close>

lemma mod_once: "n < 2 * m \<Longrightarrow> n mod m = (if m \<le> n then n - m else (n :: nat))"
  by (auto simp: le_mod_geq)

lemma mod_add_once:
  "l < m \<Longrightarrow> r < m \<Longrightarrow> (l + r) mod m = (if l \<ge> m - r then l - (m - r) else l + (r :: nat))"
  by (auto simp: mod_once)

lemma add_mod_u128_eq: "0 < m \<Longrightarrow> add_mod_u128 a b m = (a + b) mod m"
proof -
  assume m: "0 < m"
  let ?l = "a mod m" and ?r = "b mod m"
  have b: "?l < m" "?r < m" using m by simp_all
  have "(a + b) mod m = (?l + ?r) mod m" by (simp add: mod_add_eq)
  also have "\<dots> = (if ?l \<ge> m - ?r then ?l - (m - ?r) else ?l + ?r)"
    by (auto simp: mod_add_once [OF b])
  finally show ?thesis by (simp add: add_mod_u128_def Let_def)
qed

lemma mul_mod_loop_eq:
  "0 < m \<Longrightarrow> mul_mod_loop m lhs rhs out mod m = (out + lhs * rhs) mod m \<and>
   (out < m \<longrightarrow> mul_mod_loop m lhs rhs out < m)"
proof (induction m lhs rhs out rule: mul_mod_loop.induct)
  case (1 m lhs rhs out)
  show ?case
  proof (cases "rhs = 0")
    case True
    then show ?thesis by (simp add: mul_mod_loop.simps)
  next
    case False
    define out' where "out' = (if rhs AND 1 = 1 then add_mod_u128 out lhs m else out)"
    define lhs' where "lhs' = (if drop_bit 1 rhs \<noteq> 0 then add_mod_u128 lhs lhs m else lhs)"
    have step: "mul_mod_loop m lhs rhs out = mul_mod_loop m lhs' (drop_bit 1 rhs) out'"
      using False by (subst mul_mod_loop.simps) (simp add: out'_def lhs'_def Let_def)
    have half: "drop_bit 1 rhs = rhs div 2" by (simp add: drop_bit_eq_div)
    have o: "out' mod m = (out + lhs * (rhs mod 2)) mod m"
      using "1.prems" by (auto simp: out'_def and_1_mod add_mod_u128_eq mod_2_eq_odd)
    have l: "lhs' * (rhs div 2) mod m = lhs * (2 * (rhs div 2)) mod m"
    proof (cases "rhs div 2 = 0")
      case False
      then have "lhs' * (rhs div 2) mod m = (2 * lhs) mod m * (rhs div 2) mod m"
        using "1.prems" by (simp add: lhs'_def half [unfolded One_nat_def] add_mod_u128_eq mult_2)
      also have "\<dots> = 2 * lhs * (rhs div 2) mod m" by (simp add: mod_mult_left_eq)
      finally show ?thesis by (simp add: ac_simps)
    qed simp
    have IH: "mul_mod_loop m lhs' (drop_bit 1 rhs) out' mod m = (out' + lhs' * (rhs div 2)) mod m"
      and lt: "out' < m \<longrightarrow> mul_mod_loop m lhs' (drop_bit 1 rhs) out' < m"
      using "1.IH" [OF False refl refl refl] "1.prems"
      unfolding out'_def lhs'_def half by blast+
    have "(out' + lhs' * (rhs div 2)) mod m = (out' mod m + lhs' * (rhs div 2) mod m) mod m"
      by (simp add: mod_add_eq)
    also have "\<dots> = (out + (lhs * (rhs mod 2) + lhs * (2 * (rhs div 2)))) mod m"
      unfolding o l by (simp add: mod_add_eq add.assoc)
    also have "lhs * (rhs mod 2) + lhs * (2 * (rhs div 2)) = lhs * rhs"
      by (simp only: distrib_left [symmetric] mod_mult_div_eq)
    finally have "mul_mod_loop m lhs rhs out mod m = (out + lhs * rhs) mod m"
      using IH step by (simp add: add.assoc)
    moreover have "out < m \<Longrightarrow> out' < m" using "1.prems" by (simp add: out'_def add_mod_u128_eq)
    ultimately show ?thesis using lt step by simp
  qed
qed

lemma mul_mod_u128_eq: "0 < m \<Longrightarrow> mul_mod_u128 a b m = a * b mod m"
proof -
  assume m: "0 < m"
  let ?r = "mul_mod_loop m (a mod m) (b mod m) 0"
  have "?r < m" and "?r mod m = a mod m * (b mod m) mod m" using mul_mod_loop_eq [OF m] m by auto
  then show ?thesis by (simp add: mul_mod_u128_def mod_mult_eq)
qed

section \<open>Long division is exact\<close>

lemma div_u256_loop_eq:
  assumes "rem < d" and "d < U128" and "2 ^ k dvd quo"
  shows "div_u256_loop lo d k rem quo =
    (quo + (rem * 2 ^ k + lo mod 2 ^ k) div d, (rem * 2 ^ k + lo mod 2 ^ k) mod d)"
  using assms
proof (induction k arbitrary: rem quo)
  case (Suc k)
  define b where "b = lo div 2 ^ k mod 2"
  define full where "full = 2 * rem + b"
  have b: "b < 2" by (simp add: b_def)
  have full: "full < 2 * d" using Suc.prems(1) b by (simp add: full_def)
  have T: "rem * 2 ^ Suc k + lo mod 2 ^ Suc k = full * 2 ^ k + lo mod 2 ^ k"
    unfolding split_bit by (simp add: full_def b_def algebra_simps)
  define rem' where "rem' = (push_bit 1 rem mod U128) OR (drop_bit k lo AND 1)"
  have rem': "rem' = 2 * rem mod U128 + b"
  proof -
    have "2 * rem mod U128 = 2 * (rem mod 2 ^ 127)" unfolding U128_double by (rule mod_mult_mult1)
    then show ?thesis
      using or_low_bit [OF b, of "rem mod 2 ^ 127"]
      by (simp add: rem'_def push_bit_eq_mult drop_bit_eq_div and_1_mod b_def mult.commute)
  qed
  have carry: "drop_bit 127 rem \<noteq> 0 \<longleftrightarrow> U128 \<le> 2 * rem"
    by (simp add: drop_bit_eq_div U128_double div_greater_zero_iff)
  have wrap: "2 * rem mod U128 = (if U128 \<le> 2 * rem then 2 * rem - U128 else 2 * rem)"
    using Suc.prems(1,2) by (intro mod_once) linarith
  have take: "drop_bit 127 rem \<noteq> 0 \<or> rem' \<ge> d \<longleftrightarrow> d \<le> full"
    unfolding carry rem' wrap using Suc.prems(2) by (auto simp: full_def)
  have step: "div_u256_loop lo d (Suc k) rem quo =
      (if drop_bit 127 rem \<noteq> 0 \<or> rem' \<ge> d
       then div_u256_loop lo d k (fst (overflowing_sub rem' d)) (quo OR push_bit k 1)
       else div_u256_loop lo d k rem' quo)"
    by (simp only: div_u256_loop.simps Let_def rem'_def)
  obtain q where q: "quo = q * 2 ^ Suc k" using Suc.prems(3) by (auto simp: dvd_def)
  show ?case
  proof (cases "d \<le> full")
    case True
    have sub: "fst (overflowing_sub rem' d) = full - d"
    proof -
      have "rem' + U128 - d = full - d \<or> rem' + U128 - d = full - d + U128"
        unfolding rem' wrap using True Suc.prems(2) by (auto simp: full_def)
      moreover have "full - d < U128" using full Suc.prems(2) by simp
      ultimately show ?thesis by (auto simp: overflowing_sub_def)
    qed
    have bit: "quo OR push_bit k 1 = quo + 2 ^ k"
      using or_disjoint [of "2 ^ k" "Suc k" q] by (simp add: q push_bit_eq_mult)
    have "div_u256_loop lo d (Suc k) rem quo = div_u256_loop lo d k (full - d) (quo + 2 ^ k)"
      by (simp only: step take True sub bit if_True)
    also have "\<dots> = (quo + 2 ^ k + ((full - d) * 2 ^ k + lo mod 2 ^ k) div d,
        ((full - d) * 2 ^ k + lo mod 2 ^ k) mod d)"
      using full True Suc.prems by (intro Suc.IH) (auto simp: q)
    finally have A: "div_u256_loop lo d (Suc k) rem quo = \<dots>" .
    obtain e where e: "full = d + e" using True le_Suc_ex by blast
    have E: "full * 2 ^ k + lo mod 2 ^ k = ((full - d) * 2 ^ k + lo mod 2 ^ k) + 2 ^ k * d"
      by (simp add: e algebra_simps)
    have "((full - d) * 2 ^ k + lo mod 2 ^ k) div d + 2 ^ k = (full * 2 ^ k + lo mod 2 ^ k) div d"
      and "((full - d) * 2 ^ k + lo mod 2 ^ k) mod d = (full * 2 ^ k + lo mod 2 ^ k) mod d"
      unfolding E using Suc.prems(1) by simp_all
    with A show ?thesis unfolding T by simp
  next
    case False
    then have "div_u256_loop lo d (Suc k) rem quo = div_u256_loop lo d k full quo"
    proof -
      have "rem' = full" using False take carry wrap by (simp add: rem' full_def)
      moreover have "div_u256_loop lo d (Suc k) rem quo = div_u256_loop lo d k rem' quo"
        by (simp only: step take False if_False)
      ultimately show ?thesis by simp
    qed
    also have "\<dots> = (quo + (full * 2 ^ k + lo mod 2 ^ k) div d, (full * 2 ^ k + lo mod 2 ^ k) mod d)"
      using False Suc.prems by (intro Suc.IH) (auto simp: q)
    finally show ?thesis unfolding T .
  qed
qed simp

lemma div_u256_by_u128_to_u128_eq:
  assumes "hi < U128" and "lo < U128" and "d < U128"
  shows "div_u256_by_u128_to_u128 hi lo d =
    (if d = 0 \<or> U128 \<le> u256 hi lo div d then None
     else Some (u256 hi lo div d, u256 hi lo mod d))"
proof (cases "d = 0")
  case False
  have "hi \<ge> d \<longleftrightarrow> U128 \<le> u256 hi lo div d"
  proof -
    have "U128 \<le> u256 hi lo div d \<longleftrightarrow> U128 * d \<le> u256 hi lo"
      using False by (simp add: less_eq_div_iff_mult_less_eq)
    also have "\<dots> \<longleftrightarrow> d \<le> u256 hi lo div U128"
      by (simp add: less_eq_div_iff_mult_less_eq mult.commute)
    finally show ?thesis using assms(2) by simp
  qed
  moreover have "div_u256_loop lo d 128 hi 0 = (u256 hi lo div d, u256 hi lo mod d)" if "hi < d"
    using div_u256_loop_eq [OF that assms(3), of 128 0 lo] assms(2)
    by (simp add: u256_def U128_def)
  ultimately show ?thesis using False by (auto simp: div_u256_by_u128_to_u128_def)
qed (simp add: div_u256_by_u128_to_u128_def)

lemma bit_of_u256:
  assumes "n_lo < U128"
  shows "(if shift \<ge> 128 then drop_bit (shift - 128) n_hi AND 1 else drop_bit shift n_lo AND 1) =
    u256 n_hi n_lo div 2 ^ shift mod 2"
proof (cases "shift \<ge> 128")
  case True
  then have "(2 :: nat) ^ shift = 2 ^ (128 + (shift - 128))" by simp
  then have "(2 :: nat) ^ shift = U128 * 2 ^ (shift - 128)" by (simp only: power_add U128_def)
  with True assms show ?thesis by (simp add: drop_bit_eq_div and_1_mod div_mult2_eq)
next
  case False
  then have "u256 n_hi n_lo = n_lo + (n_hi * 2 ^ (127 - shift) * 2) * 2 ^ shift"
  proof -
    have "(127 - shift) + 1 + shift = 128" using False by simp
    then have "U128 = 2 ^ (127 - shift) * 2 ^ 1 * 2 ^ shift" by (simp only: U128_def power_add [symmetric])
    then show ?thesis by (simp add: u256_def mult.assoc)
  qed
  then show ?thesis using False by (simp add: drop_bit_eq_div and_1_mod)
qed

lemma div_u129_loop_eq:
  assumes "n_lo < U128" and "d_lo < U128" and "d = u256 1 d_lo"
    and "rem_lo < U128" and "u256 rem_hi rem_lo < d" and "2 ^ k dvd quo"
    and "(u256 rem_hi rem_lo * 2 ^ k + u256 n_hi n_lo mod 2 ^ k) div d < U128"
  shows "div_u129_loop n_hi n_lo 1 d_lo k quo rem_hi rem_lo =
    (let t = u256 rem_hi rem_lo * 2 ^ k + u256 n_hi n_lo mod 2 ^ k
     in Some (quo + t div d, split256 (t mod d)))"
  using assms
proof (induction k arbitrary: quo rem_hi rem_lo)
  case 0
  then show ?case by (simp add: split256_u256)
next
  case (Suc k)
  define n where "n = u256 n_hi n_lo"
  define r where "r = u256 rem_hi rem_lo"
  define b where "b = n div 2 ^ k mod 2"
  define full where "full = 2 * r + b"
  have b: "b < 2" by (simp add: b_def)
  have d: "U128 \<le> d" "d < 2 * U128" using Suc.prems(2,3) by (simp_all add: u256_def)
  have r: "r < d" using Suc.prems(5) by (simp add: r_def)
  have full: "full < 2 * d" using r b by (simp add: full_def)
  have T: "r * 2 ^ Suc k + n mod 2 ^ Suc k = full * 2 ^ k + n mod 2 ^ k"
    unfolding split_bit by (simp add: full_def b_def algebra_simps)
  have hi1: "rem_hi < 2"
  proof -
    have "rem_hi * U128 < 2 * U128" using r d(2) unfolding r_def u256_def by linarith
    then show ?thesis by (simp only: mult_less_cancel2)
  qed
  define hi' where "hi' = (push_bit 1 rem_hi mod U128) OR drop_bit 127 rem_lo"
  define lo' where "lo' = (push_bit 1 rem_lo mod U128) OR b"
  have c: "drop_bit 127 rem_lo = 2 * rem_lo div U128"
    unfolding U128_double by (simp add: drop_bit_eq_div)
  have c2: "2 * rem_lo div U128 < 2" using Suc.prems(4) by (simp add: div_less_iff_less_mult)
  have "(2 :: nat) * 1 < U128" by (simp add: U128_def)
  then have "2 * rem_hi < U128" using hi1 by linarith
  then have hi': "hi' = 2 * rem_hi + 2 * rem_lo div U128"
    using or_low_bit [OF c2, of rem_hi] by (simp add: hi'_def c push_bit_eq_mult mult.commute)
  have lo': "lo' = 2 * rem_lo mod U128 + b" and lo'_lt: "lo' < U128"
  proof -
    have e: "2 * rem_lo mod U128 = 2 * (rem_lo mod 2 ^ 127)" unfolding U128_double by (rule mod_mult_mult1)
    then show "lo' = 2 * rem_lo mod U128 + b"
      using or_low_bit [OF b, of "rem_lo mod 2 ^ 127"] by (simp add: lo'_def push_bit_eq_mult mult.commute)
    moreover have "rem_lo mod 2 ^ 127 < (2 :: nat) ^ 127" by simp
    ultimately have "lo' < 2 * 2 ^ 127" using b unfolding e by linarith
    then show "lo' < U128" by (simp only: U128_double)
  qed
  have val: "u256 hi' lo' = full"
  proof -
    have "u256 hi' lo' = 2 * rem_hi * U128 + (2 * rem_lo div U128 * U128 + 2 * rem_lo mod U128) + b"
      by (simp add: u256_def hi' lo' algebra_simps)
    then show ?thesis by (simp only: div_mult_mod_eq) (simp add: full_def r_def u256_def algebra_simps)
  qed
  have bitk: "(if k \<ge> 128 then drop_bit (k - 128) n_hi AND 1 else drop_bit k n_lo AND 1) = b"
    using bit_of_u256 [OF Suc.prems(1)] by (simp add: b_def n_def)
  have cmp: "cmp_u256 hi' lo' 1 d_lo \<noteq> Less \<longleftrightarrow> d \<le> full"
    using Suc.prems(2,3) lo'_lt by (simp add: cmp_u256_eq val cmp_of_def)
  have step: "div_u129_loop n_hi n_lo 1 d_lo (Suc k) quo rem_hi rem_lo =
      (if cmp_u256 hi' lo' 1 d_lo \<noteq> Less
       then case sub_u256 hi' lo' 1 d_lo of
              None \<Rightarrow> None
            | Some (new_hi, new_lo) \<Rightarrow>
                if k \<ge> 128 then None
                else div_u129_loop n_hi n_lo 1 d_lo k (quo OR push_bit k 1) new_hi new_lo
       else div_u129_loop n_hi n_lo 1 d_lo k quo hi' lo')"
    by (simp only: div_u129_loop.simps Let_def bitk hi'_def lo'_def)
  obtain q where q: "quo = q * 2 ^ Suc k" using Suc.prems(6) by (auto simp: dvd_def mult.commute)
  have small: "(full * 2 ^ k + n mod 2 ^ k) div d < U128"
    using Suc.prems(7) unfolding n_def [symmetric] r_def [symmetric] T .
  show ?case
  proof (cases "d \<le> full")
    case True
    obtain e where e: "full = d + e" using True le_Suc_ex by blast
    have E: "full * 2 ^ k + n mod 2 ^ k = (e * 2 ^ k + n mod 2 ^ k) + 2 ^ k * d"
      by (simp add: e algebra_simps)
    have dpos: "0 < d" using d(1) U128_pos by linarith
    have q1: "(full * 2 ^ k + n mod 2 ^ k) div d = (e * 2 ^ k + n mod 2 ^ k) div d + 2 ^ k"
      and q2: "(full * 2 ^ k + n mod 2 ^ k) mod d = (e * 2 ^ k + n mod 2 ^ k) mod d"
      unfolding E using dpos by simp_all
    have "\<not> k \<ge> 128"
    proof
      assume "k \<ge> 128"
      then have "U128 \<le> 2 ^ k" unfolding U128_def by (intro power_increasing) simp_all
      with small q1 show False by linarith
    qed
    obtain nh nl where new: "split256 e = (nh, nl)" by fastforce
    from u256_split256 [OF new] have nl: "nl < U128" and ne: "u256 nh nl = e" by simp_all
    have sub: "sub_u256 hi' lo' 1 d_lo = Some (nh, nl)"
      using Suc.prems(2,3) lo'_lt True new by (simp add: sub_u256_eq val e)
    have bit: "quo OR push_bit k 1 = quo + 2 ^ k"
      using or_disjoint [of "2 ^ k" "Suc k" q] by (simp add: q push_bit_eq_mult)
    have "div_u129_loop n_hi n_lo 1 d_lo (Suc k) quo rem_hi rem_lo =
        div_u129_loop n_hi n_lo 1 d_lo k (quo + 2 ^ k) nh nl"
      using \<open>\<not> k \<ge> 128\<close> by (simp only: step cmp True sub bit if_True if_False option.case prod.case)
    also have "\<dots> = (let t = u256 nh nl * 2 ^ k + u256 n_hi n_lo mod 2 ^ k
        in Some (quo + 2 ^ k + t div d, split256 (t mod d)))"
      using Suc.prems full e nl ne small q1
      by (intro Suc.IH) (auto simp: q n_def [symmetric] e)
    finally show ?thesis
      unfolding n_def [symmetric] r_def [symmetric] T Let_def ne q1 q2 by simp
  next
    case False
    have "div_u129_loop n_hi n_lo 1 d_lo (Suc k) quo rem_hi rem_lo =
        div_u129_loop n_hi n_lo 1 d_lo k quo hi' lo'"
      by (simp only: step cmp False if_False)
    also have "\<dots> = (let t = u256 hi' lo' * 2 ^ k + u256 n_hi n_lo mod 2 ^ k
        in Some (quo + t div d, split256 (t mod d)))"
      using Suc.prems False lo'_lt small
      by (intro Suc.IH) (auto simp: q n_def [symmetric] val)
    finally show ?thesis unfolding n_def [symmetric] r_def [symmetric] T val .
  qed
qed

lemma div_u256_by_u129_to_u128_eq:
  assumes "n_hi < U128" and "n_lo < U128" and "d_hi < 2" and "d_lo < U128"
  shows "div_u256_by_u129_to_u128 n_hi n_lo d_hi d_lo =
    (let n = u256 n_hi n_lo; d = u256 d_hi d_lo
     in if d = 0 \<or> U128 \<le> n div d then None else Some (n div d, split256 (n mod d)))"
proof (cases "d_hi = 0")
  case True
  have "split256 (m mod d_lo) = (0, m mod d_lo)" if "0 < d_lo" for m
  proof -
    have "m mod d_lo < U128" using that assms(4) by (meson less_trans mod_less_divisor)
    then show ?thesis by (simp add: split256_def)
  qed
  with True assms show ?thesis
    by (auto simp: div_u256_by_u129_to_u128_def div_u256_by_u128_to_u128_eq u256_def Let_def)
next
  case False
  then have hi: "d_hi = 1" using assms(3) by simp
  define n where "n = u256 n_hi n_lo"
  define d where "d = u256 1 d_lo"
  have d: "U128 \<le> d" by (simp add: d_def u256_def)
  have n: "n < U128 * U128" using assms by (simp add: n_def u256_less)
  have "n div d < U128"
  proof -
    have "n < U128 * d" using n d by (meson less_le_trans mult_le_mono2)
    then show ?thesis by (rule less_mult_imp_div_less)
  qed
  moreover have "n mod 2 ^ 256 = n"
    using n unfolding U128_def power_add [symmetric] by simp
  moreover have "div_u129_loop n_hi n_lo 1 d_lo 256 0 0 0 =
      (let t = u256 0 0 * 2 ^ 256 + u256 n_hi n_lo mod 2 ^ 256 in Some (0 + t div d, split256 (t mod d)))"
    using assms d calculation by (intro div_u129_loop_eq) (simp_all add: d_def u256_def n_def)
  ultimately show ?thesis using hi d
    by (auto simp: div_u256_by_u129_to_u128_def n_def [symmetric] d_def [symmetric, unfolded One_nat_def]
        u256_def [of 0 0] Let_def)
qed

section \<open>Shifts, wide products and square roots\<close>

lemma low_bits_mask_and: "0 < s \<Longrightarrow> s < 128 \<Longrightarrow> lo AND low_bits_mask s = lo mod 2 ^ s"
proof -
  assume "0 < s" and "s < 128"
  then have "low_bits_mask s = mask s"
    by (simp add: low_bits_mask_def push_bit_eq_mult mask_eq_exp_minus_1)
  then show ?thesis by (simp add: take_bit_eq_mask [symmetric] take_bit_eq_mod)
qed

lemma mod_split_ne: "(a * k + b) mod (k * m) = a mod m * k + (b :: nat)" if "b < k"
proof -
  have "(a * k + b) div k = a" "(a * k + b) mod k = b" using that by simp_all
  then show ?thesis using mod_mult2_eq [of "a * k + b" k m] by (simp add: mult.commute)
qed

lemma shr_u256_to_u128_eq:
  assumes "hi < U128" and "lo < U128" and "s < 256"
  shows "shr_u256_to_u128 hi lo s =
    (if u256 hi lo div 2 ^ s < U128 then Some (u256 hi lo div 2 ^ s, u256 hi lo mod 2 ^ s \<noteq> 0) else None)"
proof -
  consider "s = 0" | "0 < s" "s < 128" | "128 \<le> s" by linarith
  then show ?thesis
  proof cases
    case 1
    then show ?thesis using assms(2)
      by (cases hi) (auto simp: shr_u256_to_u128_def u256_def)
  next
    case 2
    define m where "m = (2 :: nat) ^ s"
    define k where "k = (2 :: nat) ^ (128 - s)"
    have mk: "U128 = k * m" using 2 by (simp add: m_def k_def U128_def power_add [symmetric])
    have m: "0 < m" and k: "0 < k" by (simp_all add: m_def k_def)
    have val: "u256 hi lo = hi * k * m + lo" by (simp add: u256_def mk)
    have d: "u256 hi lo div m = hi * k + lo div m" and r: "u256 hi lo mod m = lo mod m"
      using m by (simp_all add: val)
    have lo: "lo div m < k" using assms(2) by (intro less_mult_imp_div_less) (simp add: mk)
    have fit: "hi div m = 0 \<longleftrightarrow> hi * k + lo div m < U128"
    proof
      assume "hi div m = 0"
      then have "hi + 1 \<le> m" using m by (simp add: div_eq_0_iff)
      then have "(hi + 1) * k \<le> m * k" by (rule mult_le_mono1)
      then have "hi * k + k \<le> U128" by (simp add: mk mult.commute)
      with lo show "hi * k + lo div m < U128" by linarith
    next
      assume "hi * k + lo div m < U128"
      then have "hi * k < m * k" unfolding mk by (simp only: mult.commute [of k m])
      then show "hi div m = 0" by simp
    qed
    have "(push_bit (128 - s) hi mod U128) OR drop_bit s lo = hi * k + lo div m" if "hi div m = 0"
    proof -
      have "hi * k < U128" using fit that by linarith
      then show ?thesis
        using or_disjoint [of "lo div m" "128 - s" hi] lo
        by (simp add: push_bit_eq_mult drop_bit_eq_div k_def m_def)
    qed
    then show ?thesis using 2 fit
      by (auto simp: shr_u256_to_u128_def m_def [symmetric] drop_bit_eq_div d r
          low_bits_mask_and Let_def)
  next
    case 3
    define m where "m = (2 :: nat) ^ (s - 128)"
    have m: "0 < m" by (simp add: m_def)
    have "(2 :: nat) ^ s = 2 ^ (128 + (s - 128))" using 3 by simp
    then have e: "(2 :: nat) ^ s = U128 * m" by (simp only: power_add U128_def m_def)
    have d: "u256 hi lo div 2 ^ s = hi div m" using assms(2) unfolding e div_mult2_eq by simp
    have r: "u256 hi lo mod 2 ^ s = hi mod m * U128 + lo"
      using mod_split_ne [OF assms(2)] by (simp add: e u256_def)
    have "hi div m < U128" using assms(1) by (meson div_le_dividend le_less_trans)
    then show ?thesis
    proof (cases "s = 128")
      case True
      then show ?thesis using \<open>hi div m < U128\<close> unfolding d r
        by (auto simp: shr_u256_to_u128_def m_def)
    next
      case False
      then show ?thesis using 3 assms(3) \<open>hi div m < U128\<close>
        by (auto simp: shr_u256_to_u128_def d r low_bits_mask_and drop_bit_eq_div m_def [symmetric] Let_def)
    qed
  qed
qed

lemma mul_u256_u128_eq:
  assumes "lo < U128"
  shows "mul_u256_u128_to_u256_checked hi lo mul =
    (if u256 hi lo * mul < U128 * U128 then Some (split256 (u256 hi lo * mul)) else None)"
proof -
  have e: "u256 hi lo * mul = lo * mul + (hi * mul) * U128" by (simp add: u256_def algebra_simps)
  have d: "u256 hi lo * mul div U128 = hi * mul + lo * mul div U128"
    and r: "u256 hi lo * mul mod U128 = lo * mul mod U128" unfolding e by simp_all
  show ?thesis
  proof (cases "hi * mul div U128 = 0")
    case True
    then have "hi * mul < U128" using U128_pos by (simp only: div_eq_0_iff) linarith
    then have "hi * mul mod U128 = hi * mul" by simp
    with True show ?thesis
      using div_U128_less_iff [of "u256 hi lo * mul"]
      by (auto simp: mul_u256_u128_to_u256_checked_def mul_wide_u128_def split256_def d r checked_add_128)
  next
    case False
    then have "U128 \<le> hi * mul" by (simp add: div_eq_0_iff)
    then have "\<not> u256 hi lo * mul < U128 * U128"
      using div_U128_less_iff [of "u256 hi lo * mul"] by (simp add: d)
    with False show ?thesis by (simp add: mul_u256_u128_to_u256_checked_def mul_wide_u128_def)
  qed
qed

definition is_isqrt :: "nat \<Rightarrow> nat \<Rightarrow> bool" where
  "is_isqrt n r \<longleftrightarrow> r * r \<le> n \<and> n < (r + 1) * (r + 1)"

lemma is_isqrt_unique: "is_isqrt n r \<Longrightarrow> is_isqrt n s \<Longrightarrow> r = s"
proof -
  have "\<not> r < s" if "is_isqrt n r" "is_isqrt n s" for r s
  proof
    assume "r < s"
    then have "(r + 1) * (r + 1) \<le> s * s" by (intro mult_le_mono) simp_all
    with that show False by (simp add: is_isqrt_def)
  qed
  then show "is_isqrt n r \<Longrightarrow> is_isqrt n s \<Longrightarrow> r = s" by (meson linorder_neqE_nat)
qed

lemma isqrt_correct: "is_isqrt n (isqrt n)"
proof (induction n rule: isqrt.induct)
  case (1 n)
  show ?case
  proof (cases "n = 0")
    case False
    define q where "q = isqrt (n div 4)"
    have q: "q * q \<le> n div 4" "n div 4 < (q + 1) * (q + 1)"
      using "1.IH" [OF False] by (simp_all add: q_def is_isqrt_def)
    have low: "(2 * q) * (2 * q) \<le> n"
    proof -
      have "4 * (q * q) \<le> 4 * (n div 4)" using q(1) by simp
      also have "\<dots> \<le> n" by simp
      finally show ?thesis by simp
    qed
    have up: "n < (2 * q + 2) * (2 * q + 2)"
    proof -
      have "n div 4 + 1 \<le> (q + 1) * (q + 1)" using q(2) by simp
      then have "4 * (n div 4 + 1) \<le> 4 * ((q + 1) * (q + 1))" by (rule mult_le_mono2)
      moreover have "n < 4 * (n div 4 + 1)" by presburger
      ultimately show ?thesis by (simp add: algebra_simps)
    qed
    have "isqrt n = (if (2 * q + 1) * (2 * q + 1) \<le> n then 2 * q + 1 else 2 * q)"
      using False by (subst isqrt.simps) (simp add: q_def Let_def)
    then show ?thesis using low up by (simp add: is_isqrt_def)
  qed (simp add: is_isqrt_def isqrt.simps)
qed

lemma isqrt_u256_loop_correct:
  assumes "2 ^ k dvd out" and "out + 2 ^ k \<le> U128" and "out * out \<le> u256 hi lo"
    and "u256 hi lo < (out + 2 ^ k) * (out + 2 ^ k)" and "lo < U128"
  shows "is_isqrt (u256 hi lo) (isqrt_u256_loop hi lo k out)"
  using assms
proof (induction k arbitrary: out)
  case 0
  then show ?case by (simp add: is_isqrt_def)
next
  case (Suc k)
  obtain q where q: "out = q * 2 ^ Suc k" using Suc.prems(1) by (auto simp: dvd_def mult.commute)
  have bit: "out OR push_bit k 1 = out + 2 ^ k"
    using or_disjoint [of "2 ^ k" "Suc k" q] by (simp add: q push_bit_eq_mult)
  define c where "c = out + 2 ^ k"
  obtain sh sl where sq: "split256 (c * c) = (sh, sl)" by fastforce
  from u256_split256 [OF sq] have sl: "sl < U128" "u256 sh sl = c * c" by simp_all
  have "isqrt_u256_loop hi lo (Suc k) out =
      isqrt_u256_loop hi lo k (if c * c \<le> u256 hi lo then c else out)"
  proof -
    have "isqrt_u256_loop hi lo (Suc k) out =
        isqrt_u256_loop hi lo k (if cmp_u256 sh sl hi lo \<noteq> Greater then c else out)"
      by (simp only: isqrt_u256_loop.simps Let_def bit c_def [symmetric] mul_wide_u128_split sq prod.case)
    then show ?thesis using sl Suc.prems(5) by (simp add: cmp_u256_eq cmp_of_def)
  qed
  moreover have "is_isqrt (u256 hi lo) (isqrt_u256_loop hi lo k (if c * c \<le> u256 hi lo then c else out))"
  proof (rule Suc.IH)
    show "2 ^ k dvd (if c * c \<le> u256 hi lo then c else out)" by (simp add: c_def q)
    show "(if c * c \<le> u256 hi lo then c else out) + 2 ^ k \<le> U128" using Suc.prems(2) by (simp add: c_def)
    show "(if c * c \<le> u256 hi lo then c else out) * (if c * c \<le> u256 hi lo then c else out) \<le> u256 hi lo"
      using Suc.prems(3) by simp
    show "u256 hi lo < ((if c * c \<le> u256 hi lo then c else out) + 2 ^ k) *
        ((if c * c \<le> u256 hi lo then c else out) + 2 ^ k)"
      using Suc.prems(4) by (simp add: c_def add.assoc mult_2)
  qed (rule Suc.prems)
  ultimately show ?case by simp
qed

lemma isqrt_u256_floor_correct:
  assumes "hi < U128" and "lo < U128"
  shows "is_isqrt (u256 hi lo) (isqrt_u256_floor hi lo)"
proof (cases "hi = 0")
  case True
  then show ?thesis using isqrt_correct by (simp add: isqrt_u256_floor_def u256_def)
next
  case False
  have "is_isqrt (u256 hi lo) (isqrt_u256_loop hi lo 128 0)"
    using u256_less [OF assms] assms(2) by (intro isqrt_u256_loop_correct) (simp_all add: U128_def)
  with False show ?thesis by (simp add: isqrt_u256_floor_def)
qed

section \<open>Rounding is exact\<close>

text \<open>
  What a policy asks of a rounded quotient \<open>q\<close> of \<open>n\<close> by \<open>d\<close>, and the function that satisfies it.
  \<open>off\<close> is added to the quotient before its parity is read.
\<close>

fun rounds_to :: "FinRoundPolicy \<Rightarrow> nat \<Rightarrow> nat \<Rightarrow> nat \<Rightarrow> bool" where
  "rounds_to Exact n d q \<longleftrightarrow> q * d = n"
| "rounds_to Floor n d q \<longleftrightarrow> q * d \<le> n \<and> n < (q + 1) * d"
| "rounds_to Ceil n d q \<longleftrightarrow> n \<le> q * d \<and> q * d < n + d"
| "rounds_to HalfUp n d q \<longleftrightarrow> 2 * (q * d) \<le> 2 * n + d \<and> 2 * n < 2 * (q * d) + d"
| "rounds_to HalfEven n d q \<longleftrightarrow>
     2 * (q * d) \<le> 2 * n + d \<and> 2 * n \<le> 2 * (q * d) + d \<and>
     (2 * (q * d) = 2 * n + d \<or> 2 * n = 2 * (q * d) + d \<longrightarrow> even q)"

fun round_off :: "nat \<Rightarrow> FinRoundPolicy \<Rightarrow> nat \<Rightarrow> nat \<Rightarrow> nat option" where
  "round_off off Exact n d = (if n mod d = 0 then Some (n div d) else None)"
| "round_off off Floor n d = Some (n div d)"
| "round_off off Ceil n d = Some (if n mod d = 0 then n div d else n div d + 1)"
| "round_off off HalfUp n d = Some (if d \<le> 2 * (n mod d) then n div d + 1 else n div d)"
| "round_off off HalfEven n d =
     Some (if d < 2 * (n mod d) \<or> (d = 2 * (n mod d) \<and> odd (n div d + off)) then n div d + 1 else n div d)"

abbreviation round_quot :: "FinRoundPolicy \<Rightarrow> nat \<Rightarrow> nat \<Rightarrow> nat option" where
  "round_quot \<equiv> round_off 0"

definition fit_u128 :: "nat option \<Rightarrow> nat vmrt" where
  "fit_u128 r = (case r of Some q \<Rightarrow> if q < U128 then Ok q else arith_err | None \<Rightarrow> arith_err)"

lemma fit_u128_simps [simp]:
  "fit_u128 None = arith_err"
  "fit_u128 (Some q) = (if q < U128 then Ok q else arith_err)"
  by (simp_all add: fit_u128_def)

lemma round_off_ge: "round_off off p n d = Some q \<Longrightarrow> n div d \<le> q"
  by (cases p) (auto split: if_splits)

lemma succ_u128_eq: "succ_u128 q = fit_u128 (Some (q + 1))"
  by (simp add: succ_u128_def checked_add_128)

lemma half_up_threshold: "half_up_round_u128_threshold d \<le> r \<longleftrightarrow> d \<le> 2 * r"
  unfolding half_up_round_u128_threshold_def by linarith

lemma round_half_even_eq:
  assumes "rem < d" and "d < U128" and "quo < U128"
  shows "round_half_even_quot_u128 quo rem d =
    fit_u128 (Some (if d < 2 * rem \<or> (d = 2 * rem \<and> odd quo) then quo + 1 else quo))"
proof (cases "rem > u128_max div 2")
  case True
  then have "U128 \<le> 2 * rem" by (simp add: U128_def)
  with assms(2) have "d < 2 * rem" by linarith
  then show ?thesis using True by (simp add: round_half_even_quot_u128_def succ_u128_eq)
next
  case False
  then have "rem * 2 < U128" by (simp add: U128_def)
  then show ?thesis using False assms
    by (auto simp: round_half_even_quot_u128_def succ_u128_eq checked_mul_128 cmp_of_def and_1_mod
        mult.commute odd_iff_mod_2_eq_one)
qed

lemma round_quot_with_policy_eq:
  assumes "0 < d" and "d < U128" and "n div d < U128"
  shows "round_quot_u128_with_policy (n div d) (n mod d) d p = fit_u128 (round_quot p n d)"
proof (cases p)
  case HalfEven
  then show ?thesis
    using round_half_even_eq [OF mod_less_divisor [OF assms(1), of n] assms(2,3)]
    by (simp add: round_quot_u128_with_policy_def)
qed (use assms in \<open>auto simp: round_quot_u128_with_policy_def ceil_quot_if_rem_u128_def succ_u128_eq
    half_up_threshold\<close>)

lemma fit_u128_big: "U128 \<le> n div d \<Longrightarrow> fit_u128 (round_off off p n d) = arith_err"
  using round_off_ge [of off p n d] by (cases "round_off off p n d") force+

lemma div_u256_by_u128_with_round_eq:
  assumes "hi < U128" and "lo < U128" and "d < U128" and "0 < d"
  shows "div_u256_by_u128_with_round hi lo d p = fit_u128 (round_quot p (u256 hi lo) d)"
  using assms round_quot_with_policy_eq [OF assms(4,3)] fit_u128_big
  by (auto simp: div_u256_by_u128_with_round_def div_u256_by_u128_to_u128_eq)

lemma div_u256_by_u128_with_round_0:
  "div_u256_by_u128_with_round hi lo 0 p = arith_err"
  by (simp add: div_u256_by_u128_with_round_def div_u256_by_u128_to_u128_def)

lemma round_half_up_div_eq:
  assumes "hi < U128" and "lo < U128" and "d < U128" and "0 < d"
  shows "round_half_up_div_u256_by_u128 hi lo d = fit_u128 (round_quot HalfUp (u256 hi lo) d)"
  using div_u256_by_u128_with_round_eq [OF assms, of HalfUp]
  by (simp add: div_u256_by_u128_with_round_def round_half_up_div_u256_by_u128_def
      round_quot_u128_with_policy_def)

lemma parity_differs: "k mod 2 \<noteq> off mod 2 \<longleftrightarrow> odd (k + off)" for k off :: nat
  by presburger

lemma div_u256_by_u129_with_round_eq:
  assumes "hi < U128" and "lo < U128" and "d_hi < 2" and "d_lo < U128" and "0 < u256 d_hi d_lo"
  shows "div_u256_by_u129_with_round hi lo d_hi d_lo p off =
    fit_u128 (round_off off p (u256 hi lo) (u256 d_hi d_lo))"
proof (cases "U128 \<le> u256 hi lo div u256 d_hi d_lo")
  case True
  then show ?thesis using assms
    by (simp add: div_u256_by_u129_with_round_def div_u256_by_u129_to_u128_eq fit_u128_big)
next
  case False
  define n where "n = u256 hi lo"
  define d where "d = u256 d_hi d_lo"
  obtain rh rl where r: "split256 (n mod d) = (rh, rl)" by fastforce
  from u256_split256 [OF r] have rl: "rl < U128" and val: "u256 rh rl = n mod d" by simp_all
  have "d < 2 * U128"
  proof -
    have "d_hi * U128 \<le> 1 * U128" using assms(3) by (intro mult_le_mono1) simp
    then show ?thesis using assms(4) unfolding d_def u256_def by linarith
  qed
  moreover have "n mod d < d" using assms(5) by (simp add: d_def)
  moreover have "4 * U128 \<le> U128 * U128" by (simp add: U128_def)
  ultimately have "n mod d + n mod d < U128 * U128" by linarith
  then obtain dh dl where dbl: "add_u256 rh rl rh rl = Some (dh, dl)"
    and dv: "u256 dh dl = 2 * (n mod d)" "dl < U128"
    using rl u256_split256 by (simp add: add_u256_eq val mult_2) (metis surj_pair)
  have rem: "rh \<noteq> 0 \<or> rl \<noteq> 0 \<longleftrightarrow> n mod d \<noteq> 0"
    by (simp add: val [symmetric] u256_def)
  have A: "div_u256_by_u129_to_u128 hi lo d_hi d_lo = Some (n div d, rh, rl)"
    using False assms by (simp add: div_u256_by_u129_to_u128_eq n_def d_def r [unfolded n_def d_def])
  have B: "cmp_u256 dh dl d_hi d_lo = cmp_of (2 * (n mod d)) d"
    using dv assms(4) by (simp add: cmp_u256_eq d_def)
  have C: "(n div d) AND 1 \<noteq> off AND 1 \<longleftrightarrow> odd (n div d + off)"
    unfolding and_1_mod by (rule parity_differs)
  have D: "n div d < U128" using False by (simp add: n_def d_def)
  have "div_u256_by_u129_with_round hi lo d_hi d_lo p off = (case p of
      Exact \<Rightarrow> if n mod d \<noteq> 0 then arith_err else Ok (n div d)
    | Floor \<Rightarrow> Ok (n div d)
    | Ceil \<Rightarrow> if n mod d \<noteq> 0 then succ_u128 (n div d) else Ok (n div d)
    | HalfUp \<Rightarrow> if cmp_of (2 * (n mod d)) d \<noteq> Less then succ_u128 (n div d) else Ok (n div d)
    | HalfEven \<Rightarrow> if cmp_of (2 * (n mod d)) d = Greater \<or>
          (cmp_of (2 * (n mod d)) d = Equal \<and> odd (n div d + off))
        then succ_u128 (n div d) else Ok (n div d))"
    by (simp only: div_u256_by_u129_with_round_def A ok_or_simps try_ret_simps prod.case Let_def
        rem dbl B C)
  then show ?thesis
    unfolding n_def [symmetric] d_def [symmetric]
    by (cases p) (auto simp: D succ_u128_eq cmp_of_def)
qed

lemma round_quot_correct:
  assumes "0 < d"
  shows "round_quot p n d = Some q \<longleftrightarrow> rounds_to p n d q"
proof -
  define k where "k = n div d"
  define r where "r = n mod d"
  have n: "n = k * d + r" and r: "r < d" using assms by (simp_all add: k_def r_def)
  have cases: "q = k \<or> q = k + 1 \<or> q + 1 \<le> k \<or> k + 2 \<le> q" by linarith
  have lo: "q * d + d \<le> k * d" if "q + 1 \<le> k" using mult_le_mono1 [OF that, of d] by simp
  have hi: "k * d + 2 * d \<le> q * d" if "k + 2 \<le> q" using mult_le_mono1 [OF that, of d] by simp
  have "round_off 0 p n d = Some q \<longleftrightarrow> (case p of
      Exact \<Rightarrow> r = 0 \<and> q = k
    | Floor \<Rightarrow> q = k
    | Ceil \<Rightarrow> q = (if r = 0 then k else k + 1)
    | HalfUp \<Rightarrow> q = (if d \<le> 2 * r then k + 1 else k)
    | HalfEven \<Rightarrow> q = (if d < 2 * r \<or> (d = 2 * r \<and> odd k) then k + 1 else k))"
    by (cases p) (auto simp: k_def r_def)
  also have "\<dots> \<longleftrightarrow> rounds_to p n d q"
    using cases
  proof (elim disjE)
    assume "q = k" then show ?thesis using r by (cases p) (auto simp: n algebra_simps)
  next
    assume "q = k + 1" then show ?thesis using r by (cases p) (auto simp: n algebra_simps)
  next
    assume "q + 1 \<le> k" then show ?thesis using r lo by (cases p) (auto simp: n algebra_simps)
  next
    assume "k + 2 \<le> q" then show ?thesis using r hi by (cases p) (auto simp: n algebra_simps)
  qed
  finally show ?thesis .
qed

end
