(* ===== verification/VmFin.thy ===== *)
theory VmFin
  imports VmArith
begin

text \<open>
  The value-level operations of \<^verbatim>\<open>src/vm/src/interpreter/instruction.rs\<close>: logic, comparison, bit
  operations, checked arithmetic and the registered financial kernels. Each kernel is proved equal
  to one exact rounded quotient, with an error exactly when that quotient is undefined or does not
  fit the width of the operands.
\<close>

section \<open>Logic, comparison and bits\<close>

definition lgc_and :: "vm_value \<Rightarrow> vm_value \<Rightarrow> vm_value vmrt" where
  "lgc_and x y =
     try_ret (extract_bool x) (\<lambda>lx.
     try_ret (extract_bool y) (\<lambda>ry. Ok (VBool (lx \<and> ry))))"

definition lgc_or :: "vm_value \<Rightarrow> vm_value \<Rightarrow> vm_value vmrt" where
  "lgc_or x y =
     try_ret (extract_bool x) (\<lambda>lx.
     try_ret (extract_bool y) (\<lambda>ry. Ok (VBool (lx \<or> ry))))"

definition lgc_ord_cmp :: "(nat \<Rightarrow> nat \<Rightarrow> bool) \<Rightarrow> vm_value \<Rightarrow> vm_value \<Rightarrow> vm_value vmrt" where
  "lgc_ord_cmp f x y =
     (if \<not> val_is_uint x \<or> \<not> val_is_uint y then arith_err
      else
        try_ret (extract_uint_cast 128 x) (\<lambda>lx.
        try_ret (extract_uint_cast 128 y) (\<lambda>ry. Ok (VBool (f lx ry)))))"

definition lgc_less :: "vm_value \<Rightarrow> vm_value \<Rightarrow> vm_value vmrt" where
  "lgc_less = lgc_ord_cmp (\<lambda>l r. l < r)"

definition lgc_less_equal :: "vm_value \<Rightarrow> vm_value \<Rightarrow> vm_value vmrt" where
  "lgc_less_equal = lgc_ord_cmp (\<lambda>l r. l \<le> r)"

definition lgc_greater :: "vm_value \<Rightarrow> vm_value \<Rightarrow> vm_value vmrt" where
  "lgc_greater = lgc_ord_cmp (\<lambda>l r. l > r)"

definition lgc_greater_equal :: "vm_value \<Rightarrow> vm_value \<Rightarrow> vm_value vmrt" where
  "lgc_greater_equal = lgc_ord_cmp (\<lambda>l r. l \<ge> r)"

text \<open>
  The macros \<^verbatim>\<open>bitop!\<close> and \<^verbatim>\<open>ahmtdo!\<close> match two values of one width; anything else is an
  error. \<open>same_uint\<close> is that match: the width and the two numbers.
\<close>

definition same_uint :: "vm_value \<Rightarrow> vm_value \<Rightarrow> (nat \<times> nat \<times> nat) option" where
  "same_uint x y =
     (case (uint_bits (val_ty x), uint_u128_opt x, uint_u128_opt y) of
        (Some w, Some l, Some r) \<Rightarrow> if val_ty x = val_ty y then Some (w, l, r) else None
      | _ \<Rightarrow> None)"

definition bitop :: "(nat \<Rightarrow> nat \<Rightarrow> nat) \<Rightarrow> vm_value \<Rightarrow> vm_value \<Rightarrow> vm_value vmrt" where
  "bitop op x y =
     (case same_uint x y of
        None \<Rightarrow> arith_err
      | Some (w, l, r) \<Rightarrow> ok_or (uint_try_from w (op l r)) (ItrErr ''Arithmetic''))"

definition bit_and :: "vm_value \<Rightarrow> vm_value \<Rightarrow> vm_value vmrt" where
  "bit_and = bitop (\<lambda>l r. l AND r)"

definition bit_or :: "vm_value \<Rightarrow> vm_value \<Rightarrow> vm_value vmrt" where
  "bit_or = bitop (\<lambda>l r. l OR r)"

definition bit_xor :: "vm_value \<Rightarrow> vm_value \<Rightarrow> vm_value vmrt" where
  "bit_xor = bitop (\<lambda>l r. l XOR r)"

definition checked_shl :: "nat \<Rightarrow> nat \<Rightarrow> nat \<Rightarrow> nat option" where
  "checked_shl w l s = (if s < w then Some (push_bit s l mod 2 ^ w) else None)"

definition checked_shr :: "nat \<Rightarrow> nat \<Rightarrow> nat \<Rightarrow> nat option" where
  "checked_shr w l s = (if s < w then Some (drop_bit s l) else None)"

definition ahmtdo :: "(nat \<Rightarrow> nat \<Rightarrow> nat \<Rightarrow> nat option) \<Rightarrow> vm_value \<Rightarrow> vm_value \<Rightarrow> vm_value vmrt" where
  "ahmtdo op x y =
     (case same_uint x y of
        None \<Rightarrow> arith_err
      | Some (w, l, r) \<Rightarrow>
          try_ret (ok_or (op w l r) (ItrErr ''Arithmetic'')) (\<lambda>n.
          ok_or (uint_try_from w n) (ItrErr ''Arithmetic'')))"

text \<open>A shift of the 64 and 128-bit types first narrows the distance to 32 bits.\<close>

definition bit_shl :: "vm_value \<Rightarrow> vm_value \<Rightarrow> vm_value vmrt" where
  "bit_shl = ahmtdo (\<lambda>w l r. if r > u32_max then None else checked_shl w l r)"

definition bit_shr :: "vm_value \<Rightarrow> vm_value \<Rightarrow> vm_value vmrt" where
  "bit_shr = ahmtdo (\<lambda>w l r. if r > u32_max then None else checked_shr w l r)"

section \<open>Checked arithmetic\<close>

definition checked_div :: "nat \<Rightarrow> nat \<Rightarrow> nat option" where
  "checked_div l r = (if r = 0 then None else Some (l div r))"

definition checked_rem :: "nat \<Rightarrow> nat \<Rightarrow> nat option" where
  "checked_rem l r = (if r = 0 then None else Some (l mod r))"

definition vm_add_checked :: "vm_value \<Rightarrow> vm_value \<Rightarrow> vm_value vmrt" where
  "vm_add_checked = ahmtdo checked_add"

definition vm_sub_checked :: "vm_value \<Rightarrow> vm_value \<Rightarrow> vm_value vmrt" where
  "vm_sub_checked = ahmtdo (\<lambda>_. checked_sub)"

definition vm_mul_checked :: "vm_value \<Rightarrow> vm_value \<Rightarrow> vm_value vmrt" where
  "vm_mul_checked = ahmtdo checked_mul"

definition vm_div_checked :: "vm_value \<Rightarrow> vm_value \<Rightarrow> vm_value vmrt" where
  "vm_div_checked = ahmtdo (\<lambda>_. checked_div)"

definition vm_mod_checked :: "vm_value \<Rightarrow> vm_value \<Rightarrow> vm_value vmrt" where
  "vm_mod_checked = ahmtdo (\<lambda>_. checked_rem)"

definition vm_pow_checked :: "vm_value \<Rightarrow> vm_value \<Rightarrow> vm_value vmrt" where
  "vm_pow_checked = ahmtdo (\<lambda>w l r. if r > u32_max then None else checked_pow w l r)"

definition saturating_uint_add :: "vm_value \<Rightarrow> vm_value \<Rightarrow> vm_value vmrt" where
  "saturating_uint_add = ahmtdo (\<lambda>w l r. Some (min (l + r) (2 ^ w - 1)))"

definition saturating_uint_sub :: "vm_value \<Rightarrow> vm_value \<Rightarrow> vm_value vmrt" where
  "saturating_uint_sub = ahmtdo (\<lambda>_ l r. Some (l - r))"

definition absdiff_checked :: "vm_value \<Rightarrow> vm_value \<Rightarrow> vm_value vmrt" where
  "absdiff_checked = ahmtdo (\<lambda>_ l r. Some (abs_diff l r))"

definition max_checked :: "vm_value \<Rightarrow> vm_value \<Rightarrow> vm_value vmrt" where
  "max_checked x y =
     try_ret (extract_uint_cast 128 x) (\<lambda>a.
     try_ret (extract_uint_cast 128 y) (\<lambda>b. Ok (if a > b then x else y)))"

definition min_checked :: "vm_value \<Rightarrow> vm_value \<Rightarrow> vm_value vmrt" where
  "min_checked x y =
     try_ret (extract_uint_cast 128 x) (\<lambda>a.
     try_ret (extract_uint_cast 128 y) (\<lambda>b. Ok (if a < b then x else y)))"

definition inc_dec :: "(nat \<Rightarrow> nat \<Rightarrow> nat \<Rightarrow> nat option) \<Rightarrow> vm_value \<Rightarrow> nat \<Rightarrow> vm_value vmrt" where
  "inc_dec op v n =
     (case (uint_bits (val_ty v), uint_u128_opt v) of
        (Some w, Some l) \<Rightarrow>
          try_ret (ok_or (op w l n) (ItrErr ''CastFail'')) (\<lambda>m.
          ok_or (uint_try_from w m) (ItrErr ''CastFail''))
      | _ \<Rightarrow> itr_err_code ''CastFail'')"

definition val_inc :: "vm_value \<Rightarrow> nat \<Rightarrow> vm_value vmrt" where
  "val_inc = inc_dec checked_add"

definition val_dec :: "vm_value \<Rightarrow> nat \<Rightarrow> vm_value vmrt" where
  "val_dec = inc_dec (\<lambda>_. checked_sub)"

definition unary_inc :: "vm_value \<Rightarrow> nat \<Rightarrow> vm_value vmrt" where
  "unary_inc x n =
     (if \<not> val_is_uint x then arith_err else recode (val_inc x n) ''Arithmetic'')"

definition unary_dec :: "vm_value \<Rightarrow> nat \<Rightarrow> vm_value vmrt" where
  "unary_dec x n =
     (if \<not> val_is_uint x then arith_err else recode (val_dec x n) ''Arithmetic'')"

section \<open>Kernels over wide products\<close>

definition cast_uint_like_sample :: "vm_value \<Rightarrow> nat \<Rightarrow> vm_value vmrt" where
  "cast_uint_like_sample sample out =
     (case uint_bits (val_ty sample) of
        None \<Rightarrow> arith_err
      | Some w \<Rightarrow> ok_or (uint_try_from w out) (ItrErr ''Arithmetic''))"

abbreviation extract_u128 :: "vm_value \<Rightarrow> nat vmrt" where
  "extract_u128 \<equiv> extract_uint_cast 128"

definition sqrt_floor_checked :: "vm_value \<Rightarrow> vm_value vmrt" where
  "sqrt_floor_checked x = try_ret (extract_u128 x) (\<lambda>n. cast_uint_like_sample x (isqrt n))"

definition sqrt_up_checked :: "vm_value \<Rightarrow> vm_value vmrt" where
  "sqrt_up_checked x =
     try_ret (extract_u128 x) (\<lambda>n.
     let f = isqrt n
     in try_ret (if n \<le> 1 then Ok n
                 else if checked_mul 128 f f = Some n then Ok f
                 else succ_u128 f)
          (cast_uint_like_sample x))"

definition sqrtmul_with_round_checked :: "vm_value \<Rightarrow> vm_value \<Rightarrow> FinRoundPolicy \<Rightarrow> vm_value vmrt" where
  "sqrtmul_with_round_checked x y round =
     try_ret (extract_u128 x) (\<lambda>a.
     try_ret (extract_u128 y) (\<lambda>b.
     let (hi, lo) = mul_wide_u128 a b; floor = isqrt_u256_floor hi lo
     in try_ret (case round of
                   Floor \<Rightarrow> Ok floor
                 | Ceil \<Rightarrow>
                     (let (sq_hi, sq_lo) = mul_wide_u128 floor floor
                      in if cmp_u256 sq_hi sq_lo hi lo = Equal then Ok floor else succ_u128 floor)
                 | _ \<Rightarrow> arith_err)
          (cast_uint_like_sample x)))"

definition quantize_with_round_checked :: "vm_value \<Rightarrow> vm_value \<Rightarrow> FinRoundPolicy \<Rightarrow> vm_value vmrt" where
  "quantize_with_round_checked x y round =
     try_ret (extract_u128 x) (\<lambda>value.
     try_ret (extract_u128 y) (\<lambda>step.
     try_ret (require_nonzero_u128 step) (\<lambda>step.
     let quo = value div step; rem = value mod step
     in try_ret (case round of
                   Floor \<Rightarrow> ok_or (checked_mul 128 quo step) (ItrErr ''Arithmetic'')
                 | Ceil \<Rightarrow>
                     if rem = 0 then Ok value
                     else ok_or (Option.bind (checked_add 128 quo 1) (\<lambda>q. checked_mul 128 q step))
                            (ItrErr ''Arithmetic'')
                 | _ \<Rightarrow> arith_err)
          (cast_uint_like_sample x))))"

definition addmod_checked :: "vm_value \<Rightarrow> vm_value \<Rightarrow> vm_value \<Rightarrow> vm_value vmrt" where
  "addmod_checked x y z =
     try_ret (extract_u128 x) (\<lambda>a.
     try_ret (extract_u128 y) (\<lambda>b.
     try_ret (try_ret (extract_u128 z) require_nonzero_u128) (\<lambda>modu.
     cast_uint_like_sample x (add_mod_u128 a b modu))))"

definition mulmod_checked :: "vm_value \<Rightarrow> vm_value \<Rightarrow> vm_value \<Rightarrow> vm_value vmrt" where
  "mulmod_checked x y z =
     try_ret (try_ret (extract_u128 z) require_nonzero_u128) (\<lambda>modu.
     try_ret (extract_u128 x) (\<lambda>a.
     try_ret (extract_u128 y) (\<lambda>b.
     cast_uint_like_sample x (mul_mod_u128 a b modu))))"

definition muldiv_with_round_checked ::
  "vm_value \<Rightarrow> vm_value \<Rightarrow> vm_value \<Rightarrow> FinRoundPolicy \<Rightarrow> vm_value vmrt" where
  "muldiv_with_round_checked x y z round =
     try_ret (try_ret (extract_u128 z) require_nonzero_u128) (\<lambda>d.
     try_ret (extract_u128 x) (\<lambda>a.
     try_ret (extract_u128 y) (\<lambda>b.
     let (hi, lo) = mul_wide_u128 a b
     in try_ret (div_u256_by_u128_with_round hi lo d round) (cast_uint_like_sample x))))"

definition scaled_addsub_checked ::
  "vm_value \<Rightarrow> vm_value \<Rightarrow> vm_value \<Rightarrow> bool \<Rightarrow> FinRoundPolicy \<Rightarrow> vm_value vmrt" where
  "scaled_addsub_checked x y z add_delta round =
     (if round \<noteq> Floor \<and> round \<noteq> Ceil then arith_err
      else
        try_ret (extract_u128 x) (\<lambda>value.
        try_ret (extract_u128 y) (\<lambda>rate.
        try_ret (try_ret (extract_u128 z) require_nonzero_u128) (\<lambda>scale.
        let (hi, lo) = mul_wide_u128 value rate
        in try_ret (div_u256_by_u128_with_round hi lo scale round) (\<lambda>delta.
           try_ret (ok_or (if add_delta then checked_add 128 value delta else checked_sub value delta)
                      (ItrErr ''Arithmetic''))
             (cast_uint_like_sample x))))))"

definition u64_mad_checked :: "vm_value \<Rightarrow> vm_value \<Rightarrow> vm_value \<Rightarrow> vm_value vmrt" where
  "u64_mad_checked x y z =
     try_ret (extract_u128 x) (\<lambda>base.
     try_ret (extract_u128 y) (\<lambda>index.
     try_ret (extract_u128 z) (\<lambda>stride.
     let (hi, lo) = mul_wide_u128 index stride
     in if hi \<noteq> 0 then arith_err
        else try_ret (ok_or (checked_add 128 lo base) (ItrErr ''Arithmetic''))
               (cast_uint_like_sample x))))"

definition muldiv_den_addsub_checked ::
  "vm_value \<Rightarrow> vm_value \<Rightarrow> vm_value \<Rightarrow> bool \<Rightarrow> FinRoundPolicy \<Rightarrow> vm_value vmrt" where
  "muldiv_den_addsub_checked x y z add_to_den round =
     (if round \<noteq> Floor \<and> round \<noteq> Ceil then arith_err
      else
        try_ret (extract_u128 x) (\<lambda>lhs.
        try_ret (extract_u128 y) (\<lambda>rhs.
        try_ret (extract_u128 z) (\<lambda>den_base.
        let (hi, lo) = mul_wide_u128 lhs rhs
        in try_ret
             (if add_to_den then
                try_ret (ok_or (add_u256_u128 0 den_base rhs) (ItrErr ''Arithmetic''))
                  (\<lambda>(den_hi, den_lo). div_u256_by_u129_with_round hi lo den_hi den_lo round 0)
              else
                try_ret (ok_or (checked_sub den_base rhs) (ItrErr ''Arithmetic'')) (\<lambda>den.
                try_ret (require_nonzero_u128 den) (\<lambda>den.
                div_u256_by_u128_with_round hi lo den round)))
             (cast_uint_like_sample x)))))"

definition muladdsub_checked :: "vm_value \<Rightarrow> vm_value \<Rightarrow> vm_value \<Rightarrow> bool \<Rightarrow> vm_value vmrt" where
  "muladdsub_checked x y z add_z =
     try_ret (extract_u128 x) (\<lambda>a.
     try_ret (extract_u128 y) (\<lambda>b.
     try_ret (extract_u128 z) (\<lambda>c.
     try_ret (mul_xy_addsub_z_fit_u128 a b c add_z) (cast_uint_like_sample x))))"

definition mul_shr_impl :: "vm_value \<Rightarrow> vm_value \<Rightarrow> vm_value \<Rightarrow> bool \<Rightarrow> vm_value vmrt" where
  "mul_shr_impl x y z ceil_dropped =
     try_ret (extract_u128 z) (\<lambda>shift.
     try_ret (extract_u128 x) (\<lambda>a.
     try_ret (extract_u128 y) (\<lambda>b.
     let (hi, lo) = mul_wide_u128 a b
     in try_ret
          (if shift \<ge> 256 then Ok (if ceil_dropped \<and> (hi \<noteq> 0 \<or> lo \<noteq> 0) then 1 else 0)
           else
             try_ret (ok_or (shr_u256_to_u128 hi lo shift) (ItrErr ''Arithmetic'')) (\<lambda>(out, dropped).
             if ceil_dropped \<and> dropped then succ_u128 out else Ok out))
          (cast_uint_like_sample x))))"

function rpow_loop :: "nat \<Rightarrow> nat \<Rightarrow> nat \<Rightarrow> nat \<Rightarrow> nat vmrt" where
  "rpow_loop base n bas out =
     (if n \<le> 1 then Ok out
      else
        let n = drop_bit 1 n
        in try_ret (mul_div_half_up bas bas base) (\<lambda>bas.
           if n AND 1 = 1
           then try_ret (mul_div_half_up out bas base) (\<lambda>out. rpow_loop base n bas out)
           else rpow_loop base n bas out))"
  by pat_completeness auto
termination
  by (relation "measure (\<lambda>(base, n, bas, out). n)") (auto simp: drop_bit_eq_div)

definition rpow_checked :: "vm_value \<Rightarrow> vm_value \<Rightarrow> vm_value \<Rightarrow> vm_value vmrt" where
  "rpow_checked x y z =
     try_ret (extract_u128 y) (\<lambda>n.
     try_ret (extract_u128 z) (\<lambda>base.
     if base = 0 then arith_err
     else if n = 0 then cast_uint_like_sample x base
     else
       try_ret (extract_u128 x) (\<lambda>bas.
       try_ret (rpow_loop base n bas (if n AND 1 = 1 then bas else base)) (cast_uint_like_sample x))))"

definition clamp_checked :: "vm_value \<Rightarrow> vm_value \<Rightarrow> vm_value \<Rightarrow> vm_value vmrt" where
  "clamp_checked x y z =
     try_ret (extract_u128 x) (\<lambda>xv.
     try_ret (extract_u128 y) (\<lambda>lo.
     try_ret (extract_u128 z) (\<lambda>hi.
     if lo > hi then arith_err
     else cast_uint_like_sample x (if xv < lo then lo else if xv > hi then hi else xv))))"

definition div_with_round_checked :: "vm_value \<Rightarrow> vm_value \<Rightarrow> FinRoundPolicy \<Rightarrow> vm_value vmrt" where
  "div_with_round_checked x y round =
     try_ret (try_ret (extract_u128 y) require_nonzero_u128) (\<lambda>d.
     try_ret (extract_u128 x) (\<lambda>num.
     try_ret (round_quot_u128_with_policy (num div d) (num mod d) d round)
       (cast_uint_like_sample x)))"

definition muladdsubdiv_checked ::
  "vm_value \<Rightarrow> vm_value \<Rightarrow> vm_value \<Rightarrow> vm_value \<Rightarrow> bool \<Rightarrow> FinRoundPolicy \<Rightarrow> vm_value vmrt" where
  "muladdsubdiv_checked x y z w add_z round =
     try_ret (try_ret (extract_u128 w) require_nonzero_u128) (\<lambda>d.
     try_ret (extract_u128 x) (\<lambda>a.
     try_ret (extract_u128 y) (\<lambda>b.
     try_ret (extract_u128 z) (\<lambda>c.
     try_ret (mul_xy_addsub_z_div_u128 a b c d add_z round) (cast_uint_like_sample x)))))"

definition mul3div_checked ::
  "vm_value \<Rightarrow> vm_value \<Rightarrow> vm_value \<Rightarrow> vm_value \<Rightarrow> FinRoundPolicy \<Rightarrow> vm_value vmrt" where
  "mul3div_checked x y z w round =
     try_ret (try_ret (extract_u128 w) require_nonzero_u128) (\<lambda>d.
     try_ret (extract_u128 x) (\<lambda>a.
     try_ret (extract_u128 y) (\<lambda>b.
     let (hi, lo) = mul_wide_u128 a b
     in try_ret (extract_u128 z) (\<lambda>c.
        try_ret (ok_or (mul_u256_u128_to_u256_checked hi lo c) (ItrErr ''Arithmetic'')) (\<lambda>(hi, lo).
        try_ret (div_u256_by_u128_with_round hi lo d round) (cast_uint_like_sample x))))))"

definition devscaled_with_round_checked ::
  "vm_value \<Rightarrow> vm_value \<Rightarrow> vm_value \<Rightarrow> FinRoundPolicy \<Rightarrow> vm_value vmrt" where
  "devscaled_with_round_checked x y z round =
     try_ret (extract_u128 y) (\<lambda>reference.
     try_ret (extract_u128 z) (\<lambda>scale.
     try_ret (extract_u128 x) (\<lambda>v.
     try_ret (ok_or (scaled_abs_diff_div_u128 v reference scale) (ItrErr ''Arithmetic'')) (\<lambda>(quo, rem).
     try_ret (round_quot_u128_with_policy quo rem reference round) (cast_uint_like_sample x)))))"

definition withinbps_checked ::
  "vm_value \<Rightarrow> vm_value \<Rightarrow> vm_value \<Rightarrow> vm_value \<Rightarrow> vm_value vmrt" where
  "withinbps_checked x y z w =
     try_ret (extract_u128 x) (\<lambda>value.
     try_ret (extract_u128 y) (\<lambda>reference.
     try_ret (extract_u128 z) (\<lambda>tolerance.
     try_ret (extract_u128 w) (\<lambda>scale.
     if reference = 0 \<or> scale = 0 then arith_err
     else if tolerance > scale then arith_err
     else
       let (lhs_hi, lhs_lo) = mul_wide_u128 (abs_diff value reference) scale;
           (rhs_hi, rhs_lo) = mul_wide_u128 reference tolerance
       in Ok (VBool (cmp_u256 lhs_hi lhs_lo rhs_hi rhs_lo \<noteq> Greater))))))"

definition crossmul_pred_checked ::
  "vm_value \<Rightarrow> vm_value \<Rightarrow> vm_value \<Rightarrow> vm_value \<Rightarrow> FinKernel \<Rightarrow> vm_value vmrt" where
  "crossmul_pred_checked x y z w knl =
     try_ret (extract_u128 x) (\<lambda>a.
     try_ret (extract_u128 y) (\<lambda>b.
     try_ret (extract_u128 z) (\<lambda>c.
     try_ret (extract_u128 w) (\<lambda>d.
     let (lhs_hi, lhs_lo) = mul_wide_u128 a b;
         (rhs_hi, rhs_lo) = mul_wide_u128 c d;
         ord = cmp_u256 lhs_hi lhs_lo rhs_hi rhs_lo
     in case knl of
          KCrossLte \<Rightarrow> Ok (VBool (ord \<noteq> Greater))
        | KCrossGte \<Rightarrow> Ok (VBool (ord \<noteq> Less))
        | KCrossEq \<Rightarrow> Ok (VBool (ord = Equal))
        | _ \<Rightarrow> arith_err))))"

definition wavg2_checked ::
  "vm_value \<Rightarrow> vm_value \<Rightarrow> vm_value \<Rightarrow> vm_value \<Rightarrow> FinRoundPolicy \<Rightarrow> vm_value vmrt" where
  "wavg2_checked x y z w round =
     try_ret (extract_u128 x) (\<lambda>lhs.
     try_ret (extract_u128 z) (\<lambda>rhs.
     try_ret (extract_u128 y) (\<lambda>wx.
     try_ret (extract_u128 w) (\<lambda>wy.
     try_ret (ok_or (add_u256_u128 0 wx wy) (ItrErr ''Arithmetic'')) (\<lambda>(den_hi, den_lo).
     if den_hi = 0 \<and> den_lo = 0 then arith_err
     else if lhs = rhs then cast_uint_like_sample x lhs
     else
       let (base, diff, diff_weight) =
             (if lhs < rhs then (lhs, rhs - lhs, wy) else (rhs, lhs - rhs, wx));
           (part_hi, part_lo) = mul_wide_u128 diff diff_weight
       in try_ret (div_u256_by_u129_with_round part_hi part_lo den_hi den_lo round base) (\<lambda>part.
          try_ret (ok_or (checked_add 128 base part) (ItrErr ''Arithmetic''))
            (cast_uint_like_sample x)))))))"

definition lerp_checked ::
  "vm_value \<Rightarrow> vm_value \<Rightarrow> vm_value \<Rightarrow> vm_value \<Rightarrow> FinRoundPolicy \<Rightarrow> vm_value vmrt" where
  "lerp_checked x y z w round =
     try_ret (extract_u128 x) (\<lambda>start.
     try_ret (extract_u128 y) (\<lambda>end.
     try_ret (extract_u128 z) (\<lambda>weight.
     try_ret (extract_u128 w) (\<lambda>base.
     if base = 0 \<or> weight > base then arith_err
     else
       let left_weight = base - weight;
           (lhs_hi, lhs_lo) = mul_wide_u128 start left_weight;
           (rhs_hi, rhs_lo) = mul_wide_u128 end weight
       in try_ret (ok_or (add_u256 lhs_hi lhs_lo rhs_hi rhs_lo) (ItrErr ''Arithmetic''))
            (\<lambda>(num_hi, num_lo).
          try_ret (div_u256_by_u128_with_round num_hi num_lo base round) (cast_uint_like_sample x))))))"

section \<open>Dispatch on the registry\<close>

abbreviation invalid_fin_spec :: "vm_value vmrt" where
  "invalid_fin_spec \<equiv> itr_err_code ''InstParamsErr''"

definition fin2_checked :: "FinSpec \<Rightarrow> vm_value \<Rightarrow> vm_value \<Rightarrow> vm_value vmrt" where
  "fin2_checked spec x y =
     (let round = round_or_exact spec
      in case fs_kernel spec of
           KDiv \<Rightarrow> div_with_round_checked x y round
         | KSqrtMul \<Rightarrow> sqrtmul_with_round_checked x y round
         | KQuantize \<Rightarrow> quantize_with_round_checked x y round
         | KSatAdd \<Rightarrow> saturating_uint_add x y
         | KSatSub \<Rightarrow> saturating_uint_sub x y
         | _ \<Rightarrow> invalid_fin_spec)"

definition fin3_checked :: "FinSpec \<Rightarrow> vm_value \<Rightarrow> vm_value \<Rightarrow> vm_value \<Rightarrow> vm_value vmrt" where
  "fin3_checked spec x y z =
     (let round = round_or_exact spec
      in case fs_kernel spec of
           KMulDiv \<Rightarrow> muldiv_with_round_checked x y z round
         | KScaledDiv \<Rightarrow> muldiv_with_round_checked x y z round
         | KDevScaled \<Rightarrow> devscaled_with_round_checked x y z round
         | KScaledAdd \<Rightarrow> scaled_addsub_checked x y z True round
         | KScaledSub \<Rightarrow> scaled_addsub_checked x y z False round
         | KMulShr \<Rightarrow>
             if round = Floor then mul_shr_impl x y z False
             else if round = Ceil then mul_shr_impl x y z True
             else invalid_fin_spec
         | KMulDivDenAdd \<Rightarrow> muldiv_den_addsub_checked x y z True round
         | KMulDivDenSub \<Rightarrow> muldiv_den_addsub_checked x y z False round
         | KU64Mad \<Rightarrow> u64_mad_checked x y z
         | _ \<Rightarrow> invalid_fin_spec)"

definition fin4_checked ::
  "FinSpec \<Rightarrow> vm_value \<Rightarrow> vm_value \<Rightarrow> vm_value \<Rightarrow> vm_value \<Rightarrow> vm_value vmrt" where
  "fin4_checked spec x y z w =
     (let round = round_or_exact spec
      in case fs_kernel spec of
           KMulAddDiv \<Rightarrow> muladdsubdiv_checked x y z w True round
         | KMulSubDiv \<Rightarrow> muladdsubdiv_checked x y z w False round
         | KMul3Div \<Rightarrow> mul3div_checked x y z w round
         | KWavg2 \<Rightarrow> wavg2_checked x y z w round
         | KLerp \<Rightarrow> lerp_checked x y z w round
         | _ \<Rightarrow> invalid_fin_spec)"

definition finp3_checked :: "FinSpec \<Rightarrow> vm_value \<Rightarrow> vm_value \<Rightarrow> vm_value \<Rightarrow> vm_value vmrt" where
  "finp3_checked spec x y z =
     (case fs_kernel spec of
        KAbsDiffLte \<Rightarrow>
          try_ret (extract_u128 x) (\<lambda>xv.
          try_ret (extract_u128 y) (\<lambda>yv.
          try_ret (extract_u128 z) (\<lambda>tol. Ok (VBool (abs_diff xv yv \<le> tol)))))
      | _ \<Rightarrow> invalid_fin_spec)"

definition finp4_checked ::
  "FinSpec \<Rightarrow> vm_value \<Rightarrow> vm_value \<Rightarrow> vm_value \<Rightarrow> vm_value \<Rightarrow> vm_value vmrt" where
  "finp4_checked spec x y z w =
     (case fs_kernel spec of
        KWithinBps \<Rightarrow> withinbps_checked x y z w
      | KCrossLte \<Rightarrow> crossmul_pred_checked x y z w KCrossLte
      | KCrossGte \<Rightarrow> crossmul_pred_checked x y z w KCrossGte
      | KCrossEq \<Rightarrow> crossmul_pred_checked x y z w KCrossEq
      | _ \<Rightarrow> invalid_fin_spec)"

definition finpow3_checked :: "FinSpec \<Rightarrow> vm_value \<Rightarrow> vm_value \<Rightarrow> vm_value \<Rightarrow> vm_value vmrt" where
  "finpow3_checked spec x y z =
     (case fs_kernel spec of KRPow \<Rightarrow> rpow_checked x y z | _ \<Rightarrow> invalid_fin_spec)"

section \<open>Operands of different widths\<close>

definition locop_arithmetic ::
  "(vm_value \<Rightarrow> vm_value \<Rightarrow> vm_value vmrt) \<Rightarrow> vm_value \<Rightarrow> vm_value \<Rightarrow> vm_value vmrt" where
  "locop_arithmetic f x y = try_ret (arithmetic_args2 x y) (\<lambda>(lx, ry). f lx ry)"

definition locop_arithmetic3 ::
  "(vm_value \<Rightarrow> vm_value \<Rightarrow> vm_value \<Rightarrow> vm_value vmrt) \<Rightarrow>
   vm_value \<Rightarrow> vm_value \<Rightarrow> vm_value \<Rightarrow> vm_value vmrt" where
  "locop_arithmetic3 f x y z = try_ret (arithmetic_args3 x y z) (\<lambda>(lx, my, rz). f lx my rz)"

definition locop_arithmetic4 ::
  "(vm_value \<Rightarrow> vm_value \<Rightarrow> vm_value \<Rightarrow> vm_value \<Rightarrow> vm_value vmrt) \<Rightarrow>
   vm_value \<Rightarrow> vm_value \<Rightarrow> vm_value \<Rightarrow> vm_value \<Rightarrow> vm_value vmrt" where
  "locop_arithmetic4 f x y z w =
     try_ret (arithmetic_args4 x y z w) (\<lambda>(lx, my, rz, qw). f lx my rz qw)"

text \<open>
  A three-operand kernel widens its operands first, except the multiply-add, which checks its
  result against the width of the base.
\<close>

definition triop_fin :: "FinSpec \<Rightarrow> vm_value \<Rightarrow> vm_value \<Rightarrow> vm_value \<Rightarrow> vm_value vmrt" where
  "triop_fin spec x y z =
     (if fs_kernel spec \<noteq> KU64Mad then locop_arithmetic3 (fin3_checked spec) x y z
      else
        try_ret (to_uint z) (\<lambda>z.
        try_ret (to_uint y) (\<lambda>y.
        try_ret (to_uint x) (\<lambda>x. fin3_checked spec x y z))))"

section \<open>What the kernels compute\<close>

text \<open>
  The exact result of a registered operation on numbers; no value where the operation is undefined.
\<close>

definition sqrt_round :: "FinRoundPolicy \<Rightarrow> nat \<Rightarrow> nat" where
  "sqrt_round p n = (if p = Ceil \<and> isqrt n * isqrt n \<noteq> n then isqrt n + 1 else isqrt n)"

definition fin2_ref :: "FinKernel \<Rightarrow> FinRoundPolicy \<Rightarrow> nat \<Rightarrow> nat \<Rightarrow> nat \<Rightarrow> nat option" where
  "fin2_ref knl p w a b =
     (case knl of
        KDiv \<Rightarrow> if b = 0 then None else round_quot p a b
      | KSqrtMul \<Rightarrow> Some (sqrt_round p (a * b))
      | KQuantize \<Rightarrow> if b = 0 then None else map_option (\<lambda>q. q * b) (round_quot p a b)
      | KSatAdd \<Rightarrow> Some (min (a + b) (2 ^ w - 1))
      | KSatSub \<Rightarrow> Some (a - b)
      | _ \<Rightarrow> None)"

definition fin3_ref :: "FinKernel \<Rightarrow> FinRoundPolicy \<Rightarrow> nat \<Rightarrow> nat \<Rightarrow> nat \<Rightarrow> nat option" where
  "fin3_ref knl p a b c =
     (case knl of
        KMulDiv \<Rightarrow> if c = 0 then None else round_quot p (a * b) c
      | KScaledDiv \<Rightarrow> if c = 0 then None else round_quot p (a * b) c
      | KDevScaled \<Rightarrow> if b = 0 \<or> c = 0 then None else round_quot p (abs_diff a b * c) b
      | KScaledAdd \<Rightarrow> if c = 0 then None else map_option (\<lambda>q. a + q) (round_quot p (a * b) c)
      | KScaledSub \<Rightarrow>
          if c = 0 then None
          else Option.bind (round_quot p (a * b) c) (\<lambda>q. if q \<le> a then Some (a - q) else None)
      | KMulShr \<Rightarrow> round_quot p (a * b) (2 ^ c)
      | KMulDivDenAdd \<Rightarrow> if c + b = 0 then None else round_quot p (a * b) (c + b)
      | KMulDivDenSub \<Rightarrow> if c \<le> b then None else round_quot p (a * b) (c - b)
      | KU64Mad \<Rightarrow> Some (a + b * c)
      | _ \<Rightarrow> None)"

definition fin4_ref :: "FinKernel \<Rightarrow> FinRoundPolicy \<Rightarrow> nat \<Rightarrow> nat \<Rightarrow> nat \<Rightarrow> nat \<Rightarrow> nat option" where
  "fin4_ref knl p a b c d =
     (case knl of
        KMulAddDiv \<Rightarrow> if d = 0 then None else round_quot p (a * b + c) d
      | KMulSubDiv \<Rightarrow> if d = 0 \<or> a * b < c then None else round_quot p (a * b - c) d
      | KMul3Div \<Rightarrow> if d = 0 then None else round_quot p (a * b * c) d
      | KWavg2 \<Rightarrow> if b + d = 0 then None else round_quot p (a * b + c * d) (b + d)
      | KLerp \<Rightarrow> if d = 0 \<or> d < c then None else round_quot p (a * (d - c) + b * c) d
      | _ \<Rightarrow> None)"

text \<open>The predicates, and the fixed-point power: the rounded product of the repeated squares of \<open>x\<close> that
  the bits of the exponent pick, where every square and every product has to fit 128 bits.\<close>

definition finp3_ref :: "FinKernel \<Rightarrow> nat \<Rightarrow> nat \<Rightarrow> nat \<Rightarrow> bool option" where
  "finp3_ref knl a b c = (case knl of KAbsDiffLte \<Rightarrow> Some (a \<le> b + c \<and> b \<le> a + c) | _ \<Rightarrow> None)"

definition finp4_ref :: "FinKernel \<Rightarrow> nat \<Rightarrow> nat \<Rightarrow> nat \<Rightarrow> nat \<Rightarrow> bool option" where
  "finp4_ref knl a b c d =
     (case knl of
        KWithinBps \<Rightarrow>
          if b = 0 \<or> d = 0 \<or> d < c then None else Some (a * d \<le> b * d + b * c \<and> b * d \<le> a * d + b * c)
      | KCrossLte \<Rightarrow> Some (a * b \<le> c * d)
      | KCrossGte \<Rightarrow> Some (c * d \<le> a * b)
      | KCrossEq \<Rightarrow> Some (a * b = c * d)
      | _ \<Rightarrow> None)"

definition half_up :: "nat \<Rightarrow> nat \<Rightarrow> nat" where
  "half_up n d = (2 * n + d) div (2 * d)"

primrec rpow_square :: "nat \<Rightarrow> nat \<Rightarrow> nat \<Rightarrow> nat" where
  "rpow_square base x 0 = x"
| "rpow_square base x (Suc k) = half_up (rpow_square base x k * rpow_square base x k) base"

primrec rpow_product :: "nat \<Rightarrow> nat \<Rightarrow> nat \<Rightarrow> nat \<Rightarrow> nat" where
  "rpow_product base x n 0 = (if odd n then x else base)"
| "rpow_product base x n (Suc k) =
     (if odd (n div 2 ^ Suc k) then half_up (rpow_product base x n k * rpow_square base x (Suc k)) base
      else rpow_product base x n k)"

fun top_bit :: "nat \<Rightarrow> nat" where
  "top_bit n = (if n \<le> 1 then 0 else Suc (top_bit (n div 2)))"

definition finpow3_ref :: "FinKernel \<Rightarrow> nat \<Rightarrow> nat \<Rightarrow> nat \<Rightarrow> nat option" where
  "finpow3_ref knl x n base =
     (if knl \<noteq> KRPow \<or> base = 0 then None
      else if n = 0 then Some base
      else if list_all (\<lambda>k. rpow_square base x k < U128 \<and> rpow_product base x n k < U128) [0..<top_bit n + 1]
      then Some (rpow_product base x n (top_bit n))
      else None)"

definition pred_result :: "bool option \<Rightarrow> vm_value vmrt" where
  "pred_result r = (case r of Some b \<Rightarrow> Ok (VBool b) | None \<Rightarrow> arith_err)"

definition fit_width :: "nat \<Rightarrow> nat option \<Rightarrow> vm_value vmrt" where
  "fit_width w r =
     (case r of
        Some q \<Rightarrow> if q < 2 ^ w then ok_or (uint_try_from w q) (ItrErr ''Arithmetic'') else arith_err
      | None \<Rightarrow> arith_err)"

definition uint_at :: "nat \<Rightarrow> vm_value \<Rightarrow> nat \<Rightarrow> bool" where
  "uint_at w v n \<longleftrightarrow> uint_bits (val_ty v) = Some w \<and> uint_u128_opt v = Some n"

lemma uint_at_less: "uint_at w v n \<Longrightarrow> n < 2 ^ w"
  using uint_u128_opt_bits [of v n] by (auto simp: uint_at_def)

lemma uint_at_u128: "uint_at w v n \<Longrightarrow> n < U128"
  using uint_u128_less [of v n] by (simp add: uint_at_def U128_def)

lemma uint_at_width: "uint_at w v n \<Longrightarrow> 2 ^ w \<le> U128"
  using uint_bits_active [of "val_ty v" w] by (auto simp: uint_at_def U128_def)

lemma uint_at_extract: "uint_at w v n \<Longrightarrow> extract_u128 v = Ok n"
  using uint_u128_less [of v n] by (simp add: uint_at_def extract_uint_cast_def)

lemma cast_to_uint_width_iff:
  assumes "bits \<in> {8, 16, 32, 64, 128}"
  shows "cast_to_uint_width v bits = Ok u \<longleftrightarrow> (\<exists>n < 2 ^ bits. to_u128 v = Ok n \<and> uint_at bits u n)"
proof
  assume "cast_to_uint_width v bits = Ok u"
  with cast_to_uint_width_Ok obtain n where "to_u128 v = Ok n" "uint_at bits u n"
    unfolding uint_at_def by blast
  then show "\<exists>n < 2 ^ bits. to_u128 v = Ok n \<and> uint_at bits u n" using uint_at_less by blast
next
  assume "\<exists>n < 2 ^ bits. to_u128 v = Ok n \<and> uint_at bits u n"
  then obtain n where n: "n < 2 ^ bits" "to_u128 v = Ok n" "uint_at bits u n" by blast
  with uint_try_from_total [OF assms] obtain u' where u': "uint_try_from bits n = Some u'" by blast
  have "u' = u" using uint_try_from_Some [OF u'] n(3) by (auto simp: uint_at_def intro: uint_value_eqI)
  then show "cast_to_uint_width v bits = Ok u" using u' n(2) by (simp add: cast_to_uint_width_eq [OF assms])
qed

lemma cast_uint_like_sample_eq: "uint_at w v n \<Longrightarrow> cast_uint_like_sample v q = fit_width w (Some q)"
  by (simp add: uint_at_def cast_uint_like_sample_def fit_width_def uint_try_from_def)

text \<open>Fitting 128 bits first and the operand width afterwards is fitting the operand width.\<close>

lemma fit_then_width:
  assumes "uint_at w v n"
  shows "try_ret (fit_u128 r) (cast_uint_like_sample v) = fit_width w r"
proof (cases r)
  case (Some q)
  then show ?thesis
    using uint_at_width [OF assms] cast_uint_like_sample_eq [OF assms, of q]
    by (auto simp: fit_width_def)
qed (simp add: fit_width_def)

lemma fit_width_None [simp]: "fit_width w None = arith_err"
  by (simp add: fit_width_def)

lemma product_split:
  assumes "a < U128" and "b < U128" and "mul_wide_u128 a b = (hi, lo)"
  shows "hi < U128" and "lo < U128" and "u256 hi lo = a * b"
proof -
  have "a * b < U128 * U128" using assms(1,2) by (intro mult_strict_mono) auto
  with assms(3) u256_split256 [of "a * b" hi lo] show "hi < U128" "lo < U128" "u256 hi lo = a * b"
    by (auto simp: mul_wide_u128_split split256_def div_U128_less_iff)
qed

lemmas uint_at_facts = uint_at_extract uint_at_u128

lemma require_nonzero_eq: "require_nonzero_u128 d = (if d = 0 then arith_err else Ok d)"
  by (simp add: require_nonzero_u128_def)

section \<open>Each kernel is exact\<close>

lemma muldiv_eq:
  assumes "uint_at w x a" and "uint_at w2 y b" and "uint_at w3 z c"
  shows "muldiv_with_round_checked x y z p =
    fit_width w (if c = 0 then None else round_quot p (a * b) c)"
proof (cases "c = 0")
  case False
  obtain hi lo where m: "mul_wide_u128 a b = (hi, lo)" by fastforce
  note h = product_split [OF uint_at_u128 [OF assms(1)] uint_at_u128 [OF assms(2)] m]
  show ?thesis
    using False m div_u256_by_u128_with_round_eq [OF h(1,2) uint_at_u128 [OF assms(3)], of p]
      fit_then_width [OF assms(1)]
    by (simp add: muldiv_with_round_checked_def assms [THEN uint_at_extract] require_nonzero_eq h(3))
qed (simp add: muldiv_with_round_checked_def assms [THEN uint_at_extract] require_nonzero_eq)

lemma div_eq:
  assumes "uint_at w x a" and "uint_at w2 y b"
  shows "div_with_round_checked x y p = fit_width w (if b = 0 then None else round_quot p a b)"
proof (cases "b = 0")
  case False
  have "a div b < U128" using uint_at_u128 [OF assms(1)] by (meson div_le_dividend le_less_trans)
  then show ?thesis
    using False round_quot_with_policy_eq [of b a p] uint_at_u128 [OF assms(2)]
      fit_then_width [OF assms(1)]
    by (simp add: div_with_round_checked_def assms [THEN uint_at_extract] require_nonzero_eq)
qed (simp add: div_with_round_checked_def assms [THEN uint_at_extract] require_nonzero_eq)

lemma mul_addsub_eq:
  assumes "a < U128" and "b < U128" and "c < U128"
  shows "mul_xy_addsub_z a b c add_z =
    (if add_z then Ok (split256 (a * b + c))
     else if a * b < c then arith_err else Ok (split256 (a * b - c)))"
    and "a * b + c < U128 * U128"
proof -
  obtain hi lo where m: "mul_wide_u128 a b = (hi, lo)" by fastforce
  note h = product_split [OF assms(1,2) m]
  have "a * b \<le> (U128 - 1) * (U128 - 1)" using assms(1,2) by (intro mult_le_mono) simp_all
  moreover have "(U128 - 1) * (U128 - 1) + U128 \<le> U128 * U128" by (simp add: U128_def)
  ultimately show lt: "a * b + c < U128 * U128" using assms(3) by linarith
  have "u256 0 c = c" by (simp add: u256_def)
  then show "mul_xy_addsub_z a b c add_z =
    (if add_z then Ok (split256 (a * b + c))
     else if a * b < c then arith_err else Ok (split256 (a * b - c)))"
    using lt h(3) assms(3) h(2)
    by (simp add: mul_xy_addsub_z_def m add_u256_u128_eq sub_u256_u128_def sub_u256_eq)
qed

lemma split_bounds: "n < U128 * U128 \<Longrightarrow> split256 n = (hi, lo) \<Longrightarrow> hi < U128 \<and> lo < U128 \<and> u256 hi lo = n"
  using u256_split256 [of n hi lo] by (auto simp: split256_def div_U128_less_iff)

lemma div_split_eq:
  assumes "n < U128 * U128" and "d < U128" and "0 < d"
  shows "(case split256 n of (hi, lo) \<Rightarrow> div_u256_by_u128_with_round hi lo d p) = fit_u128 (round_quot p n d)"
  using split_bounds [OF assms(1)] div_u256_by_u128_with_round_eq [OF _ _ assms(2,3)]
  by (auto split: prod.split)

lemma muladdsubdiv_eq:
  assumes "uint_at w x a" and "uint_at w2 y b" and "uint_at w3 z c" and "uint_at w4 v d"
  shows "muladdsubdiv_checked x y z v add_z p =
    fit_width w (if d = 0 \<or> (\<not> add_z \<and> a * b < c) then None
      else round_quot p (if add_z then a * b + c else a * b - c) d)"
proof (cases "d = 0")
  case False
  note h = mul_addsub_eq [OF assms(1-3) [THEN uint_at_u128]]
  have "a * b - c < U128 * U128" using h(2) by linarith
  note dv = div_split_eq [OF h(2) uint_at_u128 [OF assms(4)]]
    div_split_eq [OF this uint_at_u128 [OF assms(4)]]
  show ?thesis
    using False fit_then_width [OF assms(1)] dv
    by (simp add: muladdsubdiv_checked_def mul_xy_addsub_z_div_u128_def h(1)
        assms [THEN uint_at_extract] require_nonzero_eq)
qed (simp add: muladdsubdiv_checked_def assms [THEN uint_at_extract] require_nonzero_eq)

lemma mul3div_eq:
  assumes "uint_at w x a" and "uint_at w2 y b" and "uint_at w3 z c" and "uint_at w4 v d"
  shows "mul3div_checked x y z v p =
    fit_width w (if d = 0 then None else round_quot p (a * b * c) d)"
proof (cases "d = 0")
  case False
  obtain hi lo where m: "mul_wide_u128 a b = (hi, lo)" by fastforce
  note h = product_split [OF uint_at_u128 [OF assms(1)] uint_at_u128 [OF assms(2)] m]
  show ?thesis
  proof (cases "a * b * c < U128 * U128")
    case True
    obtain h2 l2 where s: "split256 (a * b * c) = (h2, l2)" by fastforce
    show ?thesis
      using False m s True div_split_eq [OF True uint_at_u128 [OF assms(4)]] fit_then_width [OF assms(1)]
      by (simp add: mul3div_checked_def assms [THEN uint_at_extract] require_nonzero_eq
          mul_u256_u128_eq [OF h(2)] h(3))
  next
    case False
    have "U128 * d \<le> U128 * U128" using uint_at_u128 [OF assms(4)] by simp
    then have "U128 * d \<le> a * b * c" using False by linarith
    then have "U128 \<le> a * b * c div d" using \<open>d \<noteq> 0\<close> by (simp add: less_eq_div_iff_mult_less_eq)
    then have "fit_width w (round_quot p (a * b * c) d) = arith_err"
      using fit_u128_big fit_then_width [OF assms(1), of "round_quot p (a * b * c) d"] by simp
    then show ?thesis using False \<open>d \<noteq> 0\<close> m
      by (simp add: mul3div_checked_def assms [THEN uint_at_extract] require_nonzero_eq
          mul_u256_u128_eq [OF h(2)] h(3))
  qed
qed (simp add: mul3div_checked_def assms [THEN uint_at_extract] require_nonzero_eq)

lemma lerp_eq:
  assumes "uint_at w x a" and "uint_at w2 y b" and "uint_at w3 z c" and "uint_at w4 v d"
  shows "lerp_checked x y z v p =
    fit_width w (if d = 0 \<or> d < c then None else round_quot p (a * (d - c) + b * c) d)"
proof (cases "d = 0 \<or> d < c")
  case False
  have u: "a < U128" "b < U128" "c < U128" "d < U128" using assms by (auto intro: uint_at_u128)
  obtain lh ll where l: "mul_wide_u128 a (d - c) = (lh, ll)" by fastforce
  obtain rh rl where r: "mul_wide_u128 b c = (rh, rl)" by fastforce
  have dc: "d - c < U128" using u by linarith
  note hl = product_split [OF u(1) dc l] and hr = product_split [OF u(2,3) r]
  have "a * (d - c) + b * c \<le> (U128 - 1) * (d - c) + (U128 - 1) * c"
    using u(1,2) by (intro add_mono mult_le_mono1) simp_all
  also have "\<dots> = (U128 - 1) * d" using False by (simp add: distrib_left [symmetric])
  also have "\<dots> < U128 * U128" using u(4) by (intro mult_strict_mono) (auto simp: U128_def)
  finally have lt: "a * (d - c) + b * c < U128 * U128" .
  obtain nh nl where s: "split256 (a * (d - c) + b * c) = (nh, nl)" by fastforce
  have "add_u256 lh ll rh rl = Some (nh, nl)"
    using add_u256_eq [OF hl(2) hr(2), of lh rh] lt by (simp add: hl(3) hr(3) s)
  then show ?thesis
    using False l r s div_split_eq [OF lt u(4)] fit_then_width [OF assms(1)]
    by (simp add: lerp_checked_def assms [THEN uint_at_extract])
qed (auto simp: lerp_checked_def assms [THEN uint_at_extract])

text \<open>A weighted mean is the smaller end plus a rounded share of the difference.\<close>

lemma round_off_shift:
  assumes "0 < d"
  shows "map_option (\<lambda>q. k + q) (round_off k p n d) = round_quot p (k * d + n) d"
proof -
  have dv: "(k * d + n) div d = k + n div d" and md: "(k * d + n) mod d = n mod d"
    using assms by simp_all
  show ?thesis by (cases p) (auto simp: dv md)
qed

lemma fit_u128_add:
  "try_ret (fit_u128 r) (\<lambda>q. try_ret (ok_or (checked_add 128 k q) (ItrErr ''Arithmetic'')) f) =
   try_ret (fit_u128 (map_option (\<lambda>q. k + q) r)) f"
  by (cases r) (auto simp: checked_add_128)

lemma wavg2_part:
  assumes "base < U128" and "diff < U128" and "wt < U128" and "d_hi < 2" and "d_lo < U128"
    and "0 < u256 d_hi d_lo" and "mul_wide_u128 diff wt = (hi, lo)"
  shows "try_ret (div_u256_by_u129_with_round hi lo d_hi d_lo p base) (\<lambda>part.
      try_ret (ok_or (checked_add 128 base part) (ItrErr ''Arithmetic'')) f) =
    try_ret (fit_u128 (round_quot p (base * u256 d_hi d_lo + diff * wt) (u256 d_hi d_lo))) f"
  using product_split [OF assms(2,3,7)] div_u256_by_u129_with_round_eq [OF _ _ assms(4-6), of hi lo p base]
  by (simp add: fit_u128_add round_off_shift [OF assms(6)])

lemma wavg2_eq:
  assumes "uint_at w x a" and "uint_at w2 y b" and "uint_at w3 z c" and "uint_at w4 v d"
  shows "wavg2_checked x y z v p =
    fit_width w (if b + d = 0 then None else round_quot p (a * b + c * d) (b + d))"
proof -
  have u: "a < U128" "b < U128" "c < U128" "d < U128" using assms by (auto intro: uint_at_u128)
  have bd: "b + d < 2 * U128" using u by linarith
  moreover have "2 * U128 \<le> U128 * U128" by (simp add: U128_def)
  ultimately have lt: "b + d < U128 * U128" by linarith
  obtain dh dl where s: "split256 (b + d) = (dh, dl)" by fastforce
  from u256_split256 [OF s] have den: "u256 dh dl = b + d" and dl: "dl < U128" by simp_all
  have dh: "dh < 2" using s bd by (auto simp: split256_def div_less_iff_less_mult)
  have add: "add_u256_u128 0 b d = Some (dh, dl)"
    using add_u256_u128_eq [OF u(2,4), of 0] lt by (simp add: u256_def s)
  have zero: "dh = 0 \<and> dl = 0 \<longleftrightarrow> b + d = 0" 
    by (simp add: den [symmetric] u256_def gr_implies_not0 [OF U128_pos])
  note ex = assms [THEN uint_at_extract]
  show ?thesis
  proof (cases "b + d = 0")
    case True
    with zero have "dh = 0" "dl = 0" by simp_all
    with True add show ?thesis by (simp add: wavg2_checked_def ex)
  next
    case pos: False
    then have den_pos: "0 < u256 dh dl" by (simp add: den)
    consider "a = c" | "a < c" | "c < a" by linarith
    then show ?thesis
    proof cases
      case 1
      define s where "s = b + d"
      have "a * b + c * d = a * s + 0" using 1 by (simp add: s_def distrib_left)
      moreover have "0 < s" using pos by (simp add: s_def)
      ultimately have "round_quot p (a * b + c * d) (b + d) = Some a"
        unfolding s_def [symmetric] by (cases p) simp_all
      with 1 pos add zero uint_at_u128 [OF assms(1)] show ?thesis
        by (auto simp: wavg2_checked_def ex cast_uint_like_sample_eq [OF assms(1)])
    next
      case 2
      then obtain e where e: "c = a + e" using less_imp_add_positive by blast
      obtain hi lo where m: "mul_wide_u128 e d = (hi, lo)" by fastforce
      have "wavg2_checked x y z v p = try_ret (fit_u128 (round_quot p (a * (b + d) + e * d) (b + d)))
          (cast_uint_like_sample x)"
        using wavg2_part [OF u(1) _ u(4) dh dl den_pos m, of p "cast_uint_like_sample x"] 2 u(3) pos zero
        by (auto simp: wavg2_checked_def ex add e m den)
      also have "a * (b + d) + e * d = a * b + c * d" by (simp add: e algebra_simps)
      finally show ?thesis using pos by (auto simp: fit_then_width [OF assms(1)])
    next
      case 3
      then obtain e where e: "a = c + e" using less_imp_add_positive by blast
      obtain hi lo where m: "mul_wide_u128 e b = (hi, lo)" by fastforce
      have "wavg2_checked x y z v p = try_ret (fit_u128 (round_quot p (c * (b + d) + e * b) (b + d)))
          (cast_uint_like_sample x)"
        using wavg2_part [OF u(3) _ u(2) dh dl den_pos m, of p "cast_uint_like_sample x"] 3 u(1) pos zero
        by (auto simp: wavg2_checked_def ex add e m den)
      also have "c * (b + d) + e * b = a * b + c * d" by (simp add: e algebra_simps)
      finally show ?thesis using pos by (auto simp: fit_then_width [OF assms(1)])
    qed
  qed
qed

lemma scaled_addsub_eq:
  assumes "uint_at w x a" and "uint_at w2 y b" and "uint_at w3 z c" and "p = Floor \<or> p = Ceil"
  shows "scaled_addsub_checked x y z add_delta p =
    fit_width w (if c = 0 then None
      else Option.bind (round_quot p (a * b) c)
        (\<lambda>q. if add_delta then Some (a + q) else if q \<le> a then Some (a - q) else None))"
proof (cases "c = 0")
  case False
  obtain hi lo where m: "mul_wide_u128 a b = (hi, lo)" by fastforce
  note h = product_split [OF uint_at_u128 [OF assms(1)] uint_at_u128 [OF assms(2)] m]
  obtain q where q: "round_quot p (a * b) c = Some q" using assms(4) by auto
  have "div_u256_by_u128_with_round hi lo c p = (if q < U128 then Ok q else arith_err)"
    using False div_u256_by_u128_with_round_eq [OF h(1,2) uint_at_u128 [OF assms(3)], of p] q h(3)
    by simp
  then show ?thesis
    using False m q assms(4) uint_at_u128 [OF assms(1)] uint_at_width [OF assms(1)]
    by (auto simp: scaled_addsub_checked_def assms(1-3) [THEN uint_at_extract] require_nonzero_eq
        checked_add_128 checked_sub_def cast_uint_like_sample_eq [OF assms(1)] fit_width_def)
qed (use assms(4) in \<open>auto simp: scaled_addsub_checked_def assms(1-3) [THEN uint_at_extract] require_nonzero_eq\<close>)

lemma den_addsub_eq:
  assumes "uint_at w x a" and "uint_at w2 y b" and "uint_at w3 z c" and "p = Floor \<or> p = Ceil"
  shows "muldiv_den_addsub_checked x y z add_to_den p =
    fit_width w (if add_to_den then (if c + b = 0 then None else round_quot p (a * b) (c + b))
      else (if c \<le> b then None else round_quot p (a * b) (c - b)))"
proof -
  have u: "a < U128" "b < U128" "c < U128" using assms by (auto intro: uint_at_u128)
  obtain hi lo where m: "mul_wide_u128 a b = (hi, lo)" by fastforce
  note h = product_split [OF u(1,2) m] and ex = assms(1-3) [THEN uint_at_extract]
  show ?thesis
  proof (cases add_to_den)
    case True
    have cb: "c + b < 2 * U128" using u by linarith
    moreover have "2 * U128 \<le> U128 * U128" by (simp add: U128_def)
    ultimately have lt: "c + b < U128 * U128" by linarith
    obtain dh dl where s: "split256 (c + b) = (dh, dl)" by fastforce
    from u256_split256 [OF s] have den: "u256 dh dl = c + b" and dl: "dl < U128" by simp_all
    have dh: "dh < 2" using s cb by (auto simp: split256_def div_less_iff_less_mult)
    have add: "add_u256_u128 0 c b = Some (dh, dl)"
      using add_u256_u128_eq [OF u(3,2), of 0] lt by (simp add: u256_def s)
    have "div_u256_by_u129_with_round hi lo dh dl p 0 =
        (if c + b = 0 then arith_err else fit_u128 (round_quot p (a * b) (c + b)))"
    proof (cases "c + b = 0")
      case True
      then have "u256 dh dl = 0" by (simp add: den)
      then show ?thesis using True h(1,2) dh dl
        by (simp add: div_u256_by_u129_with_round_def div_u256_by_u129_to_u128_eq)
    next
      case False
      moreover from False have "0 < u256 dh dl" by (simp add: den)
      ultimately show ?thesis
        using div_u256_by_u129_with_round_eq [OF h(1,2) dh dl, of p 0] by (simp only: den h(3) if_False)
    qed
    then show ?thesis using True assms(4) m add fit_then_width [OF assms(1)]
      by (auto simp: muldiv_den_addsub_checked_def ex)
  next
    case False
    have "div_u256_by_u128_with_round hi lo (c - b) p = fit_u128 (round_quot p (a * b) (c - b))" if "b < c"
      using that u div_u256_by_u128_with_round_eq [OF h(1,2), of "c - b" p] by (simp add: h(3))
    then show ?thesis using False assms(4) m fit_then_width [OF assms(1)]
      by (auto simp: muldiv_den_addsub_checked_def ex checked_sub_def require_nonzero_eq)
  qed
qed

lemma devscaled_eq:
  assumes "uint_at w x a" and "uint_at w2 y b" and "uint_at w3 z c"
  shows "devscaled_with_round_checked x y z p =
    fit_width w (if b = 0 \<or> c = 0 then None else round_quot p (abs_diff a b * c) b)"
proof (cases "b = 0 \<or> c = 0")
  case False
  have u: "abs_diff a b < U128" "b < U128" "c < U128"
    using assms [THEN uint_at_u128] by (auto simp: abs_diff_def)
  obtain hi lo where m: "mul_wide_u128 (abs_diff a b) c = (hi, lo)" by fastforce
  note h = product_split [OF u(1,3) m]
  note dv = div_u256_by_u128_to_u128_eq [OF h(1,2) u(2)]
  show ?thesis
  proof (cases "U128 \<le> abs_diff a b * c div b")
    case True
    have "fit_width w (round_quot p (abs_diff a b * c) b) = arith_err"
      using fit_u128_big [OF True] fit_then_width [OF assms(1), of "round_quot p (abs_diff a b * c) b"]
      by simp
    then show ?thesis using False True m dv
      by (auto simp: devscaled_with_round_checked_def assms [THEN uint_at_extract]
          scaled_abs_diff_div_u128_def h(3))
  next
    case small: False
    then show ?thesis
      using False m dv round_quot_with_policy_eq [of b "abs_diff a b * c" p] u(2)
        fit_then_width [OF assms(1)]
      by (auto simp: devscaled_with_round_checked_def assms [THEN uint_at_extract]
          scaled_abs_diff_div_u128_def h(3))
  qed
qed (auto simp: devscaled_with_round_checked_def assms [THEN uint_at_extract]
    scaled_abs_diff_div_u128_def)

lemma mul_shr_eq:
  assumes "uint_at w x a" and "uint_at w2 y b" and "uint_at w3 z c"
  shows "mul_shr_impl x y z ceil =
    fit_width w (round_quot (if ceil then Ceil else Floor) (a * b) (2 ^ c))"
proof -
  obtain hi lo where m: "mul_wide_u128 a b = (hi, lo)" by fastforce
  note h = product_split [OF uint_at_u128 [OF assms(1)] uint_at_u128 [OF assms(2)] m]
  have val: "try_ret (fit_u128 r) (cast_uint_like_sample x) = fit_width w r" for r
    by (rule fit_then_width [OF assms(1)])
  show ?thesis
  proof (cases "c \<ge> 256")
    case True
    have "a * b < U128 * U128" using u256_less [OF h(1,2)] by (simp add: h(3))
    also have "U128 * U128 = 2 ^ 256" by (simp add: U128_def)
    also have "(2 :: nat) ^ 256 \<le> 2 ^ c" using True by (intro power_increasing) simp_all
    finally have big: "a * b < 2 ^ c" .
    have nz: "hi \<noteq> 0 \<or> lo \<noteq> 0 \<longleftrightarrow> a * b \<noteq> 0"
      by (simp add: h(3) [symmetric] u256_def gr_implies_not0 [OF U128_pos])
    have one: "1 < U128" by (simp add: U128_def)
    have "mul_shr_impl x y z ceil = cast_uint_like_sample x (if ceil \<and> a * b \<noteq> 0 then 1 else 0)"
      using True m nz by (simp add: mul_shr_impl_def assms [THEN uint_at_extract] del: mult_eq_0_iff)
    also have "\<dots> = fit_width w (Some (if ceil \<and> a * b \<noteq> 0 then 1 else 0))"
      by (rule cast_uint_like_sample_eq [OF assms(1)])
    also have "Some (if ceil \<and> a * b \<noteq> 0 then 1 else 0) =
        round_quot (if ceil then Ceil else Floor) (a * b) (2 ^ c)"
      using big by simp
    finally show ?thesis .
  next
    case False
    define n where "n = a * b"
    have sh: "shr_u256_to_u128 hi lo c =
        (if n div 2 ^ c < U128 then Some (n div 2 ^ c, n mod 2 ^ c \<noteq> 0) else None)"
      using shr_u256_to_u128_eq [OF h(1,2), of c] False by (simp add: h(3) n_def)
    have "try_ret (ok_or (shr_u256_to_u128 hi lo c) (ItrErr ''Arithmetic'')) (\<lambda>(out, dropped).
        if ceil \<and> dropped then succ_u128 out else Ok out) =
        fit_u128 (round_quot (if ceil then Ceil else Floor) n (2 ^ c))"
      by (auto simp: sh succ_u128_eq)
    then show ?thesis using False m val
      by (simp add: mul_shr_impl_def assms [THEN uint_at_extract] n_def)
  qed
qed

lemma u64_mad_eq:
  assumes "uint_at w x a" and "uint_at w2 y b" and "uint_at w3 z c"
  shows "u64_mad_checked x y z = fit_width w (Some (a + b * c))"
proof -
  note wd = uint_at_width [OF assms(1)]
  show ?thesis
  proof (cases "b * c < U128")
    case True
    then show ?thesis using wd
      by (auto simp: u64_mad_checked_def assms [THEN uint_at_extract] mul_wide_u128_def
          checked_add_128 cast_uint_like_sample_eq [OF assms(1)] fit_width_def add.commute)
  next
    case False
    then have "b * c div U128 \<noteq> 0" by (simp add: div_eq_0_iff)
    with False wd show ?thesis
      by (auto simp: u64_mad_checked_def assms [THEN uint_at_extract] mul_wide_u128_def fit_width_def)
  qed
qed

lemma sqrtmul_eq:
  assumes "uint_at w x a" and "uint_at w2 y b" and "p = Floor \<or> p = Ceil"
  shows "sqrtmul_with_round_checked x y p = fit_width w (Some (sqrt_round p (a * b)))"
proof -
  obtain hi lo where m: "mul_wide_u128 a b = (hi, lo)" by fastforce
  note h = product_split [OF uint_at_u128 [OF assms(1)] uint_at_u128 [OF assms(2)] m]
  have rt: "isqrt_u256_floor hi lo = isqrt (a * b)"
    using is_isqrt_unique [OF isqrt_u256_floor_correct [OF h(1,2)]] isqrt_correct [of "a * b"] by (simp add: h(3))
  define f where "f = isqrt (a * b)"
  have "f * f \<le> a * b" using isqrt_correct [of "a * b"] by (simp add: f_def is_isqrt_def)
  also have "\<dots> < U128 * U128" using u256_less [OF h(1,2)] by (simp add: h(3))
  finally have f: "f < U128" by (metis mult_le_mono not_less)
  obtain sh sl where s: "mul_wide_u128 f f = (sh, sl)" by fastforce
  note hs = product_split [OF f f s]
  have eq: "cmp_u256 sh sl hi lo = Equal \<longleftrightarrow> f * f = a * b"
    by (simp add: cmp_u256_eq [OF hs(2) h(2)] hs(3) h(3))
  have "sqrtmul_with_round_checked x y p =
      try_ret (fit_u128 (Some (sqrt_round p (a * b)))) (cast_uint_like_sample x)"
    using assms(3) f s eq
    by (auto simp: sqrtmul_with_round_checked_def assms(1,2) [THEN uint_at_extract] m rt
        f_def [symmetric] sqrt_round_def succ_u128_eq)
  then show ?thesis by (simp only: fit_then_width [OF assms(1)])
qed

lemma quantize_eq:
  assumes "uint_at w x a" and "uint_at w2 y b" and "p = Floor \<or> p = Ceil"
  shows "quantize_with_round_checked x y p =
    fit_width w (if b = 0 then None else map_option (\<lambda>q. q * b) (round_quot p a b))"
proof (cases "b = 0")
  case False
  have a: "a < U128" by (rule uint_at_u128 [OF assms(1)])
  have le: "a div b * b \<le> a" by simp
  then have lt: "a div b * b < U128" using a by linarith
  have q: "a div b < U128" using a by (meson div_le_dividend le_less_trans)
  have up: "\<not> (a div b + 1) * b < U128" if "\<not> a div b + 1 < U128"
  proof -
    have "U128 * 1 \<le> (a div b + 1) * b" using that False by (intro mult_le_mono) simp_all
    then show ?thesis by simp
  qed
  have "quantize_with_round_checked x y p =
      try_ret (fit_u128 (map_option (\<lambda>q. q * b) (round_quot p a b))) (cast_uint_like_sample x)"
  proof (cases "p = Floor")
    case True
    then show ?thesis using False lt
      by (simp add: quantize_with_round_checked_def assms(1,2) [THEN uint_at_extract] require_nonzero_eq
          checked_mul_128)
  next
    case ceil: False
    then have "p = Ceil" using assms(3) by simp
    then show ?thesis
    proof (cases "a mod b = 0")
      case True
      then have "a div b * b = a" by (simp add: dvd_eq_mod_eq_0 [symmetric])
      then show ?thesis using \<open>p = Ceil\<close> False True a
        by (simp add: quantize_with_round_checked_def assms(1,2) [THEN uint_at_extract] require_nonzero_eq)
    next
      case rem: False
      show ?thesis using \<open>p = Ceil\<close> False rem up
        by (auto simp: quantize_with_round_checked_def assms(1,2) [THEN uint_at_extract]
            require_nonzero_eq checked_mul_128 checked_add_128)
    qed
  qed
  then show ?thesis using False fit_then_width [OF assms(1)] by simp
qed (simp add: quantize_with_round_checked_def assms(1,2) [THEN uint_at_extract] require_nonzero_eq)

lemma same_uint_at: "uint_at w x a \<Longrightarrow> uint_at w y b \<Longrightarrow> same_uint x y = Some (w, a, b)"
  by (cases x; cases y) (auto simp: uint_at_def same_uint_def)

lemma ahmtdo_eq:
  assumes "uint_at w x a" and "uint_at w y b"
  shows "ahmtdo op x y = fit_width w (op w a b)"
  using same_uint_at [OF assms]
  by (cases "op w a b") (auto simp: ahmtdo_def fit_width_def uint_try_from_def)

section \<open>The registry\<close>

lemma fin_specs_rounds:
  assumes "spec \<in> set FIN_SPECS"
  shows "fs_kernel spec \<in> {KSqrtMul, KQuantize, KScaledAdd, KScaledSub, KMulShr, KMulDivDenAdd, KMulDivDenSub}
      \<longrightarrow> round_or_exact spec \<in> {Floor, Ceil}"
    and "fs_family spec = FIN2 \<longrightarrow> fs_kernel spec \<in> {KDiv, KSqrtMul, KQuantize, KSatAdd, KSatSub}"
    and "fs_family spec = FIN3 \<longrightarrow> fs_kernel spec \<in>
      {KMulDiv, KScaledDiv, KDevScaled, KScaledAdd, KScaledSub, KMulShr, KMulDivDenAdd, KMulDivDenSub, KU64Mad}"
    and "fs_family spec = FIN4 \<longrightarrow> fs_kernel spec \<in> {KMulAddDiv, KMulSubDiv, KMul3Div, KWavg2, KLerp}"
proof -
  have "list_all (\<lambda>spec.
      (fs_kernel spec \<in> {KSqrtMul, KQuantize, KScaledAdd, KScaledSub, KMulShr, KMulDivDenAdd, KMulDivDenSub}
        \<longrightarrow> round_or_exact spec \<in> {Floor, Ceil}) \<and>
      (fs_family spec = FIN2 \<longrightarrow> fs_kernel spec \<in> {KDiv, KSqrtMul, KQuantize, KSatAdd, KSatSub}) \<and>
      (fs_family spec = FIN3 \<longrightarrow> fs_kernel spec \<in>
        {KMulDiv, KScaledDiv, KDevScaled, KScaledAdd, KScaledSub, KMulShr, KMulDivDenAdd, KMulDivDenSub, KU64Mad}) \<and>
      (fs_family spec = FIN4 \<longrightarrow> fs_kernel spec \<in> {KMulAddDiv, KMulSubDiv, KMul3Div, KWavg2, KLerp}))
    FIN_SPECS"
    by (simp add: FIN_SPECS_def round_or_exact_def)
  with assms show "fs_kernel spec \<in> {KSqrtMul, KQuantize, KScaledAdd, KScaledSub, KMulShr, KMulDivDenAdd, KMulDivDenSub}
      \<longrightarrow> round_or_exact spec \<in> {Floor, Ceil}"
    and "fs_family spec = FIN2 \<longrightarrow> fs_kernel spec \<in> {KDiv, KSqrtMul, KQuantize, KSatAdd, KSatSub}"
    and "fs_family spec = FIN3 \<longrightarrow> fs_kernel spec \<in>
      {KMulDiv, KScaledDiv, KDevScaled, KScaledAdd, KScaledSub, KMulShr, KMulDivDenAdd, KMulDivDenSub, KU64Mad}"
    and "fs_family spec = FIN4 \<longrightarrow> fs_kernel spec \<in> {KMulAddDiv, KMulSubDiv, KMul3Div, KWavg2, KLerp}"
    unfolding list_all_iff by blast+
qed

lemma fin_specs_predicates:
  assumes "spec \<in> set FIN_SPECS"
  shows "(fs_family spec = FINP3 \<longrightarrow> fs_kernel spec = KAbsDiffLte) \<and>
    (fs_family spec = FINP4 \<longrightarrow> fs_kernel spec \<in> {KWithinBps, KCrossLte, KCrossGte, KCrossEq}) \<and>
    (fs_family spec = FINPOW3 \<longrightarrow> fs_kernel spec = KRPow)"
proof -
  have "list_all (\<lambda>spec. (fs_family spec = FINP3 \<longrightarrow> fs_kernel spec = KAbsDiffLte) \<and>
    (fs_family spec = FINP4 \<longrightarrow> fs_kernel spec \<in> {KWithinBps, KCrossLte, KCrossGte, KCrossEq}) \<and>
    (fs_family spec = FINPOW3 \<longrightarrow> fs_kernel spec = KRPow)) FIN_SPECS"
    by (simp add: FIN_SPECS_def)
  with assms show ?thesis unfolding list_all_iff by blast
qed

lemma fin2_exact:
  assumes "spec \<in> set FIN_SPECS" and "fs_family spec = FIN2" and "uint_at w x a" and "uint_at w y b"
  shows "fin2_checked spec x y = fit_width w (fin2_ref (fs_kernel spec) (round_or_exact spec) w a b)"
  using fin_specs_rounds [OF assms(1)] assms(2)
    div_eq [OF assms(3,4)] sqrtmul_eq [OF assms(3,4)] quantize_eq [OF assms(3,4)] ahmtdo_eq [OF assms(3,4)]
  by (cases "fs_kernel spec")
    (simp_all add: fin2_checked_def fin2_ref_def saturating_uint_add_def saturating_uint_sub_def)

lemma fin3_exact:
  assumes "spec \<in> set FIN_SPECS" and "fs_family spec = FIN3"
    and "uint_at w x a" and "uint_at w2 y b" and "uint_at w3 z c"
  shows "fin3_checked spec x y z = fit_width w (fin3_ref (fs_kernel spec) (round_or_exact spec) a b c)"
proof -
  have bind: "map_option f r = Option.bind r (\<lambda>q. Some (f q))" for f and r :: "nat option"
    by (cases r) simp_all
  from fin_specs_rounds [OF assms(1)] assms(2)
    muldiv_eq [OF assms(3-5)] devscaled_eq [OF assms(3-5)] scaled_addsub_eq [OF assms(3-5)]
    mul_shr_eq [OF assms(3-5)] den_addsub_eq [OF assms(3-5)] u64_mad_eq [OF assms(3-5)]
  show ?thesis
    by (cases "fs_kernel spec") (auto simp: fin3_checked_def fin3_ref_def bind)
qed

lemma fin4_exact:
  assumes "spec \<in> set FIN_SPECS" and "fs_family spec = FIN4"
    and "uint_at w x a" and "uint_at w2 y b" and "uint_at w3 z c" and "uint_at w4 v d"
  shows "fin4_checked spec x y z v = fit_width w (fin4_ref (fs_kernel spec) (round_or_exact spec) a b c d)"
  using fin_specs_rounds [OF assms(1)] assms(2) muladdsubdiv_eq [OF assms(3-6)]
    mul3div_eq [OF assms(3-6)] wavg2_eq [OF assms(3-6)] lerp_eq [OF assms(3-6)]
  by (cases "fs_kernel spec") (simp_all add: fin4_checked_def fin4_ref_def)

section \<open>Operands of any width\<close>

lemma uint_at_is_uint: "uint_at w v n \<Longrightarrow> val_is_uint v"
  by (auto simp: uint_at_def val_is_uint_iff)

lemma widen_uint_at:
  assumes "uint_at w v n" and "w \<le> tb" and "tb \<in> {8, 16, 32, 64, 128}"
  shows "\<exists>v'. widen_to tb v = Ok v' \<and> uint_at tb v' n"
  using widen_to_uint [of v n w tb] assms by (auto simp: uint_at_def)

lemma uint_at_active: "uint_at w v n \<Longrightarrow> w \<in> {8, 16, 32, 64, 128}"
  using uint_bits_active by (auto simp: uint_at_def)

lemma max_active: "w \<in> {8, 16, 32, 64, 128} \<Longrightarrow> w' \<in> {8, 16, 32, 64, 128} \<Longrightarrow> max w w' \<in> {8, 16, 32, 64, 128 :: nat}"
  by (simp add: max_def)

lemma arithmetic_args2_uint:
  assumes "uint_at w x a" and "uint_at w2 y b" and "tb = max w w2"
  shows "\<exists>x' y'. arithmetic_args2 x y = Ok (x', y') \<and> uint_at tb x' a \<and> uint_at tb y' b"
proof -
  have tb: "tb \<in> {8, 16, 32, 64, 128}"
    unfolding assms(3) by (intro max_active assms(1,2) [THEN uint_at_active])
  have le: "w \<le> tb" "w2 \<le> tb" unfolding assms(3) by linarith+
  obtain x' where x': "widen_to tb x = Ok x'" "uint_at tb x' a" using widen_uint_at [OF assms(1) le(1) tb] by blast
  obtain y' where y': "widen_to tb y = Ok y'" "uint_at tb y' b" using widen_uint_at [OF assms(2) le(2) tb] by blast
  have "uint_bits (val_ty x) = Some w" "uint_bits (val_ty y) = Some w2" using assms by (simp_all add: uint_at_def)
  then show ?thesis using assms x' y'
    by (simp add: arithmetic_args2_def cast_same_uint_width2_def to_uint_eq uint_at_is_uint Let_def)
qed

lemma arithmetic_args3_uint:
  assumes "uint_at w x a" and "uint_at w2 y b" and "uint_at w3 z c" and "tb = max (max w w2) w3"
  shows "\<exists>x' y' z'. arithmetic_args3 x y z = Ok (x', y', z') \<and> uint_at tb x' a \<and> uint_at tb y' b \<and> uint_at tb z' c"
proof -
  have tb: "tb \<in> {8, 16, 32, 64, 128}"
    unfolding assms(4) by (intro max_active assms(1-3) [THEN uint_at_active])
  have le: "w \<le> tb" "w2 \<le> tb" "w3 \<le> tb" unfolding assms(4) by linarith+
  obtain x' where x': "widen_to tb x = Ok x'" "uint_at tb x' a" using widen_uint_at [OF assms(1) le(1) tb] by blast
  obtain y' where y': "widen_to tb y = Ok y'" "uint_at tb y' b" using widen_uint_at [OF assms(2) le(2) tb] by blast
  obtain z' where z': "widen_to tb z = Ok z'" "uint_at tb z' c" using widen_uint_at [OF assms(3) le(3) tb] by blast
  have "uint_bits (val_ty x) = Some w" "uint_bits (val_ty y) = Some w2" "uint_bits (val_ty z) = Some w3"
    using assms by (simp_all add: uint_at_def)
  then show ?thesis using assms x' y' z'
    by (simp add: arithmetic_args3_def cast_same_uint_width3_def to_uint_eq uint_at_is_uint Let_def)
qed

lemma arithmetic_args4_uint:
  assumes "uint_at w x a" and "uint_at w2 y b" and "uint_at w3 z c" and "uint_at w4 v d"
    and "tb = max (max (max w w2) w3) w4"
  shows "\<exists>x' y' z' v'. arithmetic_args4 x y z v = Ok (x', y', z', v') \<and>
    uint_at tb x' a \<and> uint_at tb y' b \<and> uint_at tb z' c \<and> uint_at tb v' d"
proof -
  have tb: "tb \<in> {8, 16, 32, 64, 128}"
    unfolding assms(5) by (intro max_active assms(1-4) [THEN uint_at_active])
  have le: "w \<le> tb" "w2 \<le> tb" "w3 \<le> tb" "w4 \<le> tb" unfolding assms(5) by linarith+
  obtain x' where x': "widen_to tb x = Ok x'" "uint_at tb x' a" using widen_uint_at [OF assms(1) le(1) tb] by blast
  obtain y' where y': "widen_to tb y = Ok y'" "uint_at tb y' b" using widen_uint_at [OF assms(2) le(2) tb] by blast
  obtain z' where z': "widen_to tb z = Ok z'" "uint_at tb z' c" using widen_uint_at [OF assms(3) le(3) tb] by blast
  obtain v' where v': "widen_to tb v = Ok v'" "uint_at tb v' d" using widen_uint_at [OF assms(4) le(4) tb] by blast
  have "uint_bits (val_ty x) = Some w" "uint_bits (val_ty y) = Some w2" "uint_bits (val_ty z) = Some w3"
    "uint_bits (val_ty v) = Some w4"
    using assms by (simp_all add: uint_at_def)
  then show ?thesis using assms x' y' z' v'
    by (simp add: arithmetic_args4_def cast_same_uint_width4_def to_uint_eq uint_at_is_uint Let_def)
qed

text \<open>A binary macro on operands of any width: its number at the wider width.\<close>

lemma locop_ahmtdo:
  assumes "uint_at w x a" and "uint_at w2 y b"
  shows "locop_arithmetic (ahmtdo op) x y = fit_width (max w w2) (op (max w w2) a b)"
  using arithmetic_args2_uint [OF assms refl] ahmtdo_eq by (auto simp: locop_arithmetic_def)

lemma fin2_any_width:
  assumes "spec \<in> set FIN_SPECS" and "fs_family spec = FIN2" and "uint_at w x a" and "uint_at w2 y b"
  shows "locop_arithmetic (fin2_checked spec) x y =
    fit_width (max w w2) (fin2_ref (fs_kernel spec) (round_or_exact spec) (max w w2) a b)"
  using arithmetic_args2_uint [OF assms(3,4) refl] fin2_exact [OF assms(1,2)]
  by (auto simp: locop_arithmetic_def)

lemma fin3_any_width:
  assumes "spec \<in> set FIN_SPECS" and "fs_family spec = FIN3"
    and "uint_at w x a" and "uint_at w2 y b" and "uint_at w3 z c"
  shows "locop_arithmetic3 (fin3_checked spec) x y z =
    fit_width (max (max w w2) w3) (fin3_ref (fs_kernel spec) (round_or_exact spec) a b c)"
  using arithmetic_args3_uint [OF assms(3-5) refl] fin3_exact [OF assms(1,2)]
  by (auto simp: locop_arithmetic3_def)

lemma triop_fin_any_width:
  assumes "spec \<in> set FIN_SPECS" and "fs_family spec = FIN3"
    and "uint_at w x a" and "uint_at w2 y b" and "uint_at w3 z c"
  shows "triop_fin spec x y z =
    fit_width (if fs_kernel spec = KU64Mad then w else max (max w w2) w3)
      (fin3_ref (fs_kernel spec) (round_or_exact spec) a b c)"
  using fin3_any_width [OF assms] fin3_exact [OF assms] assms(3-5) [THEN uint_at_is_uint]
  by (simp add: triop_fin_def to_uint_eq)

lemma fin4_any_width:
  assumes "spec \<in> set FIN_SPECS" and "fs_family spec = FIN4"
    and "uint_at w x a" and "uint_at w2 y b" and "uint_at w3 z c" and "uint_at w4 v d"
  shows "locop_arithmetic4 (fin4_checked spec) x y z v =
    fit_width (max (max (max w w2) w3) w4) (fin4_ref (fs_kernel spec) (round_or_exact spec) a b c d)"
  using arithmetic_args4_uint [OF assms(3-6) refl] fin4_exact [OF assms(1,2)]
  by (auto simp: locop_arithmetic4_def)

section \<open>Modular, fused and predicate operations\<close>

lemma addmod_eq:
  assumes "uint_at w x a" and "uint_at w2 y b" and "uint_at w3 z c"
  shows "addmod_checked x y z = fit_width w (if c = 0 then None else Some ((a + b) mod c))"
  by (simp add: addmod_checked_def assms [THEN uint_at_extract] require_nonzero_eq add_mod_u128_eq
      cast_uint_like_sample_eq [OF assms(1)])

lemma mulmod_eq:
  assumes "uint_at w x a" and "uint_at w2 y b" and "uint_at w3 z c"
  shows "mulmod_checked x y z = fit_width w (if c = 0 then None else Some (a * b mod c))"
  by (simp add: mulmod_checked_def assms [THEN uint_at_extract] require_nonzero_eq mul_mod_u128_eq
      cast_uint_like_sample_eq [OF assms(1)])

lemma muladdsub_eq:
  assumes "uint_at w x a" and "uint_at w2 y b" and "uint_at w3 z c"
  shows "muladdsub_checked x y z add_z =
    fit_width w (if add_z then Some (a * b + c) else if a * b < c then None else Some (a * b - c))"
proof -
  note h = mul_addsub_eq [OF assms [THEN uint_at_u128]]
  have "try_ret (Ok (split256 n)) (\<lambda>(hi, lo). if hi \<noteq> 0 then arith_err else Ok lo) = fit_u128 (Some n)" for n
    by (auto simp: split256_def div_eq_0_iff)
  then have fit: "(case split256 n of (hi, lo) \<Rightarrow> if hi \<noteq> 0 then arith_err else Ok lo) = fit_u128 (Some n)" for n
    by simp
  have "mul_xy_addsub_z_fit_u128 a b c add_z =
      fit_u128 (if add_z then Some (a * b + c) else if a * b < c then None else Some (a * b - c))"
    unfolding mul_xy_addsub_z_fit_u128_def h(1) using fit
    by (cases add_z; cases "a * b < c") (simp_all only: if_True if_False try_ret_simps fit_u128_simps(1))
  then show ?thesis
    by (simp only: muladdsub_checked_def assms [THEN uint_at_extract] try_ret_simps fit_then_width [OF assms(1)])
qed

lemma cmp_products:
  assumes "a < U128" and "b < U128" and "c < U128" and "d < U128"
    and "mul_wide_u128 a b = (lh, ll)" and "mul_wide_u128 c d = (rh, rl)"
  shows "cmp_u256 lh ll rh rl = cmp_of (a * b) (c * d)"
  using product_split [OF assms(1,2,5)] product_split [OF assms(3,4,6)] by (simp add: cmp_u256_eq)

lemma withinbps_eq:
  assumes "uint_at w x a" and "uint_at w2 y b" and "uint_at w3 z c" and "uint_at w4 v d"
  shows "withinbps_checked x y z v =
    (if b = 0 \<or> d = 0 \<or> d < c then arith_err else Ok (VBool (abs_diff a b * d \<le> b * c)))"
proof -
  have u: "abs_diff a b < U128" "b < U128" "c < U128" "d < U128"
    using assms [THEN uint_at_u128] by (auto simp: abs_diff_def)
  obtain lh ll where l: "mul_wide_u128 (abs_diff a b) d = (lh, ll)" by fastforce
  obtain rh rl where r: "mul_wide_u128 b c = (rh, rl)" by fastforce
  show ?thesis
    by (auto simp: withinbps_checked_def assms [THEN uint_at_extract] l r
        cmp_products [OF u(1,4) u(2,3) l r] cmp_of_def)
qed

lemma crossmul_eq:
  assumes "uint_at w x a" and "uint_at w2 y b" and "uint_at w3 z c" and "uint_at w4 v d"
  shows "crossmul_pred_checked x y z v KCrossLte = Ok (VBool (a * b \<le> c * d))"
    and "crossmul_pred_checked x y z v KCrossGte = Ok (VBool (a * b \<ge> c * d))"
    and "crossmul_pred_checked x y z v KCrossEq = Ok (VBool (a * b = c * d))"
proof -
  obtain lh ll where l: "mul_wide_u128 a b = (lh, ll)" by fastforce
  obtain rh rl where r: "mul_wide_u128 c d = (rh, rl)" by fastforce
  note cmp = cmp_products [OF assms [THEN uint_at_u128] l r]
  show "crossmul_pred_checked x y z v KCrossLte = Ok (VBool (a * b \<le> c * d))"
    and "crossmul_pred_checked x y z v KCrossGte = Ok (VBool (a * b \<ge> c * d))"
    and "crossmul_pred_checked x y z v KCrossEq = Ok (VBool (a * b = c * d))"
    by (auto simp: crossmul_pred_checked_def assms [THEN uint_at_extract] l r cmp cmp_of_def)
qed

section \<open>The fixed-point power\<close>

declare top_bit.simps [simp del]

lemma half_up_round: "0 < d \<Longrightarrow> round_quot HalfUp n d = Some (half_up n d)"
proof -
  assume d: "0 < d"
  define q r where "q = n div d" and "r = n mod d"
  have "n = q * d + r" and r: "r < d" using d by (simp_all add: q_def r_def)
  then have n: "2 * n + d = (2 * r + d) + q * (2 * d)" by (simp add: algebra_simps)
  have "half_up n d = (2 * r + d) div (2 * d) + q" unfolding half_up_def n using d by simp
  moreover have "(2 * r + d) div (2 * d) = (if d \<le> 2 * r then 1 else 0)"
    using r by (auto simp: div_nat_eqI)
  ultimately show ?thesis using r by (auto simp: q_def r_def)
qed

lemma mul_div_half_up_eq:
  assumes "a < U128" and "b < U128" and "d < U128" and "0 < d"
  shows "mul_div_half_up a b d = fit_u128 (Some (half_up (a * b) d))"
proof -
  obtain hi lo where m: "mul_wide_u128 a b = (hi, lo)" by fastforce
  note h = product_split [OF assms(1,2) m]
  show ?thesis
    using round_half_up_div_eq [OF h(1,2) assms(3,4)] half_up_round [OF assms(4), of "a * b"]
    by (simp add: mul_div_half_up_def m h(3))
qed

lemma div_pow_Suc: "n div 2 ^ Suc k = n div 2 ^ k div (2 :: nat)"
  by (simp only: power_Suc2 div_mult2_eq)

lemma top_bit_step: "1 < n div 2 ^ k \<Longrightarrow> top_bit (n div 2 ^ k) = Suc (top_bit (n div 2 ^ Suc k))"
  by (subst top_bit.simps) (simp add: div_pow_Suc del: power_Suc)

text \<open>After \<open>k\<close> rounds the loop holds the square and the product of index \<open>k\<close>.\<close>

lemma rpow_loop_eq:
  assumes "0 < base" and "base < U128"
  shows "rpow_square base x k < U128 \<Longrightarrow> rpow_product base x n k < U128 \<Longrightarrow>
    rpow_loop base (n div 2 ^ k) (rpow_square base x k) (rpow_product base x n k) =
    (if list_all (\<lambda>i. rpow_square base x i < U128 \<and> rpow_product base x n i < U128) [k..<k + top_bit (n div 2 ^ k) + 1]
     then Ok (rpow_product base x n (k + top_bit (n div 2 ^ k))) else arith_err)"
proof (induction "top_bit (n div 2 ^ k)" arbitrary: k)
  case 0
  then have "n div 2 ^ k \<le> 1" by (subst (asm) top_bit.simps) (simp split: if_splits)
  then show ?case using 0 by (subst rpow_loop.simps) simp
next
  case (Suc m)
  then have big: "1 < n div 2 ^ k" by (subst (asm) (2) top_bit.simps) (simp split: if_splits)
  have m: "m = top_bit (n div 2 ^ Suc k)" using Suc.hyps(2) top_bit_step [OF big] by simp
  let ?s = "rpow_square base x" and ?p = "rpow_product base x n"
  have half: "drop_bit 1 (n div 2 ^ k) = n div 2 ^ Suc k" by (simp add: drop_bit_eq_div div_pow_Suc del: power_Suc)
  have par: "n div 2 ^ Suc k AND 1 = 1 \<longleftrightarrow> odd (n div 2 ^ Suc k)" by (simp add: and_one_eq odd_iff_mod_2_eq_one)
  have sq: "mul_div_half_up (?s k) (?s k) base = fit_u128 (Some (?s (Suc k)))"
    using mul_div_half_up_eq [OF Suc.prems(1,1) assms(2,1)] by simp
  have pr: "mul_div_half_up (?p k) (?s (Suc k)) base = fit_u128 (Some (half_up (?p k * ?s (Suc k)) base))"
    if "?s (Suc k) < U128" by (rule mul_div_half_up_eq [OF Suc.prems(2) that assms(2,1)])
  have nle: "(n div 2 ^ k \<le> 1) = False" using big by simp
  have unf: "rpow_loop base (n div 2 ^ k) (?s k) (?p k) =
      try_ret (mul_div_half_up (?s k) (?s k) base) (\<lambda>bas.
        if odd (n div 2 ^ Suc k)
        then try_ret (mul_div_half_up (?p k) bas base) (rpow_loop base (n div 2 ^ Suc k) bas)
        else rpow_loop base (n div 2 ^ Suc k) bas (?p k))"
    by (subst rpow_loop.simps) (simp only: Let_def half par if_False nle)
  have step: "rpow_loop base (n div 2 ^ k) (?s k) (?p k) =
      (if ?s (Suc k) < U128 \<and> ?p (Suc k) < U128 then rpow_loop base (n div 2 ^ Suc k) (?s (Suc k)) (?p (Suc k)) else arith_err)"
    unfolding unf sq fit_u128_simps using pr Suc.prems(2)
    by (cases "?s (Suc k) < U128"; cases "odd (n div 2 ^ Suc k)")
      (simp_all only: if_True if_False try_ret_simps fit_u128_simps rpow_product.simps simp_thms split: if_split, blast)
  let ?J = "Suc k + top_bit (n div 2 ^ Suc k)" and ?ok = "\<lambda>i. ?s i < U128 \<and> ?p i < U128"
  have J: "k + top_bit (n div 2 ^ k) = ?J" using Suc.hyps(2) m by simp
  have "[k..<?J + 1] = k # [Suc k..<?J + 1]" by (rule upt_conv_Cons) simp
  then have all: "list_all ?ok [k..<?J + 1] \<longleftrightarrow> list_all ?ok [Suc k..<?J + 1]" using Suc.prems by (simp only: list.pred_inject simp_thms)
  show ?case
  proof (cases "?ok (Suc k)")
    case True
    then show ?thesis using step Suc.hyps(1) [OF m] unfolding J all by (simp only: if_True simp_thms)
  next
    case False
    have "Suc k \<in> set [Suc k..<?J + 1]" by (simp only: set_upt atLeastLessThan_iff) linarith
    then have "\<not> list_all ?ok [Suc k..<?J + 1]" using False unfolding list_all_iff by blast
    then show ?thesis unfolding J all step using False by (simp only: if_False)
  qed
qed

lemma rpow_eq:
  assumes "uint_at w x a" and "uint_at w2 y n" and "uint_at w3 z c"
  shows "rpow_checked x y z = fit_width w (finpow3_ref KRPow a n c)"
proof -
  note u = assms [THEN uint_at_u128] and ex = assms [THEN uint_at_extract]
  show ?thesis
  proof (cases "c = 0 \<or> n = 0")
    case True
    then show ?thesis
      by (auto simp: rpow_checked_def ex finpow3_ref_def cast_uint_like_sample_eq [OF assms(1)])
  next
    case False
    have p0: "rpow_product c a n 0 < U128" using u by simp
    have par: "n AND 1 = 1 \<longleftrightarrow> odd n" by (simp add: and_one_eq odd_iff_mod_2_eq_one)
    have "rpow_checked x y z = try_ret (rpow_loop c n a (rpow_product c a n 0)) (cast_uint_like_sample x)"
      using False by (cases "odd n") (auto simp: rpow_checked_def ex par odd_iff_mod_2_eq_one simp del: rpow_loop.simps)
    then show ?thesis
      using rpow_loop_eq [of c a 0 n] False u p0
      by (simp add: finpow3_ref_def cast_uint_like_sample_eq [OF assms(1)] del: rpow_loop.simps rpow_product.simps upt_Suc)
  qed
qed

section \<open>Predicates and powers on operands of any width\<close>

lemma finp3_any_width:
  assumes "spec \<in> set FIN_SPECS" and "fs_family spec = FINP3"
    and "uint_at w x a" and "uint_at w2 y b" and "uint_at w3 z c"
  shows "locop_arithmetic3 (finp3_checked spec) x y z = pred_result (finp3_ref (fs_kernel spec) a b c)"
proof -
  obtain x' y' z' where r: "arithmetic_args3 x y z = Ok (x', y', z')" "uint_at (max (max w w2) w3) x' a"
    "uint_at (max (max w w2) w3) y' b" "uint_at (max (max w w2) w3) z' c"
    using arithmetic_args3_uint [OF assms(3-5) refl] by blast
  then show ?thesis
    using fin_specs_predicates [OF assms(1)] assms(2) r(2-4) [THEN uint_at_extract]
    by (auto simp: locop_arithmetic3_def finp3_checked_def finp3_ref_def pred_result_def abs_diff_def)
qed

lemma finp4_any_width:
  assumes "spec \<in> set FIN_SPECS" and "fs_family spec = FINP4"
    and "uint_at w x a" and "uint_at w2 y b" and "uint_at w3 z c" and "uint_at w4 v d"
  shows "locop_arithmetic4 (finp4_checked spec) x y z v = pred_result (finp4_ref (fs_kernel spec) a b c d)"
proof -
  have ab: "abs_diff a b * d \<le> b * c \<longleftrightarrow> a * d \<le> b * d + b * c \<and> b * d \<le> a * d + b * c"
  proof (cases "a \<le> b")
    case True
    have "abs_diff a b * d = b * d - a * d" using True by (simp add: abs_diff_def diff_mult_distrib)
    moreover have "a * d \<le> b * d" using True by (rule mult_le_mono1)
    ultimately show ?thesis by linarith
  next
    case False
    have "abs_diff a b * d = a * d - b * d" using False by (simp add: abs_diff_def diff_mult_distrib)
    moreover have "b * d \<le> a * d" using False by (intro mult_le_mono1) simp
    ultimately show ?thesis by linarith
  qed
  obtain x' y' z' v' tb where r: "arithmetic_args4 x y z v = Ok (x', y', z', v')" "uint_at tb x' a"
    "uint_at tb y' b" "uint_at tb z' c" "uint_at tb v' d"
    using arithmetic_args4_uint [OF assms(3-6) refl] by blast
  note w = withinbps_eq [OF r(2-5)] and c = crossmul_eq [OF r(2-5)]
  have "fs_kernel spec \<in> {KWithinBps, KCrossLte, KCrossGte, KCrossEq}"
    using fin_specs_predicates [OF assms(1)] assms(2) by blast
  then show ?thesis
    using r(1) w c ab
    by (auto simp: locop_arithmetic4_def finp4_checked_def finp4_ref_def pred_result_def)
qed

lemma finpow3_any_width:
  assumes "spec \<in> set FIN_SPECS" and "fs_family spec = FINPOW3"
    and "uint_at w x a" and "uint_at w2 y b" and "uint_at w3 z c"
  shows "locop_arithmetic3 (finpow3_checked spec) x y z =
    fit_width (max (max w w2) w3) (finpow3_ref (fs_kernel spec) a b c)"
  using arithmetic_args3_uint [OF assms(3-5) refl] fin_specs_predicates [OF assms(1)] assms(2) rpow_eq
  by (auto simp: locop_arithmetic3_def finpow3_checked_def)

text \<open>The modular and fused operations as the machine runs them, on widened operands.\<close>

lemma triop_modular_any_width:
  assumes "uint_at w x a" and "uint_at w2 y b" and "uint_at w3 z c" and "tb = max (max w w2) w3"
  shows "locop_arithmetic3 addmod_checked x y z = fit_width tb (if c = 0 then None else Some ((a + b) mod c))"
    and "locop_arithmetic3 mulmod_checked x y z = fit_width tb (if c = 0 then None else Some (a * b mod c))"
    and "locop_arithmetic3 (\<lambda>x y z. muladdsub_checked x y z add_z) x y z =
      fit_width tb (if add_z then Some (a * b + c) else if a * b < c then None else Some (a * b - c))"
proof -
  obtain x' y' z' where r: "arithmetic_args3 x y z = Ok (x', y', z')" "uint_at tb x' a" "uint_at tb y' b" "uint_at tb z' c"
    using arithmetic_args3_uint [OF assms] by blast
  show "locop_arithmetic3 addmod_checked x y z = fit_width tb (if c = 0 then None else Some ((a + b) mod c))"
    and "locop_arithmetic3 mulmod_checked x y z = fit_width tb (if c = 0 then None else Some (a * b mod c))"
    and "locop_arithmetic3 (\<lambda>x y z. muladdsub_checked x y z add_z) x y z =
      fit_width tb (if add_z then Some (a * b + c) else if a * b < c then None else Some (a * b - c))"
    using addmod_eq [OF r(2-4)] mulmod_eq [OF r(2-4)] muladdsub_eq [OF r(2-4)] by (simp_all add: locop_arithmetic3_def r(1))
qed

end
