(* ===== verification/Spec2Isabelle.thy ===== *)
theory Spec2Isabelle
  imports AmountText Scenario EngineScenario VmFin
begin

text \<open>
  A verification development for the Hacash full node, the Rust workspace under
  \<^verbatim>\<open>src/\<close>: the wire types of the ledger, the ledger operations, the layered state, the fork
  tree, block verification, execution and insertion, the engine with its stores, the storage-fee
  economics of contracts, and the values and arithmetic of the virtual machine.

  \<^bold>\<open>How the parts interact.\<close>  A block reaches the engine (\<^verbatim>\<open>chain/src/engine.rs\<close>), which verifies it
  (\<^verbatim>\<open>verify.rs\<close>), executes its transactions on a draft of the layered state (\<^verbatim>\<open>apply.rs\<close> over
  \<^verbatim>\<open>base/src/state/chunk.rs\<close>), attaches the result to the fork tree (\<^verbatim>\<open>tree.rs\<close>), persists it
  (\<^verbatim>\<open>persist.rs\<close>, \<^verbatim>\<open>db/src/block_store.rs\<close>) and announces it. Transactions change the state through
  the ledger operations (\<^verbatim>\<open>base/src/ledger/operate.rs\<close>), whose records are fields of
  \<^verbatim>\<open>field/src/types\<close>. Contracts pay for storage by a budget kept in the same state, and compute
  with the values of \<^verbatim>\<open>vm/src/value\<close>.

  \<^bold>\<open>Conventions.\<close>  An error is a value: \<open>'a ret\<close> is the sum of \<open>error\<close> and \<open>'a\<close>, \<open>try_ret\<close> the
  question-mark operator, \<open>Panic\<close> a place where the code panics. A loop that may not end is a
  \<^theory_text>\<open>partial_function\<close> into \<open>option\<close>, and that it returns is proved. Bytes are 8-bit words; the
  unsigned integers of the code are natural numbers with their width checks written out, and words
  of their width inside machine values. State is passed explicitly: \<open>layer\<close> is a readable
  state, \<open>chunk_store\<close> the heap of chunks with the disk below it, \<open>engine\<close> the node.

  \<^bold>\<open>Theories.\<close>
  \<^item> \<^verbatim>\<open>Prelude\<close>: errors (\<^verbatim>\<open>sys/src/error.rs\<close>), checked integers, big-endian bytes. \<^verbatim>\<open>Codec\<close>: the reader
    and the field codecs (\<^verbatim>\<open>field/src/codec.rs\<close>, \<^verbatim>\<open>uint.rs\<close>, \<^verbatim>\<open>fixed.rs\<close>, \<^verbatim>\<open>bytes_w.rs\<close>,
    \<^verbatim>\<open>list.rs\<close>) with the locale \<open>codec\<close>: an encoder and a decoder that accept exactly each other's
    bytes. It is interpreted for every field type. \<^verbatim>\<open>Fold64\<close>, \<^verbatim>\<open>Address\<close>, \<^verbatim>\<open>Diamond\<close>,
    \<^verbatim>\<open>DiamondOwned\<close>, \<^verbatim>\<open>Balance\<close>, \<^verbatim>\<open>Stored\<close>: the types of the same names.
  \<^item> \<^verbatim>\<open>Base256\<close>, \<^verbatim>\<open>Amount\<close>, \<^verbatim>\<open>AmountText\<close>: byte-array arithmetic and currency amounts, on the wire
    and as text (\<^verbatim>\<open>amount_base256.rs\<close>, \<^verbatim>\<open>amount.rs\<close>). Amounts denote integers, and addition,
    subtraction, order and the text forms agree with them.
  \<^item> \<^verbatim>\<open>CoreState\<close>, \<^verbatim>\<open>Ledger\<close>, \<^verbatim>\<open>LedgerDiamond\<close>, \<^verbatim>\<open>LedgerProps\<close>: typed state and the ledger operations
    (\<^verbatim>\<open>base/src/ledger\<close>). Transfers conserve holdings and keep the counts and the owned lists.
  \<^item> \<^verbatim>\<open>StateChunk\<close>, \<^verbatim>\<open>ChunkProps\<close>: layered state. Reads return, commits are atomic, frozen chunks
    never change. \<^verbatim>\<open>ForkTree\<close>, \<^verbatim>\<open>ForkTreeProps\<close>, \<^verbatim>\<open>StrictChain\<close>, \<^verbatim>\<open>SideBranches\<close>,
    \<^verbatim>\<open>StrictReach\<close>: the tree of unstable blocks, the bound on side branches, and the invariant over all
    states a running strict node reaches.
  \<^item> \<^verbatim>\<open>ContractStorage\<close>, \<^verbatim>\<open>StorageBudget\<close>, \<^verbatim>\<open>ContractFee\<close>: the contract storage budget and fees
    (\<^verbatim>\<open>base/src/ledger/contract_storage.rs\<close>, \<^verbatim>\<open>base/src/registry/mod.rs\<close>,
    \<^verbatim>\<open>vm/src/action/contract_exec.rs\<close>).
  \<^item> \<^verbatim>\<open>BlockVerify\<close>, \<^verbatim>\<open>BlockExec\<close>, \<^verbatim>\<open>Insert\<close>, \<^verbatim>\<open>InsertProps\<close>, \<^verbatim>\<open>BlockStore\<close>, \<^verbatim>\<open>Engine\<close>,
    \<^verbatim>\<open>EngineProps\<close>: verification, execution, insertion, the block store, and the engine above them.
  \<^item> \<^verbatim>\<open>VmValue\<close>, \<^verbatim>\<open>VmArith\<close>, \<^verbatim>\<open>VmFin\<close>: machine values with casts and codec (\<^verbatim>\<open>vm/src/value\<close>), 256-bit
    arithmetic and rounding, and the financial operations (\<^verbatim>\<open>vm/src/interpreter/instruction.rs\<close>,
    \<^verbatim>\<open>vm/src/rt/fin.rs\<close>). Every kernel equals one exact reference number.
  \<^item> \<^verbatim>\<open>Scenario\<close>, \<^verbatim>\<open>BudgetScenario\<close>, \<^verbatim>\<open>ChainScenario\<close>, \<^verbatim>\<open>EngineScenario\<close>: concrete states, chains and a
    node on which the theorems below are applied.

  \<^bold>\<open>What is shown.\<close>  The ledger section: conservation and refinement of transfers, atomic
  transactions. The chain sections: the invariant of every reachable tree, acceptance of valid
  blocks, persistence that no view above the root can notice. The engine section: a node stays
  consistent whatever block it is given, execution on chunks refines sequential execution, the block
  index refines a list. The storage-fee section: the budget recurrence, honoured quotes, bounds on
  prices. The machine section: exact arithmetic, casts and codec. The codec and amount sections:
  decoders accept exactly the encodings, amounts compute on integers.

  \<^bold>\<open>Parameters and hypotheses.\<close>  The hash function, signature checks, the consensus object (proof of
  work, difficulty, rewards), transaction bodies, the base58check text and the key-value database
  are arguments of the definitions. What the theorems ask of them is named: a transaction run on
  the fresh chunk of its own hash, the only one a context is created on, changes that chunk and the
  chunks it creates only, hashes do not collide on the inputs computed for the two blocks at hand, a
  failed disk write is visible as an error. Each such theorem is applied to a concrete instance.

  \<^bold>\<open>Bounds.\<close>  No definition uses fuel. The division loops run over the 128 or 256 bit positions of the
  code. Widths are those of the code (32, 64, 128 bits, 24 bits for diamond numbers).

  \<^bold>\<open>Not modelled.\<close>  The bytecode table, verifier and interpreter of the virtual machine, its
  containers, native functions, contract loading and intents: an instruction set of 185 opcodes whose
  effects run through host services; execution of a transaction is a parameter instead. The source
  language and its decompiler, wallet SDK, JSON and schema printing: presentation, no node state.
  Protocol and mint actions above the ledger operations, mining and diamond bidding: the chain takes
  decoded blocks and the consensus rules as parameters. Peer-to-peer networking, HTTP, the
  application shell, database drivers, threads and queues of the sync pipeline, boot replay: I/O and
  scheduling. Inside modelled parts: the caches of recent blocks and average fees, the log store of
  the machine, message texts beyond their fixed part, and the build feature
  \<^verbatim>\<open>fast-same-second-blocks\<close>.
\<close>

section \<open>The ledger\<close>

text \<open>The abstract ledger of one currency: what a transfer does to the holdings.\<close>

definition spec_transfer :: "(address \<Rightarrow> nat) \<Rightarrow> address \<Rightarrow> address \<Rightarrow> nat \<Rightarrow> address \<Rightarrow> nat" where
  "spec_transfer H from to n =
     (\<lambda>x. if x = from then H from - n
          else if x = to then if to = BLACKHOLE_ADDR then 0 else H to + n
          else H x)"

text \<open>
  C1: a successful HAC transfer between two addresses keeps the sum of all HAC
  holdings, unless the recipient is the black hole; then the sum falls by the amount (and by
  whatever the black hole held).
\<close>

theorem hac_transfer_conserves:
  assumes "hac_transfer height s from to amt = Ok ((), s')" and "from \<noteq> to" and "wf_balances s"
    and "amt_valid amt" and "length from = ADDRESS_SIZE" and "length to = ADDRESS_SIZE"
  shows "(\<Sum>x | addr_valid x. hac_held s' x) + (if to = BLACKHOLE_ADDR then hac_held s to + amt_mag amt else 0)
    = (\<Sum>x | addr_valid x. hac_held s x)"
proof -
  from assms(1,2) obtain s1 where "hac_sub s from amt = Ok ((), s1)" "hac_add s1 to amt = Ok ((), s')"
    by (rule hac_transfer_split)
  then show ?thesis using hac.transfer_conserves assms by blast
qed

theorem hac_transfer_conserves_witness:
  "(\<Sum>x | addr_valid x. hac_held demo_hac x) = (\<Sum>x | addr_valid x. hac_held demo x)"
  using hac_transfer_conserves [OF demo_hac_transfer _ demo_wf] by simp

text \<open>
  C2: a successful HAC transfer to another address refines the abstract transfer: the
  sender held the amount, holdings change as the specification says, and the invariant of
  the balances is kept.
\<close>

theorem hac_transfer_refines:
  assumes "hac_transfer height s from to amt = Ok ((), s')" and "from \<noteq> to" and "wf_balances s"
    and "amt_valid amt" and "length from = ADDRESS_SIZE" and "length to = ADDRESS_SIZE"
  shows "amt_mag amt \<le> hac_held s from \<and> wf_balances s' \<and>
    (\<forall>x. addr_valid x \<longrightarrow> hac_held s' x = spec_transfer (hac_held s) from to (amt_mag amt) x)"
proof -
  from assms(1,2) obtain s1 where sub: "hac_sub s from amt = Ok ((), s1)" and add: "hac_add s1 to amt = Ok ((), s')"
    by (rule hac_transfer_split)
  note t = hac.transfer_spec [OF sub add assms(3-6) assms(2)]
  show ?thesis using t by (simp add: spec_transfer_def)
qed

theorem hac_transfer_refines_witness:
  "hac_held demo_hac bob = spec_transfer (hac_held demo) alice bob (amt_mag (mei 2)) bob"
  using hac_transfer_refines [OF demo_hac_transfer _ demo_wf] by simp

text \<open>
  C34: a transfer of more HAC than the sender holds, to a recipient that may be paid,
  is refused with the insufficient-balance error and no new state, whatever the height. The only exceptions
  are transfers to oneself: below height 200000 a private-key address passes without a balance check and
  nothing changes, and an address of another kind is refused with an error of its own.
\<close>

theorem hac_transfer_insufficient:
  assumes "wf_balances s" and "addr_valid from" and "is_privkey_unknown to \<longrightarrow> to = BLACKHOLE_ADDR"
    and "amt_is_positive amt" and "amt_valid amt" and "hac_held s from < amt_mag amt"
  shows "hac_transfer height s from to amt =
    (if from \<noteq> to \<or> is_privkey from \<and> 200000 \<le> height then revertf ''address balance is insufficient''
     else if is_privkey from then Ok ((), s)
     else errf ''non-privkey address cannot transfer HAC to self'')"
  using assms by (rule hac_transfer_short)

theorem hac_transfer_insufficient_witness:
  "hac_transfer 1 demo alice bob (mei 6) = revertf ''address balance is insufficient'' \<and>
   hac_transfer 200000 demo alice alice (mei 6) = revertf ''address balance is insufficient'' \<and>
   hac_transfer 199999 demo alice alice (mei 6) = Ok ((), demo)"
  using hac_transfer_insufficient [OF demo_wf, of alice bob "mei 6" 1]
    hac_transfer_insufficient [OF demo_wf, of alice alice "mei 6" 200000]
    hac_transfer_insufficient [OF demo_wf, of alice alice "mei 6" 199999]
  by (simp add: hac_held_def demo_bal)

text \<open>
  C35: HAC sent to the black hole is added, in units of 238, to the burn statistic, and
  no other statistic changes.
\<close>

theorem hac_burn_recorded:
  assumes "hac_transfer height s from BLACKHOLE_ADDR amt = Ok ((), s')" and "from \<noteq> BLACKHOLE_ADDR"
    and "wf_balances s" and "length from = ADDRESS_SIZE" and "amt_valid amt" and "get_base_total s = Ok t"
  shows "get_base_total s' =
    Ok (t\<lparr>bt_blackhole_hac_burn_238 := bt_blackhole_hac_burn_238 t + amt_mag amt div 10 ^ 238\<rparr>)"
  using assms by (rule hac_burn_spec)

theorem hac_burn_recorded_witness:
  "\<exists>s'. hac_transfer 1 demo alice BLACKHOLE_ADDR (mei 2) = Ok ((), s') \<and>
     get_base_total s' = Ok (bt_default\<lparr>bt_blackhole_hac_burn_238 := 2 * 10 ^ 10\<rparr>)"
proof -
  obtain s' where t: "hac_transfer 1 demo alice BLACKHOLE_ADDR (mei 2) = Ok ((), s')"
    using demo_burn by blast
  have "get_base_total s' = Ok (bt_default\<lparr>bt_blackhole_hac_burn_238 := 2 * 10 ^ 10\<rparr>)"
    using hac_burn_recorded [OF t _ demo_wf _ _ demo_total] by (simp add: bt_default_def)
  with t show ?thesis by blast
qed

text \<open>
  C3: a diamond transfer keeps the number in each balance equal to the number of
  diamonds recorded as owned by the address, for every address but the black hole.
\<close>

theorem hacd_transfer_keeps_counts:
  assumes "hacd_transfer s from to ds form = Ok ((), s')" and "wf_diamonds s"
    and "length from = ADDRESS_SIZE" and "length to = ADDRESS_SIZE"
  shows "wf_diamonds s'"
  using assms by (rule hacd_transfer_wf)

theorem hacd_transfer_keeps_counts_witness: "wf_diamonds demo \<and> wf_diamonds demo_hacd"
  using hacd_transfer_keeps_counts [OF demo_hacd_transfer demo_wf_diamonds] demo_wf_diamonds by simp

text \<open>
  C30: with owned forms on, a diamond transfer from any address but the black hole keeps
  the owned form of each address but the black hole a list without repetition of exactly the diamonds
  recorded as owned by it.
\<close>

theorem hacd_transfer_keeps_owned:
  assumes "hacd_transfer s from to ds True = Ok ((), s')" and "wf_balances s" and "wf_owned s"
    and "length from = ADDRESS_SIZE" and "length to = ADDRESS_SIZE" and "from \<noteq> BLACKHOLE_ADDR"
  shows "wf_owned s'"
  using assms by (rule hacd_transfer_owned)

theorem hacd_transfer_keeps_owned_witness: "wf_owned demo_hacd"
  using hacd_transfer_keeps_owned [OF demo_hacd_transfer demo_wf demo_wf_owned] by simp

text \<open>
  C31: a diamond transfer moves exactly the named diamonds, all of which the sender
  owned, from the sender to the recipient; nobody else's diamonds change.
\<close>

theorem hacd_transfer_moves:
  assumes "hacd_transfer s from to ds form = Ok ((), s')" and "wf_balances s"
    and "length from = ADDRESS_SIZE" and "length to = ADDRESS_SIZE"
  shows "set ds \<subseteq> diamonds_of s from \<and> distinct ds \<and> diamonds_of s' from = diamonds_of s from - set ds \<and>
    diamonds_of s' to = diamonds_of s to \<union> set ds \<and>
    (\<forall>a. a \<noteq> from \<and> a \<noteq> to \<longrightarrow> diamonds_of s' a = diamonds_of s a)"
  using hacd_transfer_spec(1,3,6) [OF assms] hacd_transfer_spec(8) [OF assms]
  by (simp add: dnl_valid_def)

theorem hacd_transfer_moves_witness: "diamonds_of demo_hacd bob = diamonds_of demo bob \<union> {gem}"
  using hacd_transfer_moves [OF demo_hacd_transfer demo_wf] by simp

text \<open>
  C32: a successful satoshi transfer keeps the sum of all satoshi holdings, except for
  what goes to the black hole.
\<close>

theorem sat_transfer_conserves:
  assumes "sat_transfer s from to sat = Ok ((), s')" and "wf_balances s"
    and "length from = ADDRESS_SIZE" and "length to = ADDRESS_SIZE"
  shows "(\<Sum>x | addr_valid x. sat_held s' x) + (if to = BLACKHOLE_ADDR then sat_held s to + sat else 0)
    = (\<Sum>x | addr_valid x. sat_held s x)"
proof -
  from assms(1) obtain r1 s1 r2 where "from \<noteq> to" "sat_sub s from sat = Ok (r1, s1)" "sat_add s1 to sat = Ok (r2, s')"
    by (auto simp: sat_transfer_def split: if_splits)
  then show ?thesis using sat.transfer_conserves assms by blast
qed

theorem sat_transfer_conserves_witness:
  "(\<Sum>x | addr_valid x. sat_held demo_sat x) = (\<Sum>x | addr_valid x. sat_held demo x)"
  using sat_transfer_conserves [OF demo_sat_transfer demo_wf] by simp

text \<open>
  C33: a successful asset transfer keeps, for every asset serial, the sum of all
  holdings of that asset, except for what the black hole swallows.
\<close>

theorem asset_transfer_conserves:
  assumes "asset_transfer s from to x = Ok ((), s')" and "wf_balances s" and "aa_valid x"
    and "length from = ADDRESS_SIZE" and "length to = ADDRESS_SIZE"
  shows "(\<Sum>a | addr_valid a. asset_held_at k s' a)
      + (if to = BLACKHOLE_ADDR then asset_held_at k s to + asset_qty k x else 0)
    = (\<Sum>a | addr_valid a. asset_held_at k s a)"
proof -
  from assms(1) obtain r1 s1 r2 where "from \<noteq> to" "asset_sub s from x = Ok (r1, s1)" "asset_add s1 to x = Ok (r2, s')"
    by (auto simp: asset_transfer_def split: if_splits)
  then show ?thesis using asset.transfer_conserves assms by blast
qed

theorem asset_transfer_conserves_witness:
  "(\<Sum>a | addr_valid a. asset_held_at 7 demo_asset a) = (\<Sum>a | addr_valid a. asset_held_at 7 demo a)"
  using asset_transfer_conserves [OF demo_asset_transfer demo_wf] by simp

text \<open>
  The typed state reads back the balance that was written, at that address only, and
  writing a balance changes no diamond, owned form, asset, statistic or transaction record.
\<close>

theorem typed_state_laws:
  assumes "bal_valid v" and "addr_valid a" and "addr_valid b"
  shows "get_balance (balance_set s a v) b = (if b = a then Ok (Some v) else get_balance s b) \<and>
    get_diamond (balance_set s a v) n = get_diamond s n \<and>
    get_diamond_owned (balance_set s a v) b = get_diamond_owned s b \<and>
    get_asset (balance_set s a v) k = get_asset s k \<and>
    get_base_total (balance_set s a v) = get_base_total s \<and>
    get_tx_exist (balance_set s a v) h = get_tx_exist s h"
  using assms by (simp add: balance_cell.store.get_put get_base_total_def)

theorem typed_state_laws_witness:
  "get_balance (balance_set demo alice bal_default) alice = Ok (Some bal_default)"
  using typed_state_laws [of bal_default alice alice demo gem 0 "[]"] by simp

section \<open>Diamonds and balances\<close>

text \<open>
  Dropping names from a well-formed owned form succeeds exactly when all of them are
  there; then each is removed once, the others stay, and the count is the number of names.
\<close>

theorem owned_drop_exact:
  assumes "owned_valid form"
  shows "(\<exists>form'. owned_drop form ds = Ok (card (set ds), form') \<and> owned_valid form' \<and>
      mset (owned_names form) = mset (owned_names form') + mset_set (set ds)) \<longleftrightarrow>
    set ds \<subseteq> set (owned_names form)"
  using assms by (rule owned_drop_cases [of form ds]) auto

theorem owned_drop_exact_witness:
  "\<exists>form'. owned_drop gem [gem] = Ok (card (set [gem]), form') \<and> owned_valid form' \<and>
     mset (owned_names gem) = mset (owned_names form') + mset_set (set [gem])"
  using owned_drop_exact [OF gem_form(3), of "[gem]"] by simp

text \<open>
  The comma separated text of a valid diamond list parses back to the list.
\<close>

theorem name_list_round_trip:
  assumes "dnl_valid mx xs" and "mx \<le> uint_MAX p p"
  shows "dnl_from_readable p mx (dnl_splitstr xs) = Ok xs"
  using assms by (rule dnl_readable_round_trip)

theorem name_list_round_trip_witness: "dnl_from_readable 1 200 (dnl_splitstr [gem]) = Ok [gem]"
  by (rule name_list_round_trip) (simp_all add: uint_MAX_eq)

text \<open>
  C36: the balance decoder accepts exactly the encodings of valid balances: amounts in
  canonical form, satoshi and diamond counts in range, at most twenty assets with distinct
  non-zero serials.
\<close>

theorem balance_decode_exact:
  "bal_decode buf = Ok (b, n) \<longleftrightarrow>
     (\<exists>rest. buf = bal_encode b @ rest \<and> bal_valid b \<and> n = length (bal_encode b))"
  using balance.decode_sound [of buf b n] balance.decode_encode [of b] by auto

text \<open>
  Setting an asset of a balance changes the held amount of that serial to the given
  one, leaves every other serial alone, and keeps the balance valid.
\<close>

theorem asset_set_functional:
  assumes "asset_set b amt = Ok b'" and "bal_valid b"
  shows "bal_valid b' \<and> asset_held b' s = (if s = aa_serial amt then aa_amount amt else asset_held b s) \<and>
    bal_hacash b' = bal_hacash b \<and> bal_satoshi b' = bal_satoshi b \<and> bal_diamond b' = bal_diamond b"
  using asset_set_spec [OF assms] by simp

theorem asset_set_functional_witness:
  "asset_set alice_bal (coin7 0) = Ok (alice_bal\<lparr>bal_assets := []\<rparr>) \<and>
   asset_held (alice_bal\<lparr>bal_assets := []\<rparr>) 7 = 0"
proof -
  have e: "asset_set alice_bal (coin7 0) = Ok (alice_bal\<lparr>bal_assets := []\<rparr>)"
    by (simp add: asset_set_def alice_bal_def coin7_def)
  then show ?thesis using asset_set_functional [OF e alice_bal_valid, of 7] by (simp add: coin7_def)
qed

text \<open>
  The variable-length integer decoder accepts exactly the shortest encodings of the
  values up to the maximum.
\<close>

theorem fold64_decode_exact:
  "fold64_decode buf = Ok (v, n) \<longleftrightarrow>
     (\<exists>rest. buf = fold64_encode v @ rest \<and> v \<le> FOLD64_MAX \<and> n = length (fold64_encode v))"
  using fold64.decode_sound [of buf v n] fold64.decode_encode [of v] by (auto simp: fold64_valid_def)

section \<open>Amounts\<close>

text \<open>
  C37: the amount decoder accepts exactly the encodings of well-formed amounts, so every
  amount has one encoding on the wire, and the consumed length is that of the encoding.
\<close>

theorem amount_decode_exact:
  "amt_decode buf = Ok (a, n) \<longleftrightarrow>
     (\<exists>rest. buf = amt_encode a @ rest \<and> amt_valid a \<and> n = length (amt_encode a))"
  by (rule amt_decode_iff)

text \<open>
  C38: an addition that succeeds gives a non-negative canonical amount whose value is the
  sum of the values.
\<close>

theorem amount_add_value:
  assumes "add_mode_u128 a b = Ok c" and "amt_nonneg a" and "amt_nonneg b"
  shows "amt_nonneg c \<and> amt_val c = amt_val a + amt_val b"
  using add_mode_u128_val [OF assms] assms(2,3) by (simp add: amt_nonneg_val)

theorem amount_add_value_witness: "amt_val (mei 2) = amt_val amt_zero + amt_val (mei 2)"
  using amount_add_value [OF mei_add_zero] bal_default_nonneg by simp

text \<open>
  C39: subtraction of non-negative amounts never gives a negative one: it succeeds only if
  the subtrahend is not larger, and then the value is the difference.
\<close>

theorem amount_sub_exact:
  assumes "sub_mode_u128 a b = Ok c" and "amt_nonneg a" and "amt_nonneg b"
  shows "amt_nonneg c \<and> amt_val b \<le> amt_val a \<and> amt_val c = amt_val a - amt_val b"
  using sub_mode_u128_val [OF assms] assms(2,3) by (simp add: amt_nonneg_val)

theorem amount_sub_exact_witness: "amt_val (mei 3) = amt_val (mei 5) - amt_val (mei 2)"
  using amount_sub_exact [OF mei_sub] by simp

text \<open>
  The order of amounts, with its fast path on 128 bits and its wide path on byte arrays,
  is the order of the numbers they denote, also for negative amounts and different units.
\<close>

theorem amount_order:
  assumes "amt_valid a" and "amt_valid b"
  shows "amt_cmp a b = cmp_of (amt_val a) (amt_val b)"
  using assms by (rule amt_cmp_eq)

theorem amount_order_witness: "amt_cmp (mei 2) (mei 5) = Less"
  using amount_order [of "mei 2" "mei 5"] by (simp add: amt_nonneg_val)

text \<open>
  C40: the text \<^verbatim>\<open>value:unit\<close> of a well-formed amount parses back to a well-formed
  amount of the same value, and to the same amount when its mantissa has no trailing zero.
\<close>

theorem amount_text_round_trip:
  assumes "amt_valid a"
  shows "\<exists>b. amt_from (to_fin_string a) = Ok b \<and> amt_valid b \<and> amt_val b = amt_val a \<and>
    (be_nat (amt_byte a) mod 10 \<noteq> 0 \<longrightarrow> b = a)"
  using assms by (rule fin_string_round_trip)

theorem amount_text_round_trip_witness: "\<exists>b. amt_from (to_fin_string (mei 5)) = Ok b \<and> b = mei 5"
proof -
  have v: "amt_valid (mei 5)" by simp
  have "be_nat (amt_byte (mei 5)) mod 10 \<noteq> 0" by (simp add: mei_def)
  with amount_text_round_trip [OF v] show ?thesis by blast
qed

text \<open>
  Compressing an amount to a number of mantissa bytes respects the bound, rounding down
  when discarding and up when growing.
\<close>

theorem compress_bounds:
  assumes "amt_nonneg a" and "compress a btn cpr = Ok c"
  shows "amt_nonneg c \<and> length (amt_byte c) \<le> btn \<and>
    (case cpr of Discard \<Rightarrow> amt_mag c \<le> amt_mag a | Grow \<Rightarrow> amt_mag a \<le> amt_mag c)"
  using assms by (rule compress_spec)

theorem compress_bounds_witness: "compress (mei 5) 1 Grow = Ok (mei 5) \<and> length (amt_byte (mei 5)) \<le> 1"
proof -
  have e: "compress (mei 5) 1 Grow = Ok (mei 5)" by (rule compress_mei)
  show ?thesis using compress_bounds [OF _ e] e by simp
qed

text \<open>
  Reading an amount in a unit truncates: the result is the quotient by the unit, and
  the conversion fails exactly when that does not fit 128 bits.
\<close>

theorem to_unit_truncates:
  assumes "amt_nonneg a"
  shows "to_unit_u128 a base =
    (if amt_mag a div 10 ^ base < 2 ^ 128 then Ok (amt_mag a div 10 ^ base)
     else errf ''amount computing size overflow'')"
  using assms by (rule to_unit_u128_eq)

theorem to_unit_truncates_witness: "to_unit_u128 (mei 5) 248 = Ok 5"
  using to_unit_truncates [of "mei 5" 248] by simp

text \<open>
  The byte-array routines compute on the denoted numbers: scaling by a power of ten,
  truncating division by one, comparison, and multiplication and division by a small number.
\<close>

theorem base256_arithmetic:
  "mul_pow10_b256 bs e = nat_bytes (be_nat bs * 10 ^ e) \<and>
   div_pow10_b256 bs e = nat_bytes (be_nat bs div 10 ^ e) \<and>
   cmp_b256 bs cs = cmp_of (be_nat bs) (be_nat cs) \<and>
   mul_u64_b256 bs m = nat_bytes (be_nat bs * m)"
  by (simp add: mul_pow10_b256_eq div_pow10_b256_eq cmp_b256_eq mul_u64_b256_eq)

text \<open>
  Parsing a digit string into bytes and printing bytes in decimal agree with the numbers
  they denote; a number of more than 127 bytes is refused.
\<close>

theorem base256_decimal:
  assumes "\<forall>c\<in>set ds. is_ascii_digit c"
  shows "from_decimal_b256 ds =
      (if dec_nat ds < 256 ^ 127 then Ok (nat_bytes (dec_nat ds)) else errf ''Amount is too wide.'') \<and>
    dec_nat (to_decimal_b256 bs) = be_nat bs"
  using from_decimal_b256_eq [OF assms] by (simp add: to_decimal_b256_eq)

theorem base256_decimal_witness: "from_decimal_b256 ''10'' = Ok [10]"
  using base256_decimal [of "''10''" "[]"]
  by (simp add: is_ascii_digit_def dec_nat_Cons digit_of_def nat_bytes.simps)

section \<open>State chunks\<close>

text \<open>
  C4: a transaction runs on a child of the block chunk and is atomic: while it writes, the block's
  view does not change; committing gives the block exactly the written view, and discarding leaves
  the block as it was. Writing, committing and discarding all succeed.
\<close>

theorem tx_atomic:
  assumes "chunk_reach st" and "spawn_tx_child st b txh = Ok (t, st1)"
  shows "\<exists>st2. tx_writes ws t st1 = Ok st2 \<and> chunk_view st2 b = chunk_view st b \<and>
    (\<exists>st3. commit_to_parent st2 t = Ok (b, st3) \<and> chunk_view st3 b = apply_writes ws (chunk_view st b)) \<and>
    (\<exists>st3. discard st2 t = Ok st3 \<and> chunk_view st3 b = chunk_view st b)"
  using tx_commit_atomic [OF chunk_reach_wf [OF assms(1)] assms(2), of ws]
    tx_discard_atomic [OF chunk_reach_wf [OF assms(1)] assms(2), of ws]
  by (metis sum.inject(2))

theorem tx_atomic_witness:
  "\<exists>st1 st2 st3. spawn_tx_child demo_st1 1 [7] = Ok (2, st1) \<and> tx_writes [WSet [5] [6]] 2 st1 = Ok st2 \<and>
     commit_to_parent st2 2 = Ok (1, st3) \<and> chunk_view st3 1 [5] = Ok (Some [6])"
proof -
  obtain st1 where "spawn_tx_child demo_st1 1 [7] = Ok (2, st1)" using demo_spawn by blast
  with tx_atomic [OF demo_chunk_reach this, of "[WSet [5] [6]]"] show ?thesis
    by (fastforce simp: apply_writes_def layer_set_def)
qed

text \<open>
  C13: the walk of a state read along parent links returns in every state the operations
  can reach.
\<close>

theorem state_read_returns:
  assumes "chunk_reach st"
  shows "\<exists>r. get_state st i key = Some r"
  using get_state_returns [OF chunk_reach_wf [OF assms]] .

theorem state_read_returns_witness: "\<exists>r. get_state demo_st1 1 [5] = Some r"
  by (rule state_read_returns [OF demo_chunk_reach])

text \<open>
  C14: in every reachable store a parent link points to an older chunk, an AST chunk of
  depth one hangs on a transaction and a deeper one on the AST chunk of the depth before, and every
  child a block holds is a frozen identified block whose link is that block or a disk.
\<close>

theorem chunk_store_typed:
  assumes "chunk_reach st"
  shows "store_typed st"
  using assms by (rule chunk_reach_typed)

theorem chunk_store_typed_witness: "store_typed demo_st1"
  by (rule chunk_store_typed [OF demo_chunk_reach])

text \<open>
  C12: once a chunk is frozen, committed, discarded or taken, no later operation changes
  its overlay or its origin for as long as it lives. Its list of children and its source do change: blocks
  are attached below a frozen chunk, and a new root reads from disk.
\<close>

theorem finalised_immutable:
  assumes "chunk_reach st" and "chunk_step\<^sup>*\<^sup>* st st'" and "cs_chunk st i = Some c" and "\<not> is_writable c"
    and "cs_chunk st' i = Some c'"
  shows "ch_body c' = ch_body c \<and> ch_origin c' = ch_origin c"
  using finalised_stays [OF assms] by simp

theorem finalised_immutable_witness:
  "\<exists>c. cs_chunk (demo_st1\<lparr>cs_disk := (\<lambda>_ _. Ok (Some [1]))\<rparr>) 0 = Some c \<and> ch_body c = Frozen delta_default"
proof -
  have "chunk_step\<^sup>*\<^sup>* demo_st1 (demo_st1\<lparr>cs_disk := (\<lambda>_ _. Ok (Some [1]))\<rparr>)" using step_disk by blast
  from finalised_immutable [OF demo_chunk_reach this, of 0 root_demo_chunk root_demo_chunk]
  show ?thesis by (simp add: demo_st1_def root_demo_chunk_def is_writable_def)
qed

section \<open>The fork tree\<close>

text \<open>
  C9: in every state a running strict node can reach from a new tree - by executing
  blocks, by attaching them, by evicting side branches after a side block or a reorganisation, and by the
  root advance that follows - the fork tree is well shaped, the head is a node no other node outweighs,
  hashes are unique, the durable root's own overlay is on disk, the head is at most the unstable window
  above the durable root, and at most \<open>capacity\<close> blocks lie beside the canonical chain. The replay of side
  branches at boot (\<^verbatim>\<open>attach_side\<close>) and the linear attachment of fast sync are not steps of this machine.
\<close>

theorem strict_chain_invariant:
  assumes "0 < window" and "strict_reach window capacity disk t st"
  shows "tree_inv t st \<and> durable_root st (ft_root t) disk \<and> ft_scheduled_root t = ft_root t \<and>
    hgt st (ft_head t) \<le> hgt st (ft_root t) + window \<and> card (side_nodes t st) \<le> capacity"
  using strict_reach_inv [OF assms] by (simp add: strict_inv_def)

theorem strict_chain_invariant_witness:
  "\<exists>t st. strict_reach 1 8 0 t st \<and> ft_head t = 1 \<and> tree_inv t st \<and> hgt st (ft_head t) \<le> 0 + 1 \<and> card (side_nodes t st) \<le> 8"
proof -
  obtain t st where r: "strict_reach 1 8 0 t st" and t: "ft_head t = 1" "hgt st 1 = 1" using demo_strict_insert by blast
  have "tree_inv t st" "card (side_nodes t st) \<le> 8" using strict_chain_invariant [OF _ r] by simp_all
  then show ?thesis using r t by (intro exI [of _ t] exI [of _ st]) simp
qed

text \<open>
  C10: an executed block that extends a node of the tree with the next height and a new hash is
  always accepted; it becomes the head exactly when its fork-choice key is greater than the head's;
  no view changes; and the root advance it plans is persisted without an error.
\<close>

theorem block_accepted:
  assumes "tree_inv t st" and "durable_root st (ft_root t) disk" and "ft_scheduled_root t = ft_root t"
    and "attachable t st par chunk window False"
  shows "\<exists>ins t' st'. attach t st (hsh st par) chunk window = Some (Ok (ins, t', st')) \<and> tree_inv t' st' \<and>
    ft_head t' = (if fck_less (fkey st (ft_head t)) (fkey st chunk) then chunk else ft_head t) \<and>
    (\<forall>n. chunk_view st' n = chunk_view st n) \<and>
    (\<forall>job. ins_roll ins = Some job \<longrightarrow>
       (\<exists>st''. roll_root t' st' disk (Ok ()) job = Some (Ok (t'\<lparr>ft_root := rj_new_root job\<rparr>, st''))))"
proof -
  obtain ins t' st' where "attach t st (hsh st par) chunk window = Some (Ok (ins, t', st'))"
    "attach_result t st par chunk window False ins t' st'"
    "\<forall>job. ins_roll ins = Some job \<longrightarrow>
       (\<exists>st''. roll_root t' st' disk (Ok ()) job = Some (Ok (t'\<lparr>ft_root := rj_new_root job\<rparr>, st'')) \<and>
          roll_result t' st' disk job st'')"
    using strict_accepts [OF assms] by blast
  then show ?thesis by (intro exI [of _ ins] exI [of _ t'] exI [of _ st']) (auto simp: attach_result_def)
qed

theorem block_accepted_witness:
  "\<exists>ins t' st'. attach demo_tree demo_st1 [1] 1 1 = Some (Ok (ins, t', st')) \<and> ft_head t' = 1"
  using block_accepted [OF _ _ _ demo_attachable] demo_strict_inv demo_keys
  by (fastforce simp: strict_inv_def demo_start)

text \<open>
  C11: persisting a planned root advance succeeds; every node above the new root reads
  as before at every key but the two root markers; the markers hold the new root's hash and height;
  and the tree is well shaped from the new root.
\<close>

theorem root_advance_transparent:
  assumes "tree_inv t st" and "durable_root st (ft_root t) disk"
    and "planned_roll st (ft_root t) (ft_head t) step job" and "0 < step"
    and "in_tree st (rj_new_root job) (ft_scheduled_root t)"
  shows "\<exists>st'. roll_root t st disk (Ok ()) job = Some (Ok (t\<lparr>ft_root := rj_new_root job\<rparr>, st')) \<and>
    tree_inv (t\<lparr>ft_root := rj_new_root job\<rparr>) st' \<and> durable_root st' (rj_new_root job) disk \<and>
    (\<forall>n key. in_tree st (rj_new_root job) n \<longrightarrow> \<not> root_marker key \<longrightarrow> chunk_view st' n key = chunk_view st n key) \<and>
    cs_disk st' disk PERSIST_KEY_ROOT_HASH = Ok (Some (hsh st (rj_new_root job))) \<and>
    cs_disk st' disk PERSIST_KEY_ROOT_HEIGHT = Ok (Some (to_be_bytes 8 (hgt st (rj_new_root job))))"
  using roll_root_spec [OF assms] by (auto simp: roll_result_def)

theorem root_advance_transparent_witness:
  "\<exists>t st job st'. planned_roll st (ft_root t) (ft_head t) 1 job \<and>
     roll_root t st 0 (Ok ()) job = Some (Ok (t\<lparr>ft_root := rj_new_root job\<rparr>, st'))"
proof -
  obtain t st job where d: "tree_inv t st" "durable_root st (ft_root t) 0"
    "planned_roll st (ft_root t) (ft_head t) 1 job" "in_tree st (rj_new_root job) (ft_scheduled_root t)"
    using demo_roll by blast
  from root_advance_transparent [OF d(1-3) _ d(4)] d(3) show ?thesis by auto
qed

text \<open>
  C18: looking up a hash in the fork tree returns, and finds exactly the node of that hash.
\<close>

theorem tree_lookup_exact:
  assumes "tree_inv t st"
  shows "\<exists>r. tree_find t st hash = Some (Ok r) \<and>
    (\<forall>n. r = Some n \<longleftrightarrow> in_tree st (ft_root t) n \<and> hsh st n = hash)"
  using assms by (rule tree_find_spec)

theorem tree_lookup_exact_witness: "tree_find demo_tree demo_st1 [9] = Some (Ok None)"
proof -
  have "tree_inv demo_tree demo_st1" using demo_strict_inv by (simp add: strict_inv_def)
  from tree_lookup_exact [OF this, of "[9]"] obtain r where r: "tree_find demo_tree demo_st1 [9] = Some (Ok r)"
    "\<And>n. r = Some n \<longleftrightarrow> in_tree demo_st1 (ft_root demo_tree) n \<and> hsh demo_st1 n = [9]" by blast
  have "r \<noteq> Some n" for n
    using r(2) [of n] by (cases "n = 0") (simp_all add: demo_start)
  then have "r = None" by (cases r) blast+
  with r(1) show ?thesis by simp
qed

text \<open>
  C29: when the head moves, the confirmed transactions are those of the new branch above the
  fork point that the old branch does not have, and the reverted ones the other way round.
\<close>

theorem head_change_txs:
  assumes "tree_inv t st" and "in_tree st (ft_root t) old" and "in_tree st (ft_root t) new"
  shows "\<exists>fork xs ys. linked st fork xs old \<and> linked st fork ys new \<and> set xs \<inter> set ys = {} \<and>
    canonical_tx_diff st old new = Some (Ok
      \<lparr>td_confirmed = filter (\<lambda>h. h \<notin> set (txs_at st xs)) (txs_at st ys),
       td_reverted = filter (\<lambda>h. h \<notin> set (txs_at st ys)) (txs_at st xs)\<rparr>)"
  using canonical_tx_diff_spec [OF tree_invD(1) [OF assms(1)] assms(2,3)] by blast

theorem head_change_txs_witness: "\<exists>d. canonical_tx_diff demo_st1 0 0 = Some (Ok d)"
proof -
  have "tree_inv demo_tree demo_st1" using demo_strict_inv by (simp add: strict_inv_def)
  from head_change_txs [OF this, of 0 0] show ?thesis by (auto simp: demo_start)
qed

section \<open>The chain engine\<close>

text \<open>
  C5: whatever block is submitted, submission returns. Afterwards the fork tree, the unstable
  window, the canonical index and the stored bodies are consistent again; if they are not, a disk
  write failed and the node has left service. The hypotheses are that the chain was consistent, that
  a transaction run on its own fresh chunk keeps to it and the chunks it creates, and that disk writes
  return.
\<close>

theorem node_stays_consistent:
  assumes "chain_ok ce (nd_eng nd)" and "tx_contract (ce_services ce) eff" and "writes_return io"
    and "pk_hash pkg = blk_hash (pk_obj pkg)" and "length (pk_hash pkg) = 32"
    and "pk_height pkg + ce_unstable_block ce < 2 ^ 64"
  shows "\<exists>r nd'. discover ce io cb pkg nd = Some (r, nd') \<and>
    (chain_ok ce (nd_eng nd') \<or> \<not> writes_succeed io \<and> stopped nd')"
  using discover_ok [OF assms(1,2,4-6,3)] by (simp add: node_ok_def)

theorem node_stays_consistent_witness:
  "\<exists>r nd'. discover demo_ce demo_io demo_cb pkg32 demo_node = Some (r, nd') \<and> chain_ok demo_ce (nd_eng nd')"
proof -
  have "tx_contract (ce_services demo_ce) demo_eff" "pk_height pkg32 + ce_unstable_block demo_ce < 2 ^ 64"
    using demo_contract demo_pkg by (simp_all add: demo_ce_def)
  from node_stays_consistent [OF demo_chain_ok this(1) demo_writes(1) demo_pkg(1,2) this(2)]
  show ?thesis using demo_writes(2) by blast
qed

text \<open>
  C6: a new block in the insertable range whose parent is in the tree, which passes the
  protocol and consensus checks and which executes on the state of its parent, is accepted. Its
  state is the result of the sequential execution, it becomes the head exactly if fork choice
  prefers it, and every node that stays in the tree keeps its state.
\<close>

theorem valid_block_accepted:
  assumes "chain_inv ce eng" and "tx_contract (ce_services ce) eff" and "en_root_available eng"
    and "pk_hash pkg = blk_hash (pk_obj pkg)" and "pk_height pkg + ce_unstable_block ce < 2 ^ 64"
    and "insertable_height (en_tree eng) (en_store eng) (pk_height pkg) = Ok ()"
    and "\<forall>n. in_tree (en_store eng) (ft_root (en_tree eng)) n \<longrightarrow> hsh (en_store eng) n \<noteq> blk_hash (pk_obj pkg)"
    and "in_tree (en_store eng) (ft_root (en_tree eng)) par" and "hsh (en_store eng) par = blk_prev_hash (pk_obj pkg)"
    and "pk_height pkg = hgt (en_store eng) par + 1"
    and "resolve_fork_choice ce eng pkg = Some (Ok (Some (bid_block (ident_at (en_store eng) par), history, key)))"
    and "verify_block (ce_hash ce) (ce_mint_params ce) (ce_now ce) (pk_obj pkg)
           (bid_block (ident_at (en_store eng) par)) = Ok ()"
    and "ce_check_before ce pkg (bid_block (ident_at (en_store eng) par)) history False = Ok ()"
    and "spec_run ce eff eng pkg False (chunk_view (en_store eng) par) = Ok s'" and "do_put_block io = Ok ()"
  shows "\<exists>acc eng'. insert_block ce io eng pkg Strict persist_body = Some (Ok (Accepted acc, eng')) \<and>
    chunk_view (en_store eng') (cs_next (en_store eng)) = s' \<and>
    (ft_head (en_tree eng') = cs_next (en_store eng) \<longleftrightarrow> fck_less (fkey (en_store eng) (ft_head (en_tree eng))) key) \<and>
    (\<forall>n. in_tree (en_store eng) (ft_root (en_tree eng)) n \<longrightarrow>
       chunk_view (en_store eng') n = chunk_view (en_store eng) n)"
  using insert_accepts [OF assms(1,2,4,5,3,6-15)] by blast

theorem valid_block_accepted_witness:
  "\<exists>acc eng'. insert_block demo_ce demo_io demo_eng pkg32 Strict True = Some (Ok (Accepted acc, eng')) \<and>
     chunk_view (en_store eng') 1 [9] = Ok (Some (replicate 32 7)) \<and> ft_head (en_tree eng') = 1"
proof -
  have nx: "cs_next (en_store demo_eng) = 1" by (simp add: demo_eng_sel demo_store_def)
  obtain history where rs: "resolve_fork_choice demo_ce demo_eng pkg32 =
      Some (Ok (Some (bid_block (ident_at (en_store demo_eng) 0), history, fck_from_height 1)))"
    using demo_resolve by blast
  have "\<exists>acc eng'. insert_block demo_ce demo_io demo_eng pkg32 Strict True = Some (Ok (Accepted acc, eng')) \<and>
    chunk_view (en_store eng') (cs_next (en_store demo_eng)) = layer_set no_state [9] (replicate 32 7) \<and>
    (ft_head (en_tree eng') = cs_next (en_store demo_eng) \<longleftrightarrow>
       fck_less (fkey (en_store demo_eng) (ft_head (en_tree demo_eng))) (fck_from_height 1)) \<and>
    (\<forall>n. in_tree (en_store demo_eng) (ft_root (en_tree demo_eng)) n \<longrightarrow>
       chunk_view (en_store eng') n = chunk_view (en_store demo_eng) n)"
    by (rule valid_block_accepted [OF demo_chain_inv _ _ _ _ demo_insertable _ _ _ _ rs])
      (use demo_contract demo_pkg demo_verified demo_run in \<open>simp_all add: demo_eng_sel demo_view demo_io_def demo_ce_def\<close>)
  then show ?thesis unfolding nx using demo_keys by (auto simp: demo_eng_sel layer_set_def)
qed

text \<open>
  C8: inserting a block always returns. If it is accepted, the block is new, extends a
  node of the tree, passes verification and executes on its parent's state, and a side branch never
  exceeds the capacity; duplicates, orphans and discarded side blocks leave the engine as it was.
\<close>

theorem insert_outcomes:
  assumes "chain_inv ce eng" and "tx_contract (ce_services ce) eff" and "pk_hash pkg = blk_hash (pk_obj pkg)"
    and "pk_height pkg + ce_unstable_block ce < 2 ^ 64"
  shows "\<exists>r. insert_block ce io eng pkg Strict persist_body = Some r \<and>
    (\<forall>res eng'. r = Ok (res, eng') \<longrightarrow> (case res of
       Accepted acc \<Rightarrow> inserted_ok ce eff eng pkg persist_body acc eng'
     | Duplicate h \<Rightarrow> eng' = eng \<and> (\<exists>n. in_tree (en_store eng) (ft_root (en_tree eng)) n \<and> hsh (en_store eng) n = h)
     | Orphan h \<Rightarrow> eng' = eng \<and> (\<forall>n. in_tree (en_store eng) (ft_root (en_tree eng)) n \<longrightarrow> hsh (en_store eng) n \<noteq> h)
     | Discarded \<Rightarrow> eng' = eng))"
  using insert_strict_outcome [OF assms] unfolding outcome_ok_def .

theorem insert_outcomes_witness:
  "\<exists>r. insert_block demo_ce demo_io demo_eng pkg32 Strict True = Some r"
proof -
  have "tx_contract (ce_services demo_ce) demo_eff" "pk_height pkg32 + ce_unstable_block demo_ce < 2 ^ 64"
    using demo_contract demo_pkg by (simp_all add: demo_ce_def)
  from insert_outcomes [OF demo_chain_inv this(1) demo_pkg(1) this(2)] show ?thesis by blast
qed

text \<open>
  C7: executing a block on its chunk, with a child chunk per transaction that is
  committed into it, refines the sequential execution on a plain state: the same error, or the same
  final state, with no other chunk changed.
\<close>

theorem block_execution_refines:
  assumes "open_chunk st b" and "tx_contract sv eff"
  shows "case spec_execute sv eff blk fast_sync (chunk_view st b) of
      Inl e \<Rightarrow> execute_block sv blk st b fast_sync = Inl e
    | Inr s' \<Rightarrow> \<exists>st'. execute_block sv blk st b fast_sync = Ok st' \<and> chunk_view st' b = s' \<and>
        (\<forall>j<cs_next st. j \<noteq> b \<longrightarrow> cs_chunk st' j = cs_chunk st j)"
proof (cases "spec_execute sv eff blk fast_sync (chunk_view st b)")
  case (Inl e)
  then show ?thesis using execute_block_sim [OF assms, of blk fast_sync] by simp
next
  case (Inr s')
  then show ?thesis using execute_block_sim [OF assms, of blk fast_sync] by (auto simp: in_block_def)
qed

theorem block_execution_refines_witness:
  "\<exists>st'. execute_block demo_services block32 demo_st1 1 False = Ok st' \<and>
     chunk_view st' 1 = layer_set no_state [9] (replicate 32 7)"
  using block_execution_refines [OF demo_open demo_contract, of block32 False] demo_execute by auto

text \<open>
  C15: two verified blocks whose headers agree on the merkle root and the transaction
  count have the same list of transaction hashes (the hash with fee, which covers a transaction and its
  fee but not its signatures), unless computing the two roots itself met a collision of the hash
  function.
\<close>

theorem merkle_binds_tx_hashes:
  assumes "verify_block H params now blk prev = Ok ()" and "verify_block H params' now' blk' prev' = Ok ()"
    and "blk_mrklroot blk = blk_mrklroot blk'" and "blk_transaction_count blk = blk_transaction_count blk'"
    and "\<forall>x. length (H x) = 32"
    and "hashes_ok (map tx_hash_with_fee (blk_transactions blk))" and "hashes_ok (map tx_hash_with_fee (blk_transactions blk'))"
    and "no_clash H (merkle_inputs H (map tx_hash_with_fee (blk_transactions blk)))
           (merkle_inputs H (map tx_hash_with_fee (blk_transactions blk')))"
  shows "map tx_hash_with_fee (blk_transactions blk) = map tx_hash_with_fee (blk_transactions blk')"
  using merkle_root_inj [OF assms(5,8) _ assms(6,7)] verify_blockD(1,2) [OF assms(1)] verify_blockD(1,2) [OF assms(2)]
    assms(3,4) by simp

theorem merkle_binds_tx_hashes_witness:
  "map tx_hash_with_fee (blk_transactions pair32) = map tx_hash_with_fee (blk_transactions (pair32\<lparr>blk_timestamp := 250\<rparr>))"
  by (rule merkle_binds_tx_hashes [OF demo_pair_verified(1,2)])
    (simp_all add: demo_pair_hashes)

text \<open>
  C17: enforcing the side capacity returns, leaves at most the given number of blocks
  off the main chain, and changes no state of a block that stays.
\<close>

theorem side_branches_bounded:
  assumes "tree_inv t st" and "kids_distinct st"
  shows "\<exists>st'. enforce_side_capacity t st capacity = Some (Ok st') \<and> tree_inv t st' \<and>
    card (side_nodes t st') \<le> capacity \<and> (\<forall>n. chunk_view st' n = chunk_view st n)"
  using enforce_side_capacity_spec [OF assms, of capacity] pruned_view tree_invD(3) [OF assms(1)] by blast

theorem side_branches_bounded_witness:
  "\<exists>st'. enforce_side_capacity demo_tree demo_st1 0 = Some (Ok st') \<and> card (side_nodes demo_tree st') \<le> 0"
proof -
  have "tree_inv demo_tree demo_st1" "kids_distinct demo_st1"
    using demo_strict_inv by (auto simp: strict_inv_def kids_distinct_def demo_st1_def root_demo_chunk_def block_demo_chunk_def)
  from side_branches_bounded [OF this] show ?thesis by blast
qed

text \<open>
  C16: the block database implements a list of block hashes. A reorganisation replaces the
  list after the fork height, an extension appends to it, every height reads back its hash and body,
  and reopening the database gives the same store.
\<close>

theorem block_index_refines:
  assumes "block_store_inv bs" and "k \<le> kb_tip bs" and "k + length hs < 2 ^ 64" and "hs \<noteq> []" and "last hs = hash"
    and "\<forall>x\<in>set hs. length x = 32 \<and> (x = hash \<or> has_body bs x)"
  shows "\<exists>bs'. commit_reorg (Ok ()) bs (k + length hs) hash body (zip [k + 1..<k + 1 + length hs] hs) = Ok bs' \<and>
    block_store_inv bs' \<and> canon bs' = take k (canon bs) @ hs \<and> kv_new (kb_disk bs') = Ok bs' \<and>
    read_by_hash bs' hash = Ok (Some body) \<and>
    (\<forall>h<2 ^ 64. hash_by_height bs' h = Ok (if 0 < h \<and> h \<le> k + length hs then Some (canon bs' ! (h - 1)) else None))"
proof -
  obtain bs' where b: "commit_reorg (Ok ()) bs (k + length hs) hash body (zip [k + 1..<k + 1 + length hs] hs) = Ok bs'"
    "block_store_inv bs'" "canon bs' = take k (canon bs) @ hs" "kb_tip bs' = k + length hs"
    "\<forall>x. read_by_hash bs' x = (if x = hash then Ok (Some body) else read_by_hash bs x)"
    using commit_reorg_spec [OF assms] by blast
  then show ?thesis using kv_new_reopen [OF b(2)] hash_by_height_spec [OF b(2)] by auto
qed

theorem block_index_refines_witness:
  "\<exists>bs'. commit_reorg (Ok ()) empty_blocks 1 (replicate 32 2) [1] [(1, replicate 32 2)] = Ok bs' \<and>
     hash_by_height bs' 1 = Ok (Some (replicate 32 2))"
proof -
  obtain bs' where b: "commit_reorg (Ok ()) empty_blocks 1 (replicate 32 2) [1] [(1, replicate 32 2)] = Ok bs'"
    "canon bs' = [replicate 32 2]"
    "\<forall>h<2 ^ 64. hash_by_height bs' h = Ok (if 0 < h \<and> h \<le> 1 then Some (canon bs' ! (h - 1)) else None)"
    using block_index_refines [OF empty_blocks_inv(1), of 0 "[replicate 32 2]" "replicate 32 2" "[1]"] empty_blocks_inv(2)
    by auto
  show ?thesis using b(1,2) b(3) [rule_format, of 1] by simp
qed

section \<open>The contract storage budget\<close>

text \<open>
  C24: over any number of blocks the storage budget follows its recurrence
  \<open>B' = min C (B + (C - C\<^sub>o\<^sub>l\<^sub>d) - D + R)\<close>, also across capacity expansions: initialisation, discounts,
  settlement and the final check all succeed exactly when every block stays within its quota, and
  otherwise the block is refused because the quota is exhausted. No other key changes.
\<close>

theorem storage_budget_refines:
  assumes "vp_validate vp = Ok ()" and "\<not> csf_is_disabled (vp_contract_storage_fee vp)"
    and "settled_as s vp height r"
  shows "case spec_blocks vp height r blocks of
      None \<Rightarrow> run_blocks vp height blocks s = errf ''contract storage discount quota exhausted''
    | Some r' \<Rightarrow> \<exists>s'. run_blocks vp height blocks s = Ok s' \<and>
        settled_as s' vp (height + length blocks) r' \<and> (\<forall>key. \<not> budget_key key \<longrightarrow> s' key = s key)"
  using assms by (rule run_blocks_spec)

theorem storage_budget_refines_witness:
  "\<exists>s'. run_blocks demo_vp 199 [[5000], [300, 200]] no_state = Ok s' \<and>
     settled_as s' demo_vp 201 (Some (298500, 300000))"
  using storage_budget_refines [OF demo_vp_valid demo_vp_enabled no_state_settled, of 199 "[[5000], [300, 200]]"]
  unfolding demo_blocks by (auto simp: eval_nat_numeral(1))

text \<open>
  C27: the storage price always exists and lies between ten and ten thousand periods;
  it never rises with the remaining budget, and a capacity expansion that credits the whole
  difference to the budget never raises it.
\<close>

theorem storage_price_curve:
  assumes "vp_validate vp = Ok ()" and "\<not> csf_is_disabled (vp_contract_storage_fee vp)"
    and "0 < C" and "C \<le> C'" and "C' \<le> uint_MAX 16 12"
  shows "\<exists>q. price_of vp B C = Ok q \<and> 10 \<le> q \<and> q \<le> 10000 \<and>
    (\<forall>B' q'. B \<le> B' \<and> price_of vp B' C = Ok q' \<longrightarrow> q' \<le> q) \<and>
    (\<forall>q'. B \<le> C \<and> price_of vp (B + (C' - C)) C' = Ok q' \<longrightarrow> q' \<le> q)"
proof -
  have C: "C \<le> uint_MAX 16 12" using assms(4,5) by simp
  obtain q where q: "price_of vp B C = Ok q" "10 \<le> q" "q \<le> 10000"
    using price_in_bounds [OF assms(1-3) C] by blast
  then show ?thesis
    using price_remaining [OF assms(1-3) C _ q(1)] price_expansion [OF assms _ q(1)] by blast
qed

theorem storage_price_curve_witness: "\<exists>q. price_of demo_vp 96000 100000 = Ok q \<and> 10 \<le> q \<and> q \<le> 10000"
proof -
  have "\<exists>q. price_of demo_vp 96000 100000 = Ok q \<and> 10 \<le> q \<and> q \<le> 10000 \<and>
    (\<forall>B' q'. 96000 \<le> B' \<and> price_of demo_vp B' 100000 = Ok q' \<longrightarrow> q' \<le> q) \<and>
    (\<forall>q'. (96000::nat) \<le> 100000 \<and> price_of demo_vp (96000 + (300000 - 100000)) 300000 = Ok q' \<longrightarrow> q' \<le> q)"
    by (rule storage_price_curve) (simp_all add: uint12_MAX)
  then show ?thesis by blast
qed

text \<open>
  C28: the range published for wallets against what the code publishes after the next block,
  whatever discounts that block books: its discounts fit the published quota, the budget afterwards is at
  least the lower bound, and the price is at most the upper bound. While the capacity stays the same the
  budget is also at most the upper bound and the price at least the lower bound. When the block after the
  next one starts a capacity expansion, the budget may exceed the bound by the added capacity, and the
  lower bound of the price no longer holds.
\<close>

theorem wallet_facts_bound:
  assumes "vp_validate vp = Ok ()" and "\<not> csf_is_disabled (vp_contract_storage_fee vp)"
    and "settled_as s vp height r" and "run_blocks vp height [charges] s = Ok s'"
  shows "\<exists>facts facts'. contract_storage_fee_facts s vp height = Ok facts \<and>
    contract_storage_fee_facts s' vp (Suc height) = Ok facts' \<and>
    sum_list charges \<le> sf_next_block_quota facts \<and> sf_next_remaining_lo facts \<le> sf_remaining facts' \<and>
    sf_remaining facts' \<le> sf_next_remaining_hi facts + (sf_capacity facts' - sf_capacity facts) \<and>
    sf_periods facts' \<le> sf_next_periods_hi facts \<and>
    (sf_capacity facts' = sf_capacity facts \<longrightarrow> sf_next_periods_lo facts \<le> sf_periods facts')"
  using assms by (rule facts_after_block)

theorem wallet_facts_bound_witness:
  "\<exists>s' facts facts'. run_blocks demo_vp 199 [[5000]] no_state = Ok s' \<and>
    contract_storage_fee_facts no_state demo_vp 199 = Ok facts \<and>
    contract_storage_fee_facts s' demo_vp 200 = Ok facts' \<and> 5000 \<le> sf_next_block_quota facts \<and>
    sf_periods facts' \<le> sf_next_periods_hi facts"
proof -
  obtain s' where s': "run_blocks demo_vp 199 [[5000]] no_state = Ok s'" using demo_199 by blast
  have "Suc 199 = (200 :: nat)" by simp
  with wallet_facts_bound [OF demo_vp_valid demo_vp_enabled no_state_settled s'] s' show ?thesis by auto
qed

text \<open>
  C25: a contract fee that strict execution accepts leaves the same state when the
  transaction is replayed by fast sync, so the two modes cannot diverge.
\<close>

theorem fast_sync_converges:
  assumes "enforce_contract_storage_fee (ctx\<lparr>fx_fast_sync := False\<rparr>) s bytes cost = Ok ((), s')"
  shows "enforce_contract_storage_fee (ctx\<lparr>fx_fast_sync := True\<rparr>) s bytes cost = Ok ((), s')"
  using assms by (rule fast_sync_agrees)

theorem fast_sync_converges_witness:
  "enforce_contract_storage_fee (demo_ctx\<lparr>fx_fast_sync := True\<rparr>) open_block 500 (settlement_amount 60000000) =
     Ok ((), layer_set open_block BLOCK_BUDGET_USED_KEY (uint_encode 16 12 1500))"
  by (rule fast_sync_converges) (use demo_enforce in \<open>simp add: demo_ctx_def\<close>)

text \<open>
  C26: when a quote offers a discount, a wallet that pays either quoted price is accepted in the
  same block state: the full price without touching the quota, the discount price by booking exactly the
  quoted bytes.
\<close>

theorem quote_honoured:
  assumes "quote_contract_storage_fee ctx s bytes = Ok q" and "fq_discount q = Some (disc, periods)"
  shows "enforce_contract_storage_fee ctx s bytes (fq_full_price q) = Ok ((), s) \<and>
    (\<exists>vp snap. fx_vm_params ctx = Ok vp \<and> read_block_contract_storage_snapshot s vp (fx_height ctx) = Ok (Some snap) \<and>
       enforce_contract_storage_fee ctx s bytes disc = Ok ((),
         if amt_less disc (fq_full_price q)
         then layer_set s BLOCK_BUDGET_USED_KEY (uint_encode 16 12 (ss_used_discount snap + bytes))
         else s))"
  using quote_accepted [OF assms] by blast

theorem quote_honoured_witness:
  "enforce_contract_storage_fee demo_ctx open_block 500 (settlement_amount 150000000) = Ok ((), open_block)"
  using quote_honoured [OF demo_quote, of "settlement_amount 60000000" 4000] by simp

section \<open>The virtual machine\<close>

text \<open>
  C19: every registered financial operation on unsigned operands of any widths equals a
  reference on unbounded numbers, and is an arithmetic error exactly when the reference is undefined or
  does not fit. The quotients, roots, means and saturated sums are rounded once as their names say and
  fit the widest operand width, with the multiply-add (\<^verbatim>\<open>u64_mad\<close>) at the width of its base; the 256-bit
  intermediate results never distort them. The predicates (\<^verbatim>\<open>abs_diff_lte\<close>, \<^verbatim>\<open>within_bps\<close> and the crossed
  products) decide the inequality they stand for. The fixed-point power is the product, rounded half up
  at every step, of the repeated squares the bits of the exponent pick; it also fails when one of these
  steps leaves 128 bits.
\<close>

theorem fin_kernels_exact:
  assumes "spec \<in> set FIN_SPECS" and "uint_at w x a" and "uint_at w2 y b" and "uint_at w3 z c"
    and "uint_at w4 v d"
  shows "(fs_family spec = FIN2 \<longrightarrow> locop_arithmetic (fin2_checked spec) x y =
      fit_width (max w w2) (fin2_ref (fs_kernel spec) (round_or_exact spec) (max w w2) a b)) \<and>
    (fs_family spec = FIN3 \<longrightarrow> triop_fin spec x y z =
      fit_width (if fs_kernel spec = KU64Mad then w else max (max w w2) w3)
        (fin3_ref (fs_kernel spec) (round_or_exact spec) a b c)) \<and>
    (fs_family spec = FIN4 \<longrightarrow> locop_arithmetic4 (fin4_checked spec) x y z v =
      fit_width (max (max (max w w2) w3) w4)
        (fin4_ref (fs_kernel spec) (round_or_exact spec) a b c d)) \<and>
    (fs_family spec = FINP3 \<longrightarrow> locop_arithmetic3 (finp3_checked spec) x y z =
      pred_result (finp3_ref (fs_kernel spec) a b c)) \<and>
    (fs_family spec = FINP4 \<longrightarrow> locop_arithmetic4 (finp4_checked spec) x y z v =
      pred_result (finp4_ref (fs_kernel spec) a b c d)) \<and>
    (fs_family spec = FINPOW3 \<longrightarrow> locop_arithmetic3 (finpow3_checked spec) x y z =
      fit_width (max (max w w2) w3) (finpow3_ref (fs_kernel spec) a b c))"
  using fin2_any_width [OF assms(1) _ assms(2,3)] triop_fin_any_width [OF assms(1) _ assms(2-4)]
    fin4_any_width [OF assms(1) _ assms(2-5)] finp3_any_width [OF assms(1) _ assms(2-4)]
    finp4_any_width [OF assms(1) _ assms(2-5)] finpow3_any_width [OF assms(1) _ assms(2-4)]
  by blast

theorem fin_kernels_exact_witness:
  "triop_fin (fin_spec FIN3 2 ''mul_div_ceil'' KMulDiv (Some Ceil)) (VU64 10) (VU8 7) (VU16 4) = Ok (VU64 18) \<and>
   locop_arithmetic3 (finpow3_checked (fin_spec FINPOW3 0 ''rpow_half_up'' KRPow (Some HalfUp))) (VU64 15) (VU8 3) (VU16 10) =
     Ok (VU64 35)"
proof -
  have "fin_spec FIN3 2 ''mul_div_ceil'' KMulDiv (Some Ceil) \<in> set FIN_SPECS"
    "fin_spec FINPOW3 0 ''rpow_half_up'' KRPow (Some HalfUp) \<in> set FIN_SPECS" by (simp_all add: FIN_SPECS_def)
  moreover have "uint_at 64 (VU64 10) 10" "uint_at 8 (VU8 7) 7" "uint_at 16 (VU16 4) 4" "uint_at 8 (VU8 0) 0"
    "uint_at 64 (VU64 15) 15" "uint_at 8 (VU8 3) 3" "uint_at 16 (VU16 10) 10"
    by (simp_all add: uint_at_def)
  ultimately show ?thesis
    using fin_kernels_exact [of "fin_spec FIN3 2 ''mul_div_ceil'' KMulDiv (Some Ceil)" 64 "VU64 10" 10 8 "VU8 7" 7
        16 "VU16 4" 4 8 "VU8 0" 0]
      fin_kernels_exact [of "fin_spec FINPOW3 0 ''rpow_half_up'' KRPow (Some HalfUp)" 64 "VU64 15" 15 8 "VU8 3" 3
        16 "VU16 10" 10 8 "VU8 0" 0]
    by (simp add: fin3_ref_def finpow3_ref_def half_up_def U128_def top_bit.simps round_or_exact_def fit_width_def
        uint_try_from_def)
qed

text \<open>
  C20: dividing a 256-bit number by a 128-bit one under a rounding policy succeeds
  with \<open>q\<close> exactly if \<open>q\<close> fits 128 bits and is the quotient the policy asks for: exact, the floor,
  the ceiling, or the nearest with ties up or to even. Otherwise it is an arithmetic error.
\<close>

theorem wide_division_rounds:
  assumes "hi < U128" and "lo < U128" and "d < U128" and "0 < d"
  shows "(div_u256_by_u128_with_round hi lo d p = Ok q \<longleftrightarrow>
      q < U128 \<and> rounds_to p (hi * U128 + lo) d q) \<and>
    (div_u256_by_u128_with_round hi lo d p = arith_err \<or>
      (\<exists>q. div_u256_by_u128_with_round hi lo d p = Ok q))"
proof -
  have "fit_u128 r = Ok q \<longleftrightarrow> q < U128 \<and> r = Some q" for r by (cases r) auto
  moreover have "fit_u128 r = arith_err \<or> (\<exists>q. fit_u128 r = Ok q)" for r by (cases r) auto
  ultimately show ?thesis
    using round_quot_correct [OF assms(4), of p "u256 hi lo" q]
    by (simp add: div_u256_by_u128_with_round_eq [OF assms] u256_def)
qed

theorem wide_division_rounds_witness:
  "div_u256_by_u128_with_round 1 0 2 HalfEven = Ok (2 ^ 127) \<and>
   div_u256_by_u128_with_round 0 7 2 HalfEven = Ok 4"
proof
  show "div_u256_by_u128_with_round 1 0 2 HalfEven = Ok (2 ^ 127)"
    using wide_division_rounds [of 1 0 2 HalfEven "2 ^ 127"] by (simp add: U128_def)
  show "div_u256_by_u128_with_round 0 7 2 HalfEven = Ok 4"
    using wide_division_rounds [of 0 7 2 HalfEven 4] by (simp add: U128_def)
qed

text \<open>
  C21: the checked operations as the machine runs them on unsigned operands of any widths
  - it widens the operands to the widest of them first - compute the number of ordinary arithmetic at that
  width, and fail exactly on overflow, underflow, a zero divisor or a zero modulus.
\<close>

theorem vm_arithmetic_exact:
  assumes "uint_at w x a" and "uint_at w2 y b" and "uint_at w3 z c"
  shows "locop_arithmetic vm_add_checked x y = fit_width (max w w2) (Some (a + b)) \<and>
    locop_arithmetic vm_sub_checked x y = fit_width (max w w2) (if a < b then None else Some (a - b)) \<and>
    locop_arithmetic vm_mul_checked x y = fit_width (max w w2) (Some (a * b)) \<and>
    locop_arithmetic vm_div_checked x y = fit_width (max w w2) (if b = 0 then None else Some (a div b)) \<and>
    locop_arithmetic vm_mod_checked x y = fit_width (max w w2) (if b = 0 then None else Some (a mod b)) \<and>
    locop_arithmetic3 addmod_checked x y z =
      fit_width (max (max w w2) w3) (if c = 0 then None else Some ((a + b) mod c)) \<and>
    locop_arithmetic3 mulmod_checked x y z =
      fit_width (max (max w w2) w3) (if c = 0 then None else Some (a * b mod c)) \<and>
    locop_arithmetic3 (\<lambda>x y z. muladdsub_checked x y z True) x y z =
      fit_width (max (max w w2) w3) (Some (a * b + c)) \<and>
    locop_arithmetic3 (\<lambda>x y z. muladdsub_checked x y z False) x y z =
      fit_width (max (max w w2) w3) (if a * b < c then None else Some (a * b - c))"
proof -
  have "fit_width k (if n < 2 ^ k then Some n else None) = fit_width k (Some n)" for k n
    by (simp add: fit_width_def)
  then show ?thesis
    using locop_ahmtdo [OF assms(1,2)] triop_modular_any_width [OF assms refl]
    by (auto simp: vm_add_checked_def vm_sub_checked_def vm_mul_checked_def vm_div_checked_def
        vm_mod_checked_def checked_add_def checked_sub_def checked_mul_def checked_div_def checked_rem_def
        not_less)
qed

theorem vm_arithmetic_exact_witness:
  "locop_arithmetic vm_add_checked (VU8 250) (VU16 10) = Ok (VU16 260) \<and>
   locop_arithmetic vm_sub_checked (VU8 250) (VU16 10) = Ok (VU16 240) \<and>
   locop_arithmetic3 addmod_checked (VU8 250) (VU16 10) (VU16 300) = Ok (VU16 260)"
proof -
  have "uint_at 8 (VU8 250) 250" "uint_at 16 (VU16 10) 10" "uint_at 16 (VU16 300) 300"
    by (simp_all add: uint_at_def)
  from vm_arithmetic_exact [OF this] show ?thesis by (simp add: fit_width_def uint_try_from_def)
qed

text \<open>
  C22: the storage codec of the machine's values. Exactly the storable values encode, each
  encoding decodes to its value in front of any further bytes, and whatever decodes is the encoding
  of its value, apart from byte strings of 65535 bytes, which decode although they cannot be encoded.
\<close>

theorem vm_value_codec:
  "(storable v \<longrightarrow> (\<exists>bs. value_encode v = Ok bs \<and> value_decode (bs @ rest) = Ok (v, length bs))) \<and>
   (value_decode buf = Ok (v, n) \<longrightarrow> v \<notin> VBytes ` {b. length b = 65535} \<longrightarrow>
      storable v \<and> n \<le> length buf \<and> value_encode v = Ok (take n buf)) \<and>
   (length b = 65535 \<longrightarrow> value_decode ([8, 255, 255] @ b) = Ok (VBytes b, 65538) \<and>
      value_encode (VBytes b) = panicf ''Value::serialize bytes length exceeds u16 field limit'')"
  using value_decode_encode [of v rest] value_encode_decode [of buf v n] value_decode_limit [of b] by blast

theorem vm_value_codec_witness:
  "value_decode ([3, 1, 2] @ [9]) = Ok (VU16 258, 3)"
proof -
  have "storable (VU16 258)" by simp
  with vm_value_codec [of "VU16 258" "[9]" "[]" 0 "[]"] obtain bs where
    e: "value_encode (VU16 258) = Ok bs" and d: "value_decode (bs @ [9]) = Ok (VU16 258, length bs)" by blast
  have "value_encode (VU16 258) = Ok [3, 1, 2]"
    by (simp add: value_encode_def ty_num_def to_be_bytes_2)
  with e have bs: "bs = [3, 1, 2]" by simp
  from d show ?thesis unfolding bs by simp
qed

text \<open>
  C23: a cast to an unsigned width reads the number the value denotes and succeeds exactly
  if it fits, keeping the number; and two unsigned values of any widths are the same map key exactly
  if they are the same number, with a key that is never empty.
\<close>

theorem vm_casts_exact:
  assumes "bits \<in> {8, 16, 32, 64, 128}"
  shows "(cast_to_uint_width v bits = Ok u \<longleftrightarrow> (\<exists>n < 2 ^ bits. to_u128 v = Ok n \<and> uint_at bits u n)) \<and>
    (uint_at w x a \<longrightarrow> uint_at w2 y b \<longrightarrow>
      (extract_key_bytes_ec ec x = extract_key_bytes_ec ec y \<longleftrightarrow> a = b) \<and>
      (\<exists>k. extract_key_bytes_ec ec x = Ok k \<and> k \<noteq> []))"
proof (intro conjI impI)
  show "cast_to_uint_width v bits = Ok u \<longleftrightarrow> (\<exists>n < 2 ^ bits. to_u128 v = Ok n \<and> uint_at bits u n)"
    by (rule cast_to_uint_width_iff [OF assms])
next
  assume "uint_at w x a" "uint_at w2 y b"
  then have xy: "uint_u128_opt x = Some a" "uint_u128_opt y = Some b" by (simp_all add: uint_at_def)
  show "extract_key_bytes_ec ec x = extract_key_bytes_ec ec y \<longleftrightarrow> a = b" by (rule uint_keys_agree [OF xy])
  show "\<exists>k. extract_key_bytes_ec ec x = Ok k \<and> k \<noteq> []"
    using extract_key_bytes_uint [OF xy(1), of ec] extract_key_bytes_nonempty [of ec x] by blast
qed

theorem vm_casts_exact_witness:
  "cast_to_uint_width (VBytes [0, 0, 1, 44]) 16 = Ok (VU16 300) \<and>
   extract_key_bytes_ec ''CastBeKeyFail'' (VU8 1) = extract_key_bytes_ec ''CastBeKeyFail'' (VU128 1)"
proof -
  have "(300 :: nat) < 2 ^ 16 \<and> to_u128 (VBytes [0, 0, 1, 44]) = Ok 300 \<and> uint_at 16 (VU16 300) 300"
    by (simp add: to_u128_def buf_to_u128_eq uint_at_def)
  moreover have "uint_at 8 (VU8 1) 1" "uint_at 128 (VU128 1) 1" by (simp_all add: uint_at_def)
  ultimately show ?thesis
    using vm_casts_exact [of 16 "VBytes [0, 0, 1, 44]" "VU16 300" 8 "VU8 1" 1 128 "VU128 1" 1 "''CastBeKeyFail''"]
    by blast
qed

end
